(* ===== verification/Prelude.thy ===== *)
theory Prelude
  imports Main "HOL-Library.AList"
begin

text \<open>
  What the components share: Python strings as lists of code points, exceptions as values,
  insertion-ordered dictionaries as association lists, list slices, and the lemma
  collections that carry the component proofs.
\<close>

named_theorems result_simps \<comment> \<open>rewriting of computations that may raise\<close>
named_theorems dict_simps \<comment> \<open>lookups after updates of a dictionary\<close>

section \<open>Strings\<close>

text \<open>
  A Python \<open>str\<close> is a sequence of Unicode code points, not of bytes. \<open>u\<close> embeds the ASCII
  literals of the source.
\<close>

type_synonym pystr = "int list"

definition u :: "string \<Rightarrow> pystr" where
  "u s = map of_char s"

lemma u_eq_iff [simp]: "u s = u t \<longleftrightarrow> s = t"
proof
  assume "u s = u t"
  then show "s = t" unfolding u_def
  proof (rule map_injective)
    show "inj (of_char :: char \<Rightarrow> int)"
      by (rule inj_of_char)
  qed
qed simp

lemma u_empty_iff [simp]: "u s = [] \<longleftrightarrow> s = []"
  by (simp add: u_def)

lemma u_Nil [simp]: "u [] = []"
  by (simp add: u_def)

lemma u_append: "u (s @ t) = u s @ u t"
  by (simp add: u_def)

lemma length_u [simp]: "length (u s) = length s"
  by (simp add: u_def)

text \<open>\<open>str.isspace\<close> on one code point, and the truth value of \<open>not s.strip()\<close>.\<close>

definition is_space :: "int \<Rightarrow> bool" where
  "is_space c \<longleftrightarrow> 9 \<le> c \<and> c \<le> 13 \<or> 28 \<le> c \<and> c \<le> 32 \<or> c = 133 \<or> c = 160 \<or> c = 5760
     \<or> 8192 \<le> c \<and> c \<le> 8202 \<or> c = 8232 \<or> c = 8233 \<or> c = 8239 \<or> c = 8287 \<or> c = 12288"

definition blank :: "pystr \<Rightarrow> bool" where
  "blank s \<longleftrightarrow> list_all is_space s"

lemma blank_Nil [simp]: "blank []"
  by (simp add: blank_def)

definition py_lstrip :: "pystr \<Rightarrow> pystr" where
  "py_lstrip s = dropWhile is_space s"

definition py_strip :: "pystr \<Rightarrow> pystr" where
  "py_strip s = rev (dropWhile is_space (rev (py_lstrip s)))"

lemma dropWhile_all: "(\<forall>x\<in>set (dropWhile p s). p x) \<longleftrightarrow> (\<forall>x\<in>set s. p x)"
  by (induction s) auto

lemma py_strip_empty_iff: "py_strip s = [] \<longleftrightarrow> blank s"
  by (simp add: py_strip_def py_lstrip_def blank_def list_all_iff dropWhile_eq_Nil_conv
      dropWhile_all)

text \<open>\<open>s.startswith(p)\<close> and \<open>p in s\<close>.\<close>

definition startswith :: "pystr \<Rightarrow> pystr \<Rightarrow> bool" where
  "startswith s p \<longleftrightarrow> take (length p) s = p"

fun substring :: "pystr \<Rightarrow> pystr \<Rightarrow> bool" where
  "substring p [] = (p = [])"
| "substring p (c # s) = (startswith (c # s) p \<or> substring p s)"

text \<open>\<open>sep.join(parts)\<close>\<close>

fun join :: "pystr \<Rightarrow> pystr list \<Rightarrow> pystr" where
  "join sep [] = []"
| "join sep [x] = x"
| "join sep (x # y # ys) = x @ sep @ join sep (y # ys)"

text \<open>\<open>s.split()\<close>: the maximal runs of characters that are not white space.\<close>

fun split_from :: "pystr \<Rightarrow> pystr \<Rightarrow> pystr list" where
  "split_from chunk [] = (if chunk = [] then [] else [chunk])"
| "split_from chunk (c # s) =
     (if is_space c then (if chunk = [] then split_from [] s else chunk # split_from [] s)
      else split_from (chunk @ [c]) s)"

definition split_ws :: "pystr \<Rightarrow> pystr list" where
  "split_ws s = split_from [] s"

lemma split_from_nonempty: "x \<in> set (split_from chunk s) \<Longrightarrow> x \<noteq> []"
  by (induction chunk s rule: split_from.induct) (auto split: if_splits)

text \<open>Decimal rendering of a natural number, and the zero-padded \<open>{n:0wd}\<close>.\<close>

fun dec :: "nat \<Rightarrow> pystr" where
  "dec n = (if n < 10 then [48 + int n] else dec (n div 10) @ [48 + int (n mod 10)])"

declare dec.simps [simp del]

definition dec_pad :: "nat \<Rightarrow> nat \<Rightarrow> pystr" where
  "dec_pad w n = replicate (w - length (dec n)) 48 @ dec n"

fun undec :: "pystr \<Rightarrow> nat" where
  "undec s = foldl (\<lambda>a c. 10 * a + nat (c - 48)) 0 s"

lemma undec_dec: "undec (dec n) = n"
proof (induction n rule: dec.induct)
  case (1 n)
  show ?case
  proof (cases "n < 10")
    case True
    then show ?thesis by (subst dec.simps) simp
  next
    case False
    with 1 have "foldl (\<lambda>a c. 10 * a + nat (c - 48)) 0 (dec (n div 10)) = n div 10" by simp
    with False show ?thesis by (subst dec.simps) simp
  qed
qed

lemma undec_zeros: "undec (replicate k 48 @ s) = undec s"
  by (induction k) auto

lemma dec_pad_inject [simp]: "dec_pad w m = dec_pad w n \<longleftrightarrow> m = n"
proof
  assume "dec_pad w m = dec_pad w n"
  then have "undec (dec_pad w m) = undec (dec_pad w n)" by (rule arg_cong)
  then show "m = n" by (simp only: dec_pad_def undec_zeros undec_dec)
qed simp

section \<open>Exceptions as values\<close>

text \<open>
  A Python exception is a value: its class, and a short name of the raise site in place of
  the message text. \<open>OtherError\<close> stands for whatever a call outside this repository raises.
\<close>

datatype exn =
    ValueError string
  | TypeError string
  | KeyError string
  | IndexError string
  | RuntimeError string
  | HydrationError string
  | RetrievalError string
  | TimeoutError
  | OtherError string

type_synonym 'a result = "exn + 'a"

text \<open>Sequencing: the first exception stops the computation.\<close>

fun andThen :: "'a result \<Rightarrow> ('a \<Rightarrow> 'b result) \<Rightarrow> 'b result" where
  "andThen (Inl e) f = Inl e"
| "andThen (Inr x) f = f x"

lemma andThen_Inr_iff [result_simps]:
  "andThen m f = Inr y \<longleftrightarrow> (\<exists>x. m = Inr x \<and> f x = Inr y)"
  by (cases m) auto

lemma andThen_InrE: "andThen m f = Inr y \<Longrightarrow> (\<And>x. m = Inr x \<Longrightarrow> f x = Inr y \<Longrightarrow> P) \<Longrightarrow> P"
  by (cases m) auto

lemma andThen_Inl_iff [result_simps]:
  "andThen m f = Inl e \<longleftrightarrow> m = Inl e \<or> (\<exists>x. m = Inr x \<and> f x = Inl e)"
  by (cases m) auto

fun is_ok :: "'a result \<Rightarrow> bool" where
  "is_ok (Inr x) = True"
| "is_ok (Inl e) = False"

lemma is_ok_iff: "is_ok r \<longleftrightarrow> (\<exists>x. r = Inr x)"
  by (cases r) auto

lemma is_okD: "is_ok r \<Longrightarrow> \<exists>x. r = Inr x"
  by (cases r) auto

text \<open>A list comprehension whose element expression may raise.\<close>

fun mapR :: "('a \<Rightarrow> 'b result) \<Rightarrow> 'a list \<Rightarrow> 'b list result" where
  "mapR f [] = Inr []"
| "mapR f (x # xs) = andThen (f x) (\<lambda>y. andThen (mapR f xs) (\<lambda>ys. Inr (y # ys)))"

lemma mapR_Inr_iff: "mapR f xs = Inr ys \<longleftrightarrow> list_all2 (\<lambda>x y. f x = Inr y) xs ys"
  by (induction xs arbitrary: ys) (auto simp: result_simps list_all2_Cons1)

lemma mapR_all_Inr: "(\<And>x. x \<in> set xs \<Longrightarrow> f x = Inr (g x)) \<Longrightarrow> mapR f xs = Inr (map g xs)"
  by (induction xs) auto

lemma mapR_total: "\<forall>x\<in>set xs. \<exists>y. f x = Inr y \<Longrightarrow> \<exists>ys. mapR f xs = Inr ys"
  by (induction xs) auto

lemma list_all2_in_right: "list_all2 P xs ys \<Longrightarrow> y \<in> set ys \<Longrightarrow> \<exists>x\<in>set xs. P x y"
  by (induction rule: list_all2_induct) auto

lemma list_all2_map_eq: "list_all2 (\<lambda>x y. f x = g y) xs ys \<Longrightarrow> map f xs = map g ys"
  by (induction rule: list_all2_induct) auto

section \<open>Dictionaries\<close>

text \<open>
  A Python dict keeps insertion order: an association list with distinct keys, where
  \<open>AList.update\<close> replaces in place or appends, and \<open>AList.delete\<close> is \<open>pop\<close>.
\<close>

type_synonym ('k, 'v) dict = "('k \<times> 'v) list"

definition dkeys :: "('k, 'v) dict \<Rightarrow> 'k list" where
  "dkeys d = map fst d"

definition dict_ok :: "('k, 'v) dict \<Rightarrow> bool" where
  "dict_ok d \<longleftrightarrow> distinct (dkeys d)"

lemma map_of_update [dict_simps]: "map_of (AList.update k v d) = (map_of d)(k \<mapsto> v)"
  by (rule update_conv')

lemma map_of_delete [dict_simps]: "map_of (AList.delete k d) = (map_of d)(k := None)"
  by (rule delete_conv')

lemma dict_ok_Nil [simp]: "dict_ok []"
  by (simp add: dict_ok_def dkeys_def)

lemma dict_ok_update [simp]: "dict_ok d \<Longrightarrow> dict_ok (AList.update k v d)"
  by (simp add: dict_ok_def dkeys_def distinct_update)

lemma dict_ok_delete [simp]: "dict_ok d \<Longrightarrow> dict_ok (AList.delete k d)"
  by (simp add: dict_ok_def dkeys_def distinct_delete)

section \<open>Lists\<close>

text \<open>\<open>xs[-n:]\<close>: the last \<open>n\<close> elements, and the whole list for \<open>n = 0\<close>.\<close>

definition last_slice :: "nat \<Rightarrow> 'a list \<Rightarrow> 'a list" where
  "last_slice n xs = (if n = 0 then xs else drop (length xs - n) xs)"

lemma length_last_slice: "0 < n \<Longrightarrow> length (last_slice n xs) = min n (length xs)"
  by (simp add: last_slice_def)

lemma set_last_slice: "set (last_slice n xs) \<subseteq> set xs"
  by (simp add: last_slice_def set_drop_subset)

text \<open>\<open>list(dict.fromkeys(xs))\<close>: keep the first occurrence of every element.\<close>

fun dedup_from :: "'a list \<Rightarrow> 'a list \<Rightarrow> 'a list" where
  "dedup_from seen [] = []"
| "dedup_from seen (x # xs) =
     (if x \<in> set seen then dedup_from seen xs else x # dedup_from (x # seen) xs)"

definition dedup :: "'a list \<Rightarrow> 'a list" where
  "dedup xs = dedup_from [] xs"

lemma set_dedup_from: "set (dedup_from seen xs) = set xs - set seen"
  by (induction seen xs rule: dedup_from.induct) auto

lemma distinct_dedup_from: "distinct (dedup_from seen xs)"
  by (induction seen xs rule: dedup_from.induct) (auto simp: set_dedup_from)

lemma set_dedup [simp]: "set (dedup xs) = set xs"
  by (simp add: dedup_def set_dedup_from)

lemma distinct_dedup [simp]: "distinct (dedup xs)"
  by (simp add: dedup_def distinct_dedup_from)

lemma dedup_from_distinct:
  "distinct xs \<Longrightarrow> set xs \<inter> set seen = {} \<Longrightarrow> dedup_from seen xs = xs"
  by (induction seen xs rule: dedup_from.induct) auto

lemma dedup_distinct: "distinct xs \<Longrightarrow> dedup xs = xs"
  by (simp add: dedup_def dedup_from_distinct)

text \<open>\<open>next((x for x in xs if p x), None)\<close>\<close>

lemma find_SomeD: "List.find p xs = Some x \<Longrightarrow> x \<in> set xs \<and> p x"
  by (auto simp: find_Some_iff in_set_conv_nth)

text \<open>Replace the first element that satisfies a predicate.\<close>

fun update_first :: "('a \<Rightarrow> bool) \<Rightarrow> ('a \<Rightarrow> 'a) \<Rightarrow> 'a list \<Rightarrow> 'a list" where
  "update_first p f [] = []"
| "update_first p f (x # xs) = (if p x then f x # xs else x # update_first p f xs)"

lemma length_update_first [simp]: "length (update_first p f xs) = length xs"
  by (induction xs) auto

lemma find_update_first:
  "(\<And>x. p (f x) = p x) \<Longrightarrow> List.find p (update_first p f xs) = map_option f (List.find p xs)"
  by (induction xs) auto

lemma find_update_first_other:
  assumes "\<And>x. p x \<Longrightarrow> \<not> q x" and "\<And>x. p x \<Longrightarrow> \<not> q (f x)"
  shows "List.find q (update_first p f xs) = List.find q xs"
  using assms by (induction xs) auto

lemma map_update_first:
  "(\<And>x. g (f x) = g x) \<Longrightarrow> map g (update_first p f xs) = map g xs"
  by (induction xs) auto

lemma update_first_comp:
  "(\<And>x. p (f x) = p x) \<Longrightarrow>
   update_first p g (update_first p f xs) = update_first p (g \<circ> f) xs"
  by (induction xs) auto

lemma update_first_id: "(\<And>x. x \<in> set xs \<Longrightarrow> p x \<Longrightarrow> f x = x) \<Longrightarrow> update_first p f xs = xs"
  by (induction xs) auto

lemma update_first_none: "List.find p xs = None \<Longrightarrow> update_first p f xs = xs"
  by (induction xs) (auto split: if_splits)

end
