(* ===== verification/Py_Float.thy ===== *)
theory Py_Float
  imports Complex_Main Prelude "HOL-Library.Log_Nat"
begin

text \<open>
  Python's \<open>float\<close> is IEEE binary64. A finite double is a rational number, and every
  operation is the exact rational operation followed by one rounding to nearest, ties to
  even: \<open>fl\<close>. Overflow to infinity and NaN are outside the model: every value the modelled
  code computes stays far below \<open>2 ^ 1024\<close>. \<open>rne\<close> is the built-in \<open>round(x)\<close>.
\<close>

section \<open>Rounding to an integer, ties to even\<close>

definition rne :: "rat \<Rightarrow> int" where
  "rne x = (let f = \<lfloor>x\<rfloor>; d = x - of_int f
            in if d < 1/2 then f else if d > 1/2 then f + 1 else if even f then f else f + 1)"

lemma rne_of_int [simp]: "rne (of_int n) = n"
  by (simp add: rne_def)

lemma rne_numeral [simp]: "rne 0 = 0" "rne 1 = 1" "rne (numeral k) = numeral k"
  using rne_of_int [of 0] rne_of_int [of 1] rne_of_int [of "numeral k"] by simp_all

lemma floor_frac: "0 \<le> (x::rat) - of_int \<lfloor>x\<rfloor>" "x - of_int \<lfloor>x\<rfloor> < 1"
  by linarith+

lemma rne_cases: "rne x = \<lfloor>x\<rfloor> \<and> x - of_int \<lfloor>x\<rfloor> \<le> 1/2 \<or> rne x = \<lfloor>x\<rfloor> + 1 \<and> x - of_int \<lfloor>x\<rfloor> \<ge> 1/2"
  by (simp add: rne_def Let_def)

lemma rne_error: "\<bar>of_int (rne x) - x\<bar> \<le> 1/2"
  using rne_cases [of x] floor_frac [of x] by (auto simp: abs_le_iff)

lemma rne_mono: assumes "x \<le> y" shows "rne x \<le> rne y"
proof (cases "\<lfloor>x\<rfloor> = \<lfloor>y\<rfloor>")
  case True
  with assms show ?thesis by (auto simp: rne_def Let_def)
next
  case False
  from assms have "\<lfloor>x\<rfloor> \<le> \<lfloor>y\<rfloor>" by (rule floor_mono)
  with False have "\<lfloor>x\<rfloor> + 1 \<le> \<lfloor>y\<rfloor>" by simp
  then show ?thesis using rne_cases [of x] rne_cases [of y] by linarith
qed

lemma rne_nonneg: "0 \<le> x \<Longrightarrow> 0 \<le> rne x"
  using rne_mono [of 0 x] by simp

lemma rne_le_int: "x \<le> of_int n \<Longrightarrow> rne x \<le> n"
  using rne_mono [of x "of_int n"] by simp

lemma rne_ge_int: "of_int n \<le> x \<Longrightarrow> n \<le> rne x"
  using rne_mono [of "of_int n" x] by simp

section \<open>The exponent of a positive rational\<close>

definition pow2 :: "int \<Rightarrow> rat" where
  "pow2 k = (if 0 \<le> k then 2 ^ nat k else 1 / 2 ^ nat (- k))"

lemma pow2_powi: "pow2 k = 2 powi k"
  by (auto simp: pow2_def power_int_def power_one_over inverse_eq_divide)

lemma pow2_pos [simp]: "0 < pow2 k"
  by (simp add: pow2_def)

lemma pow2_nonneg [simp]: "0 \<le> pow2 k"
  using pow2_pos [of k] by linarith

lemma pow2_nonzero [simp]: "pow2 k \<noteq> 0"
  using pow2_pos [of k] by linarith

lemma pow2_add: "pow2 (j + k) = pow2 j * pow2 k"
  by (simp add: pow2_powi power_int_add)

lemma pow2_diff: "pow2 (j - k) = pow2 j / pow2 k"
  by (simp add: pow2_powi power_int_diff)

lemma pow2_mono: "j \<le> k \<Longrightarrow> pow2 j \<le> pow2 k"
  by (simp add: pow2_powi power_int_increasing)

lemma pow2_strict_mono: "j < k \<Longrightarrow> pow2 j < pow2 k"
  by (simp add: pow2_powi power_int_strict_increasing)

lemma pow2_less_iff [simp]: "pow2 j < pow2 k \<longleftrightarrow> j < k"
  using pow2_mono [of k j] pow2_strict_mono [of j k] by linarith

lemma pow2_0 [simp]: "pow2 0 = 1" and pow2_1 [simp]: "pow2 1 = 2"
  by (simp_all add: pow2_def)

text \<open>\<open>ilog2 x\<close> is the integer \<open>e\<close> with \<open>2 ^ e \<le> x < 2 ^ (e + 1)\<close>.\<close>

definition ilog2 :: "rat \<Rightarrow> int" where
  "ilog2 x = (let (p, q) = quotient_of x; k = bitlen p - bitlen q
              in if pow2 k \<le> x then k else k - 1)"

lemma bitlen_bounds_rat:
  assumes "0 < p" shows "pow2 (bitlen p - 1) \<le> of_int p" "(of_int p :: rat) < pow2 (bitlen p)"
proof -
  have b: "2 ^ nat (bitlen p - 1) \<le> p \<and> p < 2 ^ nat (bitlen p)"
    using assms by (rule bitlen_bounds)
  have pos: "0 < bitlen p" using assms by (simp add: bitlen_alt_def)
  have "(of_int (2 ^ nat (bitlen p - 1)) :: rat) \<le> of_int p"
    using b by (simp only: of_int_le_iff)
  then show "pow2 (bitlen p - 1) \<le> of_int p" using pos by (simp add: pow2_def)
  have "(of_int p :: rat) < of_int (2 ^ nat (bitlen p))"
    using b by (simp only: of_int_less_iff)
  then show "(of_int p :: rat) < pow2 (bitlen p)" using pos by (simp add: pow2_def)
qed

lemma ilog2_bounds:
  assumes "0 < x" shows "pow2 (ilog2 x) \<le> x" "x < pow2 (ilog2 x + 1)"
proof -
  obtain p q where pq: "quotient_of x = (p, q)" by (cases "quotient_of x")
  from pq have q: "0 < q" and x: "x = of_int p / of_int q"
    by (simp_all add: quotient_of_denom_pos quotient_of_div)
  from assms q x have p: "0 < p" by (simp add: zero_less_divide_iff)
  let ?k = "bitlen p - bitlen q"
  note bp = bitlen_bounds_rat [OF p] and bq = bitlen_bounds_rat [OF q]
  have "x < pow2 (bitlen p) / pow2 (bitlen q - 1)"
    unfolding x using bp bq p q
    by (intro frac_less) (auto intro: less_imp_le)
  then have up: "x < pow2 (?k + 1)"
    by (simp add: pow2_diff [symmetric] algebra_simps)
  have "pow2 (bitlen p - 1) / pow2 (bitlen q) < x"
    unfolding x using bp bq p q
    by (intro frac_less2) (auto intro: less_imp_le)
  then have lo: "pow2 (?k - 1) < x"
    by (simp add: pow2_diff [symmetric] algebra_simps)
  show "pow2 (ilog2 x) \<le> x" "x < pow2 (ilog2 x + 1)"
    using up lo by (auto simp: ilog2_def pq Let_def)
qed

lemma ilog2_unique:
  assumes "pow2 e \<le> x" "x < pow2 (e + 1)" shows "ilog2 x = e"
proof -
  have "0 < x" using assms(1) pow2_pos [of e] by linarith
  note b = ilog2_bounds [OF this]
  have "pow2 e < pow2 (ilog2 x + 1)" "pow2 (ilog2 x) < pow2 (e + 1)"
    using assms b by linarith+
  then show ?thesis by simp
qed

lemma ilog2_mono:
  assumes "0 < x" "x \<le> y" shows "ilog2 x \<le> ilog2 y"
proof -
  have "pow2 (ilog2 x) < pow2 (ilog2 y + 1)"
    using ilog2_bounds [of x] ilog2_bounds [of y] assms by linarith
  then show ?thesis by simp
qed

section \<open>Rounding to binary64\<close>

text \<open>The exponent of the last bit of the significand: 53 bits, and gradual underflow.\<close>

definition ulp_exp :: "rat \<Rightarrow> int" where
  "ulp_exp x = max (ilog2 x - 52) (- 1074)"

definition fl_pos :: "rat \<Rightarrow> rat" where
  "fl_pos x = (let q = ulp_exp x in of_int (rne (x / pow2 q)) * pow2 q)"

definition fl :: "rat \<Rightarrow> rat" where
  "fl x = (if x = 0 then 0 else if 0 < x then fl_pos x else - fl_pos (- x))"

lemma fl_0 [simp]: "fl 0 = 0"
  by (simp add: fl_def)

lemma fl_uminus: "fl (- x) = - fl x"
  by (simp add: fl_def)

lemma fl_nonneg: "0 \<le> x \<Longrightarrow> 0 \<le> fl x"
  by (auto simp: fl_def fl_pos_def Let_def intro!: mult_nonneg_nonneg rne_nonneg divide_nonneg_nonneg)

lemma fl_nonpos: "x \<le> 0 \<Longrightarrow> fl x \<le> 0"
  using fl_nonneg [of "- x"] by (simp add: fl_uminus)

lemma pow2_int: "0 \<le> k \<Longrightarrow> pow2 k = of_int (2 ^ nat k)"
  by (simp add: pow2_def)

lemma fl_pos_le_pow2:
  assumes "0 < x" "x \<le> pow2 k" "ulp_exp x \<le> k" shows "fl_pos x \<le> pow2 k"
proof -
  let ?q = "ulp_exp x"
  have "x / pow2 ?q \<le> pow2 (k - ?q)"
    using divide_right_mono [OF assms(2), of "pow2 ?q"] by (simp add: pow2_diff)
  then have "x / pow2 ?q \<le> of_int (2 ^ nat (k - ?q))" using assms(3) by (simp add: pow2_int)
  then have "rne (x / pow2 ?q) \<le> 2 ^ nat (k - ?q)" by (rule rne_le_int)
  then have "(of_int (rne (x / pow2 ?q)) :: rat) \<le> of_int (2 ^ nat (k - ?q))"
    by (simp only: of_int_le_iff)
  then have "(of_int (rne (x / pow2 ?q)) :: rat) \<le> pow2 (k - ?q)" using assms(3) by (simp add: pow2_int)
  then have "of_int (rne (x / pow2 ?q)) * pow2 ?q \<le> pow2 (k - ?q) * pow2 ?q"
    by (rule mult_right_mono) simp
  then show ?thesis by (simp add: fl_pos_def Let_def pow2_diff)
qed

lemma fl_pos_ge_pow2:
  assumes "pow2 k \<le> x" "ulp_exp x \<le> k" shows "pow2 k \<le> fl_pos x"
proof -
  let ?q = "ulp_exp x"
  have "pow2 (k - ?q) \<le> x / pow2 ?q"
    using divide_right_mono [OF assms(1), of "pow2 ?q"] by (simp add: pow2_diff)
  then have "of_int (2 ^ nat (k - ?q)) \<le> x / pow2 ?q" using assms(2) by (simp add: pow2_int)
  then have "2 ^ nat (k - ?q) \<le> rne (x / pow2 ?q)" by (rule rne_ge_int)
  then have "(of_int (2 ^ nat (k - ?q)) :: rat) \<le> of_int (rne (x / pow2 ?q))"
    by (simp only: of_int_le_iff)
  then have "pow2 (k - ?q) \<le> of_int (rne (x / pow2 ?q))" using assms(2) by (simp add: pow2_int)
  then have "pow2 (k - ?q) * pow2 ?q \<le> of_int (rne (x / pow2 ?q)) * pow2 ?q"
    by (rule mult_right_mono) simp
  then show ?thesis by (simp add: fl_pos_def Let_def pow2_diff)
qed

lemma fl_pos_mono:
  assumes "0 < x" "x \<le> y" shows "fl_pos x \<le> fl_pos y"
proof (cases "ulp_exp x = ulp_exp y")
  case True
  have "x / pow2 (ulp_exp y) \<le> y / pow2 (ulp_exp y)"
    using assms(2) by (simp add: divide_right_mono)
  then have "rne (x / pow2 (ulp_exp y)) \<le> rne (y / pow2 (ulp_exp y))" by (rule rne_mono)
  then show ?thesis using True by (simp add: fl_pos_def Let_def mult_right_mono)
next
  case False
  have le: "ilog2 x \<le> ilog2 y" using assms by (rule ilog2_mono)
  with False have lt: "ilog2 x + 1 \<le> ilog2 y" and big: "- 1022 < ilog2 y"
    by (auto simp: ulp_exp_def)
  have y: "0 < y" using assms by linarith
  have "fl_pos x \<le> pow2 (ilog2 y)"
  proof (rule fl_pos_le_pow2)
    show "0 < x" by (rule assms)
    show "x \<le> pow2 (ilog2 y)"
      using ilog2_bounds(2) [OF assms(1)] pow2_mono [OF lt] by linarith
    show "ulp_exp x \<le> ilog2 y" using lt big by (simp add: ulp_exp_def)
  qed
  also have "pow2 (ilog2 y) \<le> fl_pos y"
    by (rule fl_pos_ge_pow2) (use ilog2_bounds(1) [OF y] big in \<open>auto simp: ulp_exp_def\<close>)
  finally show ?thesis .
qed

lemma fl_mono: assumes "x \<le> y" shows "fl x \<le> fl y"
proof -
  consider "x \<le> 0" "0 \<le> y" | "0 < x" "0 < y" | "x < 0" "y < 0" using assms by linarith
  then show ?thesis
  proof cases
    case 1
    then show ?thesis using fl_nonpos [of x] fl_nonneg [of y] by linarith
  next
    case 2
    then show ?thesis using fl_pos_mono [OF _ assms] by (simp add: fl_def)
  next
    case 3
    then show ?thesis using fl_pos_mono [of "- y" "- x"] assms by (simp add: fl_def)
  qed
qed

text \<open>A number with a significand of at most 53 bits is its own rounding.\<close>

lemma fl_pos_exact:
  assumes m: "0 < m" "m < 2 ^ 53" and q: "- 1074 \<le> q"
  shows "fl_pos (of_int m * pow2 q) = of_int m * pow2 q"
proof -
  let ?x = "of_int m * pow2 q"
  have pos: "0 < ?x" using m by simp
  have "(of_int m :: rat) < of_int (2 ^ 53)" using m by (simp only: of_int_less_iff)
  then have "of_int m < pow2 53" by (simp add: pow2_def)
  then have "?x < pow2 53 * pow2 q" by (rule mult_strict_right_mono) simp
  then have "?x < pow2 (53 + q)" by (simp add: pow2_add)
  with ilog2_bounds(1) [OF pos] have "pow2 (ilog2 ?x) < pow2 (53 + q)" by linarith
  then have le: "ulp_exp ?x \<le> q" using q by (simp add: ulp_exp_def)
  then have "pow2 q / pow2 (ulp_exp ?x) = of_int (2 ^ nat (q - ulp_exp ?x))"
    by (simp add: pow2_int pow2_diff [symmetric])
  then have "?x / pow2 (ulp_exp ?x) = of_int (m * 2 ^ nat (q - ulp_exp ?x))"
    by (simp only: times_divide_eq_right [symmetric] of_int_mult)
  then show ?thesis by (simp only: fl_pos_def Let_def rne_of_int) (auto simp: field_simps)
qed

lemma fl_exact:
  assumes "\<bar>m\<bar> < 2 ^ 53" and "- 1074 \<le> q" shows "fl (of_int m * pow2 q) = of_int m * pow2 q"
proof -
  consider "m = 0" | "0 < m" | "m < 0" by linarith
  then show ?thesis
  proof cases
    case 3
    then have "fl_pos (of_int (- m) * pow2 q) = of_int (- m) * pow2 q"
      using assms by (intro fl_pos_exact) auto
    moreover have "of_int m * pow2 q < 0" using 3 by (simp add: mult_less_0_iff)
    ultimately show ?thesis by (simp add: fl_def)
  qed (use assms fl_pos_exact [of m q] in \<open>auto simp: fl_def\<close>)
qed

lemma fl_of_int: "\<bar>n\<bar> < 2 ^ 53 \<Longrightarrow> fl (of_int n) = of_int n"
  using fl_exact [of n 0] by simp

text \<open>The relative error of one rounding in the normal range.\<close>

definition u_round :: rat where "u_round = 1 / 2 ^ 53"

lemma fl_pos_error:
  assumes "pow2 (- 1022) \<le> x" shows "\<bar>fl_pos x - x\<bar> \<le> u_round * x"
proof -
  have pos: "0 < x" using assms pow2_pos [of "- 1022"] by linarith
  have "pow2 (- 1022) < pow2 (ilog2 x + 1)" using assms ilog2_bounds(2) [OF pos] by linarith
  then have q: "ulp_exp x = ilog2 x - 52" by (simp add: ulp_exp_def)
  let ?q = "ulp_exp x"
  have "fl_pos x - x = (of_int (rne (x / pow2 ?q)) - x / pow2 ?q) * pow2 ?q"
    by (simp add: fl_pos_def Let_def algebra_simps)
  then have "\<bar>fl_pos x - x\<bar> = \<bar>of_int (rne (x / pow2 ?q)) - x / pow2 ?q\<bar> * pow2 ?q"
    by (simp add: abs_mult)
  also have "\<dots> \<le> 1/2 * pow2 ?q"
    by (rule mult_right_mono [OF rne_error]) simp
  also have "\<dots> = u_round * pow2 (ilog2 x)"
    by (simp add: q pow2_diff u_round_def pow2_def [of 52])
  also have "\<dots> \<le> u_round * x"
    using ilog2_bounds(1) [OF pos] by (simp add: u_round_def)
  finally show ?thesis .
qed

lemma fl_error:
  assumes "pow2 (- 1022) \<le> \<bar>x\<bar>" shows "\<bar>fl x - x\<bar> \<le> u_round * \<bar>x\<bar>"
proof -
  have "x \<noteq> 0" using assms pow2_pos [of "- 1022"] by (auto simp del: pow2_pos)
  then consider "0 < x" | "x < 0" by linarith
  then show ?thesis
  proof cases
    case 1
    then show ?thesis using fl_pos_error [of x] assms by (simp add: fl_def)
  next
    case 2
    then have "\<bar>fl_pos (- x) - (- x)\<bar> \<le> u_round * (- x)"
      using fl_pos_error [of "- x"] assms by simp
    with 2 show ?thesis by (simp add: fl_def abs_minus_commute)
  qed
qed

section \<open>The arithmetic of the source\<close>

text \<open>
  \<open>float(n)\<close> of an int; \<open>a * b\<close>, \<open>a / b\<close>, \<open>a + b\<close>, \<open>a - b\<close> on floats; and \<open>m / n\<close> on ints,
  which Python rounds once, correctly.
\<close>

definition float_of :: "int \<Rightarrow> rat" where "float_of n = fl (of_int n)"
definition fmul :: "rat \<Rightarrow> rat \<Rightarrow> rat" where "fmul a b = fl (a * b)"
definition fdiv :: "rat \<Rightarrow> rat \<Rightarrow> rat" where "fdiv a b = fl (a / b)"
definition fadd :: "rat \<Rightarrow> rat \<Rightarrow> rat" where "fadd a b = fl (a + b)"
definition fsub :: "rat \<Rightarrow> rat \<Rightarrow> rat" where "fsub a b = fl (a - b)"
definition int_div :: "int \<Rightarrow> int \<Rightarrow> rat" where "int_div m n = fl (of_int m / of_int n)"

lemmas float_defs = float_of_def fmul_def fdiv_def fadd_def fsub_def int_div_def

lemma float_of_mono: "m \<le> n \<Longrightarrow> float_of m \<le> float_of n"
  by (simp add: float_of_def fl_mono)

lemma float_of_nonneg: "0 \<le> n \<Longrightarrow> 0 \<le> float_of n"
  by (simp add: float_of_def fl_nonneg)

lemma fmul_mono: "a \<le> b \<Longrightarrow> 0 \<le> c \<Longrightarrow> fmul a c \<le> fmul b c"
  by (simp add: fmul_def fl_mono mult_right_mono)

lemma fmul_mono2: "a \<le> b \<Longrightarrow> 0 \<le> c \<Longrightarrow> fmul c a \<le> fmul c b"
  by (simp add: fmul_def fl_mono mult_left_mono)

lemma fmul_nonneg: "0 \<le> a \<Longrightarrow> 0 \<le> b \<Longrightarrow> 0 \<le> fmul a b"
  by (simp add: fmul_def fl_nonneg)

lemma fdiv_nonneg: "0 \<le> a \<Longrightarrow> 0 \<le> b \<Longrightarrow> 0 \<le> fdiv a b"
  by (simp add: fdiv_def fl_nonneg)

lemma int_div_mono: "m \<le> m' \<Longrightarrow> 0 < n \<Longrightarrow> int_div m n \<le> int_div m' n"
  by (simp add: int_div_def fl_mono divide_right_mono)

lemma int_div_nonneg: "0 \<le> m \<Longrightarrow> 0 \<le> n \<Longrightarrow> 0 \<le> int_div m n"
  by (simp add: int_div_def fl_nonneg)

text \<open>\<open>round(x, n)\<close>: the double nearest to the correctly rounded decimal.\<close>

definition py_round :: "nat \<Rightarrow> rat \<Rightarrow> rat" where
  "py_round n x = fl (of_int (rne (x * 10 ^ n)) / 10 ^ n)"

lemma py_round_mono: "x \<le> y \<Longrightarrow> py_round n x \<le> py_round n y"
  by (auto simp: py_round_def intro!: fl_mono divide_right_mono rne_mono mult_right_mono)

lemma py_round_nonneg: "0 \<le> x \<Longrightarrow> 0 \<le> py_round n x"
  by (auto simp: py_round_def intro!: fl_nonneg divide_nonneg_nonneg rne_nonneg mult_nonneg_nonneg)

end
