(* ===== verification/Money.thy ===== *)
theory Money
  imports Py_Float
begin

text \<open>
  Money and exchange rates: \<open>app/domain/catalog/money.py\<close> and
  \<open>app/domain/catalog/exchange_rate.py\<close>. Amounts are Python ints in minor units; rates are
  doubles. \<open>isinstance\<close> checks that only exclude other types are the typing of the model.
\<close>

section \<open>Money\<close>

definition SUPPORTED_CURRENCIES :: "pystr list" where
  "SUPPORTED_CURRENCIES =
     map u [''USD'', ''EUR'', ''GBP'', ''JPY'', ''CNY'', ''HKD'', ''AUD'', ''CAD'', ''SGD'']"

record money =
  amount_in_minor_units :: int
  currency :: pystr

definition money_of :: "int \<Rightarrow> pystr \<Rightarrow> money result" where
  "money_of amount cur =
     (if amount < 0 then Inl (ValueError ''Money.amount_in_minor_units'')
      else if cur \<notin> set SUPPORTED_CURRENCIES then Inl (ValueError ''Money.currency'')
      else Inr \<lparr>amount_in_minor_units = amount, currency = cur\<rparr>)"

definition from_major_units :: "rat \<Rightarrow> pystr \<Rightarrow> money result" where
  "from_major_units major cur = money_of (rne (fmul major (float_of 100))) cur"

definition assert_same_currency :: "money \<Rightarrow> money \<Rightarrow> unit result" where
  "assert_same_currency self other =
     (if currency other \<noteq> currency self then Inl (ValueError ''Money currency mismatch'') else Inr ())"

definition money_add :: "money \<Rightarrow> money \<Rightarrow> money result" where
  "money_add self other =
     andThen (assert_same_currency self other)
       (\<lambda>_. Inr \<lparr>amount_in_minor_units = amount_in_minor_units self + amount_in_minor_units other,
                 currency = currency self\<rparr>)"

definition money_multiply :: "money \<Rightarrow> int \<Rightarrow> money result" where
  "money_multiply self quantity =
     (if quantity < 0 then Inl (ValueError ''Money.multiply.quantity'')
      else Inr \<lparr>amount_in_minor_units = amount_in_minor_units self * quantity,
                currency = currency self\<rparr>)"

definition to_major_units :: "money \<Rightarrow> rat" where
  "to_major_units self = int_div (amount_in_minor_units self) 100"

text \<open>The documented invariant of the value object.\<close>

definition money_ok :: "money \<Rightarrow> bool" where
  "money_ok m \<longleftrightarrow> 0 \<le> amount_in_minor_units m \<and> currency m \<in> set SUPPORTED_CURRENCIES"

lemma money_of_Inr_iff [result_simps]:
  "money_of a c = Inr m \<longleftrightarrow>
     0 \<le> a \<and> c \<in> set SUPPORTED_CURRENCIES \<and> m = \<lparr>amount_in_minor_units = a, currency = c\<rparr>"
  by (auto simp: money_of_def)

lemma money_of_ok: "money_of a c = Inr m \<Longrightarrow> money_ok m"
  by (auto simp: result_simps money_ok_def)

lemma money_add_Inr_iff [result_simps]:
  "money_add a b = Inr m \<longleftrightarrow> currency b = currency a \<and>
     m = \<lparr>amount_in_minor_units = amount_in_minor_units a + amount_in_minor_units b,
          currency = currency a\<rparr>"
  by (auto simp: money_add_def assert_same_currency_def)

lemma money_add_ok: "money_ok a \<Longrightarrow> money_ok b \<Longrightarrow> money_add a b = Inr m \<Longrightarrow> money_ok m"
  by (auto simp: result_simps money_ok_def)

lemma money_multiply_Inr_iff [result_simps]:
  "money_multiply a q = Inr m \<longleftrightarrow> 0 \<le> q \<and>
     m = \<lparr>amount_in_minor_units = amount_in_minor_units a * q, currency = currency a\<rparr>"
  by (auto simp: money_multiply_def)

lemma money_multiply_ok: "money_ok a \<Longrightarrow> money_multiply a q = Inr m \<Longrightarrow> money_ok m"
  by (auto simp: result_simps money_ok_def)

lemma to_major_units_mono:
  "amount_in_minor_units a \<le> amount_in_minor_units b \<Longrightarrow> to_major_units a \<le> to_major_units b"
  by (simp add: to_major_units_def int_div_mono)

lemma to_major_units_nonneg: "money_ok m \<Longrightarrow> 0 \<le> to_major_units m"
  by (simp add: to_major_units_def money_ok_def int_div_nonneg)

section \<open>Exchange rates\<close>

definition RATES_TO_CNY :: "(pystr, rat) dict" where
  "RATES_TO_CNY =
     [(u ''CNY'', fl 1), (u ''USD'', fl (710/100)), (u ''EUR'', fl (780/100)),
      (u ''GBP'', fl (910/100)), (u ''JPY'', fl (48/1000)), (u ''HKD'', fl (91/100)),
      (u ''AUD'', fl (470/100)), (u ''CAD'', fl (520/100)), (u ''SGD'', fl (530/100))]"

record exchange_rate_table =
  rates_to_cny :: "(pystr, rat) dict"

definition default_rates :: exchange_rate_table where
  "default_rates = \<lparr>rates_to_cny = RATES_TO_CNY\<rparr>"

definition rate :: "exchange_rate_table \<Rightarrow> pystr \<Rightarrow> pystr \<Rightarrow> rat result" where
  "rate t from_currency to_currency =
     (case (map_of (rates_to_cny t) from_currency, map_of (rates_to_cny t) to_currency) of
        (Some a, Some b) \<Rightarrow> Inr (fdiv a b)
      | _ \<Rightarrow> Inl (ValueError ''ExchangeRateTable.rate''))"

definition convert :: "exchange_rate_table \<Rightarrow> money \<Rightarrow> pystr \<Rightarrow> money result" where
  "convert t m to_currency =
     (if to_currency = currency m then Inr m
      else if to_currency \<notin> set SUPPORTED_CURRENCIES then Inl (ValueError ''Money.currency'')
      else andThen (rate t (currency m) to_currency)
        (\<lambda>r. money_of (rne (fmul (float_of (amount_in_minor_units m)) r)) to_currency))"

text \<open>A table is usable when it has a positive rate for every supported currency.\<close>

definition rates_ok :: "exchange_rate_table \<Rightarrow> bool" where
  "rates_ok t \<longleftrightarrow> list_all
     (\<lambda>c. case map_of (rates_to_cny t) c of None \<Rightarrow> False | Some r \<Rightarrow> 0 < r) SUPPORTED_CURRENCIES"

definition rate_of :: "exchange_rate_table \<Rightarrow> pystr \<Rightarrow> rat" where
  "rate_of t c = (case map_of (rates_to_cny t) c of Some r \<Rightarrow> r | None \<Rightarrow> 0)"

lemma rates_ok_rate_of:
  "rates_ok t \<Longrightarrow> c \<in> set SUPPORTED_CURRENCIES \<Longrightarrow>
     map_of (rates_to_cny t) c = Some (rate_of t c) \<and> 0 < rate_of t c"
  by (auto simp: rates_ok_def rate_of_def list_all_iff split: option.splits)

lemma rates_ok_default: "rates_ok default_rates"
  by code_simp

lemma rate_nonneg:
  "rates_ok t \<Longrightarrow> a \<in> set SUPPORTED_CURRENCIES \<Longrightarrow> b \<in> set SUPPORTED_CURRENCIES \<Longrightarrow>
     rate t a b = Inr (fdiv (rate_of t a) (rate_of t b)) \<and> 0 \<le> fdiv (rate_of t a) (rate_of t b)"
  using rates_ok_rate_of [of t a] rates_ok_rate_of [of t b]
  by (simp add: rate_def fdiv_nonneg less_imp_le)

text \<open>The amount a successful conversion yields, as a function of the amount.\<close>

definition converted_minor :: "exchange_rate_table \<Rightarrow> int \<Rightarrow> pystr \<Rightarrow> pystr \<Rightarrow> int" where
  "converted_minor t n from_currency to_currency =
     (if to_currency = from_currency then n
      else rne (fmul (float_of n) (fdiv (rate_of t from_currency) (rate_of t to_currency))))"

lemma converted_minor_mono:
  assumes "rates_ok t" "a \<in> set SUPPORTED_CURRENCIES" "b \<in> set SUPPORTED_CURRENCIES" "m \<le> n"
  shows "converted_minor t m a b \<le> converted_minor t n a b"
  using assms rate_nonneg [OF assms(1-3)]
  by (simp add: converted_minor_def rne_mono fmul_mono float_of_mono)

lemma converted_minor_nonneg:
  assumes "rates_ok t" "a \<in> set SUPPORTED_CURRENCIES" "b \<in> set SUPPORTED_CURRENCIES" "0 \<le> n"
  shows "0 \<le> converted_minor t n a b"
  using assms rate_nonneg [OF assms(1-3)]
  by (simp add: converted_minor_def rne_nonneg fmul_nonneg float_of_nonneg)

lemma converted_minor_0 [simp]: "converted_minor t 0 a b = 0"
  by (simp add: converted_minor_def float_of_def fmul_def)

lemma convert_eq:
  assumes "rates_ok t" "money_ok m" "c \<in> set SUPPORTED_CURRENCIES"
  shows "convert t m c =
    Inr \<lparr>amount_in_minor_units = converted_minor t (amount_in_minor_units m) (currency m) c,
         currency = c\<rparr>"
proof (cases "c = currency m")
  case False
  have "0 \<le> rne (fmul (float_of (amount_in_minor_units m)) (fdiv (rate_of t (currency m)) (rate_of t c)))"
    using converted_minor_nonneg [of t "currency m" c "amount_in_minor_units m"] assms False
    by (simp add: converted_minor_def money_ok_def)
  then show ?thesis
    using False assms rate_nonneg [of t "currency m" c]
    by (simp add: convert_def converted_minor_def money_of_def money_ok_def)
qed (simp add: convert_def converted_minor_def)

lemma convert_ok:
  "rates_ok t \<Longrightarrow> money_ok m \<Longrightarrow> c \<in> set SUPPORTED_CURRENCIES \<Longrightarrow>
     \<exists>m'. convert t m c = Inr m' \<and> money_ok m' \<and> currency m' = c"
  using converted_minor_nonneg [of t "currency m" c "amount_in_minor_units m"]
  by (simp add: convert_eq) (auto simp: money_ok_def)

section \<open>How far a conversion is from the exact one\<close>

text \<open>
  Two roundings in the normal range, of the rate and of the product, stay within
  \<open>2 u + u\<^sup>2\<close> of the exact product, where \<open>u = 2 ^ -53\<close>.
\<close>

definition two_roundings :: rat where
  "two_roundings = 2 * u_round + u_round * u_round"

lemma fmul_fl_error:
  assumes n: "1 \<le> n" and r: "pow2 (- 1000) \<le> r"
  shows "\<bar>fmul n (fl r) - n * r\<bar> \<le> two_roundings * (n * r)"
proof -
  have rpos: "0 < r" using r pow2_pos [of "- 1000"] by linarith
  have npos: "0 < n" using n by linarith
  have small: "pow2 (- 1022) \<le> pow2 (- 1000)" "pow2 (- 1022) \<le> pow2 (- 1001)"
    by (rule pow2_mono, simp)+
  then have r1: "\<bar>fl r - r\<bar> \<le> u_round * r" using fl_error [of r] r rpos by simp
  then have lo: "(1 - u_round) * r \<le> fl r" by (simp add: algebra_simps abs_le_iff)
  have "pow2 (- 1001) \<le> (1 - u_round) * pow2 (- 1000)" by (simp add: pow2_def u_round_def)
  also have "\<dots> \<le> (1 - u_round) * r" using r by (intro mult_left_mono) (simp_all add: u_round_def)
  finally have lo2: "pow2 (- 1022) \<le> fl r" using lo small by linarith
  then have "0 < fl r" using pow2_pos [of "- 1022"] by linarith
  then have "fl r \<le> n * fl r" "0 < n * fl r" using n npos by simp_all
  with lo2 have "pow2 (- 1022) \<le> \<bar>n * fl r\<bar>" by linarith
  from fl_error [OF this] \<open>0 < n * fl r\<close>
  have "\<bar>fmul n (fl r) - n * fl r\<bar> \<le> u_round * (n * fl r)" by (simp add: fmul_def)
  moreover have "n * (fl r - r) \<le> n * (u_round * r)" "n * (r - fl r) \<le> n * (u_round * r)"
    using r1 npos by (intro mult_left_mono; simp add: abs_le_iff)+
  then have near: "\<bar>n * fl r - n * r\<bar> \<le> u_round * (n * r)"
    by (simp add: abs_le_iff algebra_simps)
  moreover have "u_round * (n * fl r) \<le> u_round * (n * r + u_round * (n * r))"
  proof (rule mult_left_mono)
    show "n * fl r \<le> n * r + u_round * (n * r)" using near unfolding abs_le_iff by linarith
  qed (simp add: u_round_def)
  ultimately show ?thesis by (simp add: two_roundings_def algebra_simps abs_le_iff)
qed

lemma converted_minor_error:
  assumes "1 \<le> n" "n < 2 ^ 53" "a \<noteq> b" and r: "pow2 (- 1000) \<le> rate_of t a / rate_of t b"
  shows "\<bar>of_int (converted_minor t n a b) - of_int n * (rate_of t a / rate_of t b)\<bar>
           \<le> 1/2 + two_roundings * (of_int n * (rate_of t a / rate_of t b))"
proof -
  let ?r = "rate_of t a / rate_of t b"
  have n: "float_of n = of_int n" using assms(1,2) by (simp add: float_of_def fl_of_int)
  have "\<bar>fmul (of_int n) (fl ?r) - of_int n * ?r\<bar> \<le> two_roundings * (of_int n * ?r)"
    using assms(1) r by (intro fmul_fl_error) simp_all
  moreover have "\<bar>of_int (rne (fmul (of_int n) (fl ?r))) - fmul (of_int n) (fl ?r)\<bar> \<le> 1/2"
    by (rule rne_error)
  ultimately have "\<bar>of_int (rne (fmul (of_int n) (fl ?r))) - of_int n * ?r\<bar>
      \<le> 1/2 + two_roundings * (of_int n * ?r)"
    unfolding abs_le_iff by linarith
  then show ?thesis using assms(3) n by (simp add: converted_minor_def fdiv_def)
qed

section \<open>Properties\<close>

text \<open>Also: Between supported currencies and with a positive rate for each, conversion always succeeds,
  gives a legal amount in the requested currency, is the identity when the currency does not
  change, and never turns a larger amount into a smaller one.\<close>

theorem convert_total_mono:
  assumes "rates_ok t" "money_ok m" "money_ok m'" "currency m' = currency m"
    and "amount_in_minor_units m \<le> amount_in_minor_units m'" "c \<in> set SUPPORTED_CURRENCIES"
  shows "\<exists>x x'. convert t m c = Inr x \<and> convert t m' c = Inr x' \<and> money_ok x \<and> money_ok x' \<and>
    currency x = c \<and> currency x' = c \<and> (c = currency m \<longrightarrow> x = m) \<and>
    amount_in_minor_units x \<le> amount_in_minor_units x'"
proof -
  have le: "converted_minor t (amount_in_minor_units m) (currency m) c
      \<le> converted_minor t (amount_in_minor_units m') (currency m') c"
    using assms by (simp add: converted_minor_mono money_ok_def)
  note cm = convert_eq [OF assms(1,2,6)] and cm' = convert_eq [OF assms(1,3,6)]
  let ?x = "\<lparr>amount_in_minor_units = converted_minor t (amount_in_minor_units m) (currency m) c,
    currency = c\<rparr>"
  have same: "c = currency m \<longrightarrow> ?x = m" using cm unfolding convert_def by auto
  have "money_ok ?x" using convert_ok [OF assms(1,2,6)] cm by simp
  moreover obtain x' where "convert t m' c = Inr x'" "money_ok x'" "currency x' = c"
    using convert_ok [OF assms(1,3,6)] by blast
  ultimately show ?thesis using cm cm' same le by (intro exI [of _ ?x] exI [of _ x']) auto
qed

lemma convert_total_mono_witness:
  "\<exists>x x'. convert default_rates \<lparr>amount_in_minor_units = 999, currency = u ''USD''\<rparr> (u ''JPY'') = Inr x \<and>
     convert default_rates \<lparr>amount_in_minor_units = 1000, currency = u ''USD''\<rparr> (u ''JPY'') = Inr x' \<and>
     amount_in_minor_units x \<le> amount_in_minor_units x'"
  using convert_total_mono [OF rates_ok_default,
      of "\<lparr>amount_in_minor_units = 999, currency = u ''USD''\<rparr>"
         "\<lparr>amount_in_minor_units = 1000, currency = u ''USD''\<rparr>" "u ''JPY''"]
  by (auto simp: money_ok_def SUPPORTED_CURRENCIES_def)

text \<open>Also: Conversion goes through two floating point roundings and one rounding to whole minor units.
  For amounts below \<open>2 ^ 53\<close> the result is within half a minor unit of the exact product with the
  quotient of the two table entries, plus a relative error of about \<open>2 ^ -52\<close>.\<close>

theorem convert_accurate:
  assumes "rates_ok t" "money_ok m" "c \<in> set SUPPORTED_CURRENCIES" "c \<noteq> currency m"
    and "1 \<le> amount_in_minor_units m" "amount_in_minor_units m < 2 ^ 53"
    and "pow2 (- 1000) \<le> rate_of t (currency m) / rate_of t c"
  shows "\<exists>x. convert t m c = Inr x \<and>
    \<bar>of_int (amount_in_minor_units x)
       - of_int (amount_in_minor_units m) * (rate_of t (currency m) / rate_of t c)\<bar>
     \<le> 1/2 + two_roundings * (of_int (amount_in_minor_units m) * (rate_of t (currency m) / rate_of t c))"
  using converted_minor_error [OF assms(5,6) assms(4) [symmetric] assms(7)]
  by (simp add: convert_eq [OF assms(1-3)])

definition ex_rates :: exchange_rate_table where
  "ex_rates = \<lparr>rates_to_cny = map (\<lambda>c. (c, if c = u ''USD'' then 7 else 1)) SUPPORTED_CURRENCIES\<rparr>"

lemma convert_accurate_witness:
  "\<exists>x. convert ex_rates \<lparr>amount_in_minor_units = 1250, currency = u ''USD''\<rparr> (u ''EUR'') = Inr x \<and>
     \<bar>of_int (amount_in_minor_units x) - (8750 :: rat)\<bar> \<le> 1/2 + two_roundings * 8750"
proof -
  have r: "rates_ok ex_rates" "rate_of ex_rates (u ''USD'') = 7" "rate_of ex_rates (u ''EUR'') = 1"
    by code_simp+
  have "pow2 (- 1000) \<le> pow2 0" by (rule pow2_mono) simp
  then have p: "pow2 (- 1000) \<le> 7" by simp
  show ?thesis
    using convert_accurate [of ex_rates "\<lparr>amount_in_minor_units = 1250, currency = u ''USD''\<rparr>" "u ''EUR''"]
      r p by (simp add: money_ok_def SUPPORTED_CURRENCIES_def)
qed

end
