(* ===== verification/Catalog.thy ===== *)
theory Catalog
  imports Money
begin

text \<open>
  The catalogue's value objects: \<open>app/domain/catalog/sku.py\<close>, \<open>product.py\<close> and
  \<open>product_search_spec.py\<close>. A constructor is a function that raises what \<open>__post_init__\<close>
  raises; a method that changes the object returns the changed object.
\<close>

section \<open>Sku\<close>

record sku =
  sku_id :: pystr
  sku_spec :: pystr
  price :: money
  stock :: int

definition mk_sku :: "pystr \<Rightarrow> pystr \<Rightarrow> money \<Rightarrow> int \<Rightarrow> sku result" where
  "mk_sku sid sp pr st =
     (if sid = [] then Inl (ValueError ''Sku.sku_id'')
      else if st < 0 then Inl (ValueError ''Sku.stock'')
      else Inr \<lparr>sku_id = sid, sku_spec = sp, price = pr, stock = st\<rparr>)"

definition has_stock :: "sku \<Rightarrow> int \<Rightarrow> bool" where
  "has_stock s quantity \<longleftrightarrow> quantity \<le> stock s"

definition deduct_stock :: "sku \<Rightarrow> int \<Rightarrow> sku result" where
  "deduct_stock s quantity =
     (if \<not> has_stock s quantity then Inl (ValueError ''Sku out of stock'')
      else Inr (s\<lparr>stock := stock s - quantity\<rparr>))"

definition restore_stock :: "sku \<Rightarrow> int \<Rightarrow> sku result" where
  "restore_stock s quantity =
     (if quantity < 0 then Inl (ValueError ''restore_stock.quantity'')
      else Inr (s\<lparr>stock := stock s + quantity\<rparr>))"

definition sku_ok :: "sku \<Rightarrow> bool" where
  "sku_ok s \<longleftrightarrow> sku_id s \<noteq> [] \<and> 0 \<le> stock s \<and> money_ok (price s)"

lemma mk_sku_Inr_iff [result_simps]:
  "mk_sku sid sp pr st = Inr s \<longleftrightarrow> sid \<noteq> [] \<and> 0 \<le> st \<and>
     s = \<lparr>sku_id = sid, sku_spec = sp, price = pr, stock = st\<rparr>"
  by (auto simp: mk_sku_def)

lemma deduct_stock_Inr_iff [result_simps]:
  "deduct_stock s q = Inr s' \<longleftrightarrow> q \<le> stock s \<and> s' = s\<lparr>stock := stock s - q\<rparr>"
  by (auto simp: deduct_stock_def has_stock_def)

lemma restore_stock_Inr_iff [result_simps]:
  "restore_stock s q = Inr s' \<longleftrightarrow> 0 \<le> q \<and> s' = s\<lparr>stock := stock s + q\<rparr>"
  by (auto simp: restore_stock_def)

lemma deduct_then_restore:
  "0 \<le> q \<Longrightarrow> deduct_stock s q = Inr s' \<Longrightarrow> restore_stock s' q = Inr s"
  by (auto simp: result_simps)

lemma deduct_stock_ok: "sku_ok s \<Longrightarrow> deduct_stock s q = Inr s' \<Longrightarrow> sku_ok s'"
  by (auto simp: result_simps sku_ok_def)

lemma restore_stock_ok: "sku_ok s \<Longrightarrow> restore_stock s q = Inr s' \<Longrightarrow> sku_ok s'"
  by (auto simp: result_simps sku_ok_def)

section \<open>Product\<close>

record product_highlight =
  label :: pystr
  detail :: pystr

record product =
  product_id :: pystr
  title :: pystr
  brand :: pystr
  category :: pystr
  origin_country :: pystr
  description :: pystr
  highlights :: "product_highlight list"
  ships_to :: "pystr list"
  skus :: "sku list"

definition mk_product :: "product \<Rightarrow> product result" where
  "mk_product p =
     (if product_id p = [] then Inl (ValueError ''Product.product_id'')
      else if skus p = [] then Inl (ValueError ''Product.skus'')
      else Inr p)"

definition primary_sku :: "product \<Rightarrow> sku result" where
  "primary_sku p = (case skus p of [] \<Rightarrow> Inl (IndexError ''Product.skus'') | s # _ \<Rightarrow> Inr s)"

definition find_sku :: "product \<Rightarrow> pystr \<Rightarrow> sku option" where
  "find_sku p sid = List.find (\<lambda>s. sku_id s = sid) (skus p)"

definition searchable_text :: "product \<Rightarrow> pystr" where
  "searchable_text p =
     (let highlight_text = join (u '' '') (map (\<lambda>h. label h @ u '' '' @ detail h) (highlights p))
      in join (u '' '') [title p, brand p, category p, origin_country p, description p,
                         highlight_text])"

definition product_ok :: "product \<Rightarrow> bool" where
  "product_ok p \<longleftrightarrow> product_id p \<noteq> [] \<and> skus p \<noteq> [] \<and> list_all sku_ok (skus p)"

lemma primary_sku_ok: "product_ok p \<Longrightarrow> \<exists>s. primary_sku p = Inr s \<and> sku_ok s"
  by (cases "skus p") (auto simp: product_ok_def primary_sku_def)

lemma find_skuD: "find_sku p sid = Some s \<Longrightarrow> s \<in> set (skus p) \<and> sku_id s = sid"
  using find_SomeD by (fastforce simp: find_sku_def)

lemma find_sku_ok: "product_ok p \<Longrightarrow> find_sku p sid = Some s \<Longrightarrow> sku_ok s"
  by (auto simp: product_ok_def list_all_iff dest: find_skuD)

text \<open>
  Changing the object that \<open>find_sku\<close> returned changes the first SKU with that id: the model
  of mutation through the alias that the use cases hold.
\<close>

definition set_sku_stock :: "pystr \<Rightarrow> int \<Rightarrow> product \<Rightarrow> product" where
  "set_sku_stock sid n p =
     p\<lparr>skus := update_first (\<lambda>s. sku_id s = sid) (\<lambda>s. s\<lparr>stock := n\<rparr>) (skus p)\<rparr>"

lemma set_sku_stock_id [simp]: "product_id (set_sku_stock sid n p) = product_id p"
  by (simp add: set_sku_stock_def)

lemma find_set_sku_stock:
  "find_sku (set_sku_stock sid n p) sid' =
     (if sid' = sid then map_option (\<lambda>s. s\<lparr>stock := n\<rparr>) (find_sku p sid) else find_sku p sid')"
  by (auto simp: set_sku_stock_def find_sku_def intro!: find_update_first find_update_first_other)

lemma set_sku_stock_twice [simp]:
  "set_sku_stock sid m (set_sku_stock sid n p) = set_sku_stock sid m p"
  by (simp add: set_sku_stock_def update_first_comp comp_def)

lemma update_first_stock_same:
  "List.find (\<lambda>s. sku_id s = sid) xs = Some s0 \<Longrightarrow>
   update_first (\<lambda>s. sku_id s = sid) (\<lambda>s. s\<lparr>stock := stock s0\<rparr>) xs = xs"
  by (induction xs) (auto split: if_splits)

lemma set_sku_stock_same:
  "find_sku p sid = Some s \<Longrightarrow> set_sku_stock sid (stock s) p = p"
  by (simp add: set_sku_stock_def find_sku_def update_first_stock_same)

lemma set_update_first: "x \<in> set (update_first p f xs) \<Longrightarrow> x \<in> set xs \<or> (\<exists>y\<in>set xs. p y \<and> x = f y)"
  by (induction xs) (auto split: if_splits)

lemma set_sku_stock_ok: "product_ok p \<Longrightarrow> 0 \<le> n \<Longrightarrow> product_ok (set_sku_stock sid n p)"
  by (cases "skus p")
    (auto simp: product_ok_def set_sku_stock_def list_all_iff sku_ok_def dest!: set_update_first)

section \<open>ProductSearchSpec\<close>

record search_spec =
  normalized_query :: pystr
  spec_category :: "pystr option"
  ship_to :: "pystr option"
  locale_tag :: pystr
  top_k :: int
  target_currency :: pystr
  price_max_major :: "rat option"

definition mk_search_spec :: "search_spec \<Rightarrow> search_spec result" where
  "mk_search_spec s =
     (if normalized_query s = [] \<or> blank (normalized_query s)
      then Inl (ValueError ''ProductSearchSpec.normalized_query'')
      else if \<not> (1 \<le> top_k s \<and> top_k s \<le> 5) then Inl (ValueError ''ProductSearchSpec.top_k'')
      else Inr s)"

lemma mk_search_spec_Inr_iff [result_simps]:
  "mk_search_spec s = Inr s' \<longleftrightarrow>
     s' = s \<and> \<not> blank (normalized_query s) \<and> 1 \<le> top_k s \<and> top_k s \<le> 5"
  by (auto simp: mk_search_spec_def)

text \<open>The truth value of an optional string.\<close>

definition truthy :: "pystr option \<Rightarrow> bool" where
  "truthy x \<longleftrightarrow> (case x of None \<Rightarrow> False | Some s \<Rightarrow> s \<noteq> [])"

section \<open>Objects for concrete instances\<close>

definition ex_money :: "int \<Rightarrow> money" where
  "ex_money n = \<lparr>amount_in_minor_units = n, currency = u ''USD''\<rparr>"

definition ex_sku :: "string \<Rightarrow> int \<Rightarrow> sku" where
  "ex_sku sid n = \<lparr>sku_id = u sid, sku_spec = u ''std'', price = ex_money 1250, stock = n\<rparr>"

definition ex_product :: "string \<Rightarrow> sku list \<Rightarrow> product" where
  "ex_product pid ss = \<lparr>product_id = u pid, title = u ''Kettle'', brand = u ''B'',
     category = u ''kitchen'', origin_country = u ''CN'', description = [], highlights = [],
     ships_to = [u ''US''], skus = ss\<rparr>"

end
