(* ===== verification/Tariff.thy ===== *)
theory Tariff
  imports Catalog
begin

text \<open>
  Landed price: \<open>app/domain/shipping/tariff_schedule.py\<close>. The three tables are module
  constants; category names are the code points of the source's Chinese literals.
\<close>

definition cat_digital :: pystr where "cat_digital = [0x6570, 0x7801, 0x914D, 0x4EF6]"
definition cat_travel :: pystr where "cat_travel = [0x65C5, 0x884C, 0x88C5, 0x5907]"
definition cat_outdoor :: pystr where "cat_outdoor = [0x6237, 0x5916, 0x8FD0, 0x52A8]"
definition cat_home :: pystr where "cat_home = [0x5BB6, 0x5C45, 0x751F, 0x6D3B]"

definition TARIFF_RATES :: "(pystr, (pystr, rat) dict) dict" where
  "TARIFF_RATES =
     [(u ''CN'', [(cat_digital, fl (13/100)), (cat_travel, fl (9/100)), (cat_outdoor, fl (9/100)),
                  (cat_home, fl (9/100)), (u ''*'', fl (9/100))]),
      (u ''US'', [(cat_digital, 0), (cat_travel, fl (75/1000)), (cat_outdoor, fl (75/1000)),
                  (cat_home, fl (5/100)), (u ''*'', fl (6/100))]),
      (u ''EU'', [(u ''*'', fl (12/100))]),
      (u ''JP'', [(u ''*'', fl (8/100))]),
      (u ''SG'', [(u ''*'', fl (7/100))])]"

definition DE_MINIMIS_CNY_MINOR :: "(pystr, int) dict" where
  "DE_MINIMIS_CNY_MINOR =
     [(u ''CN'', 500000), (u ''US'', 800 * 710), (u ''EU'', 150 * 780), (u ''JP'', 10000 * 5),
      (u ''SG'', 400 * 530)]"

definition BASE_FREIGHT_CNY_MINOR :: "(pystr, int) dict" where
  "BASE_FREIGHT_CNY_MINOR =
     [(u ''CN'', 2500), (u ''US'', 6500), (u ''EU'', 7500), (u ''JP'', 4500), (u ''SG'', 4000)]"

record shipping_quote =
  quote_ship_to :: pystr
  subtotal :: money
  freight :: money
  tariff :: money
  tariff_rate :: rat
  de_minimis_applied :: bool

definition landed_total :: "shipping_quote \<Rightarrow> money result" where
  "landed_total q = andThen (money_add (subtotal q) (freight q)) (\<lambda>m. money_add m (tariff q))"

record quote_dict =
  qd_ship_to :: pystr
  qd_subtotal_major :: rat
  qd_freight_major :: rat
  qd_tariff_major :: rat
  qd_tariff_rate :: rat
  qd_de_minimis_applied :: bool
  qd_landed_total_major :: rat
  qd_currency :: pystr

definition quote_to_dict :: "shipping_quote \<Rightarrow> quote_dict result" where
  "quote_to_dict q =
     andThen (landed_total q) (\<lambda>total.
       Inr \<lparr>qd_ship_to = quote_ship_to q,
            qd_subtotal_major = to_major_units (subtotal q),
            qd_freight_major = to_major_units (freight q),
            qd_tariff_major = to_major_units (tariff q),
            qd_tariff_rate = tariff_rate q,
            qd_de_minimis_applied = de_minimis_applied q,
            qd_landed_total_major = to_major_units total,
            qd_currency = currency (subtotal q)\<rparr>)"

text \<open>\<open>round(base * (1 + 0.6 * (quantity - 1)))\<close>\<close>

definition freight_minor :: "int \<Rightarrow> int \<Rightarrow> int" where
  "freight_minor base quantity =
     rne (fmul (float_of base)
            (fadd (float_of 1) (fmul (fl (6/10)) (float_of (quantity - 1)))))"

definition subscript :: "('k, 'v) dict \<Rightarrow> 'k \<Rightarrow> 'v result" where
  "subscript d k = (case map_of d k of None \<Rightarrow> Inl (KeyError ''dict'') | Some v \<Rightarrow> Inr v)"

definition quote_tariff_rate :: "(pystr, rat) dict \<Rightarrow> pystr \<Rightarrow> rat result" where
  "quote_tariff_rate rate_table cat =
     andThen (subscript rate_table (u ''*''))
       (\<lambda>fallback. Inr (case map_of rate_table cat of Some r \<Rightarrow> r | None \<Rightarrow> fallback))"

definition quote :: "exchange_rate_table \<Rightarrow> money \<Rightarrow> pystr \<Rightarrow> pystr \<Rightarrow> int \<Rightarrow> pystr
    \<Rightarrow> shipping_quote result" where
  "quote rates sub cat dest quantity target =
     (if dest \<notin> set (dkeys TARIFF_RATES) then Inl (ValueError ''unsupported destination'')
      else if quantity \<le> 0 then Inl (ValueError ''quantity'')
      else
        andThen (convert rates sub target) (\<lambda>subtotal_target.
        andThen (subscript BASE_FREIGHT_CNY_MINOR dest) (\<lambda>base.
        andThen (money_of base (u ''CNY'')) (\<lambda>base_freight_cny.
        andThen (money_of (freight_minor (amount_in_minor_units base_freight_cny) quantity) (u ''CNY''))
          (\<lambda>freight_cny.
        andThen (convert rates freight_cny target) (\<lambda>freight_target.
        andThen (subscript TARIFF_RATES dest) (\<lambda>rate_table.
        andThen (quote_tariff_rate rate_table cat) (\<lambda>trate.
        andThen (convert rates sub (u ''CNY'')) (\<lambda>subtotal_cny.
        andThen (subscript DE_MINIMIS_CNY_MINOR dest) (\<lambda>de_minimis.
        (let taxable = max 0 (amount_in_minor_units subtotal_cny - de_minimis)
         in andThen (money_of (rne (fmul (float_of taxable) trate)) (u ''CNY'')) (\<lambda>tariff_cny.
            andThen (convert rates tariff_cny target) (\<lambda>tariff_target.
            Inr \<lparr>quote_ship_to = dest, subtotal = subtotal_target, freight = freight_target,
                 tariff = tariff_target, tariff_rate = trate,
                 de_minimis_applied = (taxable = 0)\<rparr>)))))))))))))"

section \<open>The tables cover every supported destination\<close>

definition destinations :: "pystr list" where
  "destinations = dkeys TARIFF_RATES"

lemma CNY_supported [simp]: "u ''CNY'' \<in> set SUPPORTED_CURRENCIES"
  by (simp add: SUPPORTED_CURRENCIES_def)

lemma base_freight_lookup:
  "dest \<in> set destinations \<Longrightarrow> \<exists>n. map_of BASE_FREIGHT_CNY_MINOR dest = Some n \<and> 0 < n \<and> n \<le> 7500"
  by (auto simp: destinations_def dkeys_def TARIFF_RATES_def BASE_FREIGHT_CNY_MINOR_def)

lemma de_minimis_lookup:
  "dest \<in> set destinations \<Longrightarrow> \<exists>n. map_of DE_MINIMIS_CNY_MINOR dest = Some n \<and> 0 < n"
  by (auto simp: destinations_def dkeys_def TARIFF_RATES_def DE_MINIMIS_CNY_MINOR_def)

definition rate_table_ok :: "(pystr, rat) dict \<Rightarrow> bool" where
  "rate_table_ok rt \<longleftrightarrow> u ''*'' \<in> fst ` set rt \<and> (\<forall>r\<in>snd ` set rt. 0 \<le> r \<and> r < 1)"

lemma fl_below_half: "0 \<le> x \<Longrightarrow> x \<le> 1/2 \<Longrightarrow> 0 \<le> fl x \<and> fl x < 1"
proof -
  assume x: "0 \<le> x" "x \<le> 1/2"
  have "fl (1/2) = 1/2" using fl_exact [of 1 "- 1"] by (simp add: pow2_def)
  with fl_mono [OF x(2)] fl_nonneg [OF x(1)] show "0 \<le> fl x \<and> fl x < 1" by simp
qed

lemma rate_tables_ok: "list_all (\<lambda>(d, rt). rate_table_ok rt) TARIFF_RATES"
  by (simp add: TARIFF_RATES_def rate_table_ok_def fl_below_half)

lemma tariff_lookup:
  assumes "dest \<in> set destinations"
  obtains rt where "map_of TARIFF_RATES dest = Some rt" "rate_table_ok rt"
proof -
  from assms obtain rt where rt: "map_of TARIFF_RATES dest = Some rt"
    by (metis destinations_def dkeys_def map_of_eq_None_iff option.exhaust set_map)
  then have "(dest, rt) \<in> set TARIFF_RATES" by (rule map_of_SomeD)
  with rate_tables_ok have "rate_table_ok rt" by (auto simp: list_all_iff)
  with rt show ?thesis by (rule that)
qed

lemma quote_tariff_rate_ok:
  assumes "rate_table_ok rt" obtains r where "quote_tariff_rate rt cat = Inr r" "0 \<le> r" "r < 1"
proof -
  from assms obtain fb where fb: "map_of rt (u ''*'') = Some fb"
    by (metis map_of_eq_None_iff option.exhaust rate_table_ok_def)
  have bound: "0 \<le> r \<and> r < 1" if "map_of rt k = Some r" for k r
    using that assms by (force simp: rate_table_ok_def dest: map_of_SomeD)
  show ?thesis
    using that fb bound by (cases "map_of rt cat") (auto simp: quote_tariff_rate_def subscript_def)
qed

lemma freight_minor_nonneg: "0 \<le> base \<Longrightarrow> 1 \<le> q \<Longrightarrow> 0 \<le> freight_minor base q"
  by (auto simp: freight_minor_def fadd_def
      intro!: rne_nonneg fmul_nonneg float_of_nonneg fl_nonneg add_nonneg_nonneg)

lemma freight_minor_mono: "0 \<le> base \<Longrightarrow> q \<le> q' \<Longrightarrow> freight_minor base q \<le> freight_minor base q'"
  by (auto simp: freight_minor_def fadd_def
      intro!: rne_mono fmul_mono2 fl_mono float_of_mono float_of_nonneg fl_nonneg add_left_mono)

lemma freight_minor_first: "0 \<le> base \<Longrightarrow> base < 2 ^ 53 \<Longrightarrow> freight_minor base 1 = base"
proof -
  assume b: "0 \<le> base" "base < 2 ^ 53"
  have one: "fl 1 = 1" using fl_of_int [of 1] by simp
  show "freight_minor base 1 = base"
    using b fl_of_int [of base] by (simp add: freight_minor_def float_defs one)
qed

section \<open>What a quote is\<close>

text \<open>The three amounts of a quote, with every intermediate result named.\<close>

definition the_rate :: "pystr \<Rightarrow> pystr \<Rightarrow> rat" where
  "the_rate dest cat =
     (case map_of TARIFF_RATES dest of None \<Rightarrow> 0
      | Some rt \<Rightarrow> (case quote_tariff_rate rt cat of Inl _ \<Rightarrow> 0 | Inr r \<Rightarrow> r))"

definition subtotal_cny_minor :: "exchange_rate_table \<Rightarrow> money \<Rightarrow> int" where
  "subtotal_cny_minor rates sub =
     converted_minor rates (amount_in_minor_units sub) (currency sub) (u ''CNY'')"

definition threshold :: "pystr \<Rightarrow> int" where
  "threshold dest = (case map_of DE_MINIMIS_CNY_MINOR dest of None \<Rightarrow> 0 | Some n \<Rightarrow> n)"

definition base_freight :: "pystr \<Rightarrow> int" where
  "base_freight dest = (case map_of BASE_FREIGHT_CNY_MINOR dest of None \<Rightarrow> 0 | Some n \<Rightarrow> n)"

definition taxable :: "exchange_rate_table \<Rightarrow> money \<Rightarrow> pystr \<Rightarrow> int" where
  "taxable rates sub dest = max 0 (subtotal_cny_minor rates sub - threshold dest)"

definition tariff_cny_minor :: "exchange_rate_table \<Rightarrow> money \<Rightarrow> pystr \<Rightarrow> pystr \<Rightarrow> int" where
  "tariff_cny_minor rates sub cat dest =
     rne (fmul (float_of (taxable rates sub dest)) (the_rate dest cat))"

definition in_target :: "exchange_rate_table \<Rightarrow> int \<Rightarrow> pystr \<Rightarrow> money" where
  "in_target rates n target =
     \<lparr>amount_in_minor_units = converted_minor rates n (u ''CNY'') target, currency = target\<rparr>"

lemma the_rate_bounds: "dest \<in> set destinations \<Longrightarrow> 0 \<le> the_rate dest cat \<and> the_rate dest cat < 1"
  by (erule tariff_lookup, erule quote_tariff_rate_ok [of _ cat]) (simp add: the_rate_def)

lemma base_freight_bounds: "dest \<in> set destinations \<Longrightarrow> 0 < base_freight dest \<and> base_freight dest \<le> 7500"
  using base_freight_lookup [of dest] by (auto simp: base_freight_def)

lemma tariff_cny_minor_nonneg: "dest \<in> set destinations \<Longrightarrow> 0 \<le> tariff_cny_minor rates sub cat dest"
  using the_rate_bounds [of dest cat]
  by (auto simp: tariff_cny_minor_def taxable_def intro!: rne_nonneg fmul_nonneg float_of_nonneg)

lemma tariff_cny_minor_mono:
  assumes "rates_ok rates" "currency sub \<in> set SUPPORTED_CURRENCIES" "currency sub' = currency sub"
    and "amount_in_minor_units sub \<le> amount_in_minor_units sub'" "dest \<in> set destinations"
  shows "tariff_cny_minor rates sub cat dest \<le> tariff_cny_minor rates sub' cat dest"
proof -
  have "subtotal_cny_minor rates sub \<le> subtotal_cny_minor rates sub'"
    using assms by (simp add: subtotal_cny_minor_def converted_minor_mono)
  then have "taxable rates sub dest \<le> taxable rates sub' dest" by (simp add: taxable_def)
  then show ?thesis
    using the_rate_bounds [OF assms(5), of cat]
    by (auto simp: tariff_cny_minor_def intro!: rne_mono fmul_mono float_of_mono)
qed

lemma quote_eq:
  assumes "rates_ok rates" "money_ok sub" "target \<in> set SUPPORTED_CURRENCIES"
    and dest: "dest \<in> set destinations" and q: "0 < quantity"
  shows "quote rates sub cat dest quantity target =
    Inr \<lparr>quote_ship_to = dest,
         subtotal = \<lparr>amount_in_minor_units =
             converted_minor rates (amount_in_minor_units sub) (currency sub) target,
             currency = target\<rparr>,
         freight = in_target rates (freight_minor (base_freight dest) quantity) target,
         tariff = in_target rates (tariff_cny_minor rates sub cat dest) target,
         tariff_rate = the_rate dest cat,
         de_minimis_applied = (taxable rates sub dest = 0)\<rparr>"
proof -
  obtain rt r where rt: "map_of TARIFF_RATES dest = Some rt"
    and r: "quote_tariff_rate rt cat = Inr r"
    using dest by (metis tariff_lookup quote_tariff_rate_ok)
  have rate: "the_rate dest cat = r" by (simp add: the_rate_def rt r)
  obtain dm where dm: "map_of DE_MINIMIS_CNY_MINOR dest = Some dm"
    using de_minimis_lookup [OF dest] by blast
  obtain base where base: "map_of BASE_FREIGHT_CNY_MINOR dest = Some base" "0 < base"
    using base_freight_lookup [OF dest] by blast
  have cny: "money_ok \<lparr>amount_in_minor_units = n, currency = u ''CNY''\<rparr>" if "0 \<le> n" for n
    using that by (simp add: money_ok_def)
  have mo: "money_of n (u ''CNY'') = Inr \<lparr>amount_in_minor_units = n, currency = u ''CNY''\<rparr>"
    if "0 \<le> n" for n
    using that by (simp add: result_simps)
  have f: "0 \<le> freight_minor base quantity" using base(2) q by (simp add: freight_minor_nonneg)
  have t: "0 \<le> tariff_cny_minor rates sub cat dest" by (rule tariff_cny_minor_nonneg [OF dest])
  have t': "rne (fmul (float_of (taxable rates sub dest)) r) = tariff_cny_minor rates sub cat dest"
    by (simp add: tariff_cny_minor_def rate)
  have tx: "max 0 (converted_minor rates (amount_in_minor_units sub) (currency sub) (u ''CNY'') - dm)
      = taxable rates sub dest"
    by (simp add: taxable_def threshold_def subtotal_cny_minor_def dm)
  show ?thesis
    using assms f t base(2)
    by (simp add: quote_def destinations_def subscript_def rt dm base(1) r convert_eq cny Let_def
        mo [OF f] mo [OF t] mo [OF less_imp_le [OF base(2)]]
        in_target_def base_freight_def rate t' tx del: max_less_iff_conj)
qed

section \<open>Properties\<close>



text \<open>Also: A costlier basket never lands cheaper: for the same currency, category and destination, a
  larger subtotal and a larger quantity give a subtotal, a freight and a tariff, hence a landed
  total, that are at least as large. The freight of a single piece is the destination's base freight.\<close>

theorem quote_monotone:
  assumes "rates_ok rates" "money_ok sub" "money_ok sub'" "currency sub' = currency sub"
    and "amount_in_minor_units sub \<le> amount_in_minor_units sub'"
    and "target \<in> set SUPPORTED_CURRENCIES" "dest \<in> set destinations" "0 < n" "n \<le> n'"
  shows "\<exists>q q' t t'. quote rates sub cat dest n target = Inr q \<and>
    quote rates sub' cat dest n' target = Inr q' \<and> landed_total q = Inr t \<and> landed_total q' = Inr t' \<and>
    amount_in_minor_units (subtotal q) \<le> amount_in_minor_units (subtotal q') \<and>
    amount_in_minor_units (freight q) \<le> amount_in_minor_units (freight q') \<and>
    amount_in_minor_units (tariff q) \<le> amount_in_minor_units (tariff q') \<and>
    amount_in_minor_units t \<le> amount_in_minor_units t' \<and>
    (n = 1 \<longrightarrow> freight q = in_target rates (base_freight dest) target)"
proof -
  note mono = converted_minor_mono [OF assms(1) _ assms(6)]
  have b: "0 \<le> base_freight dest" "base_freight dest < 2 ^ 53"
    using base_freight_bounds [OF assms(7)] by auto
  have s: "converted_minor rates (amount_in_minor_units sub) (currency sub) target
      \<le> converted_minor rates (amount_in_minor_units sub') (currency sub') target"
    using assms(2,4,5) by (simp add: mono money_ok_def)
  have f: "converted_minor rates (freight_minor (base_freight dest) n) (u ''CNY'') target
      \<le> converted_minor rates (freight_minor (base_freight dest) n') (u ''CNY'') target"
    using b(1) assms(9) by (intro mono freight_minor_mono) auto
  have t: "converted_minor rates (tariff_cny_minor rates sub cat dest) (u ''CNY'') target
      \<le> converted_minor rates (tariff_cny_minor rates sub' cat dest) (u ''CNY'') target"
    using assms(2,4,5,7) by (intro mono tariff_cny_minor_mono [OF assms(1)]) (auto simp: money_ok_def)
  have n': "0 < n'" using assms(8,9) by linarith
  show ?thesis
    using s f t freight_minor_first [OF b]
    by (auto simp: quote_eq [OF assms(1,2,6,7,8)] quote_eq [OF assms(1,3,6,7) n'] landed_total_def
        money_add_def assert_same_currency_def in_target_def)
qed

lemma quote_monotone_witness:
  "\<exists>q q'. quote ex_rates (ex_money 1250) cat_home (u ''JP'') 1 (u ''USD'') = Inr q \<and>
     quote ex_rates (ex_money 9999) cat_home (u ''JP'') 3 (u ''USD'') = Inr q' \<and>
     amount_in_minor_units (tariff q) \<le> amount_in_minor_units (tariff q') \<and>
     freight q = in_target ex_rates (base_freight (u ''JP'')) (u ''USD'')"
proof -
  have h: "rates_ok ex_rates" "money_ok (ex_money 1250)" "money_ok (ex_money 9999)"
    "currency (ex_money 9999) = currency (ex_money 1250)"
    "amount_in_minor_units (ex_money 1250) \<le> amount_in_minor_units (ex_money 9999)"
    "u ''USD'' \<in> set SUPPORTED_CURRENCIES" "u ''JP'' \<in> set destinations" by code_simp+
  from quote_monotone [OF h, of 1 3 cat_home] show ?thesis by auto
qed

end
