(* ===== verification/Orders.thy ===== *)
theory Orders
  imports Catalog
begin

text \<open>
  The order aggregate: \<open>app/domain/order/address.py\<close>, \<open>order_line.py\<close> and \<open>order.py\<close>.
  Time stamps are passed in where the code reads the clock.
\<close>

type_synonym datetime = int

section \<open>Address and order lines\<close>

record address =
  recipient_name :: pystr
  country :: pystr
  addr_state :: pystr
  city :: pystr
  address_line :: pystr
  postal_code :: pystr
  phone :: pystr

definition mk_address :: "address \<Rightarrow> address result" where
  "mk_address a =
     (if recipient_name a = [] then Inl (ValueError ''Address.recipient_name'')
      else if country a = [] then Inl (ValueError ''Address.country'')
      else if city a = [] then Inl (ValueError ''Address.city'')
      else if address_line a = [] then Inl (ValueError ''Address.address_line'')
      else Inr a)"

definition one_line :: "address \<Rightarrow> pystr" where
  "one_line a = country a @ u '' '' @ addr_state a @ u '' '' @ city a @ u '' '' @ address_line a
     @ [0xFF08] @ recipient_name a @ u '' '' @ phone a @ [0xFF09]"

definition address_ok :: "address \<Rightarrow> bool" where
  "address_ok a \<longleftrightarrow>
     recipient_name a \<noteq> [] \<and> country a \<noteq> [] \<and> city a \<noteq> [] \<and> address_line a \<noteq> []"

lemma mk_address_Inr_iff [result_simps]: "mk_address a = Inr b \<longleftrightarrow> address_ok a \<and> b = a"
  by (auto simp: mk_address_def address_ok_def)

record order_line =
  line_product_id :: pystr
  line_sku_id :: pystr
  line_title :: pystr
  unit_price :: money
  line_quantity :: int

definition mk_order_line :: "order_line \<Rightarrow> order_line result" where
  "mk_order_line l =
     (if line_quantity l \<le> 0 then Inl (ValueError ''OrderLine.quantity'') else Inr l)"

definition line_subtotal :: "order_line \<Rightarrow> money result" where
  "line_subtotal l = money_multiply (unit_price l) (line_quantity l)"

lemma mk_order_line_Inr_iff [result_simps]:
  "mk_order_line l = Inr l' \<longleftrightarrow> l' = l \<and> 0 < line_quantity l"
  by (auto simp: mk_order_line_def)

section \<open>The order and its state machine\<close>

datatype order_status = DRAFT | CONFIRMED | CANCELLED

record order =
  order_id :: pystr
  buyer_id :: pystr
  shipping_address :: address
  order_lines :: "order_line list"
  status :: order_status
  created_at :: datetime
  confirmed_at :: "datetime option"
  cancelled_at :: "datetime option"
  cancel_reason :: "pystr option"

definition order_currencies :: "order \<Rightarrow> pystr list" where
  "order_currencies ord = dedup (map (\<lambda>l. currency (unit_price l)) (order_lines ord))"

definition mk_order :: "order \<Rightarrow> order result" where
  "mk_order ord =
     (if order_id ord = [] then Inl (ValueError ''Order.order_id'')
      else if buyer_id ord = [] then Inl (ValueError ''Order.buyer_id'')
      else if order_lines ord = [] then Inl (ValueError ''Order.lines'')
      else if length (order_currencies ord) > 1 then Inl (ValueError ''Order currencies'')
      else Inr ord)"

definition confirm :: "datetime \<Rightarrow> order \<Rightarrow> order result" where
  "confirm now ord =
     (if status ord \<noteq> DRAFT then Inl (ValueError ''Order.confirm'')
      else Inr (ord\<lparr>status := CONFIRMED, confirmed_at := Some now\<rparr>))"

definition cancel :: "datetime \<Rightarrow> pystr \<Rightarrow> order \<Rightarrow> order result" where
  "cancel now reason ord =
     (if status ord \<noteq> CONFIRMED then Inl (ValueError ''Order.cancel status'')
      else if reason = [] \<or> blank reason then Inl (ValueError ''Order.cancel reason'')
      else Inr (ord\<lparr>status := CANCELLED, cancelled_at := Some now, cancel_reason := Some reason\<rparr>))"

definition order_place :: "datetime \<Rightarrow> pystr \<Rightarrow> pystr \<Rightarrow> address \<Rightarrow> order_line list \<Rightarrow> order result" where
  "order_place now oid buyer addr ls =
     andThen (mk_order \<lparr>order_id = oid, buyer_id = buyer, shipping_address = addr, order_lines = ls,
                        status = DRAFT, created_at = now, confirmed_at = None,
                        cancelled_at = None, cancel_reason = None\<rparr>)
       (confirm now)"

fun add_subtotals :: "money \<Rightarrow> order_line list \<Rightarrow> money result" where
  "add_subtotals acc [] = Inr acc"
| "add_subtotals acc (l # ls) =
     andThen (line_subtotal l) (\<lambda>s. andThen (money_add acc s) (\<lambda>t. add_subtotals t ls))"

definition total_amount :: "order \<Rightarrow> money result" where
  "total_amount ord =
     (case order_lines ord of
        [] \<Rightarrow> Inl (IndexError ''Order.lines'')
      | l # ls \<Rightarrow> andThen (line_subtotal l) (\<lambda>s. add_subtotals s ls))"

record line_snapshot =
  snap_product_id :: pystr
  snap_sku_id :: pystr
  snap_title :: pystr
  snap_unit_price_major :: rat
  snap_quantity :: int

record order_snapshot =
  snap_order_id :: pystr
  snap_buyer_id :: pystr
  snap_status :: order_status
  snap_total_amount_major :: rat
  snap_currency :: pystr
  snap_shipping_address :: pystr
  snap_lines :: "line_snapshot list"
  snap_created_at :: datetime
  snap_cancel_reason :: "pystr option"

definition snapshot :: "order \<Rightarrow> order_snapshot result" where
  "snapshot ord =
     andThen (total_amount ord) (\<lambda>total.
       Inr \<lparr>snap_order_id = order_id ord, snap_buyer_id = buyer_id ord, snap_status = status ord,
            snap_total_amount_major = to_major_units total, snap_currency = currency total,
            snap_shipping_address = one_line (shipping_address ord),
            snap_lines = map (\<lambda>l. \<lparr>snap_product_id = line_product_id l, snap_sku_id = line_sku_id l,
                                    snap_title = line_title l,
                                    snap_unit_price_major = to_major_units (unit_price l),
                                    snap_quantity = line_quantity l\<rparr>) (order_lines ord),
            snap_created_at = created_at ord, snap_cancel_reason = cancel_reason ord\<rparr>)"

section \<open>The invariant of the aggregate\<close>

definition line_ok :: "order_line \<Rightarrow> bool" where
  "line_ok l \<longleftrightarrow> 0 < line_quantity l \<and> money_ok (unit_price l)"

fun stamps_ok :: "order_status \<Rightarrow> datetime option \<Rightarrow> datetime option \<Rightarrow> pystr option \<Rightarrow> bool" where
  "stamps_ok DRAFT c d r = (c = None \<and> d = None \<and> r = None)"
| "stamps_ok CONFIRMED c d r = (c \<noteq> None \<and> d = None \<and> r = None)"
| "stamps_ok CANCELLED c d r =
     (c \<noteq> None \<and> d \<noteq> None \<and> (case r of None \<Rightarrow> False | Some s \<Rightarrow> \<not> blank s))"

definition same_currency :: "order_line list \<Rightarrow> bool" where
  "same_currency ls \<longleftrightarrow>
     list_all (\<lambda>l. currency (unit_price l) = currency (unit_price (hd ls))) ls"

definition order_ok :: "order \<Rightarrow> bool" where
  "order_ok ord \<longleftrightarrow>
     order_id ord \<noteq> [] \<and> buyer_id ord \<noteq> [] \<and> order_lines ord \<noteq> [] \<and>
     list_all line_ok (order_lines ord) \<and>
     same_currency (order_lines ord) \<and>
     stamps_ok (status ord) (confirmed_at ord) (cancelled_at ord) (cancel_reason ord)"

lemma dedup_le_1: "length (dedup xs) \<le> Suc 0 \<longleftrightarrow> (\<forall>x\<in>set xs. x = hd xs)"
proof
  assume le: "length (dedup xs) \<le> Suc 0"
  show "\<forall>x\<in>set xs. x = hd xs"
  proof (cases "dedup xs")
    case Nil
    then have "set xs = {}" using set_dedup [of xs] by simp
    then show ?thesis by simp
  next
    case (Cons a as)
    with le have s: "set xs = {a}" using set_dedup [of xs] by simp
    then have "xs \<noteq> []" by auto
    then have "hd xs \<in> set xs" by simp
    with s show ?thesis by simp
  qed
next
  assume "\<forall>x\<in>set xs. x = hd xs"
  then have "set (dedup xs) \<subseteq> {hd xs}" by auto
  from card_mono [OF _ this] have "card (set (dedup xs)) \<le> Suc 0" by simp
  then show "length (dedup xs) \<le> Suc 0" by (simp only: distinct_card [OF distinct_dedup])
qed

lemma same_currency_hd:
  "same_currency ls \<Longrightarrow> l \<in> set ls \<Longrightarrow> currency (unit_price l) = currency (unit_price (hd ls))"
  by (simp add: same_currency_def list_all_iff)

lemma order_currencies_le_1:
  "order_lines ord \<noteq> [] \<Longrightarrow>
     length (order_currencies ord) \<le> Suc 0 \<longleftrightarrow> same_currency (order_lines ord)"
  unfolding order_currencies_def dedup_le_1 same_currency_def list_all_iff by (simp add: hd_map)

lemma mk_order_Inr_iff [result_simps]:
  "mk_order ord = Inr ord' \<longleftrightarrow> ord' = ord \<and> order_id ord \<noteq> [] \<and> buyer_id ord \<noteq> [] \<and>
     order_lines ord \<noteq> [] \<and> length (order_currencies ord) \<le> Suc 0"
  by (auto simp: mk_order_def)

lemma order_ok_mk_order: "order_ok ord \<Longrightarrow> mk_order ord = Inr ord"
  by (auto simp: result_simps order_ok_def order_currencies_le_1)

lemma confirm_Inr_iff [result_simps]:
  "confirm now ord = Inr ord' \<longleftrightarrow>
     status ord = DRAFT \<and> ord' = ord\<lparr>status := CONFIRMED, confirmed_at := Some now\<rparr>"
  by (auto simp: confirm_def)

lemma cancel_Inr_iff [result_simps]:
  "cancel now reason ord = Inr ord' \<longleftrightarrow> status ord = CONFIRMED \<and> \<not> blank reason \<and>
     ord' = ord\<lparr>status := CANCELLED, cancelled_at := Some now, cancel_reason := Some reason\<rparr>"
  by (auto simp: cancel_def)

lemma confirm_ok: "order_ok ord \<Longrightarrow> confirm now ord = Inr ord' \<Longrightarrow> order_ok ord'"
  by (auto simp: result_simps order_ok_def)

lemma cancel_ok: "order_ok ord \<Longrightarrow> cancel now reason ord = Inr ord' \<Longrightarrow> order_ok ord'"
  by (auto simp: result_simps order_ok_def)

lemma order_place_ok:
  assumes "list_all line_ok ls" "order_place now oid buyer addr ls = Inr ord"
  shows "order_ok ord \<and> status ord = CONFIRMED \<and> order_id ord = oid \<and> buyer_id ord = buyer \<and>
    order_lines ord = ls \<and> shipping_address ord = addr"
proof -
  let ?o = "\<lparr>order_id = oid, buyer_id = buyer, shipping_address = addr, order_lines = ls,
    status = DRAFT, created_at = now, confirmed_at = None, cancelled_at = None,
    cancel_reason = None\<rparr>"
  from assms(2) have mk: "mk_order ?o = Inr ?o" and ord: "ord = ?o\<lparr>status := CONFIRMED, confirmed_at := Some now\<rparr>"
    by (auto simp: order_place_def result_simps)
  then have "same_currency ls" using order_currencies_le_1 [of ?o] by (simp add: result_simps)
  then show ?thesis using assms(1) mk ord by (simp add: order_ok_def result_simps)
qed

section \<open>Totals\<close>

definition lines_total :: "order_line list \<Rightarrow> int" where
  "lines_total ls = sum_list (map (\<lambda>l. amount_in_minor_units (unit_price l) * line_quantity l) ls)"

lemma line_subtotal_eq:
  "line_ok l \<Longrightarrow> line_subtotal l =
     Inr \<lparr>amount_in_minor_units = amount_in_minor_units (unit_price l) * line_quantity l,
          currency = currency (unit_price l)\<rparr>"
  by (simp add: line_subtotal_def line_ok_def money_multiply_def)

lemma add_subtotals_eq:
  assumes "list_all line_ok ls" "\<forall>l\<in>set ls. currency (unit_price l) = currency m"
  shows "add_subtotals m ls =
    Inr \<lparr>amount_in_minor_units = amount_in_minor_units m + lines_total ls, currency = currency m\<rparr>"
  using assms
proof (induction ls arbitrary: m)
  case (Cons l ls)
  then show ?case
    by (simp add: line_subtotal_eq money_add_def assert_same_currency_def lines_total_def)
qed (simp add: lines_total_def)

lemma total_amount_eq:
  assumes "order_ok ord"
  shows "total_amount ord =
    Inr \<lparr>amount_in_minor_units = lines_total (order_lines ord),
         currency = currency (unit_price (hd (order_lines ord)))\<rparr>"
proof -
  obtain l ls where ls: "order_lines ord = l # ls"
    using assms by (cases "order_lines ord") (auto simp: order_ok_def)
  with assms have ok: "line_ok l" "list_all line_ok ls" and sc: "same_currency (l # ls)"
    by (auto simp: order_ok_def)
  have "\<forall>x\<in>set ls. currency (unit_price x) = currency (unit_price l)"
  proof
    fix x assume "x \<in> set ls"
    then show "currency (unit_price x) = currency (unit_price l)"
      using same_currency_hd [OF sc, of x] by simp
  qed
  with ok ls show ?thesis
    by (simp add: total_amount_def line_subtotal_eq add_subtotals_eq lines_total_def)
qed

lemma snapshot_ok: "order_ok ord \<Longrightarrow> \<exists>snap. snapshot ord = Inr snap"
  by (simp add: snapshot_def total_amount_eq)

lemma snapshot_InrD:
  "snapshot ord = Inr snap \<Longrightarrow> snap_order_id snap = order_id ord \<and> snap_buyer_id snap = buyer_id ord \<and>
     snap_status snap = status ord \<and> snap_cancel_reason snap = cancel_reason ord"
  by (auto simp: snapshot_def result_simps)

section \<open>Life cycle\<close>

inductive order_step :: "order \<Rightarrow> order \<Rightarrow> bool" where
  step_confirm: "confirm now ord = Inr ord' \<Longrightarrow> order_step ord ord'"
| step_cancel: "cancel now reason ord = Inr ord' \<Longrightarrow> order_step ord ord'"

inductive order_reach :: "order \<Rightarrow> order \<Rightarrow> bool" for start where
  reach_refl: "order_reach start start"
| reach_step: "order_reach start ord \<Longrightarrow> order_step ord ord' \<Longrightarrow> order_reach start ord'"

inductive_cases order_stepE: "order_step ord ord'"

fun rank :: "order_status \<Rightarrow> nat" where
  "rank DRAFT = 0"
| "rank CONFIRMED = 1"
| "rank CANCELLED = 2"

lemma order_step_ok: "order_step ord ord' \<Longrightarrow> order_ok ord \<Longrightarrow> order_ok ord'"
  by (erule order_stepE) (auto intro: confirm_ok cancel_ok)

lemma order_step_rank: "order_step ord ord' \<Longrightarrow> rank (status ord') = Suc (rank (status ord))"
  by (erule order_stepE) (auto simp: result_simps)

lemma order_step_frame:
  "order_step ord ord' \<Longrightarrow> order_id ord' = order_id ord \<and> buyer_id ord' = buyer_id ord \<and>
     order_lines ord' = order_lines ord \<and> shipping_address ord' = shipping_address ord \<and>
     created_at ord' = created_at ord"
  by (erule order_stepE) (auto simp: result_simps)

lemma order_reach_ok: "order_reach ord ord' \<Longrightarrow> order_ok ord \<Longrightarrow> order_ok ord'"
  by (induction rule: order_reach.induct) (auto intro: order_step_ok)

lemma order_reach_frame:
  "order_reach ord ord' \<Longrightarrow> order_id ord' = order_id ord \<and> buyer_id ord' = buyer_id ord \<and>
     order_lines ord' = order_lines ord \<and> rank (status ord) \<le> rank (status ord')"
proof (induction rule: order_reach.induct)
  case (reach_step ord1 ord2)
  from order_step_frame [OF reach_step.hyps(2)] order_step_rank [OF reach_step.hyps(2)]
    reach_step.IH show ?case by simp
qed simp

lemma cancelled_final: "status ord = CANCELLED \<Longrightarrow> \<not> order_step ord ord'"
  by (auto elim!: order_stepE simp: result_simps)

section \<open>Properties\<close>

text \<open>C39: A placed order is confirmed and legal, and stays legal along every life: whatever sequence of
  confirmations and cancellations is tried, the id, the buyer and the lines never change, the
  status only moves forward, time stamps and reason match the status, and a cancelled order is final.\<close>

theorem order_lifecycle:
  assumes "list_all line_ok ls" "order_place now oid buyer addr ls = Inr ord" "order_reach ord ord'"
  shows "status ord = CONFIRMED \<and> order_ok ord' \<and> order_id ord' = oid \<and> buyer_id ord' = buyer \<and>
    order_lines ord' = ls \<and> status ord' \<noteq> DRAFT \<and>
    (status ord' = CANCELLED \<longrightarrow> (\<forall>ord''. \<not> order_step ord' ord''))"
proof -
  note p = order_place_ok [OF assms(1,2)]
  from order_reach_frame [OF assms(3)] p have "rank (status ord') \<noteq> 0" by auto
  then have "status ord' \<noteq> DRAFT" by auto
  with order_reach_frame [OF assms(3)] order_reach_ok [OF assms(3)] p cancelled_final
  show ?thesis by auto
qed

definition ex_line :: "int \<Rightarrow> int \<Rightarrow> order_line" where
  "ex_line n q = \<lparr>line_product_id = u ''P1'', line_sku_id = u ''S1'', line_title = u ''Kettle'',
     unit_price = ex_money n, line_quantity = q\<rparr>"

definition ex_address :: address where
  "ex_address = \<lparr>recipient_name = u ''Ann'', country = u ''US'', addr_state = u ''NY'',
     city = u ''NYC'', address_line = u ''1 Main St'', postal_code = [], phone = []\<rparr>"

lemma order_lifecycle_witness:
  "\<exists>ord ord'. order_place 7 (u ''A'') (u ''ann'') ex_address [ex_line 1250 2] = Inr ord \<and>
     cancel 9 (u ''late'') ord = Inr ord' \<and> order_ok ord' \<and> \<not> order_step ord' ord"
proof -
  have ls: "list_all line_ok [ex_line 1250 2]" by code_simp
  obtain ord where pl: "order_place 7 (u ''A'') (u ''ann'') ex_address [ex_line 1250 2] = Inr ord"
    by (simp add: order_place_def mk_order_def confirm_def order_currencies_def dedup_def)
  have "\<not> blank (u ''late'')" by code_simp
  then obtain ord' where c: "cancel 9 (u ''late'') ord = Inr ord'"
    using order_lifecycle [OF ls pl reach_refl] by (simp add: result_simps)
  from order_lifecycle [OF ls pl reach_step [OF reach_refl step_cancel [OF c]]] pl c
  show ?thesis by (auto simp: result_simps)
qed

text \<open>Also: The total of a legal order is the sum of unit price times quantity over its lines, in the
  lines' common currency; adding up never raises. Placing rejects an empty order, an empty id or
  buyer, and lines in more than one currency.\<close>

theorem order_total:
  "(order_ok ord \<longrightarrow> total_amount ord = Inr
      \<lparr>amount_in_minor_units =
         sum_list (map (\<lambda>l. amount_in_minor_units (unit_price l) * line_quantity l) (order_lines ord)),
       currency = currency (unit_price (hd (order_lines ord)))\<rparr>) \<and>
   (oid = [] \<or> buyer = [] \<or> ls = [] \<or> \<not> same_currency ls \<longrightarrow>
      (\<exists>e. order_place now oid buyer addr ls = Inl e))"
proof (intro conjI impI)
  assume "order_ok ord"
  then show "total_amount ord = Inr
      \<lparr>amount_in_minor_units =
         sum_list (map (\<lambda>l. amount_in_minor_units (unit_price l) * line_quantity l) (order_lines ord)),
       currency = currency (unit_price (hd (order_lines ord)))\<rparr>"
    by (simp add: total_amount_eq lines_total_def)
next
  assume bad: "oid = [] \<or> buyer = [] \<or> ls = [] \<or> \<not> same_currency ls"
  let ?o = "\<lparr>order_id = oid, buyer_id = buyer, shipping_address = addr, order_lines = ls,
     status = DRAFT, created_at = now, confirmed_at = None, cancelled_at = None, cancel_reason = None\<rparr>"
  have "\<exists>e. mk_order ?o = Inl e"
    using bad order_currencies_le_1 [of ?o] by (auto simp: mk_order_def)
  then show "\<exists>e. order_place now oid buyer addr ls = Inl e"
    by (auto simp: order_place_def)
qed

lemma order_total_witness:
  "(\<exists>ord. order_ok ord \<and> order_lines ord = [ex_line 1250 2, ex_line 99 3] \<and>
      total_amount ord = Inr (ex_money 2797)) \<and>
   (\<exists>e. order_place 7 [] (u ''ann'') ex_address [ex_line 1250 2] = Inl e)"
proof -
  define ord where "ord = \<lparr>order_id = u ''A'', buyer_id = u ''ann'', shipping_address = ex_address,
     order_lines = [ex_line 1250 2, ex_line 99 3], status = DRAFT, created_at = 7, confirmed_at = None,
     cancelled_at = None, cancel_reason = None\<rparr>"
  have "order_ok ord"
    by (simp add: ord_def order_ok_def line_ok_def ex_line_def ex_money_def money_ok_def
        SUPPORTED_CURRENCIES_def same_currency_def)
  with order_total [of ord "[]" "u ''ann''" "[ex_line 1250 2]" 7 ex_address] show ?thesis
    by (auto simp: ord_def ex_line_def ex_money_def intro!: exI [of _ ord])
qed

end
