(* ===== verification/Order_Repository.thy ===== *)
theory Order_Repository
  imports Orders
begin

text \<open>
  The port \<open>app/domain/order/ports/order_repository.py\<close> and its two implementations:
  \<open>InMemoryOrderRepository\<close> (\<open>in_memory_repositories.py\<close>), whose dictionary holds the very
  objects the use cases mutate, and \<open>SqlOrderRepository\<close> (\<open>sql/repositories.py\<close>), which
  writes rows and builds a fresh aggregate on every read. The locale \<open>order_store\<close> states
  what the use cases rely on; it is interpreted on both.
\<close>

section \<open>The port\<close>

text \<open>
  Every method is a function of the store. \<open>port_touch\<close> is not a method: it is the effect on the
  store of a mutation of an order object that the client obtained from it.
\<close>

record 's order_port =
  port_save :: "order \<Rightarrow> 's \<Rightarrow> unit result \<times> 's"
  port_find :: "pystr \<Rightarrow> 's \<Rightarrow> order option result \<times> 's"
  port_next_order_id :: "'s \<Rightarrow> pystr result \<times> 's"
  port_touch :: "order \<Rightarrow> 's \<Rightarrow> 's"

definition order_no :: "nat \<Rightarrow> pystr" where
  "order_no n = u ''GBX-'' @ dec_pad 6 n"

lemma order_no_inject [simp]: "order_no m = order_no n \<longleftrightarrow> m = n"
  by (simp add: order_no_def)

lemma order_no_nonempty [simp]: "order_no n \<noteq> []"
  by (simp add: order_no_def)

definition stored_ok :: "order \<Rightarrow> bool" where
  "stored_ok ord \<longleftrightarrow> order_ok ord \<and> address_ok (shipping_address ord)"

section \<open>What the use cases rely on\<close>

locale order_store =
  fixes port :: "'s order_port"
    and view :: "'s \<Rightarrow> pystr \<Rightarrow> order option"
    and inv :: "'s \<Rightarrow> bool"
    and issued :: "'s \<Rightarrow> pystr \<Rightarrow> bool"
    and aliasing :: bool
  assumes find_law: "inv s \<Longrightarrow> port_find port oid s = (r, s') \<Longrightarrow>
      inv s' \<and> view s' = view s \<and> issued s' = issued s \<and> (r = Inr (view s oid) \<or> (\<exists>e. r = Inl e))"
    and next_law: "inv s \<Longrightarrow> port_next_order_id port s = (rn, s') \<Longrightarrow>
      inv s' \<and> view s' = view s \<and> (\<forall>x. issued s x \<longrightarrow> issued s' x) \<and>
      (\<forall>oid. rn = Inr oid \<longrightarrow> oid \<noteq> [] \<and> view s oid = None \<and> issued s' oid)"
    and save_law: "inv s \<Longrightarrow> stored_ok ord \<Longrightarrow> issued s (order_id ord) \<Longrightarrow>
      port_save port ord s = (rs, s') \<Longrightarrow>
      inv s' \<and> (\<forall>x. issued s x \<longrightarrow> issued s' x) \<and>
      (rs = Inr () \<and> view s' = (view s)(order_id ord \<mapsto> ord) \<or> (\<exists>e. rs = Inl e) \<and> view s' = view s)"
    and touch_law: "inv s \<Longrightarrow> stored_ok ord \<Longrightarrow> view s (order_id ord) \<noteq> None \<Longrightarrow>
      inv (port_touch port ord s) \<and> issued (port_touch port ord s) = issued s \<and>
      view (port_touch port ord s) = (if aliasing then (view s)(order_id ord \<mapsto> ord) else view s)"
    and view_law: "inv s \<Longrightarrow> view s oid = Some ord \<Longrightarrow> stored_ok ord \<and> order_id ord = oid \<and> issued s oid"
    and view_finite: "inv s \<Longrightarrow> finite (dom (view s))"

section \<open>The in-memory repository\<close>

record mem_orders =
  mo_orders :: "(pystr, order) dict"
  mo_counter :: nat

definition mem_empty :: mem_orders where
  "mem_empty = \<lparr>mo_orders = [], mo_counter = 1\<rparr>"

definition mem_save :: "order \<Rightarrow> mem_orders \<Rightarrow> unit result \<times> mem_orders" where
  "mem_save ord s = (Inr (), s\<lparr>mo_orders := AList.update (order_id ord) ord (mo_orders s)\<rparr>)"

definition mem_find :: "pystr \<Rightarrow> mem_orders \<Rightarrow> order option result \<times> mem_orders" where
  "mem_find oid s = (Inr (map_of (mo_orders s) oid), s)"

definition mem_next_order_id :: "mem_orders \<Rightarrow> pystr result \<times> mem_orders" where
  "mem_next_order_id s = (Inr (order_no (mo_counter s)), s\<lparr>mo_counter := mo_counter s + 1\<rparr>)"

definition mem_port :: "mem_orders order_port" where
  "mem_port = \<lparr>port_save = mem_save, port_find = mem_find, port_next_order_id = mem_next_order_id,
     port_touch = (\<lambda>ord s. snd (mem_save ord s))\<rparr>"

definition mem_view :: "mem_orders \<Rightarrow> pystr \<Rightarrow> order option" where
  "mem_view s = map_of (mo_orders s)"

definition mem_issued :: "mem_orders \<Rightarrow> pystr \<Rightarrow> bool" where
  "mem_issued s oid \<longleftrightarrow> oid \<in> order_no ` {1..<mo_counter s}"

definition mem_inv :: "mem_orders \<Rightarrow> bool" where
  "mem_inv s \<longleftrightarrow> 1 \<le> mo_counter s \<and>
     (\<forall>oid ord. map_of (mo_orders s) oid = Some ord \<longrightarrow>
        stored_ok ord \<and> order_id ord = oid \<and> mem_issued s oid)"

lemma mem_issued_order_no [simp]: "mem_issued s (order_no k) \<longleftrightarrow> 1 \<le> k \<and> k < mo_counter s"
  by (auto simp: mem_issued_def)

lemma mem_inv_empty: "mem_inv mem_empty"
  by (simp add: mem_inv_def mem_empty_def)

lemma mem_view_empty: "mem_view mem_empty = Map.empty"
  by (simp add: mem_view_def mem_empty_def)

lemma mem_fresh: "mem_inv s \<Longrightarrow> map_of (mo_orders s) (order_no (mo_counter s)) = None"
  by (cases "map_of (mo_orders s) (order_no (mo_counter s))") (fastforce simp: mem_inv_def)+

lemma mem_counter_pos: "mem_inv s \<Longrightarrow> 1 \<le> mo_counter s"
  by (simp add: mem_inv_def)

lemma mem_issued_mono: "mem_issued s x \<Longrightarrow> mem_issued (s\<lparr>mo_counter := Suc (mo_counter s)\<rparr>) x"
  by (auto simp: mem_issued_def)

lemma mem_inv_save:
  "mem_inv s \<Longrightarrow> stored_ok ord \<Longrightarrow> mem_issued s (order_id ord) \<Longrightarrow> mem_inv (snd (mem_save ord s))"
  by (simp add: mem_inv_def mem_save_def map_of_update mem_issued_def)

lemma mem_inv_next: "mem_inv s \<Longrightarrow> mem_inv (s\<lparr>mo_counter := Suc (mo_counter s)\<rparr>)"
  by (fastforce simp: mem_inv_def mem_issued_def)

lemma mem_view_issued: "mem_inv s \<Longrightarrow> mem_view s oid \<noteq> None \<Longrightarrow> mem_issued s oid"
  by (auto simp: mem_inv_def mem_view_def)

lemma mem_view_save:
  "mem_view (snd (mem_save ord s)) = (mem_view s)(order_id ord \<mapsto> ord) \<and>
   mem_issued (snd (mem_save ord s)) = mem_issued s"
  by (simp add: mem_view_def mem_save_def map_of_update mem_issued_def fun_eq_iff)

interpretation mem: order_store mem_port mem_view mem_inv mem_issued True
proof unfold_locales
  fix s oid r s' assume "mem_inv s" "port_find mem_port oid s = (r, s')"
  then show "mem_inv s' \<and> mem_view s' = mem_view s \<and> mem_issued s' = mem_issued s \<and>
      (r = Inr (mem_view s oid) \<or> (\<exists>e. r = Inl e))"
    by (auto simp: mem_port_def mem_find_def mem_view_def)
next
  fix s r s' assume "mem_inv s" "port_next_order_id mem_port s = (r, s')"
  then show "mem_inv s' \<and> mem_view s' = mem_view s \<and> (\<forall>x. mem_issued s x \<longrightarrow> mem_issued s' x) \<and>
      (\<forall>oid. r = Inr oid \<longrightarrow> oid \<noteq> [] \<and> mem_view s oid = None \<and> mem_issued s' oid)"
    using mem_fresh [of s] mem_inv_next [of s] mem_counter_pos [of s] mem_issued_mono [of s]
    by (auto simp: mem_port_def mem_next_order_id_def mem_view_def)
next
  fix s ord r s'
  assume "mem_inv s" "stored_ok ord" "mem_issued s (order_id ord)" "port_save mem_port ord s = (r, s')"
  then show "mem_inv s' \<and> (\<forall>x. mem_issued s x \<longrightarrow> mem_issued s' x) \<and>
      (r = Inr () \<and> mem_view s' = (mem_view s)(order_id ord \<mapsto> ord) \<or>
       (\<exists>e. r = Inl e) \<and> mem_view s' = mem_view s)"
    using mem_inv_save [of s ord] mem_view_save [of ord s] by (simp add: mem_port_def mem_save_def)
next
  fix s ord assume "mem_inv s" "stored_ok ord" "mem_view s (order_id ord) \<noteq> None"
  then show "mem_inv (port_touch mem_port ord s) \<and>
      mem_issued (port_touch mem_port ord s) = mem_issued s \<and>
      mem_view (port_touch mem_port ord s) =
        (if True then (mem_view s)(order_id ord \<mapsto> ord) else mem_view s)"
    using mem_inv_save [of s ord] mem_view_issued [of s "order_id ord"]
    by (simp add: mem_port_def mem_view_save)
next
  fix s oid ord assume "mem_inv s" "mem_view s oid = Some ord"
  then show "stored_ok ord \<and> order_id ord = oid \<and> mem_issued s oid"
    by (simp add: mem_inv_def mem_view_def)
next
  fix s show "finite (dom (mem_view s))"
    by (simp add: mem_view_def finite_dom_map_of)
qed

section \<open>The relational repository\<close>

text \<open>
  Two tables and the driver. \<open>db_outcomes\<close> lists what the driver answers to the coming
  transactions: an exception aborts the transaction before it commits; when the list is
  exhausted transactions succeed. \<open>item_rows\<close> is in insertion (primary key) order. Time stamps
  and strings are read back as they were written; the column width limits are the driver's.
\<close>

record order_row =
  row_buyer_id :: pystr
  row_status :: pystr
  row_currency :: pystr
  row_total_amount_minor :: int
  row_address :: address
  row_created_at :: datetime
  row_confirmed_at :: "datetime option"
  row_cancelled_at :: "datetime option"
  row_cancel_reason :: "pystr option"

record item_row =
  item_order_id :: pystr
  item_product_id :: pystr
  item_sku_id :: pystr
  item_title :: pystr
  item_unit_price_minor :: int
  item_currency :: pystr
  item_quantity :: int

record sql_db =
  order_rows :: "(pystr, order_row) dict"
  item_rows :: "item_row list"
  db_outcomes :: "exn option list"

definition transaction :: "sql_db \<Rightarrow> (sql_db \<Rightarrow> 'a result \<times> sql_db) \<Rightarrow> 'a result \<times> sql_db" where
  "transaction db body =
     (case db_outcomes db of
        [] \<Rightarrow> body db
      | outcome # rest \<Rightarrow>
          (case outcome of
             Some e \<Rightarrow> (Inl e, db\<lparr>db_outcomes := rest\<rparr>)
           | None \<Rightarrow> body (db\<lparr>db_outcomes := rest\<rparr>)))"

fun status_value :: "order_status \<Rightarrow> pystr" where
  "status_value DRAFT = u ''DRAFT''"
| "status_value CONFIRMED = u ''CONFIRMED''"
| "status_value CANCELLED = u ''CANCELLED''"

definition status_of :: "pystr \<Rightarrow> order_status result" where
  "status_of s =
     (if s = u ''DRAFT'' then Inr DRAFT
      else if s = u ''CONFIRMED'' then Inr CONFIRMED
      else if s = u ''CANCELLED'' then Inr CANCELLED
      else Inl (ValueError ''OrderStatus''))"

lemma status_of_value [simp]: "status_of (status_value st) = Inr st"
  by (cases st) (simp_all add: status_of_def)

definition to_order_row :: "order \<Rightarrow> money \<Rightarrow> order_row" where
  "to_order_row ord tot =
     \<lparr>row_buyer_id = buyer_id ord, row_status = status_value (status ord),
      row_currency = currency tot, row_total_amount_minor = amount_in_minor_units tot,
      row_address = shipping_address ord, row_created_at = created_at ord,
      row_confirmed_at = confirmed_at ord, row_cancelled_at = cancelled_at ord,
      row_cancel_reason = cancel_reason ord\<rparr>"

definition to_item_row :: "pystr \<Rightarrow> order_line \<Rightarrow> item_row" where
  "to_item_row oid l =
     \<lparr>item_order_id = oid, item_product_id = line_product_id l, item_sku_id = line_sku_id l,
      item_title = line_title l,
      item_unit_price_minor = amount_in_minor_units (unit_price l),
      item_currency = currency (unit_price l), item_quantity = line_quantity l\<rparr>"

definition row_to_line :: "item_row \<Rightarrow> order_line result" where
  "row_to_line r =
     andThen (money_of (item_unit_price_minor r) (item_currency r)) (\<lambda>m.
       mk_order_line \<lparr>line_product_id = item_product_id r, line_sku_id = item_sku_id r,
         line_title = item_title r, unit_price = m, line_quantity = item_quantity r\<rparr>)"

definition row_to_order :: "pystr \<Rightarrow> order_row \<Rightarrow> item_row list \<Rightarrow> order result" where
  "row_to_order oid row items =
     andThen (mk_address (row_address row)) (\<lambda>addr.
     andThen (mapR row_to_line items) (\<lambda>ls.
     andThen (status_of (row_status row)) (\<lambda>st.
       mk_order \<lparr>order_id = oid, buyer_id = row_buyer_id row, shipping_address = addr,
         order_lines = ls, status = st, created_at = row_created_at row,
         confirmed_at = row_confirmed_at row, cancelled_at = row_cancelled_at row,
         cancel_reason = row_cancel_reason row\<rparr>)))"

definition sql_save :: "order \<Rightarrow> sql_db \<Rightarrow> unit result \<times> sql_db" where
  "sql_save ord db =
     (case total_amount ord of
        Inl e \<Rightarrow> (Inl e, db)
      | Inr tot \<Rightarrow> transaction db (\<lambda>d. (Inr (),
          d\<lparr>order_rows := AList.update (order_id ord) (to_order_row ord tot) (order_rows d),
            item_rows := [r \<leftarrow> item_rows d. item_order_id r \<noteq> order_id ord]
              @ map (to_item_row (order_id ord)) (order_lines ord)\<rparr>)))"

definition sql_find :: "pystr \<Rightarrow> sql_db \<Rightarrow> order option result \<times> sql_db" where
  "sql_find oid db = transaction db (\<lambda>d.
     (case map_of (order_rows d) oid of
        None \<Rightarrow> Inr None
      | Some row \<Rightarrow> andThen (row_to_order oid row [r \<leftarrow> item_rows d. item_order_id r = oid])
          (\<lambda>ord. Inr (Some ord)), d))"

definition sql_next_order_id :: "sql_db \<Rightarrow> pystr result \<times> sql_db" where
  "sql_next_order_id db = transaction db (\<lambda>d. (Inr (order_no (length (order_rows d) + 1)), d))"

definition sql_port :: "sql_db order_port" where
  "sql_port = \<lparr>port_save = sql_save, port_find = sql_find, port_next_order_id = sql_next_order_id,
     port_touch = (\<lambda>ord db. db)\<rparr>"

section \<open>The relational repository meets the contract\<close>

lemma row_to_line_round_trip: "line_ok l \<Longrightarrow> row_to_line (to_item_row oid l) = Inr l"
  by (simp add: row_to_line_def to_item_row_def line_ok_def money_ok_def money_of_def mk_order_line_def)

lemma order_eta:
  "\<lparr>order_id = order_id ord, buyer_id = buyer_id ord, shipping_address = shipping_address ord,
    order_lines = order_lines ord, status = status ord, created_at = created_at ord,
    confirmed_at = confirmed_at ord, cancelled_at = cancelled_at ord,
    cancel_reason = cancel_reason ord\<rparr> = (ord :: order)"
  by (cases ord) simp

lemma row_to_order_round_trip:
  assumes "stored_ok ord"
  shows "row_to_order (order_id ord) (to_order_row ord tot)
    (map (to_item_row (order_id ord)) (order_lines ord)) = Inr ord"
proof -
  from assms have ok: "order_ok ord" and addr: "address_ok (shipping_address ord)"
    by (auto simp: stored_ok_def)
  from ok have "list_all line_ok (order_lines ord)" by (simp add: order_ok_def)
  then have ls: "mapR row_to_line (map (to_item_row (order_id ord)) (order_lines ord)) =
      Inr (order_lines ord)"
    by (induction "order_lines ord" arbitrary: ord) 
      (auto simp: mapR_Inr_iff list_all2_map1 list_all_iff row_to_line_round_trip
        intro!: list_all2_refl list.rel_refl_strong)
  have ad: "mk_address (shipping_address ord) = Inr (shipping_address ord)"
    using addr by (simp add: result_simps)
  show ?thesis
    using order_ok_mk_order [OF ok]
    by (simp add: row_to_order_def to_order_row_def ls ad order_eta)
qed

definition sql_view :: "sql_db \<Rightarrow> pystr \<Rightarrow> order option" where
  "sql_view db oid =
     (case map_of (order_rows db) oid of
        None \<Rightarrow> None
      | Some row \<Rightarrow>
          (case row_to_order oid row [r \<leftarrow> item_rows db. item_order_id r = oid] of
             Inl _ \<Rightarrow> None | Inr ord \<Rightarrow> Some ord))"

text \<open>A row and its lines were written by \<open>save\<close> of a legal order.\<close>

definition rows_of :: "sql_db \<Rightarrow> order \<Rightarrow> bool" where
  "rows_of db ord \<longleftrightarrow> stored_ok ord \<and>
     (\<exists>tot. map_of (order_rows db) (order_id ord) = Some (to_order_row ord tot)) \<and>
     [r \<leftarrow> item_rows db. item_order_id r = order_id ord] =
       map (to_item_row (order_id ord)) (order_lines ord)"

definition sql_inv :: "sql_db \<Rightarrow> bool" where
  "sql_inv db \<longleftrightarrow> dict_ok (order_rows db) \<and>
     set (dkeys (order_rows db)) = order_no ` {1..length (order_rows db)} \<and>
     (\<forall>oid. map_of (order_rows db) oid \<noteq> None \<longrightarrow> (\<exists>ord. rows_of db ord \<and> order_id ord = oid))"

definition sql_issued :: "sql_db \<Rightarrow> pystr \<Rightarrow> bool" where
  "sql_issued db oid \<longleftrightarrow> oid \<in> order_no ` {1..length (order_rows db) + 1}"

lemma rows_of_view: "rows_of db ord \<Longrightarrow> sql_view db (order_id ord) = Some ord"
  by (auto simp: rows_of_def sql_view_def row_to_order_round_trip)

lemma sql_view_rows:
  "sql_inv db \<Longrightarrow> sql_view db oid = Some ord \<Longrightarrow> rows_of db ord \<and> order_id ord = oid"
proof -
  assume inv: "sql_inv db" and v: "sql_view db oid = Some ord"
  then have "map_of (order_rows db) oid \<noteq> None" by (auto simp: sql_view_def split: option.splits)
  with inv obtain ord' where "rows_of db ord'" "order_id ord' = oid"
    by (auto simp: sql_inv_def)
  with rows_of_view [of db ord'] v show ?thesis by simp
qed

lemma sql_find_row:
  assumes "sql_inv db"
  shows "(case map_of (order_rows db) oid of
        None \<Rightarrow> Inr None
      | Some row \<Rightarrow> andThen (row_to_order oid row [r \<leftarrow> item_rows db. item_order_id r = oid])
          (\<lambda>ord. Inr (Some ord))) = Inr (sql_view db oid)"
proof (cases "map_of (order_rows db) oid")
  case None
  then show ?thesis by (simp add: sql_view_def)
next
  case (Some row)
  with assms obtain ord where "rows_of db ord" "order_id ord = oid"
    by (auto simp: sql_inv_def)
  then show ?thesis
    using Some rows_of_view [of db ord] by (auto simp: rows_of_def row_to_order_round_trip)
qed

text \<open>The outcomes of the driver are invisible to the view and the invariant.\<close>

lemma sql_outcomes [simp]:
  "sql_view (db\<lparr>db_outcomes := x\<rparr>) = sql_view db"
  "sql_inv (db\<lparr>db_outcomes := x\<rparr>) = sql_inv db"
  "sql_issued (db\<lparr>db_outcomes := x\<rparr>) = sql_issued db"
  by (auto simp: sql_view_def sql_inv_def rows_of_def sql_issued_def fun_eq_iff
      split: option.splits sum.splits)

lemma transaction_cases:
  assumes "transaction db body = (r, db')"
  obtains (commit) x where "body (db\<lparr>db_outcomes := x\<rparr>) = (r, db')"
    | (abort) e x where "r = Inl e" "db' = db\<lparr>db_outcomes := x\<rparr>"
proof (cases "db_outcomes db")
  case Nil
  then have "db = db\<lparr>db_outcomes := []\<rparr>" by simp
  with Nil assms commit [of "[]"] show ?thesis by (simp add: transaction_def)
next
  case (Cons a as)
  with assms commit [of as] abort show ?thesis
    by (cases a) (auto simp: transaction_def)
qed

lemma keys_update_length:
  "length (AList.update k v d) = (if k \<in> fst ` set d then length d else Suc (length d))"
  by (induction d) auto

lemma dict_ok_keys: "set (dkeys d) = dom (map_of d)"
  by (simp add: dkeys_def dom_map_of_conv_image_fst)

lemma sql_fresh: "sql_inv db \<Longrightarrow> map_of (order_rows db) (order_no (Suc (length (order_rows db)))) = None"
proof -
  assume "sql_inv db"
  then have "set (dkeys (order_rows db)) = order_no ` {1..length (order_rows db)}"
    by (simp add: sql_inv_def)
  then have "order_no (Suc (length (order_rows db))) \<notin> set (dkeys (order_rows db))" by auto
  then show ?thesis by (auto simp: dict_ok_keys)
qed

lemma sql_view_None: "map_of (order_rows db) oid = None \<Longrightarrow> sql_view db oid = None"
  by (simp add: sql_view_def)

definition sql_put :: "order \<Rightarrow> money \<Rightarrow> sql_db \<Rightarrow> sql_db" where
  "sql_put ord tot d =
     d\<lparr>order_rows := AList.update (order_id ord) (to_order_row ord tot) (order_rows d),
       item_rows := [r \<leftarrow> item_rows d. item_order_id r \<noteq> order_id ord]
         @ map (to_item_row (order_id ord)) (order_lines ord)\<rparr>"

lemma filter_other_items:
  "oid \<noteq> oid' \<Longrightarrow> filter (\<lambda>r. item_order_id r = oid) (map (to_item_row oid') ls) = []"
  by (induction ls) (simp_all add: to_item_row_def)

lemma filter_own_items:
  "filter (\<lambda>r. item_order_id r = oid) (map (to_item_row oid) ls) = map (to_item_row oid) ls"
  by (induction ls) (simp_all add: to_item_row_def)

lemma put_items:
  "filter (\<lambda>r. item_order_id r = oid) (item_rows (sql_put ord tot d)) =
     (if oid = order_id ord then map (to_item_row oid) (order_lines ord)
      else filter (\<lambda>r. item_order_id r = oid) (item_rows d))"
  by (auto simp: sql_put_def filter_own_items filter_other_items conj_commute
      intro!: filter_cong)

lemma put_rows:
  "map_of (order_rows (sql_put ord tot d)) = (map_of (order_rows d))(order_id ord \<mapsto> to_order_row ord tot)"
  by (simp add: sql_put_def map_of_update)

lemma rows_of_put: "stored_ok ord \<Longrightarrow> rows_of (sql_put ord tot d) ord"
  by (auto simp: rows_of_def put_items put_rows)

lemma rows_of_put_other:
  "rows_of d ord' \<Longrightarrow> order_id ord' \<noteq> order_id ord \<Longrightarrow> rows_of (sql_put ord tot d) ord'"
  by (simp add: rows_of_def put_items put_rows)

lemma sql_put_view:
  assumes "stored_ok ord"
  shows "sql_view (sql_put ord tot d) = (sql_view d)(order_id ord \<mapsto> ord)"
proof
  fix oid
  show "sql_view (sql_put ord tot d) oid = ((sql_view d)(order_id ord \<mapsto> ord)) oid"
    using rows_of_view [OF rows_of_put [OF assms, of tot d]]
    by (cases "oid = order_id ord")
      (simp_all add: sql_view_def put_items put_rows split: option.split)
qed

lemma put_length:
  "length (order_rows (sql_put ord tot d)) =
     (if map_of (order_rows d) (order_id ord) = None then Suc (length (order_rows d))
      else length (order_rows d))"
  by (simp add: sql_put_def keys_update_length map_of_eq_None_iff)

lemma put_keys:
  "set (dkeys (order_rows (sql_put ord tot d))) = insert (order_id ord) (set (dkeys (order_rows d)))"
  by (simp add: dict_ok_keys put_rows)

lemma sql_put_inv:
  assumes inv: "sql_inv d" and ok: "stored_ok ord" and iss: "sql_issued d (order_id ord)"
  shows "sql_inv (sql_put ord tot d) \<and> (\<forall>x. sql_issued d x \<longrightarrow> sql_issued (sql_put ord tot d) x)"
proof
  let ?n = "length (order_rows d)"
  have keys: "set (dkeys (order_rows d)) = order_no ` {1..?n}" using inv by (simp add: sql_inv_def)
  have new: "map_of (order_rows d) (order_id ord) = None \<longleftrightarrow> order_id ord = order_no (Suc ?n)"
    using iss sql_fresh [OF inv] keys unfolding sql_issued_def dict_ok_keys
    by (metis Suc_eq_plus1 atLeastAtMostSuc_conv domIff image_insert insertE le_add2)
  have "dict_ok (order_rows (sql_put ord tot d))" using inv by (simp add: sql_inv_def sql_put_def)
  moreover have "set (dkeys (order_rows (sql_put ord tot d))) =
      order_no ` {1..length (order_rows (sql_put ord tot d))}"
  proof (cases "map_of (order_rows d) (order_id ord)")
    case None
    then show ?thesis using new by (simp add: put_keys put_length keys atLeastAtMostSuc_conv)
  next
    case (Some r)
    then have "order_id ord \<in> set (dkeys (order_rows d))" by (auto simp: dict_ok_keys)
    then show ?thesis using Some by (simp add: put_keys put_length keys insert_absorb)
  qed
  moreover have "\<exists>ord'. rows_of (sql_put ord tot d) ord' \<and> order_id ord' = oid"
    if "map_of (order_rows (sql_put ord tot d)) oid \<noteq> None" for oid
  proof (cases "oid = order_id ord")
    case True
    then show ?thesis using rows_of_put [OF ok] by blast
  next
    case False
    with that have "map_of (order_rows d) oid \<noteq> None" by (simp add: put_rows)
    with inv obtain ord' where "rows_of d ord'" "order_id ord' = oid" by (auto simp: sql_inv_def)
    with False show ?thesis using rows_of_put_other by blast
  qed
  ultimately show "sql_inv (sql_put ord tot d)" unfolding sql_inv_def by blast
  show "\<forall>x. sql_issued d x \<longrightarrow> sql_issued (sql_put ord tot d) x"
    by (auto simp: sql_issued_def put_length)
qed

lemma sql_save_eq:
  "stored_ok ord \<Longrightarrow> \<exists>tot. sql_save ord db = transaction db (\<lambda>d. (Inr (), sql_put ord tot d))"
  by (auto simp: sql_save_def stored_ok_def total_amount_eq sql_put_def)

interpretation sql: order_store sql_port sql_view sql_inv sql_issued False
proof unfold_locales
  fix s oid r s' assume inv: "sql_inv s" and "port_find sql_port oid s = (r, s')"
  then show "sql_inv s' \<and> sql_view s' = sql_view s \<and> sql_issued s' = sql_issued s \<and>
      (r = Inr (sql_view s oid) \<or> (\<exists>e. r = Inl e))"
    using sql_find_row [of "s\<lparr>db_outcomes := _\<rparr>" oid]
    by (auto simp: sql_port_def sql_find_def elim!: transaction_cases)
next
  fix s r s' assume "sql_inv s" "port_next_order_id sql_port s = (r, s')"
  then show "sql_inv s' \<and> sql_view s' = sql_view s \<and> (\<forall>x. sql_issued s x \<longrightarrow> sql_issued s' x) \<and>
      (\<forall>oid. r = Inr oid \<longrightarrow> oid \<noteq> [] \<and> sql_view s oid = None \<and> sql_issued s' oid)"
    using sql_view_None [OF sql_fresh [of s]]
    by (auto simp: sql_port_def sql_next_order_id_def sql_issued_def elim!: transaction_cases)
next
  fix s ord r s'
  assume inv: "sql_inv s" and ok: "stored_ok ord" and iss: "sql_issued s (order_id ord)"
    and save: "port_save sql_port ord s = (r, s')"
  from sql_save_eq [OF ok, of s] obtain tot
    where "sql_save ord s = transaction s (\<lambda>d. (Inr (), sql_put ord tot d))" by blast
  with save have "transaction s (\<lambda>d. (Inr (), sql_put ord tot d)) = (r, s')"
    by (simp add: sql_port_def)
  then show "sql_inv s' \<and> (\<forall>x. sql_issued s x \<longrightarrow> sql_issued s' x) \<and>
      (r = Inr () \<and> sql_view s' = (sql_view s)(order_id ord \<mapsto> ord) \<or>
       (\<exists>e. r = Inl e) \<and> sql_view s' = sql_view s)"
  proof (cases rule: transaction_cases)
    case (commit x)
    then have "r = Inr ()" "s' = sql_put ord tot (s\<lparr>db_outcomes := x\<rparr>)" by simp_all
    with sql_put_inv [of "s\<lparr>db_outcomes := x\<rparr>" ord tot] sql_put_view [OF ok] inv ok iss
    show ?thesis by simp
  next
    case (abort e x)
    with inv show ?thesis by simp
  qed
next
  fix s oid ord assume inv: "sql_inv s" and v: "sql_view s oid = Some ord"
  from sql_view_rows [OF inv v] have r: "rows_of s ord" "order_id ord = oid" by auto
  then have "oid \<in> set (dkeys (order_rows s))" by (auto simp: rows_of_def dict_ok_keys)
  then have "sql_issued s oid" using inv by (auto simp: sql_inv_def sql_issued_def)
  with r show "stored_ok ord \<and> order_id ord = oid \<and> sql_issued s oid" by (simp add: rows_of_def)
next
  fix s
  have "dom (sql_view s) \<subseteq> dom (map_of (order_rows s))"
    by (auto simp: sql_view_def split: option.splits)
  then show "finite (dom (sql_view s))" by (rule finite_subset) (rule finite_dom_map_of)
qed (simp_all add: sql_port_def)

end
