(* ===== verification/Order_Usecases.thy ===== *)
theory Order_Usecases
  imports Order_Repository
begin

text \<open>
  \<open>app/application/usecases/order_usecases.py\<close>: place, query and cancel. The catalogue is a
  dictionary of products whose SKU objects the use cases mutate in place; an SKU object that
  a use case holds is named by its product id and SKU id. The order repository is any
  \<open>order_port\<close>.
\<close>

section \<open>The catalogue as mutable objects\<close>

type_synonym catalog = "(pystr, product) dict"

definition cat_find_sku :: "catalog \<Rightarrow> pystr \<Rightarrow> pystr \<Rightarrow> sku option" where
  "cat_find_sku cat pid sid =
     (case map_of cat pid of None \<Rightarrow> None | Some p \<Rightarrow> find_sku p sid)"

definition cat_set_stock :: "pystr \<Rightarrow> pystr \<Rightarrow> int \<Rightarrow> catalog \<Rightarrow> catalog" where
  "cat_set_stock pid sid n cat = AList.map_entry pid (set_sku_stock sid n) cat"

definition stock_of :: "catalog \<Rightarrow> pystr \<Rightarrow> pystr \<Rightarrow> int option" where
  "stock_of cat pid sid = map_option stock (cat_find_sku cat pid sid)"

definition catalog_ok :: "catalog \<Rightarrow> bool" where
  "catalog_ok cat \<longleftrightarrow> dict_ok cat \<and> list_all (\<lambda>(k, p). product_id p = k \<and> product_ok p) cat"

text \<open>The SKU method \<open>deduct_stock\<close> or \<open>restore_stock\<close>, applied to the object in the catalogue.\<close>

definition cat_apply ::
  "(sku \<Rightarrow> int \<Rightarrow> sku result) \<Rightarrow> pystr \<Rightarrow> pystr \<Rightarrow> int \<Rightarrow> catalog \<Rightarrow> catalog result" where
  "cat_apply meth pid sid q cat =
     (case cat_find_sku cat pid sid of
        None \<Rightarrow> Inl (KeyError ''sku'')
      | Some s \<Rightarrow> andThen (meth s q) (\<lambda>s'. Inr (cat_set_stock pid sid (stock s') cat)))"

section \<open>Placing an order\<close>

record order_item =
  oi_product_id :: pystr
  oi_sku_id :: pystr
  oi_quantity :: int

text \<open>
  The loop of \<open>PlaceOrderUseCase.execute\<close>. The result carries the catalogue and the list of
  deductions at the point where the loop stopped, with an exception or with the lines.
\<close>

type_synonym deduction = "pystr \<times> pystr \<times> int"

fun place_items :: "order_item list \<Rightarrow> catalog \<Rightarrow> deduction list \<Rightarrow> order_line list \<Rightarrow>
    order_line list result \<times> catalog \<times> deduction list" where
  "place_items [] cat deducted lns = (Inr lns, cat, deducted)"
| "place_items (it # its) cat deducted lns =
     (case map_of cat (oi_product_id it) of
        None \<Rightarrow> (Inl (ValueError ''PlaceOrder.product''), cat, deducted)
      | Some p \<Rightarrow>
      (case find_sku p (oi_sku_id it) of
        None \<Rightarrow> (Inl (ValueError ''PlaceOrder.sku''), cat, deducted)
      | Some s \<Rightarrow>
      (case deduct_stock s (oi_quantity it) of
        Inl e \<Rightarrow> (Inl e, cat, deducted)
      | Inr s' \<Rightarrow>
        (let cat' = cat_set_stock (oi_product_id it) (oi_sku_id it) (stock s') cat;
             deducted' = deducted @ [(oi_product_id it, oi_sku_id it, oi_quantity it)]
         in case mk_order_line
              \<lparr>line_product_id = product_id p, line_sku_id = sku_id s',
               line_title = title p @ [0xFF08] @ sku_spec s' @ [0xFF09],
               unit_price = price s', line_quantity = oi_quantity it\<rparr> of
              Inl e \<Rightarrow> (Inl e, cat', deducted')
            | Inr l \<Rightarrow> place_items its cat' deducted' (lns @ [l])))))"

text \<open>The compensation loop: it stops, with its own exception, at the first SKU that refuses.\<close>

fun restore_deducted :: "deduction list \<Rightarrow> catalog \<Rightarrow> unit result \<times> catalog" where
  "restore_deducted [] cat = (Inr (), cat)"
| "restore_deducted ((pid, sid, q) # ds) cat =
     (case cat_apply restore_stock pid sid q cat of
        Inl e \<Rightarrow> (Inl e, cat)
      | Inr cat' \<Rightarrow> restore_deducted ds cat')"

text \<open>\<open>except Exception: restore; raise\<close>: an exception of the loop replaces the first one.\<close>

definition place_failed :: "exn \<Rightarrow> deduction list \<Rightarrow> catalog \<Rightarrow> 's \<Rightarrow>
    order_snapshot result \<times> catalog \<times> 's" where
  "place_failed e deducted cat st =
     (case restore_deducted deducted cat of
        (Inl e', cat') \<Rightarrow> (Inl e', cat', st)
      | (Inr _, cat') \<Rightarrow> (Inl e, cat', st))"

definition place_order :: "'s order_port \<Rightarrow> datetime \<Rightarrow> pystr \<Rightarrow> order_item list \<Rightarrow> address \<Rightarrow>
    catalog \<Rightarrow> 's \<Rightarrow> order_snapshot result \<times> catalog \<times> 's" where
  "place_order port now buyer its addr cat st =
     (if its = [] then (Inl (ValueError ''PlaceOrder.items''), cat, st)
      else case place_items its cat [] [] of
        (Inl e, cat', deducted) \<Rightarrow> place_failed e deducted cat' st
      | (Inr lns, cat', deducted) \<Rightarrow>
      (case port_next_order_id port st of
        (Inl e, st1) \<Rightarrow> place_failed e deducted cat' st1
      | (Inr oid, st1) \<Rightarrow>
      (case order_place now oid buyer addr lns of
        Inl e \<Rightarrow> place_failed e deducted cat' st1
      | Inr ord \<Rightarrow>
      (case port_save port ord st1 of
        (Inl e, st2) \<Rightarrow> place_failed e deducted cat' st2
      | (Inr _, st2) \<Rightarrow> (snapshot ord, cat', st2)))))"

section \<open>Querying an order\<close>

definition query_order :: "'s order_port \<Rightarrow> pystr \<Rightarrow> pystr \<Rightarrow> 's \<Rightarrow> order_snapshot result \<times> 's" where
  "query_order port buyer oid st =
     (case port_find port oid st of
        (Inl e, st1) \<Rightarrow> (Inl e, st1)
      | (Inr found, st1) \<Rightarrow>
      (case found of
        None \<Rightarrow> (Inl (ValueError ''order not accessible''), st1)
      | Some ord \<Rightarrow>
          if buyer_id ord \<noteq> buyer then (Inl (ValueError ''order not accessible''), st1)
          else (snapshot ord, st1)))"

section \<open>Cancelling an order\<close>

fun restore_lines :: "order_line list \<Rightarrow> catalog \<Rightarrow> deduction list \<Rightarrow>
    unit result \<times> catalog \<times> deduction list" where
  "restore_lines [] cat restored = (Inr (), cat, restored)"
| "restore_lines (l # ls) cat restored =
     (case cat_find_sku cat (line_product_id l) (line_sku_id l) of
        None \<Rightarrow> restore_lines ls cat restored
      | Some s \<Rightarrow>
      (case restore_stock s (line_quantity l) of
        Inl e \<Rightarrow> (Inl e, cat, restored)
      | Inr s' \<Rightarrow> restore_lines ls
          (cat_set_stock (line_product_id l) (line_sku_id l) (stock s') cat)
          (restored @ [(line_product_id l, line_sku_id l, line_quantity l)])))"

fun deduct_restored :: "deduction list \<Rightarrow> catalog \<Rightarrow> unit result \<times> catalog" where
  "deduct_restored [] cat = (Inr (), cat)"
| "deduct_restored ((pid, sid, q) # ds) cat =
     (case cat_apply deduct_stock pid sid q cat of
        Inl e \<Rightarrow> (Inl e, cat)
      | Inr cat' \<Rightarrow> deduct_restored ds cat')"

text \<open>
  The compensation of a failed cancellation: deduct again, then put the three saved fields of
  the order object back. When a deduction raises, the fields are not put back.
\<close>

definition cancel_failed :: "'s order_port \<Rightarrow> order \<Rightarrow> order \<Rightarrow> exn \<Rightarrow> deduction list \<Rightarrow> catalog \<Rightarrow> 's \<Rightarrow>
    order_snapshot result \<times> catalog \<times> 's" where
  "cancel_failed port ord previous e restored cat st =
     (case deduct_restored (rev restored) cat of
        (Inl e', cat') \<Rightarrow> (Inl e', cat', st)
      | (Inr _, cat') \<Rightarrow>
          (Inl e, cat', port_touch port
             (ord\<lparr>status := status previous, cancelled_at := cancelled_at previous,
                  cancel_reason := cancel_reason previous\<rparr>) st))"

definition cancel_order :: "'s order_port \<Rightarrow> datetime \<Rightarrow> pystr \<Rightarrow> pystr \<Rightarrow> pystr \<Rightarrow>
    catalog \<Rightarrow> 's \<Rightarrow> order_snapshot result \<times> catalog \<times> 's" where
  "cancel_order port now buyer oid reason cat st =
     (case port_find port oid st of
        (Inl e, st1) \<Rightarrow> (Inl e, cat, st1)
      | (Inr found, st1) \<Rightarrow>
      (case found of
        None \<Rightarrow> (Inl (ValueError ''order not accessible''), cat, st1)
      | Some ord \<Rightarrow>
      if buyer_id ord \<noteq> buyer then (Inl (ValueError ''order not accessible''), cat, st1)
      else (case cancel now reason ord of
        Inl e \<Rightarrow> cancel_failed port ord ord e [] cat st1
      | Inr ord' \<Rightarrow>
      (let st2 = port_touch port ord' st1
       in case restore_lines (order_lines ord') cat [] of
            (Inl e, cat', restored) \<Rightarrow> cancel_failed port ord' ord e restored cat' st2
          | (Inr _, cat', restored) \<Rightarrow>
            (case port_save port ord' st2 of
               (Inl e, st3) \<Rightarrow> cancel_failed port ord' ord e restored cat' st3
             | (Inr _, st3) \<Rightarrow> (snapshot ord', cat', st3))))))"

section \<open>Stock adjustments\<close>

text \<open>
  Every stock change of the use cases adds a signed quantity to one SKU object. Adjustments
  commute and cancel, which is what makes the compensations exact.
\<close>

definition adj :: "pystr \<Rightarrow> pystr \<Rightarrow> int \<Rightarrow> catalog \<Rightarrow> catalog" where
  "adj pid sid d cat = AList.map_entry pid
     (\<lambda>p. p\<lparr>skus := update_first (\<lambda>s. sku_id s = sid) (\<lambda>s. s\<lparr>stock := stock s + d\<rparr>) (skus p)\<rparr>) cat"

fun adjs :: "int \<Rightarrow> deduction list \<Rightarrow> catalog \<Rightarrow> catalog" where
  "adjs g [] cat = cat"
| "adjs g ((pid, sid, q) # ds) cat = adjs g ds (adj pid sid (g * q) cat)"

lemma map_of_map_entry:
  "map_of (AList.map_entry k f d) k' =
     (if k' = k then map_option f (map_of d k) else map_of d k')"
  by (induction d) auto

lemma keys_map_entry [simp]: "map fst (AList.map_entry k f d) = map fst d"
  by (induction d) auto

lemma map_entry_cong_first:
  "(\<And>v. map_of d k = Some v \<Longrightarrow> f v = g v) \<Longrightarrow> AList.map_entry k f d = AList.map_entry k g d"
  by (induction d) auto

lemma map_entry_comp: "AList.map_entry k f (AList.map_entry k g d) = AList.map_entry k (f \<circ> g) d"
  by (induction d) auto

lemma map_entry_ident: "(\<And>v. map_of d k = Some v \<Longrightarrow> f v = v) \<Longrightarrow> AList.map_entry k f d = d"
  by (induction d) auto

lemma map_entry_swap:
  "k \<noteq> k' \<Longrightarrow>
   AList.map_entry k f (AList.map_entry k' g d) = AList.map_entry k' g (AList.map_entry k f d)"
  by (induction d) auto

lemma update_first_swap:
  "(\<And>x. p (g x) = p x) \<Longrightarrow> (\<And>x. q (f x) = q x) \<Longrightarrow> (\<And>x. f (g x) = g (f x)) \<Longrightarrow>
   update_first p f (update_first q g xs) = update_first q g (update_first p f xs)"
  by (induction xs) auto

lemma update_first_find_cong:
  "(\<And>x. List.find p xs = Some x \<Longrightarrow> f x = g x) \<Longrightarrow> update_first p f xs = update_first p g xs"
  by (induction xs) auto

lemma cat_set_stock_adj:
  assumes "cat_find_sku cat pid sid = Some s"
  shows "cat_set_stock pid sid (stock s + d) cat = adj pid sid d cat"
  unfolding cat_set_stock_def adj_def
proof (rule map_entry_cong_first)
  fix p assume "map_of cat pid = Some p"
  with assms have f: "List.find (\<lambda>s. sku_id s = sid) (skus p) = Some s"
    by (simp add: cat_find_sku_def find_sku_def)
  have "update_first (\<lambda>s. sku_id s = sid) (\<lambda>x. x\<lparr>stock := stock s + d\<rparr>) (skus p) =
      update_first (\<lambda>s. sku_id s = sid) (\<lambda>x. x\<lparr>stock := stock x + d\<rparr>) (skus p)"
    by (rule update_first_find_cong) (use f in simp)
  then show "set_sku_stock sid (stock s + d) p =
      p\<lparr>skus := update_first (\<lambda>s. sku_id s = sid) (\<lambda>x. x\<lparr>stock := stock x + d\<rparr>) (skus p)\<rparr>"
    by (simp add: set_sku_stock_def)
qed

lemma adj_none: "cat_find_sku cat pid sid = None \<Longrightarrow> adj pid sid d cat = cat"
  unfolding adj_def
  by (rule map_entry_ident) (simp add: cat_find_sku_def find_sku_def update_first_none)

lemma adj_0 [simp]: "adj pid sid 0 cat = cat"
  unfolding adj_def by (rule map_entry_ident) (simp add: update_first_id)

lemma adj_adj: "adj pid sid d (adj pid sid e cat) = adj pid sid (d + e) cat"
  by (simp add: adj_def map_entry_comp update_first_comp comp_def add.commute add.left_commute)

lemma adj_commute: "adj p s d (adj p' s' d' cat) = adj p' s' d' (adj p s d cat)"
proof (cases "p = p'")
  case True
  let ?F = "\<lambda>s d (p :: product).
    p\<lparr>skus := update_first (\<lambda>x. sku_id x = s) (\<lambda>x. x\<lparr>stock := stock x + d\<rparr>) (skus p)\<rparr>"
  have swap: "update_first (\<lambda>x. sku_id x = s) (\<lambda>x. x\<lparr>stock := stock x + d\<rparr>)
          (update_first (\<lambda>x. sku_id x = s') (\<lambda>x. x\<lparr>stock := stock x + d'\<rparr>) xs) =
        update_first (\<lambda>x. sku_id x = s') (\<lambda>x. x\<lparr>stock := stock x + d'\<rparr>)
          (update_first (\<lambda>x. sku_id x = s) (\<lambda>x. x\<lparr>stock := stock x + d\<rparr>) xs)" for xs
    by (rule update_first_swap) auto
  have "?F s d \<circ> ?F s' d' = ?F s' d' \<circ> ?F s d"
    by (rule ext) (simp, subst swap, rule refl)
  then show ?thesis using True by (simp only: adj_def map_entry_comp)
qed (simp add: adj_def map_entry_swap)

lemma cat_find_adj:
  "cat_find_sku (adj p s d cat) p' s' =
     (if p' = p \<and> s' = s then map_option (\<lambda>x. x\<lparr>stock := stock x + d\<rparr>) (cat_find_sku cat p s)
      else cat_find_sku cat p' s')"
  by (cases "map_of cat p")
    (auto simp: cat_find_sku_def adj_def map_of_map_entry find_sku_def
      intro!: find_update_first find_update_first_other)

lemma stock_of_adj:
  "stock_of (adj p s d cat) p' s' =
     (if p' = p \<and> s' = s then map_option (\<lambda>n. n + d) (stock_of cat p s) else stock_of cat p' s')"
  by (simp add: stock_of_def cat_find_adj option.map_comp comp_def)

lemma adjs_adj: "adjs g ds (adj p s d cat) = adj p s d (adjs g ds cat)"
  by (induction g ds cat rule: adjs.induct) (simp_all add: adj_commute)

lemma adjs_append: "adjs g (ds @ es) cat = adjs g es (adjs g ds cat)"
  by (induction g ds cat rule: adjs.induct) simp_all

lemma adjs_undo: "h + g = 0 \<Longrightarrow> adjs g ds (adjs h ds cat) = cat"
proof (induction ds arbitrary: cat)
  case (Cons x ds)
  then show ?case
    by (cases x) (simp add: adjs_adj adj_adj flip: distrib_right)
qed simp

text \<open>How much of one SKU a list of deductions or of order lines holds.\<close>

definition held :: "pystr \<Rightarrow> pystr \<Rightarrow> deduction list \<Rightarrow> int" where
  "held pid sid ds = sum_list (map (\<lambda>(p, s, q). if p = pid \<and> s = sid then q else 0) ds)"

lemma stock_of_adjs:
  "stock_of (adjs g ds cat) p s = map_option (\<lambda>n. n + g * held p s ds) (stock_of cat p s)"
proof (induction ds arbitrary: cat)
  case (Cons x ds)
  then show ?case
    by (cases x; cases "stock_of cat p s") (auto simp: stock_of_adj held_def algebra_simps)
qed (simp add: held_def option.map_ident)

lemma adjs_exists: "cat_find_sku (adjs g ds cat) p s = None \<longleftrightarrow> cat_find_sku cat p s = None"
proof (induction ds arbitrary: cat)
  case (Cons x ds)
  then show ?case by (cases x) (auto simp: cat_find_adj)
qed simp

section \<open>The catalogue invariant\<close>

lemma catalog_ok_product:
  "catalog_ok cat \<Longrightarrow> map_of cat pid = Some p \<Longrightarrow> product_id p = pid \<and> product_ok p"
  by (fastforce simp: catalog_ok_def list_all_iff dest: map_of_SomeD)

lemma catalog_ok_sku: "catalog_ok cat \<Longrightarrow> cat_find_sku cat pid sid = Some s \<Longrightarrow> sku_ok s \<and> sku_id s = sid"
  by (auto simp: cat_find_sku_def split: option.splits
      dest: catalog_ok_product find_sku_ok find_skuD)

lemma set_map_entry: "x \<in> set (AList.map_entry k f d) \<Longrightarrow> x \<in> set d \<or> (\<exists>v. (k, v) \<in> set d \<and> x = (k, f v))"
  by (induction d) (auto split: if_splits)

lemma catalog_ok_set_stock:
  assumes "catalog_ok cat" "0 \<le> n"
  shows "catalog_ok (cat_set_stock pid sid n cat)"
proof -
  have "dict_ok (cat_set_stock pid sid n cat)"
    using assms(1) by (simp add: catalog_ok_def dict_ok_def dkeys_def cat_set_stock_def)
  moreover have "product_id p = k \<and> product_ok p" if "(k, p) \<in> set (cat_set_stock pid sid n cat)" for k p
    using set_map_entry [OF that [unfolded cat_set_stock_def]] assms
    by (auto simp: catalog_ok_def list_all_iff set_sku_stock_ok)
  ultimately show ?thesis by (auto simp: catalog_ok_def list_all_iff)
qed

lemma catalog_ok_adj:
  assumes "catalog_ok cat" "\<And>n. stock_of cat pid sid = Some n \<Longrightarrow> 0 \<le> n + d"
  shows "catalog_ok (adj pid sid d cat)"
proof (cases "cat_find_sku cat pid sid")
  case None
  then show ?thesis using assms(1) by (simp add: adj_none)
next
  case (Some s)
  then show ?thesis
    using catalog_ok_set_stock [OF assms(1), of "stock s + d" pid sid] assms(2)
    by (simp add: cat_set_stock_adj stock_of_def)
qed

section \<open>What the loops do\<close>

definition deduction_of :: "order_line \<Rightarrow> deduction" where
  "deduction_of l = (line_product_id l, line_sku_id l, line_quantity l)"

definition item_line :: "catalog \<Rightarrow> order_item \<Rightarrow> order_line \<Rightarrow> bool" where
  "item_line cat it l \<longleftrightarrow>
     line_product_id l = oi_product_id it \<and> line_sku_id l = oi_sku_id it \<and>
     line_quantity l = oi_quantity it \<and> line_ok l \<and>
     (\<exists>s. cat_find_sku cat (oi_product_id it) (oi_sku_id it) = Some s \<and> unit_price l = price s)"

text \<open>The deductions on record: each names an existing SKU and a quantity of at least zero.\<close>

definition deductions_ok :: "catalog \<Rightarrow> deduction list \<Rightarrow> bool" where
  "deductions_ok cat ds \<longleftrightarrow> list_all (\<lambda>(p, s, q). cat_find_sku cat p s \<noteq> None \<and> 0 \<le> q) ds"

lemma deductions_ok_adj: "deductions_ok (adj p s d cat) ds = deductions_ok cat ds"
  using adjs_exists [of 1 "[(p, s, d)]" cat]
  by (simp add: deductions_ok_def list_all_iff case_prod_beta)

lemma item_line_adj: "item_line (adj p s d cat) it l = item_line cat it l"
  by (cases "cat_find_sku cat p s") (auto simp: item_line_def cat_find_adj)

lemma place_items_step:
  assumes ok: "catalog_ok cat" and q: "0 \<le> oi_quantity it"
  obtains (stop) e where "\<And>its ds lns. place_items (it # its) cat ds lns = (Inl e, cat, ds)"
  | (zero) e where "oi_quantity it = 0"
      "cat_find_sku cat (oi_product_id it) (oi_sku_id it) \<noteq> None"
      "\<And>its ds lns. place_items (it # its) cat ds lns =
         (Inl e, adj (oi_product_id it) (oi_sku_id it) (- oi_quantity it) cat,
          ds @ [(oi_product_id it, oi_sku_id it, oi_quantity it)])"
  | (go) l where "item_line cat it l"
      "catalog_ok (adj (oi_product_id it) (oi_sku_id it) (- oi_quantity it) cat)"
      "\<And>its ds lns. place_items (it # its) cat ds lns =
         place_items its (adj (oi_product_id it) (oi_sku_id it) (- oi_quantity it) cat)
           (ds @ [(oi_product_id it, oi_sku_id it, oi_quantity it)]) (lns @ [l])"
proof -
  let ?p = "oi_product_id it" and ?s = "oi_sku_id it" and ?q = "oi_quantity it"
  show thesis
  proof (cases "cat_find_sku cat ?p ?s")
    case None
    then show thesis
      using stop by (cases "map_of cat ?p") (auto simp: cat_find_sku_def)
  next
    case (Some s)
    then obtain p where p: "map_of cat ?p = Some p" "find_sku p ?s = Some s"
      by (auto simp: cat_find_sku_def split: option.splits)
    have sok: "sku_ok s" "sku_id s = ?s" and pok: "product_id p = ?p"
      using catalog_ok_sku [OF ok Some] catalog_ok_product [OF ok p(1)] by auto
    show thesis
    proof (cases "?q \<le> stock s")
      case False
      then show thesis using p stop by (auto simp: deduct_stock_def has_stock_def)
    next
      case True
      have set: "cat_set_stock ?p ?s (stock s - ?q) cat = adj ?p ?s (- ?q) cat"
        using cat_set_stock_adj [OF Some, of "- ?q"] by simp
      have cok: "catalog_ok (adj ?p ?s (- ?q) cat)"
        using True Some by (intro catalog_ok_adj [OF ok]) (auto simp: stock_of_def)
      show thesis
      proof (cases "?q = 0")
        case 0: True
        then show thesis using True p set Some
          by (intro zero) (auto simp: deduct_stock_def has_stock_def mk_order_line_def Let_def)
      next
        case False
        with q have pos: "0 < ?q" by simp
        let ?l = "\<lparr>line_product_id = product_id p, line_sku_id = sku_id s,
          line_title = title p @ [0xFF08] @ sku_spec s @ [0xFF09], unit_price = price s,
          line_quantity = ?q\<rparr>"
        have "item_line cat it ?l"
          using pos sok pok Some by (auto simp: item_line_def line_ok_def sku_ok_def)
        then show thesis using True p set cok pos
          by (intro go [of ?l])
            (simp_all add: deduct_stock_def has_stock_def mk_order_line_def Let_def)
      qed
    qed
  qed
qed

lemma list_all2_item_line_adj:
  "list_all2 (item_line (adj p s d cat)) its ls = list_all2 (item_line cat) its ls"
  by (simp add: item_line_adj fun_eq_iff cong: list.rel_cong)

lemma place_items_spec:
  assumes "catalog_ok cat" "list_all (\<lambda>it. 0 \<le> oi_quantity it) its"
    and "place_items its cat ds lns = (r, cat', ds')"
  shows "\<exists>new. ds' = ds @ new \<and> cat' = adjs (-1) new cat \<and> deductions_ok cat new \<and>
    (\<forall>lns'. r = Inr lns' \<longrightarrow> (\<exists>ls. lns' = lns @ ls \<and> list_all2 (item_line cat) its ls \<and>
       new = map deduction_of ls \<and> catalog_ok cat'))"
  using assms
proof (induction its arbitrary: cat ds lns)
  case Nil
  then show ?case by (auto simp: deductions_ok_def)
next
  case (Cons it its)
  let ?d = "(oi_product_id it, oi_sku_id it, oi_quantity it)"
  let ?cat = "adj (oi_product_id it) (oi_sku_id it) (- oi_quantity it) cat"
  from Cons.prems(2) have q: "0 \<le> oi_quantity it" by simp
  from Cons.prems(1) q show ?case
  proof (cases rule: place_items_step)
    case (stop e)
    then show ?thesis using Cons.prems(3) by (auto simp: deductions_ok_def)
  next
    case (zero e)
    then show ?thesis using Cons.prems(3)
      by (intro exI [of _ "[?d]"]) (auto simp: deductions_ok_def)
  next
    case (go l)
    with Cons.prems(3) have pl: "place_items its ?cat (ds @ [?d]) (lns @ [l]) = (r, cat', ds')"
      by simp
    from Cons.IH [OF go(2) _ pl] Cons.prems(2) obtain new where
      new: "ds' = (ds @ [?d]) @ new" "cat' = adjs (-1) new ?cat" "deductions_ok ?cat new"
      and res: "\<forall>lns'. r = Inr lns' \<longrightarrow> (\<exists>ls. lns' = (lns @ [l]) @ ls \<and>
        list_all2 (item_line ?cat) its ls \<and> new = map deduction_of ls \<and> catalog_ok cat')"
      by auto
    have d: "?d = deduction_of l" and ex: "deductions_ok cat [?d]"
      using go(1) q by (auto simp: item_line_def deduction_of_def deductions_ok_def)
    have new3: "deductions_ok cat new" using new(3) by (simp add: deductions_ok_adj)
    show ?thesis
    proof (intro exI [of _ "?d # new"] conjI allI impI)
      fix lns' assume "r = Inr lns'"
      with res obtain ls where "lns' = (lns @ [l]) @ ls" "list_all2 (item_line ?cat) its ls"
        "new = map deduction_of ls" "catalog_ok cat'" by auto
      then show "\<exists>ls. lns' = lns @ ls \<and> list_all2 (item_line cat) (it # its) ls \<and>
          ?d # new = map deduction_of ls \<and> catalog_ok cat'"
        using go(1) d by (intro exI [of _ "l # ls"]) (simp add: list_all2_item_line_adj)
    qed (use new(1,2) new3 ex in \<open>auto simp: deductions_ok_def\<close>)
  qed
qed

lemma restore_deducted_eq:
  "deductions_ok cat ds \<Longrightarrow> restore_deducted ds cat = (Inr (), adjs 1 ds cat)"
proof (induction ds arbitrary: cat)
  case (Cons d ds)
  obtain p s q where d: "d = (p, s, q)" by (cases d)
  from Cons.prems d obtain x where x: "cat_find_sku cat p s = Some x" and q: "0 \<le> q"
    and ds: "deductions_ok (adj p s q cat) ds"
    unfolding deductions_ok_adj by (auto simp: deductions_ok_def)
  have "cat_apply restore_stock p s q cat = Inr (adj p s q cat)"
    using x q cat_set_stock_adj [OF x, of q] by (simp add: cat_apply_def restore_stock_def)
  then show ?case using d Cons.IH [OF ds] by simp
qed simp

definition lines_known :: "catalog \<Rightarrow> order_line list \<Rightarrow> order_line list" where
  "lines_known cat ls = [l \<leftarrow> ls. cat_find_sku cat (line_product_id l) (line_sku_id l) \<noteq> None]"

lemma lines_known_simps [simp]:
  "lines_known cat [] = []"
  "lines_known cat (l # ls) =
     (if cat_find_sku cat (line_product_id l) (line_sku_id l) = None then lines_known cat ls
      else l # lines_known cat ls)"
  by (simp_all add: lines_known_def)

lemma adjs_line [simp]:
  "adjs g (deduction_of l # ds) cat =
     adjs g ds (adj (line_product_id l) (line_sku_id l) (g * line_quantity l) cat)"
  by (simp add: deduction_of_def)

lemma lines_known_adj: "lines_known (adj p s d cat) ls = lines_known cat ls"
  by (cases "cat_find_sku cat p s") (auto simp: lines_known_def cat_find_adj intro!: filter_cong)

lemma adjs_lines_known:
  "adjs g (map deduction_of (lines_known cat ls)) cat = adjs g (map deduction_of ls) cat"
proof (induction ls arbitrary: cat)
  case (Cons l ls)
  have eq: "adj (line_product_id l) (line_sku_id l) (g * line_quantity l) cat = cat"
    if "cat_find_sku cat (line_product_id l) (line_sku_id l) = None"
    using that by (rule adj_none)
  have "adjs g (map deduction_of (lines_known cat ls))
      (adj (line_product_id l) (line_sku_id l) (g * line_quantity l) cat) =
    adjs g (map deduction_of ls)
      (adj (line_product_id l) (line_sku_id l) (g * line_quantity l) cat)"
    using Cons [of "adj (line_product_id l) (line_sku_id l) (g * line_quantity l) cat"]
    by (simp only: lines_known_adj)
  then show ?case
    using eq by (cases "cat_find_sku cat (line_product_id l) (line_sku_id l)") simp_all
qed simp

lemma restore_lines_eq:
  "list_all line_ok ls \<Longrightarrow> restore_lines ls cat ds =
     (Inr (), adjs 1 (map deduction_of ls) cat, ds @ map deduction_of (lines_known cat ls))"
proof (induction ls arbitrary: cat ds)
  case (Cons l ls)
  let ?p = "line_product_id l" and ?s = "line_sku_id l" and ?q = "line_quantity l"
  show ?case
  proof (cases "cat_find_sku cat ?p ?s")
    case None
    then show ?thesis using Cons by (simp add: adj_none)
  next
    case (Some x)
    have "0 \<le> ?q" using Cons.prems by (simp add: line_ok_def)
    then show ?thesis
      using Some Cons cat_set_stock_adj [OF Some, of ?q] lines_known_adj [of ?p ?s ?q cat ls]
      by (simp add: restore_stock_def) (simp add: deduction_of_def)
  qed
qed simp

lemma catalog_ok_adjs:
  "catalog_ok cat \<Longrightarrow> list_all (\<lambda>(p, s, q). 0 \<le> q) ds \<Longrightarrow> catalog_ok (adjs 1 ds cat)"
proof (induction ds arbitrary: cat)
  case (Cons d ds)
  obtain p s q where d: "d = (p, s, q)" by (cases d)
  have "catalog_ok (adj p s q cat)"
  proof (rule catalog_ok_adj [OF Cons.prems(1)])
    fix n assume "stock_of cat p s = Some n"
    then obtain x where "cat_find_sku cat p s = Some x" "n = stock x" by (auto simp: stock_of_def)
    then show "0 \<le> n + q"
      using catalog_ok_sku [OF Cons.prems(1)] Cons.prems(2) d by (fastforce simp: sku_ok_def)
  qed
  then show ?case using Cons d by simp
qed simp

lemma deduct_restored_eq:
  assumes "catalog_ok cat" "deductions_ok cat ds"
  shows "deduct_restored (rev ds) (adjs 1 ds cat) = (Inr (), cat)"
  using assms(2)
proof (induction ds rule: rev_induct)
  case (snoc d ds)
  obtain p s q where d: "d = (p, s, q)" by (cases d)
  have ds: "deductions_ok cat ds" and ex: "cat_find_sku cat p s \<noteq> None" and q: "0 \<le> q"
    using snoc.prems d by (auto simp: deductions_ok_def)
  have cok: "catalog_ok (adjs 1 ds cat)"
    using ds by (intro catalog_ok_adjs [OF assms(1)]) (auto simp: deductions_ok_def list_all_iff)
  obtain x where x: "cat_find_sku (adjs 1 ds cat) p s = Some x"
    using ex adjs_exists [of 1 ds cat p s] by auto
  have y: "cat_find_sku (adj p s q (adjs 1 ds cat)) p s = Some (x\<lparr>stock := stock x + q\<rparr>)"
    using x by (simp add: cat_find_adj)
  have "0 \<le> stock x" using catalog_ok_sku [OF cok x] by (simp add: sku_ok_def)
  then have "cat_apply deduct_stock p s q (adj p s q (adjs 1 ds cat)) = Inr (adjs 1 ds cat)"
    using y cat_set_stock_adj [OF y, of "- q"]
    by (simp add: cat_apply_def deduct_stock_def has_stock_def adj_adj)
  then show ?case using d snoc.IH [OF ds] by (simp add: adjs_append)
qed simp

section \<open>The use cases over any order repository\<close>

lemma item_lines_ok: "list_all2 (item_line cat) its ls \<Longrightarrow> list_all line_ok ls"
  by (induction rule: list_all2_induct) (simp_all add: item_line_def)

lemma place_failed_undo:
  "deductions_ok cat ds \<Longrightarrow> place_failed e ds (adjs (-1) ds cat) st = (Inl e, cat, st)"
proof -
  assume "deductions_ok cat ds"
  then have "deductions_ok (adjs (-1) ds cat) ds"
    by (simp add: deductions_ok_def list_all_iff adjs_exists case_prod_beta flip: not_None_eq)
  then show ?thesis by (simp add: place_failed_def restore_deducted_eq adjs_undo)
qed

definition items_ok :: "order_item list \<Rightarrow> bool" where
  "items_ok its \<longleftrightarrow> list_all (\<lambda>it. 0 \<le> oi_quantity it) its"

text \<open>The order that a successful placement stores.\<close>

definition placed :: "catalog \<Rightarrow> pystr \<Rightarrow> order_item list \<Rightarrow> address \<Rightarrow> order \<Rightarrow> bool" where
  "placed cat buyer its addr ord \<longleftrightarrow> stored_ok ord \<and> status ord = CONFIRMED \<and>
     buyer_id ord = buyer \<and> shipping_address ord = addr \<and>
     list_all2 (item_line cat) its (order_lines ord)"

context order_store
begin

lemma place_order_cases:
  assumes inv: "inv st" and cok: "catalog_ok cat" and its: "items_ok its" and addr: "address_ok addr"
    and run: "place_order port now buyer its addr cat st = (r, cat', st')"
  obtains (failed) e where "r = Inl e" "cat' = cat" "inv st'" "view st' = view st"
  | (success) ord where "placed cat buyer its addr ord" "view st (order_id ord) = None"
      "r = snapshot ord" "inv st'" "view st' = (view st)(order_id ord \<mapsto> ord)"
      "cat' = adjs (-1) (map deduction_of (order_lines ord)) cat" "catalog_ok cat'"
proof (cases "its = []")
  case True
  then show thesis using run inv by (intro failed) (auto simp: place_order_def)
next
  case False
  obtain pr cat1 ds where pl: "place_items its cat [] [] = (pr, cat1, ds)"
    by (cases "place_items its cat [] []") auto
  from place_items_spec [OF cok its [unfolded items_ok_def] pl]
  have cat1: "cat1 = adjs (-1) ds cat" and dok: "deductions_ok cat ds"
    and lines: "\<And>lns. pr = Inr lns \<Longrightarrow> list_all2 (item_line cat) its lns \<and>
      ds = map deduction_of lns \<and> catalog_ok cat1"
    by auto
  have undo: "place_failed e ds cat1 t = (Inl e, cat, t)" for e and t :: 's
    unfolding cat1 by (rule place_failed_undo [OF dok])
  show thesis
  proof (cases pr)
    case (Inl e)
    then show thesis using run False pl inv undo by (intro failed) (auto simp: place_order_def)
  next
    case (Inr lns)
    from lines [OF this] have ls: "list_all2 (item_line cat) its lns"
      and ds: "ds = map deduction_of lns" and cok1: "catalog_ok cat1" by auto
    obtain nr st1 where nx: "port_next_order_id port st = (nr, st1)" by force
    note nl = next_law [OF inv nx]
    show thesis
    proof (cases nr)
      case (Inl e)
      then show thesis using run False pl Inr nx nl undo by (intro failed) (auto simp: place_order_def)
    next
      case nr: (Inr oid)
      show thesis
      proof (cases "order_place now oid buyer addr lns")
        case (Inl e)
        then show thesis using run False pl Inr nx nr nl undo by (intro failed) (auto simp: place_order_def)
      next
        case ord: (Inr ord)
        note props = order_place_ok [OF item_lines_ok [OF ls] ord]
        then have sok: "stored_ok ord" using addr by (simp add: stored_ok_def)
        have pd: "placed cat buyer its addr ord" using props sok ls by (simp add: placed_def)
        obtain sr st2 where sv: "port_save port ord st1 = (sr, st2)" by force
        from nl nr props have inv1: "inv st1" and iss: "issued st1 (order_id ord)"
          and fresh: "view st (order_id ord) = None" and v1: "view st1 = view st" by auto
        note sl = save_law [OF inv1 sok iss sv]
        show thesis
        proof (cases sr)
          case (Inl e)
          then show thesis using run False pl Inr nx nr ord sv sl v1 undo
            by (intro failed) (auto simp: place_order_def)
        next
          case sr: (Inr x)
          have "r = snapshot ord" "cat' = cat1" "st' = st2"
            using run False pl Inr nx nr ord sv sr by (simp_all add: place_order_def)
          then show thesis
            using success [OF pd fresh] sl sr v1 cat1 ds cok1 props by simp
        qed
      qed
    qed
  qed
qed

lemma query_order_spec:
  assumes inv: "inv st" and run: "query_order port buyer oid st = (r, st')"
  shows "inv st' \<and> view st' = view st \<and>
    (\<forall>snap. r = Inr snap \<longrightarrow> (\<exists>ord. view st oid = Some ord \<and> buyer_id ord = buyer \<and> snapshot ord = Inr snap))"
proof -
  obtain fr st1 where f: "port_find port oid st = (fr, st1)" by force
  note fl = find_law [OF inv f]
  show ?thesis
    using run f fl by (cases fr) (auto simp: query_order_def split: option.splits if_splits)
qed

lemma cancel_failed_undo:
  assumes "inv st" "catalog_ok cat" "deductions_ok cat ds" "stored_ok ord"
    and "view st (order_id ord) \<noteq> None"
    and prev: "ord'\<lparr>status := status ord, cancelled_at := cancelled_at ord,
                   cancel_reason := cancel_reason ord\<rparr> = ord"
  shows "cancel_failed port ord' ord e ds (adjs 1 ds cat) st = (Inl e, cat, port_touch port ord st)"
  using assms by (simp add: cancel_failed_def deduct_restored_eq)

lemma cancel_order_cases:
  assumes inv: "inv st" and cok: "catalog_ok cat"
    and run: "cancel_order port now buyer oid reason cat st = (r, cat', st')"
  obtains (failed) e where "r = Inl e" "cat' = cat" "inv st'" "view st' = view st"
  | (success) ord ord' where "view st oid = Some ord" "buyer_id ord = buyer"
      "cancel now reason ord = Inr ord'" "r = snapshot ord'" "inv st'"
      "view st' = (view st)(oid \<mapsto> ord')"
      "cat' = adjs 1 (map deduction_of (order_lines ord)) cat" "catalog_ok cat'"
proof -
  obtain fr st1 where f: "port_find port oid st = (fr, st1)" by force
  note fl = find_law [OF inv f]
  show thesis
  proof (cases "\<exists>ord. fr = Inr (Some ord) \<and> buyer_id ord = buyer")
    case False
    then show thesis
      using run f fl failed by (cases fr) (auto simp: cancel_order_def split: option.splits if_splits)
  next
    case True
    then obtain ord where fr: "fr = Inr (Some ord)" and buyer: "buyer_id ord = buyer" by auto
    with fl have v: "view st oid = Some ord" and inv1: "inv st1" and v1: "view st1 = view st" by auto
    from view_law [OF inv v] have sok: "stored_ok ord" and oid: "order_id ord = oid" by auto
    from sok have ook: "order_ok ord" and addr: "address_ok (shipping_address ord)"
      by (auto simp: stored_ok_def)
    have known: "view st1 (order_id ord) \<noteq> None" using v v1 oid by simp
    note t1 = touch_law [OF inv1 sok known]
    have same: "(view st)(oid \<mapsto> ord) = view st" using v by (simp add: fun_upd_idem)
    show thesis
    proof (cases "cancel now reason ord")
      case (Inl e)
      have "cancel_failed port ord ord e [] cat st1 = (Inl e, cat, port_touch port ord st1)"
        by (simp add: cancel_failed_def)
      then show thesis
        using run f fr buyer Inl t1 v1 same oid
        by (intro failed) (auto simp: cancel_order_def split: if_splits)
    next
      case ord': (Inr ord')
      from ord' have frame: "order_id ord' = oid" "order_lines ord' = order_lines ord"
        "shipping_address ord' = shipping_address ord"
        "ord'\<lparr>status := status ord, cancelled_at := cancelled_at ord,
              cancel_reason := cancel_reason ord\<rparr> = ord"
        using oid by (auto simp: result_simps)
      have sok': "stored_ok ord'" using cancel_ok [OF ook ord'] addr frame by (simp add: stored_ok_def)
      let ?st2 = "port_touch port ord' st1"
      let ?ls = "order_lines ord"
      let ?ds = "map deduction_of (lines_known cat ?ls)"
      let ?cat = "adjs 1 (map deduction_of ?ls) cat"
      have known': "view st1 (order_id ord') \<noteq> None" using known oid frame by simp
      note t2 = touch_law [OF inv1 sok' known']
      have lok: "list_all line_ok ?ls" using ook by (simp add: order_ok_def)
      have cat2: "?cat = adjs 1 ?ds cat" by (rule adjs_lines_known [symmetric])
      have dok: "deductions_ok cat ?ds"
        using lok by (auto simp: deductions_ok_def lines_known_def deduction_of_def line_ok_def list_all_iff)
      have cok2: "catalog_ok ?cat"
        using lok by (intro catalog_ok_adjs [OF cok]) (auto simp: list_all_iff deduction_of_def line_ok_def)
      have rl: "restore_lines (order_lines ord') cat [] = (Inr (), ?cat, ?ds)"
        using restore_lines_eq [OF lok] frame by simp
      have inv2: "inv ?st2" and iss2: "issued ?st2 (order_id ord')"
        using t2 fl view_law [OF inv v] frame by auto
      obtain sr st3 where sv: "port_save port ord' ?st2 = (sr, st3)" by force
      note sl = save_law [OF inv2 sok' iss2 sv]
      have run': "cancel_order port now buyer oid reason cat st =
          (case sr of Inl e \<Rightarrow> cancel_failed port ord' ord e ?ds ?cat st3
                    | Inr _ \<Rightarrow> (snapshot ord', ?cat, st3))"
        using f fr buyer ord' rl sv by (simp add: cancel_order_def Let_def split: sum.split)
      show thesis
      proof (cases sr)
        case (Inl e)
        with sl have inv3: "inv st3" and v3: "view st3 = view ?st2" by auto
        have known3: "view st3 (order_id ord) \<noteq> None"
          using v3 t2 known oid frame by (auto split: if_splits)
        note t3 = touch_law [OF inv3 sok known3]
        have "cancel_failed port ord' ord e ?ds ?cat st3 = (Inl e, cat, port_touch port ord st3)"
          unfolding cat2 by (rule cancel_failed_undo [OF inv3 cok dok sok known3 frame(4)])
        then show thesis
          using run run' Inl t3 v3 t2 v1 same oid frame failed by (auto split: if_splits)
      next
        case (Inr x)
        then have "r = snapshot ord'" "cat' = ?cat" "st' = st3" using run run' by simp_all
        then show thesis
          using success [OF v buyer ord'] sl Inr t2 v1 frame cok2 by (auto split: if_splits)
      qed
    qed
  qed
qed

end

section \<open>Traces of use cases and the conservation of stock\<close>

text \<open>
  One step is one use case run to its end. The sequences of steps are the interleavings the
  program can have: the code between two \<open>await\<close>s of these repositories runs without
  interruption, and neither in-memory call suspends.
\<close>

inductive shop_step :: "'s order_port \<Rightarrow> catalog \<times> 's \<Rightarrow> catalog \<times> 's \<Rightarrow> bool" for port where
  step_place: "items_ok its \<Longrightarrow> address_ok addr \<Longrightarrow>
    place_order port now buyer its addr cat st = (r, cat', st') \<Longrightarrow>
    shop_step port (cat, st) (cat', st')"
| step_query: "query_order port buyer oid st = (r, st') \<Longrightarrow> shop_step port (cat, st) (cat, st')"
| step_cancel: "cancel_order port now buyer oid reason cat st = (r, cat', st') \<Longrightarrow>
    shop_step port (cat, st) (cat', st')"

inductive shop_reach :: "'s order_port \<Rightarrow> catalog \<times> 's \<Rightarrow> catalog \<times> 's \<Rightarrow> bool" for port start where
  shop_refl: "shop_reach port start start"
| shop_next: "shop_reach port start x \<Longrightarrow> shop_step port x y \<Longrightarrow> shop_reach port start y"

inductive_cases shop_stepE: "shop_step port x y"

definition open_qty :: "pystr \<Rightarrow> pystr \<Rightarrow> order \<Rightarrow> int" where
  "open_qty pid sid ord =
     (if status ord = CONFIRMED then held pid sid (map deduction_of (order_lines ord)) else 0)"

definition reserved :: "(pystr \<Rightarrow> order option) \<Rightarrow> pystr \<Rightarrow> pystr \<Rightarrow> int" where
  "reserved v pid sid = (\<Sum>oid\<in>dom v. open_qty pid sid (the (v oid)))"

lemma reserved_empty [simp]: "reserved Map.empty pid sid = 0"
  by (simp add: reserved_def)

lemma reserved_upd:
  assumes "finite (dom v)"
  shows "reserved (v(oid \<mapsto> ord)) pid sid = reserved v pid sid + open_qty pid sid ord
    - (case v oid of None \<Rightarrow> 0 | Some old \<Rightarrow> open_qty pid sid old)"
proof -
  have rest: "(\<Sum>x\<in>dom v - {oid}. open_qty pid sid (the ((v(oid \<mapsto> ord)) x))) =
      (\<Sum>x\<in>dom v - {oid}. open_qty pid sid (the (v x)))"
    by (rule sum.cong) auto
  have "reserved (v(oid \<mapsto> ord)) pid sid = open_qty pid sid ord +
      (\<Sum>x\<in>dom v - {oid}. open_qty pid sid (the (v x)))"
    using assms by (simp add: reserved_def sum.insert_remove rest)
  moreover have "reserved v pid sid =
      (case v oid of None \<Rightarrow> 0 | Some old \<Rightarrow> open_qty pid sid old) +
      (\<Sum>x\<in>dom v - {oid}. open_qty pid sid (the (v x)))"
  proof (cases "v oid")
    case None
    then have "dom v - {oid} = dom v" by auto
    then show ?thesis using None by (simp add: reserved_def)
  next
    case (Some old)
    then have "oid \<in> dom v" by auto
    then show ?thesis using Some assms by (simp add: reserved_def sum.remove)
  qed
  ultimately show ?thesis by simp
qed

text \<open>The units of a SKU that are in stock or in a confirmed order.\<close>

definition units_of :: "catalog \<Rightarrow> (pystr \<Rightarrow> order option) \<Rightarrow> pystr \<Rightarrow> pystr \<Rightarrow> int option" where
  "units_of cat v pid sid = map_option (\<lambda>n. n + reserved v pid sid) (stock_of cat pid sid)"

lemma units_of_adjs:
  "reserved v' pid sid = reserved v pid sid - g * held pid sid ds \<Longrightarrow>
   units_of (adjs g ds cat) v' pid sid = units_of cat v pid sid"
  by (cases "stock_of cat pid sid") (simp_all add: units_of_def stock_of_adjs)

context order_store
begin

lemma shop_step_units:
  assumes step: "shop_step port (cat, st) (cat', st')" and inv: "inv st" and cok: "catalog_ok cat"
  shows "inv st' \<and> catalog_ok cat' \<and>
    units_of cat' (view st') pid sid = units_of cat (view st) pid sid"
  using step
proof (cases rule: shop_step.cases)
  case (step_place its addr now buyer r)
  from inv cok step_place(1-3) show ?thesis
  proof (cases rule: place_order_cases)
    case (success ord)
    then have "units_of cat' (view st') pid sid = units_of cat (view st) pid sid"
      by (simp add: units_of_adjs reserved_upd [OF view_finite [OF inv]] placed_def open_qty_def)
    with success show ?thesis by simp
  qed (use cok in simp)
next
  case (step_query buyer oid r)
  then show ?thesis using query_order_spec [OF inv step_query(2)] cok by simp
next
  case (step_cancel now buyer oid reason r)
  from inv cok step_cancel show ?thesis
  proof (cases rule: cancel_order_cases)
    case (success ord ord')
    then have "units_of cat' (view st') pid sid = units_of cat (view st) pid sid"
      by (auto simp: units_of_adjs reserved_upd [OF view_finite [OF inv]] open_qty_def result_simps)
    with success show ?thesis by simp
  qed (use cok in simp)
qed

lemma shop_reach_units:
  assumes "shop_reach port (cat0, st0) x" and "inv st0" and "catalog_ok cat0"
  shows "inv (snd x) \<and> catalog_ok (fst x) \<and>
    units_of (fst x) (view (snd x)) pid sid = units_of cat0 (view st0) pid sid"
  using assms(1)
proof (induction rule: shop_reach.induct)
  case (shop_next x y)
  then have "shop_step port (fst x, snd x) (fst y, snd y)" by simp
  from shop_step_units [OF this] shop_next.IH show ?case by simp
qed (use assms in simp)

end

section \<open>When placing succeeds\<close>

definition item_deduction :: "order_item \<Rightarrow> deduction" where
  "item_deduction it = (oi_product_id it, oi_sku_id it, oi_quantity it)"

text \<open>
  Every item names an existing SKU priced in currency \<open>c\<close>, with a positive quantity, and all
  items together ask for no more of it than there is.
\<close>

definition item_fits :: "pystr \<Rightarrow> catalog \<Rightarrow> deduction list \<Rightarrow> order_item \<Rightarrow> bool" where
  "item_fits c cat ds it \<longleftrightarrow> 0 < oi_quantity it \<and>
     (case cat_find_sku cat (oi_product_id it) (oi_sku_id it) of
        None \<Rightarrow> False
      | Some s \<Rightarrow> currency (price s) = c \<and>
          held (oi_product_id it) (oi_sku_id it) ds \<le> stock s)"

definition items_fit :: "pystr \<Rightarrow> catalog \<Rightarrow> order_item list \<Rightarrow> bool" where
  "items_fit c cat its \<longleftrightarrow> list_all (item_fits c cat (map item_deduction its)) its"

lemma held_nonneg: "list_all (\<lambda>it. 0 < oi_quantity it) its \<Longrightarrow> 0 \<le> held p s (map item_deduction its)"
  by (induction its) (auto simp: held_def item_deduction_def)

lemma items_fit_pos: "items_fit c cat its \<Longrightarrow> list_all (\<lambda>it. 0 < oi_quantity it) its"
  by (auto simp: items_fit_def item_fits_def list_all_iff)

lemma items_fit_ok: "items_fit c cat its \<Longrightarrow> items_ok its"
  using items_fit_pos [of c cat its] by (auto simp: items_ok_def list_all_iff)

lemma items_fit_tail:
  assumes "items_fit c cat (it # its)"
  shows "items_fit c (adj (oi_product_id it) (oi_sku_id it) (- oi_quantity it) cat) its"
  unfolding items_fit_def list_all_iff
proof
  fix it' assume "it' \<in> set its"
  with assms have "item_fits c cat (map item_deduction (it # its)) it'"
    by (simp add: items_fit_def list_all_iff)
  then show "item_fits c (adj (oi_product_id it) (oi_sku_id it) (- oi_quantity it) cat)
      (map item_deduction its) it'"
    by (auto simp: item_fits_def cat_find_adj held_def item_deduction_def split: option.splits)
qed

lemma place_items_total:
  "catalog_ok cat \<Longrightarrow> items_fit c cat its \<Longrightarrow>
   \<exists>ls cat' ds'. place_items its cat ds lns = (Inr (lns @ ls), cat', ds') \<and>
     length ls = length its \<and> list_all (\<lambda>l. currency (unit_price l) = c) ls"
proof (induction its arbitrary: cat ds lns)
  case (Cons it its)
  let ?p = "oi_product_id it" and ?s = "oi_sku_id it" and ?q = "oi_quantity it"
  from Cons.prems(2) have "item_fits c cat (map item_deduction (it # its)) it"
    by (simp add: items_fit_def)
  then obtain s where s: "cat_find_sku cat ?p ?s = Some s" and q: "0 < ?q"
    and c: "currency (price s) = c"
    and h: "held ?p ?s (map item_deduction (it # its)) \<le> stock s"
    by (auto simp: item_fits_def split: option.splits)
  have "list_all (\<lambda>it. 0 < oi_quantity it) its" using items_fit_pos [OF Cons.prems(2)] by simp
  from held_nonneg [OF this, of ?p ?s] h have le: "?q \<le> stock s"
    by (simp add: held_def item_deduction_def)
  obtain p where p: "map_of cat ?p = Some p" "find_sku p ?s = Some s"
    using s by (auto simp: cat_find_sku_def split: option.splits)
  let ?l = "\<lparr>line_product_id = product_id p, line_sku_id = sku_id s,
    line_title = title p @ [0xFF08] @ sku_spec s @ [0xFF09], unit_price = price s,
    line_quantity = ?q\<rparr>"
  have "place_items (it # its) cat ds lns =
      place_items its (adj ?p ?s (- ?q) cat) (ds @ [(?p, ?s, ?q)]) (lns @ [?l])"
    using p q le cat_set_stock_adj [OF s, of "- ?q"]
    by (simp add: deduct_stock_def has_stock_def mk_order_line_def Let_def)
  moreover have "catalog_ok (adj ?p ?s (- ?q) cat)"
    using le s by (intro catalog_ok_adj [OF Cons.prems(1)]) (auto simp: stock_of_def)
  moreover note Cons.IH [OF _ items_fit_tail [OF Cons.prems(2)], of "ds @ [(?p, ?s, ?q)]" "lns @ [?l]"]
  ultimately obtain ls cat' ds' where "place_items (it # its) cat ds lns =
      (Inr ((lns @ [?l]) @ ls), cat', ds')" "length ls = length its"
      "list_all (\<lambda>l. currency (unit_price l) = c) ls"
    by auto
  then show ?case using c by (intro exI [of _ "?l # ls"]) simp
qed simp

lemma order_place_total:
  assumes "oid \<noteq> []" "buyer \<noteq> []" "ls \<noteq> []" "list_all (\<lambda>l. currency (unit_price l) = c) ls"
  shows "\<exists>ord. order_place now oid buyer addr ls = Inr ord"
proof -
  have "same_currency ls"
    using assms(3,4) by (cases ls) (auto simp: same_currency_def list_all_iff)
  then show ?thesis
    using assms(1-3) order_currencies_le_1
      [of "\<lparr>order_id = oid, buyer_id = buyer, shipping_address = addr, order_lines = ls,
           status = DRAFT, created_at = now, confirmed_at = None, cancelled_at = None,
           cancel_reason = None\<rparr>"]
    by (simp add: order_place_def mk_order_def confirm_def)
qed

lemma place_order_mem_total:
  assumes cok: "catalog_ok cat" and fit: "items_fit c cat its" and its: "its \<noteq> []"
    and buyer: "buyer \<noteq> []"
  shows "\<exists>ord cat' st'. place_order mem_port now buyer its addr cat st = (snapshot ord, cat', st') \<and>
    st' = snd (mem_save ord (snd (mem_next_order_id st)))"
proof -
  from place_items_total [OF cok fit, of "[]" "[]"] obtain ls cat' ds' where
    pl: "place_items its cat [] [] = (Inr ls, cat', ds')" and len: "length ls = length its"
    and c: "list_all (\<lambda>l. currency (unit_price l) = c) ls" by auto
  have "ls \<noteq> []" using len its by (cases ls) auto
  from order_place_total [OF order_no_nonempty buyer this c] obtain ord where
    "order_place now (order_no (mo_counter st)) buyer addr ls = Inr ord" by blast
  with pl its show ?thesis
    by (auto simp: place_order_def mem_port_def mem_next_order_id_def mem_save_def)
qed

lemma cancel_order_mem_total:
  assumes inv: "mem_inv st" and cok: "catalog_ok cat"
    and v: "mem_view st oid = Some ord" and buyer: "buyer_id ord = buyer"
    and st: "status ord = CONFIRMED" and reason: "\<not> blank reason"
  shows "\<exists>snap cat' st'. cancel_order mem_port now buyer oid reason cat st = (Inr snap, cat', st')"
proof -
  have sok: "order_ok ord" using mem.view_law [OF inv v] by (simp add: stored_ok_def)
  obtain ord' where c: "cancel now reason ord = Inr ord'" and ls: "order_lines ord' = order_lines ord"
    using st reason by (simp add: result_simps)
  obtain snap where "snapshot ord' = Inr snap" using snapshot_ok [OF cancel_ok [OF sok c]] by blast
  moreover have "list_all line_ok (order_lines ord)" using sok by (simp add: order_ok_def)
  ultimately show ?thesis
    using v buyer c ls restore_lines_eq [of "order_lines ord" cat "[]"]
    by (simp add: cancel_order_def mem_port_def mem_find_def mem_view_def mem_save_def Let_def)
qed

section \<open>Properties\<close>

text \<open>A small shop for the concrete instances.\<close>

definition ex_catalog :: catalog where
  "ex_catalog = [(u ''P1'', ex_product ''P1'' [ex_sku ''S1'' 5, ex_sku ''S2'' 2]),
                 (u ''P2'', ex_product ''P2'' [ex_sku ''S1'' 7])]"

definition ex_item :: "string \<Rightarrow> string \<Rightarrow> int \<Rightarrow> order_item" where
  "ex_item pid sid q = \<lparr>oi_product_id = u pid, oi_sku_id = u sid, oi_quantity = q\<rparr>"

definition sql_empty :: "exn option list \<Rightarrow> sql_db" where
  "sql_empty outcomes = \<lparr>order_rows = [], item_rows = [], db_outcomes = outcomes\<rparr>"

lemmas ex_defs = ex_money_def ex_sku_def ex_product_def ex_catalog_def ex_address_def ex_item_def

lemma ex_catalog_ok: "catalog_ok ex_catalog"
  by code_simp

lemma ex_address_ok: "address_ok ex_address"
  by code_simp

lemma sql_inv_empty: "sql_inv (sql_empty os)"
  by (simp add: sql_inv_def sql_empty_def dkeys_def)

lemma sql_view_empty: "sql_view (sql_empty os) = Map.empty"
  by (simp add: sql_view_def sql_empty_def fun_eq_iff)


definition ex_fail :: "order_snapshot result \<times> catalog \<times> sql_db" where
  "ex_fail = place_order sql_port 7 (u ''ann'') [ex_item ''P1'' ''S1'' 2, ex_item ''P2'' ''S1'' 1]
     ex_address ex_catalog (sql_empty [None, Some (OtherError ''database is locked'')])"


text \<open>C9: When placing succeeds, exactly one order is added, under a number that was not in use
  (every other order is unchanged); it is confirmed, belongs to the caller, has one line per item
  with the item's quantity and the SKU's current price, is what the caller is shown, and
  the stock of every SKU went down by exactly what the items ask for.\<close>

theorem place_order_success:
  assumes "sql_inv st" "catalog_ok cat" "items_ok its" "address_ok addr"
    and "place_order sql_port now buyer its addr cat st = (Inr snap, cat', st')"
  shows "\<exists>ord. sql_view st (order_id ord) = None \<and>
    sql_view st' = (sql_view st)(order_id ord \<mapsto> ord) \<and> status ord = CONFIRMED \<and>
    buyer_id ord = buyer \<and> list_all2 (item_line cat) its (order_lines ord) \<and>
    snapshot ord = Inr snap \<and>
    stock_of cat' pid sid =
      map_option (\<lambda>n. n - held pid sid (map deduction_of (order_lines ord))) (stock_of cat pid sid)"
proof (rule sql.place_order_cases [OF assms])
  fix ord assume "placed cat buyer its addr ord" "sql_view st (order_id ord) = None"
    "Inr snap = snapshot ord" "sql_view st' = (sql_view st)(order_id ord \<mapsto> ord)"
    "cat' = adjs (-1) (map deduction_of (order_lines ord)) cat"
  then show ?thesis
    by (intro exI [of _ ord]) (simp add: placed_def stock_of_adjs)
qed simp

definition ex_done :: "order_snapshot result \<times> catalog \<times> sql_db" where
  "ex_done = place_order sql_port 7 (u ''ann'') [ex_item ''P1'' ''S1'' 2, ex_item ''P2'' ''S1'' 1]
     ex_address ex_catalog (sql_empty [])"

lemma place_order_success_witness:
  "\<exists>ord. sql_view (snd (snd ex_done)) = [order_id ord \<mapsto> ord] \<and> status ord = CONFIRMED \<and>
     stock_of (fst (snd ex_done)) (u ''P1'') (u ''S1'') =
       Some (5 - held (u ''P1'') (u ''S1'') (map deduction_of (order_lines ord)))"
proof -
  have "is_ok (fst ex_done)" by code_simp
  then obtain snap where e: "fst ex_done = Inr snap" using is_okD by blast
  have its: "items_ok [ex_item ''P1'' ''S1'' 2, ex_item ''P2'' ''S1'' 1]" by code_simp
  have n: "stock_of ex_catalog (u ''P1'') (u ''S1'') = Some 5" by code_simp
  have run: "place_order sql_port 7 (u ''ann'') [ex_item ''P1'' ''S1'' 2, ex_item ''P2'' ''S1'' 1]
     ex_address ex_catalog (sql_empty []) = (Inr snap, fst (snd ex_done), snd (snd ex_done))"
    using e by (simp add: ex_done_def prod_eq_iff)
  from place_order_success [OF sql_inv_empty ex_catalog_ok its ex_address_ok run,
      of "u ''P1''" "u ''S1''"]
  show ?thesis by (auto simp: n sql_view_empty)
qed



text \<open>C10: Cancelling a confirmed order of the in-memory repository with a reason always succeeds for
  its buyer, marks the order cancelled with that reason, leaves every other order alone, and gives
  every line's quantity back to its SKU, so that a placement followed by its cancellation leaves
  the catalogue exactly as it was.\<close>

theorem cancel_undoes_place:
  assumes "mem_inv st" "catalog_ok cat" "items_ok its" "address_ok addr" "\<not> blank reason"
    and "place_order mem_port now buyer its addr cat st = (Inr snap, cat1, st1)"
  shows "\<exists>snap' st2. cancel_order mem_port later buyer (snap_order_id snap) reason cat1 st1 =
      (Inr snap', cat, st2) \<and> snap_status snap' = CANCELLED \<and>
      snap_cancel_reason snap' = Some reason \<and>
      (\<forall>oid. oid \<noteq> snap_order_id snap \<longrightarrow> mem_view st2 oid = mem_view st oid)"
proof (rule mem.place_order_cases [OF assms(1-4,6)])
  fix ord assume pd: "placed cat buyer its addr ord" and sn: "Inr snap = snapshot ord"
    and inv1: "mem_inv st1" and v1: "mem_view st1 = (mem_view st)(order_id ord \<mapsto> ord)"
    and cat1: "cat1 = adjs (-1) (map deduction_of (order_lines ord)) cat" and cok1: "catalog_ok cat1"
  have oid: "snap_order_id snap = order_id ord"
    using snapshot_InrD [OF sn [symmetric]] by simp
  have v: "mem_view st1 (order_id ord) = Some ord" and buyer: "buyer_id ord = buyer"
    and status: "status ord = CONFIRMED" using v1 pd by (auto simp: placed_def)
  from cancel_order_mem_total [OF inv1 cok1 v buyer status assms(5), of later] obtain snap' cat2 st2
    where c: "cancel_order mem_port later buyer (order_id ord) reason cat1 st1 = (Inr snap', cat2, st2)"
    by blast
  from inv1 cok1 c show ?thesis
  proof (cases rule: mem.cancel_order_cases)
    case (success ord1 ord2)
    then have "ord1 = ord" using v by simp
    moreover have "cat2 = cat" using success(7) cat1 calculation by (simp add: adjs_undo)
    moreover have "snap_status snap' = status ord2" "snap_cancel_reason snap' = cancel_reason ord2"
      using snapshot_InrD [OF success(4) [symmetric]] by simp_all
    ultimately show ?thesis
      using c success(3,6) v1 oid by (intro exI [of _ snap'] exI [of _ st2]) (auto simp: result_simps)
  qed simp
qed simp

lemma cancel_undoes_place_witness:
  "\<exists>cat1 st1 snap snap' st2.
     place_order mem_port 7 (u ''ann'') [ex_item ''P1'' ''S1'' 2] ex_address ex_catalog mem_empty =
       (Inr snap, cat1, st1) \<and>
     cancel_order mem_port 9 (u ''ann'') (snap_order_id snap) (u ''late'') cat1 st1 =
       (Inr snap', ex_catalog, st2) \<and> snap_status snap' = CANCELLED"
proof -
  have its: "items_ok [ex_item ''P1'' ''S1'' 2]" by code_simp
  have nb: "\<not> blank (u ''late'')" by code_simp
  have "is_ok (fst (place_order mem_port 7 (u ''ann'') [ex_item ''P1'' ''S1'' 2] ex_address
      ex_catalog mem_empty))" by code_simp
  then obtain snap cat1 st1 where run: "place_order mem_port 7 (u ''ann'')
      [ex_item ''P1'' ''S1'' 2] ex_address ex_catalog mem_empty = (Inr snap, cat1, st1)"
    by (metis is_okD prod.collapse)
  from cancel_undoes_place [OF mem_inv_empty ex_catalog_ok its ex_address_ok nb run, of 9] run
  show ?thesis by blast
qed

text \<open>C37: A cancellation that fails, at any point (unknown order, another buyer's order, an order
  that is not confirmed, a blank reason, a failing transaction after the stock was put back),
  leaves the catalogue and every stored order as they were, for the repository that hands out
  the stored object itself as for the relational one.\<close>

theorem cancel_order_atomic:
  "(mem_inv st \<longrightarrow> catalog_ok cat \<longrightarrow>
      cancel_order mem_port now buyer oid reason cat st = (Inl e, cat1, st1) \<longrightarrow>
      cat1 = cat \<and> mem_inv st1 \<and> mem_view st1 = mem_view st) \<and>
   (sql_inv db \<longrightarrow> catalog_ok cat \<longrightarrow>
      cancel_order sql_port now buyer oid reason cat db = (Inl e, cat2, db2) \<longrightarrow>
      cat2 = cat \<and> sql_inv db2 \<and> sql_view db2 = sql_view db)"
proof (intro conjI impI)
  assume a: "mem_inv st" "catalog_ok cat"
    "cancel_order mem_port now buyer oid reason cat st = (Inl e, cat1, st1)"
  then have "cat1 = cat \<and> mem_inv st1 \<and> mem_view st1 = mem_view st"
  proof (cases rule: mem.cancel_order_cases)
    case (success ord ord')
    from mem.view_law [OF a(1) success(1)] have "order_ok ord" by (simp add: stored_ok_def)
    from snapshot_ok [OF cancel_ok [OF this success(3)]] success(4) show ?thesis by auto
  qed simp
  then show "cat1 = cat" "mem_inv st1" "mem_view st1 = mem_view st" by auto
next
  assume a: "sql_inv db" "catalog_ok cat"
    "cancel_order sql_port now buyer oid reason cat db = (Inl e, cat2, db2)"
  then have "cat2 = cat \<and> sql_inv db2 \<and> sql_view db2 = sql_view db"
  proof (cases rule: sql.cancel_order_cases)
    case (success ord ord')
    from sql.view_law [OF a(1) success(1)] have "order_ok ord" by (simp add: stored_ok_def)
    from snapshot_ok [OF cancel_ok [OF this success(3)]] success(4) show ?thesis by auto
  qed simp
  then show "cat2 = cat" "sql_inv db2" "sql_view db2 = sql_view db" by auto
qed

lemma cancel_order_atomic_witness:
  "fst (snd (cancel_order mem_port 9 (u ''ann'') (order_no 1) (u ''late'') ex_catalog mem_empty)) = ex_catalog \<and>
   fst (snd (cancel_order sql_port 9 (u ''ann'') (order_no 1) (u ''late'') ex_catalog
     (snd (snd ex_done)\<lparr>db_outcomes := [None, Some TimeoutError]\<rparr>))) = ex_catalog"
proof -
  let ?db = "snd (snd ex_done)\<lparr>db_outcomes := [None, Some TimeoutError]\<rparr>"
  have its: "items_ok [ex_item ''P1'' ''S1'' 2, ex_item ''P2'' ''S1'' 1]" by code_simp
  have "sql_inv ?db"
    using sql.shop_step_units [OF step_place [OF its ex_address_ok, of sql_port 7 "u ''ann''" ex_catalog
      "sql_empty []" "fst ex_done" "fst (snd ex_done)" "snd (snd ex_done)"] sql_inv_empty ex_catalog_ok]
    by (simp add: ex_done_def)
  moreover have "\<not> is_ok (fst (cancel_order mem_port 9 (u ''ann'') (order_no 1) (u ''late'') ex_catalog mem_empty))"
    by code_simp
  then obtain e1 c1 s1 where "cancel_order mem_port 9 (u ''ann'') (order_no 1) (u ''late'') ex_catalog mem_empty =
      (Inl e1, c1, s1)"
    by (metis is_ok.cases is_ok.simps(1) prod.collapse)
  moreover have "\<not> is_ok (fst (cancel_order sql_port 9 (u ''ann'') (order_no 1) (u ''late'') ex_catalog ?db))"
    by code_simp
  then obtain e2 c2 s2 where "cancel_order sql_port 9 (u ''ann'') (order_no 1) (u ''late'') ex_catalog ?db =
      (Inl e2, c2, s2)"
    by (metis is_ok.cases is_ok.simps(1) prod.collapse)
  ultimately show ?thesis
    using cancel_order_atomic [of mem_empty ex_catalog 9 "u ''ann''" "order_no 1" "u ''late''" e1 c1 s1]
      cancel_order_atomic [of _ ex_catalog 9 "u ''ann''" "order_no 1" "u ''late''" e2 _ _ ?db c2 s2]
      mem_inv_empty ex_catalog_ok by simp
qed

text \<open>Also: Orders are private. For an order that does not exist or belongs to somebody else, query and
  cancel answer with one and the same error, and neither stock nor orders change.\<close>

theorem orders_private:
  assumes "case mem_view st oid of None \<Rightarrow> True | Some ord \<Rightarrow> buyer_id ord \<noteq> buyer"
  shows "query_order mem_port buyer oid st = (Inl (ValueError ''order not accessible''), st) \<and>
    cancel_order mem_port now buyer oid reason cat st =
      (Inl (ValueError ''order not accessible''), cat, st)"
  using assms
  by (cases "map_of (mo_orders st) oid")
    (simp_all add: query_order_def cancel_order_def mem_port_def mem_find_def mem_view_def)

definition ex_orders :: mem_orders where
  "ex_orders = snd (snd (place_order mem_port 7 (u ''ann'') [ex_item ''P1'' ''S1'' 2] ex_address
     ex_catalog mem_empty))"

lemma orders_private_witness:
  "mem_view ex_orders (order_no 1) \<noteq> None \<and>
   query_order mem_port (u ''bob'') (order_no 1) ex_orders =
     (Inl (ValueError ''order not accessible''), ex_orders)"
proof -
  have "case mem_view ex_orders (order_no 1) of None \<Rightarrow> True | Some ord \<Rightarrow> buyer_id ord \<noteq> u ''bob''"
    by code_simp
  moreover have "mem_view ex_orders (order_no 1) \<noteq> None" by code_simp
  ultimately show ?thesis
    using orders_private [where st = ex_orders and oid = "order_no 1" and buyer = "u ''bob''"] by blast
qed

text \<open>Also: Placing goes through whenever it should: if every item names an existing SKU, the quantities
  are positive and together no more than the stock of each SKU, and the prices share one
  currency, then on the in-memory repository the buyer gets a confirmed order with the next
  number, which holds the caller's address.\<close>

theorem place_order_succeeds:
  assumes "mem_inv st" "catalog_ok cat" "items_fit c cat its" "its \<noteq> []" "buyer \<noteq> []" "address_ok addr"
  shows "\<exists>snap cat' st'. place_order mem_port now buyer its addr cat st = (Inr snap, cat', st') \<and>
    snap_status snap = CONFIRMED \<and> snap_buyer_id snap = buyer \<and>
    mo_counter st' = mo_counter st + 1 \<and>
    (\<exists>ord. mem_view st' (snap_order_id snap) = Some ord \<and> shipping_address ord = addr)"
proof -
  from place_order_mem_total [OF assms(2-5), of now addr st] obtain ord cat' where
    run: "place_order mem_port now buyer its addr cat st =
      (snapshot ord, cat', snd (mem_save ord (snd (mem_next_order_id st))))" by blast
  have cnt: "mo_counter (snd (mem_save ord (snd (mem_next_order_id st)))) = mo_counter st + 1"
    by (simp add: mem_save_def mem_next_order_id_def)
  from assms(1,2) items_fit_ok [OF assms(3)] assms(6) run show ?thesis
  proof (cases rule: mem.place_order_cases)
    case (failed e)
    then have "mem_view (snd (mem_save ord (snd (mem_next_order_id st)))) (order_id ord) \<noteq> None \<Longrightarrow>
      \<exists>o'. mem_view st (order_id ord) = Some o'" by auto
    moreover have v: "mem_view (snd (mem_save ord (snd (mem_next_order_id st)))) (order_id ord) = Some ord"
      by (simp add: mem_save_def mem_view_def map_of_update)
    ultimately have "mem_view st (order_id ord) = Some ord" using failed by simp
    from mem.view_law [OF assms(1) this] snapshot_ok [of ord] failed(1) show ?thesis
      by (auto simp: stored_ok_def)
  next
    case (success ord1)
    from success(1) obtain snap where "snapshot ord1 = Inr snap"
      using snapshot_ok [of ord1] by (auto simp: placed_def stored_ok_def)
    then show ?thesis
      using run success cnt snapshot_InrD [of ord1 snap]
      by (intro exI [of _ snap] exI [of _ cat'] exI) (auto simp: placed_def)
  qed
qed

lemma place_order_succeeds_witness:
  "\<exists>snap cat' st'. place_order mem_port 7 (u ''ann'')
     [ex_item ''P1'' ''S1'' 3, ex_item ''P1'' ''S1'' 2, ex_item ''P2'' ''S1'' 7] ex_address
     ex_catalog mem_empty = (Inr snap, cat', st')"
proof -
  have "items_fit (u ''USD'') ex_catalog
     [ex_item ''P1'' ''S1'' 3, ex_item ''P1'' ''S1'' 2, ex_item ''P2'' ''S1'' 7]" by code_simp
  from place_order_succeeds [OF mem_inv_empty ex_catalog_ok this, of "u ''ann''" ex_address 7]
  show ?thesis using ex_address_ok by auto
qed

text \<open>Also: A negative quantity, which neither the tool nor the use case rejects before the loop, creates
  stock: the deduction of \<open>-5\<close> adds five units, the order line then refuses the quantity, and the
  compensation refuses to restore a negative quantity, so the call fails and the SKU keeps the
  five units.\<close>

theorem negative_quantity_creates_stock:
  "fst (place_order mem_port 7 (u ''ann'') [ex_item ''P1'' ''S1'' (-5)] ex_address ex_catalog mem_empty) =
     Inl (ValueError ''restore_stock.quantity'') \<and>
   stock_of ex_catalog (u ''P1'') (u ''S1'') = Some 5 \<and>
   stock_of (fst (snd (place_order mem_port 7 (u ''ann'') [ex_item ''P1'' ''S1'' (-5)] ex_address
     ex_catalog mem_empty))) (u ''P1'') (u ''S1'') = Some 10"
proof (intro conjI)
  show "fst (place_order mem_port 7 (u ''ann'') [ex_item ''P1'' ''S1'' (-5)] ex_address ex_catalog
    mem_empty) = Inl (ValueError ''restore_stock.quantity'')" by code_simp
  show "stock_of ex_catalog (u ''P1'') (u ''S1'') = Some 5" by code_simp
  show "stock_of (fst (snd (place_order mem_port 7 (u ''ann'') [ex_item ''P1'' ''S1'' (-5)] ex_address
     ex_catalog mem_empty))) (u ''P1'') (u ''S1'') = Some 10" by code_simp
qed

end
