(* ===== verification/Catalog_Search.thy ===== *)
theory Catalog_Search
  imports Tariff "HOL-Library.Multiset" "HOL-Library.List_Lexorder" "HOL-Library.Product_Lexorder"
begin

text \<open>
  \<open>app/application/usecases/catalog_search.py\<close>: recall (vector or keyword), hard constraints,
  reranking and the product cards. The embedding client, the vector index, the reranker and
  the product repository are ports: fields of \<open>search_env\<close>, functions that may raise. Python's
  \<open>str.lower\<close> is the field \<open>lower\<close> (it is a Unicode table). Scores are finite doubles.
\<close>

section \<open>Ports and constants\<close>

definition RECALL_TOP_N :: int where "RECALL_TOP_N = 8"

definition FILTERED_OUT_LIMIT :: nat where "FILTERED_OUT_LIMIT = 3"

record vector_hit =
  hit_product_id :: pystr
  hit_score :: rat

record 'e search_env =
  embedder :: "(pystr \<Rightarrow> 'e result) option"
  vector_index :: "(pystr \<Rightarrow> 'e \<Rightarrow> int \<Rightarrow> vector_hit list result) option"
  reranker :: "(pystr \<Rightarrow> pystr list \<Rightarrow> rat list result) option"
  find_by_ids :: "pystr list \<Rightarrow> product list result"
  list_products :: "product list result"
  rates :: exchange_rate_table
  allow_keyword_fallback :: bool
  lower :: "pystr \<Rightarrow> pystr"

type_synonym scored = "rat \<times> product"

text \<open>\<open>InMemoryProductRepository\<close>: a dictionary from product id to product.\<close>

definition mem_products :: "product list \<Rightarrow> (pystr, product) dict" where
  "mem_products seed = fold (\<lambda>p d. AList.update (product_id p) p d) seed []"

definition mem_find_by_id :: "(pystr, product) dict \<Rightarrow> pystr \<Rightarrow> product option" where
  "mem_find_by_id d pid = map_of d pid"

definition mem_find_by_ids :: "(pystr, product) dict \<Rightarrow> pystr list \<Rightarrow> product list" where
  "mem_find_by_ids d pids = List.map_filter (map_of d) pids"

definition mem_list_all :: "(pystr, product) dict \<Rightarrow> product list" where
  "mem_list_all d = map snd d"

section \<open>Stock, price cap and destination\<close>

definition in_stock_skus :: "product \<Rightarrow> sku list" where
  "in_stock_skus p = [s \<leftarrow> skus p. 0 < stock s]"

definition converted_in_stock_skus ::
  "exchange_rate_table \<Rightarrow> product \<Rightarrow> search_spec \<Rightarrow> (sku \<times> money) list result" where
  "converted_in_stock_skus rt p spec =
     mapR (\<lambda>s. andThen (convert rt (price s) (target_currency spec)) (\<lambda>m. Inr (s, m)))
       (in_stock_skus p)"

definition price_key :: "sku \<times> money \<Rightarrow> int \<times> pystr" where
  "price_key pair = (amount_in_minor_units (snd pair), sku_id (fst pair))"

definition within_price_cap :: "exchange_rate_table \<Rightarrow> product \<Rightarrow> search_spec \<Rightarrow> bool result" where
  "within_price_cap rt p spec =
     (case price_max_major spec of
        None \<Rightarrow> Inr True
      | Some cap \<Rightarrow> andThen (converted_in_stock_skus rt p spec)
          (\<lambda>pairs. Inr (list_ex (\<lambda>(_, m). to_major_units m \<le> cap) pairs)))"

datatype reject = SHIP_TO_UNAVAILABLE | OVER_PRICE_CAP

definition ship_to_refused :: "product \<Rightarrow> search_spec \<Rightarrow> bool" where
  "ship_to_refused p spec \<longleftrightarrow>
     (case ship_to spec of None \<Rightarrow> False | Some c \<Rightarrow> c \<noteq> [] \<and> c \<notin> set (ships_to p))"

definition reject_reason ::
  "exchange_rate_table \<Rightarrow> product \<Rightarrow> search_spec \<Rightarrow> reject option result" where
  "reject_reason rt p spec =
     (if ship_to_refused p spec then Inr (Some SHIP_TO_UNAVAILABLE)
      else andThen (within_price_cap rt p spec)
        (\<lambda>ok. Inr (if ok then None else Some OVER_PRICE_CAP)))"

record rejected =
  rej_product_id :: pystr
  rej_title :: pystr
  rej_category :: pystr
  rej_price_major :: rat
  rej_currency :: pystr
  rej_reason :: reject

text \<open>\<open>min(pairs, key=...)\<close> is the first pair of the stable sort by the same key.\<close>

definition min_pair :: "(sku \<times> money) list \<Rightarrow> (sku \<times> money) result" where
  "min_pair pairs =
     (case sort_key price_key pairs of [] \<Rightarrow> Inl (ValueError ''min'') | x # _ \<Rightarrow> Inr x)"

definition to_rejected ::
  "exchange_rate_table \<Rightarrow> product \<Rightarrow> search_spec \<Rightarrow> reject \<Rightarrow> rejected result" where
  "to_rejected rt p spec reason =
     andThen (converted_in_stock_skus rt p spec) (\<lambda>pairs.
     andThen (min_pair pairs) (\<lambda>best.
       Inr \<lparr>rej_product_id = product_id p, rej_title = title p, rej_category = category p,
            rej_price_major = py_round 2 (to_major_units (snd best)),
            rej_currency = target_currency spec, rej_reason = reason\<rparr>))"

definition eligible_skus ::
  "exchange_rate_table \<Rightarrow> product \<Rightarrow> search_spec \<Rightarrow> (sku \<times> money) list result" where
  "eligible_skus rt p spec =
     andThen (converted_in_stock_skus rt p spec) (\<lambda>candidates.
       Inr (sort_key price_key
         (case price_max_major spec of
            None \<Rightarrow> candidates
          | Some cap \<Rightarrow> [pair \<leftarrow> candidates. to_major_units (snd pair) \<le> cap])))"

text \<open>The loop of \<open>_apply_constraints\<close>, with both lists as accumulators.\<close>

fun apply_constraints :: "exchange_rate_table \<Rightarrow> search_spec \<Rightarrow> scored list \<Rightarrow> scored list \<Rightarrow>
    rejected list \<Rightarrow> (scored list \<times> rejected list) result" where
  "apply_constraints rt spec [] eligible out = Inr (eligible, out)"
| "apply_constraints rt spec ((score, p) # rest) eligible out =
     (if in_stock_skus p = [] then apply_constraints rt spec rest eligible out
      else andThen (reject_reason rt p spec) (\<lambda>reason.
        case reason of
          None \<Rightarrow> apply_constraints rt spec rest (eligible @ [(score, p)]) out
        | Some why \<Rightarrow>
            if length out < FILTERED_OUT_LIMIT
            then andThen (to_rejected rt p spec why)
              (\<lambda>r. apply_constraints rt spec rest eligible (out @ [r]))
            else apply_constraints rt spec rest eligible out))"

section \<open>Recall and reranking\<close>

definition vector_recall :: "'e search_env \<Rightarrow> (pystr \<Rightarrow> 'e result) \<Rightarrow>
    (pystr \<Rightarrow> 'e \<Rightarrow> int \<Rightarrow> vector_hit list result) \<Rightarrow> search_spec \<Rightarrow> scored list result" where
  "vector_recall env emb search spec =
     andThen (emb (normalized_query spec)) (\<lambda>embedding.
     andThen (search (normalized_query spec) embedding RECALL_TOP_N) (\<lambda>vector_hits.
       let hit_ids = map hit_product_id vector_hits
       in if \<not> distinct hit_ids then Inl (HydrationError ''duplicate hit'')
          else if hit_ids = [] then Inr []
          else andThen (find_by_ids env hit_ids) (\<lambda>products.
            let product_ids = map product_id products;
                missing_ids = [i \<leftarrow> hit_ids. i \<notin> set product_ids];
                unexpected_ids = [i \<leftarrow> product_ids. i \<notin> set hit_ids];
                by_id = map (\<lambda>p. (product_id p, p)) products
            in if \<not> distinct product_ids then Inl (HydrationError ''duplicate product'')
               else if missing_ids \<noteq> [] \<or> unexpected_ids \<noteq> []
                 then Inl (HydrationError ''repository mismatch'')
               else mapR (\<lambda>hit. case map_of by_id (hit_product_id hit) of
                            None \<Rightarrow> Inl (KeyError ''by_id'')
                          | Some p \<Rightarrow> Inr (hit_score hit, p)) vector_hits)))"

definition is_cjk :: "int \<Rightarrow> bool" where
  "is_cjk c \<longleftrightarrow> 0x4E00 \<le> c \<and> c \<le> 0x9FFF"

fun bigrams :: "pystr \<Rightarrow> pystr list" where
  "bigrams (a # b # s) = [a, b] # bigrams (b # s)"
| "bigrams _ = []"

definition tokenize :: "(pystr \<Rightarrow> pystr) \<Rightarrow> pystr \<Rightarrow> pystr list" where
  "tokenize lower_fn txt = dedup (concat (map
     (\<lambda>chunk. chunk # (if list_ex is_cjk chunk \<and> 2 \<le> length chunk then bigrams chunk else []))
     (split_ws (lower_fn txt))))"

definition keyword_score :: "(pystr \<Rightarrow> pystr) \<Rightarrow> pystr list \<Rightarrow> product \<Rightarrow> search_spec \<Rightarrow> rat" where
  "keyword_score lower_fn query_terms p spec =
     (let doc_terms = tokenize lower_fn (searchable_text p);
          matched = [t \<leftarrow> query_terms. t \<in> set doc_terms]
      in if matched = [] then 0
         else let score = float_of (int (length matched))
              in (case spec_category spec of
                    None \<Rightarrow> score
                  | Some c \<Rightarrow> if c \<noteq> [] \<and> substring c (category p) then fadd score 3 else score))"

definition sort_desc :: "scored list \<Rightarrow> scored list" where
  "sort_desc xs = sort_key (\<lambda>pair. - fst pair) xs"

definition keyword_recall :: "'e search_env \<Rightarrow> search_spec \<Rightarrow> scored list result" where
  "keyword_recall env spec =
     (let query_terms = tokenize (lower env) (normalized_query spec)
      in andThen (list_products env) (\<lambda>products.
           Inr (sort_desc (concat (map
             (\<lambda>p. if in_stock_skus p = [] then []
                  else let score = keyword_score (lower env) query_terms p spec
                       in if score > 0 then [(score, p)] else []) products)))))"

text \<open>\<open>rerank_scores[i]\<close> for \<open>i\<close> up to the number of candidates; more scores are ignored.\<close>

fun zip_scores :: "rat list \<Rightarrow> scored list \<Rightarrow> scored list result" where
  "zip_scores scores [] = Inr []"
| "zip_scores [] (x # xs) = Inl (IndexError ''rerank_scores'')"
| "zip_scores (r # rs) ((_, p) # xs) = andThen (zip_scores rs xs) (\<lambda>ys. Inr ((r, p) # ys))"

definition rerank :: "'e search_env \<Rightarrow> search_spec \<Rightarrow> scored list \<Rightarrow> scored list result" where
  "rerank env spec xs =
     (case reranker env of
        None \<Rightarrow> Inl (RuntimeError ''Reranker'')
      | Some rr \<Rightarrow>
          andThen (rr (normalized_query spec) (map (\<lambda>(_, p). searchable_text p) xs)) (\<lambda>scores.
          andThen (zip_scores scores xs) (\<lambda>ys. Inr (sort_desc ys))))"

section \<open>Product cards\<close>

datatype landed = NO_QUOTE | LANDED quote_dict | UNAVAILABLE string

record sku_card =
  sc_sku_id :: pystr
  sc_spec :: pystr
  sc_price_major :: rat
  sc_currency :: pystr
  sc_stock :: int

record product_card =
  pc_product_id :: pystr
  pc_title :: pystr
  pc_brand :: pystr
  pc_category :: pystr
  pc_origin_country :: pystr
  pc_price_major :: rat
  pc_currency :: pystr
  pc_highlights :: "pystr list"
  pc_skus :: "sku_card list"
  pc_score :: rat
  pc_landed_price :: landed

definition landed_price ::
  "exchange_rate_table \<Rightarrow> sku \<Rightarrow> product \<Rightarrow> search_spec \<Rightarrow> landed result" where
  "landed_price rt primary p spec =
     (case ship_to spec of
        None \<Rightarrow> Inr NO_QUOTE
      | Some dest \<Rightarrow>
          if dest = [] then Inr NO_QUOTE
          else (case andThen (quote rt (price primary) (category p) dest 1 (target_currency spec))
                       quote_to_dict of
                  Inr d \<Rightarrow> Inr (LANDED d)
                | Inl e \<Rightarrow> (case e of ValueError m \<Rightarrow> Inr (UNAVAILABLE m) | _ \<Rightarrow> Inl e)))"

definition to_card ::
  "exchange_rate_table \<Rightarrow> search_spec \<Rightarrow> scored \<Rightarrow> product_card result" where
  "to_card rt spec = (\<lambda>(score, p).
     andThen (eligible_skus rt p spec) (\<lambda>pairs.
       case pairs of
         [] \<Rightarrow> Inl (ValueError ''no eligible sku'')
       | (primary, primary_in_target) # _ \<Rightarrow>
           andThen (landed_price rt primary p spec) (\<lambda>landed.
             Inr \<lparr>pc_product_id = product_id p, pc_title = title p, pc_brand = brand p,
                  pc_category = category p, pc_origin_country = origin_country p,
                  pc_price_major = to_major_units primary_in_target,
                  pc_currency = currency primary_in_target,
                  pc_highlights = map (\<lambda>h. if detail h = [] then label h
                                            else label h @ [0xFF1A] @ detail h) (highlights p),
                  pc_skus = map (\<lambda>(s, m). \<lparr>sc_sku_id = sku_id s, sc_spec = sku_spec s,
                       sc_price_major = to_major_units m, sc_currency = currency m,
                       sc_stock = stock s\<rparr>) pairs,
                  pc_score = score, pc_landed_price = landed\<rparr>)))"

text \<open>\<open>ProductCard.to_dict\<close> rounds the score and leaves everything else as it is.\<close>

definition card_to_dict :: "product_card \<Rightarrow> product_card" where
  "card_to_dict c = c\<lparr>pc_score := py_round 4 (pc_score c)\<rparr>"

section \<open>The use case\<close>

datatype strategy = EMBEDDING_RERANK | EMBEDDING_ONLY | KEYWORD_2GRAM

record search_result =
  hits :: "product_card list"
  total_candidates :: nat
  recall_strategy :: strategy
  rerank_applied :: bool
  filtered_out :: "rejected list"

definition recall :: "'e search_env \<Rightarrow> search_spec \<Rightarrow> (scored list \<times> strategy) result" where
  "recall env spec =
     (case (embedder env, vector_index env) of
        (Some emb, Some search) \<Rightarrow>
          (case vector_recall env emb search spec of
             Inr xs \<Rightarrow> Inr (xs, EMBEDDING_ONLY)
           | Inl e \<Rightarrow>
               (case e of
                  HydrationError m \<Rightarrow> Inl (HydrationError m)
                | _ \<Rightarrow>
                    if \<not> allow_keyword_fallback env then Inl (RetrievalError ''hybrid unavailable'')
                    else andThen (keyword_recall env spec) (\<lambda>xs. Inr (xs, KEYWORD_2GRAM))))
      | _ \<Rightarrow>
          if \<not> allow_keyword_fallback env then Inl (RetrievalError ''hybrid not configured'')
          else andThen (keyword_recall env spec) (\<lambda>xs. Inr (xs, KEYWORD_2GRAM)))"

definition rerank_or_keep :: "'e search_env \<Rightarrow> search_spec \<Rightarrow> strategy \<Rightarrow> scored list \<Rightarrow>
    scored list \<times> strategy \<times> bool" where
  "rerank_or_keep env spec strat eligible =
     (if strat = EMBEDDING_ONLY \<and> eligible \<noteq> [] then
        (case rerank env spec eligible of
           Inr ys \<Rightarrow> (ys, EMBEDDING_RERANK, True)
         | Inl _ \<Rightarrow> (eligible, strat, False))
      else (eligible, strat, False))"

definition catalog_search :: "'e search_env \<Rightarrow> search_spec \<Rightarrow> search_result result" where
  "catalog_search env spec =
     andThen (recall env spec) (\<lambda>(xs, strat).
     andThen (apply_constraints (rates env) spec xs [] []) (\<lambda>(eligible, out).
       let (ranked, strat', applied) = rerank_or_keep env spec strat eligible
       in andThen (mapR (to_card (rates env) spec) (take (nat (top_k spec)) ranked)) (\<lambda>cards.
            Inr \<lparr>hits = map card_to_dict cards, total_candidates = length ranked,
                 recall_strategy = strat', rerank_applied = applied, filtered_out = out\<rparr>)))"

section \<open>What the constraints select\<close>

definition target_price :: "exchange_rate_table \<Rightarrow> search_spec \<Rightarrow> sku \<Rightarrow> money" where
  "target_price rt spec s =
     \<lparr>amount_in_minor_units =
        converted_minor rt (amount_in_minor_units (price s)) (currency (price s)) (target_currency spec),
      currency = target_currency spec\<rparr>"

definition sku_fits :: "exchange_rate_table \<Rightarrow> search_spec \<Rightarrow> sku \<Rightarrow> bool" where
  "sku_fits rt spec s \<longleftrightarrow> 0 < stock s \<and>
     (case price_max_major spec of None \<Rightarrow> True
      | Some cap \<Rightarrow> to_major_units (target_price rt spec s) \<le> cap)"

definition eligible :: "exchange_rate_table \<Rightarrow> search_spec \<Rightarrow> product \<Rightarrow> bool" where
  "eligible rt spec p \<longleftrightarrow> \<not> ship_to_refused p spec \<and> list_ex (sku_fits rt spec) (skus p)"

definition search_ok :: "exchange_rate_table \<Rightarrow> search_spec \<Rightarrow> bool" where
  "search_ok rt spec \<longleftrightarrow> rates_ok rt \<and> target_currency spec \<in> set SUPPORTED_CURRENCIES"

definition scored_ok :: "scored list \<Rightarrow> bool" where
  "scored_ok xs \<longleftrightarrow> list_all (\<lambda>(_, p). product_ok p) xs"

lemma converted_eq:
  assumes "search_ok rt spec" "product_ok p"
  shows "converted_in_stock_skus rt p spec =
    Inr (map (\<lambda>s. (s, target_price rt spec s)) (in_stock_skus p))"
  unfolding converted_in_stock_skus_def
proof (rule mapR_all_Inr)
  fix s assume "s \<in> set (in_stock_skus p)"
  then have "money_ok (price s)"
    using assms(2) by (auto simp: in_stock_skus_def product_ok_def list_all_iff sku_ok_def)
  then show "andThen (convert rt (price s) (target_currency spec)) (\<lambda>m. Inr (s, m)) =
      Inr (s, target_price rt spec s)"
    using assms(1) by (simp add: convert_eq search_ok_def target_price_def)
qed

definition fitting :: "exchange_rate_table \<Rightarrow> search_spec \<Rightarrow> product \<Rightarrow> (sku \<times> money) list" where
  "fitting rt spec p = sort_key price_key
     (map (\<lambda>s. (s, target_price rt spec s)) [s \<leftarrow> skus p. sku_fits rt spec s])"

lemma eligible_skus_eq:
  assumes "search_ok rt spec" "product_ok p"
  shows "eligible_skus rt p spec = Inr (fitting rt spec p)"
proof (cases "price_max_major spec")
  case None
  then have "sku_fits rt spec = (\<lambda>s. 0 < stock s)" by (simp add: sku_fits_def fun_eq_iff)
  with None show ?thesis
    by (simp add: eligible_skus_def converted_eq [OF assms] fitting_def in_stock_skus_def)
next
  case (Some cap)
  then show ?thesis
    by (simp add: eligible_skus_def converted_eq [OF assms] fitting_def in_stock_skus_def
        sku_fits_def filter_map comp_def)
qed

lemma within_price_cap_eq:
  assumes "search_ok rt spec" "product_ok p" "in_stock_skus p \<noteq> []"
  shows "within_price_cap rt p spec = Inr (list_ex (sku_fits rt spec) (skus p))"
proof (cases "price_max_major spec")
  case None
  then show ?thesis using assms(3)
    by (auto simp: within_price_cap_def sku_fits_def list_ex_iff in_stock_skus_def filter_empty_conv)
next
  case (Some cap)
  then show ?thesis
    by (auto simp: within_price_cap_def converted_eq [OF assms(1,2)] sku_fits_def list_ex_iff
        in_stock_skus_def)
qed

definition reason_of :: "search_spec \<Rightarrow> product \<Rightarrow> reject" where
  "reason_of spec p = (if ship_to_refused p spec then SHIP_TO_UNAVAILABLE else OVER_PRICE_CAP)"

lemma reject_reason_eq:
  assumes "search_ok rt spec" "product_ok p" "in_stock_skus p \<noteq> []"
  shows "reject_reason rt p spec = Inr (if eligible rt spec p then None else Some (reason_of spec p))"
  by (simp add: reject_reason_def within_price_cap_eq [OF assms] eligible_def reason_of_def)

lemma eligible_in_stock: "eligible rt spec p \<Longrightarrow> in_stock_skus p \<noteq> []"
  by (auto simp: eligible_def list_ex_iff sku_fits_def in_stock_skus_def filter_empty_conv)

lemma to_rejected_total:
  assumes "search_ok rt spec" "product_ok p" "in_stock_skus p \<noteq> []"
  shows "\<exists>r. to_rejected rt p spec why = Inr r \<and> rej_product_id r = product_id p \<and> rej_reason r = why"
proof -
  let ?xs = "sort_key price_key (map (\<lambda>s. (s, target_price rt spec s)) (in_stock_skus p))"
  have "length ?xs \<noteq> 0" using assms(3) by simp
  then have "?xs \<noteq> []" by (simp only: length_0_conv not_False_eq_True)
  then obtain b bs where "?xs = b # bs" by (meson list.exhaust)
  then show ?thesis by (simp add: to_rejected_def converted_eq [OF assms(1,2)] min_pair_def)
qed

lemma apply_constraints_spec:
  assumes "search_ok rt spec" "scored_ok xs"
  shows "\<exists>new. apply_constraints rt spec xs el out =
      Inr (el @ [x \<leftarrow> xs. eligible rt spec (snd x)], out @ new) \<and>
    length new \<le> FILTERED_OUT_LIMIT - length out \<and>
    (\<forall>r\<in>set new. \<exists>(_, p)\<in>set xs. rej_product_id r = product_id p \<and> in_stock_skus p \<noteq> [] \<and>
       \<not> eligible rt spec p \<and> rej_reason r = reason_of spec p)"
  using assms(2)
proof (induction xs arbitrary: el out)
  case (Cons x xs)
  obtain sc p where x: "x = (sc, p)" by (cases x)
  have pok: "product_ok p" and xs: "scored_ok xs" using Cons.prems x by (auto simp: scored_ok_def)
  note IH = Cons.IH [OF xs]
  show ?case
  proof (cases "in_stock_skus p = []")
    case True
    then have "\<not> eligible rt spec p" using eligible_in_stock by blast
    with True IH [of el out] x show ?thesis by fastforce
  next
    case False
    note rr = reject_reason_eq [OF assms(1) pok False]
    show ?thesis
    proof (cases "eligible rt spec p")
      case True
      with False rr IH [of "el @ [(sc, p)]" out] x show ?thesis by fastforce
    next
      case ne: False
      show ?thesis
      proof (cases "length out < FILTERED_OUT_LIMIT")
        case True
        from to_rejected_total [OF assms(1) pok False, of "reason_of spec p"] obtain r where
          r: "to_rejected rt p spec (reason_of spec p) = Inr r" "rej_product_id r = product_id p"
             "rej_reason r = reason_of spec p" by blast
        from IH [of el "out @ [r]"] obtain new where
          new: "apply_constraints rt spec xs el (out @ [r]) =
            Inr (el @ [x \<leftarrow> xs. eligible rt spec (snd x)], (out @ [r]) @ new)"
          "length new \<le> FILTERED_OUT_LIMIT - length (out @ [r])"
          "\<forall>r\<in>set new. \<exists>(_, p)\<in>set xs. rej_product_id r = product_id p \<and> in_stock_skus p \<noteq> [] \<and>
             \<not> eligible rt spec p \<and> rej_reason r = reason_of spec p" by blast
        have "apply_constraints rt spec (x # xs) el out =
            Inr (el @ [x \<leftarrow> x # xs. eligible rt spec (snd x)], out @ (r # new))"
          using new(1) False rr ne True r x by simp
        moreover have "length (r # new) \<le> FILTERED_OUT_LIMIT - length out" using new(2) True by simp
        moreover have "\<forall>r'\<in>set (r # new). \<exists>(_, p)\<in>set (x # xs). rej_product_id r' = product_id p \<and>
            in_stock_skus p \<noteq> [] \<and> \<not> eligible rt spec p \<and> rej_reason r' = reason_of spec p"
          using new(3) r(2,3) False ne x by auto
        ultimately show ?thesis by blast
      next
        case full: False
        with False rr ne IH [of el out] x show ?thesis by fastforce
      qed
    qed
  qed
qed simp

section \<open>Cards and ranking\<close>

lemma landed_price_total:
  assumes "search_ok rt spec" "money_ok (price s)"
  shows "\<exists>l. landed_price rt s p spec = Inr l"
proof (cases "ship_to spec")
  case (Some dest)
  show ?thesis
  proof (cases "dest \<in> set destinations")
    case True
    have "\<exists>q. quote rt (price s) (category p) dest 1 (target_currency spec) = Inr q \<and>
        currency (subtotal q) = currency (freight q) \<and> currency (freight q) = currency (tariff q)"
      using assms True by (simp add: quote_eq search_ok_def in_target_def)
    then show ?thesis
      using Some by (auto simp: landed_price_def quote_to_dict_def landed_total_def money_add_def
          assert_same_currency_def)
  next
    case False
    then show ?thesis using Some by (simp add: landed_price_def quote_def destinations_def)
  qed
qed (simp add: landed_price_def)

lemma eligible_fitting: "eligible rt spec p \<Longrightarrow> fitting rt spec p \<noteq> []"
proof -
  assume "eligible rt spec p"
  then have "set (fitting rt spec p) \<noteq> {}"
    by (auto simp: eligible_def fitting_def list_ex_iff)
  then show ?thesis by auto
qed

definition card_sku :: "sku \<times> money \<Rightarrow> sku_card" where
  "card_sku = (\<lambda>(s, m). \<lparr>sc_sku_id = sku_id s, sc_spec = sku_spec s,
     sc_price_major = to_major_units m, sc_currency = currency m, sc_stock = stock s\<rparr>)"

lemma to_card_total:
  assumes "search_ok rt spec" "product_ok p" "eligible rt spec p"
  shows "\<exists>c. to_card rt spec (sc, p) = Inr c \<and> pc_product_id c = product_id p \<and> pc_score c = sc \<and>
    pc_skus c = map card_sku (fitting rt spec p) \<and> pc_skus c \<noteq> [] \<and>
    pc_price_major c = sc_price_major (hd (pc_skus c)) \<and> pc_currency c = target_currency spec"
proof -
  obtain s m ps where f: "fitting rt spec p = (s, m) # ps"
    using eligible_fitting [OF assms(3)] by (metis list.exhaust prod.exhaust)
  then have "(s, m) \<in> set (fitting rt spec p)" by simp
  then have s: "s \<in> set (skus p)" and m: "currency m = target_currency spec"
    by (auto simp: fitting_def target_price_def)
  then have "money_ok (price s)"
    using assms(2) by (auto simp: product_ok_def list_all_iff sku_ok_def)
  from landed_price_total [OF assms(1) this, of p] obtain l where "landed_price rt s p spec = Inr l" ..
  then show ?thesis
    using f m by (simp add: to_card_def eligible_skus_eq [OF assms(1,2)] card_sku_def case_prod_beta)
qed

lemma zip_scores_snd: "zip_scores rs xs = Inr ys \<Longrightarrow> map snd ys = map snd xs"
  by (induction rs xs arbitrary: ys rule: zip_scores.induct) (auto simp: result_simps)

lemma mset_map_sort_desc: "mset (map f (sort_desc xs)) = mset (map f xs)"
  by (simp add: sort_desc_def)

lemma sorted_sort_desc: "sorted (map (\<lambda>x. - fst x) (sort_desc xs))"
  by (simp add: sort_desc_def)

lemma rerank_perm:
  "rerank env spec xs = Inr ys \<Longrightarrow> mset (map snd ys) = mset (map snd xs) \<and>
     sorted (map (\<lambda>x. - fst x) ys)"
  using sorted_sort_desc
  by (auto simp: rerank_def result_simps mset_map_sort_desc simp del: mset_map
      dest!: zip_scores_snd split: option.splits)

lemma rerank_or_keep_spec:
  assumes "rerank_or_keep env spec strat xs = (ys, strat', applied)"
  shows "mset (map snd ys) = mset (map snd xs) \<and> (strat' = EMBEDDING_RERANK \<and> strat \<noteq> EMBEDDING_RERANK
      \<longrightarrow> applied) \<and> (applied \<longrightarrow> strat' = EMBEDDING_RERANK \<and> sorted (map (\<lambda>x. - fst x) ys)) \<and>
    (\<not> applied \<longrightarrow> ys = xs \<and> strat' = strat)"
  using assms rerank_perm [of env spec xs]
  by (auto simp: rerank_or_keep_def split: if_splits sum.splits)

lemma recall_strategy_of: "recall env spec = Inr (xs, strat) \<Longrightarrow> strat \<noteq> EMBEDDING_RERANK"
  by (auto simp: recall_def result_simps split: option.splits sum.splits exn.splits if_splits)

text \<open>What a card promises about the product it shows.\<close>

definition card_sound :: "exchange_rate_table \<Rightarrow> search_spec \<Rightarrow> product \<Rightarrow> product_card \<Rightarrow> bool" where
  "card_sound rt spec p c \<longleftrightarrow>
     pc_product_id c = product_id p \<and> eligible rt spec p \<and> pc_skus c \<noteq> [] \<and>
     (\<forall>k\<in>set (pc_skus c). 0 < sc_stock k \<and> sc_currency k = target_currency spec \<and>
        pc_price_major c \<le> sc_price_major k \<and>
        (case price_max_major spec of None \<Rightarrow> True | Some cap \<Rightarrow> sc_price_major k \<le> cap)) \<and>
     (\<forall>s\<in>set (skus p). sku_fits rt spec s \<longrightarrow> card_sku (s, target_price rt spec s) \<in> set (pc_skus c))"

lemma fitting_sorted: "sorted (map price_key (fitting rt spec p))"
  by (simp add: fitting_def)

lemma to_card_sound:
  assumes "search_ok rt spec" "product_ok p" "eligible rt spec p" "to_card rt spec (sc, p) = Inr c"
  shows "card_sound rt spec p (card_to_dict c)"
proof -
  from to_card_total [OF assms(1-3), of sc] assms(4) have
    id: "pc_product_id c = product_id p" and sk: "pc_skus c = map card_sku (fitting rt spec p)"
    and ne: "pc_skus c \<noteq> []" and hd: "pc_price_major c = sc_price_major (hd (pc_skus c))" by auto
  obtain x xs where f: "fitting rt spec p = x # xs" using eligible_fitting [OF assms(3)]
    by (cases "fitting rt spec p") auto
  have le: "pc_price_major c \<le> sc_price_major k" if "k \<in> set (pc_skus c)" for k
  proof -
    from that sk obtain y where y: "y \<in> set (fitting rt spec p)" "k = card_sku y" by auto
    have "price_key x \<le> price_key y"
      using y(1) fitting_sorted [of rt spec p] f by auto
    then have "amount_in_minor_units (snd x) \<le> amount_in_minor_units (snd y)"
      by (auto simp: price_key_def less_eq_prod_def)
    then show ?thesis
      using hd sk f y(2) by (simp add: card_sku_def case_prod_beta to_major_units_mono)
  qed
  have fit: "\<exists>s. y = (s, target_price rt spec s) \<and> sku_fits rt spec s" if "y \<in> set (fitting rt spec p)" for y
    using that by (auto simp: fitting_def)
  have all: "0 < sc_stock k \<and> sc_currency k = target_currency spec \<and>
      (case price_max_major spec of None \<Rightarrow> True | Some cap \<Rightarrow> sc_price_major k \<le> cap)"
    if k: "k \<in> set (pc_skus c)" for k
  proof -
    from k sk obtain y where y: "y \<in> set (fitting rt spec p)" and ky: "k = card_sku y" by auto
    from fit [OF y] obtain s where "y = (s, target_price rt spec s)" "sku_fits rt spec s" by blast
    then show ?thesis using ky
      by (auto simp: card_sku_def sku_fits_def target_price_def split: option.splits)
  qed
  have "card_sku (s, target_price rt spec s) \<in> set (pc_skus c)"
    if "s \<in> set (skus p)" "sku_fits rt spec s" for s
    using that sk by (auto simp: fitting_def)
  with id ne le all assms(3) show ?thesis by (simp add: card_sound_def card_to_dict_def)
qed

section \<open>The use case as a whole\<close>

lemma catalog_search_spec:
  assumes ok: "search_ok (rates env) spec" and rec: "recall env spec = Inr (xs, strat)"
    and xs: "scored_ok xs"
  obtains ranked strat' applied out cards where
    "rerank_or_keep env spec strat [x \<leftarrow> xs. eligible (rates env) spec (snd x)] = (ranked, strat', applied)"
    "catalog_search env spec = Inr \<lparr>hits = map card_to_dict cards, total_candidates = length ranked,
       recall_strategy = strat', rerank_applied = applied, filtered_out = out\<rparr>"
    "list_all2 (\<lambda>x c. to_card (rates env) spec x = Inr c) (take (nat (top_k spec)) ranked) cards"
    "length out \<le> FILTERED_OUT_LIMIT"
    "\<And>x. x \<in> set ranked \<Longrightarrow> product_ok (snd x) \<and> eligible (rates env) spec (snd x) \<and> snd x \<in> snd ` set xs"
    "\<And>r. r \<in> set out \<Longrightarrow> \<exists>(_, p)\<in>set xs. rej_product_id r = product_id p \<and> in_stock_skus p \<noteq> [] \<and>
       \<not> eligible (rates env) spec p \<and> rej_reason r = reason_of spec p"
proof -
  let ?el = "[x \<leftarrow> xs. eligible (rates env) spec (snd x)]"
  from apply_constraints_spec [OF ok xs, of "[]" "[]"] obtain out where
    ac: "apply_constraints (rates env) spec xs [] [] = Inr (?el, out)"
    and lim: "length out \<le> FILTERED_OUT_LIMIT"
    and rej: "\<forall>r\<in>set out. \<exists>(_, p)\<in>set xs. rej_product_id r = product_id p \<and> in_stock_skus p \<noteq> [] \<and>
       \<not> eligible (rates env) spec p \<and> rej_reason r = reason_of spec p"
    by auto
  obtain ranked strat' applied where
    rk: "rerank_or_keep env spec strat ?el = (ranked, strat', applied)"
    by (cases "rerank_or_keep env spec strat ?el") auto
  have "set (map snd ranked) = set (map snd ?el)"
    using rerank_or_keep_spec [OF rk] mset_eq_setD by blast
  then have sub: "snd ` set ranked \<subseteq> snd ` set ?el" by simp
  have el: "product_ok (snd x) \<and> eligible (rates env) spec (snd x) \<and> snd x \<in> snd ` set xs"
    if "x \<in> set ranked" for x
  proof -
    from that sub obtain y where "y \<in> set ?el" "snd x = snd y" by fastforce
    then show ?thesis using xs by (auto simp: scored_ok_def list_all_iff)
  qed
  have "\<forall>x\<in>set (take (nat (top_k spec)) ranked). \<exists>c. to_card (rates env) spec x = Inr c"
  proof
    fix x assume "x \<in> set (take (nat (top_k spec)) ranked)"
    from el [OF in_set_takeD [OF this]] to_card_total [OF ok, of "snd x" "fst x"]
    show "\<exists>c. to_card (rates env) spec x = Inr c" by auto
  qed
  from mapR_total [OF this] obtain cards where
    mc: "mapR (to_card (rates env) spec) (take (nat (top_k spec)) ranked) = Inr cards" ..
  then have la: "list_all2 (\<lambda>x c. to_card (rates env) spec x = Inr c)
      (take (nat (top_k spec)) ranked) cards"
    by (simp add: mapR_Inr_iff)
  show thesis
    using that [OF rk _ la lim el] rej rec ac rk mc by (simp add: catalog_search_def)
qed

section \<open>Hydration from the in-memory repository\<close>

definition products_ok :: "(pystr, product) dict \<Rightarrow> bool" where
  "products_ok d \<longleftrightarrow> list_all (\<lambda>(k, p). product_id p = k) d"

lemma products_ok_lookup: "products_ok d \<Longrightarrow> map_of d k = Some p \<Longrightarrow> product_id p = k"
  by (fastforce simp: products_ok_def list_all_iff dest: map_of_SomeD)

lemma find_by_ids_keys:
  "products_ok d \<Longrightarrow> map product_id (mem_find_by_ids d ids) = [i \<leftarrow> ids. map_of d i \<noteq> None]"
  by (induction ids)
    (auto simp: mem_find_by_ids_def List.map_filter_simps split: option.splits
      dest: products_ok_lookup)

lemma find_by_ids_lookup:
  assumes "products_ok d" "map_of d i = Some p" "i \<in> set ids"
  shows "map_of (map (\<lambda>p. (product_id p, p)) (mem_find_by_ids d ids)) i = Some p"
  using assms(3)
proof (induction ids)
  case (Cons j ids)
  then show ?case
  proof (cases "map_of d j")
    case None
    then have "j \<noteq> i" using assms(2) by auto
    with Cons None show ?thesis by (simp add: mem_find_by_ids_def List.map_filter_simps)
  next
    case (Some q)
    with products_ok_lookup [OF assms(1) Some] Cons assms(2) show ?thesis
      by (auto simp: mem_find_by_ids_def List.map_filter_simps)
  qed
qed simp

lemma vector_recall_mem:
  assumes emb: "emb (normalized_query spec) = Inr e"
    and hits: "search (normalized_query spec) e RECALL_TOP_N = Inr vh"
    and dist: "distinct (map hit_product_id vh)"
    and repo: "find_by_ids env = (\<lambda>ids. Inr (mem_find_by_ids d ids))" and d: "products_ok d"
  shows "vector_recall env emb search spec =
    (if \<forall>h\<in>set vh. map_of d (hit_product_id h) \<noteq> None
     then Inr (map (\<lambda>h. (hit_score h, the (map_of d (hit_product_id h)))) vh)
     else Inl (HydrationError ''repository mismatch''))"
proof -
  let ?ids = "map hit_product_id vh" and ?ps = "mem_find_by_ids d (map hit_product_id vh)"
  have keys: "map product_id ?ps = [i \<leftarrow> ?ids. map_of d i \<noteq> None]" by (rule find_by_ids_keys [OF d])
  have dk: "distinct (map product_id ?ps)" using dist by (simp only: keys distinct_filter)
  have unexp: "[i \<leftarrow> map product_id ?ps. i \<notin> set ?ids] = []"
    unfolding keys by (auto simp: filter_empty_conv)
  have miss: "[i \<leftarrow> ?ids. i \<notin> set (map product_id ?ps)] = [i \<leftarrow> ?ids. map_of d i = None]"
    unfolding keys by (rule filter_cong) auto
  show ?thesis
  proof (cases "\<forall>h\<in>set vh. map_of d (hit_product_id h) \<noteq> None")
    case True
    have "mapR (\<lambda>hit. case map_of (map (\<lambda>p. (product_id p, p)) ?ps) (hit_product_id hit) of
        None \<Rightarrow> Inl (KeyError ''by_id'') | Some p \<Rightarrow> Inr (hit_score hit, p)) vh =
      Inr (map (\<lambda>h. (hit_score h, the (map_of d (hit_product_id h)))) vh)"
    proof (rule mapR_all_Inr)
      fix h assume h: "h \<in> set vh"
      with True obtain p where p: "map_of d (hit_product_id h) = Some p" by auto
      from find_by_ids_lookup [OF d p, of ?ids] h p
      show "(case map_of (map (\<lambda>p. (product_id p, p)) ?ps) (hit_product_id h) of
          None \<Rightarrow> Inl (KeyError ''by_id'') | Some p \<Rightarrow> Inr (hit_score h, p)) =
        Inr (hit_score h, the (map_of d (hit_product_id h)))" by simp
    qed
    moreover have "[i \<leftarrow> ?ids. map_of d i = None] = []"
      using True by (auto simp: filter_empty_conv)
    ultimately show ?thesis
      using True unfolding vector_recall_def emb hits repo Let_def andThen.simps unexp miss
      by (simp add: dist dk)
  next
    case False
    then have "[i \<leftarrow> ?ids. map_of d i = None] \<noteq> []" "vh \<noteq> []"
      by (auto simp: filter_empty_conv)
    then show ?thesis
      using False unfolding vector_recall_def emb hits repo Let_def andThen.simps unexp miss
      by (simp add: dist dk)
  qed
qed

section \<open>Properties\<close>

text \<open>A store of three kettles and an index that returns all of them; \<open>rerankable\<close> says whether
  the reranker is up.\<close>

definition ex_store :: "(pystr, product) dict" where
  "ex_store = mem_products
     [ex_product ''P1'' [ex_sku ''S1'' 5, (ex_sku ''S2'' 2)\<lparr>price := ex_money 900\<rparr>],
      ex_product ''P2'' [ex_sku ''S1'' 0],
      ex_product ''P3'' [(ex_sku ''S1'' 4)\<lparr>price := ex_money 9900\<rparr>],
      ex_product ''P4'' [ex_sku ''S1'' 1]]"

definition ex_hits :: "vector_hit list" where
  "ex_hits = map (\<lambda>(i, r). \<lparr>hit_product_id = u i, hit_score = r\<rparr>)
     [(''P1'', 9/10), (''P2'', 8/10), (''P3'', 7/10), (''P4'', 6/10)]"

definition ex_env :: "bool \<Rightarrow> bool \<Rightarrow> unit search_env" where
  "ex_env rerankable allow =
     \<lparr>embedder = Some (\<lambda>q. Inr ()), vector_index = Some (\<lambda>q e n. Inr ex_hits),
      reranker = Some (\<lambda>q docs. if rerankable then Inr [1/4, 3/4] else Inl TimeoutError),
      find_by_ids = (\<lambda>ids. Inr (mem_find_by_ids ex_store ids)),
      list_products = Inr (mem_list_all ex_store), rates = default_rates,
      allow_keyword_fallback = allow, lower = (\<lambda>s. s)\<rparr>"

definition ex_spec :: search_spec where
  "ex_spec = \<lparr>normalized_query = u ''kettle'', spec_category = None, ship_to = Some (u ''US''),
     locale_tag = u ''en'', top_k = 3, target_currency = u ''USD'', price_max_major = Some 20\<rparr>"

definition ex_recalled :: "scored list" where
  "ex_recalled = map (\<lambda>h. (hit_score h, the (map_of ex_store (hit_product_id h)))) ex_hits"

lemma ex_search_ok: "search_ok (rates (ex_env b a)) ex_spec"
  using rates_ok_default by (simp add: search_ok_def ex_env_def ex_spec_def SUPPORTED_CURRENCIES_def)

lemma ex_scored_ok: "scored_ok ex_recalled"
  by code_simp

lemma ex_store_facts: "products_ok ex_store" "distinct (map hit_product_id ex_hits)"
    "\<forall>h\<in>set ex_hits. map_of ex_store (hit_product_id h) \<noteq> None"
  by code_simp+

lemma ex_recall: "recall (ex_env b a) ex_spec = Inr (ex_recalled, EMBEDDING_ONLY)"
  using vector_recall_mem [of "\<lambda>q. Inr ()" ex_spec "()" "\<lambda>q e n. Inr ex_hits" ex_hits "ex_env b a" ex_store]
    ex_store_facts
  by (simp add: recall_def ex_env_def ex_recalled_def)

lemma ex_search_result: "is_ok (catalog_search (ex_env b a) ex_spec)"
proof (rule catalog_search_spec [OF ex_search_ok ex_recall ex_scored_ok, of b a])
qed simp



text \<open>Also: With valid products and a usable rate table, a search whose recall succeeded never
  raises: no card is built for a product without an eligible SKU, and an unsupported destination
  is reported on the card. It returns as many cards as fit in \<open>top_k\<close>.\<close>

theorem search_total:
  assumes "search_ok (rates env) spec" "recall env spec = Inr (xs, strat)" "scored_ok xs"
  shows "\<exists>res. catalog_search env spec = Inr res \<and>
    length (hits res) = min (nat (top_k spec)) (total_candidates res)"
proof (rule catalog_search_spec [OF assms], goal_cases)
  case (1 ranked strat' applied out cards)
  then show ?case using list_all2_lengthD [OF 1(3)] by (simp add: min.commute)
qed

lemma search_total_witness:
  "\<exists>res. catalog_search (ex_env False False) ex_spec = Inr res \<and>
     length (hits res) = min 3 (total_candidates res)"
  using search_total [OF ex_search_ok ex_recall ex_scored_ok] by (simp add: ex_spec_def)

text \<open>Also: Ranking and degradation. A result says it was reranked exactly when its strategy is
  \<open>embedding_rerank\<close>; otherwise (keyword recall, nothing eligible, no reranker, or a reranker that
  failed or returned too few scores) the cards are the first \<open>top_k\<close> eligible products in the
  recall's order.\<close>

theorem search_ranking:
  assumes "search_ok (rates env) spec" "recall env spec = Inr (xs, strat)" "scored_ok xs"
    and "catalog_search env spec = Inr res"
  shows "(rerank_applied res \<longleftrightarrow> recall_strategy res = EMBEDDING_RERANK) \<and>
    (\<not> rerank_applied res \<longrightarrow> recall_strategy res = strat \<and>
      map pc_product_id (hits res) = map (\<lambda>x. product_id (snd x))
        (take (nat (top_k spec)) [x \<leftarrow> xs. eligible (rates env) spec (snd x)]))"
proof (rule catalog_search_spec [OF assms(1-3)], goal_cases)
  case (1 ranked strat' applied out cards)
  have res: "res = \<lparr>hits = map card_to_dict cards, total_candidates = length ranked,
       recall_strategy = strat', rerank_applied = applied, filtered_out = out\<rparr>"
    using assms(4) 1(2) by simp
  have "list_all2 (\<lambda>x c. product_id (snd x) = pc_product_id c) (take (nat (top_k spec)) ranked) cards"
  proof (rule list.rel_mono_strong [OF 1(3)])
    fix x c assume x: "x \<in> set (take (nat (top_k spec)) ranked)" and c: "to_card (rates env) spec x = Inr c"
    from 1(5) [OF in_set_takeD [OF x]] to_card_total [OF assms(1), of "snd x" "fst x"] c
    show "product_id (snd x) = pc_product_id c" by auto
  qed
  then have "map (\<lambda>x. product_id (snd x)) (take (nat (top_k spec)) ranked) = map pc_product_id cards"
    by (rule list_all2_map_eq)
  then have ids: "map pc_product_id (hits res) =
      map (\<lambda>x. product_id (snd x)) (take (nat (top_k spec)) ranked)"
    using res by (simp add: card_to_dict_def)
  have "strat \<noteq> EMBEDDING_RERANK" by (rule recall_strategy_of [OF assms(2)])
  then show ?case
    using rerank_or_keep_spec [OF 1(1)] res ids by (cases applied) simp_all
qed


lemma search_ranking_witness:
  "\<exists>res. catalog_search (ex_env False False) ex_spec = Inr res \<and> \<not> rerank_applied res \<and>
     map pc_product_id (hits res) = [u ''P1'', u ''P4'']"
proof -
  obtain res where r: "catalog_search (ex_env False False) ex_spec = Inr res"
    using is_okD [OF ex_search_result] by blast
  let ?el = "[x \<leftarrow> ex_recalled. eligible (rates (ex_env False False)) ex_spec (snd x)]"
  have "snd (snd (rerank_or_keep (ex_env False False) ex_spec EMBEDDING_ONLY ?el)) = False"
    by (simp add: rerank_or_keep_def rerank_def ex_env_def)
  then have n: "\<not> rerank_applied res"
    by (rule_tac catalog_search_spec [OF ex_search_ok ex_recall ex_scored_ok, of False False])
      (use r in simp)
  have "map (\<lambda>x. product_id (snd x)) (take (nat (top_k ex_spec)) ?el) = [u ''P1'', u ''P4'']"
    by code_simp
  with search_ranking [OF ex_search_ok ex_recall ex_scored_ok r] n r show ?thesis by simp
qed

text \<open>Also: Degradation never hides a broken catalogue, and never happens where it is switched off. A
  mismatch between index and repository ends the search with the hydration error, fallback or not.
  Without the fallback a search either used the vector recall or fails with one
  of the two infrastructure errors; it never scans the repository for keywords.\<close>

theorem search_no_masking:
  "(embedder env = Some emb \<and> vector_index env = Some search \<and>
      vector_recall env emb search spec = Inl (HydrationError m) \<longrightarrow>
      catalog_search env spec = Inl (HydrationError m)) \<and>
   (\<not> allow_keyword_fallback env \<longrightarrow>
      (case recall env spec of
         Inl e \<Rightarrow> (\<exists>m. e = HydrationError m \<or> e = RetrievalError m) \<and> catalog_search env spec = Inl e
       | Inr (xs, strat) \<Rightarrow> strat = EMBEDDING_ONLY \<and>
           (\<exists>em se. embedder env = Some em \<and> vector_index env = Some se \<and>
              vector_recall env em se spec = Inr xs)))"
proof (intro conjI impI)
  assume "embedder env = Some emb \<and> vector_index env = Some search \<and>
      vector_recall env emb search spec = Inl (HydrationError m)"
  then show "catalog_search env spec = Inl (HydrationError m)"
    by (simp add: catalog_search_def recall_def)
next
  assume "\<not> allow_keyword_fallback env"
  then show "case recall env spec of
      Inl e \<Rightarrow> (\<exists>m. e = HydrationError m \<or> e = RetrievalError m) \<and> catalog_search env spec = Inl e
    | Inr (xs, strat) \<Rightarrow> strat = EMBEDDING_ONLY \<and>
        (\<exists>em se. embedder env = Some em \<and> vector_index env = Some se \<and>
           vector_recall env em se spec = Inr xs)"
    by (cases "embedder env"; cases "vector_index env")
      (auto simp: catalog_search_def recall_def split: sum.splits exn.splits)
qed

definition ex_broken :: "unit search_env" where
  "ex_broken = (ex_env True True)\<lparr>find_by_ids := (\<lambda>ids. Inr (mem_find_by_ids (butlast ex_store) ids))\<rparr>"

lemma search_no_masking_witness:
  "catalog_search ex_broken ex_spec = Inl (HydrationError ''repository mismatch'') \<and>
   recall ((ex_env True False)\<lparr>embedder := None\<rparr>) ex_spec =
     Inl (RetrievalError ''hybrid not configured'')"
proof -
  have d: "products_ok (butlast ex_store)"
    "\<not> (\<forall>h\<in>set ex_hits. map_of (butlast ex_store) (hit_product_id h) \<noteq> None)" by code_simp+
  have v: "vector_recall ex_broken (\<lambda>q. Inr ()) (\<lambda>q e n. Inr ex_hits) ex_spec =
      Inl (HydrationError ''repository mismatch'')"
    using vector_recall_mem [of "\<lambda>q. Inr ()" ex_spec "()" "\<lambda>q e n. Inr ex_hits" ex_hits ex_broken
      "butlast ex_store"] d ex_store_facts(2)
    by (simp add: ex_broken_def)
  have env: "embedder ex_broken = Some (\<lambda>q. Inr ())" "vector_index ex_broken = Some (\<lambda>q e n. Inr ex_hits)"
    by (simp_all add: ex_broken_def ex_env_def)
  have "recall ((ex_env True False)\<lparr>embedder := None\<rparr>) ex_spec =
     Inl (RetrievalError ''hybrid not configured'')" by (simp add: recall_def ex_env_def)
  with search_no_masking [of ex_broken "\<lambda>q. Inr ()" "\<lambda>q e n. Inr ex_hits" ex_spec
    "''repository mismatch''"] env v show ?thesis by simp
qed

text \<open>Also: Over the in-memory repository the vector recall returns exactly the index's hits, in the
  index's order and with its scores, each with the product of that id, or the hydration error as
  soon as one hit has no product.\<close>

theorem vector_recall_exact:
  assumes "emb (normalized_query spec) = Inr e"
    and "search (normalized_query spec) e RECALL_TOP_N = Inr vh"
    and "distinct (map hit_product_id vh)"
    and "find_by_ids env = (\<lambda>ids. Inr (mem_find_by_ids d ids))" and "products_ok d"
  shows "vector_recall env emb search spec =
    (if \<forall>h\<in>set vh. map_of d (hit_product_id h) \<noteq> None
     then Inr (map (\<lambda>h. (hit_score h, the (map_of d (hit_product_id h)))) vh)
     else Inl (HydrationError ''repository mismatch''))"
  using assms by (rule vector_recall_mem)

lemma vector_recall_exact_witness:
  "vector_recall (ex_env True True) (\<lambda>q. Inr ()) (\<lambda>q e n. Inr ex_hits) ex_spec = Inr ex_recalled"
  using vector_recall_exact [of "\<lambda>q. Inr ()" ex_spec "()" "\<lambda>q e n. Inr ex_hits" ex_hits
      "ex_env True True" ex_store] ex_store_facts
  by (simp add: ex_env_def ex_recalled_def)

end
