(* ===== verification/Redis.thy ===== *)
theory Redis
  imports Complex_Main Prelude
begin

text \<open>
  \<open>app/infrastructure/cache/redis_cache.py\<close> over a model of the Redis server: keys with a cell
  and an expiry time, the server's clock, and the outcomes of the coming commands (\<open>True\<close> = the
  command raises; when the list is exhausted commands succeed). \<open>json\<close> values are those that
  \<open>json.dumps\<close> wrote; \<open>parse_text\<close> is \<open>json.loads\<close> on a bare string. Every method of the
  wrapper returns a plain value: the exception branch is the bypass value.
\<close>

section \<open>The server\<close>

datatype 'v cell = Json 'v | Text pystr | ZSet "(pystr \<times> rat) list"

record 'v redis =
  cells :: "(pystr, 'v cell \<times> rat) dict"
  clock :: rat
  command_fails :: "bool list"
  connected :: bool
  parse_text :: "pystr \<Rightarrow> 'v option"

definition live :: "'v redis \<Rightarrow> pystr \<Rightarrow> 'v cell option" where
  "live r k = (case map_of (cells r) k of
     None \<Rightarrow> None
   | Some (c, expires) \<Rightarrow> if clock r < expires then Some c else None)"

definition store :: "pystr \<Rightarrow> 'v cell \<Rightarrow> rat \<Rightarrow> 'v redis \<Rightarrow> 'v redis" where
  "store k c ttl r = r\<lparr>cells := AList.update k (c, clock r + ttl) (cells r)\<rparr>"

definition drop_key :: "pystr \<Rightarrow> 'v redis \<Rightarrow> 'v redis" where
  "drop_key k r = r\<lparr>cells := AList.delete k (cells r)\<rparr>"

text \<open>Run one command: on failure the bypass value and an unchanged store.\<close>

definition command :: "'a \<Rightarrow> ('v redis \<Rightarrow> 'a \<times> 'v redis) \<Rightarrow> 'v redis \<Rightarrow> 'a \<times> 'v redis" where
  "command bypass body r =
     (case command_fails r of
        [] \<Rightarrow> body r
      | fails # rest \<Rightarrow>
          if fails then (bypass, r\<lparr>command_fails := rest\<rparr>) else body (r\<lparr>command_fails := rest\<rparr>))"

section \<open>The wrapper\<close>

definition cache_delete :: "pystr \<Rightarrow> 'v redis \<Rightarrow> unit \<times> 'v redis" where
  "cache_delete k r =
     (if \<not> connected r then ((), r) else command () (\<lambda>s. ((), drop_key k s)) r)"

definition get_cell :: "pystr \<Rightarrow> 'v redis \<Rightarrow> 'v cell option \<times> 'v redis" where
  "get_cell k r = command None (\<lambda>s. (live s k, s)) r"

text \<open>The text of a value, which a sorted set does not have; \<open>text_of\<close> is what \<open>set_json\<close> wrote.\<close>

definition get_raw :: "('v \<Rightarrow> pystr) \<Rightarrow> pystr \<Rightarrow> 'v redis \<Rightarrow> pystr option \<times> 'v redis" where
  "get_raw text_of k r =
     (if \<not> connected r then (None, r)
      else case get_cell k r of
        (Some (Json v), s) \<Rightarrow> (Some (text_of v), s)
      | (Some (Text t), s) \<Rightarrow> (Some t, s)
      | (c, s) \<Rightarrow> (None, s))"

definition get_json :: "pystr \<Rightarrow> 'v redis \<Rightarrow> 'v option \<times> 'v redis" where
  "get_json k r =
     (if \<not> connected r then (None, r)
      else case get_cell k r of
        (None, s) \<Rightarrow> (None, s)
      | (Some (Json v), s) \<Rightarrow> (Some v, s)
      | (Some (ZSet z), s) \<Rightarrow> (None, s)
      | (Some (Text t), s) \<Rightarrow>
          (case parse_text r t of
             Some v \<Rightarrow> (Some v, s)
           | None \<Rightarrow> (None, snd (cache_delete k s))))"

definition set_json :: "pystr \<Rightarrow> 'v \<Rightarrow> rat \<Rightarrow> 'v redis \<Rightarrow> unit \<times> 'v redis" where
  "set_json k v ttl r =
     (if \<not> connected r then ((), r) else command () (\<lambda>s. ((), store k (Json v) ttl s)) r)"

definition set_if_absent :: "pystr \<Rightarrow> pystr \<Rightarrow> rat \<Rightarrow> 'v redis \<Rightarrow> bool \<times> 'v redis" where
  "set_if_absent k t ttl r =
     (if \<not> connected r then (True, r)
      else command True
        (\<lambda>s. if live s k = None then (True, store k (Text t) ttl s) else (False, s)) r)"

definition zmembers :: "'v cell option \<Rightarrow> (pystr \<times> rat) list" where
  "zmembers c = (case c of Some (ZSet z) \<Rightarrow> z | _ \<Rightarrow> [])"

text \<open>
  One transaction of four commands. On a key that holds no sorted set the first three raise, so
  that the caller sees 0, but \<open>expire\<close> still runs.
\<close>

definition zadd_and_count :: "pystr \<Rightarrow> pystr \<Rightarrow> rat \<Rightarrow> rat \<Rightarrow> 'v redis \<Rightarrow> nat \<times> 'v redis" where
  "zadd_and_count k member now window r =
     (if \<not> connected r then (0, r)
      else command 0
        (\<lambda>s. case live s k of
               Some (Json v) \<Rightarrow> (0, store k (Json v) (of_int (\<lfloor>window\<rfloor> + 1)) s)
             | Some (Text t) \<Rightarrow> (0, store k (Text t) (of_int (\<lfloor>window\<rfloor> + 1)) s)
             | c \<Rightarrow>
                 let kept = [(m, score) \<leftarrow> zmembers c. now - window < score \<or> score < 0];
                     z = AList.update member now kept
                 in (length z, store k (ZSet z) (of_int (\<lfloor>window\<rfloor> + 1)) s)) r)"

section \<open>Laws\<close>

lemma command_cases:
  assumes "command bypass body r = (x, r')"
  obtains (failed) fs where "x = bypass" "r' = r\<lparr>command_fails := fs\<rparr>"
  | (ran) fs where "body (r\<lparr>command_fails := fs\<rparr>) = (x, r')"
proof (cases "command_fails r")
  case Nil
  then have "r = r\<lparr>command_fails := []\<rparr>" by simp
  with Nil assms ran [of "[]"] show ?thesis by (simp add: command_def)
next
  case (Cons a as)
  with assms show ?thesis
    using failed [of as] ran [of as] by (cases a) (auto simp: command_def)
qed

lemma live_outcomes [simp]: "live (r\<lparr>command_fails := fs\<rparr>) = live r"
  by (auto simp: live_def fun_eq_iff split: option.split)

lemma live_store: "0 < ttl \<Longrightarrow> live (store k c ttl r) j = (if j = k then Some c else live r j)"
  by (auto simp: live_def store_def map_of_update split: option.split)

lemma live_store_at:
  "live (store k c ttl r\<lparr>clock := now\<rparr>) k = (if now < clock r + ttl then Some c else None)"
  by (simp add: live_def store_def map_of_update)

lemma live_drop: "live (drop_key k r) j = (if j = k then None else live r j)"
  by (auto simp: live_def drop_key_def map_of_delete split: option.split)

definition healthy :: "'v redis \<Rightarrow> bool" where
  "healthy r \<longleftrightarrow> connected r \<and> command_fails r = []"

lemma healthy_simps [simp]:
  "healthy (store k c ttl r) = healthy r" "healthy (drop_key k r) = healthy r"
  "healthy (r\<lparr>clock := now\<rparr>) = healthy r" "clock (store k c ttl r) = clock r"
  "clock (drop_key k r) = clock r"
  by (simp_all add: healthy_def store_def drop_key_def)

lemma command_healthy: "healthy r \<Longrightarrow> command bypass body r = body r"
  by (simp add: command_def healthy_def)

lemma set_json_healthy: "healthy r \<Longrightarrow> set_json k v ttl r = ((), store k (Json v) ttl r)"
  by (simp add: set_json_def command_healthy) (simp add: healthy_def)

lemma get_json_healthy:
  "healthy r \<Longrightarrow> live r k = Some (Json v) \<Longrightarrow> get_json k r = (Some v, r)"
  "healthy r \<Longrightarrow> live r k = None \<Longrightarrow> get_json k r = (None, r)"
  by (simp_all add: get_json_def get_cell_def command_healthy healthy_def)

lemma get_raw_healthy:
  "healthy r \<Longrightarrow> live r k = Some (Text t) \<Longrightarrow> get_raw text_of k r = (Some t, r)"
  by (simp add: get_raw_def get_cell_def command_healthy healthy_def)

lemma set_if_absent_healthy:
  "healthy r \<Longrightarrow> set_if_absent k t ttl r = (if live r k = None then (True, store k (Text t) ttl r) else (False, r))"
  by (simp add: set_if_absent_def command_healthy) (simp add: healthy_def)

lemma delete_healthy: "healthy r \<Longrightarrow> cache_delete k r = ((), drop_key k r)"
  by (simp add: cache_delete_def command_healthy) (simp add: healthy_def)

end
