(* ===== verification/Transient.thy ===== *)
theory Transient
  imports Complex_Main Prelude
begin

text \<open>
  \<open>app/infrastructure/transient.py\<close> and \<open>throttle.py\<close>: the classification of dependency errors
  along the chain of causes, the single retry, and the spacing of request starts.
\<close>

section \<open>Error messages\<close>

definition TRANSIENT_ERROR_MARKERS :: "pystr list" where
  "TRANSIENT_ERROR_MARKERS = map u
     [''too many concurrent'', ''rate limit'', ''request rate'', ''too many requests'', ''throttling'',
      ''429'', ''timeout'', ''timed out'', ''temporarily unavailable'', ''service unavailable'',
      ''internal server error'', ''bad gateway'', ''connection reset'', ''connection error'']"

definition is_transient_error :: "(pystr \<Rightarrow> pystr) \<Rightarrow> pystr \<Rightarrow> bool" where
  "is_transient_error lower_fn message =
     list_ex (\<lambda>marker. substring marker (lower_fn message)) TRANSIENT_ERROR_MARKERS"

section \<open>The chain of causes\<close>

text \<open>
  Exception objects live in a heap and refer to each other by index, so that a chain may be
  cyclic. \<open>HttpTimeout\<close> is \<open>httpx.TimeoutException\<close> with its subclasses.
\<close>

datatype exc_class = HttpStatus int | HttpTimeout | HttpConnect | OtherClass

record exc =
  exc_class :: exc_class
  exc_cause :: "nat option"
  exc_context :: "nat option"

definition RETRYABLE_STATUS_CODES :: "int list" where
  "RETRYABLE_STATUS_CODES = [429, 502, 503, 504]"

fun class_retryable :: "exc_class \<Rightarrow> bool" where
  "class_retryable (HttpStatus code) = (code \<in> set RETRYABLE_STATUS_CODES)"
| "class_retryable HttpTimeout = True"
| "class_retryable HttpConnect = True"
| "class_retryable OtherClass = False"

definition next_exc :: "exc \<Rightarrow> nat option" where
  "next_exc e = (case exc_cause e of Some c \<Rightarrow> Some c | None \<Rightarrow> exc_context e)"

text \<open>The loop with its set \<open>seen\<close> of visited objects; it ends because that set grows.\<close>

function retryable_from :: "exc list \<Rightarrow> nat list \<Rightarrow> nat option \<Rightarrow> bool" where
  "retryable_from heap seen None = False"
| "retryable_from heap seen (Some i) =
     (if i \<in> set seen \<or> length heap \<le> i then False
      else if class_retryable (exc_class (heap ! i)) then True
      else retryable_from heap (i # seen) (next_exc (heap ! i)))"
  by pat_completeness auto

termination
proof (relation "measure (\<lambda>(heap, seen, i). card ({..<length heap} - set seen))")
  fix heap :: "exc list" and seen i
  assume "\<not> (i \<in> set seen \<or> length heap \<le> i)"
  then have "i \<in> {..<length heap} - set seen" by simp
  moreover have "{..<length heap} - set (i # seen) = {..<length heap} - set seen - {i}"
    unfolding list.set by (rule Diff_insert)
  ultimately have "card ({..<length heap} - set (i # seen)) < card ({..<length heap} - set seen)"
    by (simp only: card_Diff1_less finite_Diff finite_lessThan)
  then show "((heap, i # seen, next_exc (heap ! i)), (heap, seen, Some i))
      \<in> measure (\<lambda>(heap, seen, i). card ({..<length heap} - set seen))" by simp
qed simp

definition is_retryable_dependency_error :: "exc list \<Rightarrow> nat \<Rightarrow> bool" where
  "is_retryable_dependency_error heap e = retryable_from heap [] (Some e)"

text \<open>Reachable along the chain.\<close>

inductive chained :: "exc list \<Rightarrow> nat \<Rightarrow> nat \<Rightarrow> bool" for heap where
  chained_refl: "i < length heap \<Longrightarrow> chained heap i i"
| chained_step: "i < length heap \<Longrightarrow> next_exc (heap ! i) = Some j \<Longrightarrow> chained heap j k \<Longrightarrow>
    chained heap i k"

inductive_simps chained_simps: "chained heap i k"

lemma chained_bound: "chained heap i k \<Longrightarrow> i < length heap \<and> k < length heap"
  by (induction rule: chained.induct) auto

lemma retryable_sound: "retryable_from heap seen (Some i) \<Longrightarrow>
    \<exists>k. chained heap i k \<and> class_retryable (exc_class (heap ! k))"
proof (induction heap seen "Some i" arbitrary: i rule: retryable_from.induct)
  case (2 heap seen i)
  show ?case
  proof (cases "class_retryable (exc_class (heap ! i))")
    case True
    with 2(2) show ?thesis by (intro exI [of _ i]) (auto intro: chained_refl split: if_splits)
  next
    case False
    with 2(2) have i: "i \<notin> set seen" "i < length heap"
      and rec: "retryable_from heap (i # seen) (next_exc (heap ! i))" by (auto split: if_splits)
    then obtain j where j: "next_exc (heap ! i) = Some j" by (cases "next_exc (heap ! i)") auto
    from 2(1) [OF _ False j] i rec j show ?thesis by (auto intro: chained_step)
  qed
qed

text \<open>
  The converse: when the loop answers no, the visited objects with the current one extend to a
  set that is closed under the chain and holds no retryable object.
\<close>

definition closed_plain :: "exc list \<Rightarrow> nat set \<Rightarrow> bool" where
  "closed_plain heap S \<longleftrightarrow> (\<forall>i\<in>S. i < length heap \<longrightarrow> \<not> class_retryable (exc_class (heap ! i)) \<and>
     (\<forall>j. next_exc (heap ! i) = Some j \<longrightarrow> j \<in> S))"

lemma retryable_complete:
  assumes "\<not> retryable_from heap seen cur"
    and "\<forall>i\<in>set seen. i < length heap \<longrightarrow> \<not> class_retryable (exc_class (heap ! i)) \<and>
      (\<forall>j. next_exc (heap ! i) = Some j \<longrightarrow> j \<in> set seen \<or> cur = Some j)"
  shows "\<exists>S. set seen \<subseteq> S \<and> (\<forall>i. cur = Some i \<longrightarrow> i \<in> S) \<and> closed_plain heap S"
  using assms
proof (induction heap seen cur rule: retryable_from.induct)
  case (1 heap seen)
  then show ?case by (intro exI [of _ "set seen"]) (auto simp: closed_plain_def)
next
  case (2 heap seen i)
  show ?case
  proof (cases "i \<in> set seen \<or> length heap \<le> i")
    case True
    with 2(3) show ?thesis
      by (intro exI [of _ "insert i (set seen)"]) (auto simp: closed_plain_def)
  next
    case False
    with 2(2) have n: "\<not> class_retryable (exc_class (heap ! i))"
      and rec: "\<not> retryable_from heap (i # seen) (next_exc (heap ! i))"
      by (auto split: if_splits)
    have "\<forall>k\<in>set (i # seen). k < length heap \<longrightarrow> \<not> class_retryable (exc_class (heap ! k)) \<and>
        (\<forall>j. next_exc (heap ! k) = Some j \<longrightarrow> j \<in> set (i # seen) \<or> next_exc (heap ! i) = Some j)"
      using 2(3) n by auto
    from 2(1) [OF False n rec this] obtain S where "set (i # seen) \<subseteq> S" "closed_plain heap S"
      by blast
    then show ?thesis by (intro exI [of _ S]) simp
  qed
qed

lemma closed_plain_chained: "chained heap i k \<Longrightarrow> closed_plain heap S \<Longrightarrow> i \<in> S \<Longrightarrow> k \<in> S"
  by (induction rule: chained.induct) (auto simp: closed_plain_def)

lemma retryable_iff:
  "is_retryable_dependency_error heap e \<longleftrightarrow>
     (\<exists>k. chained heap e k \<and> class_retryable (exc_class (heap ! k)))"
proof
  assume "is_retryable_dependency_error heap e"
  then show "\<exists>k. chained heap e k \<and> class_retryable (exc_class (heap ! k))"
    unfolding is_retryable_dependency_error_def by (rule retryable_sound)
next
  assume "\<exists>k. chained heap e k \<and> class_retryable (exc_class (heap ! k))"
  then obtain k where k: "chained heap e k" "class_retryable (exc_class (heap ! k))" by blast
  show "is_retryable_dependency_error heap e"
  proof (rule ccontr)
    assume "\<not> is_retryable_dependency_error heap e"
    then obtain S where "e \<in> S" "closed_plain heap S"
      using retryable_complete [of heap "[]" "Some e"] by (auto simp: is_retryable_dependency_error_def)
    with closed_plain_chained [OF k(1)] chained_bound [OF k(1)] k(2) show False
      by (auto simp: closed_plain_def)
  qed
qed

section \<open>One retry\<close>

text \<open>
  \<open>retry_dependency_once\<close> around an operation that threads a state: the result, the number of
  attempts, and the state after them. \<open>retryable\<close> is the classification of the exception.
\<close>

definition retry_dependency_once ::
  "('e \<Rightarrow> bool) \<Rightarrow> ('s \<Rightarrow> ('e + 'a) \<times> 's) \<Rightarrow> 's \<Rightarrow> ('e + 'a) \<times> nat \<times> 's" where
  "retry_dependency_once retryable operation s =
     (case operation s of
        (Inr x, s1) \<Rightarrow> (Inr x, 1, s1)
      | (Inl e, s1) \<Rightarrow>
          if \<not> retryable e then (Inl e, 1, s1)
          else (case operation s1 of (r, s2) \<Rightarrow> (r, 2, s2)))"

section \<open>Spacing of request starts\<close>

text \<open>
  \<open>GatewayThrottle._space_out\<close> under its lock: from the clock and the last start, the time of this
  start. Times are exact; sleeping lasts \<open>oversleep\<close> longer than asked.
\<close>

definition space_out :: "rat \<Rightarrow> rat \<Rightarrow> rat \<Rightarrow> rat \<Rightarrow> rat" where
  "space_out min_interval last_start now oversleep =
     (if min_interval \<le> 0 then last_start
      else let wait = min_interval - (now - last_start)
           in if 0 < wait then now + wait + oversleep else now)"

fun starts :: "rat \<Rightarrow> rat \<Rightarrow> (rat \<times> rat) list \<Rightarrow> rat list" where
  "starts min_interval last_start [] = []"
| "starts min_interval last_start ((now, over) # arrivals) =
     (let t = space_out min_interval last_start now over
      in t # starts min_interval t arrivals)"

lemma starts_spaced:
  assumes "0 < d" "list_all (\<lambda>(now, over). 0 \<le> over) arrivals"
  shows "sorted_wrt (\<lambda>a b. a + d \<le> b) (last_start # starts d last_start arrivals)"
  using assms(2)
proof (induction arrivals arbitrary: last_start)
  case (Cons a arrivals)
  obtain now over where a: "a = (now, over)" by (cases a)
  let ?t = "space_out d last_start now over"
  from Cons have s: "sorted_wrt (\<lambda>a b. a + d \<le> b) (?t # starts d ?t arrivals)" by simp
  have t: "last_start + d \<le> ?t" using Cons.prems a assms(1) by (simp add: space_out_def Let_def)
  have "last_start + d \<le> x" if "x \<in> set (starts d ?t arrivals)" for x
  proof -
    from s that have "?t + d \<le> x" by simp
    with t assms(1) show ?thesis by linarith
  qed
  with s t a show ?case by (simp add: Let_def)
qed simp

section \<open>Properties\<close>

text \<open>Also: An error is retryable exactly when some exception on its chain of causes and contexts is an
  HTTP timeout, a connection error, or a response with status 429, 502, 503 or 504. The walk
  ends on every chain, cyclic ones included.\<close>

theorem retryable_classification:
  "is_retryable_dependency_error heap e \<longleftrightarrow>
     (\<exists>k. chained heap e k \<and> class_retryable (exc_class (heap ! k)))"
  by (rule retryable_iff)

text \<open>Also: A dependency call is made once or twice, never more; twice exactly when the first attempt
  failed with a retryable error, and the answer is that of the last attempt.\<close>

theorem retry_at_most_once:
  "case retry_dependency_once retryable operation s of (r, n, s') \<Rightarrow>
     (n = 1 \<and> operation s = (r, s') \<and> (\<forall>e. r = Inl e \<longrightarrow> \<not> retryable e) \<or>
      n = 2 \<and> (\<exists>e s1. operation s = (Inl e, s1) \<and> retryable e \<and> operation s1 = (r, s')))"
  by (auto simp: retry_dependency_once_def split: prod.splits sum.splits)

lemma retry_at_most_once_witness:
  "case retry_dependency_once (\<lambda>e. e = TimeoutError) (\<lambda>n::nat. (Inl TimeoutError :: nat result, Suc n)) 0 of
     (r, n, s') \<Rightarrow> n = 2 \<and> s' = 2"
  using retry_at_most_once [where retryable = "\<lambda>e. e = TimeoutError" and s = 0
      and operation = "\<lambda>n::nat. (Inl TimeoutError :: nat result, Suc n)"]
  by (auto simp: retry_dependency_once_def)

text \<open>Also: The throttle spaces out request starts: whatever the arrival times, any two starts
  are at least the minimal interval apart, and the first one is that far from the previous start.\<close>

theorem throttle_spacing:
  assumes "0 < d" "list_all (\<lambda>(now, over). 0 \<le> over) arrivals"
  shows "sorted_wrt (\<lambda>a b. a + d \<le> b) (last_start # starts d last_start arrivals)"
  using assms by (rule starts_spaced)

lemma throttle_spacing_witness:
  "sorted_wrt (\<lambda>a b. a + 2 \<le> b) (0 # starts 2 0 [(1, 0), (1, 1/10), (9, 0)])"
  using throttle_spacing [of 2 "[(1, 0), (1, 1/10), (9, 0)]" 0] by simp

end
