(* ===== verification/Tool_Chunk.thy ===== *)
theory Tool_Chunk
  imports Prelude
begin

text \<open>
  The result of a tool as the middlewares see it: a chunk with its content blocks and whether
  its state is \<open>ERROR\<close> (\<open>agentscope.tool.ToolChunk\<close>). Error texts are short names.
\<close>

datatype block = TextBlock pystr | OtherBlock

record chunk =
  content :: "block list"
  chunk_error :: bool

definition error_chunk :: "string \<Rightarrow> chunk" where
  "error_chunk msg = \<lparr>content = [TextBlock (u ''[error] '' @ u msg)], chunk_error = True\<rparr>"

text \<open>\<open>_block_text\<close> and \<open>_chunk_text\<close> of \<open>harness_middleware.py\<close>\<close>

fun block_text :: "block \<Rightarrow> pystr option" where
  "block_text (TextBlock t) = Some t"
| "block_text OtherBlock = None"

definition chunk_text :: "chunk \<Rightarrow> pystr" where
  "chunk_text c = join [10] (List.map_filter block_text (content c))"

lemma chunk_text_error [simp]: "chunk_text (error_chunk msg) = u ''[error] '' @ u msg"
  by (simp add: chunk_text_def error_chunk_def List.map_filter_simps)

end
