(* ===== verification/Resilience.thy ===== *)
theory Resilience
  imports Redis Transient Tool_Chunk
begin

text \<open>
  \<open>app/infrastructure/resilience.py\<close> and \<open>shared_breaker.py\<close>: the in-process circuit breaker, the
  breaker whose state lives in Redis, and the tool middleware that uses either. The locale
  \<open>circuit_breaker\<close> states the state machine both implement. Clock readings are exact positive
  rationals passed in where the code reads the clock.
\<close>

section \<open>The contract of a breaker\<close>

datatype phase = Closed nat | Open rat | Probing rat

datatype circuit_status = CLOSED | OPEN | HALF_OPEN

record 's registry =
  reg_allow :: "pystr \<Rightarrow> rat \<Rightarrow> 's \<Rightarrow> bool \<times> 's"
  reg_success :: "pystr \<Rightarrow> rat \<Rightarrow> 's \<Rightarrow> 's"
  reg_failure :: "pystr \<Rightarrow> rat \<Rightarrow> 's \<Rightarrow> 's"
  reg_status :: "pystr \<Rightarrow> rat \<Rightarrow> 's \<Rightarrow> circuit_status \<times> 's"

fun permits :: "rat \<Rightarrow> rat \<Rightarrow> phase \<Rightarrow> bool" where
  "permits reset now (Closed n) = True"
| "permits reset now (Open t) = (reset \<le> now - t)"
| "permits reset now (Probing t) = (reset \<le> now - t)"

fun after_allow :: "rat \<Rightarrow> rat \<Rightarrow> phase \<Rightarrow> phase" where
  "after_allow reset now (Closed n) = Closed n"
| "after_allow reset now (Open t) = (if reset \<le> now - t then Probing t else Open t)"
| "after_allow reset now (Probing t) = Probing t"

fun after_failure :: "nat \<Rightarrow> rat \<Rightarrow> phase \<Rightarrow> phase" where
  "after_failure threshold now (Closed n) = (if threshold \<le> n + 1 then Open now else Closed (n + 1))"
| "after_failure threshold now (Open t) = Open now"
| "after_failure threshold now (Probing t) = Open now"

fun status_of :: "phase \<Rightarrow> circuit_status" where
  "status_of (Closed n) = CLOSED"
| "status_of (Open t) = OPEN"
| "status_of (Probing t) = HALF_OPEN"

fun opened :: "phase \<Rightarrow> rat option" where
  "opened (Closed n) = None"
| "opened (Open t) = Some t"
| "opened (Probing t) = Some t"

locale circuit_breaker =
  fixes reg :: "'s registry"
    and phase :: "'s \<Rightarrow> rat \<Rightarrow> pystr \<Rightarrow> phase"
    and inv :: "'s \<Rightarrow> bool"
    and threshold :: nat
    and reset :: rat
  assumes allow_law: "inv s \<Longrightarrow> 0 < now \<Longrightarrow> reg_allow reg k now s = (ok, sa) \<Longrightarrow>
      inv sa \<and> ok = permits reset now (phase s now k) \<and>
      phase sa now k = after_allow reset now (phase s now k) \<and>
      (\<forall>j t. j \<noteq> k \<longrightarrow> phase sa t j = phase s t j)"
    and success_law: "inv s \<Longrightarrow> inv (reg_success reg k now s) \<and>
      phase (reg_success reg k now s) t k = Closed 0 \<and>
      (j \<noteq> k \<longrightarrow> phase (reg_success reg k now s) t j = phase s t j)"
    and failure_law: "inv s \<Longrightarrow> 0 < now \<Longrightarrow> inv (reg_failure reg k now s) \<and>
      phase (reg_failure reg k now s) now k = after_failure threshold now (phase s now k) \<and>
      (j \<noteq> k \<longrightarrow> phase (reg_failure reg k now s) t j = phase s t j)"
    and status_law: "inv s \<Longrightarrow> reg_status reg k now s = (st, ss) \<Longrightarrow>
      inv ss \<and> st = status_of (phase s now k) \<and> phase ss = phase s"
    and cooling_law: "inv s \<Longrightarrow> opened (phase s now k) = Some t \<Longrightarrow> now \<le> now' \<Longrightarrow> now' - t < reset \<Longrightarrow>
      phase s now' k = phase s now k"

section \<open>The in-process breaker\<close>

record circuit_state =
  consecutive_failures :: nat
  opened_at :: "rat option"
  half_open_probing :: bool

definition fresh_state :: circuit_state where
  "fresh_state = \<lparr>consecutive_failures = 0, opened_at = None, half_open_probing = False\<rparr>"

definition circuit_state_status :: "circuit_state \<Rightarrow> circuit_status" where
  "circuit_state_status st =
     (if opened_at st = None then CLOSED else if half_open_probing st then HALF_OPEN else OPEN)"

type_synonym breaker_states = "(pystr, circuit_state) dict"

text \<open>\<open>self._states.setdefault(name, _CircuitState())\<close>\<close>

definition breaker_state :: "pystr \<Rightarrow> breaker_states \<Rightarrow> circuit_state \<times> breaker_states" where
  "breaker_state k d =
     (case map_of d k of
        Some st \<Rightarrow> (st, d)
      | None \<Rightarrow> (fresh_state, AList.update k fresh_state d))"

definition local_status :: "pystr \<Rightarrow> breaker_states \<Rightarrow> circuit_status \<times> breaker_states" where
  "local_status k d = (case breaker_state k d of (st, d') \<Rightarrow> (circuit_state_status st, d'))"

definition local_allow :: "rat \<Rightarrow> pystr \<Rightarrow> rat \<Rightarrow> breaker_states \<Rightarrow> bool \<times> breaker_states" where
  "local_allow reset k now d =
     (case breaker_state k d of (st, d') \<Rightarrow>
        case opened_at st of
          None \<Rightarrow> (True, d')
        | Some t \<Rightarrow>
            if now - t < reset then (False, d')
            else (True, AList.update k (st\<lparr>half_open_probing := True\<rparr>) d'))"

definition local_success :: "pystr \<Rightarrow> breaker_states \<Rightarrow> breaker_states" where
  "local_success k d = AList.update k fresh_state d"

definition local_failure :: "nat \<Rightarrow> pystr \<Rightarrow> rat \<Rightarrow> breaker_states \<Rightarrow> breaker_states" where
  "local_failure threshold k now d =
     (case breaker_state k d of (st, d') \<Rightarrow>
        if half_open_probing st
        then AList.update k (st\<lparr>opened_at := Some now, half_open_probing := False\<rparr>) d'
        else let st' = st\<lparr>consecutive_failures := consecutive_failures st + 1\<rparr>
             in AList.update k
                  (if threshold \<le> consecutive_failures st' then st'\<lparr>opened_at := Some now\<rparr> else st') d')"

definition local_registry :: "nat \<Rightarrow> rat \<Rightarrow> breaker_states registry" where
  "local_registry threshold reset =
     \<lparr>reg_allow = local_allow reset, reg_success = (\<lambda>k now. local_success k),
      reg_failure = local_failure threshold, reg_status = (\<lambda>k now. local_status k)\<rparr>"

definition state_phase :: "circuit_state \<Rightarrow> phase" where
  "state_phase st =
     (case opened_at st of
        None \<Rightarrow> Closed (consecutive_failures st)
      | Some t \<Rightarrow> if half_open_probing st then Probing t else Open t)"

definition local_phase :: "breaker_states \<Rightarrow> rat \<Rightarrow> pystr \<Rightarrow> phase" where
  "local_phase d now k = (case map_of d k of None \<Rightarrow> Closed 0 | Some st \<Rightarrow> state_phase st)"

definition state_ok :: "nat \<Rightarrow> circuit_state \<Rightarrow> bool" where
  "state_ok threshold st \<longleftrightarrow>
     (opened_at st \<noteq> None \<longrightarrow> threshold \<le> consecutive_failures st) \<and>
     (half_open_probing st \<longrightarrow> opened_at st \<noteq> None)"

definition local_inv :: "nat \<Rightarrow> breaker_states \<Rightarrow> bool" where
  "local_inv threshold d \<longleftrightarrow> (\<forall>k st. map_of d k = Some st \<longrightarrow> state_ok threshold st)"

lemma state_ok_fresh [simp]: "state_ok threshold fresh_state" "state_phase fresh_state = Closed 0"
  by (simp_all add: state_ok_def fresh_state_def state_phase_def)

lemma local_inv_update:
  "local_inv threshold d \<Longrightarrow> state_ok threshold st \<Longrightarrow> local_inv threshold (AList.update k st d)"
  by (simp add: local_inv_def map_of_update)

lemma local_phase_update:
  "local_phase (AList.update k st d) now j = (if j = k then state_phase st else local_phase d now j)"
  by (simp add: local_phase_def map_of_update)

lemma breaker_state_spec:
  assumes "local_inv threshold d" "breaker_state k d = (st, d')"
  shows "local_inv threshold d' \<and> state_ok threshold st \<and> state_phase st = local_phase d now k \<and>
    local_phase d' = local_phase d"
proof (cases "map_of d k")
  case None
  with assms(2) have "st = fresh_state" "d' = AList.update k fresh_state d"
    by (auto simp: breaker_state_def)
  with None assms(1) show ?thesis
    by (auto simp: local_inv_update fun_eq_iff local_phase_update) (auto simp: local_phase_def)
next
  case (Some st0)
  with assms show ?thesis by (auto simp: breaker_state_def local_inv_def local_phase_def)
qed

interpretation local: circuit_breaker "local_registry threshold reset" local_phase
  "local_inv threshold" threshold reset for threshold reset
proof unfold_locales
  fix s k now ok sa
  assume inv: "local_inv threshold s" and run: "reg_allow (local_registry threshold reset) k now s = (ok, sa)"
  obtain st d where b: "breaker_state k s = (st, d)" by force
  note sp = breaker_state_spec [OF inv b, of now]
  have ph: "local_phase s now k = state_phase st" using sp by simp
  from sp run b show "local_inv threshold sa \<and> ok = permits reset now (local_phase s now k) \<and>
      local_phase sa now k = after_allow reset now (local_phase s now k) \<and>
      (\<forall>j t. j \<noteq> k \<longrightarrow> local_phase sa t j = local_phase s t j)"
    unfolding ph
    by (cases "opened_at st")
      (auto simp: ph local_registry_def local_allow_def state_phase_def state_ok_def
        local_phase_update intro!: local_inv_update split: if_splits)
next
  fix s k now t j assume "local_inv threshold s"
  then show "local_inv threshold (reg_success (local_registry threshold reset) k now s) \<and>
      local_phase (reg_success (local_registry threshold reset) k now s) t k = Closed 0 \<and>
      (j \<noteq> k \<longrightarrow> local_phase (reg_success (local_registry threshold reset) k now s) t j =
        local_phase s t j)"
    by (simp add: local_registry_def local_success_def local_inv_update local_phase_update)
next
  fix s k now t j assume inv: "local_inv threshold s"
  obtain st d where b: "breaker_state k s = (st, d)" by force
  note sp = breaker_state_spec [OF inv b, of now]
  have ph: "local_phase s now k = state_phase st" using sp by simp
  from sp b show "local_inv threshold (reg_failure (local_registry threshold reset) k now s) \<and>
      local_phase (reg_failure (local_registry threshold reset) k now s) now k =
        after_failure threshold now (local_phase s now k) \<and>
      (j \<noteq> k \<longrightarrow> local_phase (reg_failure (local_registry threshold reset) k now s) t j =
        local_phase s t j)"
    unfolding ph
    by (cases "opened_at st")
      (auto simp: ph local_registry_def local_failure_def state_phase_def state_ok_def Let_def
        local_phase_update intro!: local_inv_update)
next
  fix s k now st ss
  assume inv: "local_inv threshold s"
    and run: "reg_status (local_registry threshold reset) k now s = (st, ss)"
  obtain c d where b: "breaker_state k s = (c, d)" by force
  note sp = breaker_state_spec [OF inv b, of now]
  have ph: "local_phase s now k = state_phase c" using sp by simp
  from sp run b show "local_inv threshold ss \<and> st = status_of (local_phase s now k) \<and> local_phase ss = local_phase s"
    unfolding ph
    by (cases "opened_at c")
      (auto simp: ph local_registry_def local_status_def circuit_state_status_def state_phase_def)
qed (simp add: local_phase_def)

section \<open>The breaker shared through Redis\<close>

text \<open>
  The JSON state of one circuit: \<open>opened_at\<close> is 0 when the circuit is closed. The registry
  also carries the inherited in-process table, which it uses when Redis is not configured.
\<close>

record shared_state =
  sh_failures :: nat
  sh_opened_at :: rat
  sh_half_open :: bool

record shared_breaker =
  sb_cache :: "shared_state redis"
  sb_local :: breaker_states

definition breaker_key :: "pystr \<Rightarrow> pystr" where
  "breaker_key k = u ''crossshop:breaker:'' @ k"

definition shared_ttl :: "rat \<Rightarrow> int" where
  "shared_ttl reset = max 60 \<lfloor>reset * 10\<rfloor>"

definition at_time :: "rat \<Rightarrow> shared_state redis \<Rightarrow> shared_state redis" where
  "at_time now r = r\<lparr>clock := now\<rparr>"

definition shared_load :: "pystr \<Rightarrow> rat \<Rightarrow> shared_breaker \<Rightarrow> shared_state option \<times> shared_breaker" where
  "shared_load k now b = (case get_json (breaker_key k) (at_time now (sb_cache b)) of
     (v, r) \<Rightarrow> (v, b\<lparr>sb_cache := r\<rparr>))"

definition shared_save :: "rat \<Rightarrow> pystr \<Rightarrow> rat \<Rightarrow> shared_state \<Rightarrow> shared_breaker \<Rightarrow> shared_breaker" where
  "shared_save reset k now st b =
     b\<lparr>sb_cache := snd (set_json (breaker_key k) st (of_int (shared_ttl reset)) (at_time now (sb_cache b)))\<rparr>"

definition shared_allow :: "rat \<Rightarrow> pystr \<Rightarrow> rat \<Rightarrow> shared_breaker \<Rightarrow> bool \<times> shared_breaker" where
  "shared_allow reset k now b =
     (if \<not> connected (sb_cache b) then
        (case local_allow reset k now (sb_local b) of (ok, d) \<Rightarrow> (ok, b\<lparr>sb_local := d\<rparr>))
      else (case shared_load k now b of
        (None, b1) \<Rightarrow> (True, b1)
      | (Some st, b1) \<Rightarrow>
          if sh_opened_at st = 0 then (True, b1)
          else if now - sh_opened_at st < reset then (False, b1)
          else (True, shared_save reset k now (st\<lparr>sh_half_open := True\<rparr>) b1)))"

definition shared_success :: "pystr \<Rightarrow> rat \<Rightarrow> shared_breaker \<Rightarrow> shared_breaker" where
  "shared_success k now b =
     (if \<not> connected (sb_cache b) then b\<lparr>sb_local := local_success k (sb_local b)\<rparr>
      else b\<lparr>sb_cache := snd (cache_delete (breaker_key k) (at_time now (sb_cache b)))\<rparr>)"

definition shared_failure :: "nat \<Rightarrow> rat \<Rightarrow> pystr \<Rightarrow> rat \<Rightarrow> shared_breaker \<Rightarrow> shared_breaker" where
  "shared_failure threshold reset k now b =
     (if \<not> connected (sb_cache b) then b\<lparr>sb_local := local_failure threshold k now (sb_local b)\<rparr>
      else (case shared_load k now b of (found, b1) \<Rightarrow>
        let st = (case found of Some st \<Rightarrow> st
                  | None \<Rightarrow> \<lparr>sh_failures = 0, sh_opened_at = 0, sh_half_open = False\<rparr>);
            st' = (if sh_half_open st then st\<lparr>sh_opened_at := now, sh_half_open := False\<rparr>
                   else let st1 = st\<lparr>sh_failures := sh_failures st + 1\<rparr>
                        in if threshold \<le> sh_failures st1 then st1\<lparr>sh_opened_at := now\<rparr> else st1)
        in shared_save reset k now st' b1))"

definition shared_status :: "pystr \<Rightarrow> rat \<Rightarrow> shared_breaker \<Rightarrow> circuit_status \<times> shared_breaker" where
  "shared_status k now b =
     (if \<not> connected (sb_cache b) then
        (case local_status k (sb_local b) of (st, d) \<Rightarrow> (st, b\<lparr>sb_local := d\<rparr>))
      else (case shared_load k now b of
        (None, b1) \<Rightarrow> (CLOSED, b1)
      | (Some st, b1) \<Rightarrow>
          (if sh_opened_at st = 0 then CLOSED else if sh_half_open st then HALF_OPEN else OPEN, b1)))"

definition shared_registry :: "nat \<Rightarrow> rat \<Rightarrow> shared_breaker registry" where
  "shared_registry threshold reset =
     \<lparr>reg_allow = shared_allow reset, reg_success = shared_success,
      reg_failure = shared_failure threshold reset, reg_status = shared_status\<rparr>"

section \<open>The shared breaker meets the contract\<close>

definition shared_phase_of :: "shared_state \<Rightarrow> phase" where
  "shared_phase_of st =
     (if sh_opened_at st = 0 then Closed (sh_failures st)
      else if sh_half_open st then Probing (sh_opened_at st) else Open (sh_opened_at st))"

definition shared_cell :: "shared_breaker \<Rightarrow> rat \<Rightarrow> pystr \<Rightarrow> shared_state cell option" where
  "shared_cell b now k = live (at_time now (sb_cache b)) (breaker_key k)"

definition shared_phase :: "shared_breaker \<Rightarrow> rat \<Rightarrow> pystr \<Rightarrow> phase" where
  "shared_phase b now k =
     (case shared_cell b now k of Some (Json st) \<Rightarrow> shared_phase_of st | _ \<Rightarrow> Closed 0)"

text \<open>Redis answers, and every circuit key holds a state that outlives its cooling period.\<close>

definition shared_state_ok :: "nat \<Rightarrow> rat \<Rightarrow> shared_state \<Rightarrow> rat \<Rightarrow> bool" where
  "shared_state_ok threshold reset st expires \<longleftrightarrow>
     (sh_opened_at st \<noteq> 0 \<longrightarrow> threshold \<le> sh_failures st \<and>
        sh_opened_at st + reset \<le> expires) \<and>
     (sh_half_open st \<longrightarrow> sh_opened_at st \<noteq> 0)"

definition shared_inv :: "nat \<Rightarrow> rat \<Rightarrow> shared_breaker \<Rightarrow> bool" where
  "shared_inv threshold reset b \<longleftrightarrow> healthy (sb_cache b) \<and>
     (\<forall>k c e. map_of (cells (sb_cache b)) (breaker_key k) = Some (c, e) \<longrightarrow>
        (\<exists>st. c = Json st \<and> shared_state_ok threshold reset st e))"

lemma breaker_key_inject [simp]: "breaker_key j = breaker_key k \<longleftrightarrow> j = k"
  by (simp add: breaker_key_def)

lemma reset_le_ttl: "reset \<le> of_int (shared_ttl reset)"
proof (cases "reset \<le> 60")
  case True
  have "of_int 60 \<le> (of_int (shared_ttl reset) :: rat)"
    by (simp only: of_int_le_iff shared_ttl_def max.cobounded1)
  with True show ?thesis by simp
next
  case False
  have "reset * 10 < of_int \<lfloor>reset * 10\<rfloor> + 1" by linarith
  with False have "reset \<le> of_int \<lfloor>reset * 10\<rfloor>" by linarith
  moreover have "of_int \<lfloor>reset * 10\<rfloor> \<le> (of_int (shared_ttl reset) :: rat)"
    by (simp only: of_int_le_iff shared_ttl_def max.cobounded2)
  ultimately show ?thesis by linarith
qed

lemma shared_load_eq:
  assumes "shared_inv threshold reset b"
  obtains st where "shared_load k now b = (Some st, b\<lparr>sb_cache := at_time now (sb_cache b)\<rparr>)"
      "shared_cell b now k = Some (Json st)" "shared_phase b now k = shared_phase_of st"
      "sh_opened_at st \<noteq> 0 \<longrightarrow> threshold \<le> sh_failures st" "sh_half_open st \<longrightarrow> sh_opened_at st \<noteq> 0"
  | "shared_load k now b = (None, b\<lparr>sb_cache := at_time now (sb_cache b)\<rparr>)"
      "shared_cell b now k = None" "shared_phase b now k = Closed 0"
proof (cases "shared_cell b now k")
  case None
  moreover have "healthy (at_time now (sb_cache b))" using assms by (simp add: shared_inv_def at_time_def)
  ultimately show ?thesis
    using that(2) by (simp add: shared_load_def shared_cell_def get_json_healthy shared_phase_def)
next
  case (Some c)
  then obtain e where e: "map_of (cells (sb_cache b)) (breaker_key k) = Some (c, e)"
    by (auto simp: shared_cell_def live_def at_time_def split: option.splits if_splits)
  with assms obtain st where st: "c = Json st" "shared_state_ok threshold reset st e"
    unfolding shared_inv_def by blast
  have "healthy (at_time now (sb_cache b))" using assms by (simp add: shared_inv_def at_time_def)
  with Some st show ?thesis
    using that(1) [of st]
    by (simp add: shared_load_def shared_cell_def get_json_healthy shared_phase_def shared_state_ok_def)
qed

lemma ttl_pos: "0 < (of_int (shared_ttl reset) :: rat)"
proof -
  have "0 < shared_ttl reset" by (simp add: shared_ttl_def max_def)
  then show ?thesis by simp
qed

lemma at_time_simps [simp]:
  "at_time t (at_time now r) = at_time t r" "cells (at_time now r) = cells r"
  "healthy (at_time now r) = healthy r" "clock (at_time now r) = now"
  "connected (at_time now r) = connected r"
  by (simp_all add: at_time_def healthy_def)

lemma shared_inv_connected: "shared_inv threshold reset b \<Longrightarrow> connected (sb_cache b)"
  by (simp add: shared_inv_def healthy_def)

lemma shared_inv_time: "shared_inv threshold reset b \<Longrightarrow>
    shared_inv threshold reset (b\<lparr>sb_cache := at_time now (sb_cache b)\<rparr>)"
  by (simp add: shared_inv_def)

lemma shared_phase_time: "shared_phase (b\<lparr>sb_cache := at_time now (sb_cache b)\<rparr>) = shared_phase b"
  by (simp add: shared_phase_def shared_cell_def fun_eq_iff)

lemma shared_save_cells:
  assumes "shared_inv threshold reset b"
  shows "sb_cache (shared_save reset k now st b) =
    store (breaker_key k) (Json st) (of_int (shared_ttl reset)) (at_time now (sb_cache b))"
  using assms by (simp add: shared_save_def shared_inv_def set_json_healthy)

lemma live_cells: "live (at_time now r) k = (case map_of (cells r) k of
    None \<Rightarrow> None | Some (c, e) \<Rightarrow> if now < e then Some c else None)"
  by (auto simp: live_def split: option.split)

lemma shared_save_spec:
  assumes inv: "shared_inv threshold reset b"
    and ok: "shared_state_ok threshold reset st (now + of_int (shared_ttl reset))"
  shows "shared_inv threshold reset (shared_save reset k now st b) \<and>
    shared_phase (shared_save reset k now st b) now k = shared_phase_of st \<and>
    (\<forall>j t. j \<noteq> k \<longrightarrow> shared_phase (shared_save reset k now st b) t j = shared_phase b t j)"
proof -
  let ?b = "shared_save reset k now st b"
  have c: "map_of (cells (sb_cache ?b)) =
      (map_of (cells (sb_cache b)))(breaker_key k \<mapsto> (Json st, now + of_int (shared_ttl reset)))"
    by (simp add: shared_save_cells [OF inv] store_def map_of_update)
  have "healthy (sb_cache ?b)" using inv by (simp add: shared_save_cells [OF inv] shared_inv_def)
  then have "shared_inv threshold reset ?b" using inv ok by (auto simp: shared_inv_def c)
  moreover have "shared_phase ?b now k = shared_phase_of st"
    using ttl_pos [of reset] by (simp add: shared_phase_def shared_cell_def live_cells c)
  ultimately show ?thesis by (simp add: shared_phase_def shared_cell_def live_cells c)
qed

lemma shared_success_spec:
  assumes inv: "shared_inv threshold reset b"
  shows "shared_inv threshold reset (shared_success k now b) \<and>
    shared_phase (shared_success k now b) t k = Closed 0 \<and>
    (j \<noteq> k \<longrightarrow> shared_phase (shared_success k now b) t j = shared_phase b t j)"
proof -
  let ?b = "shared_success k now b"
  have "healthy (sb_cache b)" using inv by (simp add: shared_inv_def)
  then have b: "sb_cache ?b = drop_key (breaker_key k) (at_time now (sb_cache b))"
    using shared_inv_connected [OF inv] by (simp add: shared_success_def delete_healthy)
  have c: "map_of (cells (sb_cache ?b)) = (map_of (cells (sb_cache b)))(breaker_key k := None)"
    by (simp add: b drop_key_def map_of_delete)
  have "healthy (sb_cache ?b)" using \<open>healthy (sb_cache b)\<close> by (simp add: b)
  then have "shared_inv threshold reset ?b"
    using inv by (auto simp: shared_inv_def c split: if_splits)
  then show ?thesis by (simp add: shared_phase_def shared_cell_def live_cells c)
qed

lemma shared_phase_opened:
  "opened (shared_phase_of st) = (if sh_opened_at st = 0 then None else Some (sh_opened_at st))"
  by (simp add: shared_phase_of_def)

interpretation shared: circuit_breaker "shared_registry threshold reset" shared_phase
  "shared_inv threshold reset" threshold reset for threshold reset
proof unfold_locales
  fix b k and now :: rat and ok ba
  assume inv: "shared_inv threshold reset b" and now: "0 < now"
    and run: "reg_allow (shared_registry threshold reset) k now b = (ok, ba)"
  note conn = shared_inv_connected [OF inv]
  let ?b1 = "b\<lparr>sb_cache := at_time now (sb_cache b)\<rparr>"
  note inv1 = shared_inv_time [OF inv, of now]
  show "shared_inv threshold reset ba \<and> ok = permits reset now (shared_phase b now k) \<and>
      shared_phase ba now k = after_allow reset now (shared_phase b now k) \<and>
      (\<forall>j t. j \<noteq> k \<longrightarrow> shared_phase ba t j = shared_phase b t j)"
  proof (rule shared_load_eq [OF inv, of k now])
    fix st assume ld: "shared_load k now b = (Some st, ?b1)"
      and ph: "shared_phase b now k = shared_phase_of st"
      and th: "sh_opened_at st \<noteq> 0 \<longrightarrow> threshold \<le> sh_failures st"
    show ?thesis
    proof (cases "sh_opened_at st \<noteq> 0 \<and> reset \<le> now - sh_opened_at st")
      case True
      have t: "now - sh_opened_at st < reset \<longleftrightarrow> False" using True by simp
      have "shared_state_ok threshold reset (st\<lparr>sh_half_open := True\<rparr>)
          (now + of_int (shared_ttl reset))"
        using True th ttl_pos [of reset] by (simp add: shared_state_ok_def)
      from shared_save_spec [OF inv1 this, of k] show ?thesis
        using run ld conn True t ph
        by (auto simp: shared_registry_def shared_allow_def shared_phase_time shared_phase_of_def)
    next
      case False
      then show ?thesis
        using run ld conn ph inv1
        by (auto simp: shared_registry_def shared_allow_def shared_phase_time shared_phase_of_def
            split: if_splits)
    qed
  next
    assume "shared_load k now b = (None, ?b1)" "shared_phase b now k = Closed 0"
    then show ?thesis
      using run conn inv1 by (auto simp: shared_registry_def shared_allow_def shared_phase_time)
  qed
next
  fix b k now t j assume "shared_inv threshold reset b"
  from shared_success_spec [OF this]
  show "shared_inv threshold reset (reg_success (shared_registry threshold reset) k now b) \<and>
      shared_phase (reg_success (shared_registry threshold reset) k now b) t k = Closed 0 \<and>
      (j \<noteq> k \<longrightarrow> shared_phase (reg_success (shared_registry threshold reset) k now b) t j =
        shared_phase b t j)"
    by (simp add: shared_registry_def)
next
  fix b k and now :: rat and t j
  assume inv: "shared_inv threshold reset b" and now: "0 < now"
  note conn = shared_inv_connected [OF inv]
  let ?b1 = "b\<lparr>sb_cache := at_time now (sb_cache b)\<rparr>"
  note inv1 = shared_inv_time [OF inv, of now]
  let ?G = "\<lambda>x. shared_inv threshold reset x \<and>
      shared_phase x now k = after_failure threshold now (shared_phase b now k) \<and>
      (j \<noteq> k \<longrightarrow> shared_phase x t j = shared_phase b t j)"
  show "?G (reg_failure (shared_registry threshold reset) k now b)"
  proof (rule shared_load_eq [OF inv, of k now])
    fix st assume ld: "shared_load k now b = (Some st, ?b1)"
      and ph: "shared_phase b now k = shared_phase_of st"
      and th: "sh_opened_at st \<noteq> 0 \<longrightarrow> threshold \<le> sh_failures st"
      and hp: "sh_half_open st \<longrightarrow> sh_opened_at st \<noteq> 0"
    let ?st = "if sh_half_open st then st\<lparr>sh_opened_at := now, sh_half_open := False\<rparr>
      else if threshold \<le> sh_failures st + 1
           then st\<lparr>sh_failures := sh_failures st + 1, sh_opened_at := now\<rparr>
           else st\<lparr>sh_failures := sh_failures st + 1\<rparr>"
    have ok: "shared_state_ok threshold reset ?st (now + of_int (shared_ttl reset))"
      using th hp now reset_le_ttl [of reset] by (auto simp: shared_state_ok_def)
    have run: "reg_failure (shared_registry threshold reset) k now b = shared_save reset k now ?st ?b1"
      using ld conn by (simp add: shared_registry_def shared_failure_def Let_def)
    show ?thesis
      using shared_save_spec [OF inv1 ok, of k] th hp now ph
      by (auto simp: run shared_phase_time shared_phase_of_def)
  next
    assume ld: "shared_load k now b = (None, ?b1)" and ph: "shared_phase b now k = Closed 0"
    let ?st = "if threshold \<le> 1 then \<lparr>sh_failures = 1, sh_opened_at = now, sh_half_open = False\<rparr>
      else \<lparr>sh_failures = 1, sh_opened_at = 0, sh_half_open = False\<rparr>"
    have ok: "shared_state_ok threshold reset ?st (now + of_int (shared_ttl reset))"
      using reset_le_ttl [of reset] by (auto simp: shared_state_ok_def)
    have run: "reg_failure (shared_registry threshold reset) k now b = shared_save reset k now ?st ?b1"
      using ld conn by (simp add: shared_registry_def shared_failure_def Let_def)
    show ?thesis
      using shared_save_spec [OF inv1 ok, of k] now ph
      by (auto simp: run shared_phase_time shared_phase_of_def)
  qed
next
  fix b k now st bs
  assume inv: "shared_inv threshold reset b"
    and run: "reg_status (shared_registry threshold reset) k now b = (st, bs)"
  show "shared_inv threshold reset bs \<and> st = status_of (shared_phase b now k) \<and>
      shared_phase bs = shared_phase b"
  proof (rule shared_load_eq [OF inv, of k now])
    fix c assume "shared_load k now b = (Some c, b\<lparr>sb_cache := at_time now (sb_cache b)\<rparr>)"
      "shared_phase b now k = shared_phase_of c"
    then show ?thesis
      using run shared_inv_time [OF inv, of now] shared_inv_connected [OF inv]
      by (auto simp: shared_registry_def shared_status_def shared_phase_time shared_phase_of_def)
  next
    assume "shared_load k now b = (None, b\<lparr>sb_cache := at_time now (sb_cache b)\<rparr>)"
      "shared_phase b now k = Closed 0"
    then show ?thesis
      using run shared_inv_time [OF inv, of now] shared_inv_connected [OF inv]
      by (auto simp: shared_registry_def shared_status_def shared_phase_time)
  qed
next
  fix b k now t and now' :: rat
  assume inv: "shared_inv threshold reset b" and op: "opened (shared_phase b now k) = Some t"
    and le: "now \<le> now'" "now' - t < reset"
  then obtain st where c: "shared_cell b now k = Some (Json st)"
    and t: "shared_phase b now k = shared_phase_of st" "t = sh_opened_at st" "sh_opened_at st \<noteq> 0"
    by (auto simp: shared_phase_def shared_phase_opened split: option.splits cell.splits if_splits)
  then obtain e where e: "map_of (cells (sb_cache b)) (breaker_key k) = Some (Json st, e)"
    by (auto simp: shared_cell_def live_cells split: option.splits if_splits)
  with inv have "shared_state_ok threshold reset st e" unfolding shared_inv_def by blast
  with t have "t + reset \<le> e" by (simp add: shared_state_ok_def)
  with le have "now' < e" by linarith
  then have "shared_cell b now' k = Some (Json st)" by (simp add: shared_cell_def live_cells e)
  then show "shared_phase b now' k = shared_phase b now k"
    using t by (simp add: shared_phase_def)
qed

section \<open>The tool middleware\<close>

text \<open>
  \<open>handler\<close> is the rest of the tool chain: given the time limit in force, it collects all chunks,
  is interrupted, or raises.
\<close>

datatype tool_outcome = Collected "chunk list" | TimedOut | Raised "exc list" nat

datatype failure = ErrorChunk | TimeoutFailure | ExceptionFailure "exc list" nat

record circuit_event =
  ce_tool :: pystr
  ce_key :: pystr
  ce_circuit :: circuit_status
  ce_error :: pystr

record middleware =
  mw_timeouts :: "(pystr, rat) dict"
  mw_has_bus :: bool
  fixed_product_platform :: "pystr option"
  timeout_enforced :: bool

definition PRODUCT_TOOL :: pystr where "PRODUCT_TOOL = u ''product_search_tool''"

definition DEFAULT_TIMEOUTS :: "(pystr, rat) dict" where
  "DEFAULT_TIMEOUTS =
     [(PRODUCT_TOOL, 130), (u ''category_insight_tool'', 15), (u ''web_search_tool'', 20),
      (u ''create_order_tool'', 10), (u ''query_order_tool'', 10), (u ''cancel_order_tool'', 10),
      (u ''remember_preference_tool'', 10), (u ''task_dispatch'', 180)]"

definition FALLBACK_TIMEOUT :: rat where "FALLBACK_TIMEOUT = 30"

definition timeout_for :: "middleware \<Rightarrow> pystr \<Rightarrow> rat" where
  "timeout_for mw tool = (case map_of (mw_timeouts mw) tool of None \<Rightarrow> FALLBACK_TIMEOUT | Some t \<Rightarrow> t)"

definition or_else :: "pystr option \<Rightarrow> pystr option \<Rightarrow> pystr option" where
  "or_else a b = (case a of Some s \<Rightarrow> if s = [] then b else a | None \<Rightarrow> b)"

definition circuit_key :: "middleware \<Rightarrow> pystr \<Rightarrow> pystr option \<Rightarrow> pystr" where
  "circuit_key mw tool arg_platform =
     (if tool \<noteq> PRODUCT_TOOL then tool
      else tool @ u '':'' @
        (case or_else (fixed_product_platform mw) arg_platform of
           None \<Rightarrow> u ''unbound''
         | Some p \<Rightarrow> if p = [] then u ''unbound'' else p))"

definition counts_as_failure :: "pystr \<Rightarrow> failure \<Rightarrow> bool" where
  "counts_as_failure tool err =
     (if tool \<noteq> PRODUCT_TOOL then True
      else case err of
             TimeoutFailure \<Rightarrow> True
           | ExceptionFailure heap e \<Rightarrow> is_retryable_dependency_error heap e
           | ErrorChunk \<Rightarrow> False)"

definition publish_circuit ::
  "middleware \<Rightarrow> pystr \<Rightarrow> pystr \<Rightarrow> circuit_status \<Rightarrow> string \<Rightarrow> circuit_event list" where
  "publish_circuit mw tool key circuit msg =
     (if \<not> mw_has_bus mw then []
      else [\<lparr>ce_tool = tool, ce_key = key, ce_circuit = circuit, ce_error = u msg\<rparr>])"

definition failed_call :: "'s registry \<Rightarrow> middleware \<Rightarrow> pystr \<Rightarrow> pystr \<Rightarrow> failure \<Rightarrow> string \<Rightarrow> rat \<Rightarrow>
    's \<Rightarrow> chunk list \<times> circuit_event list \<times> 's" where
  "failed_call reg mw tool key err msg later s =
     (let s1 = (if counts_as_failure tool err then reg_failure reg key later s else s)
      in case reg_status reg key later s1 of (st, s2) \<Rightarrow>
           ([error_chunk msg], publish_circuit mw tool key st msg, s2))"

definition on_tool_call :: "'s registry \<Rightarrow> middleware \<Rightarrow> (rat option \<Rightarrow> 'w \<Rightarrow> tool_outcome \<times> 'w) \<Rightarrow>
    pystr \<Rightarrow> pystr option \<Rightarrow> rat \<Rightarrow> rat \<Rightarrow> 's \<Rightarrow> 'w \<Rightarrow> chunk list \<times> circuit_event list \<times> 's \<times> 'w" where
  "on_tool_call reg mw handler tool arg_platform now later s w =
     (let key = circuit_key mw tool arg_platform
      in case reg_allow reg key now s of
           (False, s1) \<Rightarrow>
             ([error_chunk ''circuit open''], publish_circuit mw tool key OPEN ''circuit open'', s1, w)
         | (True, s1) \<Rightarrow>
             (case handler (if timeout_enforced mw then Some (timeout_for mw tool) else None) w of
                (outcome, w1) \<Rightarrow>
                  (case outcome of
                     TimedOut \<Rightarrow>
                       (case failed_call reg mw tool key TimeoutFailure ''timeout'' later s1 of
                          (cs, evs, s2) \<Rightarrow> (cs, evs, s2, w1))
                   | Raised heap e \<Rightarrow>
                       (case failed_call reg mw tool key (ExceptionFailure heap e) ''exception'' later s1 of
                          (cs, evs, s2) \<Rightarrow> (cs, evs, s2, w1))
                   | Collected chunks \<Rightarrow>
                       (if chunks \<noteq> [] \<and> chunk_error (last chunks)
                        then (chunks, [],
                              if counts_as_failure tool ErrorChunk then reg_failure reg key later s1 else s1, w1)
                        else (chunks, [], reg_success reg key later s1, w1)))))"

text \<open>What one call does to the circuit, in terms of the abstract phases.\<close>

fun outcome_phase :: "nat \<Rightarrow> rat \<Rightarrow> pystr \<Rightarrow> tool_outcome \<Rightarrow> phase \<Rightarrow> phase" where
  "outcome_phase threshold later tool TimedOut p = after_failure threshold later p"
| "outcome_phase threshold later tool (Raised heap e) p =
     (if counts_as_failure tool (ExceptionFailure heap e) then after_failure threshold later p else p)"
| "outcome_phase threshold later tool (Collected chunks) p =
     (if chunks \<noteq> [] \<and> chunk_error (last chunks)
      then if tool \<noteq> PRODUCT_TOOL then after_failure threshold later p else p
      else Closed 0)"

lemma counts_simps [simp]:
  "counts_as_failure tool TimeoutFailure" "counts_as_failure tool ErrorChunk \<longleftrightarrow> tool \<noteq> PRODUCT_TOOL"
  by (simp_all add: counts_as_failure_def)

context circuit_breaker
begin

lemma failed_call_phase:
  assumes inv: "inv s" and t: "0 < later"
    and run: "failed_call reg mw tool k err msg later s = (cs, evs, s')"
  shows "inv s' \<and> cs = [error_chunk msg] \<and>
    phase s' later k = (if counts_as_failure tool err then after_failure threshold later (phase s later k)
                        else phase s later k) \<and>
    (\<forall>j. j \<noteq> k \<longrightarrow> phase s' later j = phase s later j)"
proof -
  let ?s1 = "if counts_as_failure tool err then reg_failure reg k later s else s"
  have s1: "inv ?s1" "phase ?s1 later k = (if counts_as_failure tool err
        then after_failure threshold later (phase s later k) else phase s later k)"
    "\<forall>j. j \<noteq> k \<longrightarrow> phase ?s1 later j = phase s later j"
    using failure_law [OF inv t, where k = k and t = later] inv by auto
  obtain st s2 where st: "reg_status reg k later ?s1 = (st, s2)" by force
  from status_law [OF s1(1) st] s1 run st show ?thesis by (auto simp: failed_call_def Let_def)
qed

lemma short_circuit:
  assumes "inv s" "0 < now" "\<not> permits reset now (phase s now (circuit_key mw tool pf))"
    and "on_tool_call reg mw handler tool pf now later s w = (cs, evs, s', w')"
  shows "cs = [error_chunk ''circuit open''] \<and> w' = w \<and> inv s' \<and>
    phase s' now (circuit_key mw tool pf) = phase s now (circuit_key mw tool pf)"
proof -
  let ?k = "circuit_key mw tool pf"
  obtain ok s1 where a: "reg_allow reg ?k now s = (ok, s1)" by force
  note al = allow_law [OF assms(1,2) a]
  have "after_allow reset now (phase s now ?k) = phase s now ?k"
    using assms(3) by (cases "phase s now ?k") auto
  then show ?thesis using al assms(3,4) a by (auto simp: on_tool_call_def Let_def)
qed

lemma call_through:
  assumes inv: "inv s" and t: "0 < now" "0 < later"
    and perm: "permits reset now (phase s now (circuit_key mw tool pf))"
    and h: "handler (if timeout_enforced mw then Some (timeout_for mw tool) else None) w = (outcome, w1)"
    and run: "on_tool_call reg mw handler tool pf now later s w = (cs, evs, s', w')"
  obtains s1 where "reg_allow reg (circuit_key mw tool pf) now s = (True, s1)" "inv s1" "inv s'" "w' = w1"
    "phase s' later (circuit_key mw tool pf) =
       outcome_phase threshold later tool outcome (phase s1 later (circuit_key mw tool pf))"
    "cs = (case outcome of Collected chunks \<Rightarrow> chunks | TimedOut \<Rightarrow> [error_chunk ''timeout'']
           | Raised heap e \<Rightarrow> [error_chunk ''exception''])"
    "\<And>j. j \<noteq> circuit_key mw tool pf \<Longrightarrow> phase s' later j = phase s later j"
proof -
  let ?k = "circuit_key mw tool pf"
  obtain ok s1 where a: "reg_allow reg ?k now s = (ok, s1)" by force
  note al = allow_law [OF inv t(1) a]
  with perm a have a: "reg_allow reg ?k now s = (True, s1)" and inv1: "inv s1"
    and fr: "\<And>j t. j \<noteq> ?k \<Longrightarrow> phase s1 t j = phase s t j" by auto
  show thesis
  proof (cases outcome)
    case (Collected chunks)
    then show thesis
      using that [OF a inv1] run a h fr success_law [OF inv1, where k = ?k and t = later]
        failure_law [OF inv1 t(2), where k = ?k and t = later] inv1
      by (auto simp: on_tool_call_def Let_def split: if_splits)
  next
    case TimedOut
    obtain c e s2 where fc: "failed_call reg mw tool ?k TimeoutFailure ''timeout'' later s1 = (c, e, s2)"
      by (cases "failed_call reg mw tool ?k TimeoutFailure ''timeout'' later s1") auto
    from failed_call_phase [OF inv1 t(2) fc] TimedOut show thesis
      using that [OF a inv1] run a h fr fc by (auto simp: on_tool_call_def Let_def)
  next
    case (Raised heap x)
    obtain c e s2 where fc: "failed_call reg mw tool ?k (ExceptionFailure heap x) ''exception'' later s1
        = (c, e, s2)"
      by (cases "failed_call reg mw tool ?k (ExceptionFailure heap x) ''exception'' later s1") auto
    from failed_call_phase [OF inv1 t(2) fc] Raised show thesis
      using that [OF a inv1] run a h fr fc by (auto simp: on_tool_call_def Let_def)
  qed
qed

end

section \<open>Properties\<close>

lemma local_inv_empty: "local_inv threshold []"
  by (simp add: local_inv_def)

lemma local_phase_any_time: "local_phase d now k = local_phase d now' k"
  by (simp add: local_phase_def)

definition after_failures :: "nat \<Rightarrow> rat \<Rightarrow> pystr \<Rightarrow> rat list \<Rightarrow> breaker_states" where
  "after_failures threshold reset k ts =
     fold (\<lambda>t d. reg_failure (local_registry threshold reset) k t d) ts []"

lemma after_failures_inv:
  "list_all (\<lambda>t. 0 < t) ts \<Longrightarrow> local_inv threshold (after_failures threshold reset k ts)"
proof (induction ts rule: rev_induct)
  case Nil
  then show ?case by (simp add: after_failures_def local_inv_empty)
next
  case (snoc t ts)
  then show ?case
    using local.failure_law [where threshold = threshold and reset = reset and k = k and now = t
        and s = "after_failures threshold reset k ts"]
    by (simp add: after_failures_def)
qed

text \<open>Also: The in-process breaker trips after exactly \<open>threshold\<close> consecutive failures: with fewer the
  circuit is closed and has counted them, from then on it is open since the last failure, so that
  every call in the following \<open>reset\<close> seconds is refused.\<close>

theorem breaker_trips:
  assumes "list_all (\<lambda>t. 0 < t) ts" "ts \<noteq> []" "0 < now"
  shows "local_phase (after_failures threshold reset k ts) now k =
      (if length ts < threshold then Closed (length ts) else Open (last ts)) \<and>
    (threshold \<le> length ts \<longrightarrow> now - last ts < reset \<longrightarrow>
      \<not> fst (local_allow reset k now (after_failures threshold reset k ts)))"
proof -
  have ph: "local_phase (after_failures threshold reset k ts) now k =
      (if length ts < threshold then Closed (length ts) else Open (last ts))"
    using assms(1,2)
  proof (induction ts rule: rev_induct)
    case (snoc t ts)
    let ?d = "after_failures threshold reset k ts"
    have inv: "local_inv threshold ?d" using snoc.prems by (intro after_failures_inv) simp
    have step: "local_phase (after_failures threshold reset k (ts @ [t])) now k =
        after_failure threshold t (local_phase ?d now k)"
      using local.failure_law [OF inv, where now = t and k = k and reset = reset] snoc.prems
        local_phase_any_time [of _ now k t]
      by (simp add: after_failures_def)
    show ?case
    proof (cases "ts = []")
      case True
      then show ?thesis using step by (simp add: after_failures_def local_phase_def)
    next
      case False
      with snoc step show ?thesis by auto
    qed
  qed simp
  obtain ok sa where a: "local_allow reset k now (after_failures threshold reset k ts) = (ok, sa)"
    by force
  have "ok = permits reset now (local_phase (after_failures threshold reset k ts) now k)"
    using local.allow_law [OF after_failures_inv [OF assms(1)] assms(3), where reset = reset and k = k and ok = ok and sa = sa] a
    by (simp add: local_registry_def)
  with ph a show ?thesis by auto
qed

lemma breaker_trips_witness:
  "local_phase (after_failures 3 60 (u ''query_order_tool'') [10, 20, 30]) 40 (u ''query_order_tool'') = Open 30 \<and>
   \<not> fst (local_allow 60 (u ''query_order_tool'') 40
     (after_failures 3 60 (u ''query_order_tool'') [10, 20, 30]))"
  using breaker_trips [of "[10, 20, 30]" 40 3 60 "u ''query_order_tool''"] by simp

text \<open>Also: While a circuit in Redis is cooling down no tool runs: whichever instance opened it and whatever
  its phase, for \<open>reset\<close> seconds after the opening a call returns the single degraded chunk
  without touching the tool, and the entry cannot expire before the cooling period is over.\<close>

theorem shared_breaker_short_circuits:
  assumes "shared_inv threshold reset b" "0 < now0" "now0 \<le> now" "now - t < reset"
    and "opened (shared_phase b now0 (circuit_key mw tool pf)) = Some t"
    and "on_tool_call (shared_registry threshold reset) mw handler tool pf now later b w = (cs, evs, b', w')"
  shows "cs = [error_chunk ''circuit open''] \<and> w' = w \<and> shared_inv threshold reset b' \<and>
    opened (shared_phase b' now (circuit_key mw tool pf)) = Some t"
proof -
  let ?k = "circuit_key mw tool pf"
  have ph: "shared_phase b now ?k = shared_phase b now0 ?k"
    by (rule shared.cooling_law [OF assms(1,5,3,4)])
  have perm: "\<not> permits reset now (shared_phase b now ?k)"
    using assms(4,5) by (cases "shared_phase b now0 ?k") (auto simp: ph)
  have "0 < now" using assms(2,3) by linarith
  from shared.short_circuit [OF assms(1) this perm assms(6)] assms(5) ph show ?thesis by simp
qed

definition ex_redis :: "shared_state redis" where
  "ex_redis = \<lparr>cells = [], clock = 0, command_fails = [], connected = True, parse_text = (\<lambda>t. None)\<rparr>"

definition ex_mw :: middleware where
  "ex_mw = \<lparr>mw_timeouts = DEFAULT_TIMEOUTS, mw_has_bus = True, fixed_product_platform = Some (u ''amazon''),
     timeout_enforced = True\<rparr>"

definition ex_open :: shared_breaker where
  "ex_open = reg_failure (shared_registry 1 60) (circuit_key ex_mw PRODUCT_TOOL None) 100
     \<lparr>sb_cache = ex_redis, sb_local = []\<rparr>"

lemma ex_open_facts:
  "shared_inv 1 60 ex_open"
  "opened (shared_phase ex_open 100 (circuit_key ex_mw PRODUCT_TOOL None)) = Some 100"
proof -
  have inv: "shared_inv 1 60 \<lparr>sb_cache = ex_redis, sb_local = []\<rparr>"
    by (simp add: shared_inv_def ex_redis_def healthy_def)
  have "shared_phase \<lparr>sb_cache = ex_redis, sb_local = []\<rparr> 100 k = Closed 0" for k
    by (simp add: shared_phase_def shared_cell_def live_cells ex_redis_def)
  with shared.failure_law [OF inv, where now = 100 and k = "circuit_key ex_mw PRODUCT_TOOL None"]
  show "shared_inv 1 60 ex_open"
    "opened (shared_phase ex_open 100 (circuit_key ex_mw PRODUCT_TOOL None)) = Some 100"
    by (simp_all add: ex_open_def)
qed

lemma shared_breaker_short_circuits_witness:
  "fst (on_tool_call (shared_registry 1 60) ex_mw (\<lambda>limit n. (TimedOut, Suc n)) PRODUCT_TOOL None 150 150
     ex_open 0) = [error_chunk ''circuit open''] \<and>
   snd (snd (snd (on_tool_call (shared_registry 1 60) ex_mw (\<lambda>limit n. (TimedOut, Suc n)) PRODUCT_TOOL None
     150 150 ex_open 0))) = 0"
proof -
  obtain cs evs b' w' where run: "on_tool_call (shared_registry 1 60) ex_mw (\<lambda>limit n. (TimedOut, Suc n))
      PRODUCT_TOOL None 150 150 ex_open 0 = (cs, evs, b', w')"
    by (metis prod.exhaust)
  from shared_breaker_short_circuits [OF ex_open_facts(1) _ _ _ ex_open_facts(2) run] run
  show ?thesis by simp
qed

text \<open>C32: What one admitted call does to its circuit, on the in-process breaker. The tool runs exactly
  once under its own time limit; a time-out, an exception or a final error chunk counts as one
  failure, except that for the product tool only time-outs and retryable dependency errors count;
  any other outcome closes the circuit and clears the count. The caller gets all the chunks of a call
  that ended, one degraded chunk otherwise, and the circuits of other tools and platforms
  do not move.\<close>

theorem tool_call_effect:
  assumes "local_inv threshold d" "0 < now" "0 < later"
    and "permits reset now (local_phase d now (circuit_key mw tool pf))"
    and "handler (if timeout_enforced mw then Some (timeout_for mw tool) else None) w = (outcome, w1)"
    and "on_tool_call (local_registry threshold reset) mw handler tool pf now later d w = (cs, evs, d', w')"
  shows "w' = w1 \<and> local_inv threshold d' \<and>
    local_phase d' later (circuit_key mw tool pf) = outcome_phase threshold later tool outcome
      (after_allow reset now (local_phase d now (circuit_key mw tool pf))) \<and>
    cs = (case outcome of Collected chunks \<Rightarrow> chunks | TimedOut \<Rightarrow> [error_chunk ''timeout'']
          | Raised heap e \<Rightarrow> [error_chunk ''exception'']) \<and>
    (\<forall>j. j \<noteq> circuit_key mw tool pf \<longrightarrow> local_phase d' later j = local_phase d later j)"
proof (rule local.call_through [OF assms])
  let ?k = "circuit_key mw tool pf"
  fix s1 assume a: "reg_allow (local_registry threshold reset) ?k now d = (True, s1)"
    and r: "local_inv threshold d'" "w' = w1"
      "local_phase d' later ?k = outcome_phase threshold later tool outcome (local_phase s1 later ?k)"
      "cs = (case outcome of Collected chunks \<Rightarrow> chunks | TimedOut \<Rightarrow> [error_chunk ''timeout'']
           | Raised heap e \<Rightarrow> [error_chunk ''exception''])"
      "\<And>j. j \<noteq> ?k \<Longrightarrow> local_phase d' later j = local_phase d later j"
  have "local_phase s1 now ?k = after_allow reset now (local_phase d now ?k)"
    using local.allow_law [OF assms(1,2) a] by simp
  with r local_phase_any_time [of s1 later ?k now] show ?thesis by simp
qed

lemma tool_call_effect_witness:
  "local_phase (fst (snd (snd (on_tool_call (local_registry 3 60) ex_mw (\<lambda>limit n. (TimedOut, Suc n))
       PRODUCT_TOOL None 10 140 [] 0)))) 140 (circuit_key ex_mw PRODUCT_TOOL None) = Closed 1 \<and>
   snd (snd (snd (on_tool_call (local_registry 3 60) ex_mw (\<lambda>limit n. (TimedOut, Suc n))
       PRODUCT_TOOL None 10 140 [] 0))) = 1"
proof -
  obtain cs evs d' w' where run: "on_tool_call (local_registry 3 60) ex_mw (\<lambda>limit n. (TimedOut, Suc n))
      PRODUCT_TOOL None 10 140 [] 0 = (cs, evs, d', w')"
    by (metis prod.exhaust)
  have p: "local_phase [] 10 k = Closed 0" for k by (simp add: local_phase_def)
  from tool_call_effect [OF local_inv_empty _ _ _ _ run] run show ?thesis by (simp add: p)
qed

text \<open>Also: Half-open is not limited to one probe: once the cooling period is over the breaker admits a
  call, and then every further call until some result is recorded, although the documentation
  promises a single probing request. A final error chunk of the product tool records nothing, so
  the circuit stays half-open and goes on admitting every call.\<close>

theorem half_open_admits_all:
  assumes "local_inv threshold d" "0 < now" "now \<le> now'" "local_phase d now k = Open t" "reset \<le> now - t"
  shows "\<exists>d1 d2. local_allow reset k now d = (True, d1) \<and> local_phase d1 now k = Probing t \<and>
    local_allow reset k now' d1 = (True, d2) \<and> local_phase d2 now' k = Probing t"
proof -
  obtain ok d1 where a: "local_allow reset k now d = (ok, d1)" by force
  then have l1: "local_inv threshold d1 \<and> ok = True \<and> local_phase d1 now k = Probing t"
    using local.allow_law [OF assms(1,2), where reset = reset and k = k and ok = ok and sa = d1] assms(4,5) by (simp add: local_registry_def)
  obtain ok2 d2 where b: "local_allow reset k now' d1 = (ok2, d2)" by force
  have p1: "local_phase d1 now' k = Probing t" using l1 local_phase_any_time [of d1 now' k now] by simp
  have now': "0 < now'" "reset \<le> now' - t" using assms(2,3,5) by linarith+
  from l1 have "local_inv threshold d1" by simp
  from local.allow_law [OF this now'(1), where reset = reset and k = k and ok = ok2 and sa = d2] b p1 now'(2)
  have "ok2 = True \<and> local_phase d2 now' k = Probing t" by (simp add: local_registry_def)
  with a b l1 show ?thesis by simp
qed

lemma half_open_admits_all_witness:
  "\<exists>d1 d2. local_allow 60 (u ''t'') 100 (after_failures 1 60 (u ''t'') [10]) = (True, d1) \<and>
     local_allow 60 (u ''t'') 101 d1 = (True, d2)"
proof -
  have inv: "local_inv 1 (after_failures 1 60 (u ''t'') [10])" by (rule after_failures_inv) simp
  have "local_phase (after_failures 1 60 (u ''t'') [10]) 100 (u ''t'') = Open 10" by code_simp
  from half_open_admits_all [OF inv _ _ this, of 101 60] show ?thesis by auto
qed

end
