(* ===== verification/Token_Budget.thy ===== *)
theory Token_Budget
  imports Py_Float
begin

text \<open>
  \<open>app/infrastructure/budget.py\<close>: the token ledger of one intent and its four tiers of degradation.
  The context variable that holds the ledger is the \<open>token_budget option\<close> argument.
\<close>

datatype tier = MAIN | LITE | MINIMAL | FALLBACK

definition TIER_THRESHOLDS :: "(rat \<times> tier) list" where
  "TIER_THRESHOLDS = [(fl (50/100), MAIN), (fl (20/100), LITE), (fl (5/100), MINIMAL), (0, FALLBACK)]"

record token_budget =
  total_limit :: int
  used :: int
  entries :: "(pystr \<times> int) list"

definition charge :: "pystr \<Rightarrow> int \<Rightarrow> token_budget \<Rightarrow> token_budget" where
  "charge source tokens b =
     (if tokens \<le> 0 then b
      else b\<lparr>used := used b + tokens, entries := entries b @ [(source, tokens)]\<rparr>)"

definition remaining :: "token_budget \<Rightarrow> int" where
  "remaining b = max 0 (total_limit b - used b)"

definition remaining_ratio :: "token_budget \<Rightarrow> rat" where
  "remaining_ratio b = (if total_limit b \<le> 0 then 1 else int_div (remaining b) (total_limit b))"

fun tier_for :: "(rat \<times> tier) list \<Rightarrow> rat \<Rightarrow> tier" where
  "tier_for [] ratio = FALLBACK"
| "tier_for ((bound, t) # ts) ratio = (if ratio > bound then t else tier_for ts ratio)"

definition tier :: "token_budget \<Rightarrow> tier" where
  "tier b = tier_for TIER_THRESHOLDS (remaining_ratio b)"

definition exhausted :: "token_budget \<Rightarrow> bool" where
  "exhausted b \<longleftrightarrow> tier b = FALLBACK"

definition init_budget :: "int \<Rightarrow> token_budget option" where
  "init_budget limit =
     (if limit \<le> 0 then None else Some \<lparr>total_limit = limit, used = 0, entries = []\<rparr>)"

definition current_tier :: "token_budget option \<Rightarrow> tier" where
  "current_tier var = (case var of Some b \<Rightarrow> tier b | None \<Rightarrow> MAIN)"

definition resolve_model :: "token_budget option \<Rightarrow> pystr \<Rightarrow> pystr \<Rightarrow> pystr" where
  "resolve_model var main_model lite_model =
     (if current_tier var = MAIN then main_model
      else if lite_model \<noteq> [] then lite_model else main_model)"

definition minimal_mode_hint :: "token_budget option \<Rightarrow> bool" where
  "minimal_mode_hint var \<longleftrightarrow> current_tier var = MINIMAL"

section \<open>Lemmas\<close>

definition budget_ok :: "token_budget \<Rightarrow> bool" where
  "budget_ok b \<longleftrightarrow> 0 < total_limit b \<and> used b = sum_list (map snd (entries b)) \<and>
     list_all (\<lambda>e. 0 < snd e) (entries b)"

lemma init_budget_ok: "init_budget n = Some b \<Longrightarrow> budget_ok b"
  by (auto simp: init_budget_def budget_ok_def split: if_splits)

lemma charge_ok: "budget_ok b \<Longrightarrow> budget_ok (charge s n b)"
  by (auto simp: charge_def budget_ok_def)

fun severity :: "tier \<Rightarrow> nat" where
  "severity MAIN = 0" | "severity LITE = 1" | "severity MINIMAL = 2" | "severity FALLBACK = 3"

lemma thresholds_ordered: "0 \<le> fl (5/100)" "fl (5/100) \<le> fl (20/100)" "fl (20/100) \<le> fl (50/100)"
  by (auto intro!: fl_mono fl_nonneg)

lemma severity_mono:
  "r \<le> r' \<Longrightarrow> severity (tier_for TIER_THRESHOLDS r') \<le> severity (tier_for TIER_THRESHOLDS r)"
  by (simp add: TIER_THRESHOLDS_def)

lemma ratio_mono:
  "total_limit b = total_limit c \<Longrightarrow> remaining b \<le> remaining c \<Longrightarrow> remaining_ratio b \<le> remaining_ratio c"
  by (auto simp: remaining_ratio_def intro: int_div_mono)

definition charge_all :: "(pystr \<times> int) list \<Rightarrow> token_budget \<Rightarrow> token_budget" where
  "charge_all cs b = fold (\<lambda>(s, n). charge s n) cs b"

lemma charge_less: "remaining (charge s n b) \<le> remaining b \<and> total_limit (charge s n b) = total_limit b"
  by (auto simp: charge_def remaining_def max_def)

lemma charge_all_spec:
  "budget_ok b \<Longrightarrow> budget_ok (charge_all cs b) \<and> total_limit (charge_all cs b) = total_limit b \<and>
     remaining (charge_all cs b) \<le> remaining b \<and>
     entries (charge_all cs b) = entries b @ [e \<leftarrow> cs. 0 < snd e]"
proof (induction cs arbitrary: b)
  case (Cons c cs)
  obtain s n where c: "c = (s, n)" by (cases c)
  from Cons.IH [OF charge_ok [OF Cons.prems], of s n] charge_less [of s n b] c
  show ?case by (auto simp: charge_all_def charge_def)
qed (simp add: charge_all_def)

lemma fl_below: "fl (5/100) < 1/2" "fl (20/100) < 1/2" "fl (50/100) = 1/2"
proof -
  have q: "fl (1/4) = 1/4" and h: "fl (1/2) = 1/2"
    using fl_exact [of 1 "- 2"] fl_exact [of 1 "- 1"] by (simp_all add: pow2_def)
  have "fl (5/100) \<le> fl (1/4)" "fl (20/100) \<le> fl (1/4)" by (rule fl_mono, simp)+
  with q h show "fl (5/100) < 1/2" "fl (20/100) < 1/2" "fl (50/100) = 1/2" by simp_all
qed

section \<open>Properties\<close>

text \<open>Also: The ledger is exact and degradation is monotone: whatever is charged, in any order, the used
  tokens are the sum of the recorded entries (the positive charges, in order), and further charges
  never lead back to a better tier. A fresh ledger is in the main tier, a spent one in the
  fallback tier, and with more than half left the main model is used.\<close>

theorem budget_degrades_monotonically:
  assumes "init_budget limit = Some b"
  shows "used (charge_all cs b) = sum_list (map snd [e \<leftarrow> cs. 0 < snd e]) \<and>
    entries (charge_all cs b) = [e \<leftarrow> cs. 0 < snd e] \<and>
    severity (tier (charge_all cs b)) \<le> severity (tier (charge_all ds (charge_all cs b))) \<and>
    tier b = MAIN \<and> (limit \<le> used (charge_all cs b) \<longrightarrow> exhausted (charge_all cs b))"
proof -
  have ok: "budget_ok b" by (rule init_budget_ok [OF assms])
  have lim: "total_limit b = limit" "0 < limit" "entries b = []" "used b = 0"
    using assms by (auto simp: init_budget_def split: if_splits)
  note c = charge_all_spec [OF ok, of cs]
  then have ok': "budget_ok (charge_all cs b)" by simp
  note d = charge_all_spec [OF ok', of ds]
  have "fl 1 = 1" using fl_of_int [of 1] by simp
  then have "remaining_ratio b = 1" using lim by (simp add: remaining_ratio_def remaining_def int_div_def)
  then have "tier b = MAIN" using fl_below by (simp add: tier_def TIER_THRESHOLDS_def)
  moreover have "severity (tier (charge_all cs b)) \<le> severity (tier (charge_all ds (charge_all cs b)))"
    unfolding tier_def using d by (intro severity_mono ratio_mono) simp_all
  moreover have "exhausted (charge_all cs b)" if "limit \<le> used (charge_all cs b)"
  proof -
    have "remaining_ratio (charge_all cs b) = 0"
      using that c lim by (simp add: remaining_ratio_def remaining_def int_div_def)
    then show ?thesis
      using thresholds_ordered by (simp add: exhausted_def tier_def TIER_THRESHOLDS_def)
  qed
  ultimately show ?thesis using c lim by (simp add: budget_ok_def)
qed

lemma budget_degrades_monotonically_witness:
  "\<exists>b. init_budget 1000 = Some b \<and>
     used (charge_all [(u ''llm'', 600), (u ''noop'', 0), (u ''tool'', 500)] b) = 1100 \<and>
     exhausted (charge_all [(u ''llm'', 600), (u ''noop'', 0), (u ''tool'', 500)] b)"
proof -
  let ?b = "\<lparr>total_limit = 1000, used = 0, entries = []\<rparr>"
  have i: "init_budget 1000 = Some ?b" by (simp add: init_budget_def)
  from budget_degrades_monotonically [OF i, of "[(u ''llm'', 600), (u ''noop'', 0), (u ''tool'', 500)]" "[]"] i
  show ?thesis by simp
qed

end
