(* ===== verification/Event_Bus.thy ===== *)
theory Event_Bus
  imports Prelude
begin

text \<open>
  \<open>app/infrastructure/eventbus.py\<close>: publish/subscribe by shopping session. A queue object is
  named by a number; \<open>queues\<close> is what has been put into it and not yet taken. The backplane
  is the list of events handed to it (present when one is attached); \<open>has_loop\<close> says whether an
  event loop is running when the broadcast task is created.
\<close>

section \<open>The bus\<close>

definition EVENT_TYPES :: "pystr list" where
  "EVENT_TYPES = map u
     [''agent.dispatch'', ''tool.invoke'', ''tool.result'', ''token.delta'', ''plan.update'',
      ''context.compressed'', ''model.fallback'', ''cache.hit'', ''task.queued'', ''task.started'',
      ''final.result'', ''error'']"

record 'p trade_event =
  ev_session :: pystr
  ev_type :: pystr
  ev_payload :: 'p
  ev_occurred_at :: pystr

record 'p event_bus =
  subscribers :: "(pystr, nat list) dict"
  queues :: "(nat, 'p trade_event list) dict"
  next_queue :: nat
  backplane :: "'p trade_event list option"

definition empty_bus :: "'p event_bus" where
  "empty_bus = \<lparr>subscribers = [], queues = [], next_queue = 0, backplane = None\<rparr>"

definition attach_backplane :: "'p event_bus \<Rightarrow> 'p event_bus" where
  "attach_backplane b = b\<lparr>backplane := Some []\<rparr>"

definition get_list :: "('k, 'a list) dict \<Rightarrow> 'k \<Rightarrow> 'a list" where
  "get_list d k = (case map_of d k of None \<Rightarrow> [] | Some xs \<Rightarrow> xs)"

definition subscribe :: "pystr \<Rightarrow> 'p event_bus \<Rightarrow> nat \<times> 'p event_bus" where
  "subscribe session b =
     (let q = next_queue b
      in (q, b\<lparr>next_queue := q + 1, queues := AList.update q [] (queues b),
               subscribers := AList.update session (get_list (subscribers b) session @ [q]) (subscribers b)\<rparr>))"

definition unsubscribe :: "pystr \<Rightarrow> nat \<Rightarrow> 'p event_bus \<Rightarrow> 'p event_bus" where
  "unsubscribe session q b =
     (let qs = remove1 q (get_list (subscribers b) session)
      in if qs = [] then b\<lparr>subscribers := AList.delete session (subscribers b)\<rparr>
         else b\<lparr>subscribers := AList.update session qs (subscribers b)\<rparr>)"

definition put_nowait :: "'p trade_event \<Rightarrow> nat \<Rightarrow> (nat, 'p trade_event list) dict \<Rightarrow>
    (nat, 'p trade_event list) dict" where
  "put_nowait ev q d = AList.update q (get_list d q @ [ev]) d"

definition deliver_local :: "'p trade_event \<Rightarrow> 'p event_bus \<Rightarrow> 'p event_bus" where
  "deliver_local ev b = b\<lparr>queues := fold (put_nowait ev) (get_list (subscribers b) (ev_session ev)) (queues b)\<rparr>"

definition broadcast :: "bool \<Rightarrow> 'p trade_event \<Rightarrow> 'p event_bus \<Rightarrow> 'p event_bus" where
  "broadcast has_loop ev b =
     (case backplane b of
        None \<Rightarrow> b
      | Some sent \<Rightarrow> if has_loop then b\<lparr>backplane := Some (sent @ [ev])\<rparr> else b)"

definition publish :: "bool \<Rightarrow> pystr \<Rightarrow> pystr \<Rightarrow> pystr \<Rightarrow> 'p \<Rightarrow> 'p event_bus \<Rightarrow>
    unit result \<times> 'p event_bus" where
  "publish has_loop now session event_type payload b =
     (if event_type \<notin> set EVENT_TYPES then (Inl (ValueError ''unknown event type''), b)
      else let ev = \<lparr>ev_session = session, ev_type = event_type, ev_payload = payload, ev_occurred_at = now\<rparr>
           in (Inr (), broadcast has_loop ev (deliver_local ev b)))"

text \<open>A subscriber takes the next event from its queue.\<close>

definition take_event :: "nat \<Rightarrow> 'p event_bus \<Rightarrow> 'p trade_event option \<times> 'p event_bus" where
  "take_event q b = (case get_list (queues b) q of
     [] \<Rightarrow> (None, b) | e # es \<Rightarrow> (Some e, b\<lparr>queues := AList.update q es (queues b)\<rparr>))"

section \<open>Invariant and traces\<close>

lemma get_list_update [simp]:
  "get_list (AList.update k v d) j = (if j = k then v else get_list d j)"
  "get_list (AList.delete k d) j = (if j = k then [] else get_list d j)"
  by (simp_all add: get_list_def map_of_update map_of_delete)

text \<open>Every queue object is subscribed at most once, and only queues handed out are.\<close>

definition bus_ok :: "'p event_bus \<Rightarrow> bool" where
  "bus_ok b \<longleftrightarrow> (\<forall>s. distinct (get_list (subscribers b) s) \<and>
     (\<forall>q\<in>set (get_list (subscribers b) s). q < next_queue b \<and>
        (\<forall>s'. q \<in> set (get_list (subscribers b) s') \<longrightarrow> s' = s)))"

lemma remove1_NilD: "remove1 a xs = [] \<Longrightarrow> x \<in> set xs \<Longrightarrow> x = a"
  using in_set_remove1 [of x a xs] by auto

lemma fold_put_nowait:
  "distinct qs \<Longrightarrow> get_list (fold (put_nowait ev) qs d) q =
     (if q \<in> set qs then get_list d q @ [ev] else get_list d q)"
  by (induction qs arbitrary: d) (auto simp: put_nowait_def)

datatype 'p bus_op =
    Subscribe pystr
  | Unsubscribe pystr nat
  | Publish bool pystr pystr pystr 'p
  | Remote "'p trade_event"

fun bus_step :: "'p bus_op \<Rightarrow> 'p event_bus \<Rightarrow> 'p event_bus" where
  "bus_step (Subscribe s) b = snd (subscribe s b)"
| "bus_step (Unsubscribe s q) b = unsubscribe s q b"
| "bus_step (Publish l now s t p) b = snd (publish l now s t p b)"
| "bus_step (Remote ev) b = deliver_local ev b"

lemma bus_ok_empty: "bus_ok empty_bus"
  by (simp add: bus_ok_def empty_bus_def get_list_def)

lemma subscribers_publish [simp]:
  "subscribers (snd (publish l now s t p b)) = subscribers b"
  "next_queue (snd (publish l now s t p b)) = next_queue b"
  "subscribers (deliver_local ev b) = subscribers b" "next_queue (deliver_local ev b) = next_queue b"
  by (simp_all add: publish_def Let_def broadcast_def deliver_local_def split: option.split)

lemma bus_ok_step: "bus_ok b \<Longrightarrow> bus_ok (bus_step op b)"
proof (cases op)
  case (Subscribe s)
  assume "bus_ok b"
  then have d: "\<And>s. distinct (get_list (subscribers b) s)"
    and lt: "\<And>s q. q \<in> set (get_list (subscribers b) s) \<Longrightarrow> q < next_queue b"
    and un: "\<And>s s' q. q \<in> set (get_list (subscribers b) s) \<Longrightarrow> q \<in> set (get_list (subscribers b) s') \<Longrightarrow> s' = s"
    unfolding bus_ok_def by blast+
  have new: "next_queue b \<notin> set (get_list (subscribers b) s')" for s' using lt [of "next_queue b" s'] by auto
  have "bus_ok (snd (subscribe s b))" unfolding bus_ok_def
  proof (intro allI conjI ballI impI)
    fix s' show "distinct (get_list (subscribers (snd (subscribe s b))) s')"
      using d new by (simp add: subscribe_def Let_def)
  next
    fix s' q s'' assume q: "q \<in> set (get_list (subscribers (snd (subscribe s b))) s')"
    then show "q < next_queue (snd (subscribe s b))"
      by (auto simp: subscribe_def Let_def split: if_splits dest!: lt)
    assume "q \<in> set (get_list (subscribers (snd (subscribe s b))) s'')"
    with q un [of q s' s''] new show "s'' = s'"
      by (auto simp: subscribe_def Let_def split: if_splits)
  qed
  then show ?thesis using Subscribe by simp
next
  case (Unsubscribe s q)
  assume ok: "bus_ok b"
  have sub: "set (get_list (subscribers (unsubscribe s q b)) s') \<subseteq> set (get_list (subscribers b) s')"
    "distinct (get_list (subscribers b) s') \<Longrightarrow> distinct (get_list (subscribers (unsubscribe s q b)) s')"
    "next_queue (unsubscribe s q b) = next_queue b" for s'
    using set_remove1_subset [of q "get_list (subscribers b) s"]
    by (auto simp: unsubscribe_def Let_def)
  have "bus_ok (unsubscribe s q b)" unfolding bus_ok_def
  proof (intro allI conjI ballI impI)
    fix s'
    show "distinct (get_list (subscribers (unsubscribe s q b)) s')"
      using sub(2) ok by (simp add: bus_ok_def)
  next
    fix s' q' s'' assume q': "q' \<in> set (get_list (subscribers (unsubscribe s q b)) s')"
    then have m: "q' \<in> set (get_list (subscribers b) s')" using sub(1) by blast
    show "q' < next_queue (unsubscribe s q b)" using m ok by (auto simp: sub(3) bus_ok_def)
    assume "q' \<in> set (get_list (subscribers (unsubscribe s q b)) s'')"
    then have "q' \<in> set (get_list (subscribers b) s'')" using sub(1) by blast
    with m ok show "s'' = s'" unfolding bus_ok_def by blast
  qed
  then show ?thesis using Unsubscribe by simp
qed (simp_all add: bus_ok_def)

text \<open>The events a subscriber of queue \<open>q\<close> in session \<open>s\<close> is owed by one operation.\<close>

fun events_of :: "pystr \<Rightarrow> 'p bus_op \<Rightarrow> 'p trade_event list" where
  "events_of s (Publish l now s' t p) =
     (if s' = s \<and> t \<in> set EVENT_TYPES
      then [\<lparr>ev_session = s', ev_type = t, ev_payload = p, ev_occurred_at = now\<rparr>] else [])"
| "events_of s (Remote ev) = (if ev_session ev = s then [ev] else [])"
| "events_of s _ = []"

lemma queues_broadcast [simp]: "queues (broadcast l ev b) = queues b"
  by (simp add: broadcast_def split: option.split)

lemma queue_step:
  assumes "bus_ok b" "q \<in> set (get_list (subscribers b) s)"
  shows "get_list (queues (bus_step op b)) q = get_list (queues b) q @ events_of s op"
proof (cases op)
  case (Subscribe s')
  have "q \<noteq> next_queue b" using assms by (auto simp: bus_ok_def)
  then show ?thesis using Subscribe by (simp add: subscribe_def Let_def)
next
  case (Unsubscribe s' q')
  then show ?thesis by (simp add: unsubscribe_def Let_def)
next
  case (Publish l now s' t p)
  have "q \<in> set (get_list (subscribers b) s') \<longleftrightarrow> s' = s" "distinct (get_list (subscribers b) s')"
    using assms by (auto simp: bus_ok_def)
  then show ?thesis using Publish
    by (auto simp: publish_def deliver_local_def fold_put_nowait Let_def)
next
  case (Remote ev)
  have "q \<in> set (get_list (subscribers b) (ev_session ev)) \<longleftrightarrow> ev_session ev = s"
    "distinct (get_list (subscribers b) (ev_session ev))"
    using assms by (auto simp: bus_ok_def)
  then show ?thesis using Remote by (simp add: deliver_local_def fold_put_nowait)
qed

lemma subscribed_step:
  assumes "q \<in> set (get_list (subscribers b) s)" "op \<noteq> Unsubscribe s q"
  shows "q \<in> set (get_list (subscribers (bus_step op b)) s)"
  using assms
proof (cases op)
  case (Unsubscribe s' q')
  then show ?thesis
    using assms by (cases "s' = s") (auto simp: unsubscribe_def Let_def in_set_remove1 dest: remove1_NilD)
qed (auto simp: subscribe_def Let_def)

definition bus_run :: "'p bus_op list \<Rightarrow> 'p event_bus \<Rightarrow> 'p event_bus" where
  "bus_run ops b = fold bus_step ops b"

lemma bus_run_queue:
  assumes "bus_ok b" "q \<in> set (get_list (subscribers b) s)" "Unsubscribe s q \<notin> set ops"
  shows "get_list (queues (bus_run ops b)) q = get_list (queues b) q @ concat (map (events_of s) ops)"
  using assms
proof (induction ops arbitrary: b)
  case (Cons op ops)
  have ok: "bus_ok (bus_step op b)" using Cons.prems(1) by (rule bus_ok_step)
  have "q \<in> set (get_list (subscribers (bus_step op b)) s)"
    using Cons.prems by (intro subscribed_step) auto
  from Cons.IH [OF ok this] Cons.prems queue_step [OF Cons.prems(1,2), of op]
  show ?case by (simp add: bus_run_def)
qed (simp add: bus_run_def)

lemma bus_run_subscribed:
  "q \<in> set (get_list (subscribers b) s) \<Longrightarrow> Unsubscribe s q \<notin> set ops \<Longrightarrow> q \<in> set (get_list (subscribers (bus_run ops b)) s)"
proof (induction ops arbitrary: b)
  case (Cons op ops)
  then have "q \<in> set (get_list (subscribers (bus_step op b)) s)" by (intro subscribed_step) auto
  with Cons show ?case by (simp add: bus_run_def)
qed (simp add: bus_run_def)

lemma unsubscribe_members:
  assumes "bus_ok b" "q \<in> set (get_list (subscribers b) s)"
  shows "q' \<in> set (get_list (subscribers (unsubscribe s q b)) s') \<longleftrightarrow> q' \<noteq> q \<and> q' \<in> set (get_list (subscribers b) s')"
proof -
  have "distinct (get_list (subscribers b) s'')" for s'' using assms(1) by (simp add: bus_ok_def)
  moreover have "q \<in> set (get_list (subscribers b) s') \<longleftrightarrow> s' = s" using assms by (auto simp: bus_ok_def)
  ultimately show ?thesis by (auto simp: unsubscribe_def Let_def in_set_remove1 dest: remove1_NilD)
qed

lemma bus_run_ok: "bus_ok b \<Longrightarrow> bus_ok (bus_run ops b)"
  by (induction ops arbitrary: b) (simp_all add: bus_run_def bus_ok_step)

section \<open>Properties\<close>

text \<open>Also: Exact, ordered delivery. After any history of the bus, a subscriber that joins a session
  receives in its own queue, in order and once each, exactly the events published for that session
  (or received for it from the backplane) while it stays subscribed, whatever other subscribers
  join, leave or publish in between.\<close>

theorem bus_delivers_exactly:
  assumes "subscribe s (bus_run before empty_bus) = (q, b)" "Unsubscribe s q \<notin> set ops"
  shows "get_list (queues (bus_run ops b)) q = concat (map (events_of s) ops)"
proof -
  have ok0: "bus_ok (bus_run before empty_bus)" by (rule bus_run_ok [OF bus_ok_empty])
  have b: "b = bus_step (Subscribe s) (bus_run before empty_bus)" using assms(1) by simp
  have "bus_ok b" unfolding b by (rule bus_ok_step [OF ok0])
  moreover have "q \<in> set (get_list (subscribers b) s)" "get_list (queues b) q = []"
    using assms(1) by (auto simp: subscribe_def Let_def)
  ultimately show ?thesis using bus_run_queue [OF _ _ assms(2)] by simp
qed

lemma bus_delivers_exactly_witness:
  "get_list (queues (bus_run
      [Publish True (u ''t1'') (u ''s'') (u ''tool.invoke'') (1::int), Subscribe (u ''s''),
       Publish True (u ''t2'') (u ''other'') (u ''error'') 2, Publish True (u ''t3'') (u ''s'') (u ''bogus'') 3,
       Publish True (u ''t4'') (u ''s'') (u ''final.result'') 4]
      (snd (subscribe (u ''s'') empty_bus)))) 0 =
    [\<lparr>ev_session = u ''s'', ev_type = u ''tool.invoke'', ev_payload = 1, ev_occurred_at = u ''t1''\<rparr>,
     \<lparr>ev_session = u ''s'', ev_type = u ''final.result'', ev_payload = 4, ev_occurred_at = u ''t4''\<rparr>]"
proof -
  have s: "subscribe (u ''s'') (bus_run [] empty_bus) = (0, snd (subscribe (u ''s'') empty_bus :: nat \<times> int event_bus))"
    by (simp add: subscribe_def Let_def bus_run_def empty_bus_def)
  show ?thesis
    by (subst bus_delivers_exactly [OF s]) (simp_all add: EVENT_TYPES_def)
qed

text \<open>Also: An unknown event type is refused without any effect; a known one never fails. After a
  subscriber leaves, its queue receives nothing more, and the other subscribers are untouched.\<close>

theorem bus_unsubscribe_stops:
  assumes "bus_ok b" "q \<in> set (get_list (subscribers b) s)"
  shows "q \<notin> set (get_list (subscribers (unsubscribe s q b)) s') \<and>
    get_list (queues (snd (publish l now s' t p (unsubscribe s q b)))) q = get_list (queues b) q \<and>
    (q' \<noteq> q \<longrightarrow> q' \<in> set (get_list (subscribers (unsubscribe s q b)) s') \<longleftrightarrow>
       q' \<in> set (get_list (subscribers b) s')) \<and>
    (t \<notin> set EVENT_TYPES \<longrightarrow> publish l now s' t p b = (Inl (ValueError ''unknown event type''), b)) \<and>
    (t \<in> set EVENT_TYPES \<longrightarrow> fst (publish l now s' t p b) = Inr ())"
proof -
  have d: "distinct (get_list (subscribers b) s'')" for s'' using assms(1) by (simp add: bus_ok_def)
  have only: "q \<in> set (get_list (subscribers b) s') \<longleftrightarrow> s' = s" using assms by (auto simp: bus_ok_def)
  have gone: "q \<notin> set (get_list (subscribers (unsubscribe s q b)) s')"
    using only d by (auto simp: unsubscribe_def Let_def)
  have ok: "distinct (get_list (subscribers (unsubscribe s q b)) s')"
    using d by (auto simp: unsubscribe_def Let_def)
  have qs: "queues (unsubscribe s q b) = queues b" by (simp add: unsubscribe_def Let_def)
  have "get_list (queues (snd (publish l now s' t p (unsubscribe s q b)))) q = get_list (queues b) q"
    using gone ok by (simp add: publish_def deliver_local_def fold_put_nowait Let_def qs)
  moreover have "q' \<noteq> q \<longrightarrow> q' \<in> set (get_list (subscribers (unsubscribe s q b)) s') \<longleftrightarrow>
       q' \<in> set (get_list (subscribers b) s')"
    by (auto simp: unsubscribe_def Let_def in_set_remove1 dest: remove1_NilD)
  ultimately show ?thesis using gone by (simp add: publish_def Let_def)
qed

lemma bus_unsubscribe_stops_witness:
  "get_list (queues (snd (publish True (u ''t'') (u ''s'') (u ''error'') (1::int)
     (unsubscribe (u ''s'') 0 (snd (subscribe (u ''s'') empty_bus)))))) 0 = []"
proof -
  have ok: "bus_ok (snd (subscribe (u ''s'') (empty_bus :: int event_bus)))"
    using bus_ok_step [OF bus_ok_empty, of "Subscribe (u ''s'')"] by simp
  have "0 \<in> set (get_list (subscribers (snd (subscribe (u ''s'') (empty_bus :: int event_bus)))) (u ''s''))"
    "get_list (queues (snd (subscribe (u ''s'') (empty_bus :: int event_bus)))) 0 = []"
    by (simp_all add: subscribe_def Let_def empty_bus_def get_list_def)
  with bus_unsubscribe_stops [OF ok this(1), of "u ''s''" True "u ''t''" "u ''error''" 1] show ?thesis by simp
qed

end
