(* ===== verification/Json.thy ===== *)
theory Json
  imports Complex_Main Prelude "HOL-Library.List_Lexorder"
begin

text \<open>
  The values \<open>json.loads\<close> produces, and what the code asks of them. Objects keep the order of
  their keys, which are distinct (\<open>json_ok\<close>).
\<close>

datatype json =
    JNull
  | JBool bool
  | JInt int
  | JFloat rat
  | JStr pystr
  | JList "json list"
  | JObj "(pystr \<times> json) list"

text \<open>\<open>isinstance(v, Mapping)\<close>, \<open>isinstance(v, list)\<close>, \<open>d.get(k)\<close> and the truth value.\<close>

fun is_obj :: "json \<Rightarrow> bool" where
  "is_obj (JObj d) = True"
| "is_obj v = False"

fun is_jlist :: "json \<Rightarrow> bool" where
  "is_jlist (JList l) = True"
| "is_jlist v = False"

fun obj_items :: "json \<Rightarrow> (pystr \<times> json) list" where
  "obj_items (JObj d) = d"
| "obj_items v = []"

fun list_items :: "json \<Rightarrow> json list" where
  "list_items (JList l) = l"
| "list_items v = []"

definition jget :: "json \<Rightarrow> string \<Rightarrow> json" where
  "jget v k = (case map_of (obj_items v) (u k) of None \<Rightarrow> JNull | Some w \<Rightarrow> w)"

definition jhas :: "json \<Rightarrow> string \<Rightarrow> bool" where
  "jhas v k \<longleftrightarrow> map_of (obj_items v) (u k) \<noteq> None"

fun truthy :: "json \<Rightarrow> bool" where
  "truthy JNull = False"
| "truthy (JBool b) = b"
| "truthy (JInt i) = (i \<noteq> 0)"
| "truthy (JFloat r) = (r \<noteq> 0)"
| "truthy (JStr s) = (s \<noteq> [])"
| "truthy (JList l) = (l \<noteq> [])"
| "truthy (JObj d) = (d \<noteq> [])"

fun json_ok :: "json \<Rightarrow> bool" where
  "json_ok (JList l) = list_all json_ok l"
| "json_ok (JObj d) = (distinct (map fst d) \<and> list_all (\<lambda>kv. json_ok (snd kv)) d)"
| "json_ok v = True"

lemma jget_in: "jget v k \<noteq> JNull \<Longrightarrow> (u k, jget v k) \<in> set (obj_items v)"
  by (auto simp: jget_def dest: map_of_SomeD split: option.splits)

text \<open>\<open>d.get(k, default)\<close>, and \<open>int(v)\<close> with the conversion of texts as a parameter.\<close>

definition get_or :: "json \<Rightarrow> string \<Rightarrow> json \<Rightarrow> json" where
  "get_or v k dflt = (if jhas v k then jget v k else dflt)"

definition py_int :: "(pystr \<Rightarrow> int result) \<Rightarrow> json \<Rightarrow> int result" where
  "py_int int_text v = (case v of
     JInt i \<Rightarrow> Inr i
   | JBool b \<Rightarrow> Inr (if b then 1 else 0)
   | JFloat r \<Rightarrow> Inr (if r < 0 then \<lceil>r\<rceil> else \<lfloor>r\<rfloor>)
   | JStr s \<Rightarrow> int_text s
   | _ \<Rightarrow> Inl (TypeError ''int''))"

section \<open>Equality\<close>

text \<open>Python's \<open>==\<close> on objects ignores the order of the keys.\<close>

fun jeq :: "json \<Rightarrow> json \<Rightarrow> bool" where
  "jeq (JObj d) (JObj e) \<longleftrightarrow> length d = length e \<and>
     list_all (\<lambda>(k, v). case map_of e k of None \<Rightarrow> False | Some w \<Rightarrow> jeq v w) d"
| "jeq (JList l) (JList m) \<longleftrightarrow> list_all2 jeq l m"
| "jeq v w \<longleftrightarrow> v = w"

section \<open>Printing\<close>

text \<open>
  \<open>json.dumps\<close> with \<open>ensure_ascii=False\<close>, \<open>sort_keys=True\<close> and the separators without spaces.
  \<open>float_text\<close> is \<open>repr\<close> on a double.
\<close>

definition hex_digit :: "int \<Rightarrow> int" where
  "hex_digit n = (if n < 10 then 48 + n else 87 + n)"

definition escape_char :: "int \<Rightarrow> pystr" where
  "escape_char c =
     (if c = 34 then [92, 34] else if c = 92 then [92, 92] else if c = 10 then u [CHR 0x5C, CHR ''n'']
      else if c = 13 then u [CHR 0x5C, CHR ''r''] else if c = 9 then u [CHR 0x5C, CHR ''t'']
      else if c = 8 then u [CHR 0x5C, CHR ''b''] else if c = 12 then u [CHR 0x5C, CHR ''f'']
      else if 0 \<le> c \<and> c < 32 then u [CHR 0x5C] @ u ''u00'' @ [hex_digit (c div 16), hex_digit (c mod 16)]
      else [c])"

definition quoted :: "pystr \<Rightarrow> pystr" where
  "quoted s = [34] @ concat (map escape_char s) @ [34]"

definition dec_int :: "int \<Rightarrow> pystr" where
  "dec_int i = (if i < 0 then 45 # dec (nat (- i)) else dec (nat i))"

definition dumps_field :: "pystr \<times> pystr \<Rightarrow> pystr" where
  "dumps_field kv = quoted (fst kv) @ [58] @ snd kv"

fun dumps :: "(rat \<Rightarrow> pystr) \<Rightarrow> json \<Rightarrow> pystr" where
  "dumps float_text JNull = u ''null''"
| "dumps float_text (JBool b) = (if b then u ''true'' else u ''false'')"
| "dumps float_text (JInt i) = dec_int i"
| "dumps float_text (JFloat r) = float_text r"
| "dumps float_text (JStr s) = quoted s"
| "dumps float_text (JList l) = [91] @ join [44] (map (dumps float_text) l) @ [93]"
| "dumps float_text (JObj d) = [123] @ join [44] (map dumps_field
     (sort_key fst (map (\<lambda>(k, v). (k, dumps float_text v)) d))) @ [125]"

lemma length_join: "length (join sep xs) = sum_list (map length xs) + (length xs - 1) * length sep"
  by (induction sep xs rule: join.induct) (auto simp: algebra_simps)

text \<open>A text that needs no escape is printed as it is between quotes.\<close>

definition plain_char :: "int \<Rightarrow> bool" where
  "plain_char c \<longleftrightarrow> 32 \<le> c \<and> c \<noteq> 34 \<and> c \<noteq> 92"

lemma concat_escape_plain: "list_all plain_char s \<Longrightarrow> concat (map escape_char s) = s"
  by (induction s) (auto simp: plain_char_def escape_char_def)

lemma quoted_plain: "list_all plain_char s \<Longrightarrow> quoted s = [34] @ s @ [34]"
  by (simp add: quoted_def concat_escape_plain)

lemma length_dec_le: "0 < k \<Longrightarrow> n < 10 ^ k \<Longrightarrow> length (dec n) \<le> k"
proof (induction n arbitrary: k rule: dec.induct)
  case (1 n)
  show ?case
  proof (cases "n < 10")
    case False
    with 1(3) have "k \<noteq> 1" "0 < k" using 1(2) by auto
    then obtain j where k: "k = Suc j" "0 < j" by (cases k) auto
    with 1(3) have "n div 10 < 10 ^ j" by (simp add: div_less_iff_less_mult)
    with 1(1) False k have "length (dec (n div 10)) \<le> j" by simp
    then show ?thesis using k False by (subst dec.simps) simp
  qed (use 1(2) in \<open>subst dec.simps; simp\<close>)
qed

text \<open>The length of a printed object does not depend on the order of its keys.\<close>

lemma sum_insort: "sum_list (map f (insort_key g x xs)) = f x + sum_list (map (f :: 'a \<Rightarrow> nat) xs)"
  by (induction xs) auto

lemma sum_sort: "sum_list (map f (sort_key g xs)) = sum_list (map (f :: 'a \<Rightarrow> nat) xs)"
  by (induction xs) (simp_all add: sum_insort)

lemma length_dumps_obj:
  "length (dumps ft (JObj d)) =
     (\<Sum>(k, v)\<leftarrow>d. length (quoted k) + 1 + length (dumps ft v)) + (length d - 1) + 2"
proof -
  have "length (join [44] (map dumps_field (sort_key fst (map (\<lambda>(k, v). (k, dumps ft v)) d)))) =
      (\<Sum>x\<leftarrow>sort_key fst (map (\<lambda>(k, v). (k, dumps ft v)) d). length (dumps_field x)) + (length d - 1)"
    by (simp add: length_join comp_def)
  also have "(\<Sum>x\<leftarrow>sort_key fst (map (\<lambda>(k, v). (k, dumps ft v)) d). length (dumps_field x)) =
      (\<Sum>x\<leftarrow>map (\<lambda>(k, v). (k, dumps ft v)) d. length (dumps_field x))"
    by (rule sum_sort)
  also have "\<dots> = (\<Sum>(k, v)\<leftarrow>d. length (quoted k) + 1 + length (dumps ft v))"
    by (simp add: dumps_field_def comp_def case_prod_unfold)
  finally show ?thesis by simp
qed

text \<open>\<open>json.dumps\<close> with \<open>ensure_ascii=False\<close> only: the separators have a space, keys keep their order.\<close>

definition dumps_pair :: "pystr \<times> pystr \<Rightarrow> pystr" where
  "dumps_pair kv = quoted (fst kv) @ [58, 32] @ snd kv"

fun dumps_plain :: "(rat \<Rightarrow> pystr) \<Rightarrow> json \<Rightarrow> pystr" where
  "dumps_plain float_text JNull = u ''null''"
| "dumps_plain float_text (JBool b) = (if b then u ''true'' else u ''false'')"
| "dumps_plain float_text (JInt i) = dec_int i"
| "dumps_plain float_text (JFloat r) = float_text r"
| "dumps_plain float_text (JStr s) = quoted s"
| "dumps_plain float_text (JList l) = [91] @ join [44, 32] (map (dumps_plain float_text) l) @ [93]"
| "dumps_plain float_text (JObj d) = [123] @ join [44, 32]
     (map dumps_pair (map (\<lambda>(k, v). (k, dumps_plain float_text v)) d)) @ [125]"

text \<open>Every text of a value has only characters that satisfy a predicate.\<close>

fun texts_ok :: "(int \<Rightarrow> bool) \<Rightarrow> json \<Rightarrow> bool" where
  "texts_ok P (JStr s) = list_all P s"
| "texts_ok P (JList l) = list_all (texts_ok P) l"
| "texts_ok P (JObj d) = list_all (\<lambda>(k, v). list_all P k \<and> texts_ok P v) d"
| "texts_ok P v = True"

lemma set_join: "set (join sep xs) \<subseteq> set sep \<union> \<Union> (set ` set xs)"
  by (induction sep xs rule: join.induct) auto

lemma set_dec: "set (dec n) \<subseteq> {48..57}"
proof (induction n rule: dec.induct)
  case (1 n)
  then show ?case by (subst dec.simps) auto
qed

text \<open>Printing introduces no character outside printable ASCII.\<close>

lemma set_escape: "set (escape_char c) \<subseteq> {c} \<inter> {x. x < 0 \<or> 32 \<le> x} \<union> {32..126}"
proof -
  have "hex_digit n \<in> {32..126}" if "0 \<le> n" "n < 16" for n using that by (simp add: hex_digit_def)
  moreover have "c div 16 < 16" if "c < 32" using that by simp
  moreover have "set (u ''u00'') \<subseteq> {32..126}" "set (u [CHR 0x5C]) \<subseteq> {32..126}" by (auto simp: u_def)
  ultimately show ?thesis by (auto simp: escape_char_def u_def)
qed

lemma set_quoted: "list_all P s \<Longrightarrow> set (quoted s) \<subseteq> {c. P c \<and> (c < 0 \<or> 32 \<le> c)} \<union> {32..126}"
  using set_escape by (fastforce simp: quoted_def list_all_iff)

lemma set_dumps_plain:
  "\<lbrakk>\<And>r. set (ft r) \<subseteq> {32..126}; texts_ok P v\<rbrakk> \<Longrightarrow>
     set (dumps_plain ft v) \<subseteq> {c. P c \<and> (c < 0 \<or> 32 \<le> c)} \<union> {32..126}"
proof (induction ft v rule: dumps_plain.induct)
  case (6 ft l)
  have "set (dumps_plain ft v) \<subseteq> {c. P c \<and> (c < 0 \<or> 32 \<le> c)} \<union> {32..126}" if "v \<in> set l" for v
    using 6(1) [OF that 6(2)] 6(3) that by (simp add: list_all_iff)
  then have "\<Union> (set ` set (map (dumps_plain ft) l)) \<subseteq> {c. P c \<and> (c < 0 \<or> 32 \<le> c)} \<union> {32..126}"
    by auto
  with set_join [of "[44, 32]" "map (dumps_plain ft) l"] show ?case by fastforce
next
  case (7 ft d)
  have "set (dumps_pair (k, dumps_plain ft v)) \<subseteq> {c. P c \<and> (c < 0 \<or> 32 \<le> c)} \<union> {32..126}"
    if kv: "(k, v) \<in> set d" for k v
  proof -
    from 7(3) kv have "list_all P k" "texts_ok P v" by (auto simp: list_all_iff)
    with 7(1) [OF kv _ 7(2), of k v] set_quoted [of P k] show ?thesis by (auto simp: dumps_pair_def)
  qed
  then have "\<Union> (set ` set (map dumps_pair (map (\<lambda>(k, v). (k, dumps_plain ft v)) d))) \<subseteq>
      {c. P c \<and> (c < 0 \<or> 32 \<le> c)} \<union> {32..126}" by auto
  with set_join [of "[44, 32]" "map dumps_pair (map (\<lambda>(k, v). (k, dumps_plain ft v)) d)"]
  show ?case by fastforce
next
  case (3 ft i)
  show ?case using set_dec [of "nat i"] set_dec [of "nat (- i)"] by (auto simp: dec_int_def)
next
  case (4 ft r)
  then show ?case by auto
next
  case (5 ft s)
  then show ?case using set_quoted by simp
qed (auto simp: u_def)

end
