(* ===== verification/Harness.thy ===== *)
theory Harness
  imports Json Tool_Chunk
begin

text \<open>
  The guard rails around tool calls: \<open>app/application/harness/loop_detector.py\<close>,
  \<open>assertions.py\<close>, and the middleware \<open>app/infrastructure/harness_middleware.py\<close> that runs them.
  A middleware call is two steps, \<open>harness_pre\<close> up to the start of the tool and \<open>harness_post\<close> after
  its end, because calls of one session interleave. Message texts are short names.
\<close>

section \<open>Loop detection\<close>

definition DEFAULT_WINDOW :: nat where "DEFAULT_WINDOW = 6"

text \<open>A deque with its \<open>maxlen\<close>: appending drops from the left.\<close>

record deque =
  maxlen :: nat
  items :: "pystr list"

definition deque_of :: "nat \<Rightarrow> pystr list \<Rightarrow> deque" where
  "deque_of n xs = \<lparr>maxlen = n, items = drop (length xs - n) xs\<rparr>"

definition deque_append :: "pystr \<Rightarrow> deque \<Rightarrow> deque" where
  "deque_append x d = deque_of (maxlen d) (items d @ [x])"

record loop_detector =
  repeat_threshold :: nat
  window :: nat
  calls :: "(pystr, deque) dict"

definition bucket :: "pystr \<Rightarrow> loop_detector \<Rightarrow> deque \<times> loop_detector" where
  "bucket sid ld =
     (let b = (case map_of (calls ld) sid of Some b \<Rightarrow> b | None \<Rightarrow> deque_of DEFAULT_WINDOW []);
          b' = (if maxlen b \<noteq> window ld then deque_of (window ld) (items b) else b)
      in (b', ld\<lparr>calls := AList.update sid b' (calls ld)\<rparr>))"

definition loop_record :: "pystr \<Rightarrow> pystr \<Rightarrow> loop_detector \<Rightarrow> loop_detector" where
  "loop_record sid tool ld =
     (case bucket sid ld of (b, ld') \<Rightarrow>
        ld'\<lparr>calls := AList.update sid (deque_append tool b) (calls ld')\<rparr>)"

definition trailing_repeat :: "pystr \<Rightarrow> pystr \<Rightarrow> loop_detector \<Rightarrow> nat \<times> loop_detector" where
  "trailing_repeat sid tool ld =
     (case bucket sid ld of (b, ld') \<Rightarrow>
        (length (takeWhile (\<lambda>x. x = tool) (rev (items b))), ld'))"

definition loop_check :: "pystr \<Rightarrow> pystr \<Rightarrow> loop_detector \<Rightarrow> (nat \<times> pystr) option \<times> loop_detector" where
  "loop_check sid tool ld =
     (case trailing_repeat sid tool (loop_record sid tool ld) of (count, ld') \<Rightarrow>
        (if repeat_threshold ld' \<le> count then Some (count, tool) else None, ld'))"

definition loop_reset :: "pystr \<Rightarrow> loop_detector \<Rightarrow> loop_detector" where
  "loop_reset sid ld = ld\<lparr>calls := AList.delete sid (calls ld)\<rparr>"

text \<open>What the detector keeps of a session is the window over its calls since the last reset.\<close>

definition recent :: "loop_detector \<Rightarrow> pystr \<Rightarrow> pystr list" where
  "recent ld sid = items (fst (bucket sid ld))"

lemma recent_update:
  "maxlen d = window ld \<Longrightarrow>
   recent (ld\<lparr>calls := AList.update sid d (calls ld)\<rparr>) j = (if j = sid then items d else recent ld j)"
  by (simp add: recent_def bucket_def map_of_update Let_def)

lemma bucket_facts:
  assumes "bucket sid ld = (b, ld')"
  shows "maxlen b = window ld \<and> window ld' = window ld \<and> repeat_threshold ld' = repeat_threshold ld \<and>
    fst (bucket sid ld') = b \<and> items b = recent ld sid \<and>
    (\<forall>j. j \<noteq> sid \<longrightarrow> recent ld' j = recent ld j)"
proof -
  have b: "b = fst (bucket sid ld)" using assms by simp
  have m: "maxlen b = window ld" using assms by (auto simp: bucket_def Let_def deque_of_def)
  have ld': "ld' = ld\<lparr>calls := AList.update sid b (calls ld)\<rparr>" using assms by (auto simp: bucket_def Let_def)
  have "fst (bucket sid ld') = b" using m by (simp add: ld' bucket_def map_of_update Let_def)
  moreover have "recent ld' j = recent ld j" if "j \<noteq> sid" for j
    using that by (simp add: recent_def ld' bucket_def map_of_update Let_def)
  ultimately show ?thesis using m b by (simp add: ld' recent_def)
qed

lemma loop_record_facts:
  "recent (loop_record sid tool ld) sid =
     drop (length (recent ld sid) + 1 - window ld) (recent ld sid @ [tool]) \<and>
   window (loop_record sid tool ld) = window ld \<and>
   repeat_threshold (loop_record sid tool ld) = repeat_threshold ld \<and>
   (\<forall>j. j \<noteq> sid \<longrightarrow> recent (loop_record sid tool ld) j = recent ld j)"
proof -
  obtain b ld' where b: "bucket sid ld = (b, ld')" by force
  note f = bucket_facts [OF b]
  have r: "loop_record sid tool ld = ld'\<lparr>calls := AList.update sid (deque_append tool b) (calls ld')\<rparr>"
    by (simp add: loop_record_def b)
  have m: "maxlen (deque_append tool b) = window ld'"
    using f by (simp add: deque_append_def deque_of_def)
  have "recent (loop_record sid tool ld) j = (if j = sid then items (deque_append tool b) else recent ld j)"
    for j using f by (simp add: r recent_update [OF m])
  then show ?thesis using f by (simp add: r deque_append_def deque_of_def)
qed

lemma loop_check_facts:
  "fst (loop_check sid tool ld) =
     (let n = length (takeWhile (\<lambda>x. x = tool) (rev (recent (loop_record sid tool ld) sid)))
      in if repeat_threshold ld \<le> n then Some (n, tool) else None) \<and>
   recent (snd (loop_check sid tool ld)) = recent (loop_record sid tool ld) \<and>
   window (snd (loop_check sid tool ld)) = window ld \<and>
   repeat_threshold (snd (loop_check sid tool ld)) = repeat_threshold ld"
proof -
  let ?ld = "loop_record sid tool ld"
  obtain b ld' where b: "bucket sid ?ld = (b, ld')" by force
  note f = bucket_facts [OF b] and r = loop_record_facts [of sid tool ld]
  have "recent ld' j = recent ?ld j" for j
    using f by (cases "j = sid") (simp_all add: recent_def)
  then show ?thesis
    using f r by (auto simp: loop_check_def trailing_repeat_def b Let_def fun_eq_iff)
qed

text \<open>The calls of one session, one after the other, interleaved with those of others.\<close>

definition run_checks :: "(pystr \<times> pystr) list \<Rightarrow> loop_detector \<Rightarrow> loop_detector" where
  "run_checks cs ld = fold (\<lambda>(sid, tool) ld. snd (loop_check sid tool ld)) cs ld"

definition session_calls :: "pystr \<Rightarrow> (pystr \<times> pystr) list \<Rightarrow> pystr list" where
  "session_calls sid cs = map snd [c \<leftarrow> cs. fst c = sid]"

definition new_detector :: "nat \<Rightarrow> nat \<Rightarrow> loop_detector" where
  "new_detector threshold w = \<lparr>repeat_threshold = threshold, window = w, calls = []\<rparr>"

lemma drop_snoc_window:
  "drop (length (drop (length xs - w) xs) + 1 - w) (drop (length xs - w) xs @ [x]) =
   drop (length (xs @ [x]) - w) (xs @ [x])"
  by (cases "length xs \<le> w") (auto simp: drop_Cons' Suc_diff_le)

lemma run_checks_recent:
  "recent (run_checks cs (new_detector th w)) sid =
     drop (length (session_calls sid cs) - w) (session_calls sid cs) \<and>
   window (run_checks cs (new_detector th w)) = w \<and>
   repeat_threshold (run_checks cs (new_detector th w)) = th"
proof (induction cs rule: rev_induct)
  case Nil
  then show ?case
    by (simp add: run_checks_def new_detector_def recent_def bucket_def deque_of_def session_calls_def Let_def)
next
  case (snoc c cs)
  obtain s t where c: "c = (s, t)" by (cases c)
  let ?ld = "run_checks cs (new_detector th w)"
  have step: "run_checks (cs @ [c]) (new_detector th w) = snd (loop_check s t ?ld)"
    by (simp add: run_checks_def c)
  note f = loop_check_facts [of s t ?ld] and r = loop_record_facts [of s t ?ld]
  have IH: "recent ?ld sid = drop (length (session_calls sid cs) - w) (session_calls sid cs)"
    and IHw: "window ?ld = w" and IHt: "repeat_threshold ?ld = th"
    using snoc by blast+
  have w: "window (snd (loop_check s t ?ld)) = w" "repeat_threshold (snd (loop_check s t ?ld)) = th"
    using f IHw IHt by simp_all
  have fr: "recent (snd (loop_check s t ?ld)) = recent (loop_record s t ?ld)" using f by blast
  show ?case
  proof (cases "s = sid")
    case True
    have rs: "recent (loop_record s t ?ld) s =
        drop (length (recent ?ld s) + 1 - window ?ld) (recent ?ld s @ [t])"
      using r by blast
    have sc: "session_calls sid (cs @ [c]) = session_calls sid cs @ [t]"
      using True by (simp add: session_calls_def c)
    have "recent (snd (loop_check s t ?ld)) sid =
        drop (length (recent ?ld sid) + 1 - w) (recent ?ld sid @ [t])"
      using rs fr IHw True by simp
    also have "\<dots> = drop (length (session_calls sid cs @ [t]) - w) (session_calls sid cs @ [t])"
      unfolding IH by (rule drop_snoc_window)
    finally show ?thesis using w unfolding step sc by blast
  next
    case False
    then have "session_calls sid (cs @ [c]) = session_calls sid cs"
      by (simp add: session_calls_def c)
    moreover have "recent (loop_record s t ?ld) sid = recent ?ld sid" using r False by auto
    ultimately show ?thesis using w unfolding step fr IH by simp
  qed
qed

lemma length_takeWhile_take: "length (takeWhile p (take n ys)) = min n (length (takeWhile p ys))"
  by (induction ys arbitrary: n) (auto simp: take_Cons')

lemma takeWhile_rev_drop:
  "length (takeWhile p (rev (drop (length xs - w) xs))) = min w (length (takeWhile p (rev xs)))"
proof -
  have "rev (drop (length xs - w) xs) = take w (rev xs)"
    by (cases "w \<le> length xs") (simp_all add: rev_drop)
  then show ?thesis by (simp only: length_takeWhile_take)
qed

lemma takeWhile_all_take:
  "n \<le> length (takeWhile p ys) \<longleftrightarrow> n \<le> length ys \<and> (\<forall>y\<in>set (take n ys). p y)"
proof (induction ys arbitrary: n)
  case (Cons y ys)
  then show ?case by (cases n) auto
qed simp

lemma last_calls_iff:
  "th \<le> length (takeWhile p (rev xs)) \<longleftrightarrow>
     th \<le> length xs \<and> (\<forall>y\<in>set (drop (length xs - th) xs). p y)"
  by (simp add: takeWhile_all_take take_rev)

section \<open>Sequencing\<close>

record outcome =
  failures :: "string list"
  warnings :: "(pystr \<times> pystr) list"
  reject_reason :: "(pystr \<times> pystr) option"

definition no_finding :: outcome where
  "no_finding = \<lparr>failures = [], warnings = [], reject_reason = None\<rparr>"

definition PREREQUISITES :: "(pystr, pystr list) dict" where
  "PREREQUISITES =
     [(u ''create_order_tool'', [u ''product_search_tool'']),
      (u ''cancel_order_tool'', [u ''query_order_tool''])]"

definition HARD_REJECT_TOOLS :: "pystr list" where
  "HARD_REJECT_TOOLS = [u ''create_order_tool'']"

type_synonym tracker = "(pystr, pystr list) dict"

definition called :: "tracker \<Rightarrow> pystr \<Rightarrow> pystr list" where
  "called tr sid = (case map_of tr sid of None \<Rightarrow> [] | Some xs \<Rightarrow> xs)"

definition seq_record :: "pystr \<Rightarrow> pystr \<Rightarrow> tracker \<Rightarrow> tracker" where
  "seq_record sid tool tr = AList.update sid (called tr sid @ [tool]) tr"

definition seq_reset :: "pystr \<Rightarrow> tracker \<Rightarrow> tracker" where
  "seq_reset sid tr = AList.delete sid tr"

definition seq_check :: "pystr \<Rightarrow> pystr \<Rightarrow> tracker \<Rightarrow> outcome" where
  "seq_check sid tool tr =
     (case map_of PREREQUISITES tool of
        None \<Rightarrow> no_finding
      | Some prereqs \<Rightarrow>
          (case List.find (\<lambda>p. p \<notin> set (called tr sid)) prereqs of
             None \<Rightarrow> no_finding
           | Some p \<Rightarrow>
               if tool \<in> set HARD_REJECT_TOOLS \<and> called tr sid \<noteq> []
               then no_finding\<lparr>reject_reason := Some (tool, p)\<rparr>
               else no_finding\<lparr>warnings := [(tool, p)]\<rparr>))"

lemma called_record [simp]:
  "called (seq_record sid tool tr) s = (if s = sid then called tr sid @ [tool] else called tr s)"
  "called (seq_reset sid tr) s = (if s = sid then [] else called tr s)"
  by (simp_all add: called_def seq_record_def seq_reset_def map_of_update map_of_delete)

section \<open>Schema\<close>

definition TOOL_REQUIRED_FIELDS :: "(pystr, pystr list) dict" where
  "TOOL_REQUIRED_FIELDS =
     [(u ''product_search_tool'', [u ''hits'', u ''recall_strategy'']),
      (u ''category_insight_tool'', [u ''insights'']),
      (u ''create_order_tool'', [u ''order_id'', u ''status'']),
      (u ''query_order_tool'', [u ''order_id'', u ''status'']),
      (u ''cancel_order_tool'', [u ''order_id'', u ''status''])]"

text \<open>
  \<open>check_schema\<close> on the text of a chunk, the only use in the program; \<open>loads\<close> is \<open>json.loads\<close>.
\<close>

definition check_schema :: "(pystr \<Rightarrow> json result) \<Rightarrow> pystr \<Rightarrow> pystr \<Rightarrow> outcome" where
  "check_schema loads tool text =
     (case map_of TOOL_REQUIRED_FIELDS tool of
        None \<Rightarrow> no_finding
      | Some required \<Rightarrow>
          if startswith (py_lstrip text) (u ''[error]'') then no_finding
          else (case loads text of
             Inl e \<Rightarrow> no_finding\<lparr>failures := [''not json'']\<rparr>
           | Inr (JObj obj) \<Rightarrow>
               (if [k \<leftarrow> required. k \<notin> fst ` set obj] \<noteq> []
                then no_finding\<lparr>failures := [''missing fields'']\<rparr> else no_finding)
           | Inr _ \<Rightarrow> no_finding\<lparr>failures := [''not an object'']\<rparr>))"

section \<open>The middleware\<close>

datatype notice =
    PrerequisiteMissing pystr pystr
  | Converge nat pystr
  | SchemaBroken string
  | InjectionFiltered

fun notice_text :: "notice \<Rightarrow> pystr" where
  "notice_text (PrerequisiteMissing tool p) = u ''prerequisite missing: '' @ p"
| "notice_text (Converge n tool) = u ''converge: '' @ tool"
| "notice_text (SchemaBroken reason) = u ''schema: '' @ u reason"
| "notice_text InjectionFiltered = u ''filtered''"

datatype harness_event = Rejected | LoopDetected | LoopWouldTrigger | SchemaFailed | ContentFiltered

text \<open>
  \<open>_active_dispatches\<close> maps a session to a set object, named by its index in \<open>dispatch_sets\<close>: a call
  keeps its reference to the set it started with.
\<close>

record harness =
  tracker :: tracker
  detector :: loop_detector
  dispatch_sets :: "pystr list list"
  active :: "(pystr, nat) dict"
  content_filter_enabled :: bool
  loop_feedback_enabled :: bool

record tool_args =
  arg_subagent :: "pystr option"
  arg_platform :: "pystr option"
  arg_locale :: "pystr option"

definition TASK_DISPATCH :: pystr where "TASK_DISPATCH = u ''task_dispatch''"

definition str_or_empty :: "pystr option \<Rightarrow> pystr" where
  "str_or_empty x = (case x of None \<Rightarrow> [] | Some s \<Rightarrow> s)"

definition loop_action_key :: "pystr \<Rightarrow> tool_args \<Rightarrow> pystr" where
  "loop_action_key tool a =
     (if tool \<noteq> TASK_DISPATCH then tool
      else join (u '':'') [tool, str_or_empty (arg_subagent a), str_or_empty (arg_platform a),
                           str_or_empty (arg_locale a)])"

text \<open>The default dictionary: the session's set, created on first use.\<close>

definition session_set :: "pystr \<Rightarrow> harness \<Rightarrow> nat \<times> harness" where
  "session_set sid h =
     (case map_of (active h) sid of
        Some i \<Rightarrow> (i, h)
      | None \<Rightarrow> (length (dispatch_sets h),
          h\<lparr>dispatch_sets := dispatch_sets h @ [[]],
            active := AList.update sid (length (dispatch_sets h)) (active h)\<rparr>))"

definition set_at :: "harness \<Rightarrow> nat \<Rightarrow> pystr list" where
  "set_at h i = (if i < length (dispatch_sets h) then dispatch_sets h ! i else [])"

datatype pre_result = PreRejected chunk | Proceed "notice list" "(nat \<times> pystr) option"

definition pre_loop :: "pystr \<Rightarrow> pystr \<Rightarrow> tool_args \<Rightarrow> harness \<Rightarrow>
    (nat \<times> pystr) option \<times> (nat \<times> pystr) option \<times> harness" where
  "pre_loop sid tool a h =
     (if tool \<noteq> TASK_DISPATCH
      then (case loop_check sid tool (detector h) of (hint, ld) \<Rightarrow> (hint, None, h\<lparr>detector := ld\<rparr>))
      else (let key = loop_action_key tool a
            in case session_set sid h of (i, h1) \<Rightarrow>
                 if set_at h1 i \<noteq> [] \<and> key \<notin> set (set_at h1 i) then (None, Some (i, key), h1)
                 else (case loop_check sid tool (detector h1) of
                         (hint, ld) \<Rightarrow> (hint, Some (i, key), h1\<lparr>detector := ld\<rparr>))))"

definition harness_pre :: "pystr \<Rightarrow> pystr \<Rightarrow> tool_args \<Rightarrow> harness \<Rightarrow>
    pre_result \<times> harness_event list \<times> harness" where
  "harness_pre sid tool a h =
     (let seq = seq_check sid tool (tracker h)
      in case reject_reason seq of
           Some (t, p) \<Rightarrow> (PreRejected (error_chunk ''prerequisite missing''), [Rejected], h)
         | None \<Rightarrow>
             (case pre_loop sid tool a h of (hint, disp, h1) \<Rightarrow>
                let (evs, hints) = (case hint of
                       None \<Rightarrow> ([], [])
                     | Some (n, t) \<Rightarrow>
                         if loop_feedback_enabled h1 then ([LoopDetected], [Converge n t])
                         else ([LoopWouldTrigger], []));
                    h2 = h1\<lparr>tracker := seq_record sid tool (tracker h1)\<rparr>;
                    h3 = (case disp of
                       None \<Rightarrow> h2
                     | Some (i, key) \<Rightarrow>
                         h2\<lparr>dispatch_sets := (dispatch_sets h2)[i := List.insert key (set_at h2 i)]\<rparr>)
                in (Proceed (map (\<lambda>(t, p). PrerequisiteMissing t p) (warnings seq) @ hints) disp, evs, h3)))"

definition finish_dispatch :: "pystr \<Rightarrow> (nat \<times> pystr) option \<Rightarrow> harness \<Rightarrow> harness" where
  "finish_dispatch sid disp h =
     (case disp of
        None \<Rightarrow> h
      | Some (i, key) \<Rightarrow>
          (let h1 = h\<lparr>dispatch_sets := (dispatch_sets h)[i := removeAll key (set_at h i)]\<rparr>
           in if set_at h1 i = [] then h1\<lparr>active := AList.delete sid (active h1)\<rparr> else h1))"

definition rebuild_chunk :: "chunk \<Rightarrow> pystr \<Rightarrow> notice list \<Rightarrow> chunk" where
  "rebuild_chunk original text notices =
     (let suffix = join [10] (map (\<lambda>n. u ''[harness] '' @ notice_text n) notices);
          text' = (if notices = [] then text else if text = [] then suffix else text @ [10] @ suffix)
      in \<lparr>content = [TextBlock text'], chunk_error = chunk_error original\<rparr>)"

text \<open>
  After the tool: its chunks, or the exception that passes through. \<open>sanitize\<close> is
  \<open>sanitize_tool_output\<close>, \<open>loads\<close> is \<open>json.loads\<close>.
\<close>

definition harness_post :: "(pystr \<Rightarrow> json result) \<Rightarrow> (pystr \<Rightarrow> bool \<times> pystr) \<Rightarrow> pystr \<Rightarrow> pystr \<Rightarrow>
    notice list \<Rightarrow> (nat \<times> pystr) option \<Rightarrow> chunk list result \<Rightarrow> harness \<Rightarrow>
    chunk list result \<times> harness_event list \<times> harness" where
  "harness_post loads sanitize sid tool notices disp res h =
     (let h1 = finish_dispatch sid disp h
      in case res of
           Inl e \<Rightarrow> (Inl e, [], h1)
         | Inr chunks \<Rightarrow>
             if chunks = [] then (Inr [], [], h1)
             else
               (let text = chunk_text (last chunks);
                    schema = check_schema loads tool text;
                    (evs1, n1) = (case failures schema of
                       [] \<Rightarrow> ([], notices)
                     | reason # _ \<Rightarrow> ([SchemaFailed], notices @ [SchemaBroken reason]));
                    (evs2, n2, text2) =
                      (if content_filter_enabled h \<and> text \<noteq> []
                       then (case sanitize text of (hit, cleaned) \<Rightarrow>
                               if hit then (evs1 @ [ContentFiltered], n1 @ [InjectionFiltered], cleaned)
                               else (evs1, n1, text))
                       else (evs1, n1, text))
                in (Inr (butlast chunks @ [rebuild_chunk (last chunks) text2 n2]), evs2, h1)))"

section \<open>Properties\<close>

text \<open>Also: The loop detector is exact and isolated by session. After any interleaving of calls of any
  sessions, a call of \<open>tool\<close> gets the convergence hint exactly when the last \<open>threshold\<close> calls of its
  own session, this one included, were all of that tool (and the window is long enough to see
  them); the count in the hint is the length of that run, up to the window.\<close>

theorem loop_hint_exact:
  "fst (loop_check sid tool (run_checks cs (new_detector th w))) =
    (let xs = session_calls sid cs @ [tool]
     in if th \<le> w \<and> th \<le> length xs \<and> list_all (\<lambda>y. y = tool) (drop (length xs - th) xs)
        then Some (min w (length (takeWhile (\<lambda>y. y = tool) (rev xs))), tool)
        else None)"
proof -
  let ?ld = "run_checks cs (new_detector th w)" and ?xs = "session_calls sid cs @ [tool]"
  note rr = run_checks_recent [of cs th w sid]
  have snoc: "run_checks (cs @ [(sid, tool)]) (new_detector th w) = snd (loop_check sid tool ?ld)"
    by (simp add: run_checks_def)
  have sc: "session_calls sid (cs @ [(sid, tool)]) = ?xs" by (simp add: session_calls_def)
  have "recent (snd (loop_check sid tool ?ld)) sid = drop (length ?xs - w) ?xs"
    using run_checks_recent [of "cs @ [(sid, tool)]" th w sid] unfolding snoc sc by blast
  then have rec: "recent (loop_record sid tool ?ld) sid = drop (length ?xs - w) ?xs"
    using loop_check_facts [of sid tool ?ld] by simp
  let ?n = "min w (length (takeWhile (\<lambda>y. y = tool) (rev ?xs)))"
  have "fst (loop_check sid tool ?ld) = (if th \<le> ?n then Some (?n, tool) else None)"
    using loop_check_facts [of sid tool ?ld] rr by (simp only: rec takeWhile_rev_drop Let_def)
  moreover have "th \<le> ?n \<longleftrightarrow> th \<le> w \<and> th \<le> length ?xs \<and>
      list_all (\<lambda>y. y = tool) (drop (length ?xs - th) ?xs)"
    by (simp only: min.bounded_iff last_calls_iff list_all_iff)
  ultimately show ?thesis unfolding Let_def by presburger
qed

definition ex_harness :: harness where
  "ex_harness = \<lparr>tracker = [], detector = new_detector 3 6, dispatch_sets = [], active = [],
     content_filter_enabled = True, loop_feedback_enabled = True\<rparr>"

definition ex_args :: "string \<Rightarrow> tool_args" where
  "ex_args platform = \<lparr>arg_subagent = Some (u ''search''), arg_platform = Some (u platform), arg_locale = None\<rparr>"

text \<open>Also: The order gate. A tool call is refused before it starts exactly when it would create an order
  in a session that has called tools but never searched for products; a refused call changes
  nothing and gets one error chunk. Every other call proceeds and is recorded in its session,
  and no refusal depends on other sessions.\<close>

theorem order_gate:
  "case harness_pre sid tool a h of
     (PreRejected c, evs, h') \<Rightarrow>
       tool = u ''create_order_tool'' \<and> called (tracker h) sid \<noteq> [] \<and>
       u ''product_search_tool'' \<notin> set (called (tracker h) sid) \<and>
       h' = h \<and> c = error_chunk ''prerequisite missing''
   | (Proceed notices disp, evs, h') \<Rightarrow>
       \<not> (tool = u ''create_order_tool'' \<and> called (tracker h) sid \<noteq> [] \<and>
          u ''product_search_tool'' \<notin> set (called (tracker h) sid)) \<and>
       called (tracker h') s = (if s = sid then called (tracker h) sid @ [tool] else called (tracker h) s)"
proof -
  have rej: "reject_reason (seq_check sid tool (tracker h)) \<noteq> None \<longleftrightarrow>
     tool = u ''create_order_tool'' \<and> called (tracker h) sid \<noteq> [] \<and>
     u ''product_search_tool'' \<notin> set (called (tracker h) sid)"
    by (auto simp: seq_check_def PREREQUISITES_def HARD_REJECT_TOOLS_def no_finding_def)
  show ?thesis
  proof (cases "reject_reason (seq_check sid tool (tracker h))")
    case None
    obtain hint disp h1 where pl: "pre_loop sid tool a h = (hint, disp, h1)"
      by (cases "pre_loop sid tool a h") auto
    have "tracker h1 = tracker h"
      using pl by (auto simp: pre_loop_def session_set_def Let_def split: prod.splits option.splits if_splits)
    then show ?thesis
      using None rej pl by (auto simp: harness_pre_def Let_def split: option.splits prod.splits)
  next
    case (Some x)
    then show ?thesis using rej by (cases x) (simp add: harness_pre_def Let_def)
  qed
qed

text \<open>Also: What follows the tool is faithful to its result. An exception passes through unchanged; otherwise
  the caller gets as many chunks as the tool produced, all but the last untouched, and the last
  keeps its error state and carries the tool's text (sanitized when the filter hit) followed by
  the notices. The dispatch mark of the call is cleared in every case.\<close>

theorem harness_post_faithful:
  "case harness_post loads sanitize sid tool notices disp res h of
     (Inl e, evs, h') \<Rightarrow> res = Inl e \<and> h' = finish_dispatch sid disp h
   | (Inr out, evs, h') \<Rightarrow> h' = finish_dispatch sid disp h \<and>
       (\<exists>chunks. res = Inr chunks \<and> length out = length chunks \<and> butlast out = butlast chunks \<and>
         (chunks = [] \<or>
           chunk_error (last out) = chunk_error (last chunks) \<and>
           (\<exists>suffix. chunk_text (last out) = chunk_text (last chunks) @ suffix \<or>
              content_filter_enabled h \<and> fst (sanitize (chunk_text (last chunks))) \<and>
              chunk_text (last out) = snd (sanitize (chunk_text (last chunks))) @ suffix)))"
proof -
  have tx: "\<exists>suffix. chunk_text (rebuild_chunk c t ns) = t @ suffix" for c t ns
    by (auto simp: rebuild_chunk_def chunk_text_def List.map_filter_simps Let_def)
  have err: "chunk_error (rebuild_chunk c t ns) = chunk_error c" for c t ns
    by (simp add: rebuild_chunk_def Let_def)
  show ?thesis
  proof (cases res)
    case (Inr chunks)
    show ?thesis
    proof (cases "chunks = []")
      case False
      then have len: "length (butlast chunks @ [x]) = length chunks" for x by (cases chunks) auto
      show ?thesis
        using False Inr len tx err
        by (auto simp: harness_post_def Let_def ex_disj_distrib split: list.split prod.split)
    qed (simp add: harness_post_def Inr)
  qed (simp add: harness_post_def)
qed

text \<open>Also: Parallel dispatches of one session under equal action keys share one mark: when the first of two
  ends, the session's set is dropped although the second still runs, so that a distinct platform
  dispatched next is no longer recognised as parallel and is counted as a repetition, against
  the purpose of the mark.\<close>

theorem duplicate_dispatch_loses_mark:
  "(let start = (\<lambda>p (h :: harness). snd (snd (harness_pre (u ''s'') TASK_DISPATCH (ex_args p) h)));
        end_first = finish_dispatch (u ''s'') (Some (0, loop_action_key TASK_DISPATCH (ex_args ''amazon'')));
        twice = start ''amazon'' (start ''amazon'' ex_harness)
    in fst (snd (harness_pre (u ''s'') TASK_DISPATCH (ex_args ''ebay'') twice)) = [] \<and>
       fst (snd (harness_pre (u ''s'') TASK_DISPATCH (ex_args ''ebay'') (end_first twice))) = [LoopDetected])"
  by code_simp

end
