(* ===== verification/Preferences.thy ===== *)
theory Preferences
  imports Complex_Main Py_Float Tool_Chunk "HOL-Library.Product_Lexorder" "HOL-Library.Sublist"
begin

text \<open>
  Long-term buyer preferences: the value object and port (\<open>app/domain/buyer/preference.py\<close>), the
  file store (\<open>json_file_stores.py\<close>) and the relational store (\<open>sql/repositories.py\<close>), the
  selector (\<open>app/application/memory/preference_selector.py\<close>) and the tools that remember and
  forget. The locale \<open>preference_store\<close> is the port's contract, interpreted on both stores.
\<close>

section \<open>The value object\<close>

record preference =
  pf_buyer :: pystr
  pf_kind :: pystr
  pf_statement :: pystr
  pf_created_at :: pystr

definition LIKE :: pystr where "LIKE = u ''like''"
definition DISLIKE :: pystr where "DISLIKE = u ''dislike''"

definition mk_preference :: "pystr \<Rightarrow> preference \<Rightarrow> preference result" where
  "mk_preference now p =
     (if pf_kind p \<notin> set [LIKE, DISLIKE] then Inl (ValueError ''BuyerPreference.kind'')
      else if pf_statement p = [] \<or> blank (pf_statement p) then Inl (ValueError ''BuyerPreference.statement'')
      else Inr (if pf_created_at p = [] then p\<lparr>pf_created_at := now\<rparr> else p))"

definition pref_ok :: "preference \<Rightarrow> bool" where
  "pref_ok p \<longleftrightarrow> pf_kind p \<in> set [LIKE, DISLIKE] \<and> \<not> blank (pf_statement p) \<and> pf_created_at p \<noteq> []"

lemma mk_preference_ok: "now \<noteq> [] \<Longrightarrow> mk_preference now p = Inr p' \<Longrightarrow> pref_ok p' \<and> pf_buyer p' = pf_buyer p"
  by (auto simp: mk_preference_def pref_ok_def split: if_splits)

lemma mk_preference_id: "pref_ok p \<Longrightarrow> mk_preference now p = Inr p"
  by (auto simp: mk_preference_def pref_ok_def)

definition same_pref :: "preference \<Rightarrow> preference \<Rightarrow> bool" where
  "same_pref p q \<longleftrightarrow> pf_statement p = pf_statement q \<and> pf_kind p = pf_kind q"

section \<open>The port\<close>

record 's pref_port =
  pref_append :: "preference \<Rightarrow> 's \<Rightarrow> 's"
  pref_list :: "pystr \<Rightarrow> 's \<Rightarrow> preference list"
  pref_delete :: "pystr \<Rightarrow> pystr \<Rightarrow> 's \<Rightarrow> bool \<times> 's"

locale preference_store =
  fixes port :: "'s pref_port" and inv :: "'s \<Rightarrow> bool" and buyers :: "pystr set"
  assumes append_law: "inv s \<Longrightarrow> pref_ok p \<Longrightarrow> pf_buyer p \<in> buyers \<Longrightarrow> b \<in> buyers \<Longrightarrow>
      inv (pref_append port p s) \<and>
      pref_list port b (pref_append port p s) =
        (if b = pf_buyer p \<and> \<not> list_ex (same_pref p) (pref_list port b s)
         then pref_list port b s @ [p] else pref_list port b s)"
    and delete_law: "inv s \<Longrightarrow> b \<in> buyers \<Longrightarrow> c \<in> buyers \<Longrightarrow>
      pref_delete port b t s = (hit, sd) \<Longrightarrow> inv sd \<and>
      pref_list port c sd = (if c = b then [p \<leftarrow> pref_list port c s. pf_statement p \<noteq> t] else pref_list port c s) \<and>
      (hit \<longleftrightarrow> list_ex (\<lambda>p. pf_statement p = t) (pref_list port b s))"
    and list_law: "inv s \<Longrightarrow> p \<in> set (pref_list port b s) \<Longrightarrow> pref_ok p \<and> pf_buyer p = b"

text \<open>\<open>Remember now p\<close> builds the value object at time \<open>now\<close> and appends it.\<close>

datatype pref_op = Remember pystr preference | Forget pystr pystr

fun pref_step :: "'s pref_port \<Rightarrow> pref_op \<Rightarrow> 's \<Rightarrow> 's" where
  "pref_step port (Remember now p) s = (case mk_preference now p of
     Inl e \<Rightarrow> s | Inr q \<Rightarrow> pref_append port q s)"
| "pref_step port (Forget b t) s = snd (pref_delete port b t s)"

definition pref_run :: "'s pref_port \<Rightarrow> pref_op list \<Rightarrow> 's \<Rightarrow> 's" where
  "pref_run port ops s = fold (pref_step port) ops s"

text \<open>What a buyer's list should be after a history: the reference semantics of both stores.\<close>

fun spec_step :: "pystr \<Rightarrow> pref_op \<Rightarrow> preference list \<Rightarrow> preference list" where
  "spec_step b (Remember now p) ps = (case mk_preference now p of
     Inl e \<Rightarrow> ps
   | Inr q \<Rightarrow> if pf_buyer p = b \<and> \<not> list_ex (same_pref p) ps then ps @ [q] else ps)"
| "spec_step b (Forget c t) ps = (if c = b then [p \<leftarrow> ps. pf_statement p \<noteq> t] else ps)"

definition spec_run :: "pystr \<Rightarrow> pref_op list \<Rightarrow> preference list \<Rightarrow> preference list" where
  "spec_run b ops ps = fold (spec_step b) ops ps"

text \<open>The clock never reads the empty string; the buyers of the history are known ones.\<close>

fun op_ok :: "pystr set \<Rightarrow> pref_op \<Rightarrow> bool" where
  "op_ok buyers (Remember now p) = (now \<noteq> [] \<and> pf_buyer p \<in> buyers)"
| "op_ok buyers (Forget b t) = (b \<in> buyers)"

lemma mk_preference_keeps:
  "mk_preference now p = Inr q \<Longrightarrow> pf_buyer q = pf_buyer p \<and> pf_kind q = pf_kind p \<and> pf_statement q = pf_statement p"
  by (auto simp: mk_preference_def split: if_splits)

lemma same_pref_mk: "mk_preference now p = Inr q \<Longrightarrow> same_pref q = same_pref p"
  using mk_preference_keeps by (auto simp: same_pref_def fun_eq_iff)

context preference_store
begin

lemma pref_step_spec:
  assumes "inv s" "op_ok buyers op" "b \<in> buyers"
  shows "inv (pref_step port op s) \<and>
     pref_list port b (pref_step port op s) = spec_step b op (pref_list port b s)"
proof (cases op)
  case (Remember now p)
  show ?thesis
  proof (cases "mk_preference now p")
    case (Inr q)
    with Remember assms(2) have "pref_ok q" "pf_buyer q = pf_buyer p" "pf_buyer p \<in> buyers"
      using mk_preference_ok by auto
    with append_law [of s q b] assms(1,3) Remember Inr show ?thesis
      by (auto simp: same_pref_mk [OF Inr])
  qed (use assms Remember in simp)
next
  case (Forget c t)
  obtain hit s' where "pref_delete port c t s = (hit, s')" by force
  with delete_law [OF assms(1) _ assms(3) this] Forget assms(2) show ?thesis by auto
qed

lemma pref_run_spec:
  "inv s \<Longrightarrow> list_all (op_ok buyers) ops \<Longrightarrow> b \<in> buyers \<Longrightarrow> inv (pref_run port ops s) \<and>
     pref_list port b (pref_run port ops s) = spec_run b ops (pref_list port b s)"
proof (induction ops arbitrary: s)
  case (Cons op ops)
  then have st: "inv (pref_step port op s) \<and>
      pref_list port b (pref_step port op s) = spec_step b op (pref_list port b s)"
    by (intro pref_step_spec) simp_all
  with Cons.IH [of "pref_step port op s"] Cons.prems show ?case
    by (simp add: pref_run_def spec_run_def)
qed (simp add: pref_run_def spec_run_def)

lemma remember_idempotent:
  "inv s \<Longrightarrow> pref_ok p \<Longrightarrow> pf_buyer p \<in> buyers \<Longrightarrow> b \<in> buyers \<Longrightarrow>
   pref_list port b (pref_append port p (pref_append port p s)) = pref_list port b (pref_append port p s)"
  using append_law [of s p b] append_law [of "pref_append port p s" p b]
  by (auto simp: list_ex_iff same_pref_def)

end

section \<open>The relational store\<close>

text \<open>Rows in primary key order; the unique constraint is on buyer, kind and statement.\<close>

type_synonym pref_rows = "preference list"

definition row_conflict :: "preference \<Rightarrow> preference \<Rightarrow> bool" where
  "row_conflict p q \<longleftrightarrow> pf_buyer p = pf_buyer q \<and> same_pref p q"

definition sqlpref_append :: "preference \<Rightarrow> pref_rows \<Rightarrow> pref_rows" where
  "sqlpref_append p rows = (if list_ex (row_conflict p) rows then rows else rows @ [p])"

definition sqlpref_list :: "pystr \<Rightarrow> pref_rows \<Rightarrow> preference list" where
  "sqlpref_list b rows = [p \<leftarrow> rows. pf_buyer p = b]"

definition sqlpref_delete :: "pystr \<Rightarrow> pystr \<Rightarrow> pref_rows \<Rightarrow> bool \<times> pref_rows" where
  "sqlpref_delete b t rows =
     (let hits = [p \<leftarrow> rows. pf_buyer p = b \<and> pf_statement p = t]
      in (length hits \<noteq> 0, [p \<leftarrow> rows. \<not> (pf_buyer p = b \<and> pf_statement p = t)]))"

definition sqlpref_port :: "pref_rows pref_port" where
  "sqlpref_port = \<lparr>pref_append = sqlpref_append, pref_list = sqlpref_list, pref_delete = sqlpref_delete\<rparr>"

lemma sqlpref_list_delete:
  "sqlpref_list c (snd (sqlpref_delete b t rows)) =
    (if c = b then [p \<leftarrow> sqlpref_list c rows. pf_statement p \<noteq> t] else sqlpref_list c rows)"
  by (auto simp: sqlpref_list_def sqlpref_delete_def Let_def intro: filter_cong)

lemma sqlpref_delete_hit:
  "fst (sqlpref_delete b t rows) \<longleftrightarrow> list_ex (\<lambda>p. pf_statement p = t) (sqlpref_list b rows)"
  by (auto simp: sqlpref_list_def sqlpref_delete_def list_ex_iff filter_empty_conv)

interpretation sqlpref: preference_store sqlpref_port "list_all pref_ok" buyers for buyers
proof unfold_locales
  fix s p b assume "list_all pref_ok s" "pref_ok p"
  then show "list_all pref_ok (pref_append sqlpref_port p s) \<and>
      pref_list sqlpref_port b (pref_append sqlpref_port p s) =
        (if b = pf_buyer p \<and> \<not> list_ex (same_pref p) (pref_list sqlpref_port b s)
         then pref_list sqlpref_port b s @ [p] else pref_list sqlpref_port b s)"
    by (auto simp: sqlpref_port_def sqlpref_append_def sqlpref_list_def row_conflict_def list_ex_iff)
next
  fix s b t hit sd c assume ok: "list_all pref_ok s" and d: "pref_delete sqlpref_port b t s = (hit, sd)"
  then have "hit = fst (sqlpref_delete b t s)" "sd = snd (sqlpref_delete b t s)"
    by (simp_all add: sqlpref_port_def)
  moreover have "list_all pref_ok (snd (sqlpref_delete b t s))"
    using ok by (simp add: sqlpref_delete_def Let_def list_all_iff)
  ultimately show "list_all pref_ok sd \<and> pref_list sqlpref_port c sd =
        (if c = b then [p \<leftarrow> pref_list sqlpref_port c s. pf_statement p \<noteq> t] else pref_list sqlpref_port c s) \<and>
      (hit \<longleftrightarrow> list_ex (\<lambda>p. pf_statement p = t) (pref_list sqlpref_port b s))"
    using sqlpref_list_delete sqlpref_delete_hit by (simp add: sqlpref_port_def)
next
  fix s p b assume "list_all pref_ok s" "p \<in> set (pref_list sqlpref_port b s)"
  then show "pref_ok p \<and> pf_buyer p = b" by (simp add: sqlpref_port_def sqlpref_list_def list_all_iff)
qed

section \<open>The file store\<close>

text \<open>
  A directory of files: a name holds a text that does not parse, or the rows it parses to (a row
  without a timestamp is stamped at the time of reading). \<open>digest\<close> is the truncated SHA-256 of the
  buyer identifier and \<open>alnum\<close> is \<open>str.isalnum\<close> on one character.
\<close>

datatype pref_file = Corrupt | Rows "preference list"

type_synonym pref_dir = "pystr \<Rightarrow> pref_file option"

definition safe_name :: "(int \<Rightarrow> bool) \<Rightarrow> pystr \<Rightarrow> pystr" where
  "safe_name alnum raw = (let safe = [ch \<leftarrow> raw. alnum ch \<or> ch \<in> set (u ''-_'')]
     in if safe = [] then u ''anonymous'' else safe)"

record file_env =
  alnum :: "int \<Rightarrow> bool"
  digest :: "pystr \<Rightarrow> pystr"
  clock :: pystr

definition pref_path :: "file_env \<Rightarrow> pystr \<Rightarrow> pystr" where
  "pref_path env b = safe_name (alnum env) b @ u ''-'' @ digest env b @ u ''.json''"

definition legacy_path :: "file_env \<Rightarrow> pystr \<Rightarrow> pystr" where
  "legacy_path env b = safe_name (alnum env) b @ u ''.json''"

definition read_prefs :: "file_env \<Rightarrow> pystr \<Rightarrow> pref_file \<Rightarrow> preference list" where
  "read_prefs env b f = (case f of
     Corrupt \<Rightarrow> []
   | Rows rows \<Rightarrow> (case mapR (mk_preference (clock env)) rows of
       Inl e \<Rightarrow> []
     | Inr ps \<Rightarrow> if list_ex (\<lambda>p. pf_buyer p \<noteq> b) ps then [] else ps))"

definition filepref_list :: "file_env \<Rightarrow> pystr \<Rightarrow> pref_dir \<Rightarrow> preference list" where
  "filepref_list env b d =
     (let path = (if d (pref_path env b) = None \<and> d (legacy_path env b) \<noteq> None
                  then legacy_path env b else pref_path env b)
      in case d path of None \<Rightarrow> [] | Some f \<Rightarrow> read_prefs env b f)"

definition filepref_write :: "file_env \<Rightarrow> pystr \<Rightarrow> preference list \<Rightarrow> pref_dir \<Rightarrow> pref_dir" where
  "filepref_write env b ps d = d(pref_path env b \<mapsto> Rows ps)"

definition filepref_append :: "file_env \<Rightarrow> preference \<Rightarrow> pref_dir \<Rightarrow> pref_dir" where
  "filepref_append env p d =
     (let existing = filepref_list env (pf_buyer p) d
      in if list_ex (same_pref p) existing then d
         else filepref_write env (pf_buyer p) (existing @ [p]) d)"

definition filepref_delete :: "file_env \<Rightarrow> pystr \<Rightarrow> pystr \<Rightarrow> pref_dir \<Rightarrow> bool \<times> pref_dir" where
  "filepref_delete env b t d =
     (let existing = filepref_list env b d;
          remaining = [p \<leftarrow> existing. pf_statement p \<noteq> t]
      in if length remaining = length existing then (False, d)
         else (True, filepref_write env b remaining d))"

definition filepref_port :: "file_env \<Rightarrow> pref_dir pref_port" where
  "filepref_port env = \<lparr>pref_append = filepref_append env, pref_list = filepref_list env,
     pref_delete = filepref_delete env\<rparr>"

text \<open>
  The invariant: the clock reads a nonempty string, no two of the buyers share a file name, and the
  file named after one of them holds rows of that buyer only.
\<close>

definition dir_ok :: "file_env \<Rightarrow> pystr set \<Rightarrow> pref_dir \<Rightarrow> bool" where
  "dir_ok env buyers d \<longleftrightarrow> clock env \<noteq> [] \<and> inj_on (pref_path env) buyers \<and>
     (\<forall>b\<in>buyers. \<forall>rows. d (pref_path env b) = Some (Rows rows) \<longrightarrow> (\<forall>p\<in>set rows. pf_buyer p = b))"

lemma read_prefs_sound:
  assumes "clock env \<noteq> []" "p \<in> set (read_prefs env b f)"
  shows "pref_ok p \<and> pf_buyer p = b"
proof -
  from assms(2) obtain rows ps where "f = Rows rows" and
    ps: "mapR (mk_preference (clock env)) rows = Inr ps" "\<not> list_ex (\<lambda>p. pf_buyer p \<noteq> b) ps" "p \<in> set ps"
    by (cases f; cases "mapR (mk_preference (clock env)) (case f of Rows rows \<Rightarrow> rows | Corrupt \<Rightarrow> [])")
      (auto simp: read_prefs_def split: if_splits)
  from ps(1,3) obtain q where "mk_preference (clock env) q = Inr p"
    by (auto simp: mapR_Inr_iff dest: list_all2_in_right)
  with assms(1) mk_preference_ok ps(2,3) show ?thesis by (auto simp: list_ex_iff)
qed

lemma filepref_list_sound:
  "clock env \<noteq> [] \<Longrightarrow> p \<in> set (filepref_list env b d) \<Longrightarrow> pref_ok p \<and> pf_buyer p = b"
  by (auto simp: filepref_list_def Let_def dest!: read_prefs_sound split: option.splits)

lemma read_prefs_rows:
  "\<forall>p\<in>set ps. pref_ok p \<Longrightarrow> \<forall>p\<in>set ps. pf_buyer p = b \<Longrightarrow> read_prefs env b (Rows ps) = ps"
  using mapR_all_Inr [of ps "mk_preference (clock env)" id]
  by (simp add: read_prefs_def mk_preference_id list_ex_iff)

text \<open>Rows of another buyer read as nothing, whatever else the file holds.\<close>

lemma read_prefs_other:
  assumes "\<forall>p\<in>set rows. pf_buyer p = c" "c \<noteq> b"
  shows "read_prefs env b (Rows rows) = []"
proof (cases "mapR (mk_preference (clock env)) rows")
  case (Inr ps)
  then have "\<forall>p\<in>set ps. pf_buyer p = c"
    using assms(1) by (auto simp: mapR_Inr_iff dest!: list_all2_in_right mk_preference_keeps)
  with Inr assms(2) show ?thesis by (cases ps) (auto simp: read_prefs_def)
qed (simp add: read_prefs_def)

lemma filepref_list_write_same:
  assumes "\<forall>p\<in>set ps. pref_ok p \<and> pf_buyer p = b"
  shows "filepref_list env b (filepref_write env b ps d) = ps"
  using assms read_prefs_rows [of ps b env] by (simp add: filepref_list_def filepref_write_def)

lemma filepref_list_write_other:
  assumes ok: "dir_ok env buyers d" and bs: "b \<in> buyers" "c \<in> buyers" "c \<noteq> b"
    and ps: "\<forall>p\<in>set ps. pf_buyer p = b"
  shows "filepref_list env c (filepref_write env b ps d) = filepref_list env c d"
proof -
  have ne: "pref_path env c \<noteq> pref_path env b"
    using ok bs by (auto simp: dir_ok_def inj_on_def)
  show ?thesis
  proof (cases "legacy_path env c = pref_path env b \<and> d (pref_path env c) = None")
    case True
    \<comment> \<open>the fallback reads the file just written: another buyer's rows, before and after\<close>
    have "filepref_list env c (filepref_write env b ps d) = []"
      using True ne read_prefs_other [OF ps, of c env] bs(3)
      by (simp add: filepref_list_def filepref_write_def)
    moreover have "filepref_list env c d = []"
    proof (cases "d (pref_path env b)")
      case (Some f)
      show ?thesis
      proof (cases f)
        case (Rows rows)
        with ok Some bs(1) have "\<forall>p\<in>set rows. pf_buyer p = b" by (auto simp: dir_ok_def)
        from read_prefs_other [OF this, of c env] bs(3) Some Rows True show ?thesis
          by (simp add: filepref_list_def)
      qed (use Some True in \<open>simp add: filepref_list_def read_prefs_def\<close>)
    qed (use True in \<open>simp add: filepref_list_def\<close>)
    ultimately show ?thesis by simp
  next
    case False
    with ne show ?thesis by (auto simp: filepref_list_def filepref_write_def Let_def)
  qed
qed

lemma dir_ok_write:
  "dir_ok env buyers d \<Longrightarrow> b \<in> buyers \<Longrightarrow> \<forall>p\<in>set ps. pf_buyer p = b \<Longrightarrow>
   dir_ok env buyers (filepref_write env b ps d)"
  by (auto simp: dir_ok_def filepref_write_def inj_on_def)

lemma filepref_append_law:
  assumes ok: "dir_ok env buyers d" and p: "pref_ok p" "pf_buyer p \<in> buyers" and b: "b \<in> buyers"
  shows "dir_ok env buyers (filepref_append env p d) \<and>
    filepref_list env b (filepref_append env p d) =
      (if b = pf_buyer p \<and> \<not> list_ex (same_pref p) (filepref_list env b d)
       then filepref_list env b d @ [p] else filepref_list env b d)"
proof -
  let ?xs = "filepref_list env (pf_buyer p) d"
  have c: "clock env \<noteq> []" using ok by (simp add: dir_ok_def)
  have ps: "\<forall>q\<in>set (?xs @ [p]). pref_ok q \<and> pf_buyer q = pf_buyer p"
    using filepref_list_sound [OF c] p(1) by auto
  then have "\<forall>q\<in>set (?xs @ [p]). pf_buyer q = pf_buyer p" by blast
  note w = this filepref_list_write_same [OF ps, of env d]
  show ?thesis
  proof (cases "list_ex (same_pref p) ?xs")
    case True
    with ok show ?thesis by (auto simp: filepref_append_def)
  next
    case False
    with dir_ok_write [OF ok p(2) w(1)] filepref_list_write_other [OF ok p(2) b _ w(1)] w(2)
    show ?thesis by (auto simp: filepref_append_def Let_def)
  qed
qed

lemma filter_length_hit:
  "length [p \<leftarrow> xs. P p] = length xs \<longleftrightarrow> (\<forall>p\<in>set xs. P p)"
  by (induction xs) (auto simp: le_imp_less_Suc length_filter_le less_imp_neq)

lemma filepref_delete_law:
  assumes ok: "dir_ok env buyers d" and bs: "b \<in> buyers" "c \<in> buyers"
    and del: "filepref_delete env b t d = (hit, d')"
  shows "dir_ok env buyers d' \<and> filepref_list env c d' =
      (if c = b then [p \<leftarrow> filepref_list env c d. pf_statement p \<noteq> t] else filepref_list env c d) \<and>
    (hit \<longleftrightarrow> list_ex (\<lambda>p. pf_statement p = t) (filepref_list env b d))"
proof -
  let ?xs = "filepref_list env b d" and ?ys = "[p \<leftarrow> filepref_list env b d. pf_statement p \<noteq> t]"
  have clk: "clock env \<noteq> []" using ok by (simp add: dir_ok_def)
  have ps: "\<forall>q\<in>set ?ys. pref_ok q \<and> pf_buyer q = b" using filepref_list_sound [OF clk] by auto
  then have own: "\<forall>q\<in>set ?ys. pf_buyer q = b" by blast
  show ?thesis
  proof (cases "\<forall>p\<in>set ?xs. pf_statement p \<noteq> t")
    case True
    with del ok show ?thesis
      by (auto simp: filepref_delete_def Let_def filter_length_hit list_ex_iff cong: filter_cong)
  next
    case False
    with del have "hit" "d' = filepref_write env b ?ys d"
      by (auto simp: filepref_delete_def Let_def filter_length_hit)
    with dir_ok_write [OF ok bs(1) own] filepref_list_write_other [OF ok bs _ own]
      filepref_list_write_same [OF ps, of env d] False
    show ?thesis by (auto simp: list_ex_iff)
  qed
qed

interpretation filepref: preference_store "filepref_port env" "dir_ok env buyers" buyers
  for env buyers
proof unfold_locales
  fix s p b assume "dir_ok env buyers s" "pref_ok p" "pf_buyer p \<in> buyers" "b \<in> buyers"
  note law = filepref_append_law [OF this]
  show "dir_ok env buyers (pref_append (filepref_port env) p s) \<and>
      pref_list (filepref_port env) b (pref_append (filepref_port env) p s) =
        (if b = pf_buyer p \<and> \<not> list_ex (same_pref p) (pref_list (filepref_port env) b s)
         then pref_list (filepref_port env) b s @ [p] else pref_list (filepref_port env) b s)"
    unfolding filepref_port_def pref_port.simps by (rule law)
next
  fix s b c t hit sd
  assume "dir_ok env buyers s" "b \<in> buyers" "c \<in> buyers" "pref_delete (filepref_port env) b t s = (hit, sd)"
  then show "dir_ok env buyers sd \<and> pref_list (filepref_port env) c sd =
        (if c = b then [p \<leftarrow> pref_list (filepref_port env) c s. pf_statement p \<noteq> t]
         else pref_list (filepref_port env) c s) \<and>
      (hit \<longleftrightarrow> list_ex (\<lambda>p. pf_statement p = t) (pref_list (filepref_port env) b s))"
    using filepref_delete_law [of env buyers s b c t hit sd] by (simp add: filepref_port_def)
next
  fix s p b assume "dir_ok env buyers s" "p \<in> set (pref_list (filepref_port env) b s)"
  then show "pref_ok p \<and> pf_buyer p = b"
    using filepref_list_sound [of env p b s] by (simp add: filepref_port_def dir_ok_def)
qed

section \<open>The tools\<close>

text \<open>
  Both tools take the buyer from the context (a session and a buyer, when there is one) and never
  from the model. They return the published events, the chunk and the new store. \<open>fault\<close> is what
  the store's \<open>delete\<close> raises, if it does.
\<close>

type_synonym snapshot = "(pystr \<times> pystr) option"

definition session_of :: "snapshot \<Rightarrow> pystr" where
  "session_of snap = (case snap of None \<Rightarrow> u ''anonymous'' | Some (s, b) \<Rightarrow> s)"

definition buyer_of :: "snapshot \<Rightarrow> pystr" where
  "buyer_of snap = (case snap of None \<Rightarrow> u ''anonymous'' | Some (s, b) \<Rightarrow> b)"

datatype pref_event =
    Invoke pystr
  | Failed exn
  | Saved pystr
  | Deleted pystr
  | NotFound pystr nat

definition pref_line :: "preference \<Rightarrow> pystr" where
  "pref_line p = u ''- ['' @ pf_kind p @ u ''] '' @ pf_statement p"

definition render_preference_lines :: "preference list \<Rightarrow> pystr" where
  "render_preference_lines ps = join [10] (map pref_line ps)"

definition text_chunk :: "pystr \<Rightarrow> chunk" where
  "text_chunk t = \<lparr>content = [TextBlock t], chunk_error = False\<rparr>"

definition remember_preference_tool :: "'s pref_port \<Rightarrow> snapshot \<Rightarrow> pystr \<Rightarrow> pystr \<Rightarrow> pystr \<Rightarrow> 's \<Rightarrow>
    pref_event list \<times> chunk \<times> 's" where
  "remember_preference_tool port snap now kind statement s =
     (let p = \<lparr>pf_buyer = buyer_of snap, pf_kind = kind, pf_statement = statement, pf_created_at = []\<rparr>
      in case mk_preference now p of
           Inl e \<Rightarrow> ([Invoke statement, Failed e], error_chunk ''ValueError'', s)
         | Inr q \<Rightarrow> ([Invoke statement, Saved statement],
             text_chunk (u ''saved ['' @ kind @ u ''] '' @ statement), pref_append port q s))"

definition forget_preference_tool :: "'s pref_port \<Rightarrow> snapshot \<Rightarrow> exn option \<Rightarrow> pystr \<Rightarrow> 's \<Rightarrow>
    pref_event list \<times> chunk \<times> 's" where
  "forget_preference_tool port snap fault statement s =
     (case fault of
        Some e \<Rightarrow> ([Invoke statement, Failed e], error_chunk ''forget failed'', s)
      | None \<Rightarrow>
          (let (hit, s') = pref_delete port (buyer_of snap) statement s
           in if hit then ([Invoke statement, Deleted statement],
                           text_chunk (u ''forgotten '' @ statement), s')
              else (let remaining = pref_list port (buyer_of snap) s';
                        listing = (if remaining = [] then u ''none'' else render_preference_lines remaining)
                    in ([Invoke statement, NotFound statement (length remaining)],
                        text_chunk (u ''not found '' @ statement @ [10] @ listing), s'))))"

section \<open>The selector\<close>

text \<open>
  \<open>math.sqrt\<close> is a parameter; the rest of \<open>_cosine\<close> is on doubles, summed from the left. The
  embedder is a record of its two calls, either of which may raise.
\<close>

record embedder =
  embed_batch :: "pystr list \<Rightarrow> rat list list result"
  embed_one :: "pystr \<Rightarrow> rat list result"

definition py_sum :: "rat list \<Rightarrow> rat" where
  "py_sum xs = foldl fadd 0 xs"

definition cosine :: "(rat \<Rightarrow> rat) \<Rightarrow> rat list \<Rightarrow> rat list \<Rightarrow> rat" where
  "cosine sqroot l r =
     (if length l \<noteq> length r then 0
      else let dot = py_sum (map (\<lambda>(a, b). fmul a b) (zip l r));
               norm_l = sqroot (py_sum (map (\<lambda>a. fmul a a) l));
               norm_r = sqroot (py_sum (map (\<lambda>b. fmul b b) r))
           in if norm_l = 0 \<or> norm_r = 0 then 0 else fdiv dot (fmul norm_l norm_r))"

record selector =
  sel_embedder :: "embedder option"
  sel_relevance :: bool
  sel_sqrt :: "rat \<Rightarrow> rat"

definition relevance_enabled :: "selector \<Rightarrow> bool" where
  "relevance_enabled sel \<longleftrightarrow> sel_relevance sel \<and> sel_embedder sel \<noteq> None"

definition rank_by_relevance :: "selector \<Rightarrow> embedder \<Rightarrow> preference list \<Rightarrow> pystr \<Rightarrow> nat \<Rightarrow> preference list" where
  "rank_by_relevance sel em likes query k =
     (case andThen (embed_batch em (map pf_statement likes))
             (\<lambda>vectors. andThen (embed_one em query) (\<lambda>qv. Inr (vectors, qv))) of
        Inl e \<Rightarrow> []
      | Inr (vectors, qv) \<Rightarrow>
          if length vectors \<noteq> length likes \<or> qv = [] then []
          else let scored = map (\<lambda>(i, v, p). (cosine (sel_sqrt sel) v qv, i, p))
                     (enumerate 0 (zip vectors likes));
                   ordered = sort_key (\<lambda>(s, i, p). (- s, i)) scored;
                   picked = map (\<lambda>(s, i, p). p) (take k ordered)
               in [p \<leftarrow> likes. p \<in> set picked])"

definition select_preferences :: "selector \<Rightarrow> preference list \<Rightarrow> pystr \<Rightarrow> int \<Rightarrow> preference list" where
  "select_preferences sel prefs query top_k =
     (if prefs = [] then []
      else let dislikes = [p \<leftarrow> prefs. pf_kind p = DISLIKE];
               likes = [p \<leftarrow> prefs. pf_kind p \<noteq> DISLIKE]
           in if top_k \<le> 0 then dislikes
              else case (sel_relevance sel, sel_embedder sel) of
                (True, Some em) \<Rightarrow>
                  dislikes @ rank_by_relevance sel em likes query (nat (min top_k (int (length likes))))
              | _ \<Rightarrow> dislikes)"

text \<open>What the ranking keeps, when the embedder answers.\<close>

lemma sorted_take_drop:
  "x \<in> set (take k (sort_key f xs)) \<Longrightarrow> y \<in> set (drop k (sort_key f xs)) \<Longrightarrow> f x \<le> f y"
proof -
  assume "x \<in> set (take k (sort_key f xs))" "y \<in> set (drop k (sort_key f xs))"
  moreover have "sorted (map f (take k (sort_key f xs)) @ map f (drop k (sort_key f xs)))"
    by (simp flip: map_append)
  ultimately show ?thesis by (force simp: sorted_append)
qed

definition similarity :: "selector \<Rightarrow> (pystr \<Rightarrow> rat list) \<Rightarrow> rat list \<Rightarrow> preference \<Rightarrow> rat" where
  "similarity sel e qv p = cosine (sel_sqrt sel) (e (pf_statement p)) qv"

lemma enumerate_zip_map:
  "enumerate n (zip (map f xs) xs) = map (\<lambda>(i, x). (i, f x, x)) (enumerate n xs)"
  by (induction xs arbitrary: n) simp_all

lemma rank_by_relevance_best:
  assumes batch: "\<And>ss. embed_batch em ss = Inr (map e ss)" and q: "embed_one em query = Inr qv" "qv \<noteq> []"
    and d: "distinct likes" and k: "k \<le> length likes"
  shows "length (rank_by_relevance sel em likes query k) = k \<and>
    (\<forall>p\<in>set (rank_by_relevance sel em likes query k).
     \<forall>r\<in>set likes - set (rank_by_relevance sel em likes query k).
       similarity sel e qv r \<le> similarity sel e qv p)"
proof -
  define key :: "rat \<times> nat \<times> preference \<Rightarrow> rat \<times> nat" where "key = (\<lambda>(s, i, p). (- s, i))"
  define sc where "sc = map (\<lambda>(i, p). (similarity sel e qv p, i, p)) (enumerate 0 likes)"
  define o' where "o' = sort_key key sc"
  define proj :: "rat \<times> nat \<times> preference \<Rightarrow> preference" where "proj = (\<lambda>(s, i, p). p)"
  have proj_sc: "map proj sc = likes"
    by (simp add: sc_def proj_def comp_def case_prod_beta flip: map_map [of snd])
  have proj_set: "proj ` set o' = set likes" using proj_sc by (metis o'_def set_map set_sort)
  have sim: "fst x = similarity sel e qv (proj x)" if "x \<in> set o'" for x
    using that by (auto simp: o'_def sc_def proj_def)
  have sc_alt: "sc = map (\<lambda>x. (cosine (sel_sqrt sel) (e (pf_statement (snd x))) qv, x)) (enumerate 0 likes)"
    by (auto simp: sc_def similarity_def)
  have eq: "rank_by_relevance sel em likes query k = [p \<leftarrow> likes. p \<in> set (map proj (take k o'))]"
    using q by (simp add: rank_by_relevance_def batch o'_def sc_alt key_def proj_def map_map comp_def
        enumerate_zip_map [of 0 "\<lambda>p. e (pf_statement p)"] case_prod_beta)
  have len: "length o' = length likes" using proj_sc by (metis length_map length_sort o'_def)
  have "card (set (map proj o')) = length (map proj o')"
    using proj_set len d by (simp add: distinct_card)
  then have dist: "distinct (map proj o')" by (rule card_distinct)
  have sub: "set (map proj (take k o')) \<subseteq> set likes"
    using proj_set set_take_subset [of k o'] by auto
  have "distinct (map proj (take k o'))" using dist by (simp add: take_map [symmetric])
  from distinct_card [OF this] have "card (set (map proj (take k o'))) = k" using k len by simp
  moreover have "set (rank_by_relevance sel em likes query k) = set (map proj (take k o'))"
    using eq sub by auto
  moreover have "distinct (rank_by_relevance sel em likes query k)" using eq d by simp
  ultimately have "length (rank_by_relevance sel em likes query k) = k" by (metis distinct_card)
  moreover have "similarity sel e qv r \<le> similarity sel e qv p"
    if p: "p \<in> set (rank_by_relevance sel em likes query k)"
      and r: "r \<in> set likes - set (rank_by_relevance sel em likes query k)" for p r
  proof -
    from p eq obtain x where x: "x \<in> set (take k o')" "p = proj x" by auto
    from r eq have "r \<notin> set (map proj (take k o'))" and "r \<in> set (map proj o')" using proj_set by auto
    moreover have "set o' = set (take k o') \<union> set (drop k o')" by (metis append_take_drop_id set_append)
    ultimately obtain y where y: "y \<in> set (drop k o')" "r = proj y" by auto
    have "key x \<le> key y" using x(1) y(1) unfolding o'_def by (rule sorted_take_drop)
    then have "fst y \<le> fst x" by (auto simp: key_def case_prod_beta less_eq_prod_def)
    with sim [OF in_set_takeD [OF x(1)]] sim [OF in_set_dropD [OF y(1)]] x(2) y(2)
    show ?thesis by simp
  qed
  ultimately show ?thesis by blast
qed

lemma rank_by_relevance_subseq: "subseq (rank_by_relevance sel em likes query k) likes"
  by (auto simp: rank_by_relevance_def Let_def split: sum.split)

section \<open>Properties\<close>

text \<open>Also: starting from any corruption of the directory, and whatever the digest does, the file
  store never shows a buyer a preference that is not their own and well formed: neither a name
  collision nor the fallback to the old file names leaks another buyer's file.\<close>

theorem preferences_private:
  assumes "clock env \<noteq> []" and "p \<in> set (filepref_list env b d)"
  shows "pref_ok p \<and> pf_buyer p = b"
  using assms by (rule filepref_list_sound)

definition ex_pref :: "string \<Rightarrow> string \<Rightarrow> string \<Rightarrow> preference" where
  "ex_pref b k t = \<lparr>pf_buyer = u b, pf_kind = u k, pf_statement = u t, pf_created_at = u ''t0''\<rparr>"

definition ex_file_env :: file_env where
  "ex_file_env = \<lparr>alnum = (\<lambda>c. 97 \<le> c \<and> c \<le> 122), digest = id, clock = u ''t1''\<rparr>"

lemma ex_list_ab:
  "filepref_list ex_file_env (u ''ab'')
     [u ''ab.json'' \<mapsto> Rows [ex_pref ''ab'' ''like'' ''tea'']] = [ex_pref ''ab'' ''like'' ''tea'']"
  by code_simp

theorem preferences_private_witness:
  "pref_ok (ex_pref ''ab'' ''like'' ''tea'') \<and> pf_buyer (ex_pref ''ab'' ''like'' ''tea'') = u ''ab''"
  by (rule preferences_private [of ex_file_env _ _
        "[u ''ab.json'' \<mapsto> Rows [ex_pref ''ab'' ''like'' ''tea'']]"])
    (simp_all add: ex_list_ab, simp add: ex_file_env_def)

text \<open>C14: the file store and the relational store are interchangeable: from contents that list the
  same for every known buyer, any history of remember and forget operations leaves both listing,
  for every buyer, what the reference semantics gives.\<close>

theorem preference_stores_agree:
  assumes "dir_ok env buyers d" and "list_all pref_ok rows" and "list_all (op_ok buyers) ops"
    and "b \<in> buyers" and "filepref_list env b d = sqlpref_list b rows"
  shows "filepref_list env b (pref_run (filepref_port env) ops d) =
      spec_run b ops (sqlpref_list b rows) \<and>
    sqlpref_list b (pref_run sqlpref_port ops rows) = spec_run b ops (sqlpref_list b rows)"
  using filepref.pref_run_spec [OF assms(1,3,4)] sqlpref.pref_run_spec [OF assms(2,3,4)] assms(5)
  by (simp add: filepref_port_def sqlpref_port_def)

definition ex_ops :: "pref_op list" where
  "ex_ops = [Remember (u ''t1'') (ex_pref ''ab'' ''dislike'' ''plastic''),
     Remember (u ''t2'') (ex_pref ''ab'' ''dislike'' ''plastic''), Forget (u ''ab'') (u ''tea'')]"

lemma ex_file_env_path: "inj_on (pref_path ex_file_env) {u ''ab'', u ''cd''}"
  by (auto simp: inj_on_def pref_path_def ex_file_env_def safe_name_def u_def)

theorem preference_stores_agree_witness:
  "filepref_list ex_file_env (u ''ab'') (pref_run (filepref_port ex_file_env) ex_ops Map.empty) =
     [ex_pref ''ab'' ''dislike'' ''plastic''] \<and>
   sqlpref_list (u ''ab'') (pref_run sqlpref_port ex_ops []) = [ex_pref ''ab'' ''dislike'' ''plastic'']"
proof -
  have "dir_ok ex_file_env {u ''ab'', u ''cd''} Map.empty"
    using ex_file_env_path by (simp add: dir_ok_def) (simp add: ex_file_env_def)
  moreover have "list_all (op_ok {u ''ab'', u ''cd''}) ex_ops"
    by (simp add: ex_ops_def ex_pref_def)
  moreover have "filepref_list ex_file_env (u ''ab'') Map.empty = sqlpref_list (u ''ab'') []"
    by (simp add: filepref_list_def sqlpref_list_def)
  moreover have "spec_run (u ''ab'') ex_ops (sqlpref_list (u ''ab'') []) =
      [ex_pref ''ab'' ''dislike'' ''plastic'']"
    by code_simp
  ultimately show ?thesis
    using preference_stores_agree [of ex_file_env "{u ''ab'', u ''cd''}" Map.empty "[]" ex_ops "u ''ab''"]
    by simp
qed

text \<open>Also: whatever the embedder does, the selector never raises, keeps every dislike, first and in
  order, adds likes only in their stored order, and adds none when relevance is off, the limit is
  not positive or the embedding of the query fails.\<close>

theorem selector_keeps_dislikes:
  "\<exists>kept. select_preferences sel prefs query k = [p \<leftarrow> prefs. pf_kind p = DISLIKE] @ kept \<and>
     subseq kept [p \<leftarrow> prefs. pf_kind p \<noteq> DISLIKE] \<and>
     (kept = [] \<or> 0 < k \<and> relevance_enabled sel \<and>
        (\<exists>qv. embed_one (the (sel_embedder sel)) query = Inr qv))"
proof (cases "prefs = [] \<or> k \<le> 0 \<or> \<not> relevance_enabled sel")
  case True
  then show ?thesis
    by (intro exI [of _ "[]"])
      (auto simp: select_preferences_def relevance_enabled_def Let_def split: option.split bool.split)
next
  case False
  then obtain em where em: "sel_embedder sel = Some em" "sel_relevance sel" and k: "0 < k" and
    ne: "prefs \<noteq> []" by (auto simp: relevance_enabled_def)
  let ?likes = "[p \<leftarrow> prefs. pf_kind p \<noteq> DISLIKE]"
  let ?kept = "rank_by_relevance sel em ?likes query (nat (min k (int (length ?likes))))"
  have "?kept = [] \<or> (\<exists>qv. embed_one em query = Inr qv)"
    by (cases "embed_one em query"; cases "embed_batch em (map pf_statement ?likes)")
      (simp_all add: rank_by_relevance_def)
  moreover have "select_preferences sel prefs query k = [p \<leftarrow> prefs. pf_kind p = DISLIKE] @ ?kept"
    using em k ne by (simp add: select_preferences_def Let_def)
  ultimately show ?thesis
    using rank_by_relevance_subseq [of sel em ?likes query] em k
    by (intro exI [of _ ?kept]) (auto simp: relevance_enabled_def)
qed

text \<open>Also: when the embedder answers, exactly the limit's number of likes is kept (all of them if
  there are fewer), and no like left out is more similar to the query than one that is kept.\<close>

theorem selector_best_likes:
  assumes "sel_embedder sel = Some em" and "sel_relevance sel" and "0 < k" and "distinct prefs"
    and "\<And>ss. embed_batch em ss = Inr (map e ss)" and "embed_one em query = Inr qv" and "qv \<noteq> []"
  shows "\<exists>kept. select_preferences sel prefs query k = [p \<leftarrow> prefs. pf_kind p = DISLIKE] @ kept \<and>
     length kept = min (nat k) (length [p \<leftarrow> prefs. pf_kind p \<noteq> DISLIKE]) \<and>
     (\<forall>p\<in>set kept. \<forall>r\<in>set [p \<leftarrow> prefs. pf_kind p \<noteq> DISLIKE] - set kept.
        similarity sel e qv r \<le> similarity sel e qv p)"
proof -
  let ?likes = "[p \<leftarrow> prefs. pf_kind p \<noteq> DISLIKE]"
  let ?n = "nat (min k (int (length ?likes)))"
  have n: "?n = min (nat k) (length ?likes)" using assms(3) by (simp add: min_def nat_le_iff)
  note best = rank_by_relevance_best [OF assms(5-7), of ?likes ?n]
  have "select_preferences sel prefs query k =
      [p \<leftarrow> prefs. pf_kind p = DISLIKE] @ (if prefs = [] then [] else rank_by_relevance sel em ?likes query ?n)"
    using assms(1-3) by (simp add: select_preferences_def Let_def)
  then show ?thesis using best assms(4) n
    by (intro exI [of _ "if prefs = [] then [] else rank_by_relevance sel em ?likes query ?n"]) simp
qed

definition ex_vec :: "pystr \<Rightarrow> rat list" where
  "ex_vec t = (if t = u ''oolong'' then [1, 0] else [0, 1])"

definition ex_embedder :: embedder where
  "ex_embedder = \<lparr>embed_batch = (\<lambda>ss. Inr (map ex_vec ss)), embed_one = (\<lambda>t. Inr [1, 0])\<rparr>"

definition ex_selector :: selector where
  "ex_selector = \<lparr>sel_embedder = Some ex_embedder, sel_relevance = True, sel_sqrt = id\<rparr>"

definition ex_prefs :: "preference list" where
  "ex_prefs = [ex_pref ''ab'' ''like'' ''silk'', ex_pref ''ab'' ''dislike'' ''plastic'',
     ex_pref ''ab'' ''like'' ''oolong'']"

theorem selector_best_likes_witness:
  "\<exists>kept. select_preferences ex_selector ex_prefs (u ''tea'') 1 = [ex_pref ''ab'' ''dislike'' ''plastic''] @ kept \<and>
     length kept = 1"
  using selector_best_likes [of ex_selector ex_embedder 1 ex_prefs ex_vec "u ''tea''" "[1, 0]"]
  by (fastforce simp: ex_selector_def ex_embedder_def ex_prefs_def ex_pref_def DISLIKE_def)

end
