(* ===== verification/Context_Budget.thy ===== *)
theory Context_Budget
  imports Complex_Main Prelude
begin

text \<open>
  \<open>app/application/context/budget.py\<close> with the records \<open>LayerTokenCount\<close> and \<open>BudgetReport\<close> of
  \<open>models.py\<close>: the token estimate, the measurement of the layers and the decision that drives
  compaction. \<open>dumps\<close> is \<open>json.dumps\<close> with sorted keys (or \<open>str\<close> when it raises) on the values
  that are neither absent nor text.
\<close>

section \<open>Policy\<close>

datatype mode = ObserveOnly | Enforce

record policy =
  model_context_tokens :: int
  reply_reserved_tokens :: int
  safety_margin_tokens :: int
  soft_limit_tokens :: int
  mode_name :: pystr
  l2_hot_turns :: int
  l3_keep_recent_frozen_segments :: int
  l3_min_recent_frozen_segments :: int
  l3_max_recent_frozen_segments :: int
  l3_recent_frozen_token_limit :: int
  summary_target_tokens :: int
  summary_hard_limit_tokens :: int
  post_compression_target_ratio :: rat
  post_compression_max_ratio :: rat

definition default_policy :: "int \<Rightarrow> policy" where
  "default_policy n = \<lparr>model_context_tokens = n, reply_reserved_tokens = 0, safety_margin_tokens = 0,
     soft_limit_tokens = 0, mode_name = u ''observe_only'', l2_hot_turns = 1,
     l3_keep_recent_frozen_segments = 10, l3_min_recent_frozen_segments = 8,
     l3_max_recent_frozen_segments = 12, l3_recent_frozen_token_limit = 16000,
     summary_target_tokens = 8000, summary_hard_limit_tokens = 12000,
     post_compression_target_ratio = 55 / 100, post_compression_max_ratio = 60 / 100\<rparr>"

definition policy_values :: "policy \<Rightarrow> int list" where
  "policy_values p = [model_context_tokens p, reply_reserved_tokens p, safety_margin_tokens p,
     soft_limit_tokens p, l3_keep_recent_frozen_segments p, l3_min_recent_frozen_segments p,
     l3_max_recent_frozen_segments p, l3_recent_frozen_token_limit p, summary_target_tokens p,
     summary_hard_limit_tokens p]"

definition mk_policy :: "policy \<Rightarrow> policy result" where
  "mk_policy p =
     (if l2_hot_turns p < 1 then Inl (ValueError ''hot window'')
      else if mode_name p \<notin> set [u ''observe_only'', u ''enforce''] then Inl (ValueError ''mode'')
      else if list_ex (\<lambda>v. v < 0) (policy_values p) then Inl (ValueError ''negative'')
      else if summary_target_tokens p = 0 \<or> summary_hard_limit_tokens p = 0
        then Inl (ValueError ''summary limits'')
      else if summary_target_tokens p > summary_hard_limit_tokens p
        then Inl (ValueError ''summary target'')
      else if \<not> (0 < post_compression_target_ratio p \<and> post_compression_target_ratio p \<le> 1)
        then Inl (ValueError ''target ratio'')
      else if \<not> (0 < post_compression_max_ratio p \<and> post_compression_max_ratio p \<le> 1)
        then Inl (ValueError ''max ratio'')
      else if post_compression_target_ratio p > post_compression_max_ratio p
        then Inl (ValueError ''ratios'')
      else Inr p)"

section \<open>Measuring\<close>

datatype 'j layer_value = Absent | Str pystr | Other 'j

fun value_text :: "('j \<Rightarrow> pystr) \<Rightarrow> 'j layer_value \<Rightarrow> pystr" where
  "value_text dumps Absent = []"
| "value_text dumps (Str s) = s"
| "value_text dumps (Other j) = dumps j"

text \<open>The length of the UTF-8 encoding.\<close>

definition utf8_width :: "int \<Rightarrow> int" where
  "utf8_width c = (if c < 128 then 1 else if c < 2048 then 2 else if c < 65536 then 3 else 4)"

definition utf8_length :: "pystr \<Rightarrow> int" where
  "utf8_length s = sum_list (map utf8_width s)"

record layer_count =
  lc_name :: pystr
  lc_tokens :: int
  lc_method :: pystr
  lc_estimated :: bool

definition ESTIMATE :: pystr where "ESTIMATE = u ''estimate.utf8_bytes_div_4''"

definition count_tokens :: "('j \<Rightarrow> pystr) \<Rightarrow> 'j layer_value \<Rightarrow> pystr \<Rightarrow> layer_count" where
  "count_tokens dumps value name =
     (let text = value_text dumps value
      in if text = [] then \<lparr>lc_name = name, lc_tokens = 0, lc_method = u ''empty'', lc_estimated = False\<rparr>
         else \<lparr>lc_name = name, lc_tokens = max 1 \<lceil>(of_int (utf8_length text) :: rat) / 4\<rceil>,
               lc_method = ESTIMATE, lc_estimated = True\<rparr>)"

datatype decision = OkD | NeedsL3 | FixedOverflow | ActiveOverflow

record report =
  r_model_context :: int
  r_reply_reserved :: int
  r_safety_margin :: int
  r_layers :: "(pystr, layer_count) dict"
  r_tool_results :: "(pystr, layer_count) dict"
  r_total :: int
  r_available :: int
  r_overflow :: int
  r_estimated :: bool
  r_soft_limit :: int
  r_decision :: decision
  r_mode :: pystr

definition within_budget :: "report \<Rightarrow> bool" where
  "within_budget r \<longleftrightarrow> r_overflow r = 0"

definition sum_tokens :: "(pystr, layer_count) dict \<Rightarrow> int" where
  "sum_tokens d = sum_list (map (\<lambda>(k, c). lc_tokens c) d)"

definition measure_layers :: "('j \<Rightarrow> pystr) \<Rightarrow> pystr \<Rightarrow> (pystr, 'j layer_value) dict \<Rightarrow> (pystr, layer_count) dict" where
  "measure_layers dumps prefix ls = map (\<lambda>(k, v). (k, count_tokens dumps v (prefix @ k))) ls"

definition measure_budget :: "('j \<Rightarrow> pystr) \<Rightarrow> (pystr, 'j layer_value) dict \<Rightarrow>
    (pystr, 'j layer_value) dict \<Rightarrow> int \<Rightarrow> int \<Rightarrow> int \<Rightarrow> report" where
  "measure_budget dumps ls tool_results ctx reply margin =
     (let measured = measure_layers dumps [] ls;
          results = measure_layers dumps (u ''tool_result:'') tool_results;
          tot = sum_tokens measured + sum_tokens results;
          available = max 0 (ctx - reply - margin)
      in \<lparr>r_model_context = max 0 ctx, r_reply_reserved = max 0 reply,
          r_safety_margin = max 0 margin, r_layers = measured, r_tool_results = results,
          r_total = tot, r_available = available, r_overflow = max 0 (tot - available),
          r_estimated = list_ex (\<lambda>(k, c). lc_estimated c) (measured @ results),
          r_soft_limit = 0, r_decision = OkD, r_mode = u ''observe_only''\<rparr>)"

section \<open>Deciding\<close>

definition layer_tokens :: "report \<Rightarrow> string \<Rightarrow> int" where
  "layer_tokens r name = (case map_of (r_layers r) (u name) of None \<Rightarrow> 0 | Some c \<Rightarrow> lc_tokens c)"

definition fixed_tokens :: "report \<Rightarrow> int" where
  "fixed_tokens r = sum_list (map (layer_tokens r) [''fixed_prompt'', ''tool_schemas'', ''l4_candidate''])"

definition active_tokens :: "report \<Rightarrow> int" where
  "active_tokens r = sum_list (map (layer_tokens r) [''active'', ''current'']) + sum_tokens (r_tool_results r)"

definition decide_budget :: "report \<Rightarrow> policy \<Rightarrow> bool \<Rightarrow> report" where
  "decide_budget r p has_frozen_history =
     (let decision =
        (if fixed_tokens r > r_available r then FixedOverflow
         else if fixed_tokens r + active_tokens r > r_available r then ActiveOverflow
         else if r_total r > r_available r then (if has_frozen_history then NeedsL3 else ActiveOverflow)
         else if soft_limit_tokens p \<noteq> 0 \<and> r_total r > soft_limit_tokens p \<and> has_frozen_history
           then NeedsL3
         else OkD)
      in r\<lparr>r_soft_limit := soft_limit_tokens p, r_decision := decision, r_mode := mode_name p\<rparr>)"

section \<open>Bounds\<close>

lemma utf8_width_pos: "1 \<le> utf8_width c"
  by (simp add: utf8_width_def)

lemma utf8_length_ge: "int (length s) \<le> utf8_length s"
proof (induction s)
  case (Cons c s)
  with utf8_width_pos [of c] show ?case by (simp add: utf8_length_def)
qed (simp add: utf8_length_def)

lemma utf8_length_append: "utf8_length (s @ t) = utf8_length s + utf8_length t"
  by (simp add: utf8_length_def)

lemma count_tokens_nonneg: "0 \<le> lc_tokens (count_tokens dumps v name)"
  by (auto simp: count_tokens_def Let_def intro: max.coboundedI1)

lemma lc_name_count [simp]: "lc_name (count_tokens dumps v name) = name"
  by (simp add: count_tokens_def Let_def)

lemma sum_tokens_nonneg: "list_all (\<lambda>(k, c). 0 \<le> lc_tokens c) d \<Longrightarrow> 0 \<le> sum_tokens d"
  by (induction d) (auto simp: sum_tokens_def)

lemma measured_nonneg: "list_all (\<lambda>(k, c). 0 \<le> lc_tokens c) (measure_layers dumps prefix ls)"
  by (auto simp: list_all_iff measure_layers_def count_tokens_nonneg)

text \<open>The tokens looked up under distinct names never exceed the sum over the dictionary.\<close>

definition tokens_at :: "(pystr, layer_count) dict \<Rightarrow> pystr \<Rightarrow> int" where
  "tokens_at d k = (case map_of d k of None \<Rightarrow> 0 | Some c \<Rightarrow> lc_tokens c)"

lemma tokens_at_Cons: "tokens_at ((k, c) # d) n = (if n = k then lc_tokens c else tokens_at d n)"
  by (simp add: tokens_at_def)

lemma tokens_at_nonneg: "list_all (\<lambda>(k, c). 0 \<le> lc_tokens c) d \<Longrightarrow> 0 \<le> tokens_at d n"
  by (induction d) (auto simp: tokens_at_Cons, simp add: tokens_at_def)

lemma sum_tokens_names:
  assumes "finite N" "list_all (\<lambda>(k, c). 0 \<le> lc_tokens c) d"
  shows "sum (tokens_at d) N \<le> sum_tokens d"
  using assms(2,1)
proof (induction d arbitrary: N)
  case Nil
  then show ?case by (simp add: tokens_at_def sum_tokens_def)
next
  case (Cons kc d)
  obtain k c where kc: "kc = (k, c)" by (cases kc)
  have "sum (tokens_at (kc # d)) N \<le> lc_tokens c + sum (tokens_at d) (N - {k})"
  proof (cases "k \<in> N")
    case True
    then have "sum (tokens_at (kc # d)) N = lc_tokens c + sum (tokens_at (kc # d)) (N - {k})"
      using Cons.prems(2) by (simp add: sum.remove kc tokens_at_Cons)
    also have "sum (tokens_at (kc # d)) (N - {k}) = sum (tokens_at d) (N - {k})"
      by (rule sum.cong) (auto simp: kc tokens_at_Cons)
    finally show ?thesis by simp
  next
    case False
    then have "sum (tokens_at (kc # d)) N = sum (tokens_at d) N"
      by (intro sum.cong) (auto simp: kc tokens_at_Cons)
    with False Cons.prems(1) show ?thesis by (simp add: kc)
  qed
  moreover have "sum (tokens_at d) (N - {k}) \<le> sum_tokens d"
    by (rule Cons.IH) (use Cons.prems in simp_all)
  ultimately show ?case by (simp add: kc sum_tokens_def)
qed

lemma fixed_active_le_total:
  assumes "list_all (\<lambda>(k, c). 0 \<le> lc_tokens c) (r_layers r)"
  shows "fixed_tokens r + active_tokens r \<le> sum_tokens (r_layers r) + sum_tokens (r_tool_results r)"
  using sum_tokens_names [of "u ` {''fixed_prompt'', ''tool_schemas'', ''l4_candidate'', ''active'', ''current''}", OF _ assms]
  by (simp add: fixed_tokens_def active_tokens_def layer_tokens_def tokens_at_def sum.insert)

lemma utf8_length_pos: "s \<noteq> [] \<Longrightarrow> 1 \<le> utf8_length s"
  using utf8_length_ge [of s] by (cases s) auto

lemma ceiling_quarter: "4 * \<lceil>(of_int n :: rat) / 4\<rceil> \<in> {n..n + 3}"
proof -
  let ?c = "\<lceil>(of_int n :: rat) / 4\<rceil>"
  have "of_int ?c - 1 < (of_int n :: rat) / 4 \<and> (of_int n :: rat) / 4 \<le> of_int ?c"
    by (rule ceiling_correct)
  then have "(of_int n :: rat) \<le> 4 * of_int ?c" and "4 * of_int ?c < (of_int n :: rat) + 4" by linarith+
  then have "(of_int n :: rat) \<le> of_int (4 * ?c)" "of_int (4 * ?c) < (of_int (n + 4) :: rat)" by simp_all
  then show ?thesis unfolding of_int_le_iff of_int_less_iff by simp
qed

lemma count_tokens_bounds:
  "4 * lc_tokens (count_tokens dumps v name) \<in>
     {utf8_length (value_text dumps v)..utf8_length (value_text dumps v) + 3}"
proof (cases "value_text dumps v = []")
  case False
  let ?n = "utf8_length (value_text dumps v)"
  have "1 \<le> \<lceil>(of_int ?n :: rat) / 4\<rceil>"
    using ceiling_quarter [of ?n] utf8_length_pos [OF False] by simp
  then have "lc_tokens (count_tokens dumps v name) = \<lceil>(of_int ?n :: rat) / 4\<rceil>"
    using False by (simp add: count_tokens_def Let_def max_absorb2)
  with ceiling_quarter [of ?n] show ?thesis by simp
qed (simp add: count_tokens_def utf8_length_def)

section \<open>Properties\<close>

text \<open>Also: the token estimate of a text never undercounts a quarter of its UTF-8 bytes, exceeds it by
  less than one token, and estimating the parts of a text never gives less than the whole.\<close>

theorem token_estimate_bounds:
  "utf8_length s \<le> 4 * lc_tokens (count_tokens dumps (Str s) name) \<and>
   4 * lc_tokens (count_tokens dumps (Str s) name) < utf8_length s + 4 \<and>
   lc_tokens (count_tokens dumps (Str (s @ t)) name) \<le>
     lc_tokens (count_tokens dumps (Str s) name) + lc_tokens (count_tokens dumps (Str t) name)"
  using count_tokens_bounds [of dumps "Str s" name] count_tokens_bounds [of dumps "Str t" name]
    count_tokens_bounds [of dumps "Str (s @ t)" name] by (simp add: utf8_length_append)

lemma measured_total:
  "r_total (measure_budget dumps ls ts ctx reply margin) =
     sum_tokens (r_layers (measure_budget dumps ls ts ctx reply margin)) +
     sum_tokens (r_tool_results (measure_budget dumps ls ts ctx reply margin))"
  by (simp add: measure_budget_def Let_def)

lemma measured_layers_nonneg:
  "list_all (\<lambda>(k, c). 0 \<le> lc_tokens c) (r_layers (measure_budget dumps ls ts ctx reply margin))"
  using measured_nonneg by (simp add: measure_budget_def Let_def)

lemma measured_overflow:
  "r_overflow (measure_budget dumps ls ts ctx reply margin) = 0 \<longleftrightarrow>
   r_total (measure_budget dumps ls ts ctx reply margin) \<le>
   r_available (measure_budget dumps ls ts ctx reply margin)"
proof -
  have "max 0 (a - b) = 0 \<longleftrightarrow> a \<le> b" for a b :: int by (simp add: max_def)
  then show ?thesis unfolding measure_budget_def Let_def report.simps .
qed

text \<open>Whether the soft limit asks for compaction.\<close>

definition soft_exceeded :: "report \<Rightarrow> policy \<Rightarrow> bool" where
  "soft_exceeded r p \<longleftrightarrow> soft_limit_tokens p \<noteq> 0 \<and> r_total r > soft_limit_tokens p"

lemma measured_parts:
  "fixed_tokens (measure_budget dumps ls ts ctx reply margin) +
   active_tokens (measure_budget dumps ls ts ctx reply margin) \<le>
   r_total (measure_budget dumps ls ts ctx reply margin)"
  unfolding measured_total by (rule fixed_active_le_total [OF measured_layers_nonneg])

lemma measured_active_nonneg:
  "0 \<le> active_tokens (measure_budget dumps ls ts ctx reply margin)"
proof -
  let ?r = "measure_budget dumps ls ts ctx reply margin"
  have "0 \<le> sum_tokens (r_tool_results ?r)"
    using sum_tokens_nonneg [OF measured_nonneg] by (simp add: measure_budget_def Let_def)
  moreover have "0 \<le> layer_tokens ?r n" for n
    using tokens_at_nonneg [OF measured_layers_nonneg [of dumps ls ts ctx reply margin], of "u n"]
    by (simp add: layer_tokens_def tokens_at_def)
  ultimately show ?thesis by (simp add: active_tokens_def)
qed

text \<open>Also: on a measured prompt the decision is \<open>ok\<close> exactly when the prompt fits and the soft limit
  does not ask for compaction of an existing history; it asks for compaction only when there is a
  history to compact and the parts compaction cannot remove fit.\<close>

theorem budget_decision_exact:
  "r_decision (decide_budget (measure_budget dumps ls ts ctx reply margin) p frozen) =
    (if within_budget (measure_budget dumps ls ts ctx reply margin)
     then (if frozen \<and> soft_exceeded (measure_budget dumps ls ts ctx reply margin) p
           then NeedsL3 else OkD)
     else if fixed_tokens (measure_budget dumps ls ts ctx reply margin) >
         r_available (measure_budget dumps ls ts ctx reply margin) then FixedOverflow
     else if frozen \<and> fixed_tokens (measure_budget dumps ls ts ctx reply margin) +
         active_tokens (measure_budget dumps ls ts ctx reply margin) \<le>
         r_available (measure_budget dumps ls ts ctx reply margin) then NeedsL3
     else ActiveOverflow)"
  using measured_parts [of dumps ls ts ctx reply margin]
    measured_active_nonneg [of dumps ls ts ctx reply margin]
  by (auto simp: decide_budget_def Let_def within_budget_def measured_overflow soft_exceeded_def)

end
