(* ===== verification/Lifecycle.thy ===== *)
theory Lifecycle
  imports Json
begin

text \<open>
  \<open>app/application/context/lifecycle.py\<close>: grouping the messages of a session into interaction units
  and choosing the settled prefix that may be frozen. A message is what the code reads of an
  AgentScope \<open>Msg\<close>: role, name, tool call and tool result blocks, text, and how the reply ended.
  \<open>loads\<close> is \<open>json.loads\<close>.
\<close>

section \<open>Messages\<close>

record call_block =
  cb_id :: pystr
  cb_name :: pystr
  cb_input :: pystr

datatype result_state = Running | Success | OtherState

record result_block =
  rb_id :: pystr
  rb_state :: result_state
  rb_output :: pystr

record msg =
  m_role :: pystr
  m_name :: pystr
  m_calls :: "call_block list"
  m_results :: "result_block list"
  m_text :: pystr
  m_interrupted :: bool
  m_status_error :: bool

definition hint_names :: "pystr list" where "hint_names = [u ''memory_hint'']"

definition STRUCTURED_OUTPUT_TOOL :: pystr where
  "STRUCTURED_OUTPUT_TOOL = u ''GenerateStructuredOutput''"

definition is_buyer_message :: "msg \<Rightarrow> bool" where
  "is_buyer_message m \<longleftrightarrow> m_role m = u ''user'' \<and> m_name m \<notin> set hint_names"

definition is_hint :: "msg \<Rightarrow> bool" where
  "is_hint m \<longleftrightarrow> m_role m = u ''user'' \<and> m_name m \<in> set hint_names"

definition parse_args :: "(pystr \<Rightarrow> json result) \<Rightarrow> pystr \<Rightarrow> json" where
  "parse_args loads s = (case loads s of Inl e \<Rightarrow> JStr s | Inr v \<Rightarrow> v)"

section \<open>One unit\<close>

record scan =
  calls :: "(pystr, call_block \<times> nat) dict"
  call_order :: "pystr list"
  results :: "(pystr, result_block \<times> nat) dict"
  reasons :: "pystr list"
  final :: "msg option"
  status :: pystr

definition empty_scan :: scan where
  "empty_scan = \<lparr>calls = [], call_order = [], results = [], reasons = [], final = None,
     status = u ''completed''\<rparr>"

definition scan_call :: "nat \<Rightarrow> call_block \<Rightarrow> scan \<Rightarrow> scan" where
  "scan_call index b sc =
     (if cb_id b = [] \<or> map_of (calls sc) (cb_id b) \<noteq> None
      then sc\<lparr>reasons := reasons sc @ [u ''duplicate_tool_call_id'']\<rparr>
      else sc\<lparr>calls := AList.update (cb_id b) (b, index) (calls sc),
              call_order := call_order sc @ [cb_id b]\<rparr>)"

definition scan_result :: "nat \<Rightarrow> result_block \<Rightarrow> scan \<Rightarrow> scan" where
  "scan_result index b sc =
     (if rb_id b = [] \<or> map_of (calls sc) (rb_id b) = None \<or> map_of (results sc) (rb_id b) \<noteq> None
      then sc\<lparr>reasons := reasons sc @ [u ''orphan_tool_result'']\<rparr>
      else sc\<lparr>results := AList.update (rb_id b) (b, index) (results sc),
              reasons := reasons sc @ (if rb_state b = Running then [u ''running_tool_result''] else [])\<rparr>)"

definition scan_text :: "msg \<Rightarrow> scan \<Rightarrow> scan" where
  "scan_text m sc =
     (if m_role m = u ''assistant'' \<and> m_text m \<noteq> []
      then sc\<lparr>final := Some m,
              status := (if m_interrupted m then u ''interrupted''
                         else if m_status_error m then u ''error'' else status sc)\<rparr>
      else sc)"

definition scan_message :: "nat \<times> msg \<Rightarrow> scan \<Rightarrow> scan" where
  "scan_message im sc =
     (case im of (index, m) \<Rightarrow>
        scan_text m (fold (scan_result index) (m_results m) (fold (scan_call index) (m_calls m) sc)))"

definition scan_range :: "msg list \<Rightarrow> nat \<Rightarrow> nat \<Rightarrow> scan" where
  "scan_range ms human end' = fold scan_message (map (\<lambda>i. (i, ms ! i)) [human + 1..<end']) empty_scan"

fun structured_final_answer :: "(pystr \<Rightarrow> json result) \<Rightarrow> msg list \<Rightarrow> scan \<Rightarrow> pystr list \<Rightarrow> msg option" where
  "structured_final_answer loads ms sc [] = None"
| "structured_final_answer loads ms sc (c # rest) =
     (case (map_of (calls sc) c, map_of (results sc) c) of
        (Some (call, index), Some (r, _)) \<Rightarrow>
          (if cb_name call \<noteq> STRUCTURED_OUTPUT_TOOL \<or> rb_state r \<noteq> Success
           then structured_final_answer loads ms sc rest
           else case jget (parse_args loads (cb_input call)) ''final_text'' of
             JStr t \<Rightarrow> if blank t then structured_final_answer loads ms sc rest
               else Some \<lparr>m_role = u ''assistant'', m_name = m_name (ms ! index), m_calls = [],
                      m_results = [], m_text = py_strip t, m_interrupted = False,
                      m_status_error = False\<rparr>
           | _ \<Rightarrow> structured_final_answer loads ms sc rest)
      | _ \<Rightarrow> structured_final_answer loads ms sc rest)"

record tool_interaction =
  ti_name :: pystr
  ti_call_id :: pystr
  ti_args :: json
  ti_call_index :: nat
  ti_result_index :: nat
  ti_result :: result_block

record unit_record =
  u_start :: nat
  u_end :: nat
  u_human :: msg
  u_final :: "msg option"
  u_tools :: "tool_interaction list"
  u_complete :: bool
  u_reason :: pystr
  u_status :: pystr

definition interaction_of :: "(pystr \<Rightarrow> json result) \<Rightarrow> scan \<Rightarrow> pystr \<Rightarrow> tool_interaction option" where
  "interaction_of loads sc c =
     (case (map_of (calls sc) c, map_of (results sc) c) of
        (Some (call, ci), Some (r, ri)) \<Rightarrow>
          Some \<lparr>ti_name = cb_name call, ti_call_id = c, ti_args = parse_args loads (cb_input call),
             ti_call_index = ci, ti_result_index = ri, ti_result = r\<rparr>
      | _ \<Rightarrow> None)"

definition build_unit :: "(pystr \<Rightarrow> json result) \<Rightarrow> msg list \<Rightarrow> nat \<Rightarrow> nat \<Rightarrow> nat \<Rightarrow> unit_record" where
  "build_unit loads ms start human end' =
     (let sc = scan_range ms human end';
          missing = [c \<leftarrow> call_order sc. map_of (results sc) c = None];
          fin = (if final sc = None
                 then structured_final_answer loads ms sc (rev (call_order sc)) else final sc);
          why = reasons sc @ (if missing \<noteq> [] then [u ''missing_tool_result''] else [])
            @ (if fin = None then [u ''missing_final_answer''] else [])
      in \<lparr>u_start = start, u_end = end', u_human = ms ! human, u_final = fin,
          u_tools = List.map_filter (interaction_of loads sc) (call_order sc),
          u_complete = (why = []), u_reason = join (u '','') (dedup why), u_status = status sc\<rparr>)"

section \<open>Grouping\<close>

definition buyer_starts :: "msg list \<Rightarrow> nat list" where
  "buyer_starts ms = [i \<leftarrow> [0..<length ms]. is_buyer_message (ms ! i)]"

text \<open>The \<open>while\<close> loop, with its lower bound.\<close>

fun turn_start :: "msg list \<Rightarrow> nat \<Rightarrow> nat \<Rightarrow> nat" where
  "turn_start ms lower 0 = 0"
| "turn_start ms lower (Suc k) =
     (if lower < Suc k \<and> is_hint (ms ! k) then turn_start ms lower k else Suc k)"

fun turn_starts :: "msg list \<Rightarrow> nat \<Rightarrow> nat list \<Rightarrow> nat list" where
  "turn_starts ms lower [] = []"
| "turn_starts ms lower (b # bs) = turn_start ms lower b # turn_starts ms (b + 1) bs"

definition group_units :: "(pystr \<Rightarrow> json result) \<Rightarrow> msg list \<Rightarrow> unit_record list" where
  "group_units loads ms =
     (let bs = buyer_starts ms; starts = turn_starts ms 0 bs
      in map (\<lambda>i. build_unit loads ms (starts ! i) (bs ! i)
             (if i + 1 < length starts then starts ! (i + 1) else length ms)) [0..<length starts])"

section \<open>The settled prefix\<close>

fun settle :: "int \<Rightarrow> unit_record list \<Rightarrow> unit_record list" where
  "settle cursor [] = []"
| "settle cursor (x # xs) =
     (if int (u_end x) \<le> cursor then settle cursor xs
      else if int (u_start x) \<noteq> cursor \<or> \<not> u_complete x then []
      else x # settle (int (u_end x)) xs)"

definition settled_prefix :: "(pystr \<Rightarrow> json result) \<Rightarrow> msg list \<Rightarrow> int \<Rightarrow> bool \<Rightarrow> bool \<Rightarrow> int \<Rightarrow>
    unit_record list result" where
  "settled_prefix loads ms cursor pending interrupt hot =
     (if hot < 1 then Inl (ValueError ''hot_turns'')
      else if pending \<or> interrupt then Inr []
      else let units = group_units loads ms
           in if int (length units) \<le> hot then Inr []
              else Inr (settle (max 0 cursor) (take (length units - nat hot) units)))"

section \<open>The partition\<close>

lemma turn_start_bounds: "lower \<le> b \<Longrightarrow> lower \<le> turn_start ms lower b \<and> turn_start ms lower b \<le> b"
  by (induction ms lower b rule: turn_start.induct) auto

lemma turn_start_hints:
  "turn_start ms lower b \<le> i \<Longrightarrow> i < b \<Longrightarrow> is_hint (ms ! i)"
proof (induction ms lower b rule: turn_start.induct)
  case (2 ms lower k)
  then show ?case by (cases "i = k") (auto split: if_splits)
qed simp

lemma length_turn_starts [simp]: "length (turn_starts ms lower bs) = length bs"
  by (induction bs arbitrary: lower) auto

lemma turn_starts_nth:
  "i < length bs \<Longrightarrow> turn_starts ms lower bs ! i =
     turn_start ms (if i = 0 then lower else bs ! (i - 1) + 1) (bs ! i)"
  by (induction bs arbitrary: lower i) (auto simp: nth_Cons split: nat.split)

lemma buyer_starts_props:
  "sorted_wrt (<) (buyer_starts ms)" "i \<in> set (buyer_starts ms) \<longleftrightarrow> i < length ms \<and> is_buyer_message (ms ! i)"
  by (simp_all add: buyer_starts_def sorted_wrt_filter)

lemma buyer_not_hint: "is_buyer_message m \<Longrightarrow> \<not> is_hint m"
  by (simp add: is_buyer_message_def is_hint_def)

text \<open>The starts and the buyer messages interleave.\<close>

lemma starts_interleave:
  assumes "i < length (buyer_starts ms)"
  shows "turn_starts ms 0 (buyer_starts ms) ! i \<le> buyer_starts ms ! i"
    and "i + 1 < length (buyer_starts ms) \<Longrightarrow>
      buyer_starts ms ! i < turn_starts ms 0 (buyer_starts ms) ! (i + 1)"
proof -
  let ?bs = "buyer_starts ms"
  have lt: "?bs ! j < ?bs ! k" if "j < k" "k < length ?bs" for j k
    using buyer_starts_props(1) that by (simp add: sorted_wrt_iff_nth_less)
  show "turn_starts ms 0 ?bs ! i \<le> ?bs ! i"
    using assms turn_start_bounds lt [of "i - 1" i] by (auto simp: turn_starts_nth Suc_le_eq)
  show "?bs ! i < turn_starts ms 0 ?bs ! (i + 1)" if "i + 1 < length ?bs"
    using that lt [of i "i + 1"] turn_start_bounds [of "?bs ! i + 1" "?bs ! (i + 1)" ms]
    by (simp add: turn_starts_nth)
qed

lemma build_unit_fields [simp]:
  "u_start (build_unit loads ms s h e) = s" "u_end (build_unit loads ms s h e) = e"
  "u_human (build_unit loads ms s h e) = ms ! h"
  by (simp_all add: build_unit_def Let_def)

lemma group_units_nth:
  "i < length (buyer_starts ms) \<Longrightarrow> group_units loads ms ! i =
     build_unit loads ms (turn_starts ms 0 (buyer_starts ms) ! i) (buyer_starts ms ! i)
       (if i + 1 < length (buyer_starts ms) then turn_starts ms 0 (buyer_starts ms) ! (i + 1) else length ms)"
  by (simp add: group_units_def Let_def)

lemma length_group_units [simp]: "length (group_units loads ms) = length (buyer_starts ms)"
  by (simp add: group_units_def Let_def)

lemma unit_bounds:
  assumes "i < length (buyer_starts ms)"
  shows "u_start (group_units loads ms ! i) \<le> buyer_starts ms ! i"
    and "buyer_starts ms ! i < u_end (group_units loads ms ! i)"
  using assms starts_interleave [OF assms] buyer_starts_props(2) [of "buyer_starts ms ! i" ms]
  by (auto simp: group_units_nth)

lemma only_buyer:
  assumes i: "i < length (buyer_starts ms)" and j: "is_buyer_message (ms ! j)" "j < length ms"
    and range: "u_start (group_units loads ms ! i) \<le> j" "j < u_end (group_units loads ms ! i)"
  shows "j = buyer_starts ms ! i"
proof -
  let ?bs = "buyer_starts ms"
  have le: "?bs ! a \<le> ?bs ! b" if "a \<le> b" "b < length ?bs" for a b
    using buyer_starts_props(1) [of ms] that
    by (cases "a = b") (simp_all add: sorted_wrt_iff_nth_less order_less_imp_le)
  from j buyer_starts_props(2) obtain k where k: "k < length ?bs" "j = ?bs ! k"
    by (metis in_set_conv_nth)
  consider "k < i" | "k = i" | "i < k" by linarith
  then show ?thesis
  proof cases
    case 1
    then have "j \<le> ?bs ! (i - 1)" using le [of k "i - 1"] i k by simp
    also have "\<dots> < u_start (group_units loads ms ! i)"
      using starts_interleave(2) [of "i - 1" ms] i 1 by (simp add: group_units_nth)
    finally show ?thesis using range(1) by simp
  next
    case 3
    then have n: "i + 1 < length ?bs" using k(1) by simp
    then have "u_end (group_units loads ms ! i) \<le> ?bs ! (i + 1)"
      using starts_interleave(1) [OF n] i by (simp add: group_units_nth)
    also have "\<dots> \<le> j" using le [of "i + 1" k] 3 k by simp
    finally show ?thesis using range(2) by simp
  qed (use k in simp)
qed

lemma steps_increase:
  fixes f :: "'a \<Rightarrow> nat"
  assumes "\<And>i. Suc i < length xs \<Longrightarrow> f (xs ! i) < f (xs ! Suc i)"
  shows "sorted_wrt (\<lambda>x y. f x < f y) xs"
proof -
  have "f (xs ! i) < f (xs ! (i + Suc d))" if "i + Suc d < length xs" for i d
    using that
  proof (induction d)
    case (Suc d)
    then show ?case using assms [of "i + Suc d"] by simp
  qed (use assms in simp)
  then have "f (xs ! i) < f (xs ! j)" if "i < j" "j < length xs" for i j
    using that less_imp_Suc_add [OF that(1)] by auto
  then show ?thesis by (simp add: sorted_wrt_iff_nth_less)
qed

lemma units_ends_increase:
  "sorted_wrt (\<lambda>x y. u_end x < u_end y) (group_units loads ms)"
proof (rule steps_increase)
  fix i assume "Suc i < length (group_units loads ms)"
  then have n: "i + 1 < length (buyer_starts ms)" by simp
  then have "u_end (group_units loads ms ! i) = u_start (group_units loads ms ! (i + 1))"
    by (simp add: group_units_nth)
  with unit_bounds [OF n, of loads]
  show "u_end (group_units loads ms ! i) < u_end (group_units loads ms ! Suc i)" by simp
qed

section \<open>What a complete unit contains\<close>

definition call_blocks :: "msg list \<Rightarrow> nat list \<Rightarrow> call_block list" where
  "call_blocks ms is = concat (map (\<lambda>i. m_calls (ms ! i)) is)"

definition result_blocks :: "msg list \<Rightarrow> nat list \<Rightarrow> result_block list" where
  "result_blocks ms is = concat (map (\<lambda>i. m_results (ms ! i)) is)"

text \<open>
  \<open>paired cs rs\<close>: the calls have distinct nonempty identifiers, the results too, every result
  answers a call and none is still running.
\<close>

definition paired :: "call_block list \<Rightarrow> result_block list \<Rightarrow> bool" where
  "paired cs rs \<longleftrightarrow> distinct (map cb_id cs) \<and> [] \<notin> set (map cb_id cs) \<and> distinct (map rb_id rs) \<and>
     set (map rb_id rs) \<subseteq> set (map cb_id cs) \<and> list_all (\<lambda>r. rb_state r \<noteq> Running) rs"

definition scan_inv :: "call_block list \<Rightarrow> result_block list \<Rightarrow> scan \<Rightarrow> bool" where
  "scan_inv cs rs sc \<longleftrightarrow> (reasons sc = [] \<longrightarrow> paired cs rs \<and> call_order sc = map cb_id cs \<and>
     (\<forall>c. map_of (calls sc) c = None \<longleftrightarrow> c \<notin> set (map cb_id cs)) \<and>
     (\<forall>c. map_of (results sc) c = None \<longleftrightarrow> c \<notin> set (map rb_id rs)))"

lemma scan_inv_call: "scan_inv cs rs sc \<Longrightarrow> scan_inv (cs @ [b]) rs (scan_call i b sc)"
  by (auto simp: scan_inv_def scan_call_def paired_def map_of_update simp del: map_of_eq_None_iff not_None_eq)

lemma scan_inv_result: "scan_inv cs rs sc \<Longrightarrow> scan_inv cs (rs @ [b]) (scan_result i b sc)"
proof (cases "rb_id b = [] \<or> map_of (calls sc) (rb_id b) = None \<or> map_of (results sc) (rb_id b) \<noteq> None")
  case False
  assume inv: "scan_inv cs rs sc"
  from False inv have "reasons sc = [] \<longrightarrow> rb_id b \<in> set (map cb_id cs) \<and> rb_id b \<notin> set (map rb_id rs)"
    unfolding scan_inv_def by metis
  with False inv show ?thesis
    by (auto simp: scan_inv_def scan_result_def paired_def map_of_update split: if_splits
        simp del: map_of_eq_None_iff not_None_eq)
qed (auto simp: scan_inv_def scan_result_def)

lemma scan_inv_calls: "scan_inv cs rs sc \<Longrightarrow> scan_inv (cs @ bs) rs (fold (scan_call i) bs sc)"
proof (induction bs arbitrary: cs sc)
  case (Cons b bs)
  from Cons.IH [OF scan_inv_call [OF Cons.prems]] show ?case by simp
qed simp

lemma scan_inv_results: "scan_inv cs rs sc \<Longrightarrow> scan_inv cs (rs @ bs) (fold (scan_result i) bs sc)"
proof (induction bs arbitrary: rs sc)
  case (Cons b bs)
  from Cons.IH [OF scan_inv_result [OF Cons.prems]] show ?case by simp
qed simp

lemma scan_inv_text: "scan_inv cs rs sc \<Longrightarrow> scan_inv cs rs (scan_text m sc)"
  by (simp add: scan_inv_def scan_text_def)

lemma scan_inv_message:
  "scan_inv cs rs sc \<Longrightarrow> scan_inv (cs @ m_calls m) (rs @ m_results m) (scan_message (i, m) sc)"
  by (simp add: scan_message_def scan_inv_text scan_inv_results scan_inv_calls)

lemma scan_inv_fold:
  "scan_inv cs rs sc \<Longrightarrow> scan_inv (cs @ call_blocks ms is) (rs @ result_blocks ms is)
     (fold scan_message (map (\<lambda>i. (i, ms ! i)) is) sc)"
proof (induction "is" arbitrary: cs rs sc)
  case (Cons i js)
  from Cons.IH [OF scan_inv_message [OF Cons.prems]] show ?case
    by (simp add: call_blocks_def result_blocks_def)
qed (simp add: call_blocks_def result_blocks_def)

lemma scan_range_inv:
  "scan_inv (call_blocks ms [h + 1..<e]) (result_blocks ms [h + 1..<e]) (scan_range ms h e)"
  using scan_inv_fold [of "[]" "[]" empty_scan ms "[h + 1..<e]"]
  by (simp add: scan_range_def scan_inv_def empty_scan_def paired_def)

lemma build_unit_complete:
  assumes "u_complete (build_unit loads ms s h e)"
  shows "paired (call_blocks ms [h + 1..<e]) (result_blocks ms [h + 1..<e]) \<and>
    set (map cb_id (call_blocks ms [h + 1..<e])) = set (map rb_id (result_blocks ms [h + 1..<e])) \<and>
    u_final (build_unit loads ms s h e) \<noteq> None"
proof -
  let ?sc = "scan_range ms h e"
  from assms have r: "reasons ?sc = []" and m: "[c \<leftarrow> call_order ?sc. map_of (results ?sc) c = None] = []"
    and f: "u_final (build_unit loads ms s h e) \<noteq> None"
    by (auto simp: build_unit_def Let_def split: if_splits)
  from scan_range_inv [of ms h e] r have
    p: "paired (call_blocks ms [h + 1..<e]) (result_blocks ms [h + 1..<e])" and
    o: "call_order ?sc = map cb_id (call_blocks ms [h + 1..<e])" and
    d: "\<And>c. map_of (results ?sc) c = None \<longleftrightarrow> c \<notin> set (map rb_id (result_blocks ms [h + 1..<e]))"
    by (simp_all add: scan_inv_def)
  from m have "\<forall>c\<in>set (call_order ?sc). map_of (results ?sc) c \<noteq> None"
    by (simp only: filter_empty_conv not_False_eq_True)
  with d have "set (call_order ?sc) \<subseteq> set (map rb_id (result_blocks ms [h + 1..<e]))" by blast
  with o p have "set (map cb_id (call_blocks ms [h + 1..<e])) = set (map rb_id (result_blocks ms [h + 1..<e]))"
    unfolding paired_def by (intro equalityI) simp_all
  with p f show ?thesis by blast
qed

section \<open>The settled prefix is a run of units\<close>

lemma settle_picks:
  "\<exists>n\<le>length xs. settle c xs = take n xs \<and> list_all u_complete (take n xs) \<and>
     (0 < n \<longrightarrow> int (u_start (hd xs)) = c)"
  if "\<forall>x\<in>set xs. c < int (u_end x)" "sorted_wrt (\<lambda>x y. u_end x < u_end y) xs"
  using that
proof (induction xs arbitrary: c)
  case (Cons x xs)
  show ?case
  proof (cases "int (u_start x) \<noteq> c \<or> \<not> u_complete x")
    case False
    have "\<forall>y\<in>set xs. int (u_end x) < int (u_end y)" using Cons.prems(2) by simp
    from Cons.IH [OF this] Cons.prems(2) obtain n where n: "n \<le> length xs"
      "settle (int (u_end x)) xs = take n xs" "list_all u_complete (take n xs)" by auto
    with False Cons.prems(1) show ?thesis by (intro exI [of _ "Suc n"]) simp
  qed (use Cons.prems(1) in \<open>intro exI [of _ 0]; auto\<close>)
qed simp

lemma settle_run:
  assumes "sorted_wrt (\<lambda>x y. u_end x < u_end y) xs"
  shows "\<exists>k n. k + n \<le> length xs \<and> settle c xs = take n (drop k xs) \<and>
    list_all u_complete (take n (drop k xs)) \<and> (0 < n \<longrightarrow> int (u_start (xs ! k)) = c)"
  using assms
proof (induction xs)
  case (Cons x xs)
  show ?case
  proof (cases "int (u_end x) \<le> c")
    case True
    from Cons obtain k n where "k + n \<le> length xs" "settle c xs = take n (drop k xs)"
      "list_all u_complete (take n (drop k xs))" "0 < n \<longrightarrow> int (u_start (xs ! k)) = c" by auto
    with True show ?thesis by (intro exI [of _ "Suc k"] exI [of _ n]) simp
  next
    case False
    then have "\<forall>y\<in>set (x # xs). c < int (u_end y)" using Cons.prems by auto
    from settle_picks [OF this Cons.prems] obtain n where "n \<le> length (x # xs)"
      "settle c (x # xs) = take n (x # xs)" "list_all u_complete (take n (x # xs))"
      "0 < n \<longrightarrow> int (u_start (hd (x # xs))) = c" by blast
    then show ?thesis by (intro exI [of _ 0] exI [of _ n]) simp
  qed
qed simp

section \<open>Properties\<close>

text \<open>Also: the units partition the conversation from its first turn on: every unit ends where the next
  begins, the last at the end, and holds exactly one buyer message, preceded only by injected hints.\<close>

theorem units_partition:
  assumes "i < length (group_units loads ms)"
  shows "u_end (group_units loads ms ! i) =
      (if i + 1 < length (group_units loads ms) then u_start (group_units loads ms ! (i + 1)) else length ms) \<and>
    (\<exists>h. u_start (group_units loads ms ! i) \<le> h \<and> h < u_end (group_units loads ms ! i) \<and>
      u_human (group_units loads ms ! i) = ms ! h \<and>
      (\<forall>j\<in>{u_start (group_units loads ms ! i)..<u_end (group_units loads ms ! i)}.
         is_buyer_message (ms ! j) = (j = h)) \<and>
      (\<forall>j\<in>{u_start (group_units loads ms ! i)..<h}. is_hint (ms ! j)))"
proof -
  have i: "i < length (buyer_starts ms)" using assms by simp
  have e: "u_end (group_units loads ms ! i) \<le> length ms"
  proof (cases "i + 1 < length (buyer_starts ms)")
    case True
    then show ?thesis
      using unit_bounds(1) [OF True, of loads] buyer_starts_props(2) [of "buyer_starts ms ! (i + 1)" ms] i
      by (simp add: group_units_nth)
  qed (use i in \<open>simp add: group_units_nth\<close>)
  have "is_buyer_message (ms ! (buyer_starts ms ! i))"
    using i buyer_starts_props(2) nth_mem by blast
  moreover have "is_hint (ms ! j)" if "u_start (group_units loads ms ! i) \<le> j" "j < buyer_starts ms ! i" for j
    using that i turn_start_hints by (simp add: group_units_nth turn_starts_nth)
  moreover have "is_buyer_message (ms ! j) = (j = buyer_starts ms ! i)"
    if "u_start (group_units loads ms ! i) \<le> j" "j < u_end (group_units loads ms ! i)" for j
  proof
    assume "is_buyer_message (ms ! j)"
    then show "j = buyer_starts ms ! i" by (rule only_buyer [OF i]) (use that e in simp_all)
  qed (use calculation(1) in simp)
  ultimately have "\<exists>h. u_start (group_units loads ms ! i) \<le> h \<and> h < u_end (group_units loads ms ! i) \<and>
      u_human (group_units loads ms ! i) = ms ! h \<and>
      (\<forall>j\<in>{u_start (group_units loads ms ! i)..<u_end (group_units loads ms ! i)}.
         is_buyer_message (ms ! j) = (j = h)) \<and>
      (\<forall>j\<in>{u_start (group_units loads ms ! i)..<h}. is_hint (ms ! j))"
    using unit_bounds [OF i, of loads]
    by (intro exI [of _ "buyer_starts ms ! i"] conjI ballI) (simp_all add: group_units_nth [OF i])
  moreover have "u_end (group_units loads ms ! i) =
      (if i + 1 < length (group_units loads ms) then u_start (group_units loads ms ! (i + 1)) else length ms)"
    using i by (simp add: group_units_nth)
  ultimately show ?thesis by blast
qed

text \<open>Also: a unit marked complete is safe to compact: its tool calls have distinct nonempty
  identifiers, each has exactly one result, none is running, and there is a final answer.\<close>

theorem complete_units_paired:
  assumes "u_complete (build_unit loads ms s h e)"
  shows "paired (call_blocks ms [h + 1..<e]) (result_blocks ms [h + 1..<e]) \<and>
    set (map cb_id (call_blocks ms [h + 1..<e])) = set (map rb_id (result_blocks ms [h + 1..<e])) \<and>
    u_final (build_unit loads ms s h e) \<noteq> None"
  using assms by (rule build_unit_complete)

text \<open>C33: what is frozen is a contiguous run of complete units that begins exactly at the cursor and
  leaves at least the hot window of units after it; nothing is frozen while a call is pending or the
  turn is interrupted.\<close>

theorem settled_prefix_safe:
  assumes "settled_prefix loads ms cursor pending interrupt hot = Inr us"
  shows "\<exists>k n. us = take n (drop k (group_units loads ms)) \<and> list_all u_complete us \<and>
    (us \<noteq> [] \<longrightarrow> \<not> pending \<and> \<not> interrupt \<and>
       int (k + n) + hot \<le> int (length (group_units loads ms)) \<and>
       int (u_start (hd us)) = max 0 cursor)"
proof (cases "us = []")
  case True
  then show ?thesis by (intro exI [of _ 0]) simp
next
  case False
  let ?us = "group_units loads ms"
  let ?old = "take (length ?us - nat hot) ?us"
  from assms False have hot: "1 \<le> hot" "\<not> pending" "\<not> interrupt" "hot < int (length ?us)" and
    eq: "us = settle (max 0 cursor) ?old"
    by (auto simp: settled_prefix_def Let_def split: if_splits)
  have "sorted_wrt (\<lambda>x y. u_end x < u_end y) ?old"
    using units_ends_increase [of loads ms] by (rule sorted_wrt_take)
  from settle_run [OF this, of "max 0 cursor", folded eq] obtain k n where kn: "k + n \<le> length ?old"
    "us = take n (drop k ?old)" "list_all u_complete (take n (drop k ?old))"
    "0 < n \<longrightarrow> int (u_start (?old ! k)) = max 0 cursor"
    by blast
  have len: "length ?old = length ?us - nat hot" by simp
  have "n \<le> length ?us - nat hot - k" using kn(1) by simp
  then have us: "us = take n (drop k ?us)" unfolding kn(2) drop_take take_take by (simp only: min_absorb1)
  from False kn(2) have "0 < n" "k < length ?old" by (auto intro: Suc_leI gr0I simp: not_le)
  moreover from this kn(1,2) have "hd us = ?old ! k" by (simp add: hd_take hd_drop_conv_nth)
  ultimately show ?thesis using us kn hot len by (intro exI [of _ k] exI [of _ n]) auto
qed

section \<open>Witnesses\<close>

definition ex_msg :: "string \<Rightarrow> string \<Rightarrow> string \<Rightarrow> msg" where
  "ex_msg role name t = \<lparr>m_role = u role, m_name = u name, m_calls = [], m_results = [],
     m_text = u t, m_interrupted = False, m_status_error = False\<rparr>"

definition ex_messages :: "msg list" where
  "ex_messages = [ex_msg ''user'' ''memory_hint'' ''likes tea'', ex_msg ''user'' ''buyer'' ''a cup'',
     (ex_msg ''assistant'' ''main'' ''here'')
       \<lparr>m_calls := [\<lparr>cb_id = u ''c1'', cb_name = u ''product_search_tool'', cb_input = []\<rparr>],
        m_results := [\<lparr>rb_id = u ''c1'', rb_state = Success, rb_output = []\<rparr>]\<rparr>,
     ex_msg ''user'' ''buyer'' ''another'', ex_msg ''assistant'' ''main'' ''done'']"

definition no_json :: "pystr \<Rightarrow> json result" where
  "no_json s = Inl (ValueError ''json'')"

lemma ex_units: "map u_start (group_units no_json ex_messages) = [0, 3] \<and>
    map u_end (group_units no_json ex_messages) = [3, 5] \<and>
    map u_complete (group_units no_json ex_messages) = [True, True]"
  by code_simp

lemma ex_settled: "map u_end (projr (settled_prefix no_json ex_messages 0 False False 1)) = [3] \<and>
    isl (settled_prefix no_json ex_messages 0 False False 1) = False"
  by code_simp

theorem units_partition_witness:
  "u_end (group_units no_json ex_messages ! 0) = u_start (group_units no_json ex_messages ! 1)"
proof -
  have "length (group_units no_json ex_messages) = 2" using ex_units by (metis length_map length_Cons list.size(3) numeral_2_eq_2)
  then show ?thesis using units_partition [of 0 no_json ex_messages] by simp
qed

theorem complete_units_paired_witness:
  "u_final (build_unit no_json ex_messages 0 1 3) \<noteq> None"
proof -
  have "u_complete (build_unit no_json ex_messages 0 1 3)" by code_simp
  then show ?thesis using complete_units_paired [of no_json ex_messages 0 1 3] by blast
qed

theorem settled_prefix_safe_witness:
  "\<exists>us. settled_prefix no_json ex_messages 0 False False 1 = Inr us \<and> us \<noteq> [] \<and>
     list_all u_complete us \<and> u_start (hd us) = 0"
proof -
  obtain us where us: "settled_prefix no_json ex_messages 0 False False 1 = Inr us" and ne: "us \<noteq> []"
    using ex_settled by (cases "settled_prefix no_json ex_messages 0 False False 1") auto
  from settled_prefix_safe [OF us] ne have "list_all u_complete us" "u_start (hd us) = 0" by auto
  with us ne show ?thesis by blast
qed

end
