(* ===== verification/Json_Parse.thy ===== *)
theory Json_Parse
  imports Json
begin

text \<open>
  \<open>json.loads\<close> of the standard library on texts: the scanner of strings with their escapes, numbers,
  lists and objects (a repeated key keeps its place and takes the last value). \<open>None\<close> is a
  \<open>ValueError\<close>; \<open>parse_float\<close> is \<open>float\<close> on a literal with a fraction or an exponent. \<open>NaN\<close> and the
  infinities, which have no value here, count as errors. The main lemma is that the parser reads
  back what \<open>dumps_plain\<close> prints.
\<close>

section \<open>The scanner\<close>

definition json_space :: "int \<Rightarrow> bool" where
  "json_space c \<longleftrightarrow> c = 32 \<or> c = 9 \<or> c = 10 \<or> c = 13"

definition skip_space :: "pystr \<Rightarrow> pystr" where
  "skip_space s = dropWhile json_space s"

lemma length_skip_space: "length (skip_space s) \<le> length s"
  by (simp add: skip_space_def length_dropWhile_le)

definition is_hex :: "int \<Rightarrow> bool" where
  "is_hex c \<longleftrightarrow> 48 \<le> c \<and> c \<le> 57 \<or> 65 \<le> c \<and> c \<le> 70 \<or> 97 \<le> c \<and> c \<le> 102"

definition hex_value :: "int \<Rightarrow> int" where
  "hex_value c = (if c \<le> 57 then c - 48 else if c \<le> 70 then c - 55 else c - 87)"

definition hex4 :: "pystr \<Rightarrow> (int \<times> pystr) option" where
  "hex4 s = (if length s < 4 \<or> \<not> list_all is_hex (take 4 s) then None
     else Some (foldl (\<lambda>a c. 16 * a + hex_value c) 0 (take 4 s), drop 4 s))"

text \<open>The four digits after a backslash and \<open>u\<close>, and the second half of a surrogate pair.\<close>

definition unicode_escape :: "pystr \<Rightarrow> (int \<times> pystr) option" where
  "unicode_escape s = (case hex4 s of
     None \<Rightarrow> None
   | Some (h, r) \<Rightarrow>
       if 55296 \<le> h \<and> h \<le> 56319 \<and> take 2 r = [92, 117] then
         (case hex4 (drop 2 r) of
            None \<Rightarrow> None
          | Some (l, r') \<Rightarrow>
              if 56320 \<le> l \<and> l \<le> 57343 then Some (65536 + (h - 55296) * 1024 + (l - 56320), r')
              else Some (h, r))
       else Some (h, r))"

lemma hex4_shorter: "hex4 s = Some (h, r) \<Longrightarrow> length r < length s"
  by (auto simp: hex4_def split: if_splits)

lemma unicode_escape_shorter:
  assumes "unicode_escape s = Some (h, r)"
  shows "length r < length s"
proof -
  from assms obtain h1 r1 where 1: "hex4 s = Some (h1, r1)" by (auto simp: unicode_escape_def split: option.splits)
  show ?thesis
  proof (cases "r = r1")
    case False
    with assms 1 obtain l where "hex4 (drop 2 r1) = Some (l, r)"
      by (auto simp: unicode_escape_def split: option.splits if_splits)
    from hex4_shorter [OF 1] hex4_shorter [OF this] show ?thesis by simp
  qed (use hex4_shorter [OF 1] in simp)
qed

definition simple_escape :: "int \<Rightarrow> int option" where
  "simple_escape e = map_of [(34, 34), (92, 92), (47, 47), (98, 8), (102, 12), (110, 10), (114, 13), (116, 9)] e"

function (sequential) scan_string :: "pystr \<Rightarrow> pystr \<Rightarrow> (pystr \<times> pystr) option" where
  "scan_string acc [] = None"
| "scan_string acc (c # s) =
     (if c = 34 then Some (acc, s)
      else if 0 \<le> c \<and> c < 32 then None
      else if c \<noteq> 92 then scan_string (acc @ [c]) s
      else case s of
        [] \<Rightarrow> None
      | e # r \<Rightarrow>
          if e = 117 then (case unicode_escape r of None \<Rightarrow> None | Some (h, r') \<Rightarrow> scan_string (acc @ [h]) r')
          else (case simple_escape e of None \<Rightarrow> None | Some x \<Rightarrow> scan_string (acc @ [x]) r))"
  by pat_completeness auto

termination
  by (relation "measure (\<lambda>(acc, s). length s)") (auto dest: unicode_escape_shorter)

declare scan_string.simps(2) [simp del]

definition is_digit :: "int \<Rightarrow> bool" where
  "is_digit c \<longleftrightarrow> 48 \<le> c \<and> c \<le> 57"

definition digits :: "pystr \<Rightarrow> pystr" where
  "digits s = takeWhile is_digit s"

text \<open>\<open>-?(0|[1-9][0-9]*)(.[0-9]+)?([eE][-+]?[0-9]+)?\<close>\<close>

definition int_part :: "pystr \<Rightarrow> pystr" where
  "int_part s = (if take 1 s = [48] then [48] else digits s)"

definition frac_part :: "pystr \<Rightarrow> pystr" where
  "frac_part s = (case s of
     [] \<Rightarrow> [] | c # r \<Rightarrow> if c = 46 \<and> digits r \<noteq> [] then c # digits r else [])"

definition exp_part :: "pystr \<Rightarrow> pystr" where
  "exp_part s = (case s of
     [] \<Rightarrow> []
   | c # r \<Rightarrow>
       (let sign = (if take 1 r = [43] \<or> take 1 r = [45] then take 1 r else []);
            ds = digits (drop (length sign) r)
        in if (c = 101 \<or> c = 69) \<and> ds \<noteq> [] then c # sign @ ds else []))"

definition scan_number :: "(pystr \<Rightarrow> rat) \<Rightarrow> pystr \<Rightarrow> (json \<times> pystr) option" where
  "scan_number parse_float s =
     (let sign = (if take 1 s = [45] then [45] else []);
          s1 = drop (length sign) s; i = int_part s1;
          s2 = drop (length i) s1; f = frac_part s2;
          s3 = drop (length f) s2; e = exp_part s3
      in if i = [] then None
         else if f = [] \<and> e = [] then Some (JInt (if sign = [] then int (undec i) else - int (undec i)), s3)
         else Some (JFloat (parse_float (sign @ i @ f @ e)), drop (length e) s3))"

fun scan_value :: "bool \<Rightarrow> (pystr \<Rightarrow> rat) \<Rightarrow> nat \<Rightarrow> pystr \<Rightarrow> (json \<times> pystr) option"
  and scan_items :: "bool \<Rightarrow> (pystr \<Rightarrow> rat) \<Rightarrow> nat \<Rightarrow> json list \<Rightarrow> pystr \<Rightarrow> (json \<times> pystr) option"
  and scan_fields :: "bool \<Rightarrow> (pystr \<Rightarrow> rat) \<Rightarrow> nat \<Rightarrow> (pystr \<times> json) list \<Rightarrow> pystr \<Rightarrow> (json \<times> pystr) option" where
  "scan_value sk pf 0 s = None"
| "scan_value sk pf (Suc n) s =
     (case s of
        [] \<Rightarrow> None
      | c # r \<Rightarrow>
          if c = 34 then map_option (\<lambda>(t, r'). (JStr t, r')) (scan_string [] r)
          else if c = 123 then
            (if take 1 (skip_space r) = [125] then Some (JObj [], tl (skip_space r))
             else scan_fields sk pf n [] (skip_space r))
          else if c = 91 then
            (if take 1 (skip_space r) = [93] then Some (JList [], tl (skip_space r))
             else scan_items sk pf n [] (skip_space r))
          else if startswith s (u ''null'') then Some (JNull, drop 4 s)
          else if startswith s (u ''true'') then Some (JBool True, drop 4 s)
          else if startswith s (u ''false'') then Some (JBool False, drop 5 s)
          else scan_number pf s)"
| "scan_items sk pf 0 acc s = None"
| "scan_items sk pf (Suc n) acc s =
     (case scan_value sk pf n s of
        None \<Rightarrow> None
      | Some (v, r) \<Rightarrow>
          (case skip_space r of
             [] \<Rightarrow> None
           | c # r1 \<Rightarrow>
               if c = 93 then Some (JList (acc @ [v]), r1)
               else if c = 44 then scan_items sk pf n (acc @ [v]) (skip_space r1)
               else None))"
| "scan_fields sk pf 0 acc s = None"
| "scan_fields sk pf (Suc n) acc s =
     (if take 1 s \<noteq> [34] then None
      else case scan_string [] (tl s) of
        None \<Rightarrow> None
      | Some (k, r) \<Rightarrow>
          if take 1 (skip_space r) \<noteq> [58] \<or> sk \<and> map_of acc k \<noteq> None then None
          else (case scan_value sk pf n (skip_space (tl (skip_space r))) of
             None \<Rightarrow> None
           | Some (v, r1) \<Rightarrow>
               (case skip_space r1 of
                  [] \<Rightarrow> None
                | c # r2 \<Rightarrow>
                    if c = 125 then Some (JObj (AList.update k v acc), r2)
                    else if c = 44 then scan_fields sk pf n (AList.update k v acc) (skip_space r2)
                    else None)))"

declare scan_value.simps [simp del] scan_items.simps [simp del] scan_fields.simps [simp del]

text \<open>Two units of fuel per character are enough: a call that does not consume a character is made by
  one that has. \<open>loads_dumps\<close> below depends on it. With a hook that refuses a repeated key the call
  is \<open>strict_loads\<close>.\<close>

definition loads_with :: "bool \<Rightarrow> (pystr \<Rightarrow> rat) \<Rightarrow> pystr \<Rightarrow> json option" where
  "loads_with sk pf s = (case scan_value sk pf (2 * length s) (skip_space s) of
     None \<Rightarrow> None
   | Some (v, r) \<Rightarrow> if skip_space r = [] then Some v else None)"

definition loads :: "(pystr \<Rightarrow> rat) \<Rightarrow> pystr \<Rightarrow> json option" where
  "loads = loads_with False"

definition strict_loads :: "(pystr \<Rightarrow> rat) \<Rightarrow> pystr \<Rightarrow> json option" where
  "strict_loads = loads_with True"

section \<open>Reading back\<close>

lemma hex_digit_back: "0 \<le> n \<Longrightarrow> n < 16 \<Longrightarrow> is_hex (hex_digit n) \<and> hex_value (hex_digit n) = n"
  by (auto simp: hex_digit_def is_hex_def hex_value_def)

lemma hex4_back:
  assumes "0 \<le> c" "c < 32"
  shows "hex4 (u ''00'' @ hex_digit (c div 16) # hex_digit (c mod 16) # r) = Some (c, r)"
  using assms hex_digit_back [of "c div 16"] hex_digit_back [of "c mod 16"]
  by (simp add: hex4_def u_def is_hex_def [of 48] hex_value_def [of 48] numeral_eq_Suc)

lemma scan_string_step: "scan_string acc (escape_char c @ r) = scan_string (acc @ [c]) r"
proof (cases "0 \<le> c \<and> c < 32 \<and> c \<notin> {8, 9, 10, 12, 13}")
  case True
  then have "escape_char c = 92 # 117 # u ''00'' @ [hex_digit (c div 16), hex_digit (c mod 16)]"
    by (auto simp: escape_char_def u_def)
  with True hex4_back [of c r] show ?thesis
    by (simp add: scan_string.simps unicode_escape_def)
next
  case False
  then show ?thesis
    by (auto simp: escape_char_def u_def scan_string.simps simple_escape_def)
qed

lemma scan_string_back: "scan_string acc (concat (map escape_char s) @ 34 # r) = Some (acc @ s, r)"
  by (induction s arbitrary: acc) (simp_all add: scan_string.simps(2) [of _ 34] scan_string_step)

lemma scan_string_quoted: "scan_string [] (tl (quoted s @ r)) = Some (s, r)" "take 1 (quoted s @ r) = [34]"
  using scan_string_back [of "[]" s r] by (simp_all add: quoted_def)

text \<open>What follows a value in a text: nothing, or a character that no number continues with.\<close>

definition number_end :: "pystr \<Rightarrow> bool" where
  "number_end r \<longleftrightarrow> r = [] \<or> \<not> is_digit (hd r) \<and> hd r \<notin> {46, 101, 69}"

lemma digits_append: "list_all is_digit s \<Longrightarrow> r = [] \<or> \<not> is_digit (hd r) \<Longrightarrow> digits (s @ r) = s"
  by (cases r) (auto simp: digits_def list_all_iff takeWhile_append2)

lemma dec_digits: "list_all is_digit (dec n)"
  using set_dec [of n] by (auto simp: list_all_iff is_digit_def)

lemma dec_nonempty: "dec n \<noteq> []"
  by (subst dec.simps) simp

lemma dec_first: "0 < n \<Longrightarrow> hd (dec n) \<noteq> 48"
proof (induction n rule: dec.induct)
  case (1 n)
  then show ?case by (subst dec.simps) (simp add: dec_nonempty)
qed

lemma int_part_dec: "r = [] \<or> \<not> is_digit (hd r) \<Longrightarrow> int_part (dec n @ r) = dec n"
proof (cases "n = 0")
  case False
  obtain c t where "dec n = c # t" using dec_nonempty by (cases "dec n") auto
  with False dec_first [of n] digits_append [OF dec_digits, of r n]
  show "r = [] \<or> \<not> is_digit (hd r) \<Longrightarrow> int_part (dec n @ r) = dec n"
    by (simp add: int_part_def)
qed (simp add: int_part_def dec.simps [of 0])

lemma no_fraction: "number_end r \<Longrightarrow> frac_part r = [] \<and> exp_part r = []"
  by (cases r) (auto simp: number_end_def frac_part_def exp_part_def Let_def)

lemma dec_no_minus: "take 1 (dec n @ r) \<noteq> [45]"
  using dec_digits [of n] by (cases "dec n") (auto simp: is_digit_def dec_nonempty)

lemma int_part_end: "number_end r \<Longrightarrow> int_part (dec n @ r) = dec n"
  by (rule int_part_dec) (auto simp: number_end_def)

text \<open>An unsigned or negative integer literal.\<close>

lemma scan_number_sign:
  assumes "number_end r" "sign = [] \<or> sign = [45]"
  shows "scan_number pf (sign @ dec n @ r) =
    Some (JInt (if sign = [] then int n else - int n), r)"
proof -
  have sign: "(if take 1 (sign @ dec n @ r) = [45] then [45] else []) = sign"
    using assms(2) dec_no_minus [of n r] by auto
  have d: "drop (length sign) (sign @ dec n @ r) = dec n @ r" "drop (length (dec n)) (dec n @ r) = r" by simp_all
  show ?thesis
    unfolding scan_number_def Let_def sign d int_part_end [OF assms(1)]
    using no_fraction [OF assms(1)] dec_nonempty [of n] undec_dec [of n] by (simp del: undec.simps)
qed

lemmas scan_number_dec = scan_number_sign [of _ "[]", simplified]
  and scan_number_minus = scan_number_sign [of _ "[45]", simplified]

lemma scan_number_int: "number_end r \<Longrightarrow> scan_number pf (dec_int i @ r) = Some (JInt i, r)"
  by (auto simp: dec_int_def scan_number_dec scan_number_minus)

text \<open>\<open>repr\<close> prints a double as a literal that \<open>float\<close> reads back exactly.\<close>

definition float_law :: "(pystr \<Rightarrow> rat) \<Rightarrow> (rat \<Rightarrow> pystr) \<Rightarrow> bool" where
  "float_law pf ft \<longleftrightarrow> (\<forall>x. ft x \<noteq> [] \<and> (is_digit (hd (ft x)) \<or> hd (ft x) = 45) \<and>
     (\<forall>r. number_end r \<longrightarrow> scan_number pf (ft x @ r) = Some (JFloat x, r)))"

lemma scan_value_number:
  assumes "s \<noteq> []" "is_digit (hd s) \<or> hd s = 45" "0 < n"
  shows "scan_value sk pf n (s @ r) = scan_number pf (s @ r)"
  using assms by (cases n; cases s) (auto simp: scan_value.simps startswith_def u_def is_digit_def)

lemma dec_int_first: "dec_int i \<noteq> [] \<and> (is_digit (hd (dec_int i)) \<or> hd (dec_int i) = 45)"
proof -
  have "is_digit (hd (dec n))" for n using dec_digits [of n] dec_nonempty [of n] by (cases "dec n") auto
  then show ?thesis by (simp add: dec_int_def dec_nonempty)
qed

text \<open>No printed value starts with white space, and a number is never glued to what follows.\<close>

lemma first_char:
  assumes "float_law pf ft"
  shows "dumps_plain ft v \<noteq> [] \<and> \<not> json_space (hd (dumps_plain ft v)) \<and> hd (dumps_plain ft v) \<notin> {93, 125}"
proof (cases v)
  case (JInt i)
  then show ?thesis using dec_int_first [of i] by (auto simp: json_space_def is_digit_def)
next
  case (JFloat x)
  with assms have "ft x \<noteq> []" "is_digit (hd (ft x)) \<or> hd (ft x) = 45" unfolding float_law_def by blast+
  then show ?thesis using JFloat by (auto simp: json_space_def is_digit_def)
next
  case (JBool b)
  then show ?thesis by (simp add: u_def json_space_def)
qed (simp_all add: u_def json_space_def quoted_def)

lemma skip_space_first: "s \<noteq> [] \<Longrightarrow> \<not> json_space (hd s) \<Longrightarrow> skip_space (s @ r) = s @ r"
  by (cases s) (simp_all add: skip_space_def)

lemma skip_space_char [simp]: "\<not> json_space c \<Longrightarrow> skip_space (c # r) = c # r"
  by (simp add: skip_space_def)

lemma skip_space_one [simp]: "skip_space (32 # r) = skip_space r"
  by (simp add: skip_space_def json_space_def)

text \<open>A text is read back as a value by enough fuel, whatever follows it.\<close>

definition reads :: "bool \<Rightarrow> (pystr \<Rightarrow> rat) \<Rightarrow> pystr \<Rightarrow> json \<Rightarrow> bool" where
  "reads sk pf t v \<longleftrightarrow> t \<noteq> [] \<and> \<not> json_space (hd t) \<and>
     (\<forall>n r. 2 * length t \<le> n \<longrightarrow> number_end r \<longrightarrow> scan_value sk pf n (t @ r) = Some (v, r))"

definition spaces :: "pystr \<Rightarrow> bool" where
  "spaces w \<longleftrightarrow> list_all json_space w"

lemma spaces_simps [simp]: "spaces []" "spaces (c # w) \<longleftrightarrow> json_space c \<and> spaces w" "spaces (v @ w) \<longleftrightarrow> spaces v \<and> spaces w"
  by (auto simp: spaces_def)

lemma skip_spaces: "spaces w \<Longrightarrow> skip_space (w @ s) = skip_space s"
  by (simp add: skip_space_def spaces_def list_all_iff dropWhile_append2)

lemma number_end_delims [simp]: "number_end (44 # r)" "number_end (93 # r)" "number_end (125 # r)" "number_end []"
  by (simp_all add: number_end_def is_digit_def)

lemma number_end_spaces: "spaces w \<Longrightarrow> number_end r \<Longrightarrow> number_end (w @ r)"
  by (cases w) (auto simp: number_end_def json_space_def is_digit_def)

lemma not_json_space [simp]: "\<not> json_space 34" "\<not> json_space 44" "\<not> json_space 58" "\<not> json_space 93" "\<not> json_space 125"
  by (simp_all add: json_space_def)

lemma join_skip:
  assumes "t \<noteq> []" "\<not> json_space (hd t)"
  shows "skip_space (join sep (t # ts) @ r) = join sep (t # ts) @ r"
  using skip_space_first [OF assms] by (cases ts) simp_all

lemma scan_items_back:
  assumes "spaces w" "spaces w2"
  shows "\<lbrakk>list_all2 (reads sk pf) ts vs; vs \<noteq> []; 2 * length (join (44 # w) ts) + 1 \<le> n\<rbrakk> \<Longrightarrow>
   scan_items sk pf n acc (join (44 # w) ts @ w2 @ 93 # r) = Some (JList (acc @ vs), r)"
proof (induction ts arbitrary: vs acc n)
  case (Cons t ts)
  then obtain v ws m where vs: "vs = v # ws" and t: "reads sk pf t v" and ts: "list_all2 (reads sk pf) ts ws"
    and n: "n = Suc m" by (auto simp: list_all2_Cons1 Suc_le_D dest: Suc_le_D)
  have close: "number_end (w2 @ 93 # r)" "skip_space (w2 @ 93 # r) = 93 # r"
    using assms(2) by (simp_all add: number_end_spaces skip_spaces)
  show ?case
  proof (cases ts)
    case Nil
    with t Cons.prems(3) n close have "scan_value sk pf m (t @ w2 @ 93 # r) = Some (v, w2 @ 93 # r)" by (simp add: reads_def)
    with Nil ts vs n close show ?thesis by (simp add: scan_items.simps)
  next
    case (Cons t2 ts2)
    let ?rest = "join (44 # w) ts @ w2 @ 93 # r"
    have split: "join (44 # w) (t # ts) = t @ (44 # w) @ join (44 # w) ts" using Cons by simp
    with t Cons.prems(3) n have 1: "scan_value sk pf m (t @ 44 # w @ ?rest) = Some (v, 44 # w @ ?rest)"
      by (simp add: reads_def)
    from ts Cons obtain x where "reads sk pf t2 x" by (auto simp: list_all2_Cons1)
    then have "skip_space ?rest = ?rest" unfolding Cons by (intro join_skip) (simp_all add: reads_def)
    then have 2: "skip_space (w @ ?rest) = ?rest" using assms(1) by (simp add: skip_spaces)
    have "ws \<noteq> []" "2 * length (join (44 # w) ts) + 1 \<le> m" using ts Cons Cons.prems(3) n split by auto
    from Cons.IH [OF ts this, of "acc @ [v]"] 1 2 n vs split show ?thesis by (simp add: scan_items.simps)
  qed
qed simp

lemma update_absent: "k \<notin> fst ` set d \<Longrightarrow> AList.update k v d = d @ [(k, v)]"
  by (induction d) auto

definition field_text :: "pystr \<Rightarrow> pystr \<times> pystr \<Rightarrow> pystr" where
  "field_text w kt = quoted (fst kt) @ 58 # w @ snd kt"

lemma field_texts: "dumps_pair = field_text [32]" "dumps_field = field_text []"
  by (auto simp: fun_eq_iff field_text_def dumps_pair_def dumps_field_def)

abbreviation reads_field :: "bool \<Rightarrow> (pystr \<Rightarrow> rat) \<Rightarrow> pystr \<times> pystr \<Rightarrow> pystr \<times> json \<Rightarrow> bool" where
  "reads_field sk pf \<equiv> \<lambda>(k, t) (k', v). k = k' \<and> reads sk pf t v"

lemma scan_fields_back:
  assumes "spaces w" "spaces w2" "spaces w3"
  shows "\<lbrakk>list_all2 (reads_field sk pf) ts d; d \<noteq> []; distinct (map fst (acc @ d));
    2 * length (join (44 # w) (map (field_text w3) ts)) + 1 \<le> n\<rbrakk> \<Longrightarrow>
   scan_fields sk pf n acc (join (44 # w) (map (field_text w3) ts) @ w2 @ 125 # r) = Some (JObj (acc @ d), r)"
proof (induction ts arbitrary: d acc n)
  case (Cons kt ts)
  obtain k t where kt: "kt = (k, t)" by force
  with Cons.prems obtain v d' m where d: "d = (k, v) # d'" and t: "reads sk pf t v"
    and ts: "list_all2 (reads_field sk pf) ts d'"
    and n: "n = Suc m" by (auto simp: list_all2_Cons1 dest: Suc_le_D)
  have upd: "AList.update k v acc = acc @ [(k, v)]" using Cons.prems(3) d by (intro update_absent) auto
  have new: "map_of acc k = None" using Cons.prems(3) d by (auto simp: map_of_eq_None_iff)
  have sk: "skip_space (w3 @ t @ z) = t @ z" for z
    using t assms(3) skip_space_first [of t z] by (simp add: reads_def skip_spaces)
  have str: "scan_string [] (tl (field_text w3 kt @ z)) = Some (k, 58 # w3 @ t @ z)"
    "take 1 (field_text w3 kt @ z) = [34]" for z
    using scan_string_quoted [of k "58 # w3 @ t @ z"] by (simp_all add: field_text_def kt)
  have len: "length t \<le> length (field_text w3 kt)" by (simp add: field_text_def kt)
  have close: "number_end (w2 @ 125 # r)" "skip_space (w2 @ 125 # r) = 125 # r"
    using assms(2) by (simp_all add: number_end_spaces skip_spaces)
  show ?case
  proof (cases ts)
    case Nil
    with t Cons.prems(4) n len close have "scan_value sk pf m (t @ w2 @ 125 # r) = Some (v, w2 @ 125 # r)" by (simp add: reads_def)
    with Nil ts d n str [of "w2 @ 125 # r"] sk upd new close show ?thesis by (simp add: scan_fields.simps)
  next
    case (Cons kt2 ts2)
    let ?rest = "join (44 # w) (map (field_text w3) ts) @ w2 @ 125 # r"
    have split: "join (44 # w) (map (field_text w3) (kt # ts)) = field_text w3 kt @ (44 # w) @ join (44 # w) (map (field_text w3) ts)"
      using Cons by simp
    with t Cons.prems(4) n len have 1: "scan_value sk pf m (t @ 44 # w @ ?rest) = Some (v, 44 # w @ ?rest)"
      by (simp add: reads_def)
    have "skip_space ?rest = ?rest"
      unfolding Cons list.map by (rule join_skip) (simp_all add: field_text_def quoted_def)
    then have 2: "skip_space (w @ ?rest) = ?rest" using assms(1) by (simp add: skip_spaces)
    have "d' \<noteq> []" "2 * length (join (44 # w) (map (field_text w3) ts)) + 1 \<le> m" "distinct (map fst ((acc @ [(k, v)]) @ d'))"
      using ts Cons Cons.prems(3,4) n split d by auto
    from Cons.IH [OF ts this(1,3,2)] 1 2 n d split str [of "44 # w @ ?rest"] sk upd new show ?thesis
      by (simp add: scan_fields.simps)
  qed
qed simp

lemma scan_value_list:
  "skip_space s = s \<Longrightarrow> s = c # t \<Longrightarrow> c \<noteq> 93 \<Longrightarrow> scan_value sk pf (Suc m) (91 # s) = scan_items sk pf m [] s"
  by (simp add: scan_value.simps)

lemma scan_value_obj: "s = 34 # t \<Longrightarrow> scan_value sk pf (Suc m) (123 # s) = scan_fields sk pf m [] s"
  by (simp add: scan_value.simps)

lemma scan_value_words:
  "0 < n \<Longrightarrow> scan_value sk pf n (u ''null'' @ r) = Some (JNull, r)"
  "0 < n \<Longrightarrow> scan_value sk pf n (u ''true'' @ r) = Some (JBool True, r)"
  "0 < n \<Longrightarrow> scan_value sk pf n (u ''false'' @ r) = Some (JBool False, r)"
  by (cases n; simp add: scan_value.simps startswith_def u_def)+

text \<open>How each kind of value is read, in any layout.\<close>

lemma reads_words: "reads sk pf (u ''null'') JNull" "reads sk pf (if b then u ''true'' else u ''false'') (JBool b)"
  by (auto simp: reads_def scan_value_words) (simp_all add: u_def json_space_def)

lemma reads_int: "reads sk pf (dec_int i) (JInt i)"
proof -
  have "scan_value sk pf n (dec_int i @ r) = Some (JInt i, r)"
    if "2 * length (dec_int i) \<le> n" "number_end r" for n r
    using scan_value_number [of "dec_int i" n sk pf r] dec_int_first [of i] scan_number_int [OF that(2)] that(1)
    by (cases "n = 0") auto
  with dec_int_first [of i] show ?thesis by (auto simp: reads_def json_space_def is_digit_def)
qed

lemma reads_float:
  assumes "float_law pf ft"
  shows "reads sk pf (ft x) (JFloat x)"
proof -
  from assms have law: "ft x \<noteq> []" "is_digit (hd (ft x)) \<or> hd (ft x) = 45"
    "\<And>r. number_end r \<Longrightarrow> scan_number pf (ft x @ r) = Some (JFloat x, r)"
    unfolding float_law_def by blast+
  have "scan_value sk pf n (ft x @ r) = Some (JFloat x, r)" if "2 * length (ft x) \<le> n" "number_end r" for n r
    using scan_value_number [of "ft x" n sk pf r] law that by (cases "n = 0") auto
  with law(1,2) show ?thesis by (auto simp: reads_def json_space_def is_digit_def)
qed

lemma reads_text: "reads sk pf (quoted s) (JStr s)"
proof -
  have "scan_value sk pf n (quoted s @ r) = Some (JStr s, r)" if "2 * length (quoted s) \<le> n" for n r
    using that scan_string_quoted(1) [of s r] by (cases n) (simp_all add: quoted_def scan_value.simps)
  then show ?thesis by (simp add: reads_def) (simp add: quoted_def)
qed

lemma reads_empty: "reads sk pf [91, 93] (JList [])" "reads sk pf [123, 125] (JObj [])"
proof -
  have "scan_value sk pf n ([91, 93] @ r) = Some (JList [], r)" "scan_value sk pf n ([123, 125] @ r) = Some (JObj [], r)"
    if "4 \<le> n" for n r using that by (cases n; simp add: scan_value.simps)+
  then show "reads sk pf [91, 93] (JList [])" "reads sk pf [123, 125] (JObj [])"
    by (simp_all add: reads_def json_space_def)
qed

lemma reads_first: "reads sk pf t v \<Longrightarrow> t \<noteq> [] \<and> hd t \<noteq> 93"
  unfolding reads_def
proof (elim conjE, intro conjI notI)
  assume a: "\<forall>n r. 2 * length t \<le> n \<longrightarrow> number_end r \<longrightarrow> scan_value sk pf n (t @ r) = Some (v, r)" "t \<noteq> []" "hd t = 93"
  then obtain t' where t: "t = 93 # t'" by (cases t) auto
  from a(1) have "scan_value sk pf (2 * length t) (t @ []) = Some (v, [])" by (blast intro: number_end_delims)
  then show False
    by (simp add: t scan_value.simps startswith_def u_def scan_number_def Let_def int_part_def digits_def is_digit_def)
qed simp

lemma reads_list:
  assumes "list_all2 (reads sk pf) ts vs" "vs \<noteq> []" "spaces w0" "spaces w" "spaces w2"
  shows "reads sk pf (91 # w0 @ join (44 # w) ts @ w2 @ [93]) (JList vs)"
proof -
  let ?t = "91 # w0 @ join (44 # w) ts @ w2 @ [93]"
  from assms(1,2) obtain t1 ts1 v1 where ts: "ts = t1 # ts1" "reads sk pf t1 v1" by (cases vs) (auto simp: list_all2_Cons2)
  have "scan_value sk pf n (?t @ r) = Some (JList vs, r)" if n: "2 * length ?t \<le> n" for n r
  proof -
    from n obtain m where m: "n = Suc m" "2 * length (join (44 # w) ts) + 1 \<le> m" by (cases n) auto
    let ?s = "join (44 # w) ts @ w2 @ 93 # r"
    have sk: "skip_space ?s = ?s" using ts unfolding ts(1) by (intro join_skip) (simp_all add: reads_def)
    obtain c x where cx: "?s = c # x" "c \<noteq> 93" using reads_first [OF ts(2)] ts(1) by (cases t1; cases ts1) auto
    have "scan_value sk pf n (?t @ r) = scan_items sk pf m [] ?s"
      using scan_value_list [OF sk cx, of sk pf m] m(1) sk assms(3) cx by (simp add: scan_value.simps skip_spaces)
    with scan_items_back [OF assms(4,5,1,2) m(2), of "[]" r] show ?thesis by simp
  qed
  then show ?thesis by (simp add: reads_def json_space_def)
qed

lemma reads_obj:
  assumes "list_all2 (reads_field sk pf) ts d" "d \<noteq> []" "distinct (map fst d)" "spaces w0" "spaces w" "spaces w2" "spaces w3"
  shows "reads sk pf (123 # w0 @ join (44 # w) (map (field_text w3) ts) @ w2 @ [125]) (JObj d)"
proof -
  let ?t = "123 # w0 @ join (44 # w) (map (field_text w3) ts) @ w2 @ [125]"
  have "scan_value sk pf n (?t @ r) = Some (JObj d, r)" if n: "2 * length ?t \<le> n" for n r
  proof -
    from n obtain m where m: "n = Suc m" "2 * length (join (44 # w) (map (field_text w3) ts)) + 1 \<le> m" by (cases n) auto
    let ?s = "join (44 # w) (map (field_text w3) ts) @ w2 @ 125 # r"
    from assms(1,2) obtain kt ts1 where "ts = kt # ts1" by (cases d) (auto simp: list_all2_Cons2)
    then obtain x where x: "?s = 34 # x" by (cases ts1) (simp_all add: field_text_def quoted_def)
    have "scan_value sk pf n (?t @ r) = scan_fields sk pf m [] ?s"
      using scan_value_obj [OF x, of sk pf m] m(1) x assms(4) by (simp add: scan_value.simps skip_spaces)
    with scan_fields_back [OF assms(5-7,1,2) _ m(2), of "[]" r] assms(3) show ?thesis by simp
  qed
  then show ?thesis by (simp add: reads_def json_space_def)
qed

lemma reads_dumps: "float_law pf ft \<Longrightarrow> json_ok v \<Longrightarrow> reads sk pf (dumps_plain ft v) v"
proof (induction ft v rule: dumps_plain.induct)
  case (6 ft l)
  then have "list_all2 (reads sk pf) (map (dumps_plain ft) l) l" by (auto simp: list_all2_conv_all_nth list_all_length)
  from reads_list [OF this, of "[]" "[32]" "[]"] reads_empty(1) show ?case by (cases "l = []") (simp_all add: json_space_def)
next
  case (7 ft d)
  let ?ts = "map (\<lambda>(k, v). (k, dumps_plain ft v)) d"
  have "reads sk pf (dumps_plain ft v) v" if "(k, v) \<in> set d" for k v
    using 7(1) [OF that _ 7(2), of k v] that 7(3) by (auto simp: list_all_iff)
  then have "list_all2 (reads_field sk pf) ?ts d"
    by (auto simp: list_all2_conv_all_nth split: prod.split) (metis nth_mem)
  from reads_obj [OF this, of "[]" "[32]" "[]" "[32]"] reads_empty(2) 7(3) show ?case
    by (cases "d = []") (simp_all add: json_space_def field_texts)
qed (simp_all only: dumps_plain.simps reads_words reads_int reads_float reads_text)

lemma reads_loads: "reads sk pf t v \<Longrightarrow> spaces w \<Longrightarrow> loads_with sk pf (t @ w) = Some v"
proof -
  assume r: "reads sk pf t v" "spaces w"
  then have "skip_space (t @ w) = t @ w" using skip_space_first by (simp add: reads_def)
  moreover have "scan_value sk pf (2 * length (t @ w)) (t @ w) = Some (v, w)"
    using r number_end_spaces [OF r(2), of "[]"] by (simp add: reads_def)
  moreover have "skip_space w = []" using skip_spaces [OF r(2), of "[]"] by (simp add: skip_space_def)
  ultimately show ?thesis by (simp add: loads_with_def)
qed

lemma loads_dumps: "float_law pf ft \<Longrightarrow> json_ok v \<Longrightarrow> loads pf (dumps_plain ft v) = Some v"
  using reads_loads [OF reads_dumps, of pf ft v "[]" False] by (simp add: loads_def)

section \<open>A concrete printer and reader of numbers\<close>

text \<open>A printer of rational numbers as numerator, dot, denominator, and its reader.\<close>

definition ex_repr :: "rat \<Rightarrow> pystr" where
  "ex_repr r = dec_int (fst (quotient_of r)) @ 46 # dec (nat (snd (quotient_of r)))"

definition ex_float :: "pystr \<Rightarrow> rat" where
  "ex_float s =
     (let neg = (take 1 s = [45]); s1 = (if neg then tl s else s); i = digits s1;
          q = undec (drop (length i + 1) s1); v = of_nat (undec i) / of_nat q
      in if neg then - v else v)"

lemma digits_dec: "r = [] \<or> \<not> is_digit (hd r) \<Longrightarrow> digits (dec n @ r) = dec n"
  by (rule digits_append [OF dec_digits])

lemma scan_ratio:
  assumes "number_end r" "sign = [] \<or> sign = [45]"
  shows "scan_number pf (sign @ dec n @ (46 # dec q) @ r) = Some (JFloat (pf (sign @ dec n @ 46 # dec q)), r)"
proof -
  have sign: "(if take 1 (sign @ dec n @ (46 # dec q) @ r) = [45] then [45] else []) = sign"
    using assms(2) dec_no_minus [of n "(46 # dec q) @ r"] by auto
  have i: "int_part (dec n @ (46 # dec q) @ r) = dec n" by (rule int_part_dec) (simp add: is_digit_def)
  have f: "frac_part ((46 # dec q) @ r) = 46 # dec q"
    using assms(1) digits_dec [of r q] dec_nonempty [of q] by (auto simp: frac_part_def number_end_def)
  have d: "drop (length sign) (sign @ dec n @ (46 # dec q) @ r) = dec n @ (46 # dec q) @ r"
    "drop (length (dec n)) (dec n @ (46 # dec q) @ r) = (46 # dec q) @ r"
    "drop (length (46 # dec q)) ((46 # dec q) @ r) = r" by simp_all
  show ?thesis
    unfolding scan_number_def Let_def sign d(1) i d(2) f d(3)
    using no_fraction [OF assms(1)] dec_nonempty [of n] by simp
qed

lemma ex_float_back: "sign = [] \<or> sign = [45] \<Longrightarrow>
   ex_float (sign @ dec n @ 46 # dec q) = (if sign = [] then 1 else -1) * (of_nat n / of_nat q)"
  using dec_no_minus [of n "46 # dec q"] digits_dec [of "46 # dec q" n] undec_dec [of n] undec_dec [of q]
  by (auto simp: ex_float_def Let_def is_digit_def simp del: undec.simps)

lemma ex_repr_law: "float_law ex_float ex_repr"
proof -
  have main: "ex_repr x \<noteq> [] \<and> (is_digit (hd (ex_repr x)) \<or> hd (ex_repr x) = 45) \<and>
      (\<forall>r. number_end r \<longrightarrow> scan_number ex_float (ex_repr x @ r) = Some (JFloat x, r))" for x
  proof -
    obtain p q where pq: "quotient_of x = (p, q)" by force
    then have q: "0 < q" "x = of_int p / of_int q" using quotient_of_denom_pos quotient_of_div by blast+
    obtain sign n where sign: "sign = [] \<or> sign = [45]" and p: "dec_int p = sign @ dec n"
      "of_int p = (if sign = [] then 1 else -1) * (of_nat n :: rat)"
      by (cases "p < 0") (auto simp: dec_int_def intro: that [of "[45]"] that [of "[]"])
    have x: "(if sign = [] then 1 else -1) * (of_nat n / of_nat (nat q)) = x" using q p(2) by auto
    have e: "ex_repr x = sign @ dec n @ 46 # dec (nat q)" using pq p(1) by (simp add: ex_repr_def)
    have "scan_number ex_float (ex_repr x @ r) = Some (JFloat x, r)" if "number_end r" for r
      using scan_ratio [OF that sign, of ex_float n "nat q"] ex_float_back [OF sign, of n "nat q"] x e by simp
    moreover have "ex_repr x \<noteq> []" "is_digit (hd (ex_repr x)) \<or> hd (ex_repr x) = 45"
      using dec_int_first [of p] pq by (auto simp: ex_repr_def)
    ultimately show ?thesis by blast
  qed
  then show ?thesis by (simp add: float_law_def)
qed

end
