(* ===== verification/Tool_Output.thy ===== *)
theory Tool_Output
  imports Json
begin

text \<open>
  \<open>app/application/context/tool_output.py\<close>: the contract of every tool's output, the bounded
  projection that the model sees and the content-addressed store of the exact output. The digest
  (SHA-256 as 64 hex digits), the UTF-8 codec, \<open>json.loads\<close> and the content filter are parameters.
\<close>

section \<open>Contracts\<close>

record contract =
  allowed_fields :: "pystr list"
  list_limits :: "(pystr, nat) dict"
  max_string_chars :: nat
  max_total_chars :: int
  default_list_limit :: nat
  max_mapping_fields :: nat

definition base_contract :: "string list \<Rightarrow> contract" where
  "base_contract allowed = \<lparr>allowed_fields = map u allowed, list_limits = [], max_string_chars = 512,
     max_total_chars = 12000, default_list_limit = 12, max_mapping_fields = 32\<rparr>"

definition hit_limits :: "(pystr, nat) dict" where
  "hit_limits = [(u ''hits'', 5), (u ''hits.*.skus'', 12), (u ''filtered_out'', 5)]"

definition line_limits :: "(pystr, nat) dict" where
  "line_limits = [(u ''items'', 10), (u ''lines'', 10)]"

definition TOOL_OUTPUT_CONTRACTS :: "(pystr, contract) dict" where
  "TOOL_OUTPUT_CONTRACTS =
    [(u ''product_search_tool'', (base_contract [''hits'', ''filtered_out'', ''recall_strategy'',
        ''rerank_applied'', ''eligible_count'', ''filtered_count'', ''returned_count'',
        ''filtered_count_by_reason'', ''error''])
        \<lparr>list_limits := hit_limits, max_total_chars := 16000\<rparr>),
     (u ''category_insight_tool'', base_contract [''insights'', ''provenance'', ''source_boundary'', ''error'']),
     (u ''web_search_tool'', (base_contract [''results'', ''error''])
        \<lparr>list_limits := [(u ''results'', 5)], max_total_chars := 8000\<rparr>),
     (u ''create_order_tool'', (base_contract [''order_id'', ''buyer_id'', ''items'', ''lines'',
        ''shipping_address'', ''status'', ''created_at'', ''updated_at'', ''total_amount_major'',
        ''currency'', ''error''])
        \<lparr>list_limits := line_limits, max_total_chars := 8000\<rparr>),
     (u ''query_order_tool'', (base_contract [''order_id'', ''buyer_id'', ''items'', ''lines'',
        ''shipping_address'', ''status'', ''created_at'', ''updated_at'', ''cancel_reason'',
        ''total_amount_major'', ''currency'', ''error''])
        \<lparr>list_limits := line_limits, max_total_chars := 8000\<rparr>),
     (u ''cancel_order_tool'', (base_contract [''order_id'', ''status'', ''cancel_reason'', ''updated_at'', ''error''])
        \<lparr>max_total_chars := 4000\<rparr>),
     (u ''task_dispatch'', (base_contract [''agent'', ''platform'', ''site_locale'',
        ''search_result_available'', ''search_args'', ''hits'', ''filtered_out'', ''recall_strategy'',
        ''agent_output'', ''error''])
        \<lparr>list_limits := hit_limits, max_string_chars := 2000, max_total_chars := 16000\<rparr>),
     (u ''remember_preference_tool'', (base_contract [''saved'', ''kind'', ''error''])\<lparr>max_total_chars := 1000\<rparr>),
     (u ''forget_preference_tool'', (base_contract [''deleted'', ''error''])\<lparr>max_total_chars := 1000\<rparr>),
     (u ''TaskCreate'', (base_contract [''task'', ''error''])\<lparr>max_total_chars := 4000\<rparr>),
     (u ''TaskUpdate'', (base_contract [''task'', ''error''])\<lparr>max_total_chars := 4000\<rparr>),
     (u ''TaskList'', (base_contract [''tasks'', ''error''])\<lparr>list_limits := [(u ''tasks'', 20)]\<rparr>),
     (u ''TaskGet'', (base_contract [''task'', ''error''])\<lparr>max_total_chars := 4000\<rparr>)]"

section \<open>The bounded projection\<close>

text \<open>\<open>str.isdigit\<close> is a parameter of the environment; list positions are decimal and always pass it.\<close>

definition path_key :: "(pystr \<Rightarrow> bool) \<Rightarrow> pystr list \<Rightarrow> pystr" where
  "path_key isdigit path = join [46] (map (\<lambda>item. if isdigit item then [42] else item) path)"

definition list_limit :: "(pystr \<Rightarrow> bool) \<Rightarrow> contract \<Rightarrow> pystr list \<Rightarrow> nat" where
  "list_limit isdigit c path = (case map_of (list_limits c) (path_key isdigit path) of
     None \<Rightarrow> default_list_limit c | Some n \<Rightarrow> n)"

fun bounded :: "(pystr \<Rightarrow> bool) \<Rightarrow> contract \<Rightarrow> pystr list \<Rightarrow> json \<Rightarrow> json"
  and bounded_items :: "(pystr \<Rightarrow> bool) \<Rightarrow> contract \<Rightarrow> pystr list \<Rightarrow> nat \<Rightarrow> json list \<Rightarrow> json list"
  and bounded_fields :: "(pystr \<Rightarrow> bool) \<Rightarrow> contract \<Rightarrow> pystr list \<Rightarrow> (pystr \<times> json) list \<Rightarrow> (pystr \<times> json) list" where
  "bounded dg c path (JStr s) = JStr (take (max_string_chars c) s)"
| "bounded dg c path (JObj d) = JObj (take (max_mapping_fields c) (bounded_fields dg c path d))"
| "bounded dg c path (JList l) = JList (take (list_limit dg c path) (bounded_items dg c path 0 l))"
| "bounded dg c path (JNull) = JNull"
| "bounded dg c path (JBool b) = JBool b"
| "bounded dg c path (JInt i) = JInt i"
| "bounded dg c path (JFloat r) = JFloat r"
| "bounded_items dg c path n [] = []"
| "bounded_items dg c path n (v # vs) = bounded dg c (path @ [dec n]) v # bounded_items dg c path (n + 1) vs"
| "bounded_fields dg c path [] = []"
| "bounded_fields dg c path ((k, v) # d) = (k, bounded dg c (path @ [k]) v) # bounded_fields dg c path d"

section \<open>Artifacts\<close>

record 'b artifact_env =
  encode :: "pystr \<Rightarrow> 'b"
  decode :: "'b \<Rightarrow> pystr result"
  byte_length :: "'b \<Rightarrow> nat"
  sha :: "'b \<Rightarrow> pystr"
  loads :: "pystr \<Rightarrow> json result"
  float_text :: "rat \<Rightarrow> pystr"
  isdigit :: "pystr \<Rightarrow> bool"
  sanitize :: "pystr \<Rightarrow> bool \<times> pystr"

type_synonym 'b artifacts = "pystr \<Rightarrow> 'b option"

definition SCHEME :: pystr where "SCHEME = u ''crossshop-artifact-sha256-v1''"

definition media_type :: "'b artifact_env \<Rightarrow> pystr \<Rightarrow> pystr" where
  "media_type env s = (case loads env s of
     Inl e \<Rightarrow> u ''text/plain; charset=utf-8'' | Inr v \<Rightarrow> u ''application/json'')"

definition artifact_put :: "'b artifact_env \<Rightarrow> pystr \<Rightarrow> 'b artifacts \<Rightarrow> json \<times> 'b artifacts" where
  "artifact_put env s st =
     (let raw = encode env s; digest = sha env raw;
          st' = (if st digest = None then st(digest \<mapsto> raw) else st)
      in (JObj [(u ''scheme'', JStr SCHEME), (u ''sha256'', JStr digest),
                (u ''bytes'', JInt (int (byte_length env raw))), (u ''media_type'', JStr (media_type env s))], st'))"

definition hex_chars :: "pystr" where "hex_chars = u ''0123456789abcdef''"

text \<open>A reference whose digest is not text is refused by the character test, as \<open>str\<close> renders it
  with other characters or another length.\<close>

definition artifact_read :: "'b artifact_env \<Rightarrow> json \<Rightarrow> 'b artifacts \<Rightarrow> pystr result" where
  "artifact_read env ref st =
     (if jget ref ''scheme'' \<noteq> JStr SCHEME then Inl (ValueError ''unsupported artifact reference'')
      else case jget ref ''sha256'' of
        JStr digest \<Rightarrow>
          if length digest \<noteq> 64 \<or> \<not> list_all (\<lambda>ch. ch \<in> set hex_chars) digest
          then Inl (ValueError ''invalid artifact digest'')
          else (case st digest of
            None \<Rightarrow> Inl (OtherError ''FileNotFoundError'')
          | Some raw \<Rightarrow> if sha env raw \<noteq> digest then Inl (ValueError ''artifact digest mismatch'')
              else decode env raw)
      | _ \<Rightarrow> Inl (ValueError ''invalid artifact digest''))"

section \<open>Formatting\<close>

definition output_limit :: "contract \<Rightarrow> int \<Rightarrow> int" where
  "output_limit c configured = max 256 (min (max 256 configured) (max_total_chars c))"

definition raw_text :: "'b artifact_env \<Rightarrow> json \<Rightarrow> pystr" where
  "raw_text env v = (case v of JStr s \<Rightarrow> s | _ \<Rightarrow> dumps (float_text env) v)"

definition pick_fields :: "pystr list \<Rightarrow> (pystr \<times> json) list \<Rightarrow> (pystr \<times> json) list" where
  "pick_fields allowed d = List.map_filter (\<lambda>k. map_option (\<lambda>v. (k, v)) (map_of d k)) allowed"

definition project :: "'b artifact_env \<Rightarrow> contract \<Rightarrow> json \<Rightarrow> json" where
  "project env c parsed = (case parsed of
     JObj d \<Rightarrow> bounded (isdigit env) c [] (JObj (pick_fields (allowed_fields c) d))
   | _ \<Rightarrow> bounded (isdigit env) c [] parsed)"

definition with_reference :: "json \<Rightarrow> json \<Rightarrow> json" where
  "with_reference ref projected = (case projected of
     JObj d \<Rightarrow> JObj (AList.update (u ''artifact_ref'') ref d)
   | _ \<Rightarrow> JObj [(u ''result'', projected), (u ''artifact_ref'', ref)])"

definition truncated_marker :: "json \<Rightarrow> json" where
  "truncated_marker ref = JObj [(u ''status'', JStr (u ''truncated'')), (u ''artifact_ref'', ref)]"

definition model_view :: "'b artifact_env \<Rightarrow> contract \<Rightarrow> json \<Rightarrow> pystr \<Rightarrow> json" where
  "model_view env c ref raw =
     (case loads env raw of
        Inl e \<Rightarrow> JObj [(u ''status'', JStr (u ''truncated'')), (u ''preview'', JStr (take 160 raw)),
                      (u ''artifact_ref'', ref)]
      | Inr parsed \<Rightarrow> if jeq (project env c parsed) parsed then project env c parsed
                      else with_reference ref (project env c parsed))"

definition encoded_view :: "'b artifact_env \<Rightarrow> contract \<Rightarrow> int \<Rightarrow> json \<Rightarrow> pystr \<Rightarrow> pystr" where
  "encoded_view env c limit ref raw =
     (if \<not> is_ok (loads env raw) \<and> int (length raw) \<le> limit then raw
      else let encoded = dumps (float_text env) (model_view env c ref raw)
           in if int (length encoded) > limit then dumps (float_text env) (truncated_marker ref)
              else encoded)"

definition format_tool_output :: "'b artifact_env \<Rightarrow> pystr \<Rightarrow> json \<Rightarrow> int \<Rightarrow> 'b artifacts \<Rightarrow>
    pystr result \<times> 'b artifacts" where
  "format_tool_output env tool raw_output configured st =
     (case map_of TOOL_OUTPUT_CONTRACTS tool of
        None \<Rightarrow> (Inl (ValueError ''missing L0 output contract''), st)
      | Some c \<Rightarrow>
          (let raw = raw_text env raw_output; (ref, st') = artifact_put env raw st
           in (Inr (snd (sanitize env (encoded_view env c (output_limit c configured) ref raw))), st')))"

section \<open>What the projection guarantees\<close>

text \<open>A value is within a contract when no text, list or object of it exceeds its limit.\<close>

fun fits :: "(pystr \<Rightarrow> bool) \<Rightarrow> contract \<Rightarrow> pystr list \<Rightarrow> json \<Rightarrow> bool"
  and fits_items :: "(pystr \<Rightarrow> bool) \<Rightarrow> contract \<Rightarrow> pystr list \<Rightarrow> nat \<Rightarrow> json list \<Rightarrow> bool"
  and fits_fields :: "(pystr \<Rightarrow> bool) \<Rightarrow> contract \<Rightarrow> pystr list \<Rightarrow> (pystr \<times> json) list \<Rightarrow> bool" where
  "fits dg c path (JStr s) \<longleftrightarrow> length s \<le> max_string_chars c"
| "fits dg c path (JObj d) \<longleftrightarrow> length d \<le> max_mapping_fields c \<and> fits_fields dg c path d"
| "fits dg c path (JList l) \<longleftrightarrow> length l \<le> list_limit dg c path \<and> fits_items dg c path 0 l"
| "fits dg c path (JNull) \<longleftrightarrow> True"
| "fits dg c path (JBool b) \<longleftrightarrow> True"
| "fits dg c path (JInt i) \<longleftrightarrow> True"
| "fits dg c path (JFloat r) \<longleftrightarrow> True"
| "fits_items dg c path n [] \<longleftrightarrow> True"
| "fits_items dg c path n (v # vs) \<longleftrightarrow> fits dg c (path @ [dec n]) v \<and> fits_items dg c path (n + 1) vs"
| "fits_fields dg c path [] \<longleftrightarrow> True"
| "fits_fields dg c path ((k, v) # d) \<longleftrightarrow> fits dg c (path @ [k]) v \<and> fits_fields dg c path d"

lemma length_bounded [simp]:
  "length (bounded_items dg c path n vs) = length vs" "length (bounded_fields dg c path d) = length d"
  by (induction vs arbitrary: n) (simp_all, induction d, auto)

lemma within_take:
  "fits_items dg c path n vs \<Longrightarrow> fits_items dg c path n (take k vs)"
  "fits_fields dg c path d \<Longrightarrow> fits_fields dg c path (take k d)"
proof -
  show "fits_items dg c path n vs \<Longrightarrow> fits_items dg c path n (take k vs)"
    by (induction vs arbitrary: n k) (auto simp: take_Cons split: nat.split)
  show "fits_fields dg c path d \<Longrightarrow> fits_fields dg c path (take k d)"
    by (induction d arbitrary: k) (auto simp: take_Cons split: nat.split)
qed

lemma bounded_within:
  "fits dg c path (bounded dg c path v)"
  "fits_items dg c path n (bounded_items dg c path n vs)"
  "fits_fields dg c path (bounded_fields dg c path d)"
  by (induction dg c path v and dg c path n vs and dg c path d
      rule: bounded_bounded_items_bounded_fields.induct) (simp_all add: within_take)

lemma bounded_id:
  "fits dg c path v \<Longrightarrow> bounded dg c path v = v"
  "fits_items dg c path n vs \<Longrightarrow> bounded_items dg c path n vs = vs"
  "fits_fields dg c path d \<Longrightarrow> bounded_fields dg c path d = d"
  by (induction dg c path v and dg c path n vs and dg c path d
      rule: bounded_bounded_items_bounded_fields.induct) simp_all

lemma project_obj:
  "project env c (JObj d) = bounded (isdigit env) c [] (JObj (pick_fields (allowed_fields c) d))"
  by (simp add: project_def)

section \<open>The size of the output\<close>

definition digest_ok :: "'b artifact_env \<Rightarrow> 'b \<Rightarrow> bool" where
  "digest_ok env raw \<longleftrightarrow> length (sha env raw) = 64 \<and> list_all (\<lambda>ch. ch \<in> set hex_chars) (sha env raw)"

lemma hex_plain: "list_all (\<lambda>ch. ch \<in> set hex_chars) s \<Longrightarrow> list_all plain_char s"
  by (rule list.pred_mono_strong, assumption)
    (auto simp: hex_chars_def u_def plain_char_def)

lemma length_media: "length (quoted (media_type env s)) \<le> 27"
proof -
  have "length (quoted (u ''text/plain; charset=utf-8'')) = 27" "length (quoted (u ''application/json'')) = 18"
    by code_simp+
  then show ?thesis by (simp add: media_type_def split: sum.split)
qed

lemma artifact_ref_length:
  assumes "digest_ok env (encode env s)" and "byte_length env (encode env s) < 10 ^ 40"
  shows "length (dumps ft (fst (artifact_put env s st))) \<le> 218"
proof -
  have "length (dec (byte_length env (encode env s))) \<le> 40"
    using assms(2) by (intro length_dec_le) simp_all
  moreover have "length (quoted (sha env (encode env s))) = 66"
    using assms(1) by (simp add: digest_ok_def quoted_plain hex_plain)
  moreover have "length (quoted (u ''scheme'')) = 8" "length (quoted (u ''sha256'')) = 8"
    "length (quoted (u ''bytes'')) = 7" "length (quoted (u ''media_type'')) = 12" "length (quoted SCHEME) = 30"
    by code_simp+
  ultimately show ?thesis using length_media [of env s]
    by (simp add: artifact_put_def Let_def length_dumps_obj dec_int_def del: dumps.simps(7))
qed

lemma marker_length:
  assumes "length (dumps ft ref) \<le> 218"
  shows "length (dumps ft (truncated_marker ref)) \<le> 256"
proof -
  have "length (quoted (u ''status'')) = 8" "length (quoted (u ''truncated'')) = 11"
    "length (quoted (u ''artifact_ref'')) = 14"
    by code_simp+
  with assms show ?thesis by (simp add: truncated_marker_def length_dumps_obj del: dumps.simps(7))
qed

lemma encoded_view_length:
  assumes "length (dumps (float_text env) ref) \<le> 218"
  shows "int (length (encoded_view env c (output_limit c configured) ref raw)) \<le> output_limit c configured"
proof -
  have "256 \<le> output_limit c configured" by (simp add: output_limit_def)
  with marker_length [OF assms] show ?thesis by (auto simp: encoded_view_def Let_def)
qed

section \<open>Properties\<close>

text \<open>Also: the model's view of a tool output respects the tool's contract at every depth, is the value
  itself when the value already respects it, and of an object keeps only fields the contract allows.\<close>

theorem projection_contract:
  "fits (isdigit env) c [] (project env c v) \<and>
   (fits (isdigit env) c path w \<longrightarrow> bounded (isdigit env) c path w = w) \<and>
   fst ` set (obj_items (project env c (JObj d))) \<subseteq> set (allowed_fields c)"
proof -
  have "map fst (bounded_fields dg c q d') = map fst d'" for dg q and d' :: "(pystr \<times> json) list"
    by (induction d') auto
  then have "fst ` set (bounded_fields dg c q d') = fst ` set d'" for dg q and d' :: "(pystr \<times> json) list"
    by (metis list.set_map)
  then have "fst ` set (obj_items (project env c (JObj d))) \<subseteq> fst ` set (pick_fields (allowed_fields c) d)"
    using image_mono [OF set_take_subset, of fst] by (metis bounded.simps(2) obj_items.simps(1) project_obj)
  also have "\<dots> \<subseteq> set (allowed_fields c)"
    by (auto simp: pick_fields_def List.map_filter_def)
  finally have "fst ` set (obj_items (project env c (JObj d))) \<subseteq> set (allowed_fields c)" .
  moreover have "fits (isdigit env) c [] (project env c v)"
    unfolding project_def by (cases v) (simp_all only: json.simps bounded_within(1))
  ultimately show ?thesis using bounded_id(1) by blast
qed

definition ex_env :: "pystr artifact_env" where
  "ex_env = \<lparr>encode = id, decode = Inr, byte_length = length, sha = (\<lambda>s. replicate 64 97),
     loads = (\<lambda>s. Inl (ValueError ''json'')), float_text = (\<lambda>r. []), isdigit = (\<lambda>s. False),
     sanitize = (\<lambda>s. (False, s))\<rparr>"

definition ex_contract :: contract where
  "ex_contract = (base_contract [''error''])\<lparr>max_string_chars := 3\<rparr>"

theorem projection_contract_witness:
  "fits (isdigit ex_env) ex_contract [] (project ex_env ex_contract (JStr (u ''abcdef''))) \<and>
   bounded (isdigit ex_env) ex_contract [] (JStr (u ''abc'')) = JStr (u ''abc'')"
  using projection_contract [of ex_env ex_contract "JStr (u ''abcdef'')" "[]" "JStr (u ''abc'')"]
  by (simp add: ex_contract_def)



lemma artifact_read_iff:
  "artifact_read env ref st = Inr t \<longleftrightarrow> jget ref ''scheme'' = JStr SCHEME \<and>
     (\<exists>digest raw. jget ref ''sha256'' = JStr digest \<and> length digest = 64 \<and>
        list_all (\<lambda>ch. ch \<in> set hex_chars) digest \<and> st digest = Some raw \<and> sha env raw = digest \<and>
        decode env raw = Inr t)"
  by (cases "jget ref ''sha256''") (auto simp: artifact_read_def split: option.splits if_splits)

lemma artifact_put_keeps: "st d = Some raw \<Longrightarrow> snd (artifact_put env s st) d = Some raw"
  by (auto simp: artifact_put_def Let_def)

lemma artifact_put_ref:
  "jget (fst (artifact_put env s st)) ''scheme'' = JStr SCHEME"
  "jget (fst (artifact_put env s st)) ''sha256'' = JStr (sha env (encode env s))"
  by (simp_all add: artifact_put_def Let_def jget_def)

lemma artifact_put_stored:
  "st (sha env (encode env s)) \<in> {None, Some (encode env s)} \<Longrightarrow>
   snd (artifact_put env s st) (sha env (encode env s)) = Some (encode env s)"
  by (auto simp: artifact_put_def Let_def)

text \<open>Also: the artifact store returns every output exactly as it was put, unless another text with the
  same digest was there before, and putting one output never changes what another reference reads.\<close>

theorem artifact_round_trip:
  assumes "\<And>t. decode env (encode env t) = Inr t" and "digest_ok env (encode env s)"
    and "st (sha env (encode env s)) \<in> {None, Some (encode env s)}"
  shows "artifact_read env (fst (artifact_put env s st)) (snd (artifact_put env s st)) = Inr s \<and>
    (artifact_read env ref st = Inr t \<longrightarrow> artifact_read env ref (snd (artifact_put env s st)) = Inr t)"
proof -
  have "artifact_read env ref (snd (artifact_put env s st)) = Inr t" if "artifact_read env ref st = Inr t"
    using that unfolding artifact_read_iff by (blast intro: artifact_put_keeps)
  moreover have "artifact_read env (fst (artifact_put env s st)) (snd (artifact_put env s st)) = Inr s"
    using assms artifact_put_stored [of st env s]
    unfolding artifact_read_iff artifact_put_ref by (simp add: digest_ok_def)
  ultimately show ?thesis by blast
qed

theorem artifact_round_trip_witness:
  "artifact_read ex_env (fst (artifact_put ex_env (u ''x'') Map.empty)) (snd (artifact_put ex_env (u ''x'') Map.empty)) =
     Inr (u ''x'')"
proof -
  have "digest_ok ex_env (encode ex_env (u ''x''))"
    by (simp add: digest_ok_def ex_env_def hex_chars_def u_def list_all_iff)
  moreover have "decode ex_env (encode ex_env t) = Inr t" for t by (simp add: ex_env_def)
  ultimately show ?thesis using artifact_round_trip [of ex_env "u ''x''" Map.empty] by simp
qed

end
