(* ===== verification/Reducer.thy ===== *)
theory Reducer
  imports Json "HOL-Library.Product_Lexorder"
begin

text \<open>
  \<open>app/application/context/reducer.py\<close> with the record \<open>L4Context\<close> of \<open>models.py\<close>: the projection of
  a turn's events into the bounded facts that every later prompt carries. \<open>loads\<close> is \<open>json.loads\<close> and
  \<open>other_text\<close> is \<open>str\<close> on values that are not text.
\<close>

section \<open>The context record\<close>

type_synonym jdict = "(pystr \<times> json) list"

record l4_context =
  schema_version :: pystr
  revision :: int
  session :: jdict
  request :: jdict
  last_search :: "jdict option"
  last_recommendation :: "jdict option"
  order_facts :: "jdict option"
  updated_at :: pystr

definition SCHEMA_VERSION :: pystr where "SCHEMA_VERSION = u ''session-context-v1''"

definition empty_context :: l4_context where
  "empty_context = \<lparr>schema_version = SCHEMA_VERSION, revision = 0, session = [], request = [],
     last_search = None, last_recommendation = None, order_facts = None, updated_at = []\<rparr>"

definition opt_json :: "jdict option \<Rightarrow> json" where
  "opt_json d = (case d of None \<Rightarrow> JNull | Some x \<Rightarrow> JObj x)"

definition semantic_dict :: "l4_context \<Rightarrow> json" where
  "semantic_dict c = JObj [(u ''schema_version'', JStr (schema_version c)), (u ''session'', JObj (session c)),
     (u ''request'', JObj (request c)), (u ''last_search'', opt_json (last_search c)),
     (u ''last_recommendation'', opt_json (last_recommendation c)), (u ''order'', opt_json (order_facts c))]"

definition context_to_dict :: "l4_context \<Rightarrow> json" where
  "context_to_dict c = JObj [(u ''schema_version'', JStr (schema_version c)), (u ''revision'', JInt (revision c)),
     (u ''session'', JObj (session c)), (u ''request'', JObj (request c)),
     (u ''last_search'', opt_json (last_search c)),
     (u ''last_recommendation'', opt_json (last_recommendation c)), (u ''order'', opt_json (order_facts c)),
     (u ''updated_at'', JStr (updated_at c))]"

record reduce_env =
  loads :: "pystr \<Rightarrow> json result"
  other_text :: "json \<Rightarrow> pystr"
  int_text :: "pystr \<Rightarrow> int result"

definition to_str :: "reduce_env \<Rightarrow> json \<Rightarrow> pystr" where
  "to_str env v = (case v of JStr s \<Rightarrow> s | _ \<Rightarrow> other_text env v)"

definition str_or :: "reduce_env \<Rightarrow> json \<Rightarrow> pystr" where
  "str_or env v = (if truthy v then to_str env v else [])"

definition opt_dict :: "json \<Rightarrow> jdict option" where
  "opt_dict v = (case v of JObj d \<Rightarrow> Some d | _ \<Rightarrow> None)"

text \<open>
  \<open>from_dict\<close>: \<open>int(v)\<close> and \<open>dict(v or {})\<close> raise on values they cannot convert. A list of pairs,
  which \<open>dict\<close> would accept, is refused here.
\<close>

definition dict_or_empty :: "json \<Rightarrow> jdict result" where
  "dict_or_empty v = (if \<not> truthy v then Inr []
     else case v of JObj d \<Rightarrow> Inr d | JStr s \<Rightarrow> Inl (ValueError ''dict'') | _ \<Rightarrow> Inl (TypeError ''dict''))"

definition context_from_dict :: "reduce_env \<Rightarrow> json \<Rightarrow> l4_context result" where
  "context_from_dict env raw =
     (if \<not> truthy raw then Inr empty_context
      else andThen (if jhas raw ''revision'' then py_int (int_text env) (jget raw ''revision'') else Inr 0) (\<lambda>rev.
           andThen (dict_or_empty (jget raw ''session'')) (\<lambda>ses.
           andThen (dict_or_empty (jget raw ''request'')) (\<lambda>req.
             Inr \<lparr>schema_version = (if jhas raw ''schema_version'' then to_str env (jget raw ''schema_version'') else SCHEMA_VERSION),
               revision = rev, session = ses, request = req,
               last_search = opt_dict (jget raw ''last_search''),
               last_recommendation = opt_dict (jget raw ''last_recommendation''),
               order_facts = opt_dict (jget raw ''order''),
               updated_at = (if jhas raw ''updated_at'' then to_str env (jget raw ''updated_at'') else [])\<rparr>))))"

lemma opt_dict_json [simp]: "opt_dict (opt_json x) = x"
  by (simp add: opt_dict_def opt_json_def split: option.split)

lemma context_from_to: "context_from_dict env (context_to_dict c) = Inr c"
  by (simp add: context_from_dict_def context_to_dict_def jhas_def jget_def py_int_def dict_or_empty_def to_str_def)

section \<open>Bounding values\<close>

definition MAX_ITEMS :: nat where "MAX_ITEMS = 10"
definition MAX_REFS :: nat where "MAX_REFS = 20"
definition MAX_STRING :: nat where "MAX_STRING = 512"
definition MAX_DISPLAYED_PRODUCTS :: nat where "MAX_DISPLAYED_PRODUCTS = 5"
definition MAX_DISPLAYED_HISTORY :: nat where "MAX_DISPLAYED_HISTORY = 20"
definition MAX_DISPLAYED_SKUS :: nat where "MAX_DISPLAYED_SKUS = 5"
definition MAX_HIGHLIGHTS :: nat where "MAX_HIGHLIGHTS = 8"

definition SEARCH_ARGS :: "pystr list" where
  "SEARCH_ARGS = map u [''normalized_query'', ''category'', ''ship_to'', ''locale'', ''top_k'',
     ''target_currency'', ''price_max_major'', ''platform'', ''site_locale'']"

definition ORDER_ITEM_FIELDS :: "pystr list" where
  "ORDER_ITEM_FIELDS = map u [''product_id'', ''sku_id'', ''quantity'', ''title'', ''unit_price_major'',
     ''subtotal_major'', ''currency'']"

definition SKU_FIELDS :: "pystr list" where
  "SKU_FIELDS = map u [''sku_id'', ''spec'', ''price_major'', ''currency'', ''stock'']"

definition LANDED_PRICE_FIELDS :: "pystr list" where
  "LANDED_PRICE_FIELDS = map u [''ship_to'', ''subtotal_major'', ''freight_major'', ''tariff_major'',
     ''tariff_rate'', ''de_minimis_applied'', ''landed_total_major'', ''currency'', ''unavailable_reason'']"

definition PLATFORM_ORDER :: "(pystr, nat) dict" where
  "PLATFORM_ORDER = [(u ''crossshop_reference'', 0), (u ''reference_seed'', 1), (u ''amazon'', 2)]"

definition present :: "json \<Rightarrow> bool" where
  "present v \<longleftrightarrow> v \<noteq> JNull \<and> v \<noteq> JStr []"

definition parse_value :: "reduce_env \<Rightarrow> json \<Rightarrow> json" where
  "parse_value env v = (case v of
     JStr s \<Rightarrow> (case loads env (py_strip s) of Inl e \<Rightarrow> v | Inr w \<Rightarrow> w)
   | _ \<Rightarrow> v)"

fun bounded :: "nat \<Rightarrow> json \<Rightarrow> json"
  and bounded_list :: "nat \<Rightarrow> json list \<Rightarrow> json list"
  and bounded_dict :: "nat \<Rightarrow> jdict \<Rightarrow> jdict" where
  "bounded depth (JStr s) = (if 3 < depth then JNull else JStr (take MAX_STRING s))"
| "bounded depth (JObj d) = (if 3 < depth then JNull
     else JObj [(k, v) \<leftarrow> take 32 (bounded_dict (depth + 1) d). v \<noteq> JNull])"
| "bounded depth (JList l) = (if 3 < depth then JNull else JList (take MAX_REFS (bounded_list (depth + 1) l)))"
| "bounded depth JNull = JNull"
| "bounded depth (JBool b) = (if 3 < depth then JNull else JBool b)"
| "bounded depth (JInt i) = (if 3 < depth then JNull else JInt i)"
| "bounded depth (JFloat r) = (if 3 < depth then JNull else JFloat r)"
| "bounded_list depth [] = []"
| "bounded_list depth (v # vs) = bounded depth v # bounded_list depth vs"
| "bounded_dict depth [] = []"
| "bounded_dict depth ((k, v) # d) = (k, bounded depth v) # bounded_dict depth d"

text \<open>Assigning a key, and assigning it only when a condition holds.\<close>

abbreviation put :: "string \<Rightarrow> json \<Rightarrow> jdict \<Rightarrow> jdict" where
  "put k v d \<equiv> AList.update (u k) v d"

definition put_present :: "string \<Rightarrow> json \<Rightarrow> jdict \<Rightarrow> jdict" where
  "put_present k v d = (if present v then put k (bounded 0 v) d else d)"

definition compact_mapping :: "reduce_env \<Rightarrow> json \<Rightarrow> pystr list \<Rightarrow> jdict" where
  "compact_mapping env v allowed =
     [(k, w) \<leftarrow> map (\<lambda>(k, w). (k, bounded 0 w)) [(k, w) \<leftarrow> obj_items (parse_value env v). k \<in> set allowed]. present w]"

definition dict_get :: "jdict \<Rightarrow> string \<Rightarrow> json" where
  "dict_get d k = jget (JObj d) k"

definition compact_items :: "reduce_env \<Rightarrow> json \<Rightarrow> json list" where
  "compact_items env v =
     map JObj [d \<leftarrow> map (\<lambda>item. compact_mapping env item ORDER_ITEM_FIELDS)
        (take MAX_ITEMS (list_items (parse_value env v))).
        present (dict_get d ''product_id'') \<and> present (dict_get d ''sku_id'')]"

definition card_fields :: "string list" where
  "card_fields = [''product_id'', ''title'', ''brand'', ''category'', ''origin_country'', ''price_major'',
     ''currency'', ''score'']"

definition copy_card_field :: "json \<Rightarrow> string \<Rightarrow> jdict \<Rightarrow> jdict" where
  "copy_card_field v k crd =
     (if jhas v k \<and> bounded 0 (jget v k) \<noteq> JNull then put k (bounded 0 (jget v k)) crd else crd)"

definition compact_display_card :: "reduce_env \<Rightarrow> json \<Rightarrow> json" where
  "compact_display_card env v =
     (if \<not> is_obj v then JObj []
      else let crd = fold (copy_card_field v) card_fields [];
               crd = put ''highlights'' (JList (map (bounded 0)
                 (take MAX_HIGHLIGHTS (list_items (jget v ''highlights''))))) crd;
               crd = put ''skus'' (JList (map (\<lambda>item. JObj (compact_mapping env item SKU_FIELDS))
                 [item \<leftarrow> take MAX_DISPLAYED_SKUS (list_items (jget v ''skus'')). is_obj item])) crd;
               landed = compact_mapping env (jget v ''landed_price'') LANDED_PRICE_FIELDS
           in JObj (if landed = [] then crd else put ''landed_price'' (JObj landed) crd))"

definition output_of :: "reduce_env \<Rightarrow> json \<Rightarrow> json" where
  "output_of env payload =
     (case List.find (jhas payload) [''raw_output'', ''result'', ''model_output''] of
        Some k \<Rightarrow> parse_value env (jget payload k)
      | None \<Rightarrow> if jhas payload ''hits'' then payload else JNull)"

section \<open>Pairing calls with results\<close>

record event =
  ev_type :: pystr
  ev_payload :: json
  ev_occurred :: pystr

text \<open>\<open>_event_parts\<close>: a payload that is not an object counts as empty.\<close>

definition event_payload :: "event \<Rightarrow> json" where
  "event_payload e = (if is_obj (ev_payload e) then ev_payload e else JObj [])"

type_synonym invokes = "(pystr, pystr \<times> json) dict"

definition invoke_step :: "reduce_env \<Rightarrow> event \<Rightarrow> invokes \<Rightarrow> invokes" where
  "invoke_step env e calls =
     (let p = event_payload e; call_id = (if jhas p ''tool_call_id'' then to_str env (jget p ''tool_call_id'') else []);
          tool = (if jhas p ''tool'' then to_str env (jget p ''tool'') else [])
      in if ev_type e \<noteq> u ''tool.invoke'' \<or> call_id = [] \<or> tool = [] \<or> map_of calls call_id \<noteq> None then calls
         else AList.update call_id (tool, if is_obj (jget p ''args'') then jget p ''args'' else JObj []) calls)"

definition invokes_of :: "reduce_env \<Rightarrow> event list \<Rightarrow> invokes" where
  "invokes_of env evs = fold (invoke_step env) evs []"

text \<open>
  A result counts when it reports no error, its call was announced for the same tool, and its
  output is an object without an error: the call's tool and arguments, its id and the output.
\<close>

definition effective :: "reduce_env \<Rightarrow> invokes \<Rightarrow> event \<Rightarrow> (pystr \<times> json \<times> pystr \<times> json) option" where
  "effective env calls e =
     (let p = event_payload e; call_id = (if jhas p ''tool_call_id'' then to_str env (jget p ''tool_call_id'') else [])
      in if ev_type e \<noteq> u ''tool.result'' \<or> truthy (jget p ''error'') then None
         else case map_of calls call_id of
           None \<Rightarrow> None
         | Some (tool, args) \<Rightarrow>
             if (if jhas p ''tool'' then to_str env (jget p ''tool'') else []) \<noteq> tool then None
             else let out = output_of env p
                  in if \<not> is_obj out \<or> truthy (jget out ''error'') then None
                     else Some (tool, args, call_id, out))"

section \<open>The facts of the turn\<close>

type_synonym card_key = "pystr \<times> pystr"

record dispatch =
  d_call_id :: pystr
  d_platform :: json
  d_site_locale :: json
  d_args :: jdict
  d_returned :: nat
  d_filtered :: nat
  d_refs :: "pystr list"
  d_filtered_refs :: "pystr list"

record progress =
  pr_search :: "jdict option"
  pr_order :: "jdict option"
  pr_dispatches :: "dispatch list"
  pr_cards :: "(card_key, pystr option \<times> json) dict"
  pr_seen :: bool

definition opt_text :: "reduce_env \<Rightarrow> json \<Rightarrow> pystr option" where
  "opt_text env v = (if v = JNull then None else Some (to_str env v))"

definition product_refs_of :: "reduce_env \<Rightarrow> json list \<Rightarrow> pystr list" where
  "product_refs_of env hits = take MAX_REFS (map (\<lambda>h. to_str env (jget h ''product_id''))
     [h \<leftarrow> hits. is_obj h \<and> present (jget h ''product_id'')])"

definition add_hit :: "reduce_env \<Rightarrow> pystr \<Rightarrow> pystr option \<Rightarrow> json \<Rightarrow>
    (card_key, pystr option \<times> json) dict \<Rightarrow> (card_key, pystr option \<times> json) dict" where
  "add_hit env platform loc hit cards =
     (let pid = str_or env (jget hit ''product_id'')
      in if \<not> is_obj hit \<or> platform = [] \<or> pid = [] then cards
         else AList.update (platform, pid) (loc, compact_display_card env hit) cards)"

definition strs :: "pystr list \<Rightarrow> json" where "strs xs = JList (map JStr xs)"

definition search_facts :: "reduce_env \<Rightarrow> pystr \<Rightarrow> json \<Rightarrow> json list \<Rightarrow> jdict" where
  "search_facts env call_id args hits =
     [(u ''tool_call_id'', JStr call_id), (u ''args'', JObj (compact_mapping env args SEARCH_ARGS)),
      (u ''status'', JStr (u ''succeeded'')), (u ''returned_count'', JInt (int (length hits))),
      (u ''product_refs'', strs (product_refs_of env hits))]"

definition dispatch_facts :: "reduce_env \<Rightarrow> pystr \<Rightarrow> json \<Rightarrow> dispatch" where
  "dispatch_facts env call_id out =
     (let hits = list_items (jget out ''hits''); filtered = list_items (jget out ''filtered_out'')
      in \<lparr>d_call_id = call_id, d_platform = bounded 0 (jget out ''platform''),
          d_site_locale = bounded 0 (jget out ''site_locale''),
          d_args = put_present ''site_locale'' (jget out ''site_locale'')
            (put_present ''platform'' (jget out ''platform'')
              (compact_mapping env (jget out ''search_args'') SEARCH_ARGS)),
          d_returned = length hits, d_filtered = length filtered,
          d_refs = product_refs_of env hits, d_filtered_refs = product_refs_of env filtered\<rparr>)"

definition order_update :: "reduce_env \<Rightarrow> pystr \<Rightarrow> json \<Rightarrow> json \<Rightarrow> jdict \<Rightarrow> jdict" where
  "order_update env tool args out facts =
     (let facts' = fold (\<lambda>k. put_present k (jget out k))
            [''order_id'', ''status'', ''currency'', ''total_amount_major'', ''cancel_reason'', ''created_at''] facts;
          items = compact_items env (if truthy (jget out ''items'') then jget out ''items'' else jget out ''lines'');
          items' = (if items = [] \<and> tool = u ''create_order_tool'' then compact_items env (jget args ''items'') else items)
      in if items' = [] then facts' else put ''items'' (JList items') facts')"

definition order_tools :: "pystr list" where
  "order_tools = map u [''create_order_tool'', ''query_order_tool'', ''cancel_order_tool'']"

definition result_step :: "reduce_env \<Rightarrow> invokes \<Rightarrow> event \<Rightarrow> progress \<Rightarrow> progress" where
  "result_step env calls e pr =
     (case effective env calls e of
        None \<Rightarrow> pr
      | Some (tool, args, call_id, out) \<Rightarrow>
          if tool = u ''product_search_tool'' \<and> is_jlist (jget out ''hits'') then
            pr\<lparr>pr_seen := True,
               pr_search := Some (search_facts env call_id args (list_items (jget out ''hits''))),
               pr_cards := fold (add_hit env (str_or env (jget args ''platform'')) (opt_text env (jget args ''site_locale'')))
                 (list_items (jget out ''hits'')) (pr_cards pr)\<rparr>
          else if tool = u ''task_dispatch'' \<and> jget out ''agent'' = JStr (u ''search_agent'') \<and>
              jget out ''search_result_available'' = JBool True \<and> is_jlist (jget out ''hits'') \<and>
              is_jlist (jget out ''filtered_out'') then
            pr\<lparr>pr_seen := True, pr_dispatches := pr_dispatches pr @ [dispatch_facts env call_id out],
               pr_cards := fold (add_hit env (str_or env (jget out ''platform'')) (opt_text env (jget out ''site_locale'')))
                 (list_items (jget out ''hits'')) (pr_cards pr)\<rparr>
          else if tool \<in> set order_tools then
            (let facts = order_update env tool args out (case pr_order pr of None \<Rightarrow> [] | Some d \<Rightarrow> d)
             in pr\<lparr>pr_order := (if facts = [] then pr_order pr else Some facts)\<rparr>)
          else pr)"

section \<open>Searches dispatched in parallel\<close>

definition dispatch_key :: "reduce_env \<Rightarrow> dispatch \<Rightarrow> nat \<times> pystr \<times> pystr" where
  "dispatch_key env d =
     (case map_of PLATFORM_ORDER (to_str env (d_platform d)) of None \<Rightarrow> 99 | Some n \<Rightarrow> n,
      str_or env (d_site_locale d), d_call_id d)"

definition dispatch_json :: "dispatch \<Rightarrow> json" where
  "dispatch_json d = JObj [(u ''tool_call_id'', JStr (d_call_id d)), (u ''platform'', d_platform d),
     (u ''site_locale'', d_site_locale d), (u ''args'', JObj (d_args d)),
     (u ''returned_count'', JInt (int (d_returned d))), (u ''filtered_count'', JInt (int (d_filtered d))),
     (u ''product_refs'', strs (d_refs d)), (u ''filtered_product_refs'', strs (d_filtered_refs d))]"

definition merged_search :: "reduce_env \<Rightarrow> dispatch list \<Rightarrow> jdict" where
  "merged_search env ds =
     (let sorted_ds = sort_key (dispatch_key env) ds
      in [(u ''tool_call_ids'', strs (map d_call_id sorted_ds)), (u ''status'', JStr (u ''succeeded'')),
          (u ''returned_count'', JInt (int (sum_list (map d_returned sorted_ds)))),
          (u ''filtered_count'', JInt (int (sum_list (map d_filtered sorted_ds)))),
          (u ''product_refs'', strs (take MAX_REFS (dedup (concat (map d_refs sorted_ds))))),
          (u ''filtered_product_refs'', strs (take MAX_REFS (dedup (concat (map d_filtered_refs sorted_ds))))),
          (u ''platform_results'', JList (map dispatch_json sorted_ds))])"

section \<open>The recommendation\<close>

text \<open>The verified display history of the prior context, or its last display for older snapshots.\<close>

definition prior_history :: "l4_context \<Rightarrow> json list" where
  "prior_history c =
     (let d = JObj (case last_recommendation c of None \<Rightarrow> [] | Some x \<Rightarrow> x)
      in if is_jlist (jget d ''displayed_history'') then list_items (jget d ''displayed_history'')
         else list_items (jget d ''displayed_products''))"

definition history_step :: "reduce_env \<Rightarrow> json \<Rightarrow> (card_key, pystr option \<times> json) dict \<Rightarrow>
    (card_key, pystr option \<times> json) dict" where
  "history_step env shown cards =
     (let cd = jget shown ''card''; platform = str_or env (jget shown ''platform'');
          pid = str_or env (jget cd ''product_id'')
      in if \<not> is_obj shown \<or> \<not> is_obj cd \<or> platform = [] \<or> pid = [] then cards
         else AList.update (platform, pid)
                (opt_text env (jget shown ''site_locale''), compact_display_card env cd) cards)"

definition history_cards :: "reduce_env \<Rightarrow> l4_context \<Rightarrow> (card_key, pystr option \<times> json) dict" where
  "history_cards env c = fold (history_step env) (prior_history c) []"

definition final_structured :: "event list \<Rightarrow> json option" where
  "final_structured evs =
     map_option (\<lambda>e. jget (event_payload e) ''structured_output'')
       (List.find (\<lambda>e. ev_type e = u ''final.result'' \<and> is_obj (jget (event_payload e) ''structured_output''))
          (rev evs))"

record shown =
  sh_platform :: pystr
  sh_site_locale :: "pystr option"
  sh_card :: json
  sh_key :: card_key

definition opt_str :: "pystr option \<Rightarrow> json" where
  "opt_str x = (case x of None \<Rightarrow> JNull | Some s \<Rightarrow> JStr s)"

definition shown_json :: "nat \<Rightarrow> shown \<Rightarrow> json" where
  "shown_json n s = JObj [(u ''rank'', JInt (int n)), (u ''platform'', JStr (sh_platform s)),
     (u ''site_locale'', opt_str (sh_site_locale s)), (u ''card'', sh_card s)]"

text \<open>The selected references that resolve, each key once.\<close>

fun resolve :: "reduce_env \<Rightarrow> (card_key, pystr option \<times> json) dict \<Rightarrow> json list \<Rightarrow> shown list \<Rightarrow> shown list" where
  "resolve env cards [] acc = acc"
| "resolve env cards (r # rs) acc =
     (let key = (str_or env (jget r ''platform''), str_or env (jget r ''product_id''))
      in case map_of cards key of
           None \<Rightarrow> resolve env cards rs acc
         | Some (loc, cd) \<Rightarrow>
             if \<not> is_obj r \<or> key \<in> set (map sh_key acc) then resolve env cards rs acc
             else resolve env cards rs
                    (acc @ [\<lparr>sh_platform = fst key, sh_site_locale = loc, sh_card = cd, sh_key = key\<rparr>]))"

definition shown_items :: "shown list \<Rightarrow> json list" where
  "shown_items ss = map (\<lambda>(i, s). shown_json (i + 1) s) (enumerate 0 ss)"

text \<open>The history of a display: the loop stops when the bound is reached.\<close>

fun merge_history :: "reduce_env \<Rightarrow> json list \<Rightarrow> card_key list \<Rightarrow> json list \<Rightarrow> json list" where
  "merge_history env [] seen acc = acc"
| "merge_history env (x # xs) seen acc =
     (let cd = jget x ''card''; key = (str_or env (jget x ''platform''), str_or env (jget cd ''product_id''))
      in if \<not> is_obj x \<or> \<not> is_obj cd \<or> fst key = [] \<or> snd key = [] \<or> key \<in> set seen
         then merge_history env xs seen acc
         else if length (acc @ [x]) = MAX_DISPLAYED_HISTORY then acc @ [x]
         else merge_history env xs (key # seen) (acc @ [x]))"

text \<open>A card without a product identifier would raise \<open>KeyError\<close> when its reference is listed.\<close>

definition card_refs :: "shown list \<Rightarrow> json list result" where
  "card_refs ss = mapR (\<lambda>s. if jhas (sh_card s) ''product_id'' then Inr (jget (sh_card s) ''product_id'')
     else Inl (KeyError ''product_id'')) ss"

definition recommendation :: "reduce_env \<Rightarrow> l4_context \<Rightarrow> progress \<Rightarrow> json option \<Rightarrow> jdict option result" where
  "recommendation env prior pr structured =
     (case structured of
        None \<Rightarrow> Inr (last_recommendation prior)
      | Some fs \<Rightarrow>
          (let shown_products = resolve env (pr_cards pr)
                 (take MAX_DISPLAYED_PRODUCTS (list_items (jget fs ''selected_products''))) [];
               items = shown_items shown_products
           in if shown_products = [] \<and> \<not> pr_seen pr then Inr (last_recommendation prior)
              else andThen (card_refs shown_products) (\<lambda>refs.
                Inr (Some [(u ''status'', JStr (u ''succeeded'')),
                  (u ''displayed_count'', JInt (int (length shown_products))),
                  (u ''product_refs'', JList refs),
                  (u ''displayed_products'', JList items),
                  (u ''displayed_history'', JList (merge_history env (items @ prior_history prior) [] []))]))))"

section \<open>The reducer\<close>

record intent =
  in_session :: json
  in_buyer :: json
  in_locale :: json
  in_currency :: json
  in_query :: json

definition session_facts :: "intent \<Rightarrow> jdict \<Rightarrow> jdict" where
  "session_facts i d = put_present ''currency'' (in_currency i) (put_present ''locale'' (in_locale i)
     (put_present ''buyer_id'' (in_buyer i) (put_present ''shopping_session_id'' (in_session i) d)))"

definition request_facts :: "intent \<Rightarrow> jdict \<Rightarrow> jdict" where
  "request_facts i d =
     (if present (in_query i)
      then put ''current_raw_query'' (bounded 0 (in_query i))
             (if map_of d (u ''session_origin_raw_query'') = None
              then put ''session_origin_raw_query'' (bounded 0 (in_query i)) d else d)
      else d)"

definition turn_progress :: "reduce_env \<Rightarrow> event list \<Rightarrow> l4_context \<Rightarrow> progress" where
  "turn_progress env evs prior =
     fold (result_step env (invokes_of env evs)) evs
       \<lparr>pr_search = last_search prior, pr_order = order_facts prior, pr_dispatches = [],
        pr_cards = history_cards env prior, pr_seen = False\<rparr>"

definition reduce_l4 :: "reduce_env \<Rightarrow> intent \<Rightarrow> event list \<Rightarrow> pystr \<Rightarrow> l4_context \<Rightarrow> l4_context result" where
  "reduce_l4 env i evs now prior =
     (let pr = turn_progress env evs prior
      in andThen (recommendation env prior pr (final_structured evs)) (\<lambda>rec.
         let candidate = prior\<lparr>session := session_facts i (session prior), request := request_facts i (request prior),
               last_search := (if pr_dispatches pr = [] then pr_search pr else Some (merged_search env (pr_dispatches pr))),
               last_recommendation := rec, order_facts := pr_order pr\<rparr>
         in if jeq (semantic_dict candidate) (semantic_dict prior) then Inr prior
            else Inr (candidate\<lparr>revision := revision prior + 1,
              updated_at := (case List.find (\<lambda>s. s \<noteq> []) (map ev_occurred (rev evs)) of None \<Rightarrow> now | Some s \<Rightarrow> s)\<rparr>)))"

section \<open>Cards come from verified hits\<close>

text \<open>
  \<open>verified\<close>: the card is the compact form of a hit of an effective search of this turn on that
  platform, or of a card the prior context says was displayed there.
\<close>

definition verified :: "reduce_env \<Rightarrow> l4_context \<Rightarrow> event list \<Rightarrow> card_key \<Rightarrow> json \<Rightarrow> bool" where
  "verified env prior evs key cd \<longleftrightarrow>
     (\<exists>x\<in>set (prior_history prior). is_obj (jget x ''card'') \<and> snd key \<noteq> [] \<and>
        key = (str_or env (jget x ''platform''), str_or env (jget (jget x ''card'') ''product_id'')) \<and>
        cd = compact_display_card env (jget x ''card'')) \<or>
     (\<exists>e\<in>set evs. \<exists>tool args call_id out. effective env (invokes_of env evs) e = Some (tool, args, call_id, out) \<and>
        (tool = u ''product_search_tool'' \<and> fst key = str_or env (jget args ''platform'') \<or>
         tool = u ''task_dispatch'' \<and> fst key = str_or env (jget out ''platform'')) \<and>
        (\<exists>h\<in>set (list_items (jget out ''hits'')). is_obj h \<and> snd key \<noteq> [] \<and>
           snd key = str_or env (jget h ''product_id'') \<and> cd = compact_display_card env h))"

definition cards_verified :: "reduce_env \<Rightarrow> l4_context \<Rightarrow> event list \<Rightarrow>
    (card_key, pystr option \<times> json) dict \<Rightarrow> bool" where
  "cards_verified env prior evs cards \<longleftrightarrow> (\<forall>key loc cd. map_of cards key = Some (loc, cd) \<longrightarrow> verified env prior evs key cd)"

lemma cards_verified_update:
  "cards_verified env prior evs cards \<Longrightarrow> verified env prior evs key cd \<Longrightarrow>
   cards_verified env prior evs (AList.update key (loc, cd) cards)"
  by (auto simp: cards_verified_def map_of_update)

lemma fold_inv: "P s \<Longrightarrow> (\<And>x s. x \<in> set xs \<Longrightarrow> P s \<Longrightarrow> P (f x s)) \<Longrightarrow> P (fold f xs s)"
  by (induction xs arbitrary: s) auto

lemma history_cards_verified: "cards_verified env prior evs (history_cards env prior)"
  unfolding history_cards_def
proof (rule fold_inv)
  fix x cards assume x: "x \<in> set (prior_history prior)" and ok: "cards_verified env prior evs cards"
  let ?key = "(str_or env (jget x ''platform''), str_or env (jget (jget x ''card'') ''product_id''))"
  have "verified env prior evs ?key (compact_display_card env (jget x ''card''))"
    if "is_obj (jget x ''card'')" "snd ?key \<noteq> []"
    using x that unfolding verified_def by (intro disjI1 bexI [of _ x]) simp_all
  then show "cards_verified env prior evs (history_step env x cards)"
    using ok by (simp add: history_step_def Let_def cards_verified_update)
qed (simp add: cards_verified_def)

lemma hits_verified:
  assumes "cards_verified env prior evs cards"
    and "\<And>h. h \<in> set hits \<Longrightarrow> is_obj h \<Longrightarrow> str_or env (jget h ''product_id'') \<noteq> [] \<Longrightarrow>
      verified env prior evs (platform, str_or env (jget h ''product_id'')) (compact_display_card env h)"
  shows "cards_verified env prior evs (fold (add_hit env platform loc) hits cards)"
  using assms(1) by (rule fold_inv) (simp add: add_hit_def Let_def cards_verified_update assms(2))

lemma result_step_cards:
  assumes "cards_verified env prior evs (pr_cards pr)" "e \<in> set evs"
  shows "cards_verified env prior evs (pr_cards (result_step env (invokes_of env evs) e pr))"
proof (cases "effective env (invokes_of env evs) e")
  case None
  then show ?thesis using assms(1) by (simp add: result_step_def)
next
  case (Some r)
  obtain tool args call_id out where r: "r = (tool, args, call_id, out)" by (cases r)
  have v: "verified env prior evs (platform, str_or env (jget h ''product_id'')) (compact_display_card env h)"
    if "h \<in> set (list_items (jget out ''hits''))" "is_obj h" "str_or env (jget h ''product_id'') \<noteq> []"
      "tool = u ''product_search_tool'' \<and> platform = str_or env (jget args ''platform'') \<or>
       tool = u ''task_dispatch'' \<and> platform = str_or env (jget out ''platform'')" for h platform
    unfolding verified_def using that Some r assms(2)
    by (intro disjI2 bexI [of _ e] exI [of _ tool] exI [of _ args] exI [of _ call_id] exI [of _ out]) auto
  show ?thesis
    using Some r assms(1) by (simp add: result_step_def Let_def hits_verified v)
qed

lemma turn_cards_verified: "cards_verified env prior evs (pr_cards (turn_progress env evs prior))"
  unfolding turn_progress_def
  by (rule fold_inv) (simp_all add: history_cards_verified result_step_cards)

text \<open>A compact card keeps the product identifier.\<close>

lemma jhas_update: "jhas (JObj (AList.update k v d)) j \<longleftrightarrow> k = u j \<or> jhas (JObj d) j"
  by (simp add: jhas_def map_of_update)

lemma copy_card_keeps: "jhas (JObj d) j \<Longrightarrow> jhas (JObj (fold (copy_card_field v) ks d)) j"
  by (rule fold_inv) (simp_all add: copy_card_field_def jhas_update)

lemma truthy_bounded: "truthy v \<Longrightarrow> bounded 0 v \<noteq> JNull"
  by (cases v) simp_all

lemma compact_card_id:
  assumes "is_obj v" "str_or env (jget v ''product_id'') \<noteq> []"
  shows "is_obj (compact_display_card env v) \<and> jhas (compact_display_card env v) ''product_id''"
proof -
  have t: "truthy (jget v ''product_id'')" using assms(2) by (simp add: str_or_def split: if_splits)
  then have "jhas v ''product_id''" by (auto simp: jhas_def jget_def split: option.splits)
  with truthy_bounded [OF t] have "jhas (JObj (copy_card_field v ''product_id'' [])) ''product_id''"
    by (simp add: copy_card_field_def jhas_def)
  then have "jhas (JObj (fold (copy_card_field v) card_fields [])) ''product_id''"
    using copy_card_keeps [of "copy_card_field v ''product_id'' []" "''product_id''" v "tl card_fields"]
    by (simp add: card_fields_def)
  with assms(1) show ?thesis by (simp add: compact_display_card_def Let_def jhas_update)
qed

lemma verified_has_id: "verified env prior evs key cd \<Longrightarrow> is_obj cd \<and> jhas cd ''product_id''"
  by (auto simp: verified_def compact_card_id)

section \<open>What is displayed\<close>

lemma resolve_spec:
  assumes "distinct (map sh_key acc)"
    and "\<forall>s\<in>set acc. map_of cards (sh_key s) = Some (sh_site_locale s, sh_card s) \<and> sh_platform s = fst (sh_key s)"
  shows "distinct (map sh_key (resolve env cards rs acc)) \<and>
    (\<forall>s\<in>set (resolve env cards rs acc). map_of cards (sh_key s) = Some (sh_site_locale s, sh_card s) \<and>
       sh_platform s = fst (sh_key s)) \<and>
    length (resolve env cards rs acc) \<le> length acc + length rs"
  using assms
proof (induction rs arbitrary: acc)
  case (Cons r rs)
  let ?key = "(str_or env (jget r ''platform''), str_or env (jget r ''product_id''))"
  show ?case
  proof (cases "\<exists>loc cd. map_of cards ?key = Some (loc, cd) \<and> is_obj r \<and> ?key \<notin> set (map sh_key acc)")
    case True
    then obtain loc cd where m: "map_of cards ?key = Some (loc, cd)" "is_obj r" "?key \<notin> set (map sh_key acc)"
      by blast
    let ?acc = "acc @ [\<lparr>sh_platform = fst ?key, sh_site_locale = loc, sh_card = cd, sh_key = ?key\<rparr>]"
    have eq: "resolve env cards (r # rs) acc = resolve env cards rs ?acc" using m by (simp add: Let_def)
    have d: "distinct (map sh_key ?acc)" using m(3) Cons.prems(1) by simp
    have a: "\<forall>s\<in>set ?acc. map_of cards (sh_key s) = Some (sh_site_locale s, sh_card s) \<and>
        sh_platform s = fst (sh_key s)" using m(1) Cons.prems(2) by simp
    have l: "length ?acc + length rs = length acc + length (r # rs)" by simp
    show ?thesis unfolding eq by (rule Cons.IH [OF d a, unfolded l])
  next
    case False
    have eq: "resolve env cards (r # rs) acc = resolve env cards rs acc"
    proof (cases "map_of cards ?key")
      case (Some lc)
      obtain loc cd where "lc = (loc, cd)" by (cases lc)
      with Some False have "\<not> is_obj r \<or> ?key \<in> set (map sh_key acc)" by blast
      with Some \<open>lc = (loc, cd)\<close> show ?thesis by (simp add: Let_def)
    qed (simp add: Let_def)
    have "length acc + length rs \<le> length acc + length (r # rs)" by simp
    with Cons.IH [OF Cons.prems] show ?thesis unfolding eq by (meson order_trans)
  qed
qed simp

lemma merge_history_length:
  "length acc < MAX_DISPLAYED_HISTORY \<Longrightarrow> length (merge_history env xs seen acc) \<le> MAX_DISPLAYED_HISTORY"
  by (induction env xs seen acc rule: merge_history.induct) (auto simp: Let_def)

lemma card_refs_total:
  "\<forall>s\<in>set ss. jhas (sh_card s) ''product_id'' \<Longrightarrow> card_refs ss = Inr (map (\<lambda>s. jget (sh_card s) ''product_id'') ss)"
  unfolding card_refs_def by (rule mapR_all_Inr) simp

definition display :: "reduce_env \<Rightarrow> l4_context \<Rightarrow> event list \<Rightarrow> shown list" where
  "display env prior evs = (case final_structured evs of None \<Rightarrow> []
     | Some fs \<Rightarrow> resolve env (pr_cards (turn_progress env evs prior))
         (take MAX_DISPLAYED_PRODUCTS (list_items (jget fs ''selected_products''))) [])"

lemma display_spec:
  "length (display env prior evs) \<le> MAX_DISPLAYED_PRODUCTS \<and> distinct (map sh_key (display env prior evs)) \<and>
   (\<forall>s\<in>set (display env prior evs). sh_platform s = fst (sh_key s) \<and> verified env prior evs (sh_key s) (sh_card s))"
proof (cases "final_structured evs")
  case (Some fs)
  let ?cards = "pr_cards (turn_progress env evs prior)"
  let ?refs = "take MAX_DISPLAYED_PRODUCTS (list_items (jget fs ''selected_products''))"
  have d: "display env prior evs = resolve env ?cards ?refs []" using Some by (simp add: display_def)
  note r = resolve_spec [of "[]" ?cards env ?refs, folded d, simplified]
  have "verified env prior evs (sh_key s) (sh_card s)" if "s \<in> set (display env prior evs)" for s
  proof -
    from r that have "map_of ?cards (sh_key s) = Some (sh_site_locale s, sh_card s)" by blast
    with turn_cards_verified show ?thesis unfolding cards_verified_def by blast
  qed
  moreover have "length (display env prior evs) \<le> MAX_DISPLAYED_PRODUCTS" using r by simp
  ultimately show ?thesis using r by blast
qed (simp add: display_def)

lemma recommendation_eq:
  "recommendation env prior (turn_progress env evs prior) (final_structured evs) =
    Inr (if final_structured evs = None \<or> display env prior evs = [] \<and> \<not> pr_seen (turn_progress env evs prior)
      then last_recommendation prior
      else Some [(u ''status'', JStr (u ''succeeded'')),
        (u ''displayed_count'', JInt (int (length (display env prior evs)))),
        (u ''product_refs'', JList (map (\<lambda>s. jget (sh_card s) ''product_id'') (display env prior evs))),
        (u ''displayed_products'', JList (shown_items (display env prior evs))),
        (u ''displayed_history'', JList (merge_history env (shown_items (display env prior evs) @ prior_history prior) [] []))])"
proof -
  have "\<forall>s\<in>set (display env prior evs). jhas (sh_card s) ''product_id''"
    using display_spec [of env prior evs] verified_has_id by blast
  from card_refs_total [OF this] show ?thesis
    by (cases "final_structured evs") (simp_all add: recommendation_def display_def Let_def)
qed

lemma reduce_Inr:
  "\<exists>c. reduce_l4 env i evs now prior = Inr c \<and>
     (c = prior \<or> revision c = revision prior + 1 \<and> \<not> jeq (semantic_dict c) (semantic_dict prior))"
proof -
  have "semantic_dict (c\<lparr>revision := r, updated_at := t\<rparr>) = semantic_dict c" for c r t
    by (simp add: semantic_dict_def)
  then show ?thesis by (simp add: reduce_l4_def recommendation_eq Let_def split: if_split)
qed

section \<open>Properties\<close>

text \<open>Also: reducing a turn never raises, whatever the events hold: the answer is the prior context itself
  or one with the next revision whose facts differ from the prior ones.\<close>

theorem reduce_total:
  "\<exists>c. reduce_l4 env i evs now prior = Inr c \<and>
     (c = prior \<or> revision c = revision prior + 1 \<and> \<not> jeq (semantic_dict c) (semantic_dict prior))"
  by (rule reduce_Inr)

lemma reduce_recommendation:
  assumes "reduce_l4 env i evs now prior = Inr c"
  shows "last_recommendation c = last_recommendation prior \<or>
    last_recommendation c = Some [(u ''status'', JStr (u ''succeeded'')),
        (u ''displayed_count'', JInt (int (length (display env prior evs)))),
        (u ''product_refs'', JList (map (\<lambda>s. jget (sh_card s) ''product_id'') (display env prior evs))),
        (u ''displayed_products'', JList (shown_items (display env prior evs))),
        (u ''displayed_history'', JList (merge_history env (shown_items (display env prior evs) @ prior_history prior) [] []))]"
  using assms by (auto simp: reduce_l4_def recommendation_eq Let_def split: if_splits)

text \<open>C12: a context never recommends what was not verified: a new recommendation lists at most five
  products, each key once, every card being the compact form of a hit of an effective search of this
  turn on that platform or of a card displayed before, and keeps at most twenty in its history.\<close>

theorem recommended_verified:
  assumes "reduce_l4 env i evs now prior = Inr c" and "last_recommendation c \<noteq> last_recommendation prior"
  shows "\<exists>ss rec. last_recommendation c = Some rec \<and> dict_get rec ''displayed_products'' = JList (shown_items ss) \<and>
    length ss \<le> 5 \<and> distinct (map sh_key ss) \<and>
    (\<forall>s\<in>set ss. sh_platform s = fst (sh_key s) \<and> verified env prior evs (sh_key s) (sh_card s)) \<and>
    length (list_items (dict_get rec ''displayed_history'')) \<le> 20"
proof -
  have h: "length (merge_history env xs [] []) \<le> 20" for xs
    using merge_history_length [of "[]" env xs "[]"] by (simp add: MAX_DISPLAYED_HISTORY_def)
  show ?thesis
    using reduce_recommendation [OF assms(1)] assms(2) display_spec [of env prior evs] h
    by (intro exI [of _ "display env prior evs"] exI) (auto simp: dict_get_def jget_def MAX_DISPLAYED_PRODUCTS_def)
qed

lemma ignored_progress:
  "\<forall>e\<in>set evs. effective env calls e = None \<Longrightarrow> fold (result_step env calls) evs pr = pr"
  by (induction evs) (simp_all add: result_step_def)

text \<open>Also: failed, unannounced or malformed tool results leave no trace: when no result of the turn is
  effective, the search and order facts are those of the prior context, and only products
  displayed before can be recommended.\<close>

theorem ineffective_results_ignored:
  assumes "reduce_l4 env i evs now prior = Inr c"
    and "\<forall>e\<in>set evs. effective env (invokes_of env evs) e = None"
  shows "last_search c = last_search prior \<and> order_facts c = order_facts prior \<and>
    (\<forall>s\<in>set (display env prior evs). \<exists>x\<in>set (prior_history prior). sh_card s = compact_display_card env (jget x ''card''))"
proof -
  have p: "turn_progress env evs prior = \<lparr>pr_search = last_search prior, pr_order = order_facts prior,
      pr_dispatches = [], pr_cards = history_cards env prior, pr_seen = False\<rparr>"
    using assms(2) by (simp add: turn_progress_def ignored_progress)
  obtain rec where rec: "recommendation env prior (turn_progress env evs prior) (final_structured evs) = Inr rec"
    using recommendation_eq by blast
  have "last_search c = last_search prior \<and> order_facts c = order_facts prior"
    using assms(1) rec unfolding reduce_l4_def Let_def rec p by (auto simp: Let_def split: if_splits)
  moreover have "\<forall>s\<in>set (display env prior evs). verified env prior evs (sh_key s) (sh_card s)"
    using display_spec by blast
  ultimately show ?thesis using assms(2) unfolding verified_def by fastforce
qed

section \<open>Witnesses\<close>

definition ex_env :: reduce_env where
  "ex_env = \<lparr>loads = (\<lambda>s. Inl (ValueError ''json'')), other_text = (\<lambda>v. []),
     int_text = (\<lambda>s. Inl (ValueError ''int''))\<rparr>"

definition ex_text :: "string \<Rightarrow> json" where "ex_text s = JStr (u s)"

definition ex_event :: "string \<Rightarrow> (string \<times> json) list \<Rightarrow> event" where
  "ex_event kind p = \<lparr>ev_type = u kind, ev_payload = JObj (map (\<lambda>(k, v). (u k, v)) p), ev_occurred = u ''t1''\<rparr>"

definition ex_call :: "(string \<times> json) list" where
  "ex_call = [(''tool_call_id'', ex_text ''c1''), (''tool'', ex_text ''product_search_tool'')]"

definition ex_hit :: json where
  "ex_hit = JObj [(u ''product_id'', ex_text ''P1''), (u ''title'', ex_text ''cup'')]"

definition ex_events :: "json \<Rightarrow> event list" where
  "ex_events err =
    [ex_event ''tool.invoke'' (ex_call @ [(''args'', JObj [(u ''platform'', ex_text ''amazon'')])]),
     ex_event ''tool.result'' (ex_call @ [(''error'', err), (''raw_output'', JObj [(u ''hits'', JList [ex_hit])])]),
     ex_event ''final.result'' [(''structured_output'', JObj [(u ''selected_products'',
        JList [JObj [(u ''platform'', ex_text ''amazon''), (u ''product_id'', ex_text ''P1'')]])])]]"

definition ex_intent :: intent where
  "ex_intent = \<lparr>in_session = ex_text ''s1'', in_buyer = ex_text ''ann'', in_locale = ex_text ''en'',
     in_currency = ex_text ''USD'', in_query = ex_text ''a cup''\<rparr>"

definition ex_reduced :: "json \<Rightarrow> l4_context result" where
  "ex_reduced err = reduce_l4 ex_env ex_intent (ex_events err) (u ''now'') empty_context"

lemma ex_display: "map sh_key (display ex_env empty_context (ex_events JNull)) = [(u ''amazon'', u ''P1'')]"
  by code_simp

lemma ex_displayed: "(case ex_reduced JNull of Inr c \<Rightarrow>
    (case last_recommendation c of None \<Rightarrow> 0 | Some rec \<Rightarrow> length (list_items (dict_get rec ''displayed_products'')))
    | Inl e \<Rightarrow> 9) = (1 :: nat)"
  by code_simp

theorem recommended_verified_witness:
  "\<exists>c rec. ex_reduced JNull = Inr c \<and> last_recommendation c = Some rec \<and>
     length (list_items (dict_get rec ''displayed_history'')) \<le> 20"
proof -
  from reduce_Inr [of ex_env ex_intent "ex_events JNull" "u ''now''" empty_context] obtain c
    where c: "reduce_l4 ex_env ex_intent (ex_events JNull) (u ''now'') empty_context = Inr c" by blast
  with ex_displayed have "last_recommendation c \<noteq> None" by (auto simp: ex_reduced_def simp del: not_None_eq split: option.splits)
  then have "last_recommendation c \<noteq> last_recommendation empty_context" by (simp add: empty_context_def)
  from recommended_verified [OF c this] c show ?thesis unfolding ex_reduced_def by blast
qed

theorem ineffective_results_ignored_witness:
  "\<exists>c. ex_reduced (ex_text ''down'') = Inr c \<and> last_search c = None \<and> order_facts c = None"
proof -
  have none: "\<forall>e\<in>set (ex_events (ex_text ''down'')).
      effective ex_env (invokes_of ex_env (ex_events (ex_text ''down''))) e = None"
    by code_simp
  obtain c where c: "ex_reduced (ex_text ''down'') = Inr c"
    unfolding ex_reduced_def using reduce_Inr by blast
  from ineffective_results_ignored [OF c [unfolded ex_reduced_def] none] c show ?thesis
    by (simp add: empty_context_def)
qed

end
