(* ===== verification/Sessions.thy ===== *)
theory Sessions
  imports Json_Parse Preferences
begin

text \<open>
  Sessions and conversation logs: the ports (\<open>app/domain/session/ports\<close>), the file stores of
  \<open>json_file_stores.py\<close> over a directory of texts, and the relational stores of
  \<open>sql/repositories.py\<close>. The locales \<open>session_store\<close> and \<open>turn_log\<close> are the contracts of the two
  ports, each interpreted on both stores.
\<close>

section \<open>Text files\<close>

text \<open>
  A directory maps names to texts. Texts are written in UTF-8, which has no encoding for surrogates:
  the write then raises, after the file was opened (and, for a whole text, truncated). On reading,
  every line end becomes a line feed.
\<close>

type_synonym text_dir = "pystr \<Rightarrow> pystr option"

definition encodable :: "pystr \<Rightarrow> bool" where
  "encodable s \<longleftrightarrow> list_all (\<lambda>c. c < 55296 \<or> 57343 < c) s"

definition write_text :: "pystr \<Rightarrow> pystr \<Rightarrow> text_dir \<Rightarrow> unit result \<times> text_dir" where
  "write_text path s d =
     (if encodable s then (Inr (), d(path \<mapsto> s)) else (Inl (ValueError ''UnicodeEncodeError''), d(path \<mapsto> [])))"

definition append_text :: "pystr \<Rightarrow> pystr \<Rightarrow> text_dir \<Rightarrow> unit result \<times> text_dir" where
  "append_text path s d =
     (let old = (case d path of None \<Rightarrow> [] | Some t \<Rightarrow> t)
      in if encodable s then (Inr (), d(path \<mapsto> old @ s))
         else (Inl (ValueError ''UnicodeEncodeError''), d(path \<mapsto> old)))"

fun newline_from :: "bool \<Rightarrow> pystr \<Rightarrow> pystr" where
  "newline_from after_cr [] = []"
| "newline_from after_cr (c # s) =
     (if after_cr \<and> c = 10 then newline_from False s
      else if c = 13 then 10 # newline_from True s else c # newline_from False s)"

definition read_text :: "pystr \<Rightarrow> text_dir \<Rightarrow> pystr option" where
  "read_text path d = map_option (newline_from False) (d path)"

text \<open>\<open>str.splitlines\<close> splits at more than line feeds.\<close>

definition is_break :: "int \<Rightarrow> bool" where
  "is_break c \<longleftrightarrow> 10 \<le> c \<and> c \<le> 13 \<or> 28 \<le> c \<and> c \<le> 30 \<or> c = 133 \<or> c = 8232 \<or> c = 8233"

fun lines_from :: "bool \<Rightarrow> pystr \<Rightarrow> pystr \<Rightarrow> pystr list" where
  "lines_from after_cr cur [] = (if cur = [] then [] else [cur])"
| "lines_from after_cr cur (c # s) =
     (if after_cr \<and> c = 10 then lines_from False cur s
      else if is_break c then cur # lines_from (c = 13) [] s
      else lines_from False (cur @ [c]) s)"

definition splitlines :: "pystr \<Rightarrow> pystr list" where
  "splitlines s = lines_from False [] s"

lemma newline_id: "13 \<notin> set s \<Longrightarrow> newline_from False s = s"
  by (induction s) auto

lemma lines_break: "is_break c \<Longrightarrow> c \<noteq> 13 \<Longrightarrow> 13 \<notin> set a \<Longrightarrow>
   lines_from False cur (a @ c # b) = lines_from False cur (a @ [c]) @ lines_from False [] b"
  by (induction a arbitrary: cur) auto

lemma lines_plain: "\<not> list_ex is_break l \<Longrightarrow> l \<noteq> [] \<or> cur \<noteq> [] \<Longrightarrow> lines_from False cur (l @ [10]) = [cur @ l]"
  by (induction l arbitrary: cur) (auto simp: is_break_def)

text \<open>Appending one line to a text that is empty or ends with a line feed.\<close>

lemma splitlines_append:
  assumes "c = [] \<or> last c = 10" "13 \<notin> set c" "\<not> list_ex is_break l" "l \<noteq> []"
  shows "splitlines (c @ l @ [10]) = splitlines c @ [l]"
proof (cases c rule: rev_cases)
  case Nil
  with assms lines_plain [of l "[]"] show ?thesis by (simp add: splitlines_def)
next
  case (snoc a x)
  with assms have x: "x = 10" "13 \<notin> set a" by auto
  have b: "is_break 10" by (simp add: is_break_def)
  have "splitlines (c @ l @ [10]) = lines_from False [] (a @ [10]) @ lines_from False [] (l @ [10])"
    using lines_break [OF b _ x(2), of "[]" "l @ [10]"] snoc x(1) by (simp add: splitlines_def)
  with assms lines_plain [of l "[]"] snoc x(1) show ?thesis by (simp add: splitlines_def)
qed

section \<open>Session snapshots\<close>

text \<open>\<open>SessionStore\<close>: one text per session.\<close>

record 's session_port =
  port_save :: "pystr \<Rightarrow> pystr \<Rightarrow> 's \<Rightarrow> unit result \<times> 's"
  port_load :: "pystr \<Rightarrow> 's \<Rightarrow> pystr option"

locale session_store =
  fixes port :: "'s session_port" and ids :: "pystr set" and texts :: "pystr set" and inv :: "'s \<Rightarrow> bool"
  assumes save_law: "inv s \<Longrightarrow> sid \<in> ids \<Longrightarrow> t \<in> texts \<Longrightarrow> port_save port sid t s = (r, s') \<Longrightarrow>
      r = Inr () \<and> inv s' \<and> (\<forall>other\<in>ids. port_load port other s' = (if other = sid then Some t else port_load port other s))"

definition save_all :: "'s session_port \<Rightarrow> (pystr \<times> pystr) list \<Rightarrow> 's \<Rightarrow> 's" where
  "save_all port saves s = fold (\<lambda>(sid, t) st. snd (port_save port sid t st)) saves s"

context session_store
begin

lemma load_save_all:
  "\<lbrakk>inv s; set saves \<subseteq> ids \<times> texts; sid \<in> ids\<rbrakk> \<Longrightarrow>
   port_load port sid (save_all port saves s) =
     (case map_of (rev saves) sid of None \<Rightarrow> port_load port sid s | Some t \<Rightarrow> Some t)"
proof (induction saves arbitrary: s)
  case (Cons sv saves)
  obtain i t where sv: "sv = (i, t)" by force
  obtain r s' where s': "port_save port i t s = (r, s')" by force
  with Cons.prems sv save_law [OF Cons.prems(1) _ _ s'] have
    "inv s'" "port_load port sid s' = (if sid = i then Some t else port_load port sid s)" by auto
  with Cons.IH [of s'] Cons.prems sv s' show ?case
    by (auto simp: save_all_def map_add_def split: option.split)
qed (simp add: save_all_def)

end

definition session_path :: "(int \<Rightarrow> bool) \<Rightarrow> pystr \<Rightarrow> pystr" where
  "session_path isalnum sid = safe_name isalnum sid @ u ''.json''"

definition filesession_save :: "(int \<Rightarrow> bool) \<Rightarrow> pystr \<Rightarrow> pystr \<Rightarrow> text_dir \<Rightarrow> unit result \<times> text_dir" where
  "filesession_save isalnum sid state_json d = write_text (session_path isalnum sid) state_json d"

definition filesession_load :: "(int \<Rightarrow> bool) \<Rightarrow> pystr \<Rightarrow> text_dir \<Rightarrow> pystr option" where
  "filesession_load isalnum sid d = read_text (session_path isalnum sid) d"

definition filesession_port :: "(int \<Rightarrow> bool) \<Rightarrow> text_dir session_port" where
  "filesession_port isalnum = \<lparr>port_save = filesession_save isalnum, port_load = filesession_load isalnum\<rparr>"

text \<open>The table of snapshots: \<open>merge\<close> inserts or replaces the row of the session.\<close>

type_synonym session_rows = "pystr \<Rightarrow> pystr option"

definition sqlsession_save :: "pystr \<Rightarrow> pystr \<Rightarrow> session_rows \<Rightarrow> unit result \<times> session_rows" where
  "sqlsession_save sid state_json rows = (Inr (), rows(sid \<mapsto> state_json))"

definition sqlsession_load :: "pystr \<Rightarrow> session_rows \<Rightarrow> pystr option" where
  "sqlsession_load sid rows = rows sid"

definition sqlsession_port :: "session_rows session_port" where
  "sqlsession_port = \<lparr>port_save = sqlsession_save, port_load = sqlsession_load\<rparr>"

text \<open>The texts a file returns unchanged, and sessions that no two share a cleaned name.\<close>

definition plain_texts :: "pystr set" where
  "plain_texts = {t. encodable t \<and> 13 \<notin> set t}"

definition apart :: "(int \<Rightarrow> bool) \<Rightarrow> pystr set set" where
  "apart isalnum = {ids. inj_on (safe_name isalnum) ids}"

lemma filesession_save_law:
  "\<lbrakk>inj_on (safe_name isalnum) ids; sid \<in> ids; other \<in> ids; t \<in> plain_texts\<rbrakk> \<Longrightarrow>
   fst (filesession_save isalnum sid t d) = Inr () \<and>
   filesession_load isalnum other (snd (filesession_save isalnum sid t d)) =
     (if other = sid then Some t else filesession_load isalnum other d)"
  by (auto simp: filesession_save_def filesession_load_def write_text_def read_text_def session_path_def
      plain_texts_def newline_id inj_on_eq_iff)

interpretation sqlsession: session_store sqlsession_port UNIV UNIV "\<lambda>s. True"
  by unfold_locales (auto simp: sqlsession_port_def sqlsession_save_def sqlsession_load_def)

interpretation filesession: session_store "filesession_port isalnum" ids plain_texts "\<lambda>d. ids \<in> apart isalnum" for isalnum ids
proof unfold_locales
  fix s sid t r s'
  assume "ids \<in> apart isalnum" "sid \<in> ids" "t \<in> plain_texts" "port_save (filesession_port isalnum) sid t s = (r, s')"
  moreover from this have "r = fst (filesession_save isalnum sid t s)" "s' = snd (filesession_save isalnum sid t s)"
    by (simp_all add: filesession_port_def)
  ultimately show "r = Inr () \<and> ids \<in> apart isalnum \<and> (\<forall>other\<in>ids. port_load (filesession_port isalnum) other s' =
      (if other = sid then Some t else port_load (filesession_port isalnum) other s))"
    using filesession_save_law [of isalnum ids sid _ t s] by (simp add: filesession_port_def apart_def)
qed

section \<open>Turns and events\<close>

text \<open>
  The record's fields hold whatever the caller passed; only the role and the session identifier are
  checked. \<open>now\<close> stands for the default timestamp.
\<close>

record turn =
  ct_session :: pystr
  ct_buyer :: json
  ct_role :: json
  ct_content :: json
  ct_model :: json
  ct_latency :: json
  ct_created :: json

definition VALID_ROLES :: "json list" where
  "VALID_ROLES = [JStr (u ''buyer''), JStr (u ''agent'')]"

definition mk_turn :: "turn \<Rightarrow> turn result" where
  "mk_turn t =
     (if ct_role t \<notin> set VALID_ROLES then Inl (ValueError ''ConversationTurn.role'')
      else if ct_session t = [] then Inl (ValueError ''ConversationTurn.session_id'')
      else Inr t)"

record conv_event =
  ce_session :: pystr
  ce_type :: json
  ce_payload :: json
  ce_occurred :: json

section \<open>The conversation file\<close>

text \<open>\<open>isalnum\<close>, \<open>repr\<close> and \<open>float\<close> on doubles.\<close>

record text_env =
  te_alnum :: "int \<Rightarrow> bool"
  te_repr :: "rat \<Rightarrow> pystr"
  te_float :: "pystr \<Rightarrow> rat"

definition conv_path :: "text_env \<Rightarrow> pystr \<Rightarrow> pystr" where
  "conv_path env sid = safe_name (te_alnum env) sid @ u ''.jsonl''"

definition append_line :: "text_env \<Rightarrow> pystr \<Rightarrow> json \<Rightarrow> text_dir \<Rightarrow> unit result \<times> text_dir" where
  "append_line env sid record d = append_text (conv_path env sid) (dumps_plain (te_repr env) record @ [10]) d"

definition turn_json :: "turn \<Rightarrow> json" where
  "turn_json t = JObj [(u ''kind'', JStr (u ''turn'')), (u ''buyer_id'', ct_buyer t), (u ''role'', ct_role t),
     (u ''content'', ct_content t), (u ''model'', ct_model t), (u ''latency_ms'', ct_latency t),
     (u ''created_at'', ct_created t)]"

definition fileconv_append_turn :: "text_env \<Rightarrow> turn \<Rightarrow> text_dir \<Rightarrow> unit result \<times> text_dir" where
  "fileconv_append_turn env t d = append_line env (ct_session t) (turn_json t) d"

definition event_json :: "conv_event \<Rightarrow> json" where
  "event_json e = JObj [(u ''kind'', JStr (u ''event'')), (u ''type'', ce_type e), (u ''payload'', ce_payload e),
     (u ''occurred_at'', ce_occurred e)]"

fun fileconv_append_events :: "text_env \<Rightarrow> conv_event list \<Rightarrow> text_dir \<Rightarrow> unit result \<times> text_dir" where
  "fileconv_append_events env [] d = (Inr (), d)"
| "fileconv_append_events env (e # es) d =
     (case append_line env (ce_session e) (event_json e) d of
        (Inl err, d') \<Rightarrow> (Inl err, d')
      | (Inr x, d') \<Rightarrow> fileconv_append_events env es d')"

text \<open>A line that is valid JSON but no object raises: it has no \<open>get\<close>.\<close>

definition line_turn :: "pystr \<Rightarrow> json \<Rightarrow> turn result" where
  "line_turn sid v =
     (if \<not> jhas v ''role'' then Inl (KeyError ''role'')
      else mk_turn \<lparr>ct_session = sid, ct_buyer = get_or v ''buyer_id'' (JStr []), ct_role = jget v ''role'',
        ct_content = get_or v ''content'' (JStr []), ct_model = get_or v ''model'' (JStr []),
        ct_latency = get_or v ''latency_ms'' (JInt 0), ct_created = get_or v ''created_at'' (JStr [])\<rparr>)"

fun turns_of :: "text_env \<Rightarrow> pystr \<Rightarrow> pystr list \<Rightarrow> turn list result" where
  "turns_of env sid [] = Inr []"
| "turns_of env sid (line # rest) =
     (if blank line then turns_of env sid rest
      else case loads (te_float env) line of
        None \<Rightarrow> turns_of env sid rest
      | Some v \<Rightarrow>
          if \<not> is_obj v then Inl (OtherError ''AttributeError'')
          else if jget v ''kind'' \<noteq> JStr (u ''turn'') then turns_of env sid rest
          else andThen (line_turn sid v) (\<lambda>t. andThen (turns_of env sid rest) (\<lambda>ts. Inr (t # ts))))"

text \<open>\<open>turns[-limit:]\<close>\<close>

definition tail_slice :: "int \<Rightarrow> 'a list \<Rightarrow> 'a list" where
  "tail_slice limit xs = (if limit \<le> 0 then drop (nat (- limit)) xs else drop (length xs - nat limit) xs)"

definition file_turns :: "text_env \<Rightarrow> pystr \<Rightarrow> text_dir \<Rightarrow> turn list result" where
  "file_turns env sid d = (case read_text (conv_path env sid) d of
     None \<Rightarrow> Inr [] | Some t \<Rightarrow> turns_of env sid (splitlines t))"

definition fileconv_list_turns :: "text_env \<Rightarrow> pystr \<Rightarrow> int \<Rightarrow> text_dir \<Rightarrow> turn list result" where
  "fileconv_list_turns env sid limit d = andThen (file_turns env sid d) (\<lambda>ts. Inr (tail_slice limit ts))"

definition fileconv_touch_session :: "text_env \<Rightarrow> pystr \<Rightarrow> pystr \<Rightarrow> pystr \<Rightarrow> pystr \<Rightarrow> text_dir \<Rightarrow> unit result \<times> text_dir" where
  "fileconv_touch_session env sid buyer loc currency d =
     (if d (conv_path env sid) \<noteq> None then (Inr (), d)
      else append_line env sid (JObj [(u ''kind'', JStr (u ''session'')), (u ''buyer_id'', JStr buyer),
        (u ''locale'', JStr loc), (u ''currency'', JStr currency)]) d)"

fun session_line :: "text_env \<Rightarrow> pystr \<Rightarrow> pystr list \<Rightarrow> json result" where
  "session_line env sid [] = Inr (JObj [(u ''session_id'', JStr sid)])"
| "session_line env sid (line # rest) =
     (case loads (te_float env) line of
        None \<Rightarrow> session_line env sid rest
      | Some v \<Rightarrow>
          if \<not> is_obj v then Inl (OtherError ''AttributeError'')
          else if jget v ''kind'' = JStr (u ''session'')
          then Inr (JObj (fold (\<lambda>(k, w). AList.update k w) (obj_items v) [(u ''session_id'', JStr sid)]))
          else session_line env sid rest)"

definition fileconv_find_session :: "text_env \<Rightarrow> pystr \<Rightarrow> text_dir \<Rightarrow> json option result" where
  "fileconv_find_session env sid d = (case read_text (conv_path env sid) d of
     None \<Rightarrow> Inr None
   | Some t \<Rightarrow> andThen (session_line env sid (splitlines t)) (\<lambda>v. Inr (Some v)))"

section \<open>The conversation tables\<close>

record session_row =
  sr_buyer :: pystr
  sr_locale :: pystr
  sr_currency :: pystr
  sr_last_active :: pystr

record message_row =
  mr_session :: pystr
  mr_index :: nat
  mr_buyer :: json
  mr_role :: json
  mr_content :: json
  mr_model :: json
  mr_latency :: json
  mr_created :: json

text \<open>Rows in primary key order. \<open>db_now\<close> is what the server default of a timestamp column reads.\<close>

record conv_db =
  db_sessions :: "pystr \<Rightarrow> session_row option"
  db_messages :: "message_row list"
  db_events :: "conv_event list"
  db_now :: pystr

definition sqlconv_touch_session :: "pystr \<Rightarrow> pystr \<Rightarrow> pystr \<Rightarrow> pystr \<Rightarrow> pystr \<Rightarrow> conv_db \<Rightarrow> conv_db" where
  "sqlconv_touch_session now sid buyer loc currency db =
     (case db_sessions db sid of
        None \<Rightarrow> db\<lparr>db_sessions := (db_sessions db)(sid \<mapsto>
          \<lparr>sr_buyer = buyer, sr_locale = loc, sr_currency = currency, sr_last_active = db_now db\<rparr>)\<rparr>
      | Some row \<Rightarrow> db\<lparr>db_sessions := (db_sessions db)(sid \<mapsto> row\<lparr>sr_last_active := now\<rparr>)\<rparr>)"

definition max_index :: "pystr \<Rightarrow> conv_db \<Rightarrow> nat" where
  "max_index sid db = fold max [mr_index r. r \<leftarrow> db_messages db, mr_session r = sid] 0"

definition sqlconv_append_turn :: "turn \<Rightarrow> conv_db \<Rightarrow> unit result \<times> conv_db" where
  "sqlconv_append_turn t db =
     (Inr (), db\<lparr>db_messages := db_messages db @
       [\<lparr>mr_session = ct_session t, mr_index = max_index (ct_session t) db + 1, mr_buyer = ct_buyer t,
         mr_role = ct_role t, mr_content = ct_content t, mr_model = ct_model t, mr_latency = ct_latency t,
         mr_created = JStr (db_now db)\<rparr>]\<rparr>)"

definition sqlconv_append_events :: "conv_event list \<Rightarrow> conv_db \<Rightarrow> conv_db" where
  "sqlconv_append_events es db = (if es = [] then db else db\<lparr>db_events := db_events db @ es\<rparr>)"

definition row_turn :: "message_row \<Rightarrow> turn result" where
  "row_turn r = mk_turn \<lparr>ct_session = mr_session r, ct_buyer = mr_buyer r, ct_role = mr_role r,
     ct_content = mr_content r, ct_model = mr_model r, ct_latency = mr_latency r, ct_created = mr_created r\<rparr>"

definition session_rows_of :: "pystr \<Rightarrow> conv_db \<Rightarrow> message_row list" where
  "session_rows_of sid db = sort_key mr_index [r \<leftarrow> db_messages db. mr_session r = sid]"

text \<open>SQLite reads a negative limit as none.\<close>

definition sqlconv_list_turns :: "pystr \<Rightarrow> int \<Rightarrow> conv_db \<Rightarrow> turn list result" where
  "sqlconv_list_turns sid limit db =
     mapR row_turn (if limit < 0 then session_rows_of sid db else take (nat limit) (session_rows_of sid db))"

definition sqlconv_find_session :: "pystr \<Rightarrow> conv_db \<Rightarrow> json option" where
  "sqlconv_find_session sid db = map_option (\<lambda>row. JObj [(u ''session_id'', JStr sid),
     (u ''buyer_id'', JStr (sr_buyer row)), (u ''locale'', JStr (sr_locale row)),
     (u ''currency'', JStr (sr_currency row)), (u ''last_active_at'', JStr (sr_last_active row))]) (db_sessions db sid)"

section \<open>A log of turns\<close>

text \<open>
  What the conversation port promises of its turns: appending one adds it at the end of its own
  session's list and changes no other list. \<open>seen\<close> is what a turn is read back as.
\<close>

locale turn_log =
  fixes append_turn :: "turn \<Rightarrow> 's \<Rightarrow> unit result \<times> 's" and turns :: "pystr \<Rightarrow> 's \<Rightarrow> turn list result"
    and inv :: "'s \<Rightarrow> bool" and ok :: "turn \<Rightarrow> bool" and seen :: "turn \<Rightarrow> turn"
  assumes append_law: "inv s \<Longrightarrow> ok t \<Longrightarrow> append_turn t s = (r, s') \<Longrightarrow> r = Inr () \<and> inv s'"
    and own_law: "inv s \<Longrightarrow> ok t \<Longrightarrow> append_turn t s = (r, s') \<Longrightarrow>
      turns (ct_session t) s' = andThen (turns (ct_session t) s) (\<lambda>ts. Inr (ts @ [seen t]))"
    and other_law: "inv s \<Longrightarrow> ok t \<Longrightarrow> ok t' \<Longrightarrow> ct_session t' \<noteq> ct_session t \<Longrightarrow> append_turn t s = (r, s') \<Longrightarrow>
      turns (ct_session t') s' = turns (ct_session t') s"

definition append_all :: "(turn \<Rightarrow> 's \<Rightarrow> unit result \<times> 's) \<Rightarrow> turn list \<Rightarrow> 's \<Rightarrow> 's" where
  "append_all append_t ts s = fold (\<lambda>t st. snd (append_t t st)) ts s"

context turn_log
begin

lemma append_step:
  assumes "inv s" "ok t" "ok q" "turns (ct_session q) s = Inr old"
  shows "inv (snd (append_turn t s)) \<and> turns (ct_session q) (snd (append_turn t s)) =
    Inr (if ct_session t = ct_session q then old @ [seen t] else old)"
proof -
  obtain r s' where a: "append_turn t s = (r, s')" by force
  from append_law [OF assms(1,2) a] own_law [OF assms(1,2) a] other_law [OF assms(1,2,3) _ a] a assms(4)
  show ?thesis by (cases "ct_session t = ct_session q") auto
qed

lemma turns_append_all:
  "\<lbrakk>inv s; list_all ok ts; ok q; turns (ct_session q) s = Inr old\<rbrakk> \<Longrightarrow>
   turns (ct_session q) (append_all append_turn ts s) =
     Inr (old @ map seen [t \<leftarrow> ts. ct_session t = ct_session q])"
proof (induction ts arbitrary: s old)
  case (Cons t ts)
  from append_step [OF Cons.prems(1) _ Cons.prems(3,4), of t] Cons.prems(2)
  have "inv (snd (append_turn t s))" "turns (ct_session q) (snd (append_turn t s)) =
    Inr (if ct_session t = ct_session q then old @ [seen t] else old)" by auto
  from Cons.IH [OF this(1) _ Cons.prems(3) this(2)] Cons.prems(2) show ?case by (simp add: append_all_def)
qed (simp add: append_all_def)

end

section \<open>The file is a log\<close>

text \<open>
  A character that \<open>dumps\<close> leaves as it is but \<open>splitlines\<close> takes for a line end, or that UTF-8 cannot
  encode, is not clean. Other files of the directory may hold anything.
\<close>

definition clean :: "int \<Rightarrow> bool" where
  "clean c \<longleftrightarrow> (c < 55296 \<or> 57343 < c) \<and> c \<notin> {133, 8232, 8233}"

definition log_ok :: "text_env \<Rightarrow> pystr set \<Rightarrow> text_dir \<Rightarrow> bool" where
  "log_ok env ids d \<longleftrightarrow> inj_on (safe_name (te_alnum env)) ids \<and>
     (\<forall>sid\<in>ids. case d (conv_path env sid) of None \<Rightarrow> True | Some c \<Rightarrow> (c = [] \<or> last c = 10) \<and> 13 \<notin> set c)"

definition turn_ok :: "pystr set \<Rightarrow> turn \<Rightarrow> bool" where
  "turn_ok ids t \<longleftrightarrow> ct_session t \<in> ids \<and> mk_turn t = Inr t \<and> json_ok (turn_json t) \<and> texts_ok clean (turn_json t)"

definition doubles_ok :: "text_env \<Rightarrow> bool" where
  "doubles_ok env \<longleftrightarrow> float_law (te_float env) (te_repr env) \<and> (\<forall>r. set (te_repr env r) \<subseteq> {32..126})"

lemma turns_of_append:
  "turns_of env sid (a @ b) = andThen (turns_of env sid a) (\<lambda>xs. andThen (turns_of env sid b) (\<lambda>ys. Inr (xs @ ys)))"
proof (induction a)
  case Nil
  show ?case by (cases "turns_of env sid b") simp_all
next
  case (Cons l a)
  show ?case
  proof (cases "loads (te_float env) l")
    case (Some v)
    show ?thesis
      by (cases "line_turn sid v"; cases "turns_of env sid a"; cases "turns_of env sid b") (simp_all add: Cons Some)
  qed (simp add: Cons)
qed

lemma line_of_turn:
  assumes "doubles_ok env" "json_ok (turn_json t)" "mk_turn t = Inr t"
  shows "turns_of env (ct_session t) [dumps_plain (te_repr env) (turn_json t)] = Inr [t]"
proof -
  let ?l = "dumps_plain (te_repr env) (turn_json t)"
  have "\<exists>r. ?l = 123 # r" by (simp add: turn_json_def)
  then have "\<not> blank ?l" by (auto simp: blank_def is_space_def)
  moreover have "loads (te_float env) ?l = Some (turn_json t)"
    using assms(1,2) loads_dumps by (simp add: doubles_ok_def)
  moreover have "is_obj (turn_json t)" "jget (turn_json t) ''kind'' = JStr (u ''turn'')"
    by (simp_all add: turn_json_def jget_def)
  moreover have "line_turn (ct_session t) (turn_json t) = Inr t"
    using assms(3) by (cases t) (simp add: line_turn_def turn_json_def jget_def jhas_def get_or_def)
  ultimately show ?thesis by simp
qed

lemma turn_line_clean:
  assumes "doubles_ok env" "texts_ok clean (turn_json t)"
  shows "encodable (dumps_plain (te_repr env) (turn_json t) @ [10])"
    "\<not> list_ex is_break (dumps_plain (te_repr env) (turn_json t))"
    "13 \<notin> set (dumps_plain (te_repr env) (turn_json t))"
proof -
  have "set (dumps_plain (te_repr env) (turn_json t)) \<subseteq> {c. clean c \<and> (c < 0 \<or> 32 \<le> c)} \<union> {32..126}"
    using assms by (intro set_dumps_plain) (auto simp: doubles_ok_def)
  then have "\<forall>c\<in>set (dumps_plain (te_repr env) (turn_json t)).
      (c < 55296 \<or> 57343 < c) \<and> \<not> is_break c \<and> c \<noteq> 13"
    by (fastforce simp: clean_def is_break_def)
  then show "encodable (dumps_plain (te_repr env) (turn_json t) @ [10])"
    "\<not> list_ex is_break (dumps_plain (te_repr env) (turn_json t))"
    "13 \<notin> set (dumps_plain (te_repr env) (turn_json t))"
    by (auto simp: encodable_def list_all_iff list_ex_iff)
qed

lemma conv_path_eq: "log_ok env ids d \<Longrightarrow> a \<in> ids \<Longrightarrow> b \<in> ids \<Longrightarrow> conv_path env a = conv_path env b \<longleftrightarrow> a = b"
  by (auto simp: log_ok_def conv_path_def inj_on_eq_iff)

lemma append_turn_text:
  assumes "doubles_ok env" "turn_ok ids t"
  shows "fileconv_append_turn env t d = (Inr (), d(conv_path env (ct_session t) \<mapsto>
    (case d (conv_path env (ct_session t)) of None \<Rightarrow> [] | Some c \<Rightarrow> c) @ dumps_plain (te_repr env) (turn_json t) @ [10]))"
  using assms turn_line_clean(1) [of env t]
  by (simp add: fileconv_append_turn_def append_line_def append_text_def turn_ok_def)

lemma file_turns_unread:
  assumes "log_ok env ids d" "sid \<in> ids"
  shows "file_turns env sid d = (case d (conv_path env sid) of None \<Rightarrow> Inr [] | Some c \<Rightarrow> turns_of env sid (splitlines c))"
  using assms by (auto simp: file_turns_def read_text_def newline_id log_ok_def split: option.splits)

lemma log_ok_append:
  assumes "doubles_ok env" "log_ok env ids d" "turn_ok ids t"
  shows "log_ok env ids (snd (fileconv_append_turn env t d))"
proof -
  have "13 \<notin> set (dumps_plain (te_repr env) (turn_json t))"
    using turn_line_clean assms by (simp add: turn_ok_def)
  then show ?thesis
    using assms(2,3) append_turn_text [OF assms(1,3), of d] by (auto simp: log_ok_def turn_ok_def split: option.splits)
qed

lemma file_turns_append:
  assumes env: "doubles_ok env" and d: "log_ok env ids d" and t: "turn_ok ids t" and sid: "sid \<in> ids"
  shows "file_turns env sid (snd (fileconv_append_turn env t d)) =
    (if sid = ct_session t then andThen (file_turns env sid d) (\<lambda>ts. Inr (ts @ [t])) else file_turns env sid d)"
proof -
  let ?l = "dumps_plain (te_repr env) (turn_json t)"
  let ?old = "case d (conv_path env sid) of None \<Rightarrow> [] | Some c \<Rightarrow> c"
  have t': "ct_session t \<in> ids" "mk_turn t = Inr t" "json_ok (turn_json t)" "texts_ok clean (turn_json t)"
    using t by (simp_all add: turn_ok_def)
  have old: "?old = [] \<or> last ?old = 10" "13 \<notin> set ?old"
    using d sid by (auto simp: log_ok_def split: option.splits)
  have ne: "?l \<noteq> []" by (simp add: turn_json_def)
  have ft: "file_turns env sid d = turns_of env sid (splitlines ?old)"
    using file_turns_unread [OF d sid] by (simp add: splitlines_def split: option.split)
  note new = file_turns_unread [OF log_ok_append [OF env d t] sid] append_turn_text [OF env t, of d]
  show ?thesis
  proof (cases "sid = ct_session t")
    case True
    with new splitlines_append [OF old turn_line_clean(2) [OF env t'(4)] ne] ft
      line_of_turn [OF env t'(3,2)]
    show ?thesis by (simp add: turns_of_append)
  next
    case False
    with new conv_path_eq [OF d sid t'(1)] file_turns_unread [OF d sid] show ?thesis by simp
  qed
qed

interpretation filelog: turn_log "fileconv_append_turn env" "file_turns env"
  "\<lambda>d. doubles_ok env \<and> log_ok env ids d" "turn_ok ids" id for env ids
proof unfold_locales
  fix s t r s'
  assume "doubles_ok env \<and> log_ok env ids s" "turn_ok ids t" "fileconv_append_turn env t s = (r, s')"
  with append_turn_text [of env ids t s] log_ok_append [of env ids s t]
  show "r = Inr () \<and> doubles_ok env \<and> log_ok env ids s'" by auto
next
  fix s t r s'
  assume "doubles_ok env \<and> log_ok env ids s" "turn_ok ids t" "fileconv_append_turn env t s = (r, s')"
  with file_turns_append [of env ids s t "ct_session t"]
  show "file_turns env (ct_session t) s' = andThen (file_turns env (ct_session t) s) (\<lambda>ts. Inr (ts @ [id t]))"
    by (simp add: turn_ok_def)
next
  fix s t t' r s'
  assume "doubles_ok env \<and> log_ok env ids s" "turn_ok ids t" "turn_ok ids t'" "ct_session t' \<noteq> ct_session t"
    "fileconv_append_turn env t s = (r, s')"
  with file_turns_append [of env ids s t "ct_session t'"]
  show "file_turns env (ct_session t') s' = file_turns env (ct_session t') s" by (simp add: turn_ok_def)
qed

section \<open>The table is a log\<close>

lemma insort_last: "f x \<le> f r \<Longrightarrow> insort_key f x (ys @ [r]) = insort_key f x ys @ [r]"
  by (induction ys) auto

lemma sort_key_last: "\<forall>x\<in>set xs. f x \<le> f r \<Longrightarrow> sort_key f (xs @ [r]) = sort_key f xs @ [r]"
  by (induction xs) (simp_all add: insort_last)

lemma mapR_append: "mapR f (xs @ ys) = andThen (mapR f xs) (\<lambda>a. andThen (mapR f ys) (\<lambda>b. Inr (a @ b)))"
proof (induction xs)
  case Nil
  show ?case by (cases "mapR f ys") simp_all
next
  case (Cons x xs)
  show ?case by (cases "f x"; cases "mapR f xs"; cases "mapR f ys") (simp_all add: Cons)
qed

lemma fold_max_ge: "(a :: nat) \<le> fold max xs a \<and> (\<forall>x\<in>set xs. x \<le> fold max xs a)"
proof (induction xs arbitrary: a)
  case (Cons x xs)
  from Cons [of "max x a"] show ?case by auto
qed simp

lemma max_index_ge: "r \<in> set (db_messages db) \<Longrightarrow> mr_session r = sid \<Longrightarrow> mr_index r \<le> max_index sid db"
  using fold_max_ge [of 0 "[mr_index r. r \<leftarrow> db_messages db, mr_session r = sid]"] by (auto simp: max_index_def)

definition sql_turns :: "pystr \<Rightarrow> conv_db \<Rightarrow> turn list result" where
  "sql_turns sid db = mapR row_turn (session_rows_of sid db)"

definition at_db :: "pystr \<Rightarrow> turn \<Rightarrow> turn" where
  "at_db now t = t\<lparr>ct_created := JStr now\<rparr>"

lemma sql_turns_append:
  assumes "mk_turn t = Inr t" "db_now db = now"
  shows "sql_turns sid (snd (sqlconv_append_turn t db)) =
    (if sid = ct_session t then andThen (sql_turns sid db) (\<lambda>ts. Inr (ts @ [at_db now t])) else sql_turns sid db)"
proof (cases "sid = ct_session t")
  case True
  obtain row where rows: "db_messages (snd (sqlconv_append_turn t db)) = db_messages db @ [row]"
    and row: "mr_session row = sid" "mr_index row = max_index sid db + 1" "row_turn row = Inr (at_db now t)"
    using assms True by (auto simp: sqlconv_append_turn_def row_turn_def mk_turn_def at_db_def split: if_splits)
  have "\<forall>x\<in>set [r \<leftarrow> db_messages db. mr_session r = sid]. mr_index x \<le> mr_index row"
    using row(2) max_index_ge [of _ db sid] by (auto intro: le_SucI)
  with sort_key_last [OF this] row(1)
  have "session_rows_of sid (snd (sqlconv_append_turn t db)) = session_rows_of sid db @ [row]"
    unfolding session_rows_of_def rows by simp
  with True row(3) show ?thesis by (simp add: sql_turns_def mapR_append)
qed (simp add: sql_turns_def session_rows_of_def sqlconv_append_turn_def)

interpretation sqllog: turn_log sqlconv_append_turn sql_turns "\<lambda>db. db_now db = now" "\<lambda>t. mk_turn t = Inr t"
  "at_db now" for now
proof unfold_locales
  fix s t r s' assume "db_now s = now" "mk_turn t = Inr t" "sqlconv_append_turn t s = (r, s')"
  then show "r = Inr () \<and> db_now s' = now" by (auto simp: sqlconv_append_turn_def)
next
  fix s t r s' assume "db_now s = now" "mk_turn t = Inr t" "sqlconv_append_turn t s = (r, s')"
  with sql_turns_append [of t s now "ct_session t"]
  show "sql_turns (ct_session t) s' = andThen (sql_turns (ct_session t) s) (\<lambda>ts. Inr (ts @ [at_db now t]))" by simp
next
  fix s t t' r s' assume "db_now s = now" "mk_turn t = Inr t" "ct_session t' \<noteq> ct_session t"
    "sqlconv_append_turn t s = (r, s')"
  with sql_turns_append [of t s now "ct_session t'"]
  show "sql_turns (ct_session t') s' = sql_turns (ct_session t') s" by simp
qed

section \<open>Properties\<close>

text \<open>Also: the snapshot of a session is the last one saved for it, whatever was saved for the others, in
  the table always and in the files for sessions whose cleaned names differ and for texts in
  UTF-8 without carriage returns.\<close>

theorem sessions_round_trip:
  assumes "inj_on (safe_name isalnum) ids" and "set saves \<subseteq> ids \<times> plain_texts" and "sid \<in> ids"
  shows "filesession_load isalnum sid (save_all (filesession_port isalnum) saves Map.empty) = map_of (rev saves) sid \<and>
    sqlsession_load sid (save_all sqlsession_port saves Map.empty) = map_of (rev saves) sid"
proof -
  have "port_load (filesession_port isalnum) sid (save_all (filesession_port isalnum) saves Map.empty) =
      map_of (rev saves) sid"
    using filesession.load_save_all [of ids isalnum saves sid Map.empty] assms
    by (simp add: apart_def filesession_port_def filesession_load_def read_text_def split: option.splits)
  moreover have "port_load sqlsession_port sid (save_all sqlsession_port saves Map.empty) = map_of (rev saves) sid"
    using sqlsession.load_save_all [of saves sid Map.empty]
    by (simp add: sqlsession_port_def sqlsession_load_def split: option.splits)
  ultimately show ?thesis by (simp add: filesession_port_def sqlsession_port_def)
qed


text \<open>Also: the names of session files are not unique: a session whose identifier contains a character that
  is dropped reads the snapshot last saved by the session without it.\<close>

theorem session_files_shared:
  assumes "\<not> isalnum c" and "c \<notin> set (u ''-_'')" and "t \<in> plain_texts"
  shows "filesession_load isalnum (a @ c # b) (snd (filesession_save isalnum (a @ b) t d)) = Some t"
proof -
  have "safe_name isalnum (a @ c # b) = safe_name isalnum (a @ b)"
    using assms(1,2) by (simp add: safe_name_def)
  with assms(3) show ?thesis
    by (simp add: filesession_load_def filesession_save_def read_text_def write_text_def session_path_def
        plain_texts_def newline_id)
qed

section \<open>Witnesses\<close>

definition ascii_alnum :: "int \<Rightarrow> bool" where
  "ascii_alnum c \<longleftrightarrow> is_digit c \<or> 65 \<le> c \<and> c \<le> 90 \<or> 97 \<le> c \<and> c \<le> 122"

definition ex_env :: text_env where
  "ex_env = \<lparr>te_alnum = ascii_alnum, te_repr = ex_repr, te_float = ex_float\<rparr>"

lemma ex_doubles_ok: "doubles_ok ex_env"
proof -
  have "set (ex_repr r) \<subseteq> {32..126}" for r
    using set_dec [of "nat (fst (quotient_of r))"] set_dec [of "nat (- fst (quotient_of r))"]
      set_dec [of "nat (snd (quotient_of r))"]
    by (auto simp: ex_repr_def dec_int_def split: if_splits)
  then show ?thesis using ex_repr_law by (simp add: doubles_ok_def ex_env_def)
qed

definition ex_turn :: "string \<Rightarrow> pystr \<Rightarrow> turn" where
  "ex_turn sid body = \<lparr>ct_session = u sid, ct_buyer = JStr (u ''ann''), ct_role = JStr (u ''buyer''),
     ct_content = JStr body, ct_model = JStr [], ct_latency = JInt 0, ct_created = JStr (u ''t'')\<rparr>"

definition ex_db :: conv_db where
  "ex_db = \<lparr>db_sessions = Map.empty, db_messages = [], db_events = [], db_now = u ''now''\<rparr>"

theorem sessions_round_trip_witness:
  "filesession_load ascii_alnum (u ''a'') (save_all (filesession_port ascii_alnum)
     [(u ''a'', u ''1''), (u ''b'', u ''2''), (u ''a'', u ''3'')] Map.empty) = Some (u ''3'')"
proof -
  have inj: "inj_on (safe_name ascii_alnum) {u ''a'', u ''b''}"
    by (simp add: safe_name_def u_def ascii_alnum_def is_digit_def)
  have "set [(u ''a'', u ''1''), (u ''b'', u ''2''), (u ''a'', u ''3'')] \<subseteq> {u ''a'', u ''b''} \<times> plain_texts"
    by (auto simp: plain_texts_def encodable_def u_def)
  from sessions_round_trip [OF inj this, of "u ''a''"] show ?thesis by simp
qed


theorem session_files_shared_witness:
  "filesession_load ascii_alnum (u ''a/b'') (snd (filesession_save ascii_alnum (u ''ab'') (u ''x'') Map.empty)) = Some (u ''x'')"
proof -
  have c: "\<not> ascii_alnum 47" "47 \<notin> set (u ''-_'')" by (simp_all add: ascii_alnum_def is_digit_def u_def)
  have "u ''x'' \<in> plain_texts" by (simp add: plain_texts_def encodable_def u_def)
  from session_files_shared [where isalnum = ascii_alnum and c = 47, OF c this, of "u ''a''" "u ''b''" Map.empty]
  show ?thesis by (simp add: u_def)
qed

text \<open>Also: a turn whose text contains the line separator U+2028 is stored on one line by \<open>dumps\<close> but read
  back as two broken lines, both skipped: the turn is lost without an error.\<close>

theorem line_separator_loses_turn:
  "fileconv_append_turn ex_env (ex_turn ''s'' [97, 8232, 98]) Map.empty =
     (Inr (), [conv_path ex_env (u ''s'') \<mapsto> dumps_plain ex_repr (turn_json (ex_turn ''s'' [97, 8232, 98])) @ [10]]) \<and>
   fileconv_list_turns ex_env (u ''s'') 50
     (snd (fileconv_append_turn ex_env (ex_turn ''s'' [97, 8232, 98]) Map.empty)) = Inr []"
proof -
  let ?t = "dumps_plain ex_repr (turn_json (ex_turn ''s'' [97, 8232, 98])) @ [10]"
  have e: "encodable ?t" by code_simp
  have l: "turns_of ex_env (u ''s'') (splitlines (newline_from False ?t)) = Inr []" by code_simp
  have sid: "ct_session (ex_turn ''s'' [97, 8232, 98]) = u ''s''" by (simp add: ex_turn_def)
  have te: "te_repr ex_env = ex_repr" by (simp add: ex_env_def)
  have a: "fileconv_append_turn ex_env (ex_turn ''s'' [97, 8232, 98]) Map.empty =
      (Inr (), [conv_path ex_env (u ''s'') \<mapsto> ?t])"
    using e by (simp add: fileconv_append_turn_def append_line_def append_text_def sid te)
  with l show ?thesis
    by (simp add: fileconv_list_turns_def file_turns_def read_text_def tail_slice_def)
qed

end
