(* ===== verification/Task_Queue.thy ===== *)
theory Task_Queue
  imports Json_Parse Event_Bus
begin

text \<open>
  The task queue: its value objects (\<open>app/domain/queue/ports/task_queue.py\<close>), the Redis Streams
  implementation and the event backplane (\<open>redis_stream_queue.py\<close>) and the handler of the worker
  process (\<open>app/worker.py\<close>). The server is seen through a wire: the commands sent to it, each with
  whether it succeeded, and the outcomes still to come. The last part runs the consumer as a
  transition system over two streams with a consumer group.
\<close>

section \<open>The wire\<close>

datatype command =
    XAdd pystr "(string \<times> pystr) list"
  | XAck pystr pystr
  | SetKey pystr pystr
  | Publish json string

record wire =
  sent :: "(command \<times> bool) list"
  outcomes :: "exn option list"

text \<open>A command succeeds when the outcomes are used up; the failure of one is an exception.\<close>

definition send :: "command \<Rightarrow> wire \<Rightarrow> unit result \<times> wire" where
  "send c w =
     (case outcomes w of
        [] \<Rightarrow> (Inr (), w\<lparr>sent := sent w @ [(c, True)]\<rparr>)
      | None # rest \<Rightarrow> (Inr (), w\<lparr>sent := sent w @ [(c, True)], outcomes := rest\<rparr>)
      | Some e # rest \<Rightarrow> (Inl e, w\<lparr>sent := sent w @ [(c, False)], outcomes := rest\<rparr>))"

text \<open>A call that cannot fail and needs no answer.\<close>

definition emit :: "command \<Rightarrow> wire \<Rightarrow> wire" where
  "emit c w = w\<lparr>sent := sent w @ [(c, True)]\<rparr>"

fun thenW :: "'a result \<times> wire \<Rightarrow> ('a \<Rightarrow> wire \<Rightarrow> 'b result \<times> wire) \<Rightarrow> 'b result \<times> wire" where
  "thenW (Inl e, w) f = (Inl e, w)"
| "thenW (Inr x, w) f = f x w"

section \<open>Tasks\<close>

record queue_env =
  qe_repr :: "rat \<Rightarrow> pystr"
  qe_float :: "pystr \<Rightarrow> rat"
  qe_int :: "pystr \<Rightarrow> int result"
  qe_str :: "json \<Rightarrow> pystr"
  qe_err :: "exn \<Rightarrow> pystr"

definition str_of :: "queue_env \<Rightarrow> json \<Rightarrow> pystr" where
  "str_of env v = (case v of JStr s \<Rightarrow> s | _ \<Rightarrow> qe_str env v)"

record intent_task =
  it_id :: json
  it_session :: json
  it_buyer :: json
  it_locale :: json
  it_currency :: json
  it_query :: json
  it_enqueued_at :: json
  it_priority :: int

definition task_to_dict :: "intent_task \<Rightarrow> json" where
  "task_to_dict t = JObj [(u ''task_id'', it_id t), (u ''shopping_session_id'', it_session t),
     (u ''buyer_id'', it_buyer t), (u ''locale'', it_locale t), (u ''currency'', it_currency t),
     (u ''raw_query'', it_query t), (u ''enqueued_at'', it_enqueued_at t), (u ''priority'', JInt (it_priority t))]"

definition task_from_dict :: "queue_env \<Rightarrow> json \<Rightarrow> intent_task result" where
  "task_from_dict env raw =
     (if \<not> is_obj raw then Inl (TypeError ''subscript'')
      else if \<not> jhas raw ''task_id'' then Inl (KeyError ''task_id'')
      else if \<not> jhas raw ''shopping_session_id'' then Inl (KeyError ''shopping_session_id'')
      else andThen (py_int (qe_int env) (get_or raw ''priority'' (JInt 0))) (\<lambda>priority.
        Inr \<lparr>it_id = jget raw ''task_id'', it_session = jget raw ''shopping_session_id'',
          it_buyer = get_or raw ''buyer_id'' (JStr []), it_locale = get_or raw ''locale'' (JStr (u ''zh-CN'')),
          it_currency = get_or raw ''currency'' (JStr (u ''CNY'')), it_query = get_or raw ''raw_query'' (JStr []),
          it_enqueued_at = get_or raw ''enqueued_at'' (JStr []), it_priority = priority\<rparr>))"

text \<open>\<open>IntentTask.from_dict(json.loads(raw))\<close>\<close>

definition parse_task :: "queue_env \<Rightarrow> pystr \<Rightarrow> intent_task result" where
  "parse_task env raw = (case loads (qe_float env) raw of
     None \<Rightarrow> Inl (ValueError ''json'') | Some v \<Rightarrow> task_from_dict env v)"

record task_status =
  ts_id :: json
  ts_state :: json
  ts_text :: json
  ts_error :: json
  ts_position :: nat
  ts_products :: "json list"

definition base_status :: "json \<Rightarrow> string \<Rightarrow> task_status" where
  "base_status tid st = \<lparr>ts_id = tid, ts_state = JStr (u st), ts_text = JStr [], ts_error = JStr [],
     ts_position = 0, ts_products = []\<rparr>"

section \<open>The queue\<close>

definition STREAM :: pystr where "STREAM = u ''crossshop:intents''"
definition LARGE_STREAM :: pystr where "LARGE_STREAM = u ''crossshop:intents:large''"
definition DEAD_STREAM :: pystr where "DEAD_STREAM = u ''crossshop:intents:dead''"
definition GROUP :: pystr where "GROUP = u ''crossshop-workers''"
definition STATUS_PREFIX :: pystr where "STATUS_PREFIX = u ''crossshop:task:''"

text \<open>The group is created on both streams; an error that says it exists is ignored.\<close>

fun ensure_group :: "(exn \<Rightarrow> bool) \<Rightarrow> (pystr \<times> unit result) list \<Rightarrow> unit result" where
  "ensure_group busygroup [] = Inr ()"
| "ensure_group busygroup ((s, Inr x) # rest) = ensure_group busygroup rest"
| "ensure_group busygroup ((s, Inl e) # rest) = (if busygroup e then ensure_group busygroup rest else Inl e)"

definition queue_enqueue :: "queue_env \<Rightarrow> intent_task \<Rightarrow> wire \<Rightarrow> unit result \<times> wire" where
  "queue_enqueue env t w =
     (let stream = (if it_priority t > 0 then LARGE_STREAM else STREAM)
      in send (XAdd stream [(''payload'', dumps_plain (qe_repr env) (task_to_dict t))]) w)"

definition status_dict :: "task_status \<Rightarrow> json" where
  "status_dict st = JObj [(u ''task_id'', ts_id st), (u ''state'', ts_state st), (u ''final_text'', ts_text st),
     (u ''error'', ts_error st), (u ''displayed_products'', JList (ts_products st))]"

definition set_status :: "queue_env \<Rightarrow> task_status \<Rightarrow> wire \<Rightarrow> unit result \<times> wire" where
  "set_status env st w =
     send (SetKey (STATUS_PREFIX @ str_of env (ts_id st)) (dumps_plain (qe_repr env) (status_dict st))) w"

record group_info =
  gi_name :: pystr
  gi_lag :: "int option"
  gi_pending :: int

text \<open>The replies of \<open>XINFO GROUPS\<close> for the two streams.\<close>

definition stream_depth :: "group_info list result \<Rightarrow> int" where
  "stream_depth reply = (case reply of
     Inl e \<Rightarrow> 0
   | Inr groups \<Rightarrow> (case List.find (\<lambda>g. gi_name g = GROUP) groups of
       None \<Rightarrow> 0
     | Some g \<Rightarrow> (case gi_lag g of Some lag \<Rightarrow> lag | None \<Rightarrow> gi_pending g)))"

definition depth :: "group_info list result \<Rightarrow> group_info list result \<Rightarrow> int" where
  "depth normal large = stream_depth normal + stream_depth large"

text \<open>\<open>get_status\<close> from the reply of \<open>GET\<close> and the depth of the queue.\<close>

definition get_status :: "queue_env \<Rightarrow> pystr option result \<Rightarrow> nat \<Rightarrow> task_status option result" where
  "get_status env reply queue_depth = andThen reply (\<lambda>found.
     case found of
       None \<Rightarrow> Inr None
     | Some raw \<Rightarrow> (case loads (qe_float env) raw of
         None \<Rightarrow> Inl (ValueError ''json'')
       | Some data \<Rightarrow>
           if \<not> is_obj data then Inl (OtherError ''AttributeError'')
           else if \<not> jhas data ''task_id'' then Inl (KeyError ''task_id'')
           else if \<not> jhas data ''state'' then Inl (KeyError ''state'')
           else if get_or data ''displayed_products'' (JList []) = JNull
             \<or> (\<exists>b. jget data ''displayed_products'' = JBool b) \<or> (\<exists>i. jget data ''displayed_products'' = JInt i)
             \<or> (\<exists>r. jget data ''displayed_products'' = JFloat r) then Inl (TypeError ''iterable'')
           else Inr (Some \<lparr>ts_id = jget data ''task_id'', ts_state = jget data ''state'',
             ts_text = get_or data ''final_text'' (JStr []), ts_error = get_or data ''error'' (JStr []),
             ts_position = (if jget data ''state'' = JStr (u ''queued'') then queue_depth else 0),
             ts_products = take 5 [item \<leftarrow> list_items (jget data ''displayed_products''). is_obj item]\<rparr>)))"

text \<open>The number of deliveries of a message, from the reply of \<open>XPENDING\<close>.\<close>

definition delivery_count :: "int option result \<Rightarrow> int" where
  "delivery_count reply = (case reply of Inr (Some n) \<Rightarrow> n | _ \<Rightarrow> 1)"

text \<open>
  One message. \<open>payload\<close> is its field, \<open>handler\<close> may itself send commands, and \<open>pending\<close> is the reply
  of \<open>XPENDING\<close> should it be asked.
\<close>

definition handle_one :: "queue_env \<Rightarrow> pystr \<Rightarrow> pystr \<Rightarrow> pystr option \<Rightarrow>
    (intent_task \<Rightarrow> wire \<Rightarrow> unit result \<times> wire) \<Rightarrow> int option result \<Rightarrow> int \<Rightarrow> wire \<Rightarrow> unit result \<times> wire" where
  "handle_one env stream mid payload handler pending max_deliveries w =
     (case payload of
        None \<Rightarrow> send (XAck stream mid) w
      | Some raw \<Rightarrow>
          if raw = [] then send (XAck stream mid) w
          else case parse_task env raw of
            Inl err \<Rightarrow>
              thenW (send (XAdd DEAD_STREAM [(''payload'', raw), (''reason'', qe_err env err)]) w)
                (\<lambda>x. send (XAck stream mid))
          | Inr task \<Rightarrow>
              (case thenW (handler task w) (\<lambda>x. send (XAck stream mid)) of
                 (Inr x, w1) \<Rightarrow> (Inr (), w1)
               | (Inl err, w1) \<Rightarrow>
                   if delivery_count pending \<ge> max_deliveries
                   then thenW (send (XAdd DEAD_STREAM [(''payload'', raw), (''reason'', qe_err env err)]) w1)
                          (\<lambda>x. send (XAck stream mid))
                   else (Inr (), w1)))"

text \<open>\<open>claim_stale\<close> from the reply of \<open>XAUTOCLAIM\<close>: what parses.\<close>

definition claim_stale :: "queue_env \<Rightarrow> (pystr \<times> pystr option) list option result \<Rightarrow> intent_task list" where
  "claim_stale env reply = (case reply of
     Inl e \<Rightarrow> []
   | Inr None \<Rightarrow> []
   | Inr (Some entries) \<Rightarrow> concat (map (\<lambda>(mid, payload). case payload of
       None \<Rightarrow> []
     | Some raw \<Rightarrow> if raw = [] then [] else (case parse_task env raw of Inl e \<Rightarrow> [] | Inr t \<Rightarrow> [t])) entries))"

section \<open>The worker's handler\<close>

record intent_result =
  ir_text :: json
  ir_products :: "json list"

text \<open>\<open>answer\<close> is what the orchestrator returns or raises for the task.\<close>

definition worker_handle :: "queue_env \<Rightarrow> (intent_task \<Rightarrow> intent_result result) \<Rightarrow> intent_task \<Rightarrow> wire \<Rightarrow> unit result \<times> wire" where
  "worker_handle env answer t w =
     thenW (set_status env (base_status (it_id t) ''running'') w) (\<lambda>x w1.
       let w2 = emit (Publish (it_session t) ''task.started'') w1
       in case (case answer t of
               Inl err \<Rightarrow> (Inl err, w2)
             | Inr res \<Rightarrow> set_status env ((base_status (it_id t) ''done'')
                 \<lparr>ts_text := ir_text res, ts_products := ir_products res\<rparr>) w2) of
         (Inr x, w3) \<Rightarrow> (Inr (), w3)
       | (Inl err, w3) \<Rightarrow>
           thenW (set_status env ((base_status (it_id t) ''failed'')\<lparr>ts_error := JStr (qe_err env err)\<rparr>) w3)
             (\<lambda>x w4. (Inl err, w4)))"

section \<open>The backplane\<close>

definition EVENT_CHANNEL_PREFIX :: pystr where "EVENT_CHANNEL_PREFIX = u ''crossshop:events:''"

type_synonym remote_event = "json trade_event"

definition event_to_dict :: "remote_event \<Rightarrow> json" where
  "event_to_dict e = JObj [(u ''shopping_session_id'', JStr (ev_session e)), (u ''type'', JStr (ev_type e)),
     (u ''payload'', ev_payload e), (u ''occurred_at'', JStr (ev_occurred_at e))]"

definition event_from_dict :: "queue_env \<Rightarrow> json \<Rightarrow> remote_event result" where
  "event_from_dict env raw =
     (if \<not> is_obj raw then Inl (TypeError ''subscript'')
      else if \<not> jhas raw ''shopping_session_id'' then Inl (KeyError ''shopping_session_id'')
      else if \<not> jhas raw ''type'' then Inl (KeyError ''type'')
      else Inr \<lparr>ev_session = str_of env (jget raw ''shopping_session_id''), ev_type = str_of env (jget raw ''type''),
        ev_payload = jget raw ''payload'', ev_occurred_at = str_of env (get_or raw ''occurred_at'' (JStr []))\<rparr>)"

text \<open>The message on the session's channel; a failure to send it is swallowed.\<close>

definition envelope :: "queue_env \<Rightarrow> pystr \<Rightarrow> remote_event \<Rightarrow> pystr \<times> pystr" where
  "envelope env origin e = (EVENT_CHANNEL_PREFIX @ ev_session e,
     dumps_plain (qe_repr env) (JObj [(u ''origin'', JStr origin), (u ''event'', event_to_dict e)]))"

text \<open>One message of the subscription, its kind and its data; \<open>None\<close> is skipped.\<close>

definition listen_one :: "queue_env \<Rightarrow> pystr \<Rightarrow> string \<times> pystr \<Rightarrow> remote_event option" where
  "listen_one env origin m =
     (if fst m \<noteq> ''pmessage'' then None
      else case loads (qe_float env) (snd m) of
        None \<Rightarrow> None
      | Some v \<Rightarrow>
          if \<not> is_obj v \<or> jget v ''origin'' = JStr origin \<or> \<not> jhas v ''event'' then None
          else (case event_from_dict env (jget v ''event'') of Inl e \<Rightarrow> None | Inr ev \<Rightarrow> Some ev))"

definition listen :: "queue_env \<Rightarrow> pystr \<Rightarrow> (string \<times> pystr) list \<Rightarrow> remote_event list" where
  "listen env origin ms = List.map_filter (listen_one env origin) ms"

section \<open>The consumer as a transition system\<close>

text \<open>
  The consumer group as the loop of \<open>consume\<close> sees it. A message is its stream and identifier. The
  server, by its documentation: \<open>XREADGROUP\<close> with \<open>>\<close> hands out entries never delivered to the group,
  oldest first, at most \<open>COUNT\<close> of each stream, and they are pending until acknowledged; a failed
  acknowledgement may or may not have reached it (\<open>lost\<close>). \<open>flight\<close> is the set \<open>in_flight\<close> with a
  mark on the tasks that are done; \<open>dead\<close> lists the messages copied to the dead stream.
\<close>

type_synonym msg = "pystr \<times> pystr"

record consumer =
  unread :: "pystr \<Rightarrow> pystr list"
  pending :: "msg list"
  delivered :: "msg list"
  flight :: "(msg \<times> bool) list"
  dead :: "msg list"

definition idle_consumer :: consumer where
  "idle_consumer = \<lparr>unread = (\<lambda>s. []), pending = [], delivered = [], flight = [], dead = []\<rparr>"

definition free_slots :: "nat \<Rightarrow> consumer \<Rightarrow> nat" where
  "free_slots concurrency g = concurrency - length (flight g)"

definition drop_done :: "consumer \<Rightarrow> consumer" where
  "drop_done g = g\<lparr>flight := [x \<leftarrow> flight g. \<not> snd x]\<rparr>"

text \<open>A batch of \<open>k\<close> entries of the normal and \<open>l\<close> of the large stream becomes tasks in flight.\<close>

definition batch :: "nat \<Rightarrow> nat \<Rightarrow> consumer \<Rightarrow> msg list" where
  "batch k l g = map (Pair STREAM) (take k (unread g STREAM)) @ map (Pair LARGE_STREAM) (take l (unread g LARGE_STREAM))"

definition spawn :: "nat \<Rightarrow> nat \<Rightarrow> consumer \<Rightarrow> consumer" where
  "spawn k l g = g\<lparr>
     unread := (unread g)(STREAM := drop k (unread g STREAM), LARGE_STREAM := drop l (unread g LARGE_STREAM)),
     pending := pending g @ batch k l g, delivered := delivered g @ batch k l g,
     flight := flight g @ map (\<lambda>m. (m, False)) (batch k l g)\<rparr>"

definition acked :: "bool \<Rightarrow> wire \<Rightarrow> msg \<Rightarrow> bool" where
  "acked lost w m \<longleftrightarrow> (XAck (fst m) (snd m), True) \<in> set (sent w) \<or> lost \<and> (XAck (fst m) (snd m), False) \<in> set (sent w)"

definition dead_lettered :: "wire \<Rightarrow> bool" where
  "dead_lettered w \<longleftrightarrow> (\<exists>(c, ok) \<in> set (sent w). case c of XAdd s fs \<Rightarrow> s = DEAD_STREAM | _ \<Rightarrow> False)"

text \<open>A task in flight runs to its end: its commands take effect and it is marked done.\<close>

definition settle_task :: "bool \<Rightarrow> wire \<Rightarrow> msg \<Rightarrow> consumer \<Rightarrow> consumer" where
  "settle_task lost w m g = g\<lparr>pending := [x \<leftarrow> pending g. \<not> acked lost w x],
     flight := map (\<lambda>x. if fst x = m then (m, True) else x) (flight g),
     dead := (if dead_lettered w then dead g @ [m] else dead g)\<rparr>"

record worker =
  wk_env :: queue_env
  wk_payload :: "msg \<Rightarrow> pystr option"
  wk_answer :: "intent_task \<Rightarrow> intent_result result"
  wk_max :: int
  wk_concurrency :: nat

definition run_task :: "worker \<Rightarrow> exn option list \<Rightarrow> msg \<Rightarrow> consumer \<Rightarrow> wire" where
  "run_task wk os m g = snd (handle_one (wk_env wk) (fst m) (snd m) (wk_payload wk m)
     (worker_handle (wk_env wk) (wk_answer wk)) (Inr (Some (int (count_list (delivered g) m)))) (wk_max wk)
     \<lparr>sent = [], outcomes = os\<rparr>)"

inductive consumer_step :: "worker \<Rightarrow> consumer \<Rightarrow> consumer \<Rightarrow> bool" for wk where
  enqueued: "s \<in> {STREAM, LARGE_STREAM} \<Longrightarrow> mid \<notin> set (unread g s) \<Longrightarrow> (s, mid) \<notin> set (delivered g) \<Longrightarrow>
     consumer_step wk g (g\<lparr>unread := (unread g)(s := unread g s @ [mid])\<rparr>)"
| finished: "(m, False) \<in> set (flight g) \<Longrightarrow>
     consumer_step wk g (settle_task lost (run_task wk os m g) m g)"
| waited: "free_slots (wk_concurrency wk) g = 0 \<Longrightarrow> consumer_step wk g (drop_done g)"
| read_batch: "0 < free_slots (wk_concurrency wk) g \<Longrightarrow> k \<le> free_slots (wk_concurrency wk) g \<Longrightarrow>
     l \<le> free_slots (wk_concurrency wk) g \<Longrightarrow> batch k l g \<noteq> [] \<Longrightarrow> consumer_step wk g (spawn k l g)"
| read_nothing: "0 < free_slots (wk_concurrency wk) g \<Longrightarrow> consumer_step wk g (drop_done g)"

inductive consumer_reach :: "worker \<Rightarrow> consumer \<Rightarrow> bool" for wk where
  start: "consumer_reach wk idle_consumer"
| step: "consumer_reach wk g \<Longrightarrow> consumer_step wk g g' \<Longrightarrow> consumer_reach wk g'"

section \<open>What is sent for one message\<close>

definition queue_command :: "command \<Rightarrow> bool" where
  "queue_command c \<longleftrightarrow> (case c of XAdd s fs \<Rightarrow> True | XAck s i \<Rightarrow> True | _ \<Rightarrow> False)"

definition queue_sent :: "wire \<Rightarrow> (command \<times> bool) set" where
  "queue_sent w = {x \<in> set (sent w). queue_command (fst x)}"

lemma queue_command_simps [simp]:
  "queue_command (XAdd s fs)" "queue_command (XAck s i)" "\<not> queue_command (SetKey k v)" "\<not> queue_command (Publish j e)"
  by (simp_all add: queue_command_def)

lemma send_sent: "sent (snd (send c w)) = sent w @ [(c, fst (send c w) = Inr ())]"
  by (auto simp: send_def split: list.split option.split)

lemma queue_sent_set: "sent w' = sent w @ [x] \<Longrightarrow> queue_sent w' = queue_sent w \<union> (if queue_command (fst x) then {x} else {})"
  by (auto simp: queue_sent_def)

lemma queue_sent_send: "queue_sent (snd (send c w)) =
  queue_sent w \<union> (if queue_command c then {(c, fst (send c w) = Inr ())} else {})"
  using queue_sent_set [OF send_sent] by simp

lemma queue_sent_emit: "\<not> queue_command c \<Longrightarrow> queue_sent (emit c w) = queue_sent w"
  by (simp add: queue_sent_def emit_def conj_disj_distribR Collect_disj_eq) auto

lemma thenW_snd: "snd (thenW m f) = (case fst m of Inl e \<Rightarrow> snd m | Inr x \<Rightarrow> snd (f x (snd m)))"
  by (cases m; cases "fst m") auto

lemma thenW_fst: "fst (thenW m f) = (case fst m of Inl e \<Rightarrow> Inl e | Inr x \<Rightarrow> fst (f x (snd m)))"
  by (cases m; cases "fst m") auto

lemma queue_sent_status: "queue_sent (snd (set_status env st w)) = queue_sent w"
  by (simp add: set_status_def queue_sent_send)

text \<open>The worker's handler sends no queue command, and succeeds only after it stored the answer.\<close>

lemma worker_sends_none: "queue_sent (snd (worker_handle env answer t w)) = queue_sent w"
  by (simp add: worker_handle_def thenW_snd Let_def case_prod_beta queue_sent_status queue_sent_emit
      split: sum.split)

definition done_status :: "intent_task \<Rightarrow> intent_result \<Rightarrow> task_status" where
  "done_status t res = (base_status (it_id t) ''done'')\<lparr>ts_text := ir_text res, ts_products := ir_products res\<rparr>"

definition status_command :: "queue_env \<Rightarrow> task_status \<Rightarrow> command" where
  "status_command env st =
     SetKey (STATUS_PREFIX @ str_of env (ts_id st)) (dumps_plain (qe_repr env) (status_dict st))"

lemma status_sent: "fst (set_status env st w) = Inr () \<Longrightarrow> (status_command env st, True) \<in> set (sent (snd (set_status env st w)))"
  by (simp add: set_status_def status_command_def send_sent)

lemma worker_success:
  assumes "fst (worker_handle env answer t w) = Inr ()"
  shows "\<exists>res. answer t = Inr res \<and> (status_command env (done_status t res), True) \<in> set (sent (snd (worker_handle env answer t w)))"
proof -
  let ?w1 = "snd (set_status env (base_status (it_id t) ''running'') w)"
  let ?w2 = "emit (Publish (it_session t) ''task.started'') ?w1"
  from assms obtain res where res: "answer t = Inr res"
    by (auto simp: worker_handle_def thenW_fst Let_def case_prod_beta split: sum.splits)
  with assms have 1: "fst (set_status env (base_status (it_id t) ''running'') w) = Inr ()"
    and 2: "fst (set_status env (done_status t res) ?w2) = Inr ()"
    by (auto simp: worker_handle_def thenW_fst Let_def case_prod_beta done_status_def split: sum.splits)
  from 1 2 res have "snd (worker_handle env answer t w) = snd (set_status env (done_status t res) ?w2)"
    by (simp add: worker_handle_def thenW_snd Let_def case_prod_beta done_status_def)
  with status_sent [OF 2] res show ?thesis by auto
qed

lemma send_keeps: "set (sent w) \<subseteq> set (sent (snd (send c w)))"
  by (auto simp: send_sent)

text \<open>The copy to the dead stream followed by the acknowledgement.\<close>

abbreviation bury :: "queue_env \<Rightarrow> pystr \<Rightarrow> pystr \<Rightarrow> pystr \<Rightarrow> exn \<Rightarrow> wire \<Rightarrow> unit result \<times> wire" where
  "bury env stream mid raw err w \<equiv>
     thenW (send (XAdd DEAD_STREAM [(''payload'', raw), (''reason'', qe_err env err)]) w) (\<lambda>x. send (XAck stream mid))"

lemma bury_sent:
  "(c, b) \<in> queue_sent (snd (bury env stream mid raw err w)) \<Longrightarrow>
   (c, b) \<in> queue_sent w \<or> c = XAdd DEAD_STREAM [(''payload'', raw), (''reason'', qe_err env err)] \<or>
   c = XAck stream mid \<and>
     (XAdd DEAD_STREAM [(''payload'', raw), (''reason'', qe_err env err)], True) \<in> set (sent (snd (bury env stream mid raw err w)))"
  by (auto simp: thenW_snd queue_sent_send send_sent split: sum.splits if_splits)

text \<open>Running the handler and acknowledging.\<close>

definition attempt :: "queue_env \<Rightarrow> pystr \<Rightarrow> pystr \<Rightarrow> (intent_task \<Rightarrow> intent_result result) \<Rightarrow> intent_task \<Rightarrow> wire \<Rightarrow> unit result \<times> wire" where
  "attempt env stream mid answer t w = thenW (worker_handle env answer t w) (\<lambda>x. send (XAck stream mid))"

lemma attempt_sent:
  assumes "(c, b) \<in> queue_sent (snd (attempt env stream mid answer t w))" "queue_sent w = {}"
  shows "c = XAck stream mid \<and> (\<exists>res. answer t = Inr res \<and>
    (status_command env (done_status t res), True) \<in> set (sent (snd (attempt env stream mid answer t w))))"
proof -
  let ?h = "worker_handle env answer t w"
  have ok: "fst ?h = Inr ()" and "c = XAck stream mid"
    using assms by (auto simp: attempt_def thenW_snd worker_sends_none queue_sent_send split: sum.splits)
  moreover have "set (sent (snd ?h)) \<subseteq> set (sent (snd (attempt env stream mid answer t w)))"
    using ok send_keeps by (simp add: attempt_def thenW_snd)
  ultimately show ?thesis using worker_success [OF ok] by blast
qed

text \<open>\<open>handle_one\<close> by its four cases.\<close>

lemma handle_one_cases:
  obtains (blank) "payload \<in> {None, Some []}" "handle_one env stream mid payload (worker_handle env answer) pend mx w = send (XAck stream mid) w"
  | (bad) raw err where "payload = Some raw" "raw \<noteq> []" "parse_task env raw = Inl err"
      "handle_one env stream mid payload (worker_handle env answer) pend mx w = bury env stream mid raw err w"
  | (ran) raw t where "payload = Some raw" "raw \<noteq> []" "parse_task env raw = Inr t"
      "snd (handle_one env stream mid payload (worker_handle env answer) pend mx w) = snd (attempt env stream mid answer t w)"
      "(\<exists>err. answer t = Inl err) \<longrightarrow> \<not> mx \<le> delivery_count pend"
  | (failed) raw t err where "payload = Some raw" "raw \<noteq> []" "parse_task env raw = Inr t" "mx \<le> delivery_count pend"
      "handle_one env stream mid payload (worker_handle env answer) pend mx w =
         bury env stream mid raw err (snd (attempt env stream mid answer t w))"
proof (cases payload)
  case (Some raw)
  show ?thesis
  proof (cases "raw = []")
    case False
    show ?thesis
    proof (cases "parse_task env raw")
      case (Inl err)
      with Some False bad show ?thesis by (simp add: handle_one_def)
    next
      case (Inr t)
      have unan: "\<exists>e. fst (attempt env stream mid answer t w) = Inl e" if "answer t = Inl err" for err
        using worker_success [of env answer t w] that
        by (cases "fst (worker_handle env answer t w)") (auto simp: attempt_def thenW_fst)
      obtain r w1 where a: "attempt env stream mid answer t w = (r, w1)" by force
      show ?thesis
      proof (cases r)
        case (Inl err)
        with a Some False Inr ran [of raw t] failed [of raw t err] show ?thesis
          by (cases "mx \<le> delivery_count pend") (simp_all add: handle_one_def attempt_def)
      next
        case (Inr x)
        with a unan have "\<nexists>err. answer t = Inl err" by auto
        with a Inr Some False \<open>parse_task env raw = Inr t\<close> ran [of raw t] show ?thesis
          by (simp add: handle_one_def attempt_def)
      qed
    qed
  qed (use Some blank in \<open>simp add: handle_one_def\<close>)
qed (use blank in \<open>simp add: handle_one_def\<close>)

section \<open>Acknowledgements\<close>

lemma acks_justified:
  assumes w: "w = snd (handle_one env stream mid payload (worker_handle env answer) pend mx \<lparr>sent = [], outcomes = os\<rparr>)"
    and ack: "(XAck s i, b) \<in> set (sent w)"
  shows "s = stream \<and> i = mid \<and>
    (payload \<in> {None, Some []} \<or>
     (\<exists>raw t res. payload = Some raw \<and> parse_task env raw = Inr t \<and> answer t = Inr res \<and>
        (status_command env (done_status t res), True) \<in> set (sent w)) \<or>
     (\<exists>raw reason. payload = Some raw \<and>
        (XAdd DEAD_STREAM [(''payload'', raw), (''reason'', reason)], True) \<in> set (sent w)))"
proof -
  let ?w0 = "\<lparr>sent = [], outcomes = os\<rparr>"
  have 0: "queue_sent ?w0 = {}" by (simp add: queue_sent_def)
  have q: "(XAck s i, b) \<in> queue_sent w" using ack by (simp add: queue_sent_def)
  show ?thesis
  proof (rule handle_one_cases [of payload env stream mid answer pend mx ?w0])
    assume "payload \<in> {None, Some []}"
      "handle_one env stream mid payload (worker_handle env answer) pend mx ?w0 = send (XAck stream mid) ?w0"
    with q 0 w show ?thesis by (auto simp: queue_sent_send)
  next
    fix raw err assume "payload = Some raw"
      "handle_one env stream mid payload (worker_handle env answer) pend mx ?w0 = bury env stream mid raw err ?w0"
    with q 0 w bury_sent [where c = "XAck s i" and b = b and env = env and stream = stream and mid = mid and raw = raw and err = err and w = ?w0] show ?thesis by auto
  next
    fix raw t assume "payload = Some raw" "parse_task env raw = Inr t" "snd (handle_one env stream mid payload (worker_handle env answer) pend mx ?w0) = snd (attempt env stream mid answer t ?w0)"
    with q w attempt_sent [OF _ 0, where c = "XAck s i" and b = b and env = env and stream = stream and mid = mid and answer = answer and t = t] show ?thesis by auto
  next
    fix raw t err assume *: "payload = Some raw" "parse_task env raw = Inr t"
      "handle_one env stream mid payload (worker_handle env answer) pend mx ?w0 =
         bury env stream mid raw err (snd (attempt env stream mid answer t ?w0))"
    let ?a = "snd (attempt env stream mid answer t ?w0)"
    have keep: "set (sent ?a) \<subseteq> set (sent w)"
      unfolding w *(3) using send_keeps by (auto simp: thenW_snd split: sum.split) blast
    from q have "(XAck s i, b) \<in> queue_sent ?a \<or> XAck s i = XAck stream mid \<and>
        (XAdd DEAD_STREAM [(''payload'', raw), (''reason'', qe_err env err)], True) \<in> set (sent w)"
      using bury_sent [where c = "XAck s i" and b = b and env = env and stream = stream and mid = mid and raw = raw and err = err and w = ?a] unfolding w *(3) by auto
    then show ?thesis
    proof
      assume "(XAck s i, b) \<in> queue_sent ?a"
      from attempt_sent [OF this 0] keep * show ?thesis by blast
    qed (use * in blast)
  qed
qed

text \<open>A delivery whose task fails below the limit sends nothing to the queue.\<close>

lemma failure_sends_none:
  assumes "payload = Some raw" "raw \<noteq> []" "parse_task env raw = Inr t" "answer t = Inl err" "delivery_count pend < mx"
    "queue_sent w = {}"
  shows "queue_sent (snd (handle_one env stream mid payload (worker_handle env answer) pend mx w)) = {}"
proof -
  have "queue_sent (snd (attempt env stream mid answer t w)) = {}"
    using attempt_sent [OF _ assms(6), where env = env and stream = stream and mid = mid and answer = answer and t = t] assms(4) by fastforce
  with assms show ?thesis
    by (auto intro: handle_one_cases [of payload env stream mid answer pend mx w])
qed

section \<open>The consumer's invariants\<close>

lemma streams_distinct [simp]: "STREAM \<noteq> LARGE_STREAM" "LARGE_STREAM \<noteq> STREAM"
  by (simp_all add: STREAM_def LARGE_STREAM_def)

definition group_ok :: "nat \<Rightarrow> consumer \<Rightarrow> bool" where
  "group_ok concurrency g \<longleftrightarrow> distinct (delivered g) \<and>
     (\<forall>s. distinct (unread g s) \<and> (\<forall>i\<in>set (unread g s). (s, i) \<notin> set (delivered g))) \<and>
     set (map fst (flight g)) \<subseteq> set (delivered g) \<and> length (flight g) \<le> 2 * concurrency"

lemma batch_fresh: "group_ok c g \<Longrightarrow> distinct (batch k l g) \<and> set (batch k l g) \<inter> set (delivered g) = {}"
  by (auto simp: batch_def group_ok_def distinct_map inj_on_def dest: in_set_takeD)

lemma batch_members: "m \<in> set (batch k l g) \<Longrightarrow>
    fst m = STREAM \<and> snd m \<in> set (take k (unread g STREAM)) \<or> fst m = LARGE_STREAM \<and> snd m \<in> set (take l (unread g LARGE_STREAM))"
  by (auto simp: batch_def)

lemma drop_not_taken: "distinct xs \<Longrightarrow> x \<in> set (drop k xs) \<Longrightarrow> x \<notin> set (take k xs)"
  using set_take_disj_set_drop_if_distinct [of xs k k] by auto

lemma length_batch: "length (batch k l g) \<le> k + l"
  by (simp add: batch_def)

lemma group_ok_spawn:
  assumes "group_ok c g" "0 < free_slots c g" "k \<le> free_slots c g" "l \<le> free_slots c g"
  shows "group_ok c (spawn k l g)"
proof -
  have "length (flight (spawn k l g)) \<le> length (flight g) + (k + l)"
    using length_batch [of k l g] by (simp add: spawn_def)
  then have "length (flight (spawn k l g)) \<le> 2 * c" using assms(2,3,4) by (simp add: free_slots_def)
  moreover have "(s, i) \<notin> set (delivered g @ batch k l g)" if "i \<in> set (unread (spawn k l g) s)" for s i
  proof -
    have "i \<in> set (unread g s)" using that by (auto simp: spawn_def split: if_splits dest: in_set_dropD)
    moreover have "(s, i) \<notin> set (batch k l g)"
      using that assms(1) batch_members [of "(s, i)" k l g] drop_not_taken [of "unread g STREAM" i k]
        drop_not_taken [of "unread g LARGE_STREAM" i l]
      by (auto simp: spawn_def group_ok_def split: if_splits)
    ultimately show ?thesis using assms(1) by (auto simp: group_ok_def)
  qed
  moreover have "distinct (unread (spawn k l g) s)" for s using assms(1) by (simp add: spawn_def group_ok_def)
  moreover have "distinct (delivered g @ batch k l g)"
    using assms(1) batch_fresh [OF assms(1), of k l] by (auto simp: group_ok_def)
  moreover have "set (map fst (flight (spawn k l g))) \<subseteq> set (delivered g @ batch k l g)"
    using assms(1) by (auto simp: group_ok_def spawn_def)
  ultimately show ?thesis unfolding group_ok_def by (simp add: spawn_def)
qed

lemma group_ok_drop_done: "group_ok c g \<Longrightarrow> group_ok c (drop_done g)"
  unfolding group_ok_def drop_done_def by (auto intro: le_trans [OF length_filter_le])

lemma group_ok_step: "consumer_step wk g g' \<Longrightarrow> group_ok (wk_concurrency wk) g \<Longrightarrow> group_ok (wk_concurrency wk) g'"
proof (induction rule: consumer_step.induct)
  case (enqueued s mid g)
  then show ?case by (auto simp: group_ok_def)
next
  case (finished m g lost os)
  then show ?case by (fastforce simp: group_ok_def settle_task_def)
next
  case (waited g)
  then show ?case by (intro group_ok_drop_done)
next
  case (read_batch g k l)
  then show ?case by (intro group_ok_spawn)
next
  case (read_nothing g)
  then show ?case by (intro group_ok_drop_done)
qed

lemma group_ok_reach: "consumer_reach wk g \<Longrightarrow> group_ok (wk_concurrency wk) g"
  by (induction rule: consumer_reach.induct) (simp_all add: group_ok_step, simp add: group_ok_def idle_consumer_def)

text \<open>A task that always fails: its message parses and the orchestrator raises for it.\<close>

definition doomed :: "worker \<Rightarrow> msg \<Rightarrow> bool" where
  "doomed wk m \<longleftrightarrow> (\<exists>raw t err. wk_payload wk m = Some raw \<and> raw \<noteq> [] \<and>
     parse_task (wk_env wk) raw = Inr t \<and> wk_answer wk t = Inl err)"

lemma queue_sent_mem: "queue_command c \<Longrightarrow> (c, b) \<in> set (sent w) \<longleftrightarrow> (c, b) \<in> queue_sent w"
  by (simp add: queue_sent_def)

lemma doomed_run:
  assumes "doomed wk m" "count_list (delivered g) m = 1" "1 < wk_max wk"
  shows "\<not> acked lost (run_task wk os m g) x \<and> \<not> dead_lettered (run_task wk os m g)"
proof -
  from assms(1) obtain raw t err where *: "wk_payload wk m = Some raw" "raw \<noteq> []"
    "parse_task (wk_env wk) raw = Inr t" "wk_answer wk t = Inl err" by (auto simp: doomed_def)
  have "queue_sent (run_task wk os m g) = {}"
    unfolding run_task_def using assms(2,3) by (intro failure_sends_none [where answer = "wk_answer wk" and t = t, OF *]) (simp_all add: delivery_count_def queue_sent_def)
  then have none: "queue_command c \<Longrightarrow> (c, b) \<notin> set (sent (run_task wk os m g))" for c b
    using queue_sent_mem by blast
  have "\<not> dead_lettered (run_task wk os m g)"
  proof
    assume "dead_lettered (run_task wk os m g)"
    then obtain c b where "(c, b) \<in> set (sent (run_task wk os m g))" "queue_command c"
      by (auto simp: dead_lettered_def queue_command_def split: command.splits)
    with none show False by blast
  qed
  with none show ?thesis by (simp add: acked_def)
qed

lemma acked_own: "acked lost (run_task wk os m g) x \<Longrightarrow> x = m"
  using acks_justified [where w = "run_task wk os m g" and s = "fst x" and i = "snd x", OF run_task_def]
  by (auto simp: acked_def prod_eq_iff)

lemma count_distinct: "distinct xs \<Longrightarrow> count_list xs x = (if x \<in> set xs then 1 else 0)"
  by (induction xs) auto

lemma doomed_step:
  assumes "consumer_step wk g g'" "group_ok (wk_concurrency wk) g" "doomed wk m" "1 < wk_max wk"
    and "m \<in> set (delivered g) \<longrightarrow> m \<in> set (pending g)" "m \<notin> set (dead g)"
  shows "(m \<in> set (delivered g') \<longrightarrow> m \<in> set (pending g')) \<and> m \<notin> set (dead g')"
  using assms
proof (induction rule: consumer_step.induct)
  case (finished q g lost os)
  show ?case
  proof (cases "q = m")
    case True
    from finished have "m \<in> set (delivered g)" "distinct (delivered g)" using True by (force simp: group_ok_def)+
    then have "count_list (delivered g) m = 1" by (simp add: count_distinct)
    from doomed_run [OF finished(3) this finished(4)] True finished show ?thesis by (simp add: settle_task_def)
  next
    case False
    with acked_own [of lost wk os q g m] finished show ?thesis by (auto simp: settle_task_def)
  qed
qed (auto simp: spawn_def drop_done_def)

lemma doomed_reach:
  "consumer_reach wk g \<Longrightarrow> doomed wk m \<Longrightarrow> 1 < wk_max wk \<Longrightarrow>
   (m \<in> set (delivered g) \<longrightarrow> m \<in> set (pending g)) \<and> m \<notin> set (dead g)"
proof (induction rule: consumer_reach.induct)
  case (step g g')
  then show ?case using doomed_step [OF step(2) group_ok_reach [OF step(1)] step(4,5)] by blast
qed (simp add: idle_consumer_def)

section \<open>Properties\<close>

text \<open>C34: a message is acknowledged on its own stream only, and only when it is empty, when its task was
  answered and the answer stored under the task, or after a copy of it went to the dead stream.\<close>

theorem ack_discipline:
  assumes w: "w = snd (handle_one env stream mid payload (worker_handle env answer) pend mx \<lparr>sent = [], outcomes = os\<rparr>)"
    and ack: "(XAck s i, b) \<in> set (sent w)"
  shows "s = stream \<and> i = mid \<and>
    (payload \<in> {None, Some []} \<or>
     (\<exists>raw t res. payload = Some raw \<and> parse_task env raw = Inr t \<and> answer t = Inr res \<and>
        (status_command env (done_status t res), True) \<in> set (sent w)) \<or>
     (\<exists>raw reason. payload = Some raw \<and>
        (XAdd DEAD_STREAM [(''payload'', raw), (''reason'', reason)], True) \<in> set (sent w)))"
  using acks_justified [OF w ack] .

text \<open>C13: a message is delivered at most once; when its task always fails and the limit is above one, it stays
  pending for ever from its first delivery on and never reaches the dead stream. The loop reads
  only new entries and nothing calls \<open>claim_stale\<close>, so the redelivery the documentation promises
  does not happen.\<close>

theorem failed_never_redelivered:
  assumes "consumer_reach wk g"
  shows "count_list (delivered g) m \<le> 1 \<and>
    (doomed wk m \<and> 1 < wk_max wk \<longrightarrow> (m \<in> set (delivered g) \<longrightarrow> m \<in> set (pending g)) \<and> m \<notin> set (dead g))"
  using group_ok_reach [OF assms] doomed_reach [OF assms] by (auto simp: group_ok_def count_distinct)

text \<open>Also: the number of tasks in flight never exceeds twice the concurrency: \<open>COUNT\<close> limits each of the
  two streams.\<close>

theorem in_flight_bounded:
  assumes "consumer_reach wk g"
  shows "length (flight g) \<le> 2 * wk_concurrency wk"
  using group_ok_reach [OF assms] by (simp add: group_ok_def)

text \<open>Also: tasks, statuses and events survive the wire: what is parsed from the text written for them is the
  task, the status with at most five products and the event; a process skips its own events.\<close>

theorem queue_round_trips:
  assumes "float_law (qe_float env) (qe_repr env)" and "json_ok (task_to_dict t)" and "json_ok (status_dict st)"
    and "json_ok (ev_payload e)" and "list_all is_obj (ts_products st)"
  shows "parse_task env (dumps_plain (qe_repr env) (task_to_dict t)) = Inr t \<and>
    get_status env (Inr (Some (dumps_plain (qe_repr env) (status_dict st)))) n = Inr (Some (st
      \<lparr>ts_position := (if ts_state st = JStr (u ''queued'') then n else 0), ts_products := take 5 (ts_products st)\<rparr>)) \<and>
    listen_one env here (''pmessage'', snd (envelope env origin e)) = (if origin = here then None else Some e)"
proof -
  have t: "task_from_dict env (task_to_dict t) = Inr t"
    by (cases t) (simp add: task_from_dict_def task_to_dict_def jhas_def jget_def get_or_def py_int_def)
  have f: "[item \<leftarrow> ts_products st. is_obj item] = ts_products st" using assms(5) by (simp add: list_all_iff)
  have 2: "get_status env (Inr (Some (dumps_plain (qe_repr env) (status_dict st)))) n = Inr (Some (st
      \<lparr>ts_position := (if ts_state st = JStr (u ''queued'') then n else 0), ts_products := take 5 (ts_products st)\<rparr>))"
    unfolding get_status_def andThen.simps option.case loads_dumps [OF assms(1,3)] using f
    by (cases st) (simp add: status_dict_def jhas_def jget_def get_or_def)
  have "json_ok (JObj [(u ''origin'', JStr origin), (u ''event'', event_to_dict e)])"
    using assms(4) by (simp add: event_to_dict_def)
  note l = loads_dumps [OF assms(1) this]
  have "event_from_dict env (event_to_dict e) = Inr e"
    by (cases e) (simp add: event_from_dict_def event_to_dict_def jhas_def jget_def get_or_def str_of_def)
  then have "listen_one env here (''pmessage'', snd (envelope env origin e)) = (if origin = here then None else Some e)"
    unfolding listen_one_def envelope_def fst_conv snd_conv l by (simp add: jhas_def jget_def)
  with t 2 loads_dumps [OF assms(1,2)] show ?thesis by (simp add: parse_task_def)
qed

section \<open>Witnesses\<close>

definition ex_env :: queue_env where
  "ex_env = \<lparr>qe_repr = ex_repr, qe_float = ex_float, qe_int = (\<lambda>s. Inl (ValueError ''int'')), qe_str = (\<lambda>v. []),
     qe_err = (\<lambda>e. u ''err'')\<rparr>"

definition ex_task :: intent_task where
  "ex_task = \<lparr>it_id = JStr (u ''t1''), it_session = JStr (u ''s1''), it_buyer = JStr (u ''ann''), it_locale = JStr (u ''en''),
     it_currency = JStr (u ''USD''), it_query = JStr (u ''cup''), it_enqueued_at = JStr (u ''now''), it_priority = 0\<rparr>"

definition ex_event :: remote_event where
  "ex_event = \<lparr>ev_session = u ''s1'', ev_type = u ''error'', ev_payload = JNull, ev_occurred_at = u ''now''\<rparr>"

definition ex_worker :: "intent_result result \<Rightarrow> worker" where
  "ex_worker answer = \<lparr>wk_env = ex_env, wk_payload = (\<lambda>m. Some (dumps_plain ex_repr (task_to_dict ex_task))),
     wk_answer = (\<lambda>t. answer), wk_max = 3, wk_concurrency = 1\<rparr>"

lemma ex_env_law: "float_law (qe_float ex_env) (qe_repr ex_env)"
  using ex_repr_law by (simp add: ex_env_def)

lemma ex_parse: "parse_task ex_env (dumps_plain ex_repr (task_to_dict ex_task)) = Inr ex_task"
  by code_simp

theorem ack_discipline_witness:
  "(XAck STREAM (u ''1''), True) \<in> set (sent (snd (handle_one ex_env STREAM (u ''1'') (Some [123])
     (worker_handle ex_env (\<lambda>t. Inl TimeoutError)) (Inr None) 3 \<lparr>sent = [], outcomes = []\<rparr>))) \<and>
   (\<exists>reason. (XAdd DEAD_STREAM [(''payload'', [123]), (''reason'', reason)], True) \<in> set (sent (snd
     (handle_one ex_env STREAM (u ''1'') (Some [123]) (worker_handle ex_env (\<lambda>t. Inl TimeoutError)) (Inr None) 3
        \<lparr>sent = [], outcomes = []\<rparr>))))"
proof -
  have "sent (snd (handle_one ex_env STREAM (u ''1'') (Some [123])
     (worker_handle ex_env (\<lambda>t. Inl TimeoutError)) (Inr None) 3 \<lparr>sent = [], outcomes = []\<rparr>)) =
    [(XAdd DEAD_STREAM [(''payload'', [123]), (''reason'', u ''err'')], True), (XAck STREAM (u ''1''), True)]"
    by code_simp
  then have "(XAck STREAM (u ''1''), True) \<in> set (sent (snd (handle_one ex_env STREAM (u ''1'') (Some [123])
     (worker_handle ex_env (\<lambda>t. Inl TimeoutError)) (Inr None) 3 \<lparr>sent = [], outcomes = []\<rparr>)))" by simp
  from ack_discipline [OF refl this] this show ?thesis by blast
qed

definition ex_msg :: msg where "ex_msg = (STREAM, u ''1'')"

definition ex_queued :: "pystr list \<Rightarrow> pystr list \<Rightarrow> consumer" where
  "ex_queued normal large = idle_consumer\<lparr>unread := (\<lambda>s. [])(STREAM := normal, LARGE_STREAM := large)\<rparr>"

lemma ex_reach_queued: "consumer_reach wk (ex_queued [u ''1''] [u ''2''])"
proof -
  let ?g = "idle_consumer\<lparr>unread := (unread idle_consumer)(STREAM := unread idle_consumer STREAM @ [u ''1''])\<rparr>"
  have 1: "consumer_reach wk ?g"
    by (rule consumer_reach.step [OF consumer_reach.start], rule consumer_step.enqueued) (simp_all add: idle_consumer_def)
  have "consumer_reach wk (?g\<lparr>unread := (unread ?g)(LARGE_STREAM := unread ?g LARGE_STREAM @ [u ''2''])\<rparr>)"
    by (rule consumer_reach.step [OF 1], rule consumer_step.enqueued) (simp_all add: idle_consumer_def)
  then show ?thesis by (simp add: ex_queued_def idle_consumer_def)
qed

lemma ex_reach_spawned: "consumer_reach (ex_worker a) (spawn 1 1 (ex_queued [u ''1''] [u ''2'']))"
  by (rule consumer_reach.step [OF ex_reach_queued], rule consumer_step.read_batch)
    (simp_all add: free_slots_def ex_worker_def ex_queued_def idle_consumer_def batch_def)

theorem failed_never_redelivered_witness:
  "\<exists>g. consumer_reach (ex_worker (Inl TimeoutError)) g \<and> ex_msg \<in> set (delivered g) \<and> ex_msg \<in> set (pending g) \<and>
     flight g = [(ex_msg, True), ((LARGE_STREAM, u ''2''), False)]"
proof -
  let ?wk = "ex_worker (Inl TimeoutError)" and ?g = "spawn 1 1 (ex_queued [u ''1''] [u ''2''])"
  let ?h = "settle_task False (run_task ?wk [] ex_msg ?g) ex_msg ?g"
  have fl: "flight ?g = [(ex_msg, False), ((LARGE_STREAM, u ''2''), False)]" "ex_msg \<in> set (delivered ?g)"
    by (simp_all add: spawn_def ex_queued_def idle_consumer_def batch_def ex_msg_def)
  have "consumer_step ?wk ?g ?h" by (rule consumer_step.finished) (simp only: fl list.set insert_iff simp_thms)
  from consumer_reach.step [OF ex_reach_spawned this] have r: "consumer_reach ?wk ?h" .
  have "doomed ?wk ex_msg" using ex_parse
    by (auto simp: doomed_def ex_worker_def task_to_dict_def)
  moreover have "ex_msg \<in> set (delivered ?h)" using fl by (simp add: settle_task_def)
  moreover have "flight ?h = [(ex_msg, True), ((LARGE_STREAM, u ''2''), False)]"
    using fl(1) by (simp add: settle_task_def ex_msg_def)
  moreover have "1 < wk_max ?wk" by (simp add: ex_worker_def)
  ultimately show ?thesis using failed_never_redelivered [OF r, of ex_msg] r by blast
qed

text \<open>Also: with concurrency one, two tasks run at once.\<close>

theorem in_flight_exceeds:
  "\<exists>g. consumer_reach (ex_worker (Inl TimeoutError)) g \<and> wk_concurrency (ex_worker (Inl TimeoutError)) = 1 \<and>
     flight g = [((STREAM, u ''1''), False), ((LARGE_STREAM, u ''2''), False)]"
proof -
  have "flight (spawn 1 1 (ex_queued [u ''1''] [u ''2''])) = [((STREAM, u ''1''), False), ((LARGE_STREAM, u ''2''), False)]"
    by (simp add: spawn_def ex_queued_def idle_consumer_def batch_def)
  moreover have "wk_concurrency (ex_worker (Inl TimeoutError)) = 1" by (simp add: ex_worker_def)
  ultimately show ?thesis using ex_reach_spawned by blast
qed

theorem in_flight_bounded_witness:
  "length (flight (spawn 1 1 (ex_queued [u ''1''] [u ''2'']))) \<le> 2"
  using in_flight_bounded [OF ex_reach_spawned [of "Inl TimeoutError"]] by (simp add: ex_worker_def)

theorem queue_round_trips_witness:
  "parse_task ex_env (dumps_plain ex_repr (task_to_dict ex_task)) = Inr ex_task \<and>
   listen_one ex_env (u ''b'') (''pmessage'', snd (envelope ex_env (u ''a'') ex_event)) = Some ex_event"
proof -
  have 1: "json_ok (task_to_dict ex_task)" "json_ok (ev_payload ex_event)"
    by (simp_all add: task_to_dict_def ex_task_def ex_event_def)
  have 2: "json_ok (status_dict (base_status JNull ''queued''))" "list_all is_obj (ts_products (base_status JNull ''queued''))"
    by (simp_all add: status_dict_def base_status_def)
  from queue_round_trips [OF ex_env_law 1(1) 2(1) 1(2) 2(2), where here = "u ''b''" and origin = "u ''a''"]
  show ?thesis by (simp add: ex_env_def)
qed

end
