(* ===== verification/Intake.thy ===== *)
theory Intake
  imports Redis Task_Queue
begin

text \<open>
  How the server takes in an intent (\<open>app/presentation/server.py\<close>): the priority by the number of
  turns of the session, the idempotency key in the cache, the queue, and the wait for the answer.
  The cache is the one of \<open>Redis\<close>, the queue the wire of \<open>Task_Queue\<close>; \<open>sha\<close> is the hexadecimal
  SHA-256 of a text and the fresh task identifier is an argument.
\<close>

section \<open>Priority\<close>

record intake_env =
  in_queue :: queue_env
  in_sha :: "pystr \<Rightarrow> pystr"
  in_priority_enabled :: bool
  in_large_turns :: int

definition IDEMPOTENCY_TTL :: rat where "IDEMPOTENCY_TTL = 600"
definition TURN_COUNTER_TTL :: rat where "TURN_COUNTER_TTL = 86400"

definition json_text :: "intake_env \<Rightarrow> json \<Rightarrow> pystr" where
  "json_text env v = dumps_plain (qe_repr (in_queue env)) v"

definition turns_key :: "pystr \<Rightarrow> pystr" where
  "turns_key sid = u ''crossshop:turns:'' @ sid"

definition queue_priority :: "intake_env \<Rightarrow> pystr \<Rightarrow> json redis \<Rightarrow> int \<times> json redis" where
  "queue_priority env sid r =
     (if \<not> in_priority_enabled env \<or> \<not> connected r then (0, r)
      else case get_raw (json_text env) (turns_key sid) r of
        (raw, r1) \<Rightarrow>
          (case (case raw of None \<Rightarrow> Inr 0 | Some t \<Rightarrow> if t = [] then Inr 0 else qe_int (in_queue env) t) of
             Inl e \<Rightarrow> (0, r1)
           | Inr n \<Rightarrow>
               (let current = n + 1; r2 = snd (set_json (turns_key sid) (JInt current) TURN_COUNTER_TTL r1)
                in (if current \<ge> in_large_turns env then 1 else 0, r2))))"

section \<open>Taking in an intent\<close>

record intent =
  si_session :: pystr
  si_buyer :: pystr
  si_locale :: pystr
  si_currency :: pystr
  si_query :: pystr

definition idem_key :: "intake_env \<Rightarrow> intent \<Rightarrow> pystr" where
  "idem_key env i = u ''idem:'' @ take 32 (in_sha env (si_session i @ [10] @ si_query i))"

definition intent_task_of :: "pystr \<Rightarrow> pystr \<Rightarrow> int \<Rightarrow> intent \<Rightarrow> intent_task" where
  "intent_task_of tid now priority i = \<lparr>it_id = JStr tid, it_session = JStr (si_session i), it_buyer = JStr (si_buyer i),
     it_locale = JStr (si_locale i), it_currency = JStr (si_currency i), it_query = JStr (si_query i),
     it_enqueued_at = JStr now, it_priority = priority\<rparr>"

text \<open>The task identifier that the caller gets. \<open>now\<close> is the time of the task's default timestamp.\<close>

definition enqueue_intent :: "intake_env \<Rightarrow> pystr \<Rightarrow> pystr \<Rightarrow> intent \<Rightarrow> json redis \<Rightarrow> wire \<Rightarrow>
    pystr result \<times> json redis \<times> wire" where
  "enqueue_intent env tid now i r w =
     (case set_if_absent (idem_key env i) tid IDEMPOTENCY_TTL r of
        (acquired, r1) \<Rightarrow>
          (case (if acquired then (None, r1) else get_raw (json_text env) (idem_key env i) r1) of
             (previous, r2) \<Rightarrow>
               if previous \<noteq> None \<and> previous \<noteq> Some [] then (Inr (the previous), r2, w)
               else case queue_priority env (si_session i) r2 of
                 (priority, r3) \<Rightarrow>
                   (case thenW (queue_enqueue (in_queue env) (intent_task_of tid now priority i) w)
                           (\<lambda>x. set_status (in_queue env) (base_status (JStr tid) ''queued'')) of
                      (Inl e, w1) \<Rightarrow> (Inl e, r3, w1)
                    | (Inr x, w1) \<Rightarrow> (Inr tid, r3, emit (Publish (JStr (si_session i)) ''task.queued'') w1))))"

section \<open>Waiting for the answer\<close>

text \<open>One round of the loop: an event of the session, or two quiet seconds and the task's status.\<close>

datatype poll = Event string json | Quiet "task_status option result"

definition ERROR_TIMEOUT :: pystr where "ERROR_TIMEOUT = u ''[error] timeout''"

definition or_empty :: "json \<Rightarrow> json list" where
  "or_empty v = (if truthy v then list_items v else [])"

text \<open>The rounds before the deadline; the text of the timeout stands for the message.\<close>

fun await_result :: "intake_env \<Rightarrow> poll list \<Rightarrow> (json \<times> json list) result" where
  "await_result env [] = Inr (JStr ERROR_TIMEOUT, [])"
| "await_result env (Event kind payload # rest) =
     (if kind = ''final.result''
      then Inr (JStr (str_of (in_queue env) (get_or payload ''text'' (JStr []))), or_empty (jget payload ''displayed_products''))
      else await_result env rest)"
| "await_result env (Quiet reply # rest) =
     (case reply of
        Inl e \<Rightarrow> Inl e
      | Inr None \<Rightarrow> await_result env rest
      | Inr (Some st) \<Rightarrow>
          if ts_state st = JStr (u ''done'') then Inr (ts_text st, ts_products st)
          else if ts_state st = JStr (u ''failed'')
          then Inr (JStr (u ''[error] '' @ str_of (in_queue env) (ts_error st)), [])
          else await_result env rest)"

section \<open>Duplicate submissions\<close>

lemma connected_healthy: "healthy r \<Longrightarrow> connected r"
  by (simp add: healthy_def)

text \<open>The turn counter does not touch the idempotency key.\<close>

lemma priority_keeps:
  assumes "healthy r" "k \<noteq> turns_key sid" "queue_priority env sid r = (p, r')"
  shows "healthy r' \<and> clock r' = clock r \<and> map_of (cells r') k = map_of (cells r) k"
proof -
  have g: "snd (get_raw (json_text env) (turns_key sid) r) = r"
    using assms(1) by (auto simp: get_raw_def get_cell_def command_healthy split: option.split cell.split)
  then obtain raw where raw: "get_raw (json_text env) (turns_key sid) r = (raw, r)" by (metis prod.collapse)
  show ?thesis
    using assms raw
    by (auto simp: queue_priority_def set_json_healthy store_def map_of_update healthy_def Let_def split: if_splits sum.splits option.splits)
qed

lemma idem_not_turns: "idem_key env i \<noteq> turns_key sid"
  by (simp add: idem_key_def turns_key_def u_def)

text \<open>After an intent was first taken in, successfully or not, its key holds the identifier.\<close>

lemma first_submission:
  assumes "healthy r" "live r (idem_key env i) = None" "enqueue_intent env tid now i r w = (res, r', w')"
  shows "healthy r' \<and> clock r' = clock r \<and>
    map_of (cells r') (idem_key env i) = Some (Text tid, clock r + IDEMPOTENCY_TTL)"
proof -
  let ?r1 = "store (idem_key env i) (Text tid) IDEMPOTENCY_TTL r"
  have "set_if_absent (idem_key env i) tid IDEMPOTENCY_TTL r = (True, ?r1)"
    using assms(1,2) by (simp add: set_if_absent_healthy)
  with assms(3) have "\<exists>p. queue_priority env (si_session i) ?r1 = (p, r')"
    by (auto simp: enqueue_intent_def split: prod.splits sum.splits)
  then obtain p where "queue_priority env (si_session i) ?r1 = (p, r')" by blast
  from priority_keeps [OF _ idem_not_turns this, of env i] assms(1) show ?thesis
    by (simp add: map_of_update store_def healthy_def)
qed

lemma repeated_submission:
  assumes "healthy r" "map_of (cells r) (idem_key env i) = Some (Text tid, expires)" "clock r < expires" "tid \<noteq> []"
  shows "enqueue_intent env tid' now' i r w = (Inr tid, r, w)"
proof -
  have "live r (idem_key env i) = Some (Text tid)" using assms(2,3) by (simp add: live_def)
  with assms(1,4) show ?thesis
    by (simp add: enqueue_intent_def set_if_absent_healthy get_raw_healthy)
qed

section \<open>The status of a task\<close>

text \<open>What the server holds under a key after a run of commands.\<close>

fun stored_at :: "pystr \<Rightarrow> (command \<times> bool) list \<Rightarrow> pystr option \<Rightarrow> pystr option" where
  "stored_at k [] found = found"
| "stored_at k ((SetKey k' v, ok) # cs) found = stored_at k cs (if ok \<and> k' = k then Some v else found)"
| "stored_at k (c # cs) found = stored_at k cs found"

lemma stored_append: "stored_at k (a @ b) found = stored_at k b (stored_at k a found)"
  by (induction k a found rule: stored_at.induct) auto

abbreviation quiet_wire :: wire where "quiet_wire \<equiv> \<lparr>sent = [], outcomes = []\<rparr>"

lemma enqueue_sent:
  assumes "healthy r" "live r (idem_key env i) = None"
  shows "\<exists>x. sent (snd (snd (enqueue_intent env tid now i r quiet_wire))) = [(XAdd (fst x) (snd x), True),
    (status_command (in_queue env) (base_status (JStr tid) ''queued''), True),
    (Publish (JStr (si_session i)) ''task.queued'', True)]"
proof -
  obtain p r' where "queue_priority env (si_session i) (store (idem_key env i) (Text tid) IDEMPOTENCY_TTL r) = (p, r')"
    by force
  with assms show ?thesis
    by (simp add: enqueue_intent_def set_if_absent_healthy queue_enqueue_def set_status_def status_command_def
        send_def emit_def Let_def)
qed

lemma worker_sent:
  assumes "answer t = Inr res" "it_id t = JStr tid"
  shows "sent (snd (worker_handle env answer t quiet_wire)) =
    [(status_command env (base_status (JStr tid) ''running''), True), (Publish (it_session t) ''task.started'', True),
     (status_command env (done_status t res), True)]"
  using assms by (simp add: worker_handle_def set_status_def status_command_def send_def emit_def done_status_def)

lemma status_reads_back:
  assumes "float_law (qe_float env) (qe_repr env)" "json_ok (status_dict st)" "list_all is_obj (ts_products st)"
    "length (ts_products st) \<le> 5" "ts_state st = JStr (u ''queued'') \<longrightarrow> ts_position st = n"
    "ts_state st \<noteq> JStr (u ''queued'') \<longrightarrow> ts_position st = 0"
  shows "get_status env (Inr (Some (dumps_plain (qe_repr env) (status_dict st)))) n = Inr (Some st)"
proof -
  have f: "[item \<leftarrow> ts_products st. is_obj item] = ts_products st" using assms(3) by (simp add: list_all_iff)
  show ?thesis
    unfolding get_status_def andThen.simps option.case loads_dumps [OF assms(1,2)] using f assms(4,5,6)
    by (cases st) (simp add: status_dict_def jhas_def jget_def get_or_def)
qed

section \<open>Properties\<close>

text \<open>Also: within the lifetime of the key a repeated submission returns the identifier of the first one and
  sends nothing to the queue.\<close>

theorem duplicate_submission_reuses:
  assumes "healthy r" and "live r (idem_key env i) = None" and "tid \<noteq> []"
    and "enqueue_intent env tid now i r w = (res, r', w')" and "later < clock r + IDEMPOTENCY_TTL"
  shows "enqueue_intent env tid' now' i (r'\<lparr>clock := later\<rparr>) w' = (Inr tid, r'\<lparr>clock := later\<rparr>, w') \<and>
    (res = Inr tid \<or> (\<exists>e. res = Inl e))"
proof -
  from first_submission [OF assms(1,2,4)] assms(5)
  have "healthy (r'\<lparr>clock := later\<rparr>)" "clock (r'\<lparr>clock := later\<rparr>) < clock r + IDEMPOTENCY_TTL"
    "map_of (cells (r'\<lparr>clock := later\<rparr>)) (idem_key env i) = Some (Text tid, clock r + IDEMPOTENCY_TTL)" by simp_all
  from repeated_submission [OF this(1,3,2) assms(3)] have
    "enqueue_intent env tid' now' i (r'\<lparr>clock := later\<rparr>) w' = (Inr tid, r'\<lparr>clock := later\<rparr>, w')" .
  moreover have "res = Inr tid \<or> (\<exists>e. res = Inl e)"
    using assms(1,2,4) by (auto simp: enqueue_intent_def set_if_absent_healthy split: prod.splits sum.splits)
  ultimately show ?thesis by blast
qed

text \<open>Also: when the queue refuses the task, the key is kept: for ten minutes the same intent is answered with
  the identifier of a task that was never queued and has no status.\<close>

theorem failed_submission_poisons:
  assumes "healthy r" and "live r (idem_key env i) = None" and "tid \<noteq> []" and "later < clock r + IDEMPOTENCY_TTL"
    and "enqueue_intent env tid now i r \<lparr>sent = [], outcomes = [Some e]\<rparr> = (res, r', w')"
  shows "res = Inl e \<and> (\<forall>c. (c, True) \<notin> set (sent w')) \<and>
    enqueue_intent env tid' now' i (r'\<lparr>clock := later\<rparr>) w' = (Inr tid, r'\<lparr>clock := later\<rparr>, w')"
proof -
  from first_submission [OF assms(1,2,5)] assms(4)
  have "healthy (r'\<lparr>clock := later\<rparr>)" "clock (r'\<lparr>clock := later\<rparr>) < clock r + IDEMPOTENCY_TTL"
    "map_of (cells (r'\<lparr>clock := later\<rparr>)) (idem_key env i) = Some (Text tid, clock r + IDEMPOTENCY_TTL)" by simp_all
  from repeated_submission [OF this(1,3,2) assms(3)] assms(1,2,5) show ?thesis
    by (auto simp: enqueue_intent_def set_if_absent_healthy queue_enqueue_def send_def Let_def split: prod.splits)
qed

text \<open>Also: the status is written after the task is queued. When the worker answers before that write, the
  stored answer is replaced: the status reads queued, without text; in the other order it reads done.\<close>

theorem queued_overwrites_done:
  assumes "healthy r" and "live r (idem_key env i) = None" and "answer t = Inr res" and "it_id t = JStr tid"
    and "float_law (qe_float (in_queue env)) (qe_repr (in_queue env))" and "json_ok (status_dict (done_status t res))"
    and "list_all is_obj (ir_products res)" and "length (ir_products res) \<le> 5"
    and "submit = sent (snd (snd (enqueue_intent env tid now i r quiet_wire)))"
    and "work = sent (snd (worker_handle (in_queue env) answer t quiet_wire))"
    and "k = STATUS_PREFIX @ tid"
  shows "get_status (in_queue env) (Inr (stored_at k (submit @ work) None)) n = Inr (Some (done_status t res)) \<and>
    get_status (in_queue env) (Inr (stored_at k (take 1 submit @ work @ drop 1 submit) None)) n =
      Inr (Some ((base_status (JStr tid) ''queued'')\<lparr>ts_position := n\<rparr>))"
proof -
  obtain x where x: "submit = [(XAdd (fst x) (snd x), True),
      (status_command (in_queue env) (base_status (JStr tid) ''queued''), True),
      (Publish (JStr (si_session i)) ''task.queued'', True)]"
    using enqueue_sent [OF assms(1,2), of tid now] assms(9) by auto
  note y = worker_sent [where answer = answer and t = t and env = "in_queue env", OF assms(3,4), folded assms(10)]
  have k: "STATUS_PREFIX @ str_of (in_queue env) (ts_id (base_status (JStr tid) st)) = k" for st
    using assms(11) by (simp add: base_status_def str_of_def)
  have kd: "STATUS_PREFIX @ str_of (in_queue env) (ts_id (done_status t res)) = k"
    using k [of "''done''"] assms(4) by (simp add: done_status_def base_status_def)
  have 1: "stored_at k (submit @ work) None = Some (dumps_plain (qe_repr (in_queue env)) (status_dict (done_status t res)))"
    by (simp add: x y status_command_def k kd)
  have 2: "stored_at k (take 1 submit @ work @ drop 1 submit) None =
      Some (dumps_plain (qe_repr (in_queue env)) (status_dict (base_status (JStr tid) ''queued'')))"
    by (simp add: x y status_command_def k kd)
  have d: "get_status (in_queue env) (Inr (stored_at k (submit @ work) None)) n = Inr (Some (done_status t res))"
    unfolding 1 using assms(6,7,8)
    by (intro status_reads_back [OF assms(5)]) (simp_all add: done_status_def base_status_def)
  have q: "status_dict (base_status (JStr tid) ''queued'') =
      status_dict ((base_status (JStr tid) ''queued'')\<lparr>ts_position := n\<rparr>)"
    by (simp add: status_dict_def)
  have "get_status (in_queue env) (Inr (stored_at k (take 1 submit @ work @ drop 1 submit) None)) n =
      Inr (Some ((base_status (JStr tid) ''queued'')\<lparr>ts_position := n\<rparr>))"
    unfolding 2 q by (intro status_reads_back [OF assms(5)]) (simp_all add: base_status_def status_dict_def)
  with d show ?thesis ..
qed

section \<open>Witnesses\<close>

definition ex_intake :: intake_env where
  "ex_intake = \<lparr>in_queue = Task_Queue.ex_env, in_sha = id, in_priority_enabled = True, in_large_turns = 5\<rparr>"

definition ex_cache :: "json redis" where
  "ex_cache = \<lparr>cells = [], clock = 0, command_fails = [], connected = True, parse_text = (\<lambda>t. None)\<rparr>"

definition ex_intent :: intent where
  "ex_intent = \<lparr>si_session = u ''s1'', si_buyer = u ''ann'', si_locale = u ''en'', si_currency = u ''USD'', si_query = u ''cup''\<rparr>"

lemma ex_cache_ready: "healthy ex_cache" "live ex_cache k = None"
  by (simp_all add: healthy_def ex_cache_def live_def)

theorem duplicate_submission_reuses_witness:
  "\<exists>r' w'. enqueue_intent ex_intake (u ''t2'') [] ex_intent (r'\<lparr>clock := 599\<rparr>) w' = (Inr (u ''t1''), r'\<lparr>clock := 599\<rparr>, w')"
proof -
  obtain res r' w' where e: "enqueue_intent ex_intake (u ''t1'') [] ex_intent ex_cache quiet_wire = (res, r', w')"
    by (metis prod.exhaust)
  have "u ''t1'' \<noteq> []" "599 < clock ex_cache + IDEMPOTENCY_TTL" by (simp_all add: ex_cache_def IDEMPOTENCY_TTL_def)
  from duplicate_submission_reuses [OF ex_cache_ready this(1) e this(2)] show ?thesis by blast
qed

theorem failed_submission_poisons_witness:
  "\<exists>r' w'. enqueue_intent ex_intake (u ''t1'') [] ex_intent ex_cache \<lparr>sent = [], outcomes = [Some TimeoutError]\<rparr> =
      (Inl TimeoutError, r', w') \<and>
    enqueue_intent ex_intake (u ''t2'') [] ex_intent (r'\<lparr>clock := 599\<rparr>) w' = (Inr (u ''t1''), r'\<lparr>clock := 599\<rparr>, w')"
proof -
  obtain res r' w' where e: "enqueue_intent ex_intake (u ''t1'') [] ex_intent ex_cache
      \<lparr>sent = [], outcomes = [Some TimeoutError]\<rparr> = (res, r', w')"
    by (metis prod.exhaust)
  have "u ''t1'' \<noteq> []" "599 < clock ex_cache + IDEMPOTENCY_TTL" by (simp_all add: ex_cache_def IDEMPOTENCY_TTL_def)
  from failed_submission_poisons [OF ex_cache_ready this e] e show ?thesis by blast
qed

theorem queued_overwrites_done_witness:
  "\<exists>found. get_status Task_Queue.ex_env (Inr found) 0 = Inr (Some (base_status (JStr (u ''t1'')) ''queued''))"
proof -
  have l: "float_law (qe_float (in_queue ex_intake)) (qe_repr (in_queue ex_intake))"
    using ex_env_law by (simp add: ex_intake_def)
  have t: "it_id ex_task = JStr (u ''t1'')" by (simp add: ex_task_def)
  let ?res = "\<lparr>ir_text = JNull, ir_products = []\<rparr>"
  have j: "json_ok (status_dict (done_status ex_task ?res))"
    by (simp add: status_dict_def done_status_def base_status_def ex_task_def)
  have "(base_status (JStr (u ''t1'')) ''queued'')\<lparr>ts_position := 0\<rparr> = base_status (JStr (u ''t1'')) ''queued''"
    by (simp add: base_status_def)
  with queued_overwrites_done [where answer = "\<lambda>t. Inr ?res" and n = 0, OF ex_cache_ready refl t l j _ _ refl refl refl]
  show ?thesis unfolding ex_intake_def by auto
qed

end
