(* ===== verification/Summaries.thy ===== *)
theory Summaries
  imports Json_Parse Reducer Context_Budget Lifecycle
begin

text \<open>
  The frozen segments (L2) and stage summaries (L3) of \<open>app/application/context/models.py\<close> with their
  hashes and their two dictionary forms, and the sizing loop of \<open>compactor.py\<close>, which must guess a
  token count that is part of the text it counts. SHA-256, \<open>str\<close> of a value that is no text, the
  text of a result state and the regular expressions of the compactor are fields of the environment.
\<close>

section \<open>The environment\<close>

record summary_env =
  se_repr :: "rat \<Rightarrow> pystr"
  se_float :: "pystr \<Rightarrow> rat"
  se_sha :: "pystr \<Rightarrow> pystr"
  se_str :: "json \<Rightarrow> pystr"
  se_int :: "pystr \<Rightarrow> int result"
  se_lower :: "pystr \<Rightarrow> pystr"
  se_state :: "result_state \<Rightarrow> pystr"
  rx_journey_start :: "pystr \<Rightarrow> bool"
  rx_recovery_probe :: "pystr \<Rightarrow> bool"
  rx_replacement :: "pystr \<Rightarrow> bool"
  rx_semantic :: "pystr \<Rightarrow> pystr"
  rx_platform :: "pystr \<Rightarrow> pystr option \<times> pystr option"
  rx_budget :: "pystr \<Rightarrow> json option \<times> pystr option"
  rx_anchor :: "pystr \<Rightarrow> json option"
  rx_decision :: "pystr \<Rightarrow> pystr"

definition text_of :: "summary_env \<Rightarrow> json \<Rightarrow> pystr" where
  "text_of env v = (case v of JStr s \<Rightarrow> s | _ \<Rightarrow> se_str env v)"

definition canonical :: "summary_env \<Rightarrow> json \<Rightarrow> pystr" where
  "canonical env v = dumps (se_repr env) v"

definition opt_int :: "int option \<Rightarrow> json" where
  "opt_int x = (case x of None \<Rightarrow> JNull | Some i \<Rightarrow> JInt i)"

section \<open>Frozen segments\<close>

record segment =
  fs_id :: pystr
  fs_content :: pystr
  fs_start :: "int option"
  fs_end :: "int option"
  fs_revision :: int
  fs_hash :: pystr
  fs_type :: pystr
  fs_created :: pystr

definition mk_segment :: "summary_env \<Rightarrow> segment \<Rightarrow> segment result" where
  "mk_segment env s =
     (let digest = se_sha env (fs_content s)
      in if fs_hash s \<noteq> [] \<and> fs_hash s \<noteq> digest then Inl (ValueError ''frozen segment content hash mismatch'')
         else Inr (s\<lparr>fs_hash := digest\<rparr>))"

definition segment_dict :: "segment \<Rightarrow> json" where
  "segment_dict s = JObj [(u ''segment_id'', JStr (fs_id s)), (u ''content'', JStr (fs_content s)),
     (u ''source_message_start'', opt_int (fs_start s)), (u ''source_message_end'', opt_int (fs_end s)),
     (u ''context_revision'', JInt (fs_revision s)), (u ''content_hash'', JStr (fs_hash s)),
     (u ''segment_type'', JStr (fs_type s)), (u ''created_at'', JStr (fs_created s))]"

section \<open>Stage summaries\<close>

record summary =
  sm_sources :: "(pystr \<times> pystr) list"
  sm_requests :: "pystr list"
  sm_facts :: "jdict list"
  sm_outcomes :: "pystr list"
  sm_journeys :: "jdict list"
  sm_start :: "int option"
  sm_end :: "int option"
  sm_revision :: int
  sm_schema :: pystr
  sm_generation :: int
  sm_target :: int
  sm_estimated :: int
  sm_refinement :: pystr
  sm_omitted :: "(pystr \<times> int) list"
  sm_combined :: pystr
  sm_hash :: pystr

definition STAGE_SCHEMA :: pystr where "STAGE_SCHEMA = u ''stage-summary-v4''"

definition JOURNEY_SCHEMAS :: "pystr list" where
  "JOURNEY_SCHEMAS = [u ''stage-summary-v3'', STAGE_SCHEMA]"

definition sources_json :: "(pystr \<times> pystr) list \<Rightarrow> json" where
  "sources_json ss = JList (map (\<lambda>(i, h). JObj [(u ''segment_id'', JStr i), (u ''content_hash'', JStr h)]) ss)"

definition content_fields :: "summary \<Rightarrow> jdict" where
  "content_fields s = [(u ''user_requests'', strs (sm_requests s)), (u ''tool_facts'', JList (map JObj (sm_facts s))),
     (u ''assistant_outcomes'', strs (sm_outcomes s))]"

definition journey_field :: "summary \<Rightarrow> jdict" where
  "journey_field s = [(u ''shopping_journeys'', JList (map JObj (sm_journeys s)))]"

definition omitted_json :: "summary \<Rightarrow> json" where
  "omitted_json s = JObj (map (\<lambda>(k, n). (k, JInt n)) (sm_omitted s))"

definition combined_hash :: "summary_env \<Rightarrow> summary \<Rightarrow> pystr" where
  "combined_hash env s = se_sha env (canonical env (sources_json (sm_sources s)))"

text \<open>What is hashed, by the schema of the summary.\<close>

definition summary_body :: "pystr \<Rightarrow> summary \<Rightarrow> json" where
  "summary_body combined s = JObj
    ([(u ''schema_version'', JStr (sm_schema s)), (u ''source_segments'', sources_json (sm_sources s)),
      (u ''source_message_start'', opt_int (sm_start s)), (u ''source_message_end'', opt_int (sm_end s)),
      (u ''context_revision'', JInt (sm_revision s)), (u ''combined_source_hash'', JStr combined),
      (u ''content'', JObj (content_fields s @ (if sm_schema s \<in> set JOURNEY_SCHEMAS then journey_field s else [])))]
     @ (if sm_schema s = u ''stage-summary-v1'' then []
        else [(u ''generation'', JInt (sm_generation s)), (u ''target_tokens'', JInt (sm_target s)),
          (u ''estimated_tokens'', JInt (sm_estimated s)), (u ''refinement'', JStr (sm_refinement s)),
          (u ''omitted_counts'', omitted_json s)]))"

definition mk_summary :: "summary_env \<Rightarrow> summary \<Rightarrow> summary result" where
  "mk_summary env s =
     (let combined = combined_hash env s; digest = se_sha env (canonical env (summary_body combined s))
      in if sm_combined s \<noteq> [] \<and> sm_combined s \<noteq> combined then Inl (ValueError ''combined source hash mismatch'')
         else if sm_hash s \<noteq> [] \<and> sm_hash s \<noteq> digest then Inl (ValueError ''content hash mismatch'')
         else Inr (s\<lparr>sm_combined := combined, sm_hash := digest\<rparr>))"

definition source_ids :: "summary \<Rightarrow> pystr list" where
  "source_ids s = map fst (sm_sources s)"

definition summary_dict :: "summary \<Rightarrow> json" where
  "summary_dict s = JObj [(u ''schema_version'', JStr (sm_schema s)), (u ''source_segment_ids'', strs (source_ids s)),
     (u ''source_segments'', sources_json (sm_sources s)), (u ''source_message_start'', opt_int (sm_start s)),
     (u ''source_message_end'', opt_int (sm_end s)), (u ''context_revision'', JInt (sm_revision s)),
     (u ''generation'', JInt (sm_generation s)), (u ''target_tokens'', JInt (sm_target s)),
     (u ''estimated_tokens'', JInt (sm_estimated s)), (u ''refinement'', JStr (sm_refinement s)),
     (u ''omitted_counts'', omitted_json s), (u ''combined_source_hash'', JStr (sm_combined s)),
     (u ''content'', JObj (content_fields s @ journey_field s)), (u ''summary_hash'', JStr (sm_hash s))]"

definition CONFLICT_POLICY :: pystr where
  "CONFLICT_POLICY = u ''newest source state wins; canceled, replaced, removed, or excluded state must not be revived; session-context is authoritative for exact current facts''"

definition TURN_POLICY :: pystr where
  "TURN_POLICY = u ''shopping_journeys.authored_turn_start/end are the original buyer-authored business turn numbers; use them to resolve questions such as ''
     @ [31532, 78, 36718] @ u ''; recovery probes are excluded''"

definition budget_json :: "summary \<Rightarrow> json" where
  "budget_json s = JObj [(u ''target_tokens'', JInt (sm_target s)), (u ''estimated_tokens'', JInt (sm_estimated s)),
     (u ''refinement'', JStr (sm_refinement s)), (u ''omitted_counts'', omitted_json s)]"

definition prompt_dict :: "summary \<Rightarrow> json" where
  "prompt_dict s = JObj [(u ''schema_version'', JStr (sm_schema s)),
     (u ''source_segment_count'', JInt (int (length (sm_sources s)))),
     (u ''source_message_start'', opt_int (sm_start s)), (u ''source_message_end'', opt_int (sm_end s)),
     (u ''context_revision'', JInt (sm_revision s)), (u ''generation'', JInt (sm_generation s)),
     (u ''combined_source_hash'', JStr (sm_combined s)), (u ''conflict_policy'', JStr CONFLICT_POLICY),
     (u ''turn_reference_policy'', JStr TURN_POLICY), (u ''content'', JObj (content_fields s @ journey_field s)),
     (u ''summary_budget'', budget_json s), (u ''summary_hash'', JStr (sm_hash s))]"

section \<open>Reading back\<close>

text \<open>
  A stored position is an integer or null: the writers store nothing else, and \<open>OtherError\<close> stands for
  the rest. \<open>items_of\<close> iterates over \<open>value or ()\<close>.
\<close>

fun position :: "json \<Rightarrow> int option result" where
  "position JNull = Inr None"
| "position (JInt i) = Inr (Some i)"
| "position v = Inl (OtherError ''position'')"

fun items_of :: "json \<Rightarrow> json list result" where
  "items_of (JList l) = Inr l"
| "items_of (JStr s) = Inr (map (\<lambda>c. JStr [c]) s)"
| "items_of (JObj d) = Inr (map (\<lambda>(k, v). JStr k) d)"
| "items_of v = (if truthy v then Inl (TypeError ''not iterable'') else Inr [])"

definition text_or :: "summary_env \<Rightarrow> json \<Rightarrow> string \<Rightarrow> string \<Rightarrow> pystr" where
  "text_or env raw k dflt = text_of env (get_or raw k (JStr (u dflt)))"

definition int_or :: "summary_env \<Rightarrow> json \<Rightarrow> string \<Rightarrow> int \<Rightarrow> int result" where
  "int_or env raw k dflt = py_int (se_int env) (get_or raw k (JInt dflt))"

definition segment_from_dict :: "summary_env \<Rightarrow> pystr \<Rightarrow> json \<Rightarrow> segment result" where
  "segment_from_dict env now raw =
     (if \<not> jhas raw ''segment_id'' then Inl (KeyError ''segment_id'')
      else andThen (position (jget raw ''source_message_start'')) (\<lambda>start.
           andThen (position (jget raw ''source_message_end'')) (\<lambda>stop.
           andThen (int_or env raw ''context_revision'' 0) (\<lambda>rev_no.
             mk_segment env \<lparr>fs_id = text_of env (jget raw ''segment_id''), fs_content = text_or env raw ''content'' [],
               fs_start = start, fs_end = stop, fs_revision = rev_no, fs_hash = text_or env raw ''content_hash'' [],
               fs_type = text_or env raw ''segment_type'' ''interaction'',
               fs_created = (let t = text_or env raw ''created_at'' [] in if t = [] then now else t)\<rparr>))))"

definition source_entry :: "summary_env \<Rightarrow> json \<Rightarrow> (pystr \<times> pystr) result" where
  "source_entry env item =
     (if \<not> jhas item ''segment_id'' then Inl (KeyError ''segment_id'')
      else if \<not> jhas item ''content_hash'' then Inl (KeyError ''content_hash'')
      else Inr (text_of env (jget item ''segment_id''), text_of env (jget item ''content_hash'')))"

definition texts_at :: "summary_env \<Rightarrow> json \<Rightarrow> string \<Rightarrow> pystr list result" where
  "texts_at env body k = andThen (items_of (jget body k)) (\<lambda>xs. Inr (map (text_of env) xs))"

definition dicts_at :: "json \<Rightarrow> string \<Rightarrow> jdict list result" where
  "dicts_at body k = andThen (items_of (jget body k)) (\<lambda>xs. Inr (map obj_items (filter is_obj xs)))"

definition omitted_from :: "summary_env \<Rightarrow> json \<Rightarrow> (pystr \<times> int) list result" where
  "omitted_from env v =
     (if truthy v \<and> \<not> is_obj v then Inl (OtherError ''AttributeError'')
      else mapR (\<lambda>(k, n). andThen (py_int (se_int env) n) (\<lambda>i. Inr (k, max 0 i))) (obj_items v))"

definition KNOWN_SCHEMAS :: "pystr list" where
  "KNOWN_SCHEMAS = [STAGE_SCHEMA, u ''stage-summary-v1'', u ''stage-summary-v2'', u ''stage-summary-v3'']"

definition summary_from_dict :: "summary_env \<Rightarrow> json \<Rightarrow> summary result" where
  "summary_from_dict env raw =
     (let schema = text_or env raw ''schema_version'' []; body = jget raw ''content''; srcs = jget raw ''source_segments''
      in if schema \<notin> set KNOWN_SCHEMAS then Inl (ValueError ''unsupported stage summary schema'')
         else if \<not> is_obj body \<or> \<not> is_jlist srcs then Inl (TypeError ''stage summary source and content are required'')
         else andThen (mapR (source_entry env) (filter is_obj (list_items srcs))) (\<lambda>sources.
              andThen (texts_at env body ''user_requests'') (\<lambda>requests.
              andThen (dicts_at body ''tool_facts'') (\<lambda>facts.
              andThen (texts_at env body ''assistant_outcomes'') (\<lambda>outcomes.
              andThen (dicts_at body ''shopping_journeys'') (\<lambda>journeys.
              andThen (position (jget raw ''source_message_start'')) (\<lambda>start.
              andThen (position (jget raw ''source_message_end'')) (\<lambda>stop.
              andThen (int_or env raw ''context_revision'' 0) (\<lambda>rev_no.
              andThen (int_or env raw ''generation'' 1) (\<lambda>generation.
              andThen (int_or env raw ''target_tokens'' 0) (\<lambda>target.
              andThen (int_or env raw ''estimated_tokens'' 0) (\<lambda>estimated.
              andThen (omitted_from env (jget raw ''omitted_counts'')) (\<lambda>omitted.
                mk_summary env \<lparr>sm_sources = sources, sm_requests = requests, sm_facts = facts, sm_outcomes = outcomes,
                  sm_journeys = journeys, sm_start = start, sm_end = stop, sm_revision = rev_no, sm_schema = schema,
                  sm_generation = max 1 generation, sm_target = max 0 target, sm_estimated = max 0 estimated,
                  sm_refinement = text_or env raw ''refinement'' ''none'', sm_omitted = omitted,
                  sm_combined = text_or env raw ''combined_source_hash'' [],
                  sm_hash = text_or env raw ''summary_hash'' []\<rparr>)))))))))))))"

section \<open>The sizing loop\<close>

definition prompt_tokens :: "summary_env \<Rightarrow> summary \<Rightarrow> int" where
  "prompt_tokens env s = max 1 ((utf8_length (canonical env (prompt_dict s)) + 3) div 4)"

text \<open>The rounds left, and the estimate to be written into the summary.\<close>

fun sized :: "summary_env \<Rightarrow> nat \<Rightarrow> int \<Rightarrow> summary \<Rightarrow> summary result" where
  "sized env 0 estimate s = Inl (OtherError ''AssertionError'')"
| "sized env (Suc n) estimate s =
     andThen (mk_summary env (s\<lparr>sm_estimated := estimate\<rparr>)) (\<lambda>made.
       if prompt_tokens env made = estimate \<or> n = 0 then Inr made
       else sized env n (prompt_tokens env made) s)"

definition build_sized_summary :: "summary_env \<Rightarrow> summary \<Rightarrow> summary result" where
  "build_sized_summary env s = sized env 4 0 (s\<lparr>sm_schema := STAGE_SCHEMA, sm_combined := [], sm_hash := []\<rparr>)"

section \<open>The loop reaches its fixed point\<close>

lemma utf8_append [simp]: "utf8_length (a @ b) = utf8_length a + utf8_length b"
  by (simp add: utf8_length_def)

lemma utf8_Nil [simp]: "utf8_length [] = 0"
  by (simp add: utf8_length_def)

lemma utf8_Cons: "utf8_length (c # s) = utf8_width c + utf8_length s"
  by (simp add: utf8_length_def)

lemma utf8_nonneg: "0 \<le> utf8_length s"
  by (induction s) (simp_all add: utf8_length_def utf8_width_def)

lemma utf8_ascii: "list_all (\<lambda>c. c < 128) s \<Longrightarrow> utf8_length s = int (length s)"
  by (induction s) (simp_all add: utf8_length_def utf8_width_def)

lemma utf8_join: "utf8_length (join sep xs) = sum_list (map utf8_length xs) + int (length xs - 1) * utf8_length sep"
  by (induction sep xs rule: join.induct) (simp_all add: algebra_simps)

lemma sum_list_sort: "sum_list (map f (sort_key g xs)) = sum_list (map (f :: 'a \<Rightarrow> int) xs)"
proof -
  have ins: "sum_list (map f (insort_key g x ys)) = f x + sum_list (map f ys)" for x ys by (induction ys) auto
  show ?thesis by (induction xs) (simp_all add: ins)
qed

text \<open>The encoded size of an object is the sum over its fields, whatever their order.\<close>

lemma utf8_dumps_obj:
  "utf8_length (dumps ft (JObj d)) =
     (\<Sum>(k, v)\<leftarrow>d. utf8_length (quoted k) + 1 + utf8_length (dumps ft v)) + int (length d - 1) + 2"
proof -
  have one: "utf8_length [c] = 1" if "c < 128" for c using that by (simp add: utf8_length_def utf8_width_def)
  have f: "utf8_length (dumps_field x) = utf8_length (quoted (fst x)) + 1 + utf8_length (snd x)" for x
    by (simp add: dumps_field_def one utf8_Cons utf8_width_def)
  let ?d = "map (\<lambda>(k, v). (k, dumps ft v)) d"
  have "sum_list (map utf8_length (map dumps_field (sort_key fst ?d))) = sum_list (map (utf8_length \<circ> dumps_field) (sort_key fst ?d))"
    by (simp add: comp_def)
  also have "\<dots> = sum_list (map (utf8_length \<circ> dumps_field) ?d)" by (rule sum_list_sort)
  also have "\<dots> = (\<Sum>(k, v)\<leftarrow>d. utf8_length (quoted k) + 1 + utf8_length (dumps ft v))"
    by (simp add: f comp_def case_prod_unfold)
  finally show ?thesis
    by (simp add: utf8_join one utf8_Cons utf8_width_def)
qed

definition sha_ok :: "summary_env \<Rightarrow> bool" where
  "sha_ok env \<longleftrightarrow> (\<forall>x. length (se_sha env x) = 64 \<and> list_all (\<lambda>c. plain_char c \<and> c < 128) (se_sha env x))"

lemma quoted_sha: "sha_ok env \<Longrightarrow> utf8_length (quoted (se_sha env x)) = 66"
proof -
  assume "sha_ok env"
  then have h: "length (se_sha env x) = 64" "list_all plain_char (se_sha env x)" "list_all (\<lambda>c. c < 128) (se_sha env x)"
    by (auto simp: sha_ok_def list_all_iff)
  have "quoted (se_sha env x) = [34] @ se_sha env x @ [34]" using h(2) by (rule quoted_plain)
  with h(1,3) utf8_ascii [of "se_sha env x"] show ?thesis by (simp add: utf8_Cons utf8_width_def)
qed

definition width :: "int \<Rightarrow> int" where
  "width e = int (length (dec (nat e)))"

lemma utf8_dec_int: "0 \<le> e \<Longrightarrow> utf8_length (dec_int e) = width e"
proof -
  assume "0 \<le> e"
  have "list_all (\<lambda>c. c < 128) (dec (nat e))" using set_dec [of "nat e"] by (auto simp: list_all_iff)
  with utf8_ascii show ?thesis using \<open>0 \<le> e\<close> by (simp add: dec_int_def width_def)
qed

text \<open>The size of the prompt depends on the estimate only through its number of digits.\<close>

lemma prompt_size:
  assumes "sha_ok env"
  shows "\<exists>C\<ge>0. \<forall>e\<ge>0. \<forall>made. mk_summary env (s\<lparr>sm_estimated := e\<rparr>) = Inr made \<longrightarrow>
    utf8_length (canonical env (prompt_dict made)) = C + width e"
proof -
  let ?size = "\<lambda>m. utf8_length (canonical env (prompt_dict m))"
  define base where "base = s\<lparr>sm_estimated := 0, sm_combined := combined_hash env s, sm_hash := se_sha env []\<rparr>"
  define C where "C = ?size base - width 0"
  have step: "?size made = C + width e"
    if e: "0 \<le> e" and made: "mk_summary env (s\<lparr>sm_estimated := e\<rparr>) = Inr made" for e made
  proof -
    have c: "combined_hash env (s\<lparr>sm_estimated := e\<rparr>) = combined_hash env s" by (simp add: combined_hash_def)
    from made c obtain x where m: "made = s\<lparr>sm_estimated := e, sm_combined := combined_hash env s, sm_hash := se_sha env x\<rparr>"
      by (auto simp: mk_summary_def Let_def split: if_splits)
    show ?thesis
      unfolding C_def base_def m canonical_def prompt_dict_def budget_json_def content_fields_def journey_field_def omitted_json_def
      using e by (simp add: utf8_dumps_obj quoted_sha [OF assms] utf8_dec_int del: dumps.simps(7))
  qed
  have "width 0 = 1" by (simp add: width_def dec.simps)
  moreover have "1 \<le> ?size base"
    unfolding canonical_def prompt_dict_def by (simp add: utf8_Cons utf8_width_def utf8_nonneg)
  ultimately have "0 \<le> C" by (simp add: C_def)
  with step show ?thesis by blast
qed

text \<open>Digits of a number.\<close>

lemma width_pos: "1 \<le> width e"
  using dec_nonempty [of "nat e"] by (cases "dec (nat e)") (simp_all add: width_def)

lemma less_power_width: "n < 10 ^ length (dec n)"
proof (induction n rule: dec.induct)
  case (1 n)
  then show ?case
  proof (cases "n < 10")
    case False
    with 1 have "n div 10 + 1 \<le> 10 ^ length (dec (n div 10))" by simp
    then have "10 * (n div 10 + 1) \<le> 10 ^ Suc (length (dec (n div 10)))" by (simp only: power_Suc mult_le_mono2)
    moreover have "n < 10 * (n div 10 + 1)" by simp
    ultimately have "n < 10 ^ Suc (length (dec (n div 10)))" by linarith
    with False show ?thesis by (subst dec.simps) simp
  qed (subst dec.simps, simp)
qed

lemma power_width_le: "0 < n \<Longrightarrow> 10 ^ (length (dec n) - 1) \<le> n"
proof (induction n rule: dec.induct)
  case (1 n)
  show ?case
  proof (cases "n < 10")
    case True
    with 1(2) show ?thesis by (subst dec.simps) simp
  next
    case False
    then have "10 ^ (length (dec (n div 10)) - 1) \<le> n div 10" using 1 by simp
    moreover have "length (dec (n div 10)) = Suc (length (dec (n div 10)) - 1)"
      using dec_nonempty [of "n div 10"] by (cases "dec (n div 10)") auto
    ultimately have "10 ^ length (dec (n div 10)) \<le> 10 * (n div 10)" by (metis mult_le_mono2 power_Suc)
    also have "\<dots> \<le> n" by simp
    finally show ?thesis using False by (subst dec.simps) simp
  qed
qed

lemma dec_length_mono: "m \<le> n \<Longrightarrow> length (dec m) \<le> length (dec n)"
proof (cases "m = 0")
  case True
  then show ?thesis using dec_nonempty [of n] by (cases "dec n") (simp_all add: dec.simps [of 0])
next
  case False
  assume "m \<le> n"
  have "10 ^ (length (dec m) - 1) \<le> m" using False by (intro power_width_le) simp
  also have "\<dots> < 10 ^ length (dec n)" using \<open>m \<le> n\<close> less_power_width [of n] by linarith
  finally have "length (dec m) - 1 < length (dec n)" by (simp add: power_less_imp_less_exp)
  then show ?thesis by linarith
qed

lemma width_mono: "a \<le> b \<Longrightarrow> width a \<le> width b"
  by (simp add: width_def dec_length_mono nat_mono)

lemma small_vs_power: "2 \<le> D \<Longrightarrow> D + 10 ^ (D - 1) < (10 :: nat) ^ D"
proof -
  assume "2 \<le> D"
  then obtain k where D: "D = Suc (Suc k)" by (metis Suc_le_D numeral_2_eq_2 Suc_le_mono)
  have "k < 10 ^ k" by (rule less_exp [THEN less_le_trans]) (simp add: power_mono)
  then show ?thesis by (simp add: D)
qed

text \<open>
  The estimate after a round with \<open>d\<close> digits in the text. From 0, the third estimate is a fixed
  point: it cannot have more digits than the second, since it exceeds the first by at most the
  number of digits of the second.
\<close>

definition next_estimate :: "int \<Rightarrow> int \<Rightarrow> int" where
  "next_estimate C d = max 1 ((C + d + 3) div 4)"

lemma next_estimate_mono: "d \<le> d' \<Longrightarrow> next_estimate C d \<le> next_estimate C d'"
  by (simp add: next_estimate_def zdiv_mono1 max.coboundedI2)

lemma next_estimate_grows: "1 \<le> d \<Longrightarrow> next_estimate C d \<le> next_estimate C 1 + d"
  by (simp add: next_estimate_def) presburger

lemma third_estimate_fixed:
  fixes e1 e2 e3 :: int
  assumes "e1 = next_estimate C 1" "e2 = next_estimate C (width e1)" "e3 = next_estimate C (width e2)"
  shows "next_estimate C (width e3) = e3"
proof -
  have pos: "1 \<le> e1" using assms(1) by (simp add: next_estimate_def)
  have 12: "e1 \<le> e2" unfolding assms(1,2) by (rule next_estimate_mono) (rule width_pos)
  have 23: "e2 \<le> e3" using next_estimate_mono [OF width_mono [OF 12]] assms(2,3) by simp
  have "width e3 \<le> width e2"
  proof (rule ccontr)
    assume "\<not> width e3 \<le> width e2"
    moreover have "width e1 < width e2"
    proof (rule ccontr)
      assume "\<not> width e1 < width e2"
      with width_mono [OF 12] have "width e1 = width e2" by simp
      with assms(2,3) have "e3 = e2" by simp
      with \<open>\<not> width e3 \<le> width e2\<close> show False by simp
    qed
    ultimately have w: "width e1 < width e2" "width e2 < width e3" by simp_all
    define D where "D = length (dec (nat e2))"
    have D: "2 \<le> D" "length (dec (nat e1)) \<le> D - 1" "D \<le> length (dec (nat e3)) - 1"
      using w width_pos [of e1] by (simp_all add: D_def width_def)
    have "nat e1 < 10 ^ (D - 1)"
      by (rule less_le_trans [OF less_power_width power_increasing [OF D(2)]]) simp
    moreover have "10 ^ D \<le> nat e3"
      by (rule le_trans [OF power_increasing [OF D(3)] power_width_le]) (use pos 12 23 in simp_all)
    moreover have "e3 \<le> e1 + int D"
      using next_estimate_grows [of "width e2" C] width_pos [of e2] assms(1,3) by (simp add: D_def width_def)
    then have "nat e3 \<le> nat e1 + D" using pos by simp
    ultimately show False using small_vs_power [OF D(1)] by linarith
  qed
  with width_mono [OF 23] have "width e3 = width e2" by simp
  with assms(3) show ?thesis by simp
qed

lemma div_minus_minus_4: "- (- n div 4) = (n + 3) div (4 :: int)"
  by presburger

lemma mk_summary_fresh:
  "sm_combined s = [] \<Longrightarrow> sm_hash s = [] \<Longrightarrow> \<exists>made. mk_summary env s = Inr made \<and> sm_estimated made = sm_estimated s \<and>
     sm_sources made = sm_sources s \<and> sm_facts made = sm_facts s \<and> sm_journeys made = sm_journeys s"
  by (simp add: mk_summary_def Let_def)

lemma counted_prompt: "lc_tokens (count_tokens (canonical env) (Other (prompt_dict s)) name) = prompt_tokens env s"
proof -
  have "canonical env (prompt_dict s) \<noteq> []" by (simp add: canonical_def prompt_dict_def)
  moreover have "\<lceil>(of_int n :: rat) / 4\<rceil> = (n + 3) div 4" for n
    using ceiling_divide_eq_div [of n 4, where 'a = rat] div_minus_minus_4 [of n] by simp
  ultimately show ?thesis by (simp add: count_tokens_def prompt_tokens_def Let_def)
qed

text \<open>The sizing loop never fails and the token count written into a summary is exactly the count of
  the text that contains it: four rounds always suffice.\<close>

lemma sized_exact:
  assumes "sha_ok env"
  shows "\<exists>made. build_sized_summary env s = Inr made \<and> sm_estimated made = prompt_tokens env made \<and>
    sm_sources made = sm_sources s \<and> sm_facts made = sm_facts s \<and> sm_journeys made = sm_journeys s"
proof -
  let ?s = "s\<lparr>sm_schema := STAGE_SCHEMA, sm_combined := [], sm_hash := []\<rparr>"
  obtain C where C: "\<And>e made. 0 \<le> e \<Longrightarrow> mk_summary env (?s\<lparr>sm_estimated := e\<rparr>) = Inr made \<Longrightarrow>
      utf8_length (canonical env (prompt_dict made)) = C + width e"
    using prompt_size [OF assms, of ?s] by blast
  have ex: "\<exists>made. mk_summary env (?s\<lparr>sm_estimated := e\<rparr>) = Inr made \<and> sm_estimated made = e \<and>
      prompt_tokens env made = next_estimate C (width e) \<and>
      sm_sources made = sm_sources s \<and> sm_facts made = sm_facts s \<and> sm_journeys made = sm_journeys s" if "0 \<le> e" for e
  proof -
    obtain made where m: "mk_summary env (?s\<lparr>sm_estimated := e\<rparr>) = Inr made" "sm_estimated made = e"
      "sm_sources made = sm_sources s" "sm_facts made = sm_facts s" "sm_journeys made = sm_journeys s"
      using mk_summary_fresh [of "?s\<lparr>sm_estimated := e\<rparr>" env] by auto
    with C [OF that m(1)] show ?thesis by (simp add: prompt_tokens_def next_estimate_def)
  qed
  define e1 where "e1 = next_estimate C 1"
  define e2 where "e2 = next_estimate C (width e1)"
  define e3 where "e3 = next_estimate C (width e2)"
  have pos: "0 \<le> e1" "0 \<le> e2" "0 \<le> e3" by (simp_all add: e1_def e2_def e3_def next_estimate_def)
  have w0: "next_estimate C (width 0) = e1" by (simp add: e1_def width_def dec.simps)
  note fix3 = third_estimate_fixed [OF e1_def e2_def e3_def]
  from ex [of 0] w0 obtain m0 where m0: "mk_summary env (?s\<lparr>sm_estimated := 0\<rparr>) = Inr m0" "sm_estimated m0 = 0"
    "prompt_tokens env m0 = e1" "sm_sources m0 = sm_sources s" "sm_facts m0 = sm_facts s" "sm_journeys m0 = sm_journeys s" by auto
  from ex [OF pos(1)] obtain m1 where m1: "mk_summary env (?s\<lparr>sm_estimated := e1\<rparr>) = Inr m1" "sm_estimated m1 = e1"
    "prompt_tokens env m1 = e2" "sm_sources m1 = sm_sources s" "sm_facts m1 = sm_facts s" "sm_journeys m1 = sm_journeys s"
    by (auto simp: e2_def)
  from ex [OF pos(2)] obtain m2 where m2: "mk_summary env (?s\<lparr>sm_estimated := e2\<rparr>) = Inr m2" "sm_estimated m2 = e2"
    "prompt_tokens env m2 = e3" "sm_sources m2 = sm_sources s" "sm_facts m2 = sm_facts s" "sm_journeys m2 = sm_journeys s"
    by (auto simp: e3_def)
  from ex [OF pos(3)] fix3 obtain m3 where m3: "mk_summary env (?s\<lparr>sm_estimated := e3\<rparr>) = Inr m3" "sm_estimated m3 = e3"
    "prompt_tokens env m3 = e3" "sm_sources m3 = sm_sources s" "sm_facts m3 = sm_facts s" "sm_journeys m3 = sm_journeys s" by auto
  have 4: "(4 :: nat) = Suc (Suc (Suc (Suc 0)))" by simp
  show ?thesis
    unfolding build_sized_summary_def 4 using m0 m1 m2 m3 by auto
qed

section \<open>A longer refinement text\<close>

text \<open>The compactor may build a summary a second time with another refinement text: the estimate then grows by
  a bounded amount.\<close>

lemma width_Suc: "0 \<le> a \<Longrightarrow> width (a + 1) \<le> width a + 1"
proof -
  assume "0 \<le> a"
  then have a: "nat (a + 1) = Suc (nat a)" by simp
  have "10 ^ (length (dec (Suc (nat a))) - 1) \<le> Suc (nat a)" by (rule power_width_le) simp
  also have "\<dots> \<le> 10 ^ length (dec (nat a))" using less_power_width [of "nat a"] by (simp only: Suc_le_eq)
  finally have "length (dec (Suc (nat a))) - 1 \<le> length (dec (nat a))" by (rule power_le_imp_le_exp [rotated]) simp
  then show ?thesis by (simp add: width_def a)
qed

lemma width_add: "0 \<le> a \<Longrightarrow> width (a + int k) \<le> width a + int k"
proof (induction k)
  case (Suc k)
  with width_Suc [of "a + int k"] show ?case by (simp add: algebra_simps)
qed simp

lemma width_small_step:
  assumes "1 \<le> a" "a \<le> b" "b \<le> a + 9"
  shows "width b \<le> width a + 1"
proof -
  have "10 ^ (length (dec (nat b)) - 1) \<le> nat b" using assms by (intro power_width_le) simp
  also have "nat b \<le> nat a + 9" using assms by simp
  also have "\<dots> < 10 ^ length (dec (nat a)) + 9" using less_power_width [of "nat a"] by simp
  also have "\<dots> \<le> 10 ^ Suc (length (dec (nat a)))" using one_le_power [of "10 :: nat" "length (dec (nat a))"] by simp
  finally have "length (dec (nat b)) - 1 < Suc (length (dec (nat a)))" by (rule power_less_imp_less_exp [rotated]) simp
  then show ?thesis by (simp add: width_def)
qed

lemma fixed_points_close:
  assumes "a = next_estimate C (width a)" "b = next_estimate (C + d) (width b)" "0 \<le> C" "d \<le> 23"
  shows "b \<le> a + 6"
proof (rule ccontr)
  assume far: "\<not> b \<le> a + 6"
  have "next_estimate C (width a) \<le> a" using assms(1) by linarith
  then have "(C + width a + 3) div 4 \<le> a" "1 \<le> a" by (simp_all add: next_estimate_def)
  then have a: "1 \<le> a" "C + width a \<le> 4 * a" by presburger+
  from far a have "1 < b" by linarith
  with assms(2) have "b = (C + d + width b + 3) div 4" by (simp add: next_estimate_def max_def split: if_splits)
  then have b: "4 * b \<le> C + d + width b + 3" by presburger
  have "width b \<le> width a + (b - a)" using width_add [of a "nat (b - a)"] a far by simp
  with a b assms(4) have "b \<le> a + 8" by linarith
  with width_small_step [of a b] a far have "width b \<le> width a + 1" by simp
  with a b assms(4) far show False by linarith
qed

lemma summary_body_hashes: "summary_body c (s\<lparr>sm_combined := x, sm_hash := y\<rparr>) = summary_body c s"
  by (simp add: summary_body_def content_fields_def journey_field_def omitted_json_def)

lemma mk_summary_made:
  assumes "mk_summary env s = Inr m"
  shows "mk_summary env m = Inr m" "m = s\<lparr>sm_combined := combined_hash env s, sm_hash := sm_hash m\<rparr>"
    "sm_hash m = se_sha env (canonical env (summary_body (sm_combined m) m))" "sm_combined m = combined_hash env m"
proof -
  from assms have m: "m = s\<lparr>sm_combined := combined_hash env s, sm_hash := se_sha env (canonical env (summary_body (combined_hash env s) s))\<rparr>"
    by (auto simp: mk_summary_def Let_def split: if_splits)
  have c: "combined_hash env m = combined_hash env s" by (simp add: combined_hash_def m)
  show cm: "sm_combined m = combined_hash env m" unfolding c by (simp add: m)
  show "m = s\<lparr>sm_combined := combined_hash env s, sm_hash := sm_hash m\<rparr>" by (simp add: m)
  show h: "sm_hash m = se_sha env (canonical env (summary_body (sm_combined m) m))" by (simp add: m summary_body_hashes)
  show "mk_summary env m = Inr m" by (simp add: mk_summary_def Let_def flip: cm h)
qed

lemma fixed_points_apart:
  assumes "a = next_estimate C (width a)" "b = next_estimate (C + 23) (width b)" "0 \<le> C"
  shows "a + 5 \<le> b"
proof -
  have "a \<le> 1 \<or> a \<le> (C + width a + 3) div 4" "(C + 23 + width b + 3) div 4 \<le> b"
    using assms(1,2) unfolding next_estimate_def by linarith+
  then have b: "C + 23 + width b \<le> 4 * b" "6 \<le> b" and a: "a \<le> 1 \<or> 4 * a \<le> C + width a + 3"
    using width_pos [of b] assms(3) by presburger+
  from a show ?thesis
  proof
    assume a: "4 * a \<le> C + width a + 3"
    show ?thesis
    proof (cases "a \<le> b")
      case True
      then have "width a \<le> width b" by (rule width_mono)
      with a b show ?thesis by linarith
    next
      case False
      then have "width a \<le> width b + (a - b)" using width_add [of b "nat (a - b)"] b by simp
      with a b False show ?thesis by linarith
    qed
  qed (use b in linarith)
qed

lemma mk_estimated: "mk_summary env s = Inr m \<Longrightarrow> sm_estimated m = sm_estimated s"
  by (auto simp: mk_summary_def Let_def split: if_splits)

lemma made_form:
  "mk_summary env (s\<lparr>sm_estimated := e\<rparr>) = Inr m \<Longrightarrow>
   \<exists>x. m = s\<lparr>sm_estimated := e, sm_combined := combined_hash env s, sm_hash := se_sha env x\<rparr>"
  by (auto simp: mk_summary_def Let_def combined_hash_def split: if_splits)

lemma width_le: "1 \<le> e \<Longrightarrow> width e \<le> e"
  using width_add [of 1 "nat (e - 1)"] by (simp add: width_def dec.simps)

lemma sized_made:
  assumes "sized env n e s = Inr m"
  shows "mk_summary env (s\<lparr>sm_estimated := sm_estimated m\<rparr>) = Inr m"
proof -
  from assms have "\<exists>e'. mk_summary env (s\<lparr>sm_estimated := e'\<rparr>) = Inr m"
    by (induction env n e s rule: sized.induct) (auto simp: result_simps split: if_splits)
  then show ?thesis using mk_estimated by fastforce
qed

lemma prompt_diff:
  assumes "sha_ok env" "0 \<le> e" "0 \<le> e'" "mk_summary env (s\<lparr>sm_estimated := e\<rparr>) = Inr a"
    "mk_summary env (s\<lparr>sm_refinement := r, sm_estimated := e'\<rparr>) = Inr b"
  shows "utf8_length (canonical env (prompt_dict b)) + utf8_length (quoted (sm_refinement s)) + width e =
    utf8_length (canonical env (prompt_dict a)) + utf8_length (quoted r) + width e'"
proof -
  have c: "combined_hash env (s\<lparr>sm_estimated := e\<rparr>) = combined_hash env s"
    "combined_hash env (s\<lparr>sm_refinement := r, sm_estimated := e'\<rparr>) = combined_hash env s" by (simp_all add: combined_hash_def)
  from assms(4,5) c obtain x y where
    "a = s\<lparr>sm_estimated := e, sm_combined := combined_hash env s, sm_hash := se_sha env x\<rparr>"
    "b = s\<lparr>sm_refinement := r, sm_estimated := e', sm_combined := combined_hash env s, sm_hash := se_sha env y\<rparr>"
    by (auto simp: mk_summary_def Let_def split: if_splits)
  then show ?thesis
    unfolding canonical_def prompt_dict_def budget_json_def content_fields_def journey_field_def omitted_json_def
    using assms(2,3) by (simp add: utf8_dumps_obj quoted_sha [OF assms(1)] utf8_dec_int combined_hash_def del: dumps.simps(7))
qed

lemma refined_estimate:
  assumes sha: "sha_ok env" and a: "build_sized_summary env s = Inr a"
    and b: "build_sized_summary env (s\<lparr>sm_refinement := r\<rparr>) = Inr b"
    and r: "utf8_length (quoted r) = utf8_length (quoted (sm_refinement s)) + 23"
  shows "sm_estimated a + 5 \<le> sm_estimated b" "sm_estimated b \<le> sm_estimated a + 6"
proof -
  let ?s = "s\<lparr>sm_schema := STAGE_SCHEMA, sm_combined := [], sm_hash := []\<rparr>"
  have est: "sm_estimated a = prompt_tokens env a" "sm_estimated b = prompt_tokens env b"
    using sized_exact [OF sha, of s] sized_exact [OF sha, of "s\<lparr>sm_refinement := r\<rparr>"] a b by auto
  then have pos: "0 \<le> sm_estimated a" "0 \<le> sm_estimated b" by (simp_all add: prompt_tokens_def)
  from sized_made [OF a [unfolded build_sized_summary_def]] have
    ma: "mk_summary env (?s\<lparr>sm_estimated := sm_estimated a\<rparr>) = Inr a" by simp
  have swap: "?s\<lparr>sm_refinement := r, sm_estimated := e\<rparr> = s\<lparr>sm_refinement := r, sm_schema := STAGE_SCHEMA,
    sm_combined := [], sm_hash := [], sm_estimated := e\<rparr>" for e by simp
  from sized_made [OF b [unfolded build_sized_summary_def]] have
    mb: "mk_summary env (?s\<lparr>sm_refinement := r, sm_estimated := sm_estimated b\<rparr>) = Inr b" by (simp add: swap)
  obtain C where C: "0 \<le> C" "utf8_length (canonical env (prompt_dict a)) = C + width (sm_estimated a)"
    using prompt_size [OF sha, of ?s] ma pos by blast
  from prompt_diff [OF sha pos ma mb] C(2) r have
    D: "utf8_length (canonical env (prompt_dict b)) = C + 23 + width (sm_estimated b)" by simp
  have fp: "sm_estimated a = next_estimate C (width (sm_estimated a))"
    "sm_estimated b = next_estimate (C + 23) (width (sm_estimated b))"
    using est C D by (simp_all add: prompt_tokens_def next_estimate_def)
  show "sm_estimated a + 5 \<le> sm_estimated b" by (rule fixed_points_apart [OF fp C(1)])
  show "sm_estimated b \<le> sm_estimated a + 6" by (rule fixed_points_close [OF fp C(1)]) simp
qed

section \<open>Reading back what was written\<close>

lemma mk_segment_made:
  "mk_segment env s = Inr m \<Longrightarrow> mk_segment env m = Inr m \<and> fs_hash m = se_sha env (fs_content m) \<and> fs_created m = fs_created s"
  by (auto simp: mk_segment_def Let_def split: if_splits)

lemma list_all_snd: "list_all (\<lambda>(k, n). P n) d \<Longrightarrow> mapR (\<lambda>(k, n). if P n then Inr (k, n) else e) d = Inr d"
  by (induction d) (auto split: if_splits)

lemma read_omitted: "list_all (\<lambda>(k, n). 0 \<le> n) d \<Longrightarrow> omitted_from env (JObj (map (\<lambda>(k, n). (k, JInt n)) d)) = Inr d"
  by (induction d) (auto simp: omitted_from_def py_int_def)

lemma read_sources: "mapR (source_entry env) (filter is_obj (list_items (sources_json ss))) = Inr ss"
  by (induction ss) (auto simp: sources_json_def source_entry_def jhas_def jget_def text_of_def)

lemma read_texts: "map (text_of env) (map JStr xs) = xs"
  by (simp add: text_of_def comp_def)

lemma obj_items_JObj: "map obj_items (map JObj ds) = ds"
  by (induction ds) auto

lemma read_dicts: "map obj_items (filter is_obj (map JObj ds)) = ds"
  by (induction ds) auto

lemma read_position: "position (opt_int x) = Inr x"
  by (cases x) (simp_all add: opt_int_def)

text \<open>What may be stored: a known schema and counts that are not negative.\<close>

definition storable :: "summary \<Rightarrow> bool" where
  "storable s \<longleftrightarrow> sm_schema s \<in> set KNOWN_SCHEMAS \<and> 1 \<le> sm_generation s \<and> 0 \<le> sm_target s \<and> 0 \<le> sm_estimated s \<and>
     list_all (\<lambda>(k, n). 0 \<le> n) (sm_omitted s)"

lemma segment_eta [simp]: "\<lparr>fs_id = fs_id m, fs_content = fs_content m, fs_start = fs_start m, fs_end = fs_end m,
    fs_revision = fs_revision m, fs_hash = fs_hash m, fs_type = fs_type m, fs_created = fs_created m\<rparr> = m"
  by simp

lemma summary_eta [simp]: "\<lparr>sm_sources = sm_sources m, sm_requests = sm_requests m, sm_facts = sm_facts m,
    sm_outcomes = sm_outcomes m, sm_journeys = sm_journeys m, sm_start = sm_start m, sm_end = sm_end m,
    sm_revision = sm_revision m, sm_schema = sm_schema m, sm_generation = sm_generation m, sm_target = sm_target m,
    sm_estimated = sm_estimated m, sm_refinement = sm_refinement m, sm_omitted = sm_omitted m,
    sm_combined = sm_combined m, sm_hash = sm_hash m\<rparr> = m"
  by simp

lemma segment_reads_back:
  assumes "mk_segment env s = Inr m" "fs_created s \<noteq> []"
  shows "segment_from_dict env now (segment_dict m) = Inr m"
proof -
  from mk_segment_made [OF assms(1)] assms(2) have "mk_segment env m = Inr m" "fs_created m \<noteq> []" by simp_all
  then show ?thesis
    by (simp add: segment_from_dict_def segment_dict_def jhas_def jget_def get_or_def text_or_def int_or_def
        text_of_def py_int_def read_position Let_def)
qed

lemma jget_field: "map_of d (u k) = Some v \<Longrightarrow> jget (JObj d) k = v" "map_of d (u k) = Some v \<Longrightarrow> jhas (JObj d) k"
  by (simp_all add: jget_def jhas_def)

lemma summary_fields:
  "jget (summary_dict s) ''content'' = JObj (content_fields s @ journey_field s)"
  "jget (summary_dict s) ''source_segments'' = sources_json (sm_sources s)"
  "jget (summary_dict s) ''source_message_start'' = opt_int (sm_start s)"
  "jget (summary_dict s) ''source_message_end'' = opt_int (sm_end s)"
  "jget (summary_dict s) ''omitted_counts'' = omitted_json s"
  "text_or env (summary_dict s) ''schema_version'' d = sm_schema s"
  "text_or env (summary_dict s) ''refinement'' d = sm_refinement s"
  "text_or env (summary_dict s) ''combined_source_hash'' d = sm_combined s"
  "text_or env (summary_dict s) ''summary_hash'' d = sm_hash s"
  "int_or env (summary_dict s) ''context_revision'' n = Inr (sm_revision s)"
  "int_or env (summary_dict s) ''generation'' n = Inr (sm_generation s)"
  "int_or env (summary_dict s) ''target_tokens'' n = Inr (sm_target s)"
  "int_or env (summary_dict s) ''estimated_tokens'' n = Inr (sm_estimated s)"
  by (simp_all add: summary_dict_def jget_def get_or_def jhas_def text_or_def int_or_def text_of_def py_int_def)

lemma body_fields:
  "texts_at env (JObj (content_fields s @ journey_field s)) ''user_requests'' = Inr (sm_requests s)"
  "texts_at env (JObj (content_fields s @ journey_field s)) ''assistant_outcomes'' = Inr (sm_outcomes s)"
  "dicts_at (JObj (content_fields s @ journey_field s)) ''tool_facts'' = Inr (sm_facts s)"
  "dicts_at (JObj (content_fields s @ journey_field s)) ''shopping_journeys'' = Inr (sm_journeys s)"
  by (simp_all add: content_fields_def journey_field_def texts_at_def dicts_at_def jget_def strs_def read_texts read_dicts
      obj_items_JObj del: map_map)

lemma summary_reads_back:
  assumes "mk_summary env s = Inr m" "storable m"
  shows "summary_from_dict env (summary_dict m) = Inr m"
proof -
  from assms(2) have "omitted_from env (omitted_json m) = Inr (sm_omitted m)" "max 1 (sm_generation m) = sm_generation m"
    "max 0 (sm_target m) = sm_target m" "max 0 (sm_estimated m) = sm_estimated m" "sm_schema m \<in> set KNOWN_SCHEMAS"
    by (simp_all add: storable_def omitted_json_def read_omitted)
  then show ?thesis
    by (simp add: summary_from_dict_def summary_fields body_fields read_sources read_position Let_def
        mk_summary_made(1) [OF assms(1)] sources_json_def [THEN arg_cong [of _ _ is_jlist]])
qed

section \<open>The properties\<close>

text \<open>C38: the sizing loop of a stage summary always ends with a summary (its four rounds are enough, for every
  content), and the token count written into that summary is exactly the count of the prompt text that
  contains it; the sources, facts and journeys are the ones given. SHA-256 digests are 64 ASCII characters.\<close>

theorem summary_estimate_exact:
  assumes "sha_ok env"
  shows "\<exists>made. build_sized_summary env s = Inr made \<and>
    lc_tokens (count_tokens (canonical env) (Other (prompt_dict made)) name) = sm_estimated made \<and>
    sm_sources made = sm_sources s \<and> sm_facts made = sm_facts s \<and> sm_journeys made = sm_journeys s"
  using sized_exact [OF assms, of s] by (auto simp: counted_prompt)

text \<open>Also: a segment and a summary that were built by their constructors are read back unchanged from the
  dictionaries stored for them, with their hashes checked on the way.\<close>

theorem stored_records_round_trip:
  assumes "mk_segment env g = Inr g'" "fs_created g \<noteq> []" "mk_summary env s = Inr s'" "storable s'"
  shows "segment_from_dict env now (segment_dict g') = Inr g' \<and> summary_from_dict env (summary_dict s') = Inr s'"
  using segment_reads_back [OF assms(1,2)] summary_reads_back [OF assms(3,4)] by blast

text \<open>Also: a summary that is read from a dictionary carries the hash of its own content: a stored hash that is
  not empty was compared with it, so a changed request, fact, journey or source list with the old
  hash is refused unless SHA-256 collides.\<close>

theorem stored_hash_verified:
  assumes "summary_from_dict env raw = Inr m"
  shows "sm_hash m = se_sha env (canonical env (summary_body (sm_combined m) m)) \<and> sm_combined m = combined_hash env m \<and>
    text_or env raw ''summary_hash'' [] \<in> {[], sm_hash m} \<and> text_or env raw ''combined_source_hash'' [] \<in> {[], sm_combined m}"
proof -
  from assms obtain s where s: "mk_summary env s = Inr m" "sm_hash s = text_or env raw ''summary_hash'' []"
    "sm_combined s = text_or env raw ''combined_source_hash'' []"
    by (auto simp: summary_from_dict_def result_simps Let_def split: if_splits)
  then have "sm_hash s \<in> {[], sm_hash m} \<and> sm_combined s \<in> {[], sm_combined m}"
    by (auto simp: mk_summary_def Let_def split: if_splits)
  with s mk_summary_made [OF s(1)] show ?thesis by simp
qed

section \<open>Concrete instances\<close>

definition ex_senv :: summary_env where
  "ex_senv = \<lparr>se_repr = ex_repr, se_float = ex_float, se_sha = (\<lambda>t. replicate 64 97), se_str = (\<lambda>v. u ''?''),
     se_int = (\<lambda>t. Inl (ValueError ''int'')), se_lower = (\<lambda>t. t), se_state = (\<lambda>r. u ''success''),
     rx_journey_start = (\<lambda>t. False), rx_recovery_probe = (\<lambda>t. False), rx_replacement = (\<lambda>t. False),
     rx_semantic = (\<lambda>t. t), rx_platform = (\<lambda>t. (None, None)), rx_budget = (\<lambda>t. (None, None)),
     rx_anchor = (\<lambda>t. None), rx_decision = (\<lambda>t. [])\<rparr>"

definition ex_raw_segment :: segment where
  "ex_raw_segment = \<lparr>fs_id = u ''frozen-0-3'', fs_content = u ''{}'', fs_start = Some 0, fs_end = Some 3, fs_revision = 1,
     fs_hash = [], fs_type = u ''interaction'', fs_created = u ''2026''\<rparr>"

definition ex_raw_summary :: summary where
  "ex_raw_summary = \<lparr>sm_sources = [(u ''frozen-0-3'', replicate 64 97)], sm_requests = [], sm_facts = [], sm_outcomes = [],
     sm_journeys = [[(u ''request'', JStr (u ''shoes''))]], sm_start = Some 0, sm_end = Some 3, sm_revision = 1,
     sm_schema = STAGE_SCHEMA, sm_generation = 1, sm_target = 8000, sm_estimated = 0, sm_refinement = u ''none'',
     sm_omitted = [(u ''duplicate_structured_outputs'', 2)], sm_combined = [], sm_hash = []\<rparr>"

lemma ex_fresh: "sm_combined ex_raw_summary = []" "sm_hash ex_raw_summary = []"
  by (simp_all add: ex_raw_summary_def)

lemma ex_sha: "sha_ok ex_senv"
  by (simp add: sha_ok_def ex_senv_def plain_char_def list_all_iff)

theorem summary_estimate_exact_witness:
  "sha_ok ex_senv \<and> (\<exists>made. build_sized_summary ex_senv ex_raw_summary = Inr made \<and>
     lc_tokens (count_tokens (canonical ex_senv) (Other (prompt_dict made)) []) = sm_estimated made)"
  using ex_sha summary_estimate_exact [OF ex_sha, of ex_raw_summary "[]"] by blast

theorem stored_records_round_trip_witness:
  "\<exists>g s. mk_segment ex_senv ex_raw_segment = Inr g \<and> segment_from_dict ex_senv [] (segment_dict g) = Inr g \<and>
     mk_summary ex_senv ex_raw_summary = Inr s \<and> summary_from_dict ex_senv (summary_dict s) = Inr s"
proof -
  obtain g where g: "mk_segment ex_senv ex_raw_segment = Inr g" by (simp add: mk_segment_def ex_raw_segment_def)
  obtain s where s: "mk_summary ex_senv ex_raw_summary = Inr s" using mk_summary_fresh [OF ex_fresh] by blast
  have "fs_created ex_raw_segment \<noteq> []" by (simp add: ex_raw_segment_def)
  moreover have "storable s" by (subst mk_summary_made(2) [OF s]) (simp add: storable_def ex_raw_summary_def KNOWN_SCHEMAS_def)
  ultimately show ?thesis using stored_records_round_trip [OF g _ s] g s by blast
qed

theorem stored_hash_verified_witness:
  "\<exists>raw m. summary_from_dict ex_senv raw = Inr m \<and> sm_hash m = se_sha ex_senv (canonical ex_senv (summary_body (sm_combined m) m))"
proof -
  obtain s where s: "mk_summary ex_senv ex_raw_summary = Inr s" using mk_summary_fresh [OF ex_fresh] by blast
  have "storable s" by (subst mk_summary_made(2) [OF s]) (simp add: storable_def ex_raw_summary_def KNOWN_SCHEMAS_def)
  from summary_reads_back [OF s this] stored_hash_verified show ?thesis by blast
qed

end
