(* ===== verification/Compactor.thy ===== *)
theory Compactor
  imports Summaries
begin

text \<open>
  \<open>app/application/context/compactor.py\<close>: freezing complete interaction units into segments (L2) and
  aggregating segments into one stage summary of shopping journeys and tool facts (L3). Dictionaries
  are association lists; what the code recognises by regular expressions comes from the environment.
\<close>

section \<open>Bounds\<close>

definition MAX_TEXT :: nat where "MAX_TEXT = 2000"
definition MAX_SUMMARY_REFS :: nat where "MAX_SUMMARY_REFS = 20"
definition MAX_JOURNEY_REQUEST :: nat where "MAX_JOURNEY_REQUEST = 320"
definition MAX_JOURNEY_FOCUS :: nat where "MAX_JOURNEY_FOCUS = 160"
definition SEARCH_TOOLS :: "pystr list" where "SEARCH_TOOLS = [u ''product_search_tool'']"
definition STRUCTURED_OUTPUT_TOOLS :: "pystr list" where "STRUCTURED_OUTPUT_TOOLS = [u ''generatestructuredoutput'']"

definition message_text :: "msg \<Rightarrow> pystr" where
  "message_text m = take MAX_TEXT (m_text m)"

text \<open>The same bounds as in the reducer, from depth 0.\<close>

definition fact_bounded :: "json \<Rightarrow> json" where
  "fact_bounded v = Reducer.bounded 0 v"

definition load_result :: "summary_env \<Rightarrow> pystr \<Rightarrow> json result" where
  "load_result env s = (case Json_Parse.loads (se_float env) s of None \<Rightarrow> Inl (ValueError ''json'') | Some v \<Rightarrow> Inr v)"

section \<open>Tool results\<close>

definition REF_KEYS :: "string list" where
  "REF_KEYS = [''product_id'', ''sku_id'', ''order_id'', ''confirmation_id'']"

definition row_refs :: "summary_env \<Rightarrow> json \<Rightarrow> pystr list" where
  "row_refs env row = map (\<lambda>k. text_of env (jget row k)) [k \<leftarrow> REF_KEYS. present (jget row k)]"

fun as_int :: "json \<Rightarrow> int option" where
  "as_int (JInt i) = Some i"
| "as_int (JBool b) = Some (if b then 1 else 0)"
| "as_int v = None"

definition result_count :: "json \<Rightarrow> string option \<Rightarrow> int option" where
  "result_count parsed rows_key =
     (case List.find (\<lambda>k. as_int (jget parsed k) \<noteq> None) [''returned_count'', ''hit_count'', ''count''] of
        Some k \<Rightarrow> as_int (jget parsed k)
      | None \<Rightarrow> (case rows_key of
          None \<Rightarrow> None
        | Some k \<Rightarrow> if k = ''filtered_out'' then None else Some (int (length (list_items (jget parsed k))))))"

definition result_summary :: "summary_env \<Rightarrow> result_block \<Rightarrow> pystr \<times> int option \<times> pystr list" where
  "result_summary env r =
     (let text = py_strip (rb_output r);
          parsed = (case load_result env text of Inl e \<Rightarrow> JStr text | Inr v \<Rightarrow> v)
      in if \<not> is_obj parsed then (se_state env (rb_state r), None, [])
         else let st = (if truthy (jget parsed ''error'') then u ''error'' else se_state env (rb_state r));
                  rows_key = List.find (\<lambda>k. is_jlist (jget parsed k)) [''hits'', ''filtered_out'', ''items'', ''lines''];
                  rows = (case rows_key of None \<Rightarrow> [] | Some k \<Rightarrow> list_items (jget parsed k));
                  refs = concat (map (row_refs env) [row \<leftarrow> rows. is_obj row]) @ row_refs env parsed
              in (st, result_count parsed rows_key, take MAX_SUMMARY_REFS (dedup refs)))"

section \<open>Freezing\<close>

definition frozen_fact :: "summary_env \<Rightarrow> tool_interaction \<Rightarrow> json" where
  "frozen_fact env ti =
     (case result_summary env (ti_result ti) of (st, count, refs) \<Rightarrow>
        JObj ([(u ''tool'', JStr (ti_name ti)), (u ''tool_call_id'', JStr (ti_call_id ti)),
               (u ''args'', fact_bounded (ti_args ti)), (u ''status'', JStr st)]
          @ (case count of None \<Rightarrow> [] | Some n \<Rightarrow> [(u ''returned_count'', JInt n)])
          @ (if refs = [] then [] else [(u ''refs'', strs refs)])))"

definition frozen_content :: "summary_env \<Rightarrow> unit_record \<Rightarrow> msg \<Rightarrow> json" where
  "frozen_content env un answer = JObj
     ([(u ''user'', JStr (message_text (u_human un))), (u ''tools'', JList (map (frozen_fact env) (u_tools un))),
       (u ''assistant'', JStr (message_text answer))]
      @ (if u_status un \<noteq> u ''completed'' then [(u ''outcome'', JStr (u_status un))] else []))"

definition segment_id_of :: "nat \<Rightarrow> nat \<Rightarrow> pystr" where
  "segment_id_of a b = u ''frozen-'' @ dec a @ u ''-'' @ dec b"

text \<open>\<open>now\<close> is the default of \<open>created_at\<close>.\<close>

definition compact_interaction :: "summary_env \<Rightarrow> pystr \<Rightarrow> int \<Rightarrow> unit_record \<Rightarrow> segment result" where
  "compact_interaction env now rev_no un =
     (if \<not> u_complete un \<or> u_final un = None then Inl (ValueError ''only complete units can be frozen'')
      else mk_segment env \<lparr>fs_id = segment_id_of (u_start un) (u_end un),
        fs_content = canonical env (frozen_content env un (the (u_final un))),
        fs_start = Some (int (u_start un)), fs_end = Some (int (u_end un)), fs_revision = rev_no,
        fs_hash = [], fs_type = u ''interaction'', fs_created = now\<rparr>)"

fun freeze_units :: "summary_env \<Rightarrow> pystr \<Rightarrow> int \<Rightarrow> unit_record list \<Rightarrow> segment list \<Rightarrow> int \<Rightarrow> (segment list \<times> int) result" where
  "freeze_units env now rev_no [] segs cursor = Inr (segs, cursor)"
| "freeze_units env now rev_no (un # us) segs cursor =
     (if int (u_end un) \<le> cursor then freeze_units env now rev_no us segs cursor
      else if int (u_start un) \<noteq> cursor then Inr (segs, cursor)
      else if list_ex (\<lambda>s. fs_start s = Some (int (u_start un)) \<and> fs_end s = Some (int (u_end un))) segs
      then freeze_units env now rev_no us segs (int (u_end un))
      else andThen (compact_interaction env now rev_no un) (\<lambda>seg.
             freeze_units env now rev_no us (segs @ [seg]) (int (u_end un))))"

definition freeze_settled_units :: "summary_env \<Rightarrow> pystr \<Rightarrow> unit_record list \<Rightarrow> segment list \<Rightarrow> int \<Rightarrow> int \<Rightarrow>
    (segment list \<times> int) result" where
  "freeze_settled_units env now us existing freeze_cursor rev_no =
     andThen (freeze_units env now rev_no us existing (max 0 freeze_cursor)) (\<lambda>(segs, cursor).
       Inr (segs, max freeze_cursor cursor))"

section \<open>Facts of a summary\<close>

text \<open>\<open>re.sub(r"[^a-z]", "", tool.lower())\<close>\<close>

definition is_structured_output_fact :: "summary_env \<Rightarrow> json \<Rightarrow> bool" where
  "is_structured_output_fact env fct \<longleftrightarrow>
     [c \<leftarrow> se_lower env (text_of env (get_or fct ''tool'' (JStr []))). 97 \<le> c \<and> c \<le> 122] \<in> set STRUCTURED_OUTPUT_TOOLS"

definition is_search_fact :: "summary_env \<Rightarrow> json \<Rightarrow> bool" where
  "is_search_fact env fct \<longleftrightarrow>
     (let tool = text_of env (get_or fct ''tool'' (JStr []))
      in tool \<in> set SEARCH_TOOLS \<or> tool = u ''task_dispatch'' \<and> is_obj (jget fct ''args'') \<and>
         text_of env (get_or (jget fct ''args'') ''subagent_type'' (JStr [])) = u ''search_agent'')"

definition tool_call_ids :: "summary_env \<Rightarrow> json \<Rightarrow> pystr list" where
  "tool_call_ids env v = dedup
     ((if present (jget v ''tool_call_id'') then [text_of env (jget v ''tool_call_id'')] else [])
      @ map (text_of env) [x \<leftarrow> list_items (jget v ''tool_call_ids''). present x])"

definition SUMMARY_ARGS :: "pystr list" where
  "SUMMARY_ARGS = map u [''normalized_query'', ''category'', ''platform'', ''site_locale'', ''ship_to'',
     ''target_currency'', ''price_max_major'', ''top_k'', ''order_id'', ''product_id'', ''sku_id'', ''quantity'',
     ''reason'', ''subagent_type'']"

definition compact_summary_fact :: "summary_env \<Rightarrow> json \<Rightarrow> jdict option" where
  "compact_summary_fact env raw =
     (if is_structured_output_fact env raw then None
      else let args = [(k, fact_bounded v). (k, v) \<leftarrow> obj_items (jget raw ''args''), k \<in> set SUMMARY_ARGS \<and> present v];
               ids = tool_call_ids env raw
           in Some ([(u ''tool'', JStr (text_of env (get_or raw ''tool'' (JStr [])))),
                     (u ''status'', JStr (text_of env (get_or raw ''status'' (JStr []))))]
              @ (if args = [] then [] else [(u ''args'', JObj args)])
              @ (case as_int (jget raw ''returned_count'') of None \<Rightarrow> [] | Some n \<Rightarrow> [(u ''returned_count'', JInt n)])
              @ (if is_jlist (jget raw ''refs'')
                 then [(u ''refs'', strs (map (text_of env) (take MAX_SUMMARY_REFS (list_items (jget raw ''refs'')))))] else [])
              @ (if ids = [] then [] else [(u ''tool_call_ids'', strs ids)])))"

definition IDENTITY_KEYS :: "string list" where
  "IDENTITY_KEYS = [''order_id'', ''confirmation_id'', ''sku_id'', ''product_id'', ''preference_id'']"

definition canonical_tool :: "summary_env \<Rightarrow> json \<Rightarrow> pystr" where
  "canonical_tool env v = canonical env (JObj [(k, w) \<leftarrow> obj_items v. k \<notin> set [u ''tool_call_id'', u ''tool_call_ids'']])"

definition tool_state_key :: "summary_env \<Rightarrow> json \<Rightarrow> pystr" where
  "tool_state_key env v =
     (let args = jget v ''args'';
          identity = concat (map (\<lambda>k. if present (jget args k) then [(u k, jget args k)]
                       else if present (jget v k) then [(u k, jget v k)] else []) IDENTITY_KEYS);
          identity' = (if identity = [] \<and> list_items (jget v ''refs'') \<noteq> [] then [(u ''refs'', jget v ''refs'')] else identity)
      in if identity' \<noteq> [] then canonical env (JObj [(u ''tool'', jget v ''tool''), (u ''identity'', JObj identity')])
         else canonical_tool env v)"

section \<open>Shopping journeys\<close>

definition SEARCH_FIELDS :: "string list" where
  "SEARCH_FIELDS = [''normalized_query'', ''category'', ''platform'', ''site_locale'', ''target_currency'', ''price_max_major'']"

definition search_field_step :: "json \<Rightarrow> jdict \<Rightarrow> jdict" where
  "search_field_step fct found = fold (\<lambda>k d. if present (jget (jget fct ''args'') k)
     then AList.update (u k) (fact_bounded (jget (jget fct ''args'') k)) d else d) SEARCH_FIELDS found"

definition fact_search_fields :: "summary_env \<Rightarrow> json list \<Rightarrow> jdict" where
  "fact_search_fields env facts =
     (let hits = [f \<leftarrow> facts. is_search_fact env f]; found = fold search_field_step hits [];
          refs = concat (map (\<lambda>f. map (text_of env) [x \<leftarrow> list_items (jget f ''refs''). present x]) hits)
      in if refs = [] then found else AList.update (u ''product_refs'') (strs (take 5 (dedup refs))) found)"

definition put_if :: "bool \<Rightarrow> string \<Rightarrow> json \<Rightarrow> jdict \<Rightarrow> jdict" where
  "put_if b k v d = (if b then AList.update (u k) v d else d)"

definition or_json :: "json \<Rightarrow> pystr option \<Rightarrow> json" where
  "or_json v t = (if truthy v then v else opt_str t)"

definition new_journey :: "summary_env \<Rightarrow> pystr \<Rightarrow> nat \<Rightarrow> int option \<Rightarrow> int option \<Rightarrow> json list \<Rightarrow> pystr \<Rightarrow> jdict" where
  "new_journey env req index start authored facts assistant =
     (let (platform, site) = rx_platform env req; (budget, currency) = rx_budget env req;
          search = fact_search_fields env facts; found = dict_get search;
          effective_platform = or_json (found ''platform'') platform;
          effective_site = or_json (found ''site_locale'') site;
          effective_budget = (if present (found ''price_max_major'') then found ''price_max_major''
            else case budget of None \<Rightarrow> JNull | Some b \<Rightarrow> b);
          effective_currency = or_json (found ''target_currency'') currency;
          anchor = rx_anchor env assistant; decided = rx_decision env assistant
      in (put_if (decided \<noteq> []) ''decision'' (JStr decided)
         \<circ> put_if (anchor \<noteq> None) ''anchor_product'' (the anchor)
         \<circ> put_if (truthy (found ''product_refs'')) ''product_refs'' (found ''product_refs'')
         \<circ> put_if (truthy effective_currency) ''currency'' effective_currency
         \<circ> put_if (effective_budget \<noteq> JNull) ''budget_max_major'' effective_budget
         \<circ> put_if (truthy effective_site) ''site_locale'' effective_site
         \<circ> put_if (truthy effective_platform) ''platform'' effective_platform
         \<circ> put_if (present (found ''category'')) ''category'' (found ''category'')
         \<circ> put_if (present (found ''normalized_query'')) ''normalized_query'' (found ''normalized_query'')
         \<circ> put_if (authored \<noteq> None) ''authored_turn_end'' (opt_int authored)
         \<circ> put_if (authored \<noteq> None) ''authored_turn_start'' (opt_int authored)
         \<circ> put_if (start \<noteq> None) ''source_message_start'' (opt_int start))
        [(u ''journey_id'', JStr (u ''journey-'' @ dec (index + 1))),
         (u ''request'', JStr (take MAX_JOURNEY_REQUEST (rx_semantic env req)))])"

definition continue_journey :: "summary_env \<Rightarrow> pystr \<Rightarrow> int option \<Rightarrow> json list \<Rightarrow> pystr \<Rightarrow> jdict \<Rightarrow> jdict" where
  "continue_journey env req authored facts assistant current =
     (let focus = take MAX_JOURNEY_FOCUS (rx_semantic env req);
          (platform, site) = rx_platform env req; (budget, currency) = rx_budget env req;
          search = fact_search_fields env facts; anchor = rx_anchor env assistant; decided = rx_decision env assistant;
          focuses = list_items (dict_get current ''focus'')
      in (put_if (decided \<noteq> []) ''decision'' (JStr decided)
         \<circ> put_if (anchor \<noteq> None) ''anchor_product'' (the anchor)
         \<circ> put_if (truthy (dict_get search ''product_refs'')) ''product_refs'' (dict_get search ''product_refs'')
         \<circ> put_if (focus \<noteq> []) ''focus''
             (JList (if JStr focus \<in> set focuses then focuses else focuses @ [JStr focus]))
         \<circ> put_if (site \<noteq> None \<and> site \<noteq> Some []) ''site_locale'' (opt_str site)
         \<circ> put_if (platform \<noteq> None \<and> platform \<noteq> Some []) ''platform'' (opt_str platform)
         \<circ> put_if (currency \<noteq> None \<and> currency \<noteq> Some []) ''currency'' (opt_str currency)
         \<circ> put_if (budget \<noteq> None) ''budget_max_major'' (the budget)
         \<circ> put_if (rx_replacement env req) ''request'' (JStr (take MAX_JOURNEY_REQUEST (rx_semantic env req)))
         \<circ> put_if (authored \<noteq> None) ''authored_turn_end'' (opt_int authored)) current)"

definition merge_journey_turn :: "summary_env \<Rightarrow> pystr \<Rightarrow> int option \<Rightarrow> int option \<Rightarrow> json list \<Rightarrow> pystr \<Rightarrow> bool \<Rightarrow>
    jdict list \<Rightarrow> jdict list" where
  "merge_journey_turn env req start authored facts assistant force_new journeys =
     (if force_new \<or> rx_journey_start env req \<or> journeys = []
      then journeys @ [new_journey env req (length journeys) start authored facts assistant]
      else butlast journeys @ [continue_journey env req authored facts assistant (last journeys)])"

definition legacy_journeys :: "summary_env \<Rightarrow> summary \<Rightarrow> jdict list" where
  "legacy_journeys env s = fold (\<lambda>(i, req) js.
     if rx_recovery_probe env req then js
     else merge_journey_turn env req (Some (2 * int i)) None []
            (if i < length (sm_outcomes s) then sm_outcomes s ! i else []) False js)
     (enumerate 0 (sm_requests s)) []"

section \<open>Aggregating segments\<close>

text \<open>\<open>fact_keys\<close> is the index of the fact of each state key, \<open>authored\<close> the last business turn number.\<close>

record aggregate =
  ag_sources :: "(pystr \<times> pystr) list"
  ag_journeys :: "jdict list"
  ag_facts :: "jdict list"
  ag_keys :: "(pystr, nat) dict"
  ag_ignored :: int
  ag_authored :: "int option"
  ag_starts :: "int list"
  ag_ends :: "int list"
  ag_revisions :: "int list"
  ag_added :: bool

text \<open>A later fact of the same state key replaces the earlier one and inherits its call identifiers.\<close>

definition insert_fact :: "summary_env \<Rightarrow> jdict \<Rightarrow> aggregate \<Rightarrow> aggregate" where
  "insert_fact env fct ag =
     (let key = tool_state_key env (JObj fct)
      in case map_of (ag_keys ag) key of
           None \<Rightarrow> ag\<lparr>ag_facts := ag_facts ag @ [fct], ag_keys := AList.update key (length (ag_facts ag)) (ag_keys ag)\<rparr>
         | Some i \<Rightarrow>
             (let ids = dedup (tool_call_ids env (JObj (ag_facts ag ! i)) @ tool_call_ids env (JObj fct))
              in ag\<lparr>ag_facts := (ag_facts ag)[i := put_if (ids \<noteq> []) ''tool_call_ids'' (strs ids) fct]\<rparr>))"

text \<open>The facts of one segment; what is no object raises, structured outputs are counted.\<close>

fun absorb_facts :: "summary_env \<Rightarrow> json list \<Rightarrow> jdict list \<Rightarrow> aggregate \<Rightarrow> (jdict list \<times> aggregate) result" where
  "absorb_facts env [] own ag = Inr (own, ag)"
| "absorb_facts env (raw # rest) own ag =
     (if \<not> is_obj raw then Inl (TypeError ''invalid frozen tool fact'')
      else case compact_summary_fact env raw of
        None \<Rightarrow> absorb_facts env rest own (ag\<lparr>ag_ignored := ag_ignored ag + 1\<rparr>)
      | Some fct \<Rightarrow> absorb_facts env rest (own @ [fct]) (insert_fact env fct ag))"

definition absorb_turn :: "summary_env \<Rightarrow> segment \<Rightarrow> pystr \<Rightarrow> pystr \<Rightarrow> jdict list \<Rightarrow> aggregate \<Rightarrow> aggregate" where
  "absorb_turn env seg user assistant own ag =
     (if rx_recovery_probe env user then ag
      else let authored = map_option (\<lambda>n. n + 1) (ag_authored ag)
           in ag\<lparr>ag_authored := authored,
               ag_journeys := merge_journey_turn env user (fs_start seg) authored (map JObj own) assistant
                 (list_ex (\<lambda>f. is_search_fact env (JObj f)) own) (ag_journeys ag)\<rparr>)"

definition or_empty_text :: "summary_env \<Rightarrow> json \<Rightarrow> pystr" where
  "or_empty_text env v = (if truthy v then text_of env v else [])"

definition opt_list :: "'a option \<Rightarrow> 'a list" where
  "opt_list x = (case x of None \<Rightarrow> [] | Some y \<Rightarrow> [y])"

definition absorb_segment :: "summary_env \<Rightarrow> segment \<Rightarrow> aggregate \<Rightarrow> aggregate result" where
  "absorb_segment env seg ag =
     (case map_of (rev (ag_sources ag)) (fs_id seg) of
        Some h \<Rightarrow> if h \<noteq> fs_hash seg then Inl (ValueError ''frozen segment hash changed'') else Inr ag
      | None \<Rightarrow>
          (case Json_Parse.loads (se_float env) (fs_content seg) of
             None \<Rightarrow> Inl (ValueError ''invalid frozen segment JSON'')
           | Some v \<Rightarrow>
               (case jget v ''user'' of
                  JStr user \<Rightarrow>
                    if truthy (jget v ''tools'') \<and> \<not> is_jlist (jget v ''tools'') then Inl (TypeError ''tools'')
                    else andThen (absorb_facts env (list_items (jget v ''tools'')) [] ag) (\<lambda>(own, ag1).
                      let ag2 = absorb_turn env seg user (or_empty_text env (jget v ''assistant'')) own ag1
                      in Inr (ag2\<lparr>ag_sources := ag_sources ag2 @ [(fs_id seg, fs_hash seg)], ag_added := True,
                           ag_starts := ag_starts ag2 @ opt_list (fs_start seg), ag_ends := ag_ends ag2 @ opt_list (fs_end seg),
                           ag_revisions := ag_revisions ag2 @ [fs_revision seg]\<rparr>))
                | _ \<Rightarrow> Inl (TypeError ''frozen segment lacks original user request''))))"

fun absorb :: "summary_env \<Rightarrow> segment list \<Rightarrow> aggregate \<Rightarrow> aggregate result" where
  "absorb env [] ag = Inr ag"
| "absorb env (seg # segs) ag = andThen (absorb_segment env seg ag) (absorb env segs)"

text \<open>The last authored turn of a journey.\<close>

definition journey_turn :: "summary_env \<Rightarrow> jdict \<Rightarrow> int result" where
  "journey_turn env j =
     (let v = (if truthy (dict_get j ''authored_turn_end'') then dict_get j ''authored_turn_end''
               else dict_get j ''authored_turn_start'')
      in if truthy v then py_int (se_int env) v else Inr 0)"

definition start_facts :: "summary_env \<Rightarrow> summary \<Rightarrow> jdict list \<times> int" where
  "start_facts env s = (List.map_filter (\<lambda>f. compact_summary_fact env (JObj f)) (sm_facts s),
     int (length [f \<leftarrow> sm_facts s. compact_summary_fact env (JObj f) = None]))"

definition fact_index :: "summary_env \<Rightarrow> jdict list \<Rightarrow> (pystr, nat) dict" where
  "fact_index env facts = fold (\<lambda>(i, f). AList.update (tool_state_key env (JObj f)) i) (enumerate 0 facts) []"

definition empty_aggregate :: aggregate where
  "empty_aggregate = \<lparr>ag_sources = [], ag_journeys = [], ag_facts = [], ag_keys = [], ag_ignored = 0,
     ag_authored = Some 0, ag_starts = [], ag_ends = [], ag_revisions = [], ag_added = False\<rparr>"

definition start_aggregate :: "summary_env \<Rightarrow> summary option \<Rightarrow> aggregate result" where
  "start_aggregate env current =
     (case current of
        None \<Rightarrow> Inr empty_aggregate
      | Some s \<Rightarrow>
          (let (facts, ignored) = start_facts env s;
               js = (if sm_journeys s \<noteq> [] then sm_journeys s else legacy_journeys env s)
           in andThen (if sm_journeys s = [] then Inr None
                       else andThen (mapR (journey_turn env) js) (\<lambda>ns. Inr (Some (fold max (tl ns) (hd ns))))) (\<lambda>authored.
              Inr \<lparr>ag_sources = sm_sources s, ag_journeys = js, ag_facts = facts, ag_keys = fact_index env facts,
                ag_ignored = ignored, ag_authored = authored, ag_starts = opt_list (sm_start s),
                ag_ends = opt_list (sm_end s), ag_revisions = [sm_revision s], ag_added = False\<rparr>)))"

definition list_min :: "int list \<Rightarrow> int option" where
  "list_min xs = (case xs of [] \<Rightarrow> None | x # r \<Rightarrow> Some (fold min r x))"

definition list_max :: "int list \<Rightarrow> int option" where
  "list_max xs = (case xs of [] \<Rightarrow> None | x # r \<Rightarrow> Some (fold max r x))"

definition aggregate_summary :: "aggregate \<Rightarrow> int \<Rightarrow> int \<Rightarrow> string \<Rightarrow> summary" where
  "aggregate_summary ag generation target refinement =
     \<lparr>sm_sources = ag_sources ag, sm_requests = [], sm_facts = ag_facts ag, sm_outcomes = [],
      sm_journeys = ag_journeys ag, sm_start = list_min (ag_starts ag), sm_end = list_max (ag_ends ag),
      sm_revision = (case list_max (ag_revisions ag) of None \<Rightarrow> 0 | Some r \<Rightarrow> r), sm_schema = STAGE_SCHEMA,
      sm_generation = generation, sm_target = target, sm_estimated = 0, sm_refinement = u refinement,
      sm_omitted = [(u ''duplicate_structured_outputs'', ag_ignored ag)], sm_combined = [], sm_hash = []\<rparr>"

definition AGGREGATED :: string where "AGGREGATED = ''semantic_journey_aggregation''"
definition UNMET :: string where "UNMET = ''semantic_journey_target_unmet_but_within_hard_limit''"

definition next_generation :: "summary option \<Rightarrow> int" where
  "next_generation current = (case current of None \<Rightarrow> 1 | Some c \<Rightarrow> sm_generation c + 1)"

definition summarize_frozen_segments :: "summary_env \<Rightarrow> segment list \<Rightarrow> summary option \<Rightarrow> int \<Rightarrow> int \<Rightarrow> summary result" where
  "summarize_frozen_segments env segs current target hard =
     (if target \<le> 0 \<or> hard \<le> 0 then Inl (ValueError ''summary token limits must be positive'')
      else if target > hard then Inl (ValueError ''summary target cannot exceed hard limit'')
      else andThen (andThen (start_aggregate env current) (absorb env segs)) (\<lambda>ag.
        if ag_sources ag = [] then Inl (ValueError ''at least one frozen segment is required for L3'')
        else if current \<noteq> None \<and> \<not> ag_added ag then Inr (the current)
        else andThen (build_sized_summary env (aggregate_summary ag (next_generation current) target AGGREGATED)) (\<lambda>candidate.
               if sm_estimated candidate \<le> target then Inr candidate
               else if sm_estimated candidate > hard then Inl (RuntimeError ''SummaryBudgetError'')
               else build_sized_summary env (aggregate_summary ag (next_generation current) target UNMET))))"

section \<open>Freezing keeps up with the settled prefix\<close>

fun contiguous :: "int \<Rightarrow> unit_record list \<Rightarrow> bool" where
  "contiguous c [] = True"
| "contiguous c (x # xs) = (int (u_start x) = c \<and> u_start x < u_end x \<and> contiguous (int (u_end x)) xs)"

definition end_of :: "int \<Rightarrow> unit_record list \<Rightarrow> int" where
  "end_of c us = (if us = [] then c else int (u_end (last us)))"

lemma settle_contiguous: "contiguous c (settle c xs) \<and> list_all u_complete (settle c xs) \<and> set (settle c xs) \<subseteq> set xs"
  by (induction c xs rule: settle.induct) auto

lemma settled_units:
  assumes "settled_prefix ld ms cursor p i hot = Inr us"
  shows "contiguous (max 0 cursor) us \<and> (\<forall>un\<in>set us. u_complete un \<and> u_final un \<noteq> None)"
proof -
  have final: "u_final un \<noteq> None" if "un \<in> set (group_units ld ms)" "u_complete un" for un
    using that build_unit_complete by (auto simp: group_units_def Let_def)
  consider "us = []" | n where "us = settle (max 0 cursor) (take n (group_units ld ms))"
    using assms by (auto simp: settled_prefix_def Let_def split: if_splits)
  then show ?thesis
  proof cases
    case 2
    with settle_contiguous [of "max 0 cursor" "take n (group_units ld ms)"] final show ?thesis
      by (auto simp: list_all_iff dest!: in_set_takeD)
  qed simp
qed

lemma compact_interaction_ok:
  "u_complete un \<Longrightarrow> u_final un \<noteq> None \<Longrightarrow> \<exists>seg. compact_interaction env now r un = Inr seg \<and>
     fs_start seg = Some (int (u_start un)) \<and> fs_end seg = Some (int (u_end un)) \<and> fs_hash seg = se_sha env (fs_content seg)"
  by (simp add: compact_interaction_def mk_segment_def Let_def)

definition holds_unit :: "segment list \<Rightarrow> unit_record \<Rightarrow> bool" where
  "holds_unit segs un \<longleftrightarrow> (\<exists>s\<in>set segs. fs_start s = Some (int (u_start un)) \<and> fs_end s = Some (int (u_end un)))"

lemma freeze_contiguous:
  "\<lbrakk>contiguous c us; \<forall>un\<in>set us. u_complete un \<and> u_final un \<noteq> None\<rbrakk> \<Longrightarrow>
   \<exists>new. freeze_units env now r us segs c = Inr (segs @ new, end_of c us) \<and> (\<forall>un\<in>set us. holds_unit (segs @ new) un) \<and>
     (\<forall>s\<in>set new. \<exists>un\<in>set us. compact_interaction env now r un = Inr s)"
proof (induction us arbitrary: c segs)
  case (Cons un us)
  let ?e = "int (u_end un)"
  from Cons.prems have run: "\<not> ?e \<le> c" "int (u_start un) = c" "contiguous ?e us" by auto
  have last: "end_of ?e us = end_of c (un # us)" by (simp add: end_of_def)
  show ?case
  proof (cases "holds_unit segs un")
    case True
    from Cons.IH [OF run(3)] Cons.prems(2) obtain new where new:
      "freeze_units env now r us segs ?e = Inr (segs @ new, end_of ?e us)" "\<forall>x\<in>set us. holds_unit (segs @ new) x"
      "\<forall>s\<in>set new. \<exists>x\<in>set us. compact_interaction env now r x = Inr s" by (meson list.set_intros(2))
    with True run last show ?thesis by (intro exI [of _ new]) (auto simp: holds_unit_def list_ex_iff)
  next
    case False
    from Cons.prems(2) compact_interaction_ok obtain seg where seg: "compact_interaction env now r un = Inr seg"
      "fs_start seg = Some (int (u_start un))" "fs_end seg = Some ?e" by (meson list.set_intros(1))
    from Cons.IH [OF run(3), of "segs @ [seg]"] Cons.prems(2) obtain new where new:
      "freeze_units env now r us (segs @ [seg]) ?e = Inr ((segs @ [seg]) @ new, end_of ?e us)"
      "\<forall>x\<in>set us. holds_unit ((segs @ [seg]) @ new) x"
      "\<forall>s\<in>set new. \<exists>x\<in>set us. compact_interaction env now r x = Inr s" by (meson list.set_intros(2))
    with False run last seg show ?thesis
      by (intro exI [of _ "seg # new"]) (auto simp: holds_unit_def list_ex_iff)
  qed
qed (simp add: end_of_def)

section \<open>Aggregation keeps the manifest\<close>

lemma insert_fact_keeps: "ag_sources (insert_fact env f ag) = ag_sources ag \<and> ag_added (insert_fact env f ag) = ag_added ag"
  by (simp add: insert_fact_def Let_def split: option.split)

lemma absorb_facts_keeps:
  "absorb_facts env raws own ag = Inr (own', ag') \<Longrightarrow> ag_sources ag' = ag_sources ag \<and> ag_added ag' = ag_added ag"
  by (induction env raws own ag rule: absorb_facts.induct)
    (auto simp: insert_fact_keeps split: if_splits option.splits)

definition pair_of :: "segment \<Rightarrow> pystr \<times> pystr" where
  "pair_of seg = (fs_id seg, fs_hash seg)"

lemma absorb_segment_cases:
  assumes "absorb_segment env seg ag = Inr ag'"
  shows "ag' = ag \<and> pair_of seg \<in> set (ag_sources ag) \<or>
    fs_id seg \<notin> fst ` set (ag_sources ag) \<and> ag_sources ag' = ag_sources ag @ [pair_of seg] \<and> ag_added ag'"
proof (cases "map_of (rev (ag_sources ag)) (fs_id seg)")
  case (Some h)
  with assms have "ag' = ag" "h = fs_hash seg" by (auto simp: absorb_segment_def split: if_splits)
  with map_of_SomeD [OF Some] show ?thesis by (simp add: pair_of_def)
next
  case None
  then have new: "fs_id seg \<notin> fst ` set (ag_sources ag)" by (simp add: map_of_eq_None_iff)
  from assms None obtain v usr where v: "Json_Parse.loads (se_float env) (fs_content seg) = Some v" "jget v ''user'' = JStr usr"
    by (auto simp: absorb_segment_def split: option.splits json.splits)
  with assms None obtain own ag1 where a: "absorb_facts env (list_items (jget v ''tools'')) [] ag = Inr (own, ag1)"
    and "ag' = (let ag2 = absorb_turn env seg usr (or_empty_text env (jget v ''assistant'')) own ag1
       in ag2\<lparr>ag_sources := ag_sources ag2 @ [(fs_id seg, fs_hash seg)], ag_added := True,
          ag_starts := ag_starts ag2 @ opt_list (fs_start seg), ag_ends := ag_ends ag2 @ opt_list (fs_end seg),
          ag_revisions := ag_revisions ag2 @ [fs_revision seg]\<rparr>)"
    by (auto simp: absorb_segment_def result_simps Let_def split: if_splits)
  with absorb_facts_keeps [OF a] new show ?thesis by (simp add: Let_def absorb_turn_def pair_of_def)
qed

lemma absorb_manifest:
  "absorb env segs ag = Inr ag' \<Longrightarrow> \<exists>new. ag_sources ag' = ag_sources ag @ new \<and> set new \<subseteq> pair_of ` set segs \<and>
     pair_of ` set segs \<subseteq> set (ag_sources ag') \<and> (distinct (map fst (ag_sources ag)) \<longrightarrow> distinct (map fst (ag_sources ag'))) \<and>
     (ag_added ag' \<longleftrightarrow> ag_added ag \<or> new \<noteq> [])"
proof (induction segs arbitrary: ag)
  case (Cons seg segs)
  then obtain ag1 where 1: "absorb_segment env seg ag = Inr ag1" "absorb env segs ag1 = Inr ag'"
    by (auto simp: result_simps)
  from Cons.IH [OF 1(2)] obtain new where new: "ag_sources ag' = ag_sources ag1 @ new" "set new \<subseteq> pair_of ` set segs"
    "pair_of ` set segs \<subseteq> set (ag_sources ag')" "distinct (map fst (ag_sources ag1)) \<longrightarrow> distinct (map fst (ag_sources ag'))"
    "ag_added ag' \<longleftrightarrow> ag_added ag1 \<or> new \<noteq> []" by blast
  from absorb_segment_cases [OF 1(1)] show ?case
  proof
    assume "ag1 = ag \<and> pair_of seg \<in> set (ag_sources ag)"
    with new show ?thesis by (intro exI [of _ new]) auto
  next
    assume *: "fs_id seg \<notin> fst ` set (ag_sources ag) \<and> ag_sources ag1 = ag_sources ag @ [pair_of seg] \<and> ag_added ag1"
    then have "distinct (map fst (ag_sources ag)) \<longrightarrow> distinct (map fst (ag_sources ag1))" by (simp add: pair_of_def)
    with * new show ?thesis by (intro exI [of _ "pair_of seg # new"]) auto
  qed
qed simp

lemma absorb_new:
  "absorb env segs ag = Inr ag' \<Longrightarrow> distinct (map fs_id segs) \<Longrightarrow>
   ag_sources ag' = ag_sources ag @ map pair_of [s \<leftarrow> segs. fs_id s \<notin> fst ` set (ag_sources ag)]"
proof (induction segs arbitrary: ag)
  case (Cons seg segs)
  from Cons.prems(1) obtain ag1 where 1: "absorb_segment env seg ag = Inr ag1" "absorb env segs ag1 = Inr ag'"
    by (auto simp: result_simps)
  have ih: "ag_sources ag' = ag_sources ag1 @ map pair_of [s \<leftarrow> segs. fs_id s \<notin> fst ` set (ag_sources ag1)]"
    using Cons.IH [OF 1(2)] Cons.prems(2) by simp
  from absorb_segment_cases [OF 1(1)] show ?case
  proof
    assume *: "ag1 = ag \<and> pair_of seg \<in> set (ag_sources ag)"
    then have "fs_id seg \<in> fst ` set (ag_sources ag)" by (force simp: pair_of_def)
    with ih * show ?thesis by simp
  next
    assume *: "fs_id seg \<notin> fst ` set (ag_sources ag) \<and> ag_sources ag1 = ag_sources ag @ [pair_of seg] \<and> ag_added ag1"
    have "[s \<leftarrow> segs. fs_id s \<notin> fst ` set (ag_sources ag1)] = [s \<leftarrow> segs. fs_id s \<notin> fst ` set (ag_sources ag)]"
      using * Cons.prems(2) by (intro filter_cong refl) (auto simp: pair_of_def image_iff)
    with ih * show ?thesis by simp
  qed
qed simp

lemma absorb_added: "absorb env segs ag = Inr ag' \<Longrightarrow> ag_added ag' \<longleftrightarrow> ag_added ag \<or> ag_sources ag' \<noteq> ag_sources ag"
  using absorb_manifest [of env segs ag ag'] by auto

definition old_sources :: "summary option \<Rightarrow> (pystr \<times> pystr) list" where
  "old_sources current = (case current of None \<Rightarrow> [] | Some s \<Rightarrow> sm_sources s)"

lemma start_aggregate_ok:
  "start_aggregate env current = Inr ag \<Longrightarrow> ag_sources ag = old_sources current \<and> \<not> ag_added ag"
  by (auto simp: start_aggregate_def old_sources_def empty_aggregate_def result_simps Let_def split: option.splits prod.splits if_splits)

lemma aggregate_refined:
  "aggregate_summary ag g t r = (aggregate_summary ag g t r')\<lparr>sm_refinement := u r\<rparr>"
  by (simp add: aggregate_summary_def)

lemma refinement_length: "utf8_length (quoted (u UNMET)) = utf8_length (quoted (u AGGREGATED)) + 23"
  by (simp add: UNMET_def AGGREGATED_def quoted_def u_def utf8_Cons utf8_width_def escape_char_def)

text \<open>The two builds of one aggregation: both succeed, and the second is 5 or 6 tokens larger.\<close>

lemma two_builds:
  assumes "sha_ok env"
  shows "\<exists>a b. build_sized_summary env (aggregate_summary ag g t AGGREGATED) = Inr a \<and>
    build_sized_summary env (aggregate_summary ag g t UNMET) = Inr b \<and> sm_sources a = ag_sources ag \<and>
    sm_sources b = ag_sources ag \<and> sm_estimated a = prompt_tokens env a \<and> sm_estimated b = prompt_tokens env b \<and>
    sm_estimated a + 5 \<le> sm_estimated b \<and> sm_estimated b \<le> sm_estimated a + 6"
proof -
  let ?a = "aggregate_summary ag g t AGGREGATED" and ?b = "aggregate_summary ag g t UNMET"
  obtain a where a: "build_sized_summary env ?a = Inr a" "sm_estimated a = prompt_tokens env a" "sm_sources a = ag_sources ag"
    using sized_exact [OF assms, of ?a] by (auto simp: aggregate_summary_def)
  obtain b where b: "build_sized_summary env ?b = Inr b" "sm_estimated b = prompt_tokens env b" "sm_sources b = ag_sources ag"
    using sized_exact [OF assms, of ?b] by (auto simp: aggregate_summary_def)
  have "?b = ?a\<lparr>sm_refinement := u UNMET\<rparr>" by (rule aggregate_refined)
  moreover have "sm_refinement ?a = u AGGREGATED" by (simp add: aggregate_summary_def)
  ultimately show ?thesis
    using refined_estimate [OF assms a(1), of "u UNMET" b] a b refinement_length by auto
qed

text \<open>What a call returns, from the aggregation of its segments.\<close>

lemma summarize_eq:
  assumes "andThen (start_aggregate env current) (absorb env segs) = Inr ag" "0 < target" "target \<le> hard" "ag_sources ag \<noteq> []"
  shows "summarize_frozen_segments env segs current target hard =
    (if current \<noteq> None \<and> \<not> ag_added ag then Inr (the current)
     else andThen (build_sized_summary env (aggregate_summary ag (next_generation current) target AGGREGATED)) (\<lambda>candidate.
       if sm_estimated candidate \<le> target then Inr candidate
       else if sm_estimated candidate > hard then Inl (RuntimeError ''SummaryBudgetError'')
       else build_sized_summary env (aggregate_summary ag (next_generation current) target UNMET)))"
  using assms by (simp add: summarize_frozen_segments_def)

lemma summarize_inputs:
  assumes "summarize_frozen_segments env segs current target hard = Inr s"
  obtains ag0 ag where "0 < target" "target \<le> hard" "start_aggregate env current = Inr ag0" "absorb env segs ag0 = Inr ag"
    "ag_sources ag \<noteq> []"
  using assms by (auto simp: summarize_frozen_segments_def result_simps split: if_splits)

text \<open>The sources of a result, and its size.\<close>

lemma summarize_result:
  assumes sha: "sha_ok env" and ok: "summarize_frozen_segments env segs current target hard = Inr s"
  obtains ag0 ag where "start_aggregate env current = Inr ag0" "absorb env segs ag0 = Inr ag" "sm_sources s = ag_sources ag"
    "current = Some s \<or> (current = None \<or> ag_added ag) \<and> sm_estimated s = prompt_tokens env s \<and> sm_estimated s \<le> hard + 6"
proof -
  from ok obtain ag0 ag where lim: "0 < target" "target \<le> hard" and ag: "start_aggregate env current = Inr ag0"
    "absorb env segs ag0 = Inr ag" and ne: "ag_sources ag \<noteq> []" by (rule summarize_inputs)
  from ag have all: "andThen (start_aggregate env current) (absorb env segs) = Inr ag" by simp
  from two_builds [OF sha, of ag "next_generation current" target] obtain a b where
    a: "build_sized_summary env (aggregate_summary ag (next_generation current) target AGGREGATED) = Inr a"
      "sm_sources a = ag_sources ag" "sm_estimated a = prompt_tokens env a" and
    b: "build_sized_summary env (aggregate_summary ag (next_generation current) target UNMET) = Inr b"
      "sm_sources b = ag_sources ag" "sm_estimated b = prompt_tokens env b" "sm_estimated b \<le> sm_estimated a + 6" by blast
  have eq: "summarize_frozen_segments env segs current target hard =
      (if current \<noteq> None \<and> \<not> ag_added ag then Inr (the current)
       else if sm_estimated a \<le> target then Inr a
       else if sm_estimated a > hard then Inl (RuntimeError ''SummaryBudgetError'') else Inr b)"
    unfolding summarize_eq [OF all lim ne] a(1) b(1) by simp
  show ?thesis
  proof (cases "current \<noteq> None \<and> \<not> ag_added ag")
    case True
    then obtain c where c: "current = Some c" by auto
    with True eq ok have "s = c" by simp
    moreover have "ag_sources ag = sm_sources c"
      using absorb_added [OF ag(2)] start_aggregate_ok [OF ag(1)] True c by (simp add: old_sources_def)
    ultimately show ?thesis using c by (intro that [OF ag]) simp_all
  next
    case False
    with eq ok have "s = a \<and> sm_estimated a \<le> target \<or> s = b \<and> sm_estimated a \<le> hard" by (auto split: if_splits)
    with a b lim False show ?thesis by (intro that [OF ag]) auto
  qed
qed

text \<open>C30: a summary that the compactor returns accounts for every segment it was given: its source manifest is
  the old manifest followed by the segments that were not in it, in their order, each with its
  identifier and hash, so no interaction is dropped and none is counted twice. When nothing is new it
  is the old summary itself; else its token count is exact and at most 6 above the hard limit.\<close>

theorem summarize_accounts_for_all:
  assumes "sha_ok env" "summarize_frozen_segments env segs current target hard = Inr s" "distinct (map fs_id segs)"
  shows "sm_sources s = old_sources current @ map pair_of [g \<leftarrow> segs. fs_id g \<notin> fst ` set (old_sources current)] \<and>
    pair_of ` set segs \<subseteq> set (sm_sources s) \<and>
    (current = Some s \<or> sm_estimated s = prompt_tokens env s \<and> sm_estimated s \<le> hard + 6)"
proof -
  from assms(1,2) obtain ag0 ag where ag: "start_aggregate env current = Inr ag0" "absorb env segs ag0 = Inr ag"
    "sm_sources s = ag_sources ag" "current = Some s \<or> (current = None \<or> ag_added ag) \<and>
      sm_estimated s = prompt_tokens env s \<and> sm_estimated s \<le> hard + 6" by (rule summarize_result)
  with absorb_new [OF ag(2) assms(3)] absorb_manifest [OF ag(2)] start_aggregate_ok [OF ag(1)] show ?thesis by auto
qed

text \<open>Also: the hard limit is not kept: when the first summary fits the hard limit by less than 5 tokens but not the
  target, the summary that is returned exceeds the hard limit, because it is built again with a longer
  refinement text after the comparison.\<close>

theorem hard_limit_overshoot:
  assumes "sha_ok env" "andThen (start_aggregate env current) (absorb env segs) = Inr ag" "ag_sources ag \<noteq> []"
    "current = None \<or> ag_added ag" "0 < target"
    "build_sized_summary env (aggregate_summary ag (next_generation current) target AGGREGATED) = Inr c"
    "target < sm_estimated c" "sm_estimated c \<le> hard" "hard < sm_estimated c + 5"
  shows "\<exists>s. summarize_frozen_segments env segs current target hard = Inr s \<and> hard < sm_estimated s \<and> sm_estimated s = prompt_tokens env s"
proof -
  from two_builds [OF assms(1), of ag "next_generation current" target] assms(6) obtain b where
    b: "build_sized_summary env (aggregate_summary ag (next_generation current) target UNMET) = Inr b"
      "sm_estimated b = prompt_tokens env b" "sm_estimated c + 5 \<le> sm_estimated b" by auto
  have "summarize_frozen_segments env segs current target hard = Inr b"
    using assms b by (subst summarize_eq [OF assms(2)]) auto
  with b assms(9) show ?thesis by auto
qed

section \<open>Freezing as a property\<close>

lemma freeze_settled_lemma:
  assumes "settled_prefix ld ms cursor p i hot = Inr us"
  shows "\<exists>new. freeze_settled_units env now us existing cursor r = Inr (existing @ new, max cursor (end_of (max 0 cursor) us)) \<and>
    (\<forall>un\<in>set us. holds_unit (existing @ new) un) \<and> (\<forall>s\<in>set new. \<exists>un\<in>set us. compact_interaction env now r un = Inr s)"
proof -
  from settled_units [OF assms] have "contiguous (max 0 cursor) us" "\<forall>un\<in>set us. u_complete un \<and> u_final un \<noteq> None" by simp_all
  from freeze_contiguous [OF this, of env now r existing] show ?thesis by (auto simp: freeze_settled_units_def)
qed

text \<open>Also: the settled prefix of a session can always be frozen: every unit of it ends up in a segment with its message
  range, the existing segments are kept unchanged and in front, each new segment is the compaction of
  one of these units, and the cursor moves to the end of the prefix, so no message between the old and
  the new cursor is without a segment.\<close>

theorem freeze_settled:
  assumes "settled_prefix ld ms cursor p i hot = Inr us"
  shows "\<exists>new. freeze_settled_units env now us existing cursor r = Inr (existing @ new, max cursor (end_of (max 0 cursor) us)) \<and>
    (\<forall>un\<in>set us. holds_unit (existing @ new) un) \<and> (\<forall>s\<in>set new. \<exists>un\<in>set us. compact_interaction env now r un = Inr s)"
  by (rule freeze_settled_lemma [OF assms])

section \<open>Concrete instances\<close>

definition ex_segment :: segment where
  "ex_segment = \<lparr>fs_id = u ''frozen-0-2'', fs_content = canonical ex_senv (JObj [(u ''user'', JStr (u ''hi'')), (u ''assistant'', JStr (u ''ok''))]),
     fs_start = Some 0, fs_end = Some 2, fs_revision = 1, fs_hash = replicate 64 97, fs_type = u ''interaction'', fs_created = u ''2026''\<rparr>"

definition ex_aggregate :: aggregate where
  "ex_aggregate = \<lparr>ag_sources = [(u ''frozen-0-2'', replicate 64 97)],
     ag_journeys = [[(u ''journey_id'', JStr (u ''journey-1'')), (u ''request'', JStr (u ''hi'')), (u ''source_message_start'', JInt 0),
       (u ''authored_turn_start'', JInt 1), (u ''authored_turn_end'', JInt 1)]],
     ag_facts = [], ag_keys = [], ag_ignored = 0, ag_authored = Some 1, ag_starts = [0], ag_ends = [2], ag_revisions = [1], ag_added = True\<rparr>"

lemma ex_absorbed: "andThen (start_aggregate ex_senv None) (absorb ex_senv [ex_segment]) = Inr ex_aggregate"
  by code_simp

lemma ex_widths: "width 0 = 1" "width 1 = 1" "width 2 = 1"
  by (code_simp+)

lemma ex_size:
  "0 \<le> t \<Longrightarrow> 0 \<le> e \<Longrightarrow> utf8_length (canonical ex_senv (prompt_dict ((aggregate_summary ex_aggregate 1 t AGGREGATED)\<lparr>
     sm_estimated := e, sm_combined := se_sha ex_senv y, sm_hash := se_sha ex_senv x\<rparr>))) = 1046 + width t + width e"
  apply (simp add: aggregate_summary_def)
  unfolding canonical_def prompt_dict_def budget_json_def content_fields_def journey_field_def omitted_json_def
  apply (simp add: utf8_dumps_obj quoted_sha [OF ex_sha] utf8_dec_int ex_aggregate_def strs_def AGGREGATED_def list_min_def
      list_max_def opt_int_def del: dumps.simps(7))
  apply (simp add: quoted_def utf8_Cons utf8_width_def ex_widths STAGE_SCHEMA_def CONFLICT_POLICY_def TURN_POLICY_def u_def
      escape_char_def utf8_dec_int utf8_dumps_obj del: dumps.simps(7))
  done

lemma ex_estimate:
  assumes "0 \<le> t" "build_sized_summary ex_senv (aggregate_summary ex_aggregate 1 t AGGREGATED) = Inr c"
  shows "sm_estimated c = next_estimate (1046 + width t) (width (sm_estimated c))"
proof -
  let ?s = "aggregate_summary ex_aggregate 1 t AGGREGATED"
  have s: "?s\<lparr>sm_schema := STAGE_SCHEMA, sm_combined := [], sm_hash := []\<rparr> = ?s" by (simp add: aggregate_summary_def)
  have e: "sm_estimated c = prompt_tokens ex_senv c" using sized_exact [OF ex_sha, of ?s] assms(2) by auto
  then have pos: "0 \<le> sm_estimated c" by (simp add: prompt_tokens_def)
  from made_form [OF sized_made [OF assms(2) [unfolded build_sized_summary_def s]]] obtain x y where
    eq: "c = ?s\<lparr>sm_estimated := sm_estimated c, sm_combined := se_sha ex_senv y, sm_hash := se_sha ex_senv x\<rparr>"
    by (auto simp: combined_hash_def)
  have "utf8_length (canonical ex_senv (prompt_dict c)) = 1046 + width t + width (sm_estimated c)"
    by (rule trans [OF arg_cong [OF eq, of "\<lambda>m. utf8_length (canonical ex_senv (prompt_dict m))"] ex_size [OF assms(1) pos]])
  with e show ?thesis by (simp add: prompt_tokens_def next_estimate_def)
qed

lemma ex_estimate_bounds:
  assumes "1 \<le> t" "build_sized_summary ex_senv (aggregate_summary ex_aggregate 1 t AGGREGATED) = Inr c"
  shows "262 \<le> sm_estimated c \<and> 3 * sm_estimated c \<le> 1049 + t"
proof -
  from ex_estimate [OF _ assms(2)] assms(1) have "sm_estimated c = next_estimate (1046 + width t) (width (sm_estimated c))" by simp
  then have "sm_estimated c \<le> 1 \<or> sm_estimated c \<le> (1046 + width t + width (sm_estimated c) + 3) div 4"
    "(1046 + width t + width (sm_estimated c) + 3) div 4 \<le> sm_estimated c" unfolding next_estimate_def by linarith+
  moreover from this width_pos [of t] width_pos [of "sm_estimated c"] have "262 \<le> sm_estimated c" by presburger
  ultimately show ?thesis using width_le [of t] width_le [of "sm_estimated c"] assms(1) by presburger
qed

theorem summarize_accounts_for_all_witness:
  "\<exists>s. sha_ok ex_senv \<and> summarize_frozen_segments ex_senv [ex_segment] None 8000 12000 = Inr s \<and>
     sm_sources s = [pair_of ex_segment] \<and> sm_estimated s = prompt_tokens ex_senv s"
proof -
  from two_builds [OF ex_sha, of ex_aggregate 1 8000] obtain a where
    a: "build_sized_summary ex_senv (aggregate_summary ex_aggregate 1 8000 AGGREGATED) = Inr a" by blast
  with ex_estimate_bounds [of 8000 a] have "sm_estimated a \<le> 8000" by simp
  with a have ok: "summarize_frozen_segments ex_senv [ex_segment] None 8000 12000 = Inr a"
    by (subst summarize_eq [OF ex_absorbed]) (simp_all add: next_generation_def ex_aggregate_def)
  from summarize_accounts_for_all [OF ex_sha ok] ok ex_sha show ?thesis by (simp add: old_sources_def)
qed

theorem hard_limit_overshoot_witness:
  "\<exists>hard s. 200 < hard \<and> summarize_frozen_segments ex_senv [ex_segment] None 200 hard = Inr s \<and> hard < sm_estimated s"
proof -
  from two_builds [OF ex_sha, of ex_aggregate 1 200] obtain c where
    c: "build_sized_summary ex_senv (aggregate_summary ex_aggregate 1 200 AGGREGATED) = Inr c" by blast
  with ex_estimate_bounds [of 200 c] have "200 < sm_estimated c" by simp
  moreover from c have "build_sized_summary ex_senv (aggregate_summary ex_aggregate (next_generation None) 200 AGGREGATED) = Inr c"
    by (simp add: next_generation_def)
  moreover have "ag_sources ex_aggregate \<noteq> []" by (simp add: ex_aggregate_def)
  ultimately show ?thesis
    using hard_limit_overshoot [OF ex_sha ex_absorbed, of 200 c "sm_estimated c"] by auto
qed

theorem freeze_settled_witness:
  "\<exists>us new. settled_prefix no_json ex_messages 0 False False 1 = Inr us \<and> us \<noteq> [] \<and>
     freeze_settled_units ex_senv [] us [] 0 1 = Inr (new, 3) \<and> new \<noteq> []"
proof -
  obtain us where us: "settled_prefix no_json ex_messages 0 False False 1 = Inr us" and e: "map u_end us = [3]"
    using ex_settled by (cases "settled_prefix no_json ex_messages 0 False False 1") auto
  then obtain x where x: "us = [x]" "u_end x = 3" by auto
  from freeze_settled [OF us, of ex_senv "[]" "[]" 1] x show ?thesis
    by (auto simp: end_of_def holds_unit_def us)
qed

end
