(* ===== verification/Assembler.thy ===== *)
theory Assembler
  imports Compactor Py_Float
begin

text \<open>
  \<open>app/application/context/assembler.py\<close>: the view of a session that the model sees (stage summary,
  uncovered segments, cache breakpoint, session context, active messages) and the step that advances
  the stored context: freeze, measure, and when the budget asks for it compress and keep the result
  only if it helps. \<open>as_dump\<close> is \<open>model_dump(mode="json")\<close>; the stored namespace is a dictionary of
  JSON values; one \<open>now\<close> stands for the readings of the clock within a step.
\<close>

record assembly_env =
  as_senv :: summary_env
  as_dump :: "msg \<Rightarrow> json"
  as_block :: "result_block \<Rightarrow> json"
  as_block_name :: "result_block \<Rightarrow> pystr"
  as_class :: "exn \<Rightarrow> pystr"

section \<open>The view\<close>

definition system_message :: "pystr \<Rightarrow> msg" where
  "system_message t = \<lparr>m_role = u ''system'', m_name = u ''crossshop_context'', m_calls = [], m_results = [],
     m_text = t, m_interrupted = False, m_status_error = False\<rparr>"

definition visible_message :: "msg \<Rightarrow> json" where
  "visible_message m = JObj [(u ''role'', JStr (m_role m)), (u ''name'', JStr (m_name m)), (u ''content'', JStr (m_text m))]"

definition cache_prefix_sha256 :: "summary_env \<Rightarrow> msg list \<Rightarrow> pystr" where
  "cache_prefix_sha256 env ms = se_sha env (canonical env (JList (map visible_message ms)))"

text \<open>\<open>CACHE_BREAKPOINT_TEXT[:-3]\<close>, and the whole text with the hash of the prefix put in.\<close>

definition BREAKPOINT_OPEN :: pystr where
  "BREAKPOINT_OPEN = u ''<crossshop-cache-breakpoint version=\"v1\"''"

definition breakpoint_text :: "pystr \<Rightarrow> pystr" where
  "breakpoint_text h = BREAKPOINT_OPEN @ u '' prefix_sha256=\"'' @ h @ u ''\" />''"

definition stage_text :: "summary_env \<Rightarrow> summary \<Rightarrow> pystr" where
  "stage_text env s = u ''<stage-summary>'' @ canonical env (prompt_dict s) @ u ''</stage-summary>''"

definition segment_text :: "segment \<Rightarrow> pystr" where
  "segment_text g = u ''<frozen-interaction id=\"'' @ fs_id g @ u ''\">'' @ fs_content g @ u ''</frozen-interaction>''"

definition session_text :: "summary_env \<Rightarrow> jdict \<Rightarrow> pystr" where
  "session_text env d = u ''<session-context>'' @ canonical env (JObj d) @ u ''</session-context>''"

definition covered_ids :: "summary option \<Rightarrow> pystr list" where
  "covered_ids stage = (case stage of None \<Rightarrow> [] | Some s \<Rightarrow> source_ids s)"

definition uncovered :: "summary option \<Rightarrow> segment list \<Rightarrow> segment list" where
  "uncovered stage frozen = [g \<leftarrow> frozen. fs_id g \<notin> set (covered_ids stage)]"

definition sources_match :: "segment list \<Rightarrow> summary \<Rightarrow> bool" where
  "sources_match frozen s \<longleftrightarrow> list_all (\<lambda>(i, h). map_of (rev (map pair_of frozen)) i = Some h) (sm_sources s)"

definition stage_messages :: "summary_env \<Rightarrow> summary option \<Rightarrow> msg list" where
  "stage_messages env stage = (case stage of None \<Rightarrow> [] | Some s \<Rightarrow> [system_message (stage_text env s)])"

definition assemble_llm_input_messages :: "summary_env \<Rightarrow> msg list \<Rightarrow> msg list \<Rightarrow> segment list \<Rightarrow> jdict \<Rightarrow>
    summary option \<Rightarrow> msg list result" where
  "assemble_llm_input_messages env fixed active frozen ctx stage =
     (if stage \<noteq> None \<and> \<not> sources_match frozen (the stage)
      then Inl (ValueError ''stage summary source unavailable or changed'')
      else let prefix = fixed @ stage_messages env stage
                 @ map (\<lambda>g. system_message (segment_text g)) (uncovered stage frozen)
           in Inr (prefix @ [system_message (breakpoint_text (cache_prefix_sha256 env prefix))]
                @ (if ctx = [] then [] else [system_message (session_text env ctx)]) @ active))"

section \<open>Measuring a view\<close>

fun layer_of :: "json \<Rightarrow> json layer_value" where
  "layer_of JNull = Absent"
| "layer_of (JStr s) = Str s"
| "layer_of v = Other v"

definition history_payload :: "segment list \<Rightarrow> summary option \<Rightarrow> json" where
  "history_payload frozen stage = JObj
     [(u ''stage_summary'', case stage of None \<Rightarrow> JNull | Some s \<Rightarrow> prompt_dict s),
      (u ''frozen_segments'', JList (map segment_dict (uncovered stage frozen)))]"

definition tool_results_of :: "assembly_env \<Rightarrow> msg list \<Rightarrow> (pystr, json layer_value) dict" where
  "tool_results_of env active = fold (\<lambda>(i, m). fold (\<lambda>b.
     AList.update (as_block_name env b @ u '':'' @ rb_id b @ u '':'' @ dec i) (layer_of (as_block env b))) (m_results m))
     (enumerate 0 active) []"

definition dump_all :: "assembly_env \<Rightarrow> msg list \<Rightarrow> json" where
  "dump_all env ms = JList (map (as_dump env) ms)"

definition context_layers :: "assembly_env \<Rightarrow> json \<Rightarrow> msg list \<Rightarrow> msg list \<Rightarrow> segment list \<Rightarrow> json \<Rightarrow> summary option \<Rightarrow>
    (pystr, json layer_value) dict" where
  "context_layers env schemas fixed active frozen sess stage =
     [(u ''fixed_prompt'', Other (dump_all env fixed)), (u ''tool_schemas'', layer_of schemas),
      (u ''l4_candidate'', if truthy sess then layer_of sess else Other (JObj [])),
      (u ''history'', Other (history_payload frozen stage)), (u ''active'', Other (dump_all env (butlast active))),
      (u ''current'', if active = [] then Other (JObj []) else layer_of (as_dump env (last active)))]"

definition context_report :: "assembly_env \<Rightarrow> policy \<Rightarrow> json \<Rightarrow> msg list \<Rightarrow> msg list \<Rightarrow> segment list \<Rightarrow> json \<Rightarrow>
    summary option \<Rightarrow> report" where
  "context_report env p schemas fixed active frozen sess stage =
     decide_budget (measure_budget (canonical (as_senv env)) (context_layers env schemas fixed active frozen sess stage)
       (tool_results_of env active) (model_context_tokens p) (reply_reserved_tokens p) (safety_margin_tokens p))
       p (frozen \<noteq> [])"

definition candidate_context :: "assembly_env \<Rightarrow> policy \<Rightarrow> json \<Rightarrow> msg list \<Rightarrow> msg list \<Rightarrow> segment list \<Rightarrow> json \<Rightarrow>
    summary option \<Rightarrow> (msg list \<times> report) result" where
  "candidate_context env p schemas fixed active frozen sess stage =
     andThen (assemble_llm_input_messages (as_senv env) fixed active frozen (obj_items sess) stage) (\<lambda>view.
       Inr (view, context_report env p schemas fixed active frozen sess stage))"

section \<open>Choosing what to compress\<close>

definition segment_tokens :: "summary_env \<Rightarrow> segment \<Rightarrow> int" where
  "segment_tokens env g = lc_tokens (count_tokens (canonical env) (Str (fs_content g)) (u ''recent_frozen''))"

definition recent_tokens :: "summary_env \<Rightarrow> segment list \<Rightarrow> nat \<Rightarrow> int" where
  "recent_tokens env gs k = sum_list (map (segment_tokens env) (drop (length gs - k) gs))"

fun keep_fit :: "summary_env \<Rightarrow> int \<Rightarrow> segment list \<Rightarrow> nat \<Rightarrow> nat" where
  "keep_fit env limit gs 0 = 0"
| "keep_fit env limit gs (Suc k) = (if recent_tokens env gs (Suc k) > limit then keep_fit env limit gs k else Suc k)"

definition recent_keep_count :: "summary_env \<Rightarrow> segment list \<Rightarrow> policy \<Rightarrow> nat" where
  "recent_keep_count env gs p = keep_fit env (l3_recent_frozen_token_limit p) gs
     (min (length gs) (nat (min (l3_keep_recent_frozen_segments p) (l3_max_recent_frozen_segments p))))"

definition eligible_of :: "segment list \<Rightarrow> nat \<Rightarrow> segment list" where
  "eligible_of gs keep = take (length gs - keep) gs"

fun covered_segments :: "segment list \<Rightarrow> (pystr \<times> pystr) list \<Rightarrow> segment list result" where
  "covered_segments frozen [] = Inr []"
| "covered_segments frozen ((i, h) # rest) =
     (case map_of (rev (map (\<lambda>g. (fs_id g, g)) frozen)) i of
        None \<Rightarrow> Inl (ValueError ''legacy stage summary source unavailable or changed'')
      | Some g \<Rightarrow> if fs_hash g \<noteq> h then Inl (ValueError ''legacy stage summary source unavailable or changed'')
                  else andThen (covered_segments frozen rest) (\<lambda>gs. Inr (g # gs)))"

definition summary_rebuild_inputs :: "segment list \<Rightarrow> segment list \<Rightarrow> summary option \<Rightarrow>
    (segment list \<times> summary option) result" where
  "summary_rebuild_inputs frozen eligible existing =
     (case existing of
        None \<Rightarrow> Inr (eligible, None)
      | Some s \<Rightarrow> if sm_schema s = STAGE_SCHEMA then Inr (eligible, Some s)
                  else andThen (covered_segments frozen (sm_sources s)) (\<lambda>cov. Inr (cov @ eligible, None)))"

text \<open>A builder is called with the segments, the summary to extend, the target and the hard limit.\<close>

type_synonym builder = "segment list \<Rightarrow> summary option \<Rightarrow> int \<Rightarrow> int \<Rightarrow> summary result"

definition expected_sources :: "segment list \<Rightarrow> summary option \<Rightarrow> (pystr \<times> pystr) list" where
  "expected_sources eligible existing =
     old_sources existing @ map pair_of [g \<leftarrow> eligible. fs_id g \<notin> set (covered_ids existing)]"

definition build_and_validate_summary :: "summary_env \<Rightarrow> builder \<Rightarrow> segment list \<Rightarrow> summary option \<Rightarrow> policy \<Rightarrow>
    summary result" where
  "build_and_validate_summary env build eligible existing p =
     andThen (build eligible existing (summary_target_tokens p) (summary_hard_limit_tokens p)) (\<lambda>candidate.
       let tokens = lc_tokens (count_tokens (canonical env) (Other (prompt_dict candidate)) (u ''stage_summary''))
       in if sm_sources candidate \<noteq> expected_sources eligible existing
          then Inl (ValueError ''stage summary source manifest does not match eligible sources'')
          else if tokens \<noteq> sm_estimated candidate
          then Inl (ValueError ''stage summary estimated token count is inconsistent'')
          else if tokens > summary_hard_limit_tokens p then Inl (ValueError ''stage summary exceeds hard token limit'')
          else Inr candidate)"

section \<open>Compression\<close>

text \<open>One attempt with \<open>keep\<close> recent segments left as they are.\<close>

record attempt =
  at_stage :: summary
  at_view :: "msg list"
  at_report :: report
  at_keep :: nat

record frame =
  fr_policy :: policy
  fr_schemas :: json
  fr_fixed :: "msg list"
  fr_active :: "msg list"
  fr_frozen :: "segment list"
  fr_session :: json
  fr_stage :: "summary option"

definition frame_view :: "assembly_env \<Rightarrow> frame \<Rightarrow> summary option \<Rightarrow> msg list result" where
  "frame_view env fr stage =
     assemble_llm_input_messages (as_senv env) (fr_fixed fr) (fr_active fr) (fr_frozen fr) (obj_items (fr_session fr)) stage"

definition frame_report :: "assembly_env \<Rightarrow> frame \<Rightarrow> summary option \<Rightarrow> report" where
  "frame_report env fr stage =
     context_report env (fr_policy fr) (fr_schemas fr) (fr_fixed fr) (fr_active fr) (fr_frozen fr) (fr_session fr) stage"

definition try_keep :: "assembly_env \<Rightarrow> builder \<Rightarrow> frame \<Rightarrow> nat \<Rightarrow> attempt result" where
  "try_keep env build fr keep =
     andThen (summary_rebuild_inputs (fr_frozen fr) (eligible_of (uncovered (fr_stage fr) (fr_frozen fr)) keep) (fr_stage fr))
       (\<lambda>(segs, existing).
     andThen (build_and_validate_summary (as_senv env) build segs existing (fr_policy fr)) (\<lambda>made.
     andThen (frame_view env fr (Some made)) (\<lambda>view.
       Inr \<lparr>at_stage = made, at_view = view, at_report = frame_report env fr (Some made), at_keep = keep\<rparr>)))"

text \<open>The \<open>while\<close> loop: one segment less is kept in each round.\<close>

fun compress_loop :: "assembly_env \<Rightarrow> builder \<Rightarrow> frame \<Rightarrow> int \<Rightarrow> int \<Rightarrow> nat \<Rightarrow> attempt \<Rightarrow> attempt result" where
  "compress_loop env build fr max_after min_keep 0 tr = Inr tr"
| "compress_loop env build fr max_after min_keep (Suc k) tr =
     (if r_total (at_report tr) > max_after \<and> int (Suc k) > min_keep
      then andThen (try_keep env build fr k) (compress_loop env build fr max_after min_keep k)
      else Inr tr)"

definition max_after :: "policy \<Rightarrow> int" where
  "max_after p = \<lfloor>fmul (float_of (model_context_tokens p)) (post_compression_max_ratio p)\<rfloor>"

definition target_after :: "policy \<Rightarrow> int" where
  "target_after p = \<lfloor>fmul (float_of (model_context_tokens p)) (post_compression_target_ratio p)\<rfloor>"

definition compress :: "assembly_env \<Rightarrow> builder \<Rightarrow> frame \<Rightarrow> nat \<Rightarrow> attempt result" where
  "compress env build fr keep =
     andThen (try_keep env build fr keep)
       (compress_loop env build fr (max_after (fr_policy fr)) (min (l3_min_recent_frozen_segments (fr_policy fr)) (int keep)) keep)"

section \<open>What is recorded\<close>

definition summary_record :: "policy \<Rightarrow> int \<Rightarrow> attempt \<Rightarrow> jdict" where
  "summary_record p before tr =
     (let after = r_total (at_report tr)
      in [(u ''action'', JStr (u ''l3_stage_summary'')), (u ''before_tokens'', JInt before), (u ''after_tokens'', JInt after),
          (u ''compression_ratio'', JFloat (if before \<noteq> 0 then int_div (before - after) before else 0)),
          (u ''post_compression_target_tokens'', JInt (target_after p)), (u ''post_compression_max_tokens'', JInt (max_after p)),
          (u ''post_compression_target_met'', JBool (after \<le> target_after p)),
          (u ''recent_raw_segment_count'', JInt (int (at_keep tr))),
          (u ''source_segment_ids'', strs (source_ids (at_stage tr))),
          (u ''source_manifest_hash'', JStr (sm_combined (at_stage tr))), (u ''summary_hash'', JStr (sm_hash (at_stage tr))),
          (u ''summary_estimated_tokens'', JInt (sm_estimated (at_stage tr))),
          (u ''summary_target_tokens'', JInt (summary_target_tokens p)),
          (u ''summary_hard_limit_tokens'', JInt (summary_hard_limit_tokens p))])"

text \<open>The stage, view and report after compression was asked for, and the record of it if one is left.\<close>

definition outcome_of :: "assembly_env \<Rightarrow> frame \<Rightarrow> int \<Rightarrow> msg list \<Rightarrow> report \<Rightarrow> attempt result \<Rightarrow>
    summary option \<times> msg list \<times> report \<times> jdict" where
  "outcome_of env fr before view rep res =
     (case res of
        Inl e \<Rightarrow> (fr_stage fr, view, rep, [(u ''action'', JStr (u ''l3_failed'')), (u ''before_tokens'', JInt before),
          (u ''failure_type'', JStr (as_class env e)),
          (u ''previous_summary_hash'', case fr_stage fr of None \<Rightarrow> JNull | Some s \<Rightarrow> JStr (sm_hash s))])
      | Inr tr \<Rightarrow>
          (let after = r_total (at_report tr)
           in if after \<ge> before
              then (fr_stage fr, view, rep, [(u ''action'', JStr (u ''l3_no_gain'')), (u ''before_tokens'', JInt before),
                (u ''candidate_tokens'', JInt after)])
              else if after > max_after (fr_policy fr)
              then (fr_stage fr, view, rep, [(u ''action'', JStr (u ''l3_target_missed'')), (u ''before_tokens'', JInt before),
                (u ''candidate_tokens'', JInt after), (u ''post_compression_max_tokens'', JInt (max_after (fr_policy fr)))])
              else (Some (at_stage tr), at_view tr, at_report tr, summary_record (fr_policy fr) before tr)))"

definition compress_if_needed :: "assembly_env \<Rightarrow> builder \<Rightarrow> frame \<Rightarrow> msg list \<Rightarrow> summary option \<times> msg list \<times> report \<times> jdict option" where
  "compress_if_needed env build fr view =
     (let rep = frame_report env fr (fr_stage fr); unc = uncovered (fr_stage fr) (fr_frozen fr);
          keep = recent_keep_count (as_senv env) unc (fr_policy fr)
      in if r_decision rep \<noteq> NeedsL3 \<or> eligible_of unc keep = [] then (fr_stage fr, view, rep, None)
         else (case outcome_of env fr (r_total rep) view rep (compress env build fr keep) of
                 (stage, view', rep', note_entry) \<Rightarrow> (stage, view', rep', Some note_entry)))"

definition count_dict :: "layer_count \<Rightarrow> json" where
  "count_dict c = JObj [(u ''name'', JStr (lc_name c)), (u ''tokens'', JInt (lc_tokens c)), (u ''method'', JStr (lc_method c)),
     (u ''estimated'', JBool (lc_estimated c))]"

definition decision_text :: "decision \<Rightarrow> pystr" where
  "decision_text d = (case d of OkD \<Rightarrow> u ''ok'' | NeedsL3 \<Rightarrow> u ''needs_l3'' | FixedOverflow \<Rightarrow> u ''fixed_overflow''
     | ActiveOverflow \<Rightarrow> u ''active_overflow'')"

definition report_dict :: "report \<Rightarrow> jdict" where
  "report_dict r = [(u ''model_context_tokens'', JInt (r_model_context r)), (u ''reply_reserved_tokens'', JInt (r_reply_reserved r)),
     (u ''safety_margin_tokens'', JInt (r_safety_margin r)),
     (u ''layers'', JObj (map (\<lambda>(k, c). (k, count_dict c)) (r_layers r))),
     (u ''tool_results'', JObj (map (\<lambda>(k, c). (k, count_dict c)) (r_tool_results r))),
     (u ''total_input_tokens'', JInt (r_total r)), (u ''available_input_tokens'', JInt (r_available r)),
     (u ''overflow_tokens'', JInt (r_overflow r)), (u ''estimated'', JBool (r_estimated r)),
     (u ''counter_method'', JStr ESTIMATE), (u ''soft_limit_tokens'', JInt (r_soft_limit r)),
     (u ''decision'', JStr (decision_text (r_decision r))), (u ''enforcement_mode'', JStr (r_mode r)),
     (u ''within_budget'', JBool (within_budget r))]"

definition budget_report_with_cache_prefix :: "summary_env \<Rightarrow> report \<Rightarrow> msg list \<Rightarrow> jdict" where
  "budget_report_with_cache_prefix env r view = report_dict r @
     [(u ''stable_prefix_sha256'', JStr (cache_prefix_sha256 env (takeWhile (\<lambda>m. \<not> startswith (m_text m) BREAKPOINT_OPEN) view))),
      (u ''stable_prefix_estimated_tokens'', JInt (sum_list (map (\<lambda>k. max 0 (layer_tokens r k)) [''fixed_prompt'', ''tool_schemas'', ''history''])))]"

definition stage_budget :: "summary option \<Rightarrow> jdict" where
  "stage_budget stage = (case stage of None \<Rightarrow> [] | Some s \<Rightarrow>
     [(u ''stage_summary_model_visible_estimated_tokens'', JInt (sm_estimated s)),
      (u ''stage_summary_source_manifest_count'', JInt (int (length (sm_sources s)))),
      (u ''stage_summary_source_manifest_hash'', JStr (sm_combined s))])"

section \<open>One step\<close>

definition read_stage :: "summary_env \<Rightarrow> json \<Rightarrow> summary option result" where
  "read_stage env raw = (if is_obj raw then andThen (summary_from_dict env raw) (\<lambda>s. Inr (Some s)) else Inr None)"

definition read_segments :: "summary_env \<Rightarrow> pystr \<Rightarrow> json \<Rightarrow> segment list result" where
  "read_segments env now raw = andThen (items_of raw) (\<lambda>xs. mapR (segment_from_dict env now) (filter is_obj xs))"

definition session_revision :: "summary_env \<Rightarrow> json \<Rightarrow> int result" where
  "session_revision env sess = (if is_obj sess then int_or env sess ''revision'' 0 else Inr 0)"

definition store_result :: "summary_env \<Rightarrow> jdict \<Rightarrow> segment list \<Rightarrow> int \<Rightarrow> summary option \<times> msg list \<times> report \<times> jdict option \<Rightarrow> jdict" where
  "store_result env ns frozen next_cursor res =
     (case res of (stage, view, rep, entry) \<Rightarrow>
        (let noted = (case entry of None \<Rightarrow> ns | Some d \<Rightarrow> AList.update (u ''context_compression'') (JObj d) ns)
         in (AList.update (u ''budget_decision'') (JStr (decision_text (r_decision rep)))
             \<circ> AList.update (u ''budget_report'') (JObj (budget_report_with_cache_prefix env rep view @ stage_budget stage))
             \<circ> AList.update (u ''stage_summary'') (case stage of None \<Rightarrow> JNull | Some s \<Rightarrow> summary_dict s)
             \<circ> AList.update (u ''freeze_cursor'') (JInt next_cursor)
             \<circ> AList.update (u ''frozen_segments'') (JList (map segment_dict frozen))) noted))"

definition step_frame :: "policy \<Rightarrow> json \<Rightarrow> msg list \<Rightarrow> msg list \<Rightarrow> int \<Rightarrow> segment list \<Rightarrow> jdict \<Rightarrow> summary option \<Rightarrow> frame" where
  "step_frame p schemas fixed ms cur frozen ns stage = \<lparr>fr_policy = p, fr_schemas = schemas, fr_fixed = fixed,
     fr_active = drop (nat cur) ms, fr_frozen = frozen, fr_session = dict_get ns ''session_context'', fr_stage = stage\<rparr>"

text \<open>The part of a step before the budget is looked at.\<close>

definition frozen_step :: "summary_env \<Rightarrow> pystr \<Rightarrow> msg list \<Rightarrow> jdict \<Rightarrow> policy \<Rightarrow> bool \<Rightarrow> bool \<Rightarrow>
    (segment list \<times> int \<times> summary option) result" where
  "frozen_step env now ms ns p pend intr =
     andThen (int_or env (JObj ns) ''freeze_cursor'' 0) (\<lambda>raw_cursor.
     andThen (read_segments env now (dict_get ns ''frozen_segments'')) (\<lambda>existing.
     andThen (settled_prefix (load_result env) ms (max 0 raw_cursor) pend intr (l2_hot_turns p)) (\<lambda>units.
     andThen (session_revision env (dict_get ns ''session_context'')) (\<lambda>rev_no.
     andThen (freeze_settled_units env now units existing (max 0 raw_cursor) rev_no) (\<lambda>(frozen, cur).
     andThen (read_stage env (dict_get ns ''stage_summary'')) (\<lambda>stage. Inr (frozen, cur, stage)))))))"

definition advance_context_state :: "assembly_env \<Rightarrow> builder \<Rightarrow> pystr \<Rightarrow> msg list \<Rightarrow> jdict \<Rightarrow> msg list \<Rightarrow> json \<Rightarrow> policy \<Rightarrow>
    bool \<Rightarrow> bool \<Rightarrow> (jdict \<times> msg list) result" where
  "advance_context_state aenv build now ms ns fixed schemas p has_pending has_interrupt =
     andThen (frozen_step (as_senv aenv) now ms ns p has_pending has_interrupt) (\<lambda>(frozen, next_cursor, stage).
     let fr = step_frame p schemas fixed ms next_cursor frozen ns stage
     in andThen (frame_view aenv fr stage) (\<lambda>provisional.
        let res = compress_if_needed aenv build fr provisional
        in Inr (store_result (as_senv aenv) ns frozen next_cursor res, fst (snd res))))"

section \<open>The view loses nothing\<close>

lemma assembled_iff:
  "assemble_llm_input_messages env fixed active frozen ctx stage = Inr view \<longleftrightarrow>
   (stage = None \<or> sources_match frozen (the stage)) \<and>
   (\<exists>prefix. prefix = fixed @ stage_messages env stage @ map (\<lambda>g. system_message (segment_text g)) (uncovered stage frozen) \<and>
     view = prefix @ [system_message (breakpoint_text (cache_prefix_sha256 env prefix))]
       @ (if ctx = [] then [] else [system_message (session_text env ctx)]) @ active)"
  by (auto simp: assemble_llm_input_messages_def Let_def)

lemma pairs_of_ids: "distinct (map fs_id gs) \<Longrightarrow> map_of (rev (map pair_of gs)) i = Some h \<longleftrightarrow> (\<exists>g\<in>set gs. fs_id g = i \<and> fs_hash g = h)"
proof -
  assume "distinct (map fs_id gs)"
  moreover have "map fst (rev (map pair_of gs)) = rev (map fs_id gs)" by (simp add: rev_map pair_of_def comp_def)
  ultimately have "distinct (map fst (rev (map pair_of gs)))" by (simp only: distinct_rev)
  then have "map_of (rev (map pair_of gs)) i = Some h \<longleftrightarrow> (i, h) \<in> set (rev (map pair_of gs))"
    by (rule map_of_eq_Some_iff)
  then show ?thesis by (auto simp: pair_of_def)
qed

text \<open>C31: the view shown to the model loses nothing: it starts with the fixed messages and ends with the active
  ones, unchanged and in order; every frozen segment is either there in full or is a source of the stage
  summary in front, whose manifest holds the hash of that very segment; and a manifest entry without
  such a segment makes the assembly fail.\<close>

theorem view_complete:
  assumes "assemble_llm_input_messages env fixed active frozen ctx stage = Inr view" "distinct (map fs_id frozen)"
  shows "\<exists>mid. view = fixed @ mid @ active \<and>
    (\<forall>g\<in>set frozen. system_message (segment_text g) \<in> set mid \<or>
       (\<exists>s. stage = Some s \<and> pair_of g \<in> set (sm_sources s) \<and> system_message (stage_text env s) \<in> set mid)) \<and>
    (\<forall>s. stage = Some s \<longrightarrow> set (sm_sources s) \<subseteq> pair_of ` set frozen)"
proof -
  from assms(1) obtain tl' where ok: "stage = None \<or> sources_match frozen (the stage)" and
    v: "view = fixed @ (stage_messages env stage @ map (\<lambda>g. system_message (segment_text g)) (uncovered stage frozen) @ tl') @ active"
    by (auto simp: assembled_iff)
  have src: "set (sm_sources s) \<subseteq> pair_of ` set frozen" if "stage = Some s" for s
    using ok that by (auto simp: sources_match_def list_all_iff pairs_of_ids [OF assms(2)] pair_of_def)
  let ?mid = "stage_messages env stage @ map (\<lambda>g. system_message (segment_text g)) (uncovered stage frozen) @ tl'"
  have "system_message (segment_text g) \<in> set ?mid \<or>
      (\<exists>s. stage = Some s \<and> pair_of g \<in> set (sm_sources s) \<and> system_message (stage_text env s) \<in> set ?mid)"
    if g: "g \<in> set frozen" for g
  proof (cases "fs_id g \<in> set (covered_ids stage)")
    case True
    then obtain s h where s: "stage = Some s" "(fs_id g, h) \<in> set (sm_sources s)"
      by (auto simp: covered_ids_def source_ids_def split: option.splits)
    with src obtain g' where "g' \<in> set frozen" "fs_id g' = fs_id g" "fs_hash g' = h" by (force simp: pair_of_def)
    with g assms(2) have "g' = g" by (auto simp: distinct_map dest: inj_onD)
    with s \<open>fs_hash g' = h\<close> show ?thesis by (auto simp: pair_of_def stage_messages_def)
  qed (use g in \<open>auto simp: uncovered_def\<close>)
  with v src show ?thesis by (intro exI [of _ ?mid] conjI ballI allI impI) blast+
qed

section \<open>Choosing the recent segments\<close>

lemma keep_fit_spec:
  "keep_fit env limit gs k \<le> k \<and> (keep_fit env limit gs k = 0 \<or> recent_tokens env gs (keep_fit env limit gs k) \<le> limit) \<and>
   (\<forall>j. keep_fit env limit gs k < j \<and> j \<le> k \<longrightarrow> recent_tokens env gs j > limit)"
  by (induction env limit gs k rule: keep_fit.induct) (auto simp: le_Suc_eq)

lemma compress_loop_keep:
  "compress_loop env build fr m mn k tr = Inr tr' \<Longrightarrow> at_keep tr = k \<Longrightarrow> mn \<le> int k \<Longrightarrow> at_keep tr' \<le> k \<and> mn \<le> int (at_keep tr')"
proof (induction env build fr m mn k tr rule: compress_loop.induct)
  case (2 env build fr m mn k tr)
  show ?case
  proof (cases "r_total (at_report tr) > m \<and> int (Suc k) > mn")
    case True
    with "2.prems" obtain t where t: "try_keep env build fr k = Inr t" "compress_loop env build fr m mn k t = Inr tr'"
      by (auto simp: result_simps)
    then have "at_keep t = k" by (auto simp: try_keep_def result_simps)
    with "2.IH" [OF True t(2)] True show ?thesis by auto
  qed (use 2 in auto)
qed simp

text \<open>Also: the number of recent segments kept out of a compression is the largest one within the configured counts
  whose segments fit the token limit, and a compression that is tried again with fewer of them never
  goes below the configured minimum.\<close>

theorem recent_kept:
  assumes "k = recent_keep_count (as_senv env) gs p" "cap = min (length gs) (nat (min (l3_keep_recent_frozen_segments p) (l3_max_recent_frozen_segments p)))"
  shows "k \<le> cap \<and> (k = 0 \<or> recent_tokens (as_senv env) gs k \<le> l3_recent_frozen_token_limit p) \<and>
    (\<forall>j. k < j \<and> j \<le> cap \<longrightarrow> l3_recent_frozen_token_limit p < recent_tokens (as_senv env) gs j) \<and>
    (\<forall>fr build tr. compress env build fr k = Inr tr \<longrightarrow> at_keep tr \<le> k \<and> min (l3_min_recent_frozen_segments (fr_policy fr)) (int k) \<le> int (at_keep tr))"
proof -
  have "at_keep tr \<le> k \<and> min (l3_min_recent_frozen_segments (fr_policy fr)) (int k) \<le> int (at_keep tr)"
    if "compress env build fr k = Inr tr" for fr build tr
  proof -
    from that obtain t where t: "try_keep env build fr k = Inr t"
      "compress_loop env build fr (max_after (fr_policy fr)) (min (l3_min_recent_frozen_segments (fr_policy fr)) (int k)) k t = Inr tr"
      by (auto simp: compress_def result_simps)
    then have "at_keep t = k" by (auto simp: try_keep_def result_simps)
    with compress_loop_keep [OF t(2)] show ?thesis by simp
  qed
  with keep_fit_spec [of "as_senv env" "l3_recent_frozen_token_limit p" gs cap] show ?thesis
    by (auto simp: assms recent_keep_count_def)
qed

section \<open>What the compactor builds is accepted\<close>

lemma covered_old: "fst ` set (old_sources existing) = set (covered_ids existing)"
  by (cases existing) (simp_all add: old_sources_def covered_ids_def source_ids_def)

text \<open>Also: a summary that the compactor builds from new segments always passes the validation of the assembler,
  whose manifest and token count are the ones the compactor produced, except when it is above the hard
  limit: then the validation raises.\<close>

theorem compaction_validates:
  assumes "sha_ok env" "distinct (map fs_id eligible)" "\<exists>g\<in>set eligible. fs_id g \<notin> set (covered_ids existing)"
    "summarize_frozen_segments env eligible existing (summary_target_tokens p) (summary_hard_limit_tokens p) = Inr s"
  shows "build_and_validate_summary env (summarize_frozen_segments env) eligible existing p =
    (if sm_estimated s > summary_hard_limit_tokens p then Inl (ValueError ''stage summary exceeds hard token limit'') else Inr s)"
proof -
  from assms(1,4) obtain ag0 ag where ag: "start_aggregate env existing = Inr ag0" "absorb env eligible ag0 = Inr ag"
    "sm_sources s = ag_sources ag" "existing = Some s \<or> (existing = None \<or> ag_added ag) \<and>
      sm_estimated s = prompt_tokens env s \<and> sm_estimated s \<le> summary_hard_limit_tokens p + 6" by (rule summarize_result)
  from start_aggregate_ok [OF ag(1)] have old: "ag_sources ag0 = old_sources existing" by simp
  have src: "sm_sources s = expected_sources eligible existing"
    using absorb_new [OF ag(2) assms(2)] ag(3) old by (simp add: expected_sources_def covered_old)
  have "[g \<leftarrow> eligible. fs_id g \<notin> set (covered_ids existing)] \<noteq> []" using assms(3) by (auto simp: filter_empty_conv)
  with src have "existing \<noteq> Some s" by (auto simp: expected_sources_def old_sources_def)
  with ag(4) have "sm_estimated s = prompt_tokens env s" by simp
  with src assms(4) show ?thesis
    by (simp add: build_and_validate_summary_def counted_prompt Let_def)
qed

section \<open>The stored state and the view agree\<close>

lemma try_keep_view: "try_keep env build fr k = Inr t \<Longrightarrow> frame_view env fr (Some (at_stage t)) = Inr (at_view t)"
  by (auto simp: try_keep_def result_simps)

lemma compress_loop_view:
  "compress_loop env build fr m mn k t = Inr t' \<Longrightarrow> frame_view env fr (Some (at_stage t)) = Inr (at_view t) \<Longrightarrow>
   frame_view env fr (Some (at_stage t')) = Inr (at_view t')"
  by (induction env build fr m mn k t rule: compress_loop.induct) (auto simp: result_simps dest: try_keep_view split: if_splits)

lemma compress_view: "compress env build fr k = Inr t \<Longrightarrow> frame_view env fr (Some (at_stage t)) = Inr (at_view t)"
  by (auto simp: compress_def result_simps dest: try_keep_view compress_loop_view)

lemma compressed_view:
  assumes "frame_view env fr (fr_stage fr) = Inr view" "compress_if_needed env build fr view = (stage, view', rep, entry)"
  shows "frame_view env fr stage = Inr view'"
  using assms compress_view
  by (auto simp: compress_if_needed_def outcome_of_def Let_def split: if_splits sum.splits)

lemma get_update: "dict_get (AList.update (u k) v d) j = (if k = j then v else dict_get d j)"
  by (simp add: dict_get_def jget_def dict_simps)

lemmas stored_simps = store_result_def get_update Let_def

lemma stored_fields:
  assumes "ns' = store_result env ns frozen cur (stage, view, rep, entry)"
  shows "dict_get ns' ''frozen_segments'' = JList (map segment_dict frozen)" "dict_get ns' ''freeze_cursor'' = JInt cur"
    "dict_get ns' ''stage_summary'' = (case stage of None \<Rightarrow> JNull | Some s \<Rightarrow> summary_dict s)"
    "dict_get ns' ''session_context'' = dict_get ns ''session_context''"
  by (simp_all add: assms stored_simps split: option.split)

lemma advance_cases:
  assumes "advance_context_state aenv build now ms ns fixed schemas p pend intr = Inr (ns', view)"
  obtains frozen cur stage0 prov stage rep entry where
    "frozen_step (as_senv aenv) now ms ns p pend intr = Inr (frozen, cur, stage0)"
    "frame_view aenv (step_frame p schemas fixed ms cur frozen ns stage0) stage0 = Inr prov"
    "compress_if_needed aenv build (step_frame p schemas fixed ms cur frozen ns stage0) prov = (stage, view, rep, entry)"
    "ns' = store_result (as_senv aenv) ns frozen cur (stage, view, rep, entry)"
proof -
  from assms obtain frozen cur stage0 prov where
    f: "frozen_step (as_senv aenv) now ms ns p pend intr = Inr (frozen, cur, stage0)"
      "frame_view aenv (step_frame p schemas fixed ms cur frozen ns stage0) stage0 = Inr prov"
      "ns' = store_result (as_senv aenv) ns frozen cur (compress_if_needed aenv build (step_frame p schemas fixed ms cur frozen ns stage0) prov)"
      "view = fst (snd (compress_if_needed aenv build (step_frame p schemas fixed ms cur frozen ns stage0) prov))"
    by (auto simp: advance_context_state_def result_simps Let_def split: prod.splits)
  obtain stage view' rep entry where
    "compress_if_needed aenv build (step_frame p schemas fixed ms cur frozen ns stage0) prov = (stage, view', rep, entry)"
    by (metis prod.collapse)
  with f show ?thesis by (intro that) auto
qed

lemma frozen_step_cases:
  assumes "frozen_step env now ms ns p pend intr = Inr (frozen, cur, stage)"
  obtains raw_cursor existing units new rev_no where
    "int_or env (JObj ns) ''freeze_cursor'' 0 = Inr raw_cursor"
    "read_segments env now (dict_get ns ''frozen_segments'') = Inr existing"
    "settled_prefix (load_result env) ms (max 0 raw_cursor) pend intr (l2_hot_turns p) = Inr units"
    "frozen = existing @ new" "cur = max (max 0 raw_cursor) (end_of (max 0 raw_cursor) units)"
    "read_stage env (dict_get ns ''stage_summary'') = Inr stage"
    "\<forall>un\<in>set units. holds_unit frozen un" "\<forall>s\<in>set new. \<exists>un\<in>set units. compact_interaction env now rev_no un = Inr s"
proof -
  from assms obtain raw_cursor existing units rev_no where
    a: "int_or env (JObj ns) ''freeze_cursor'' 0 = Inr raw_cursor"
    "read_segments env now (dict_get ns ''frozen_segments'') = Inr existing"
    "settled_prefix (load_result env) ms (max 0 raw_cursor) pend intr (l2_hot_turns p) = Inr units"
    "freeze_settled_units env now units existing (max 0 raw_cursor) rev_no = Inr (frozen, cur)"
    "read_stage env (dict_get ns ''stage_summary'') = Inr stage"
    by (auto simp: frozen_step_def result_simps)
  from freeze_settled_lemma [OF a(3), of env now existing rev_no] a(4) obtain new where
    n: "frozen = existing @ new" "cur = max (max 0 raw_cursor) (end_of (max 0 raw_cursor) units)"
      "\<forall>un\<in>set units. holds_unit frozen un" "\<forall>s\<in>set new. \<exists>un\<in>set units. compact_interaction env now rev_no un = Inr s"
    by auto
  show ?thesis by (rule that [OF a(1-3) n(1,2) a(5) n(3,4)])
qed

text \<open>Segments that are read or made have a hash of their content and a time of creation, and are read again
  from what is stored.\<close>

definition segment_ok :: "summary_env \<Rightarrow> segment \<Rightarrow> bool" where
  "segment_ok env g \<longleftrightarrow> mk_segment env g = Inr g \<and> fs_created g \<noteq> []"

lemma segment_ok_made: "mk_segment env g = Inr m \<Longrightarrow> fs_created g \<noteq> [] \<Longrightarrow> segment_ok env m"
  using mk_segment_made [of env g m] by (simp add: segment_ok_def)

lemma read_ok: "segment_from_dict env now raw = Inr g \<Longrightarrow> now \<noteq> [] \<Longrightarrow> segment_ok env g"
  by (auto simp: segment_from_dict_def result_simps Let_def intro: segment_ok_made split: if_splits)

lemma compact_ok: "compact_interaction env now r un = Inr g \<Longrightarrow> now \<noteq> [] \<Longrightarrow> segment_ok env g"
  by (auto simp: compact_interaction_def intro: segment_ok_made split: if_splits)

lemma mapR_all: "mapR f xs = Inr ys \<Longrightarrow> y \<in> set ys \<Longrightarrow> \<exists>x\<in>set xs. f x = Inr y"
  by (induction xs arbitrary: ys) (fastforce simp: result_simps)+

lemma stored_segments_read:
  assumes "\<forall>g\<in>set gs. segment_ok env g"
  shows "read_segments env now (JList (map segment_dict gs)) = Inr gs"
proof -
  have "filter is_obj (map segment_dict gs) = map segment_dict gs"
    by (simp add: filter_id_conv segment_dict_def)
  moreover have "mapR (segment_from_dict env now) (map segment_dict gs) = Inr gs"
    using assms by (induction gs) (auto simp: segment_ok_def segment_reads_back)
  ultimately show ?thesis by (simp add: read_segments_def)
qed

lemma frozen_step_ok:
  assumes "frozen_step env now ms ns p pend intr = Inr (frozen, cur, stage)" "now \<noteq> []" "g \<in> set frozen"
  shows "segment_ok env g"
proof -
  from assms(1) obtain raw_cursor existing units new rev_no where
    "read_segments env now (dict_get ns ''frozen_segments'') = Inr existing" and f: "frozen = existing @ new"
    and n: "\<forall>s\<in>set new. \<exists>un\<in>set units. compact_interaction env now rev_no un = Inr s"
    by (rule frozen_step_cases)
  then have "\<exists>raw. segment_from_dict env now raw = Inr x" if "x \<in> set existing" for x
    using that mapR_all by (fastforce simp: read_segments_def result_simps)
  with f n assms(2,3) show ?thesis by (auto intro: read_ok compact_ok)
qed

text \<open>C29: after a step, what is stored and what the model sees agree: the stored segments are the earlier ones followed
  by new ones and are read back unchanged by the next step, the stored cursor is where the active messages
  of the view begin, and the view is exactly the assembly of the stored segments, the stored summary and
  the session context with the messages from the cursor on. Every unit between the cursors has a segment.\<close>

theorem stored_state_matches_view:
  assumes "advance_context_state aenv build now ms ns fixed schemas p pend intr = Inr (ns', view)" "now \<noteq> []"
  shows "\<exists>existing frozen stage cur units raw_cursor. int_or (as_senv aenv) (JObj ns) ''freeze_cursor'' 0 = Inr raw_cursor \<and>
    read_segments (as_senv aenv) now (dict_get ns ''frozen_segments'') = Inr existing \<and>
    read_segments (as_senv aenv) later (dict_get ns' ''frozen_segments'') = Inr frozen \<and> take (length existing) frozen = existing \<and>
    dict_get ns' ''freeze_cursor'' = JInt cur \<and> 0 \<le> cur \<and> raw_cursor \<le> cur \<and>
    settled_prefix (load_result (as_senv aenv)) ms (max 0 raw_cursor) pend intr (l2_hot_turns p) = Inr units \<and>
    (\<forall>un\<in>set units. holds_unit frozen un) \<and>
    dict_get ns' ''stage_summary'' = (case stage of None \<Rightarrow> JNull | Some s \<Rightarrow> summary_dict s) \<and>
    assemble_llm_input_messages (as_senv aenv) fixed (drop (nat cur) ms) frozen (obj_items (dict_get ns' ''session_context'')) stage = Inr view"
proof -
  from assms(1) obtain frozen cur stage0 prov stage rep entry where
    f: "frozen_step (as_senv aenv) now ms ns p pend intr = Inr (frozen, cur, stage0)" and
    v: "frame_view aenv (step_frame p schemas fixed ms cur frozen ns stage0) stage0 = Inr prov"
      "compress_if_needed aenv build (step_frame p schemas fixed ms cur frozen ns stage0) prov = (stage, view, rep, entry)" and
    ns': "ns' = store_result (as_senv aenv) ns frozen cur (stage, view, rep, entry)" by (rule advance_cases)
  note st = stored_fields [OF ns']
  from f obtain raw_cursor existing units new rev_no where
    s: "int_or (as_senv aenv) (JObj ns) ''freeze_cursor'' 0 = Inr raw_cursor"
      "read_segments (as_senv aenv) now (dict_get ns ''frozen_segments'') = Inr existing"
      "settled_prefix (load_result (as_senv aenv)) ms (max 0 raw_cursor) pend intr (l2_hot_turns p) = Inr units"
      "frozen = existing @ new" "cur = max (max 0 raw_cursor) (end_of (max 0 raw_cursor) units)"
      "\<forall>un\<in>set units. holds_unit frozen un" by (rule frozen_step_cases)
  have "read_segments (as_senv aenv) later (dict_get ns' ''frozen_segments'') = Inr frozen"
    using frozen_step_ok [OF f assms(2)] st(1) by (simp add: stored_segments_read)
  moreover have "frame_view aenv (step_frame p schemas fixed ms cur frozen ns stage0) stage = Inr view"
    by (rule compressed_view [OF _ v(2)]) (simp add: v(1) step_frame_def, simp add: v(1) [unfolded step_frame_def])
  moreover have "take (length existing) frozen = existing" "0 \<le> cur" "raw_cursor \<le> cur" using s by simp_all
  moreover have "assemble_llm_input_messages (as_senv aenv) fixed (drop (nat cur) ms) frozen
      (obj_items (dict_get ns' ''session_context'')) stage = Inr view"
    using calculation(2) st(4) by (simp add: frame_view_def step_frame_def)
  ultimately have "int_or (as_senv aenv) (JObj ns) ''freeze_cursor'' 0 = Inr raw_cursor \<and>
    read_segments (as_senv aenv) now (dict_get ns ''frozen_segments'') = Inr existing \<and>
    read_segments (as_senv aenv) later (dict_get ns' ''frozen_segments'') = Inr frozen \<and> take (length existing) frozen = existing \<and>
    dict_get ns' ''freeze_cursor'' = JInt cur \<and> 0 \<le> cur \<and> raw_cursor \<le> cur \<and>
    settled_prefix (load_result (as_senv aenv)) ms (max 0 raw_cursor) pend intr (l2_hot_turns p) = Inr units \<and>
    (\<forall>un\<in>set units. holds_unit frozen un) \<and>
    dict_get ns' ''stage_summary'' = (case stage of None \<Rightarrow> JNull | Some s \<Rightarrow> summary_dict s) \<and>
    assemble_llm_input_messages (as_senv aenv) fixed (drop (nat cur) ms) frozen (obj_items (dict_get ns' ''session_context'')) stage = Inr view"
    using s(1-3,6) st(2,3) by metis
  then show ?thesis by (intro exI) assumption
qed

lemma failing_builder:
  assumes "\<forall>segs ex t h. \<exists>e. build segs ex t h = Inl e"
  shows "\<exists>e. compress env build fr k = Inl e"
proof -
  have "\<exists>e. build_and_validate_summary senv build segs existing q = Inl e" for senv segs existing q
  proof -
    from assms obtain e where "build segs existing (summary_target_tokens q) (summary_hard_limit_tokens q) = Inl e" by blast
    then show ?thesis by (simp add: build_and_validate_summary_def)
  qed
  note bv = this
  let ?in = "summary_rebuild_inputs (fr_frozen fr) (eligible_of (uncovered (fr_stage fr) (fr_frozen fr)) k) (fr_stage fr)"
  have "\<exists>e. try_keep env build fr k = Inl e"
  proof (cases ?in)
    case (Inr x)
    obtain segs existing where x: "x = (segs, existing)" by (cases x)
    from bv obtain e where "build_and_validate_summary (as_senv env) build segs existing (fr_policy fr) = Inl e" by blast
    with Inr x show ?thesis by (simp add: try_keep_def)
  qed (simp add: try_keep_def)
  then show ?thesis by (auto simp: compress_def)
qed

lemma failed_compression:
  assumes "\<forall>segs ex t h. \<exists>e. build segs ex t h = Inl e" "compress_if_needed env build fr prov = (stage, view, rep, entry)"
  shows "stage = fr_stage fr \<and> view = prov"
proof -
  obtain e where "compress env build fr (recent_keep_count (as_senv env) (uncovered (fr_stage fr) (fr_frozen fr)) (fr_policy fr)) = Inl e"
    using failing_builder [OF assms(1)] by blast
  with assms(2) show ?thesis by (auto simp: compress_if_needed_def outcome_of_def Let_def split: if_splits)
qed

text \<open>Also: a failure of the summary builder is contained: whether a step succeeds does not depend on the builder, and
  with a builder that always raises the step stores the summary that was stored before and shows the view
  without compression.\<close>

theorem builder_failure_contained:
  assumes "\<forall>segs ex t h. \<exists>e. build segs ex t h = Inl e"
  shows "is_ok (advance_context_state aenv build now ms ns fixed schemas p pend intr) =
      is_ok (advance_context_state aenv build' now ms ns fixed schemas p pend intr) \<and>
    (\<forall>ns' view. advance_context_state aenv build now ms ns fixed schemas p pend intr = Inr (ns', view) \<longrightarrow>
      (\<exists>frozen cur stage. frozen_step (as_senv aenv) now ms ns p pend intr = Inr (frozen, cur, stage) \<and>
         dict_get ns' ''stage_summary'' = (case stage of None \<Rightarrow> JNull | Some s \<Rightarrow> summary_dict s) \<and>
         assemble_llm_input_messages (as_senv aenv) fixed (drop (nat cur) ms) frozen (obj_items (dict_get ns ''session_context'')) stage = Inr view))"
proof (intro conjI allI impI)
  have "is_ok (advance_context_state aenv b now ms ns fixed schemas p pend intr) \<longleftrightarrow>
      (\<exists>frozen cur stage prov. frozen_step (as_senv aenv) now ms ns p pend intr = Inr (frozen, cur, stage) \<and>
         frame_view aenv (step_frame p schemas fixed ms cur frozen ns stage) stage = Inr prov)" for b
    by (auto simp: advance_context_state_def is_ok_iff result_simps Let_def split: prod.splits)
  then show "is_ok (advance_context_state aenv build now ms ns fixed schemas p pend intr) =
      is_ok (advance_context_state aenv build' now ms ns fixed schemas p pend intr)" by simp
next
  fix ns' view
  assume "advance_context_state aenv build now ms ns fixed schemas p pend intr = Inr (ns', view)"
  then obtain frozen cur stage0 prov stage rep entry where
    f: "frozen_step (as_senv aenv) now ms ns p pend intr = Inr (frozen, cur, stage0)" and
    v: "frame_view aenv (step_frame p schemas fixed ms cur frozen ns stage0) stage0 = Inr prov"
      "compress_if_needed aenv build (step_frame p schemas fixed ms cur frozen ns stage0) prov = (stage, view, rep, entry)" and
    ns': "ns' = store_result (as_senv aenv) ns frozen cur (stage, view, rep, entry)" by (rule advance_cases)
  from failed_compression [OF assms v(2)] have "stage = stage0 \<and> view = prov" by (simp add: step_frame_def)
  with f v(1) stored_fields(3) [OF ns'] show "\<exists>frozen cur stage. frozen_step (as_senv aenv) now ms ns p pend intr = Inr (frozen, cur, stage) \<and>
         dict_get ns' ''stage_summary'' = (case stage of None \<Rightarrow> JNull | Some s \<Rightarrow> summary_dict s) \<and>
         assemble_llm_input_messages (as_senv aenv) fixed (drop (nat cur) ms) frozen (obj_items (dict_get ns ''session_context'')) stage = Inr view"
    by (auto simp: frame_view_def step_frame_def)
qed

section \<open>Concrete instances\<close>

definition ex_aenv :: assembly_env where
  "ex_aenv = \<lparr>as_senv = ex_senv, as_dump = visible_message, as_block = (\<lambda>b. JStr (rb_output b)), as_block_name = rb_id,
     as_class = (\<lambda>e. u ''ValueError'')\<rparr>"

definition ex_failing :: builder where
  "ex_failing = (\<lambda>segs ex t h. Inl (ValueError ''builder''))"

lemma settled_ok: "1 \<le> hot \<Longrightarrow> \<exists>us. settled_prefix ld ms c False False hot = Inr us"
  by (simp add: settled_prefix_def Let_def)

lemma ex_advance_with:
  assumes "l2_hot_turns p = 1"
  shows "\<exists>ns' view. advance_context_state ex_aenv build now ex_messages [] fixed schemas p False False = Inr (ns', view)"
proof -
  have n: "dict_get [] k = JNull" for k by (simp add: dict_get_def jget_def)
  obtain us where us: "settled_prefix (load_result ex_senv) ex_messages 0 False False 1 = Inr us" using settled_ok [of 1 "load_result ex_senv" ex_messages 0] by auto
  from freeze_settled_lemma [OF us, of ex_senv now "[]" 0]
  have "\<exists>r. frozen_step ex_senv now ex_messages [] p False False = Inr r"
    using us by (auto simp: frozen_step_def n int_or_def get_or_def jhas_def py_int_def read_segments_def session_revision_def
        read_stage_def assms)
  then obtain frozen cur stage where f: "frozen_step ex_senv now ex_messages [] p False False = Inr (frozen, cur, stage)"
    by auto
  then have "stage = None" by (auto simp: frozen_step_def n read_stage_def result_simps)
  with f show ?thesis
    by (simp add: advance_context_state_def ex_aenv_def frame_view_def assemble_llm_input_messages_def Let_def)
qed

lemma ex_advance:
  "\<exists>ns' view. advance_context_state ex_aenv build (u ''2026'') ex_messages [] [] JNull (default_policy 1000) False False = Inr (ns', view)"
  by (rule ex_advance_with) (simp add: default_policy_def)

theorem view_complete_witness:
  "\<exists>view mid. assemble_llm_input_messages ex_senv [] ex_messages [ex_segment] [] None = Inr view \<and> view = mid @ ex_messages \<and>
     system_message (segment_text ex_segment) \<in> set mid"
proof -
  obtain view where v: "assemble_llm_input_messages ex_senv [] ex_messages [ex_segment] [] None = Inr view"
    by (simp add: assemble_llm_input_messages_def Let_def)
  from view_complete [OF v] v show ?thesis by auto
qed

theorem recent_kept_witness:
  "recent_keep_count (as_senv ex_aenv) [ex_segment] (default_policy 1000) \<le> 1"
  using recent_kept [OF refl refl, of ex_aenv "[ex_segment]" "default_policy 1000"] by simp

theorem compaction_validates_witness:
  "\<exists>s. build_and_validate_summary ex_senv (summarize_frozen_segments ex_senv) [ex_segment] None (default_policy 1000) = Inr s"
proof -
  from two_builds [OF ex_sha, of ex_aggregate 1 8000] obtain a where
    a: "build_sized_summary ex_senv (aggregate_summary ex_aggregate 1 8000 AGGREGATED) = Inr a" by blast
  with ex_estimate_bounds [of 8000 a] have small: "sm_estimated a \<le> 8000" by simp
  with a have "summarize_frozen_segments ex_senv [ex_segment] None 8000 12000 = Inr a"
    by (subst summarize_eq [OF ex_absorbed]) (simp_all add: next_generation_def ex_aggregate_def)
  then show ?thesis
    using compaction_validates [OF ex_sha, of "[ex_segment]" None "default_policy 1000" a] small
    by (simp add: default_policy_def covered_ids_def)
qed

theorem stored_state_matches_view_witness:
  "\<exists>ns' view frozen cur. advance_context_state ex_aenv ex_failing (u ''2026'') ex_messages [] [] JNull (default_policy 1000) False False =
     Inr (ns', view) \<and> read_segments (as_senv ex_aenv) [] (dict_get ns' ''frozen_segments'') = Inr frozen \<and>
     dict_get ns' ''freeze_cursor'' = JInt cur"
proof -
  obtain ns' view where a: "advance_context_state ex_aenv ex_failing (u ''2026'') ex_messages [] [] JNull (default_policy 1000) False False =
     Inr (ns', view)" using ex_advance by blast
  from stored_state_matches_view [OF a, of "[]"] a show ?thesis by auto
qed

theorem builder_failure_contained_witness:
  "(\<forall>segs ex t h. \<exists>e. ex_failing segs ex t h = Inl e) \<and>
   is_ok (advance_context_state ex_aenv ex_failing (u ''2026'') ex_messages [] [] JNull (default_policy 1000) False False) =
   is_ok (advance_context_state ex_aenv (summarize_frozen_segments ex_senv) (u ''2026'') ex_messages [] [] JNull (default_policy 1000) False False)"
proof -
  have "\<forall>segs ex t h. \<exists>e. ex_failing segs ex t h = Inl e" by (simp add: ex_failing_def)
  from this builder_failure_contained [OF this] show ?thesis by blast
qed

end
