(* ===== verification/Order_Tools.thy ===== *)
theory Order_Tools
  imports Order_Usecases Json Tool_Chunk
begin

text \<open>
  \<open>app/application/tools/order_tools.py\<close>: the three order tools between the arguments of the model, the use
  cases and the event bus. A tool returns its chunk or raises, and the list of events it published in
  the session (type and payload). The buyer and the session come from \<open>ShoppingContext\<close>. \<open>str\<close> of an
  exception, \<open>isoformat\<close> and \<open>repr\<close> of doubles are fields of the environment; \<open>int\<close> of a text too.
\<close>

record shopping_context =
  cx_session :: pystr
  cx_buyer :: pystr

record tool_env =
  te_text :: "exn \<Rightarrow> pystr"
  te_iso :: "datetime \<Rightarrow> pystr"
  te_repr :: "rat \<Rightarrow> pystr"
  te_int :: "pystr \<Rightarrow> int result"

type_synonym emission = "pystr \<times> json"

definition current_session_id :: "shopping_context option \<Rightarrow> pystr" where
  "current_session_id ctx = (case ctx of None \<Rightarrow> u ''anonymous'' | Some c \<Rightarrow> cx_session c)"

definition current_buyer_id :: "shopping_context option \<Rightarrow> pystr" where
  "current_buyer_id ctx = (case ctx of None \<Rightarrow> u ''anonymous'' | Some c \<Rightarrow> cx_buyer c)"

definition ok_chunk :: "tool_env \<Rightarrow> json \<Rightarrow> chunk" where
  "ok_chunk env payload = \<lparr>content = [TextBlock (dumps_plain (te_repr env) payload)], chunk_error = False\<rparr>"

definition fail_chunk :: "tool_env \<Rightarrow> exn \<Rightarrow> chunk" where
  "fail_chunk env e = \<lparr>content = [TextBlock (u ''[error] '' @ te_text env e)], chunk_error = True\<rparr>"

section \<open>Payloads\<close>

definition line_json :: "line_snapshot \<Rightarrow> json" where
  "line_json l = JObj [(u ''product_id'', JStr (snap_product_id l)), (u ''sku_id'', JStr (snap_sku_id l)),
     (u ''title'', JStr (snap_title l)), (u ''unit_price_major'', JFloat (snap_unit_price_major l)),
     (u ''quantity'', JInt (snap_quantity l))]"

definition snapshot_json :: "tool_env \<Rightarrow> order_snapshot \<Rightarrow> json" where
  "snapshot_json env s = JObj [(u ''order_id'', JStr (snap_order_id s)), (u ''buyer_id'', JStr (snap_buyer_id s)),
     (u ''status'', JStr (status_value (snap_status s))), (u ''total_amount_major'', JFloat (snap_total_amount_major s)),
     (u ''currency'', JStr (snap_currency s)), (u ''shipping_address'', JStr (snap_shipping_address s)),
     (u ''lines'', JList (map line_json (snap_lines s))), (u ''created_at'', JStr (te_iso env (snap_created_at s))),
     (u ''cancel_reason'', case snap_cancel_reason s of None \<Rightarrow> JNull | Some r \<Rightarrow> JStr r)]"

definition invoke_event :: "string \<Rightarrow> json \<Rightarrow> emission" where
  "invoke_event tool args = (u ''tool.invoke'', JObj [(u ''tool'', JStr (u tool)), (u ''args'', args)])"

definition error_event :: "tool_env \<Rightarrow> string \<Rightarrow> exn \<Rightarrow> emission" where
  "error_event env tool e = (u ''tool.result'', JObj [(u ''tool'', JStr (u tool)), (u ''error'', JStr (te_text env e))])"

definition order_event :: "tool_env \<Rightarrow> string \<Rightarrow> order_snapshot \<Rightarrow> emission" where
  "order_event env tool s = (u ''tool.result'', JObj [(u ''tool'', JStr (u tool)), (u ''order'', snapshot_json env s)])"

fun is_value_error :: "exn \<Rightarrow> bool" where
  "is_value_error (ValueError m) = True"
| "is_value_error e = False"

fun is_key_error :: "exn \<Rightarrow> bool" where
  "is_key_error (KeyError m) = True"
| "is_key_error e = False"

text \<open>What a tool answers to the outcome of its use case; \<open>caught\<close> is the \<open>except\<close> clause.\<close>

definition answer :: "tool_env \<Rightarrow> string \<Rightarrow> (exn \<Rightarrow> bool) \<Rightarrow> order_snapshot result \<Rightarrow> chunk result \<times> emission list" where
  "answer env tool caught res =
     (case res of
        Inr s \<Rightarrow> (Inr (ok_chunk env (snapshot_json env s)), [order_event env tool s])
      | Inl e \<Rightarrow> if caught e then (Inr (fail_chunk env e), [error_event env tool e]) else (Inl e, []))"

section \<open>Reading the arguments\<close>

text \<open>
  An identifier or an address field is a text. An absent or false value of another kind is like the
  empty text for the fields that are only tested; any other value is outside the model.
\<close>

definition text_item :: "json \<Rightarrow> string \<Rightarrow> pystr result" where
  "text_item v k =
     (if \<not> is_obj v then Inl (TypeError ''item'')
      else if \<not> jhas v k then Inl (KeyError k)
      else case jget v k of JStr s \<Rightarrow> Inr s | _ \<Rightarrow> Inl (OtherError ''not a text''))"

definition read_item :: "tool_env \<Rightarrow> json \<Rightarrow> order_item result" where
  "read_item env v =
     andThen (text_item v ''product_id'') (\<lambda>pid.
     andThen (text_item v ''sku_id'') (\<lambda>sid.
     andThen (py_int (te_int env) (get_or v ''quantity'' (JInt 1))) (\<lambda>q.
       Inr \<lparr>oi_product_id = pid, oi_sku_id = sid, oi_quantity = q\<rparr>)))"

definition address_field :: "json \<Rightarrow> string \<Rightarrow> pystr result" where
  "address_field v k = (case get_or v k (JStr []) of JStr s \<Rightarrow> Inr s
     | w \<Rightarrow> if Json.truthy w then Inl (OtherError ''not a text'') else Inr [])"

definition read_address :: "json \<Rightarrow> address result" where
  "read_address v =
     andThen (address_field v ''recipient_name'') (\<lambda>name.
     andThen (address_field v ''country'') (\<lambda>ctry.
     andThen (address_field v ''state'') (\<lambda>st.
     andThen (address_field v ''city'') (\<lambda>cty.
     andThen (address_field v ''address_line'') (\<lambda>line.
     andThen (address_field v ''postal_code'') (\<lambda>code.
     andThen (address_field v ''phone'') (\<lambda>ph.
       mk_address \<lparr>recipient_name = name, country = ctry, addr_state = st, city = cty, address_line = line,
         postal_code = code, phone = ph\<rparr>)))))))"

section \<open>The tools\<close>

definition create_caught :: "exn \<Rightarrow> bool" where
  "create_caught e \<longleftrightarrow> is_value_error e \<or> is_key_error e"

definition create_order_tool :: "tool_env \<Rightarrow> 's order_port \<Rightarrow> datetime \<Rightarrow> shopping_context option \<Rightarrow> json list \<Rightarrow> json \<Rightarrow>
    catalog \<Rightarrow> 's \<Rightarrow> (chunk result \<times> emission list) \<times> catalog \<times> 's" where
  "create_order_tool env port now ctx its addr cat st =
     (let buyer = current_buyer_id ctx;
          invoke = invoke_event ''create_order_tool'' (JObj [(u ''buyer_id'', JStr buyer), (u ''items'', JList its)]);
          (res, cat', st') =
            (case andThen (mapR (read_item env) its) (\<lambda>xs. andThen (read_address addr) (\<lambda>a. Inr (xs, a))) of
               Inl e \<Rightarrow> (Inl e, cat, st)
             | Inr (xs, a) \<Rightarrow> place_order port now buyer xs a cat st);
          (out, evs) = answer env ''create_order_tool'' create_caught res
      in ((out, invoke # evs), cat', st'))"

definition query_order_tool :: "tool_env \<Rightarrow> 's order_port \<Rightarrow> shopping_context option \<Rightarrow> pystr \<Rightarrow> 's \<Rightarrow>
    (chunk result \<times> emission list) \<times> 's" where
  "query_order_tool env port ctx oid st =
     (let invoke = invoke_event ''query_order_tool'' (JObj [(u ''order_id'', JStr oid)]);
          (res, st') = query_order port (current_buyer_id ctx) oid st;
          (out, evs) = answer env ''query_order_tool'' is_value_error res
      in ((out, invoke # evs), st'))"

definition cancel_order_tool :: "tool_env \<Rightarrow> 's order_port \<Rightarrow> datetime \<Rightarrow> shopping_context option \<Rightarrow> pystr \<Rightarrow> pystr \<Rightarrow>
    catalog \<Rightarrow> 's \<Rightarrow> (chunk result \<times> emission list) \<times> catalog \<times> 's" where
  "cancel_order_tool env port now ctx oid reason cat st =
     (let invoke = invoke_event ''cancel_order_tool'' (JObj [(u ''order_id'', JStr oid), (u ''reason'', JStr reason)]);
          (res, cat', st') = cancel_order port now (current_buyer_id ctx) oid reason cat st;
          (out, evs) = answer env ''cancel_order_tool'' is_value_error res
      in ((out, invoke # evs), cat', st'))"

section \<open>What a call does\<close>

lemma answer_events: "answer env tool caught res = (out, evs) \<Longrightarrow>
   (is_ok out \<longleftrightarrow> (\<exists>p. evs = [(u ''tool.result'', p)])) \<and> (\<not> is_ok out \<longleftrightarrow> evs = [])"
  by (auto simp: answer_def order_event_def error_event_def split: sum.splits if_splits)

lemma answer_error: "answer env tool caught res = (out, evs) \<Longrightarrow> (\<exists>c. out = Inr c \<and> \<not> chunk_error c) \<longleftrightarrow> is_ok res"
  by (auto simp: answer_def ok_chunk_def fail_chunk_def split: sum.splits if_splits)

lemma read_address_ok: "read_address v = Inr a \<Longrightarrow> address_ok a"
  by (auto simp: read_address_def result_simps)

text \<open>What the model is told agrees with what happened.\<close>

definition refused :: "tool_env \<Rightarrow> string \<Rightarrow> (exn \<Rightarrow> bool) \<Rightarrow> chunk result \<Rightarrow> emission list \<Rightarrow> bool" where
  "refused env tool caught out evs \<longleftrightarrow>
     (\<exists>e. caught e \<and> out = Inr (fail_chunk env e) \<and> evs = [error_event env tool e] \<or> \<not> caught e \<and> out = Inl e \<and> evs = [])"

definition reported :: "tool_env \<Rightarrow> string \<Rightarrow> order_snapshot \<Rightarrow> chunk result \<Rightarrow> emission list \<Rightarrow> bool" where
  "reported env tool snap out evs \<longleftrightarrow> out = Inr (ok_chunk env (snapshot_json env snap)) \<and> evs = [order_event env tool snap]"

lemma answer_Inl: "answer env tool caught (Inl e) = (out, evs) \<Longrightarrow> refused env tool caught out evs"
  by (auto simp: answer_def refused_def split: if_splits)

lemma answer_Inr: "answer env tool caught (Inr s) = (out, evs) \<Longrightarrow> reported env tool s out evs"
  by (auto simp: answer_def reported_def)

context order_store
begin

lemma create_tool_cases:
  assumes "inv st" "catalog_ok cat" "\<forall>xs. mapR (read_item env) its = Inr xs \<longrightarrow> items_ok xs"
    and run: "create_order_tool env port now ctx its addr cat st = ((out, evs), cat', st')"
  shows "\<exists>rest. evs = invoke_event ''create_order_tool'' (JObj [(u ''buyer_id'', JStr (current_buyer_id ctx)), (u ''items'', JList its)]) # rest \<and>
    inv st' \<and>
    (refused env ''create_order_tool'' create_caught out rest \<and> cat' = cat \<and> view st' = view st \<or>
     (\<exists>ord snap. reported env ''create_order_tool'' snap out rest \<and> snapshot ord = Inr snap \<and> buyer_id ord = current_buyer_id ctx \<and>
        status ord = CONFIRMED \<and> view st (order_id ord) = None \<and> view st' = (view st)(order_id ord \<mapsto> ord)))"
proof (cases "andThen (mapR (read_item env) its) (\<lambda>xs. andThen (read_address addr) (\<lambda>a. Inr (xs, a)))")
  case (Inl e)
  with run answer_Inl assms(1) show ?thesis by (auto simp: create_order_tool_def Let_def split: prod.splits)
next
  case (Inr p)
  obtain xs a where p: "p = (xs, a)" by (cases p)
  from Inr p assms(3) have its: "items_ok xs" and addr: "address_ok a"
    by (auto simp: result_simps dest: read_address_ok)
  obtain r where pl: "place_order port now (current_buyer_id ctx) xs a cat st = (r, cat', st')"
    and an: "\<exists>rest. answer env ''create_order_tool'' create_caught r = (out, rest) \<and>
      evs = invoke_event ''create_order_tool'' (JObj [(u ''buyer_id'', JStr (current_buyer_id ctx)), (u ''items'', JList its)]) # rest"
    using run Inr p by (auto simp: create_order_tool_def Let_def split: prod.splits)
  from assms(1,2) its addr pl show ?thesis
  proof (cases rule: place_order_cases)
    case (failed e)
    with an answer_Inl show ?thesis by blast
  next
    case (success ord)
    then have "order_ok ord" by (simp add: placed_def stored_ok_def)
    with snapshot_ok obtain snap where "snapshot ord = Inr snap" by blast
    with success an answer_Inr show ?thesis by (fastforce simp: placed_def)
  qed
qed

lemma query_tool_cases:
  assumes "inv st" and run: "query_order_tool env port ctx oid st = ((out, evs), st')"
  shows "\<exists>rest. evs = invoke_event ''query_order_tool'' (JObj [(u ''order_id'', JStr oid)]) # rest \<and> inv st' \<and> view st' = view st \<and>
    (refused env ''query_order_tool'' is_value_error out rest \<or>
     (\<exists>ord snap. reported env ''query_order_tool'' snap out rest \<and> snapshot ord = Inr snap \<and> view st oid = Some ord \<and>
        buyer_id ord = current_buyer_id ctx))"
proof -
  obtain r where q: "query_order port (current_buyer_id ctx) oid st = (r, st')"
    and an: "\<exists>rest. answer env ''query_order_tool'' is_value_error r = (out, rest) \<and>
      evs = invoke_event ''query_order_tool'' (JObj [(u ''order_id'', JStr oid)]) # rest"
    using run by (auto simp: query_order_tool_def Let_def split: prod.splits)
  note spec = query_order_spec [OF assms(1) q]
  show ?thesis
  proof (cases r)
    case (Inl e)
    with an answer_Inl spec show ?thesis by blast
  next
    case (Inr snap)
    with spec obtain ord where "view st oid = Some ord" "buyer_id ord = current_buyer_id ctx" "snapshot ord = Inr snap" by blast
    with an [unfolded Inr] answer_Inr spec show ?thesis by blast
  qed
qed

lemma cancel_tool_cases:
  assumes "inv st" "catalog_ok cat"
    and run: "cancel_order_tool env port now ctx oid reason cat st = ((out, evs), cat', st')"
  shows "\<exists>rest. evs = invoke_event ''cancel_order_tool'' (JObj [(u ''order_id'', JStr oid), (u ''reason'', JStr reason)]) # rest \<and>
    inv st' \<and>
    (refused env ''cancel_order_tool'' is_value_error out rest \<and> cat' = cat \<and> view st' = view st \<or>
     (\<exists>ord ord' snap. reported env ''cancel_order_tool'' snap out rest \<and> snapshot ord' = Inr snap \<and> view st oid = Some ord \<and>
        buyer_id ord = current_buyer_id ctx \<and> cancel now reason ord = Inr ord' \<and> view st' = (view st)(oid \<mapsto> ord')))"
proof -
  obtain r where q: "cancel_order port now (current_buyer_id ctx) oid reason cat st = (r, cat', st')"
    and an: "\<exists>rest. answer env ''cancel_order_tool'' is_value_error r = (out, rest) \<and>
      evs = invoke_event ''cancel_order_tool'' (JObj [(u ''order_id'', JStr oid), (u ''reason'', JStr reason)]) # rest"
    using run by (auto simp: cancel_order_tool_def Let_def split: prod.splits)
  from an obtain rest where rest: "answer env ''cancel_order_tool'' is_value_error r = (out, rest)"
    and evs: "evs = invoke_event ''cancel_order_tool'' (JObj [(u ''order_id'', JStr oid), (u ''reason'', JStr reason)]) # rest" by blast
  from assms(1,2) q show ?thesis
  proof (cases rule: cancel_order_cases)
    case (failed e)
    with rest answer_Inl have "refused env ''cancel_order_tool'' is_value_error out rest" by simp
    with failed evs show ?thesis by simp
  next
    case (success ord ord')
    from view_law [OF assms(1) success(1)] have "order_ok ord" by (simp add: stored_ok_def)
    with snapshot_ok [OF cancel_ok [OF this success(3)]] obtain snap where snap: "snapshot ord' = Inr snap" by blast
    with success(4) rest answer_Inr have "reported env ''cancel_order_tool'' snap out rest" by simp
    with success snap evs show ?thesis by auto
  qed
qed

end

section \<open>The properties\<close>


text \<open>C16: the query and cancel tools act only for the buyer of the session: a snapshot is shown only of an order of
  that buyer, a cancellation changes only such an order and only by cancelling it, and with every error
  stock and orders are as before.\<close>

theorem order_tools_owner_only:
  assumes "sql_inv st" "catalog_ok cat"
    "query_order_tool env sql_port ctx oid st = ((out1, evs1), st1)"
    "cancel_order_tool env sql_port now ctx oid reason cat st = ((out2, evs2), cat2, st2)"
  shows "(\<exists>rest. evs1 = invoke_event ''query_order_tool'' (JObj [(u ''order_id'', JStr oid)]) # rest \<and>
      sql_inv st1 \<and> sql_view st1 = sql_view st \<and>
      (refused env ''query_order_tool'' is_value_error out1 rest \<or>
       (\<exists>ord snap. reported env ''query_order_tool'' snap out1 rest \<and> snapshot ord = Inr snap \<and> sql_view st oid = Some ord \<and>
          buyer_id ord = current_buyer_id ctx))) \<and>
    (\<exists>rest. evs2 = invoke_event ''cancel_order_tool'' (JObj [(u ''order_id'', JStr oid), (u ''reason'', JStr reason)]) # rest \<and>
      sql_inv st2 \<and>
      (refused env ''cancel_order_tool'' is_value_error out2 rest \<and> cat2 = cat \<and> sql_view st2 = sql_view st \<or>
       (\<exists>ord ord' snap. reported env ''cancel_order_tool'' snap out2 rest \<and> snapshot ord' = Inr snap \<and> sql_view st oid = Some ord \<and>
          buyer_id ord = current_buyer_id ctx \<and> cancel now reason ord = Inr ord' \<and> sql_view st2 = (sql_view st)(oid \<mapsto> ord'))))"
  by (rule conjI [OF sql.query_tool_cases [OF assms(1,3)] sql.cancel_tool_cases [OF assms(1,2,4)]])

section \<open>Concrete instances\<close>

definition ex_tenv :: tool_env where
  "ex_tenv = \<lparr>te_text = (\<lambda>e. u ''error''), te_iso = (\<lambda>t. dec (nat t)), te_repr = (\<lambda>r. u ''0.0''),
     te_int = (\<lambda>t. Inl (ValueError ''int''))\<rparr>"

definition ex_ctx :: "shopping_context option" where
  "ex_ctx = Some \<lparr>cx_session = u ''s1'', cx_buyer = u ''ann''\<rparr>"

definition ex_items :: "json list" where
  "ex_items = [JObj [(u ''product_id'', JStr (u ''P1'')), (u ''sku_id'', JStr (u ''S1'')), (u ''quantity'', JInt 2)]]"

definition ex_addr_json :: json where
  "ex_addr_json = JObj (map (\<lambda>k. (u k, JStr (u ''x''))) [''recipient_name'', ''country'', ''city'', ''address_line''])"

definition ex_created :: "(chunk result \<times> emission list) \<times> catalog \<times> sql_db" where
  "ex_created = create_order_tool ex_tenv sql_port 7 ex_ctx ex_items ex_addr_json ex_catalog (sql_empty [])"

lemma ex_items_read: "mapR (read_item ex_tenv) ex_items = Inr [ex_item ''P1'' ''S1'' 2]"
  by code_simp

lemma ex_items_nonneg: "\<forall>xs. mapR (read_item ex_tenv) ex_items = Inr xs \<longrightarrow> items_ok xs"
  by (simp add: ex_items_read items_ok_def ex_item_def)

lemma ex_created_ok: "length (snd (fst ex_created)) = 2 \<and> (case fst (fst ex_created) of Inr c \<Rightarrow> \<not> chunk_error c | Inl e \<Rightarrow> False)"
  by code_simp


theorem order_tools_owner_only_witness:
  "\<exists>e rest. snd (fst (query_order_tool ex_tenv sql_port ex_ctx (u ''none'') (sql_empty []))) =
     invoke_event ''query_order_tool'' (JObj [(u ''order_id'', JStr (u ''none''))]) # rest \<and> rest = [error_event ex_tenv ''query_order_tool'' e]"
proof -
  let ?q = "query_order_tool ex_tenv sql_port ex_ctx (u ''none'') (sql_empty [])"
  let ?c = "cancel_order_tool ex_tenv sql_port 9 ex_ctx (u ''none'') (u ''late'') ex_catalog (sql_empty [])"
  have q: "?q = ((fst (fst ?q), snd (fst ?q)), snd ?q)" and c: "?c = ((fst (fst ?c), snd (fst ?c)), fst (snd ?c), snd (snd ?c))" by simp_all
  have "is_ok (fst (fst ?q))" by code_simp
  then have "\<exists>x. fst (fst ?q) = Inr x" by (simp add: is_ok_iff)
  then have "refused ex_tenv ''query_order_tool'' is_value_error (fst (fst ?q)) rest \<Longrightarrow>
      \<exists>e. rest = [error_event ex_tenv ''query_order_tool'' e]" for rest by (auto simp: refused_def)
  with order_tools_owner_only [OF sql_inv_empty ex_catalog_ok q c] show ?thesis by (auto simp: sql_view_empty)
qed

end
