(* ===== verification/Search_Dispatch.thy ===== *)
theory Search_Dispatch
  imports Catalog_Search Order_Tools Event_Bus
begin

text \<open>
  \<open>app/application/tools/product_search_tool.py\<close> and \<open>task_dispatch_tool.py\<close>: the search tool that selects a use
  case by platform and site, publishes its result with the identifier of the dispatch it runs in, and
  the dispatch that reads its own agent's last result back from the events of the session. A use case is
  a function of the specification; messages of the tool's own errors are short names.
\<close>

section \<open>Results as JSON\<close>

definition text_or_null :: "pystr option \<Rightarrow> json" where
  "text_or_null t = (case t of None \<Rightarrow> JNull | Some s \<Rightarrow> JStr s)"

definition quote_json :: "quote_dict \<Rightarrow> json" where
  "quote_json q = JObj [(u ''ship_to'', JStr (qd_ship_to q)), (u ''subtotal_major'', JFloat (qd_subtotal_major q)),
     (u ''freight_major'', JFloat (qd_freight_major q)), (u ''tariff_major'', JFloat (qd_tariff_major q)),
     (u ''tariff_rate'', JFloat (qd_tariff_rate q)), (u ''de_minimis_applied'', JBool (qd_de_minimis_applied q)),
     (u ''landed_total_major'', JFloat (qd_landed_total_major q)), (u ''currency'', JStr (qd_currency q))]"

definition sku_card_json :: "sku_card \<Rightarrow> json" where
  "sku_card_json s = JObj [(u ''sku_id'', JStr (sc_sku_id s)), (u ''spec'', JStr (sc_spec s)),
     (u ''price_major'', JFloat (sc_price_major s)), (u ''currency'', JStr (sc_currency s)), (u ''stock'', JInt (sc_stock s))]"

definition card_json :: "product_card \<Rightarrow> json" where
  "card_json c = JObj ([(u ''product_id'', JStr (pc_product_id c)), (u ''title'', JStr (pc_title c)),
     (u ''brand'', JStr (pc_brand c)), (u ''category'', JStr (pc_category c)), (u ''origin_country'', JStr (pc_origin_country c)),
     (u ''price_major'', JFloat (pc_price_major c)), (u ''currency'', JStr (pc_currency c)),
     (u ''highlights'', JList (map JStr (pc_highlights c))), (u ''skus'', JList (map sku_card_json (pc_skus c))),
     (u ''score'', JFloat (pc_score c))]
     @ (case pc_landed_price c of NO_QUOTE \<Rightarrow> [] | LANDED q \<Rightarrow> [(u ''landed_price'', quote_json q)]
          | UNAVAILABLE why \<Rightarrow> [(u ''landed_price'', JObj [(u ''unavailable_reason'', JStr (u why))])]))"

definition reason_text :: "reject \<Rightarrow> pystr" where
  "reason_text r = (case r of SHIP_TO_UNAVAILABLE \<Rightarrow> u ''ship_to_unavailable'' | OVER_PRICE_CAP \<Rightarrow> u ''over_price_cap'')"

definition rejected_json :: "rejected \<Rightarrow> json" where
  "rejected_json r = JObj [(u ''product_id'', JStr (rej_product_id r)), (u ''title'', JStr (rej_title r)),
     (u ''category'', JStr (rej_category r)), (u ''price_major'', JFloat (rej_price_major r)),
     (u ''currency'', JStr (rej_currency r)), (u ''reason'', JStr (reason_text (rej_reason r)))]"

definition strategy_text :: "strategy \<Rightarrow> pystr" where
  "strategy_text s = (case s of EMBEDDING_RERANK \<Rightarrow> u ''embedding_rerank'' | EMBEDDING_ONLY \<Rightarrow> u ''embedding_only''
     | KEYWORD_2GRAM \<Rightarrow> u ''keyword_2gram'')"

definition hits_json :: "search_result \<Rightarrow> json" where
  "hits_json r = JList (map card_json (hits r))"

definition filtered_json :: "search_result \<Rightarrow> json" where
  "filtered_json r = JList (map rejected_json (filtered_out r))"

definition result_json :: "search_result \<Rightarrow> json" where
  "result_json r = JObj ([(u ''hits'', hits_json r), (u ''total_candidates'', JInt (int (total_candidates r))),
     (u ''recall_strategy'', JStr (strategy_text (recall_strategy r))), (u ''rerank_applied'', JBool (rerank_applied r))]
     @ (if filtered_out r = [] then [] else [(u ''filtered_out'', filtered_json r)]))"

section \<open>Selecting a use case\<close>

type_synonym usecase = "search_spec \<Rightarrow> search_result result"

datatype usecases = Single usecase | Multi "(pystr, usecase) dict"

definition PLATFORMS :: "pystr list" where
  "PLATFORMS = map u [''crossshop_reference'', ''reference_seed'', ''amazon'']"

definition AMAZON_SITE_LOCALES :: "pystr list" where
  "AMAZON_SITE_LOCALES = map u [''us'', ''es'', ''jp'']"

fun multi_platform :: "usecases \<Rightarrow> bool" where
  "multi_platform (Single uc) = False"
| "multi_platform (Multi ucs) = True"

definition validate_selection :: "pystr option \<Rightarrow> pystr option \<Rightarrow> bool \<Rightarrow> string option" where
  "validate_selection pl site multi =
     (case pl of
        None \<Rightarrow> if multi then Some ''platform required'' else if site \<noteq> None then Some ''site_locale without amazon'' else None
      | Some p \<Rightarrow>
          if p \<notin> set PLATFORMS then Some ''unsupported platform''
          else (case site of
                  None \<Rightarrow> None
                | Some s \<Rightarrow> if p \<noteq> u ''amazon'' then Some ''site_locale without amazon''
                            else if s \<notin> set AMAZON_SITE_LOCALES then Some ''unsupported site'' else None))"

definition select_usecase :: "usecases \<Rightarrow> pystr option \<Rightarrow> pystr option \<Rightarrow> usecase result" where
  "select_usecase ucs pl site =
     (case ucs of
        Single uc \<Rightarrow> Inr uc
      | Multi d \<Rightarrow>
          (case (case site of Some s \<Rightarrow> Some (u ''amazon:'' @ s) | None \<Rightarrow> pl) of
             None \<Rightarrow> Inl (ValueError ''platform search not wired'')
           | Some k \<Rightarrow> (case map_of d k of None \<Rightarrow> Inl (ValueError ''platform search not wired'') | Some uc \<Rightarrow> Inr uc)))"

text \<open>The checks of \<open>build_product_search_tool\<close> on the fixed platform and site.\<close>

definition build_check :: "pystr option \<Rightarrow> pystr option \<Rightarrow> unit result" where
  "build_check fixed_pl fixed_site =
     (if fixed_pl \<noteq> None \<and> the fixed_pl \<notin> set PLATFORMS then Inl (ValueError ''unsupported platform'')
      else if fixed_site \<noteq> None \<and> fixed_pl \<noteq> Some (u ''amazon'') then Inl (ValueError ''site_locale without amazon'')
      else if fixed_site \<noteq> None \<and> the fixed_site \<notin> set AMAZON_SITE_LOCALES then Inl (ValueError ''unsupported site'')
      else Inr ())"

section \<open>The search tool\<close>

record search_args =
  sa_query :: pystr
  sa_platform :: "pystr option"
  sa_site :: "pystr option"
  sa_category :: "pystr option"
  sa_ship_to :: "pystr option"
  sa_locale :: pystr
  sa_top_k :: json
  sa_price_max :: json
  sa_currency :: pystr

text \<open>\<open>a or b\<close> on optional texts.\<close>

definition or_text :: "pystr option \<Rightarrow> pystr option \<Rightarrow> pystr option" where
  "or_text a b = (if Catalog.truthy a then a else b)"

text \<open>A number that came as a text is converted; a value the declared types exclude is outside the model.\<close>

definition top_k_of :: "tool_env \<Rightarrow> json \<Rightarrow> int result" where
  "top_k_of env v = (case v of JInt i \<Rightarrow> Inr i | JStr s \<Rightarrow> te_int env s | _ \<Rightarrow> Inl (OtherError ''top_k''))"

definition price_of :: "(pystr \<Rightarrow> rat result) \<Rightarrow> json \<Rightarrow> rat option result" where
  "price_of float_text v = (case v of JNull \<Rightarrow> Inr None | JInt i \<Rightarrow> Inr (Some (of_int i)) | JFloat r \<Rightarrow> Inr (Some r)
     | JStr s \<Rightarrow> andThen (float_text s) (\<lambda>r. Inr (Some r)) | _ \<Rightarrow> Inl (OtherError ''price_max_major''))"

definition price_json :: "json \<Rightarrow> rat option \<Rightarrow> json" where
  "price_json v r = (case v of JStr s \<Rightarrow> JFloat (the r) | _ \<Rightarrow> v)"

definition args_json :: "search_args \<Rightarrow> pystr option \<Rightarrow> pystr option \<Rightarrow> int \<Rightarrow> rat option \<Rightarrow> json" where
  "args_json a pl site k cap = JObj [(u ''normalized_query'', JStr (sa_query a)), (u ''platform'', text_or_null pl),
     (u ''site_locale'', text_or_null site), (u ''category'', text_or_null (sa_category a)), (u ''ship_to'', text_or_null (sa_ship_to a)),
     (u ''locale'', JStr (sa_locale a)), (u ''top_k'', JInt k), (u ''price_max_major'', price_json (sa_price_max a) cap),
     (u ''target_currency'', JStr (sa_currency a))]"

definition spec_of :: "search_args \<Rightarrow> int \<Rightarrow> rat option \<Rightarrow> search_spec" where
  "spec_of a k cap = \<lparr>normalized_query = sa_query a, spec_category = sa_category a, ship_to = sa_ship_to a,
     locale_tag = sa_locale a, top_k = k, target_currency = sa_currency a, price_max_major = cap\<rparr>"

definition search_head :: "pystr option \<Rightarrow> pystr option \<Rightarrow> json \<Rightarrow> pystr option \<Rightarrow> (pystr \<times> json) list" where
  "search_head pl site args corr = [(u ''tool'', JStr (u ''product_search_tool'')), (u ''platform'', text_or_null pl),
     (u ''site_locale'', text_or_null site), (u ''args'', args), (u ''dispatch_correlation_id'', text_or_null corr)]"

definition search_invoke :: "json \<Rightarrow> pystr option \<Rightarrow> emission" where
  "search_invoke args corr = (u ''tool.invoke'', JObj [(u ''tool'', JStr (u ''product_search_tool'')), (u ''args'', args),
     (u ''dispatch_correlation_id'', text_or_null corr)])"

definition search_failed :: "tool_env \<Rightarrow> pystr option \<Rightarrow> pystr option \<Rightarrow> json \<Rightarrow> pystr option \<Rightarrow> exn \<Rightarrow> emission" where
  "search_failed env pl site args corr e =
     (u ''tool.result'', JObj (search_head pl site args corr @ [(u ''error'', JStr (te_text env e))]))"

definition search_done :: "pystr option \<Rightarrow> pystr option \<Rightarrow> json \<Rightarrow> pystr option \<Rightarrow> search_result \<Rightarrow> emission" where
  "search_done pl site args corr r =
     (u ''tool.result'', JObj (search_head pl site args corr
        @ [(u ''hit_count'', JInt (int (length (hits r)))), (u ''filtered_count'', JInt (int (length (filtered_out r)))),
           (u ''recall_strategy'', JStr (strategy_text (recall_strategy r))), (u ''hits'', hits_json r), (u ''filtered_out'', filtered_json r)]))"

definition run_search :: "usecases \<Rightarrow> search_args \<Rightarrow> pystr option \<Rightarrow> pystr option \<Rightarrow> int \<Rightarrow> rat option \<Rightarrow> search_result result" where
  "run_search ucs a pl site k cap =
     andThen (mk_search_spec (spec_of a k cap)) (\<lambda>spec. andThen (select_usecase ucs pl site) (\<lambda>uc. uc spec))"

definition product_search_tool :: "tool_env \<Rightarrow> (pystr \<Rightarrow> rat result) \<Rightarrow> usecases \<Rightarrow> pystr option \<Rightarrow> pystr option \<Rightarrow>
    pystr option \<Rightarrow> search_args \<Rightarrow> chunk result \<times> emission list" where
  "product_search_tool env float_text ucs fixed_pl fixed_site corr a =
     (let pl = or_text fixed_pl (sa_platform a); site = or_text fixed_site (sa_site a)
      in if fixed_pl \<noteq> None \<and> sa_platform a \<notin> {None, fixed_pl} then (Inr (error_chunk ''platform is fixed''), [])
         else if fixed_site \<noteq> None \<and> sa_site a \<notin> {None, fixed_site} then (Inr (error_chunk ''site is fixed''), [])
         else (case validate_selection pl site (multi_platform ucs) of
           Some why \<Rightarrow> (Inr (error_chunk why), [])
         | None \<Rightarrow>
         (case top_k_of env (sa_top_k a) of
           Inl e \<Rightarrow> if is_value_error e then (Inr (error_chunk ''top_k''), []) else (Inl e, [])
         | Inr k \<Rightarrow>
         (case price_of float_text (sa_price_max a) of
           Inl e \<Rightarrow> if is_value_error e then (Inr (error_chunk ''price_max_major''), []) else (Inl e, [])
         | Inr cap \<Rightarrow>
           (let args = args_json a pl site k cap
            in case run_search ucs a pl site k cap of
                 Inl e \<Rightarrow> if is_value_error e
                   then (Inr (fail_chunk env e), [search_invoke args corr, search_failed env pl site args corr e])
                   else (Inl e, [search_invoke args corr])
               | Inr r \<Rightarrow> (Inr (ok_chunk env (result_json r)), [search_invoke args corr, search_done pl site args corr r]))))))"

section \<open>Reading a result back from the events of the session\<close>

record found =
  fd_args :: json
  fd_hits :: json
  fd_filtered :: json
  fd_strategy :: json

text \<open>The tests of the loop of \<open>_latest_search_result\<close>; a missing key reads like null.\<close>

definition wanted :: "pystr option \<Rightarrow> pystr option \<Rightarrow> pystr option \<Rightarrow> json trade_event \<Rightarrow> bool" where
  "wanted corr pl site ev \<longleftrightarrow>
     (let p = ev_payload ev
      in ev_type ev = u ''tool.result'' \<and> is_obj p \<and> jget p ''tool'' = JStr (u ''product_search_tool'') \<and>
         \<not> Json.truthy (jget p ''error'') \<and> jget p ''dispatch_correlation_id'' = text_or_null corr \<and>
         jget p ''platform'' = text_or_null pl \<and> jget p ''site_locale'' = text_or_null site \<and> is_jlist (jget p ''hits''))"

text \<open>\<open>dict(x or \{\})\<close> and \<open>list(x or [])\<close>; a true value of another kind is outside the model.\<close>

definition read_found :: "json \<Rightarrow> found result" where
  "read_found p =
     (let a = if Json.truthy (jget p ''args'') then jget p ''args'' else JObj [];
          f = if Json.truthy (jget p ''filtered_out'') then jget p ''filtered_out'' else JList []
      in if \<not> is_obj a then Inl (OtherError ''args'')
         else if \<not> is_jlist f then Inl (OtherError ''filtered_out'')
         else Inr \<lparr>fd_args = a, fd_hits = jget p ''hits'', fd_filtered = f, fd_strategy = jget p ''recall_strategy''\<rparr>)"

fun latest_from :: "pystr option \<Rightarrow> pystr option \<Rightarrow> pystr option \<Rightarrow> found option \<Rightarrow> json trade_event list \<Rightarrow> found option result" where
  "latest_from corr pl site latest [] = Inr latest"
| "latest_from corr pl site latest (ev # evs) =
     (if wanted corr pl site ev
      then andThen (read_found (ev_payload ev)) (\<lambda>f. latest_from corr pl site (Some f) evs)
      else latest_from corr pl site latest evs)"

definition latest_search_result :: "pystr option \<Rightarrow> pystr option \<Rightarrow> pystr option \<Rightarrow> json trade_event list \<Rightarrow> found option result" where
  "latest_search_result corr pl site evs = latest_from corr pl site None evs"

section \<open>The dispatch\<close>

text \<open>
  One run of the tool: the identifier \<open>uuid4\<close> gives, what the clock reads (start, finish and the two
  events), what the sub-agent answers, and what happens on the bus while it works: its own tools,
  other dispatches, other sessions, in the order in which they happen.
\<close>

record dispatch_run =
  dr_corr :: pystr
  dr_clock :: "nat \<Rightarrow> pystr"
  dr_elapsed :: int
  dr_ops :: "json bus_op list"
  dr_reply :: "pystr option result"

definition dispatch_refusal :: "pystr \<Rightarrow> pystr option \<Rightarrow> pystr option \<Rightarrow> string option" where
  "dispatch_refusal agent pl site =
     (if agent = u ''trade_agent'' \<and> (Catalog.truthy pl \<or> Catalog.truthy site) then Some ''trade_agent takes no platform''
      else if agent = u ''search_agent'' \<and> pl = None then Some ''search_agent needs a platform''
      else if site \<noteq> None \<and> pl \<noteq> Some (u ''amazon'') then Some ''site_locale without amazon'' else None)"

definition dispatch_corr :: "pystr \<Rightarrow> dispatch_run \<Rightarrow> pystr option" where
  "dispatch_corr agent run = (if agent = u ''search_agent'' then Some (dr_corr run) else None)"

definition dispatch_event :: "pystr \<Rightarrow> pystr \<Rightarrow> pystr option \<Rightarrow> pystr option \<Rightarrow> dispatch_run \<Rightarrow> json" where
  "dispatch_event agent demands pl site run = JObj [(u ''agent'', JStr agent), (u ''demands'', JStr demands),
     (u ''platform'', text_or_null pl), (u ''site_locale'', text_or_null site),
     (u ''dispatch_correlation_id'', text_or_null (dispatch_corr agent run)), (u ''started_at'', JStr (dr_clock run 0))]"

definition dispatch_result_event :: "pystr \<Rightarrow> pystr option \<Rightarrow> pystr option \<Rightarrow> dispatch_run \<Rightarrow> json" where
  "dispatch_result_event agent pl site run = JObj [(u ''tool'', JStr (u ''task_dispatch'')), (u ''agent'', JStr agent),
     (u ''platform'', text_or_null pl), (u ''site_locale'', text_or_null site),
     (u ''dispatch_correlation_id'', text_or_null (dispatch_corr agent run)), (u ''started_at'', JStr (dr_clock run 0)),
     (u ''finished_at'', JStr (dr_clock run 2)), (u ''elapsed_ms'', JInt (dr_elapsed run))]"

definition search_output :: "tool_env \<Rightarrow> pystr option \<Rightarrow> pystr option \<Rightarrow> found option \<Rightarrow> pystr \<Rightarrow> pystr" where
  "search_output env pl site latest text = dumps_plain (te_repr env) (JObj [(u ''agent'', JStr (u ''search_agent'')),
     (u ''platform'', text_or_null pl), (u ''site_locale'', text_or_null site),
     (u ''search_result_available'', JBool (latest \<noteq> None)),
     (u ''search_args'', case latest of None \<Rightarrow> JObj [] | Some f \<Rightarrow> fd_args f),
     (u ''hits'', case latest of None \<Rightarrow> JList [] | Some f \<Rightarrow> fd_hits f),
     (u ''filtered_out'', case latest of None \<Rightarrow> JList [] | Some f \<Rightarrow> fd_filtered f),
     (u ''recall_strategy'', case latest of None \<Rightarrow> JNull | Some f \<Rightarrow> fd_strategy f),
     (u ''agent_output'', JStr text)])"

definition text_chunk :: "pystr \<Rightarrow> chunk" where
  "text_chunk t = \<lparr>content = [TextBlock t], chunk_error = False\<rparr>"

text \<open>Taking everything out of a queue.\<close>

definition drain :: "nat \<Rightarrow> json event_bus \<Rightarrow> json trade_event list \<times> json event_bus" where
  "drain q b = (get_list (queues b) q, b\<lparr>queues := AList.update q [] (queues b)\<rparr>)"

definition dispatch_finish :: "bool \<Rightarrow> pystr \<Rightarrow> pystr \<Rightarrow> pystr option \<Rightarrow> pystr option \<Rightarrow> dispatch_run \<Rightarrow> pystr result \<Rightarrow>
    json event_bus \<Rightarrow> chunk result \<times> json event_bus" where
  "dispatch_finish has_loop sid agent pl site run output b =
     (case output of
        Inl e \<Rightarrow> (Inl e, b)
      | Inr t \<Rightarrow> (Inr (text_chunk t),
          snd (publish has_loop (dr_clock run 3) sid (u ''tool.result'') (dispatch_result_event agent pl site run) b)))"

definition reply_text :: "pystr option \<Rightarrow> pystr" where
  "reply_text t = (case t of None \<Rightarrow> [] | Some x \<Rightarrow> x)"

definition task_dispatch :: "tool_env \<Rightarrow> bool \<Rightarrow> shopping_context option \<Rightarrow> dispatch_run \<Rightarrow> pystr \<Rightarrow> pystr \<Rightarrow> pystr option \<Rightarrow>
    pystr option \<Rightarrow> json event_bus \<Rightarrow> chunk result \<times> json event_bus" where
  "task_dispatch env has_loop ctx run agent demands pl site b =
     (case dispatch_refusal agent pl site of
        Some why \<Rightarrow> (Inr (error_chunk why), b)
      | None \<Rightarrow>
          (let sid = current_session_id ctx;
               b1 = snd (publish has_loop (dr_clock run 1) sid (u ''agent.dispatch'') (dispatch_event agent demands pl site run) b)
           in if agent = u ''search_agent''
              then (case build_check pl site of
                      Inl e \<Rightarrow> (Inl e, b1)
                    | Inr _ \<Rightarrow>
                        (let (q, b2) = subscribe sid b1;
                             (captured, b3) = drain q (bus_run (dr_ops run) b2);
                             output = andThen (dr_reply run) (\<lambda>t.
                               andThen (latest_search_result (Some (dr_corr run)) pl site captured) (\<lambda>latest.
                                 Inr (search_output env pl site latest (reply_text t))))
                         in dispatch_finish has_loop sid agent pl site run output (unsubscribe sid q b3)))
              else if agent = u ''trade_agent''
              then dispatch_finish has_loop sid agent pl site run (andThen (dr_reply run) (\<lambda>t. Inr (reply_text t)))
                     (bus_run (dr_ops run) b1)
              else (Inr (error_chunk ''unknown subagent_type''), b1)))"

section \<open>What one call of the search tool publishes\<close>

definition own :: "pystr option \<Rightarrow> json trade_event \<Rightarrow> bool" where
  "own corr ev \<longleftrightarrow> jget (ev_payload ev) ''dispatch_correlation_id'' = text_or_null corr"

definition emitted :: "json trade_event list \<Rightarrow> emission list" where
  "emitted evs = map (\<lambda>ev. (ev_type ev, ev_payload ev)) evs"

definition found_of :: "json \<Rightarrow> search_result \<Rightarrow> found" where
  "found_of args r = \<lparr>fd_args = args, fd_hits = hits_json r, fd_filtered = filtered_json r,
     fd_strategy = JStr (strategy_text (recall_strategy r))\<rparr>"

lemma args_json_obj [simp]: "is_obj (args_json a pl site k cap)" "Json.truthy (args_json a pl site k cap)"
  by (simp_all add: args_json_def)

lemma search_tool_cases:
  assumes "product_search_tool env float_text ucs fixed_pl fixed_site corr a = (out, evs)"
  obtains (nothing) "\<And>c. out = Inr c \<Longrightarrow> chunk_error c" "evs = []"
  | (raised) args e where "out = Inl e" "evs = [search_invoke args corr]"
  | (failed) args e where "out = Inr (fail_chunk env e)" "is_value_error e"
      "evs = [search_invoke args corr, search_failed env (or_text fixed_pl (sa_platform a)) (or_text fixed_site (sa_site a)) args corr e]"
  | (searched) k cap r where "out = Inr (ok_chunk env (result_json r))" "sa_platform a \<in> {None, fixed_pl} \<or> fixed_pl = None"
      "sa_site a \<in> {None, fixed_site} \<or> fixed_site = None"
      "evs = (let pl = or_text fixed_pl (sa_platform a); site = or_text fixed_site (sa_site a); args = args_json a pl site k cap
              in [search_invoke args corr, search_done pl site args corr r])"
  using assms
  by (auto simp: product_search_tool_def Let_def error_chunk_def split: if_splits option.splits sum.splits)

lemma truthy_text_or_null: "Json.truthy (text_or_null t) \<longleftrightarrow> Catalog.truthy t"
  by (auto simp: text_or_null_def Catalog.truthy_def split: option.split)

text \<open>Keys of the fixed payloads.\<close>

lemma search_payload_keys:
  "jget (JObj (search_head pl site args corr @ rest)) ''tool'' = JStr (u ''product_search_tool'')"
  "jget (JObj (search_head pl site args corr @ rest)) ''platform'' = text_or_null pl"
  "jget (JObj (search_head pl site args corr @ rest)) ''site_locale'' = text_or_null site"
  "jget (JObj (search_head pl site args corr @ rest)) ''args'' = args"
  "jget (JObj (search_head pl site args corr @ rest)) ''dispatch_correlation_id'' = text_or_null corr"
  "jget (JObj (search_head pl site args corr @ rest)) ''error'' = jget (JObj rest) ''error''"
  "jget (JObj (search_head pl site args corr @ rest)) ''hits'' = jget (JObj rest) ''hits''"
  "jget (JObj (search_head pl site args corr @ rest)) ''filtered_out'' = jget (JObj rest) ''filtered_out''"
  "jget (JObj (search_head pl site args corr @ rest)) ''recall_strategy'' = jget (JObj rest) ''recall_strategy''"
  by (simp_all add: search_head_def jget_def)

lemma not_wanted_invoke: "(ev_type ev, ev_payload ev) = search_invoke args c \<Longrightarrow> \<not> wanted corr pl site ev"
  by (simp add: search_invoke_def wanted_def)

lemma not_wanted_failed: "(ev_type ev, ev_payload ev) = search_failed env p s args c e \<Longrightarrow> \<not> wanted corr pl site ev"
  by (simp add: search_failed_def wanted_def Let_def search_payload_keys) (simp add: jget_def)

lemma text_or_null_eq [simp]: "text_or_null a = text_or_null b \<longleftrightarrow> a = b"
  by (auto simp: text_or_null_def split: option.split)

lemma wanted_done: "(ev_type ev, ev_payload ev) = search_done p s args c r \<Longrightarrow>
    wanted corr pl site ev \<longleftrightarrow> c = corr \<and> p = pl \<and> s = site"
  by (simp add: search_done_def wanted_def Let_def search_payload_keys) (simp add: jget_def hits_json_def)

lemma filtered_or_empty: "(if Json.truthy (filtered_json r) then filtered_json r else JList []) = filtered_json r"
  by (simp add: filtered_json_def)

lemma read_found_done: "(ev_type ev, ev_payload ev) = search_done p s args c r \<Longrightarrow> is_obj args \<Longrightarrow> Json.truthy args \<Longrightarrow>
    read_found (ev_payload ev) = Inr (found_of args r)"
  by (simp add: search_done_def read_found_def Let_def search_payload_keys)
    (simp add: jget_def found_of_def filtered_or_empty filtered_json_def)

lemma latest_from_append:
  "latest_from corr pl site l (xs @ ys) = andThen (latest_from corr pl site l xs) (\<lambda>l'. latest_from corr pl site l' ys)"
proof (induction xs arbitrary: l)
  case (Cons x xs)
  then show ?case by (cases "read_found (ev_payload x)") simp_all
qed simp

lemma latest_from_own: "latest_from corr pl site l (filter (own corr) evs) = latest_from corr pl site l evs"
proof (induction evs arbitrary: l)
  case (Cons ev evs)
  have "wanted corr pl site ev \<Longrightarrow> own corr ev" by (simp add: wanted_def own_def Let_def)
  with Cons show ?case by auto
qed simp

text \<open>Reading one call: a failed one changes nothing, a search of this platform and site is the new latest.\<close>

lemma latest_of_call:
  assumes run: "product_search_tool env float_text ucs (Some p) fixed_site corr a = (out, em)" and em: "emitted evs = em" and p: "p \<noteq> []"
  shows "\<exists>l'. latest_from corr (Some p) site l evs = Inr l' \<and>
    ((\<forall>c. out = Inr c \<longrightarrow> chunk_error c) \<longrightarrow> l' = l) \<and>
    (\<forall>c. out = Inr c \<and> \<not> chunk_error c \<and> or_text fixed_site (sa_site a) = site \<longrightarrow>
       (\<exists>args r. c = ok_chunk env (result_json r) \<and> l' = Some (found_of args r)))"
  using run
proof (cases rule: search_tool_cases)
  case nothing
  with em show ?thesis by (auto simp: emitted_def)
next
  case (raised args e)
  with em show ?thesis by (auto simp: emitted_def not_wanted_invoke)
next
  case (failed args e)
  with em obtain e1 e2 where "evs = [e1, e2]" "(ev_type e1, ev_payload e1) = search_invoke args corr"
    "(ev_type e2, ev_payload e2) = search_failed env (or_text (Some p) (sa_platform a)) (or_text fixed_site (sa_site a)) args corr e"
    by (auto simp: emitted_def map_eq_Cons_conv)
  with failed show ?thesis by (simp add: not_wanted_invoke not_wanted_failed fail_chunk_def)
next
  case (searched k cap r)
  let ?s = "or_text fixed_site (sa_site a)"
  let ?args = "args_json a (Some p) ?s k cap"
  have sel: "or_text (Some p) (sa_platform a) = Some p" using p by (simp add: or_text_def Catalog.truthy_def)
  from searched em sel obtain e1 e2 where "evs = [e1, e2]" "(ev_type e1, ev_payload e1) = search_invoke ?args corr"
    "(ev_type e2, ev_payload e2) = search_done (Some p) ?s ?args corr r"
    by (auto simp: emitted_def map_eq_Cons_conv Let_def)
  with searched(1) show ?thesis
    by (auto simp: not_wanted_invoke wanted_done read_found_done ok_chunk_def)
qed

section \<open>The dispatch on the bus\<close>

lemma next_queue_publish: "next_queue (snd (publish l now s t p b)) = next_queue b"
  by simp

text \<open>What the queue of the dispatch holds when the sub-agent returns: the events of its session since it was created.\<close>

lemma captured_events:
  assumes "bus_ok b" "subscribe sid b = (q, b2)" "Unsubscribe sid (next_queue b) \<notin> set ops"
  shows "get_list (queues (bus_run ops b2)) q = concat (map (events_of sid) ops)"
proof -
  have "b2 = bus_step (Subscribe sid) b" using assms(2) by simp
  then have "bus_ok b2" using bus_ok_step [OF assms(1), of "Subscribe sid"] by (simp del: bus_step.simps)
  moreover have "q \<in> set (get_list (subscribers b2) sid)" "get_list (queues b2) q = []" "q = next_queue b"
    using assms(2) by (auto simp: subscribe_def Let_def)
  ultimately show ?thesis using bus_run_queue assms(3) by fastforce
qed

definition session_events :: "shopping_context option \<Rightarrow> dispatch_run \<Rightarrow> json trade_event list" where
  "session_events ctx run = concat (map (events_of (current_session_id ctx)) (dr_ops run))"

lemma dispatch_finish_fst: "fst (dispatch_finish l sid agent pl site run output b) = andThen output (\<lambda>t. Inr (text_chunk t))"
  by (simp add: dispatch_finish_def split: sum.split)

text \<open>The answer of a dispatch of the search agent as a function of the events of its session.\<close>

lemma search_dispatch_answer:
  assumes "bus_ok b" "Unsubscribe (current_session_id ctx) (next_queue b) \<notin> set (dr_ops run)"
    "dispatch_refusal (u ''search_agent'') pl site = None" "build_check pl site = Inr ()"
  shows "fst (task_dispatch env has_loop ctx run (u ''search_agent'') demands pl site b) =
    andThen (dr_reply run) (\<lambda>t. andThen (latest_from (Some (dr_corr run)) pl site None (session_events ctx run))
      (\<lambda>latest. Inr (text_chunk (search_output env pl site latest (reply_text t)))))"
proof -
  let ?sid = "current_session_id ctx"
  let ?b1 = "snd (publish has_loop (dr_clock run 1) ?sid (u ''agent.dispatch'') (dispatch_event (u ''search_agent'') demands pl site run) b)"
  obtain q b2 where sub: "subscribe ?sid ?b1 = (q, b2)" by (cases "subscribe ?sid ?b1")
  have "bus_ok ?b1" using bus_ok_step [OF assms(1), of "Publish has_loop (dr_clock run 1) ?sid (u ''agent.dispatch'') _"] by simp
  from captured_events [OF this sub] assms(2)
  have "get_list (queues (bus_run (dr_ops run) b2)) q = session_events ctx run"
    by (simp add: session_events_def)
  with assms(3,4) sub show ?thesis
    by (simp add: task_dispatch_def Let_def drain_def dispatch_finish_fst latest_search_result_def)
      (cases "dr_reply run"; cases "latest_from (Some (dr_corr run)) pl site None (session_events ctx run)"; simp)
qed

text \<open>C17: dispatches of one session do not leak into each other: what a dispatch of the search agent answers depends,
  beside the sub-agent's reply, only on the events of its session that carry its own identifier, in
  their order, whatever other dispatches and other sessions publish, subscribe or unsubscribe in between.\<close>

theorem dispatch_isolation:
  assumes "bus_ok b" "Unsubscribe (current_session_id ctx) (next_queue b) \<notin> set (dr_ops run)"
    "bus_ok b'" "Unsubscribe (current_session_id ctx) (next_queue b') \<notin> set (dr_ops run')"
    "dr_corr run' = dr_corr run" "dr_reply run' = dr_reply run"
    "filter (own (Some (dr_corr run))) (session_events ctx run') = filter (own (Some (dr_corr run))) (session_events ctx run)"
  shows "fst (task_dispatch env has_loop' ctx run' (u ''search_agent'') demands pl site b') =
    fst (task_dispatch env has_loop ctx run (u ''search_agent'') demands pl site b)"
proof (cases "dispatch_refusal (u ''search_agent'') pl site")
  case None
  show ?thesis
  proof (cases "build_check pl site")
    case (Inr x)
    then have c: "build_check pl site = Inr ()" by simp
    have "latest_from (Some (dr_corr run)) pl site None (session_events ctx run') =
        latest_from (Some (dr_corr run)) pl site None (session_events ctx run)"
      by (subst (1 2) latest_from_own [symmetric]) (simp only: assms(7))
    with search_dispatch_answer [OF assms(1,2) None c] search_dispatch_answer [OF assms(3,4) None c] assms(5,6)
    show ?thesis by simp
  qed (simp add: task_dispatch_def None)
qed (simp add: task_dispatch_def)

lemma emitted_append: "emitted evs = as @ bs \<Longrightarrow> \<exists>xs ys. evs = xs @ ys \<and> emitted xs = as \<and> emitted ys = bs"
  by (auto simp: emitted_def map_eq_append_conv)

lemma latest_of_calls:
  assumes "p \<noteq> []"
  shows "emitted evs = concat (map (\<lambda>a. snd (product_search_tool env float_text ucs (Some p) fixed_site corr a)) calls) \<Longrightarrow>
    \<exists>l'. latest_from corr (Some p) site l evs = Inr l' \<and>
      ((\<forall>a\<in>set calls. \<forall>c. fst (product_search_tool env float_text ucs (Some p) fixed_site corr a) = Inr c \<longrightarrow> chunk_error c) \<longrightarrow> l' = l)"
proof (induction calls arbitrary: evs l)
  case Nil
  then show ?case by (simp add: emitted_def)
next
  case (Cons a calls)
  obtain out em where run: "product_search_tool env float_text ucs (Some p) fixed_site corr a = (out, em)" by fastforce
  with Cons.prems obtain xs ys where evs: "evs = xs @ ys" "emitted xs = em"
    and ys: "emitted ys = concat (map (\<lambda>a. snd (product_search_tool env float_text ucs (Some p) fixed_site corr a)) calls)"
    by (auto simp: emitted_def map_eq_append_conv)
  obtain l1 where l1: "latest_from corr (Some p) site l xs = Inr l1" "(\<forall>c. out = Inr c \<longrightarrow> chunk_error c) \<longrightarrow> l1 = l"
    using latest_of_call [OF run evs(2) assms] by blast
  obtain l2 where l2: "latest_from corr (Some p) site l1 ys = Inr l2"
    "(\<forall>a\<in>set calls. \<forall>c. fst (product_search_tool env float_text ucs (Some p) fixed_site corr a) = Inr c \<longrightarrow> chunk_error c) \<longrightarrow> l2 = l1"
    using Cons.IH [OF ys] by blast
  from l1 l2 run show ?case by (auto simp: evs(1) latest_from_append)
qed


section \<open>Concrete instances\<close>

definition ex_rejected :: rejected where
  "ex_rejected = \<lparr>rej_product_id = u ''P9'', rej_title = u ''bag'', rej_category = [], rej_price_major = 900,
     rej_currency = u ''CNY'', rej_reason = OVER_PRICE_CAP\<rparr>"

definition ex_found :: search_result where
  "ex_found = \<lparr>hits = [], total_candidates = 3, recall_strategy = KEYWORD_2GRAM, rerank_applied = False, filtered_out = [ex_rejected]\<rparr>"

definition ex_ucs :: usecases where
  "ex_ucs = Multi [(u ''amazon'', \<lambda>spec. Inr ex_found)]"

definition ex_search_args :: search_args where
  "ex_search_args = \<lparr>sa_query = u ''bag'', sa_platform = None, sa_site = None, sa_category = None, sa_ship_to = None,
     sa_locale = u ''zh-CN'', sa_top_k = JInt 5, sa_price_max = JInt 300, sa_currency = u ''CNY''\<rparr>"

definition ex_tool :: "string \<Rightarrow> chunk result \<times> emission list" where
  "ex_tool corr = product_search_tool ex_tenv (\<lambda>t. Inl (ValueError ''float'')) ex_ucs (Some (u ''amazon'')) None (Some (u corr)) ex_search_args"

definition ex_publish :: "string \<Rightarrow> json bus_op list" where
  "ex_publish corr = map (\<lambda>(t, p). Publish True (u ''t'') (u ''s1'') t p) (snd (ex_tool corr))"

definition ex_run :: "json bus_op list \<Rightarrow> dispatch_run" where
  "ex_run ops = \<lparr>dr_corr = u ''c1'', dr_clock = (\<lambda>n. u ''t''), dr_elapsed = 5, dr_ops = ops, dr_reply = Inr (Some (u ''done''))\<rparr>"

definition ex_dispatch :: "json bus_op list \<Rightarrow> chunk result" where
  "ex_dispatch ops = fst (task_dispatch ex_tenv True ex_ctx (ex_run ops) (u ''search_agent'') (u ''a bag'') (Some (u ''amazon'')) None empty_bus)"

lemma ex_own: "filter (own (Some (u ''c1''))) (session_events ex_ctx (ex_run (ex_publish ''c1''))) =
    session_events ex_ctx (ex_run (ex_publish ''c1'')) \<and>
  filter (own (Some (u ''c1''))) (session_events ex_ctx (ex_run (ex_publish ''c2'' @ ex_publish ''c1'' @ [Unsubscribe (u ''s1'') 7] @ ex_publish ''c2''))) =
    session_events ex_ctx (ex_run (ex_publish ''c1''))"
  by code_simp

lemma ex_emitted: "emitted (session_events ex_ctx (ex_run (ex_publish ''c1''))) = snd (ex_tool ''c1'')"
  by code_simp

lemma ex_no_unsubscribe:
  "Unsubscribe (current_session_id ex_ctx) 0 \<notin> set (ex_publish ''c1'')"
  "Unsubscribe (current_session_id ex_ctx) 0 \<notin> set (ex_publish ''c2'')"
  by (auto simp: ex_publish_def)

lemma ex_searched: "case fst (ex_tool ''c1'') of Inr c \<Rightarrow> \<not> chunk_error c | Inl e \<Rightarrow> False"
  by code_simp

lemma ex_dispatch_ok: "dispatch_refusal (u ''search_agent'') (Some (u ''amazon'')) None = None"
    "build_check (Some (u ''amazon'')) None = Inr ()"
  by code_simp+

theorem dispatch_isolation_witness:
  "ex_dispatch (ex_publish ''c2'' @ ex_publish ''c1'' @ [Unsubscribe (u ''s1'') 7] @ ex_publish ''c2'') = ex_dispatch (ex_publish ''c1'')"
  unfolding ex_dispatch_def
  by (rule dispatch_isolation [OF bus_ok_empty _ bus_ok_empty])
    (use ex_own ex_no_unsubscribe in \<open>auto simp: ex_run_def empty_bus_def\<close>)


end
