(* ===== verification/Caches.thy ===== *)
theory Caches
  imports Preferences Redis Json
begin

text \<open>
  \<open>app/infrastructure/cache/cached_embedding_client.py\<close> and \<open>semantic_cache.py\<close> over \<open>RedisCache\<close>. Both see the cache
  through two calls (\<open>cache_port\<close>), which may raise; what a store may answer is the relation \<open>holds\<close> of
  the locale \<open>memo_store\<close>, with which the clients are proved once, whatever commands fail or keys expire.
  SHA-256 and \<open>math.sqrt\<close> are parameters, and so is the embedding service.
\<close>

section \<open>The cache as its clients see it\<close>

record 's cache_port =
  cget :: "pystr \<Rightarrow> 's \<Rightarrow> json option result \<times> 's"
  cset :: "pystr \<Rightarrow> json \<Rightarrow> rat \<Rightarrow> 's \<Rightarrow> unit result \<times> 's"

locale memo_store =
  fixes port :: "'s cache_port" and holds :: "'s \<Rightarrow> pystr \<Rightarrow> json \<Rightarrow> bool"
  assumes get_holds: "cget port k s = (Inr (Some v), s') \<Longrightarrow> holds s k v"
    and get_keeps: "cget port k s = (r, s') \<Longrightarrow> holds s' j w \<Longrightarrow> holds s j w"
    and set_holds: "cset port k v ttl s = (q, s') \<Longrightarrow> holds s' j w \<Longrightarrow> j = k \<and> w = v \<or> holds s j w"

text \<open>A store that only holds values of a function of the text behind the key.\<close>

definition memo_sound :: "('s \<Rightarrow> pystr \<Rightarrow> json \<Rightarrow> bool) \<Rightarrow> (pystr \<Rightarrow> pystr) \<Rightarrow> (pystr \<Rightarrow> json) \<Rightarrow> 's \<Rightarrow> bool" where
  "memo_sound holds key vec s \<longleftrightarrow> (\<forall>t v. holds s (key t) v \<longrightarrow> v = vec t)"

section \<open>The wrapper of the server\<close>

definition redis_port :: "json redis cache_port" where
  "redis_port = \<lparr>cget = (\<lambda>k r. (Inr (fst (get_json k r)), snd (get_json k r))),
     cset = (\<lambda>k v ttl r. (Inr (), snd (set_json k v ttl r)))\<rparr>"

definition redis_holds :: "json redis \<Rightarrow> pystr \<Rightarrow> json \<Rightarrow> bool" where
  "redis_holds r k v \<longleftrightarrow> live r k = Some (Json v) \<or> (\<exists>t. live r k = Some (Text t) \<and> parse_text r t = Some v)"

lemma redis_holds_outcomes [simp]: "redis_holds (r\<lparr>command_fails := fs\<rparr>) = redis_holds r"
  by (simp add: redis_holds_def fun_eq_iff)

lemma parse_text_kept [simp]: "parse_text (drop_key k r) = parse_text r" "parse_text (store k c ttl r) = parse_text r"
  by (simp_all add: drop_key_def store_def)

lemma redis_holds_drop: "redis_holds (drop_key k r) j w \<Longrightarrow> redis_holds r j w"
  by (auto simp: redis_holds_def live_drop split: if_splits)

lemma redis_holds_store: "redis_holds (store k (Json v) ttl r) j w \<Longrightarrow> j = k \<and> w = v \<or> redis_holds r j w"
  by (auto simp: redis_holds_def store_def live_def map_of_update split: if_splits option.splits prod.splits)

lemma redis_delete_holds: "redis_holds (snd (cache_delete k r)) j w \<Longrightarrow> redis_holds r j w"
  by (auto simp: cache_delete_def command_def dest: redis_holds_drop split: if_splits list.splits)

lemma redis_get_cases:
  assumes "get_json k r = (v, r')"
  shows "(v \<noteq> None \<longrightarrow> redis_holds r k (the v)) \<and> (redis_holds r' j w \<longrightarrow> redis_holds r j w)"
proof (cases "connected r")
  case True
  obtain c s where g: "get_cell k r = (c, s)" by fastforce
  from g have "(c = None \<or> c = live r k) \<and> (\<exists>fs. s = r\<lparr>command_fails := fs\<rparr>)"
    by (auto simp: get_cell_def command_def split: list.splits if_splits intro: exI [of _ "command_fails r"])
  then obtain fs where c: "c = None \<or> c = live r k" and s: "s = r\<lparr>command_fails := fs\<rparr>" by blast
  have drop: "redis_holds (snd (cache_delete k s)) j w \<Longrightarrow> redis_holds r j w"
    using redis_delete_holds [of k s j w] by (simp add: s)
  show ?thesis
    using assms True c drop
    by (auto simp: get_json_def g s redis_holds_def split: option.splits cell.splits)
qed (use assms in \<open>simp add: get_json_def\<close>)

lemma redis_get_holds: "fst (get_json k r) = Some v \<Longrightarrow> redis_holds r k v"
  using redis_get_cases [OF prod.collapse [symmetric], of k r] by simp

lemma redis_get_keeps: "redis_holds (snd (get_json k r)) j w \<Longrightarrow> redis_holds r j w"
  using redis_get_cases [OF prod.collapse [symmetric], of k r] by simp

lemma redis_set_cases: "redis_holds (snd (set_json k v ttl r)) j w \<Longrightarrow> j = k \<and> w = v \<or> redis_holds r j w"
  by (auto simp: set_json_def command_def dest: redis_holds_store split: if_splits list.splits)

interpretation redis_memo: memo_store redis_port redis_holds
proof
  fix k :: pystr and s s' v j w r q and ttl :: rat
  show "cget redis_port k s = (Inr (Some v), s') \<Longrightarrow> redis_holds s k v"
    by (auto simp: redis_port_def intro: redis_get_holds)
  show "cget redis_port k s = (r, s') \<Longrightarrow> redis_holds s' j w \<Longrightarrow> redis_holds s j w"
    by (auto simp: redis_port_def intro: redis_get_keeps)
  show "cset redis_port k v ttl s = (q, s') \<Longrightarrow> redis_holds s' j w \<Longrightarrow> j = k \<and> w = v \<or> redis_holds s j w"
    using redis_set_cases [of k v ttl s j w] by (auto simp: redis_port_def)
qed

section \<open>The cached embedding client\<close>

record 's emb_state =
  es_hits :: int
  es_misses :: int
  es_cache :: 's

definition EMB_TTL_SECONDS :: rat where "EMB_TTL_SECONDS = 7 * 24 * 3600"

definition emb_key :: "(pystr \<Rightarrow> pystr) \<Rightarrow> pystr \<Rightarrow> pystr \<Rightarrow> pystr" where
  "emb_key hash model text = u ''emb:'' @ model @ u '':'' @ hash (model @ [10] @ text)"

definition safe_get :: "'s cache_port \<Rightarrow> pystr \<Rightarrow> 's \<Rightarrow> json option \<times> 's" where
  "safe_get port k s = (case cget port k s of (Inl e, s') \<Rightarrow> (None, s') | (Inr v, s') \<Rightarrow> (v, s'))"

definition safe_set :: "'s cache_port \<Rightarrow> pystr \<Rightarrow> json \<Rightarrow> 's \<Rightarrow> 's" where
  "safe_set port k v s = snd (cset port k v EMB_TTL_SECONDS s)"

text \<open>The first loop of \<open>embed_batch\<close>: a result or a gap for each text, and the gaps with their positions.\<close>

fun probe :: "'s cache_port \<Rightarrow> (pystr \<Rightarrow> pystr) \<Rightarrow> nat \<Rightarrow> pystr list \<Rightarrow> 's emb_state \<Rightarrow>
    (json option list \<times> (nat \<times> pystr) list) \<times> 's emb_state" where
  "probe port key i [] st = (([], []), st)"
| "probe port key i (t # ts) st =
     (let (cached, c) = safe_get port (key t) (es_cache st)
      in if cached \<noteq> None \<and> is_jlist (the cached) \<and> list_items (the cached) \<noteq> []
         then let ((rs, ps), st') = probe port key (i + 1) ts (st\<lparr>es_hits := es_hits st + 1, es_cache := c\<rparr>)
              in ((cached # rs, ps), st')
         else let ((rs, ps), st') = probe port key (i + 1) ts (st\<lparr>es_misses := es_misses st + 1, es_cache := c\<rparr>)
              in ((None # rs, (i, t) # ps), st'))"

fun fill :: "'s cache_port \<Rightarrow> (pystr \<Rightarrow> pystr) \<Rightarrow> ((nat \<times> pystr) \<times> json) list \<Rightarrow> json option list \<Rightarrow> 's \<Rightarrow>
    json option list \<times> 's" where
  "fill port key [] rs s = (rs, s)"
| "fill port key (((i, t), v) # xs) rs s = fill port key xs (rs[i := Some v]) (safe_set port (key t) v s)"

definition cached_embed_batch :: "'s cache_port \<Rightarrow> (pystr \<Rightarrow> pystr) \<Rightarrow> (pystr list \<Rightarrow> json list result) \<Rightarrow> pystr list \<Rightarrow>
    's emb_state \<Rightarrow> json list result \<times> 's emb_state" where
  "cached_embed_batch port key inner texts st =
     (if texts = [] then (Inr [], st)
      else let ((rs, ps), st1) = probe port key 0 texts st;
               (filled, st2) = (if ps = [] then (Inr rs, st1)
                  else case inner (map snd ps) of
                      Inl e \<Rightarrow> (Inl e, st1)
                    | Inr fresh \<Rightarrow> let (rs', c) = fill port key (zip ps fresh) rs (es_cache st1) in (Inr rs', st1\<lparr>es_cache := c\<rparr>))
           in case filled of
                Inl e \<Rightarrow> (Inl e, st2)
              | Inr rs' \<Rightarrow> if None \<in> set rs' then (Inl (OtherError ''RuntimeError''), st2) else (Inr (map the rs'), st2))"

definition cached_embed :: "'s cache_port \<Rightarrow> (pystr \<Rightarrow> pystr) \<Rightarrow> (pystr list \<Rightarrow> json list result) \<Rightarrow> pystr \<Rightarrow>
    's emb_state \<Rightarrow> json result \<times> 's emb_state" where
  "cached_embed port key inner t st =
     (case cached_embed_batch port key inner [t] st of (Inl e, st') \<Rightarrow> (Inl e, st') | (Inr vs, st') \<Rightarrow> (Inr (hd vs), st'))"

context memo_store
begin

lemma safe_get_sound:
  assumes "memo_sound holds key vec s" "safe_get port k s = (v, s')"
  shows "memo_sound holds key vec s' \<and> (\<forall>t. k = key t \<and> v \<noteq> None \<longrightarrow> v = Some (vec t))"
proof -
  obtain r s1 where g: "cget port k s = (r, s1)" by fastforce
  with assms(2) have s1: "s1 = s'" by (auto simp: safe_get_def split: sum.splits)
  have "memo_sound holds key vec s'" using assms(1) get_keeps [OF g] by (auto simp: memo_sound_def s1)
  moreover have "v = Some (vec t)" if "k = key t" "v \<noteq> None" for t
  proof -
    from that g assms(2) obtain x where "r = Inr (Some x)" "v = Some x" by (auto simp: safe_get_def split: sum.splits)
    with get_holds g assms(1) that show ?thesis by (auto simp: memo_sound_def)
  qed
  ultimately show ?thesis by blast
qed

lemma safe_set_sound:
  assumes "memo_sound holds key vec s" "inj key"
  shows "memo_sound holds key vec (safe_set port (key t) (vec t) s)"
proof -
  obtain q s' where "cset port (key t) (vec t) EMB_TTL_SECONDS s = (q, s')" by fastforce
  with set_holds assms show ?thesis by (fastforce simp: memo_sound_def safe_set_def dest: injD)
qed

lemma probe_sound:
  assumes "probe port key i ts st = ((rs, ps), st')" "memo_sound holds key vec (es_cache st)"
  shows "memo_sound holds key vec (es_cache st') \<and> length rs = length ts \<and>
    es_hits st' + es_misses st' = es_hits st + es_misses st + int (length ts) \<and>
    (\<forall>(k, t)\<in>set ps. \<exists>j<length ts. k = i + j \<and> t = ts ! j) \<and>
    (\<forall>j<length ts. rs ! j = Some (vec (ts ! j)) \<or> rs ! j = None \<and> i + j \<in> fst ` set ps)"
  using assms
proof (induction ts arbitrary: i st rs ps st')
  case (Cons t ts)
  obtain v c where g: "safe_get port (key t) (es_cache st) = (v, c)" by fastforce
  note s = safe_get_sound [OF Cons.prems(2) g]
  define st1 where "st1 = (if v \<noteq> None \<and> is_jlist (the v) \<and> list_items (the v) \<noteq> []
    then st\<lparr>es_hits := es_hits st + 1, es_cache := c\<rparr> else st\<lparr>es_misses := es_misses st + 1, es_cache := c\<rparr>)"
  obtain rs1 ps1 st2 where rec: "probe port key (i + 1) ts st1 = ((rs1, ps1), st2)" by (metis prod.exhaust)
  have st1: "es_cache st1 = c" "es_hits st1 + es_misses st1 = es_hits st + es_misses st + 1" by (simp_all add: st1_def)
  note ih = Cons.IH [OF rec, unfolded st1(1), OF conjunct1 [OF s]]
  have st': "st' = st2" and cases: "rs = v # rs1 \<and> ps = ps1 \<and> v = Some (vec t) \<or> rs = None # rs1 \<and> ps = (i, t) # ps1"
    using Cons.prems(1) g rec s by (auto simp: st1_def Let_def split: if_splits)
  have ps: "\<forall>(k, x)\<in>set ps1. \<exists>j<length (t # ts). k = i + j \<and> x = (t # ts) ! j"
  proof clarify
    fix k x assume "(k, x) \<in> set ps1"
    with ih obtain j where "j < length ts" "k = i + 1 + j" "x = ts ! j" by fastforce
    then show "\<exists>j<length (t # ts). k = i + j \<and> x = (t # ts) ! j" by (intro exI [of _ "Suc j"]) simp
  qed
  have "\<forall>j<length (t # ts). rs ! j = Some (vec ((t # ts) ! j)) \<or> rs ! j = None \<and> i + j \<in> fst ` set ps"
  proof clarify
    fix j assume j: "j < length (t # ts)" "\<not> (rs ! j = None \<and> i + j \<in> fst ` set ps)"
    show "rs ! j = Some (vec ((t # ts) ! j))"
    proof (cases j)
      case 0
      with cases j(2) show ?thesis by auto
    next
      case (Suc n)
      with ih j(1) have "rs1 ! n = Some (vec (ts ! n)) \<or> rs1 ! n = None \<and> i + 1 + n \<in> fst ` set ps1" by simp
      with cases j(2) Suc show ?thesis by auto
    qed
  qed
  moreover have "\<forall>(k, x)\<in>set ps. \<exists>j<length (t # ts). k = i + j \<and> x = (t # ts) ! j"
    using ps cases by auto
  moreover have "length rs = length (t # ts)" using ih cases by auto
  ultimately show ?case using ih st1(2) by (simp add: st')
qed simp

lemma fill_sound:
  assumes "fill port key (zip ps (map (vec \<circ> snd) ps)) rs s = (rs', s')" "memo_sound holds key vec s" "inj key"
    "\<forall>(k, t)\<in>set ps. k < length rs"
  shows "memo_sound holds key vec s' \<and> length rs' = length rs \<and>
    (\<forall>j<length rs. rs' ! j = rs ! j \<and> j \<notin> fst ` set ps \<or> (\<exists>t. (j, t) \<in> set ps \<and> rs' ! j = Some (vec t)))"
  using assms
proof (induction ps arbitrary: rs s)
  case (Cons p ps)
  obtain i t where p: "p = (i, t)" by fastforce
  let ?rs = "rs[i := Some (vec t)]"
  have ih: "memo_sound holds key vec s' \<and> length rs' = length ?rs \<and>
    (\<forall>j<length ?rs. rs' ! j = ?rs ! j \<and> j \<notin> fst ` set ps \<or> (\<exists>t. (j, t) \<in> set ps \<and> rs' ! j = Some (vec t)))"
    using Cons.prems safe_set_sound [of key vec s t]
    by (intro Cons.IH [of ?rs "safe_set port (key t) (vec t) s"]) (auto simp: p)
  have i: "i < length rs" using Cons.prems(4) by (simp add: p)
  show ?case
  proof (intro conjI allI impI)
    fix j assume "j < length rs"
    with ih i show "rs' ! j = rs ! j \<and> j \<notin> fst ` set (p # ps) \<or> (\<exists>t. (j, t) \<in> set (p # ps) \<and> rs' ! j = Some (vec t))"
    proof (cases "j = i")
      case True
      with ih i have "rs' ! i = Some (vec t) \<or> (\<exists>x. (i, x) \<in> set ps \<and> rs' ! i = Some (vec x))" by fastforce
      with True show ?thesis by (auto simp: p)
    next
      case False
      with ih i \<open>j < length rs\<close> have "rs' ! j = rs ! j \<and> j \<notin> fst ` set ps \<or> (\<exists>x. (j, x) \<in> set ps \<and> rs' ! j = Some (vec x))" by auto
      with False show ?thesis by (auto simp: p)
    qed
  qed (use ih in simp_all)
qed simp

lemma cached_batch_transparent:
  assumes "cached_embed_batch port key inner texts st = (out, st')" "memo_sound holds key vec (es_cache st)" "inj key"
    "\<forall>ps vs. inner ps = Inr vs \<longrightarrow> vs = map vec ps"
  shows "memo_sound holds key vec (es_cache st') \<and>
    es_hits st' + es_misses st' = es_hits st + es_misses st + int (length texts) \<and>
    (out = Inr (map vec texts) \<or> (\<exists>e ps. out = Inl e \<and> inner ps = Inl e \<and> set ps \<subseteq> set texts))"
proof (cases "texts = []")
  case False
  obtain rs ps st1 where p: "probe port key 0 texts st = ((rs, ps), st1)" by (metis prod.exhaust)
  note ps = probe_sound [OF p assms(2)]
  have sub: "set (map snd ps) \<subseteq> set texts" using ps by fastforce
  have whole: "rs' = map (Some \<circ> vec) texts" if "length rs' = length texts" "\<forall>j<length texts. rs' ! j = Some (vec (texts ! j))" for rs'
    using that by (simp add: list_eq_iff_nth_eq)
  show ?thesis
  proof (cases "ps = []")
    case True
    with ps whole [of rs] have "rs = map (Some \<circ> vec) texts" by auto
    with assms(1) False p True ps show ?thesis by (auto simp: cached_embed_batch_def o_def image_iff split: if_splits)
  next
    case nonempty: False
    show ?thesis
    proof (cases "inner (map snd ps)")
      case (Inl e)
      with assms(1) False p nonempty have "out = Inl e" "st' = st1" by (simp_all add: cached_embed_batch_def)
      with ps Inl sub show ?thesis by blast
    next
      case (Inr fresh)
      have fresh: "fresh = map (vec \<circ> snd) ps" using assms(4) [rule_format, OF Inr] by simp
      obtain rs' c where f: "fill port key (zip ps (map (vec \<circ> snd) ps)) rs (es_cache st1) = (rs', c)" by fastforce
      have bound: "\<forall>(k, t)\<in>set ps. k < length rs" using ps by fastforce
      note fs = fill_sound [OF f _ assms(3) bound]
      have "rs' = map (Some \<circ> vec) texts" by (rule whole) (use fs ps in \<open>fastforce+\<close>)
      with assms(1) False p nonempty Inr fresh f ps fs show ?thesis by (auto simp: cached_embed_batch_def o_def image_iff split: if_splits)
    qed
  qed
qed (use assms in \<open>simp add: cached_embed_batch_def\<close>)

end

text \<open>C26: the embedding cache is transparent: whatever Redis commands fail and whatever keys have expired, a batch
  gets for every text, in its position, the vector the service itself would give, it raises only when
  the service raises on some of its texts, and the cache then again holds nothing but such vectors. Hits
  and misses together count the texts.\<close>

theorem embedding_cache_transparent:
  assumes "cached_embed_batch redis_port (emb_key hash model) inner texts st = (out, st')"
    "memo_sound redis_holds (emb_key hash model) vec (es_cache st)" "inj hash"
    "\<forall>ps vs. inner ps = Inr vs \<longrightarrow> vs = map vec ps"
  shows "memo_sound redis_holds (emb_key hash model) vec (es_cache st') \<and>
    es_hits st' + es_misses st' = es_hits st + es_misses st + int (length texts) \<and>
    (out = Inr (map vec texts) \<or> (\<exists>e ps. out = Inl e \<and> inner ps = Inl e \<and> set ps \<subseteq> set texts))"
proof -
  have "inj (emb_key hash model)" using assms(3) by (auto simp: inj_def emb_key_def)
  from redis_memo.cached_batch_transparent [OF assms(1,2) this assms(4)] show ?thesis .
qed

section \<open>The semantic cache\<close>

text \<open>\<open>sc_digest\<close> gives the first sixteen hex digits of the SHA-256 of a text.\<close>

record 's sem_cache =
  sc_port :: "'s cache_port"
  sc_enabled :: bool
  sc_namespace :: pystr
  sc_threshold :: rat
  sc_digest :: "pystr \<Rightarrow> pystr"
  sc_sqrt :: "rat \<Rightarrow> rat"
  sc_embed :: "pystr \<Rightarrow> rat list result"

record semantic_hit =
  sh_reply :: pystr
  sh_similarity :: rat
  sh_matched_query :: pystr
  sh_displayed :: "json list"

definition SEM_TTL_SECONDS :: rat where "SEM_TTL_SECONDS = 24 * 3600"
definition BUCKET_LIMIT :: nat where "BUCKET_LIMIT = 30"

text \<open>The alternatives of the pattern are plain texts, so a search finds one of them as a substring.\<close>

definition UNSAFE_PATTERNS :: "pystr list" where
  "UNSAFE_PATTERNS =
    [[19979, 21333],
     [20080, 20102],
     [36141, 20080],
     [20184, 27454],
     [25903, 20184],
     [21462, 28040],
     [36864, 21333],
     [36864, 27454],
     [25913, 22320, 22336],
     [21018, 25165],
     [21018, 21018],
     [19978, 38754],
     [21069, 38754],
     [37027, 20010],
     [36825, 20010],
     [23427],
     [25105, 30340, 35746, 21333],
     [35746, 21333, 21495],
     [71, 66, 88, 45]]"

definition QUERY_PUNCTUATION :: "int list" where
  "QUERY_PUNCTUATION = [65311, 63, 12290, 46, 33, 65281, 126]"

definition is_cacheable_query :: "pystr \<Rightarrow> bool" where
  "is_cacheable_query q \<longleftrightarrow> \<not> list_ex (\<lambda>p. substring p q) UNSAFE_PATTERNS"

definition normalize_query :: "pystr \<Rightarrow> pystr" where
  "normalize_query q = rev (dropWhile (\<lambda>c. c \<in> set QUERY_PUNCTUATION) (rev (filter (\<lambda>c. \<not> is_space c) q)))"

definition bucket_key :: "'s sem_cache \<Rightarrow> pystr \<Rightarrow> pystr \<Rightarrow> pystr" where
  "bucket_key sc buyer scope = u ''semcache:'' @ sc_digest sc (sc_namespace sc @ [10] @ buyer @ [10] @ scope)"

definition load_entries :: "'s sem_cache \<Rightarrow> pystr \<Rightarrow> pystr \<Rightarrow> 's \<Rightarrow> json list \<times> 's" where
  "load_entries sc buyer scope s =
     (case cget (sc_port sc) (bucket_key sc buyer scope) s of
        (Inr (Some (JList es)), s') \<Rightarrow> (es, s')
      | (_, s') \<Rightarrow> ([], s'))"

text \<open>
  The vector of an entry; what is not a list of numbers raises in \<open>_cosine\<close>. A reply or a query that is
  not a text is outside the model. Iterating over an object or a text yields no objects.
\<close>

fun number_of :: "json \<Rightarrow> rat result" where
  "number_of (JInt i) = Inr (of_int i)"
| "number_of (JFloat r) = Inr r"
| "number_of (JBool b) = Inr (if b then 1 else 0)"
| "number_of v = Inl (TypeError ''number'')"

definition vector_of :: "json \<Rightarrow> rat list result" where
  "vector_of v = (case get_or v ''vector'' (JList []) of JList xs \<Rightarrow> mapR number_of xs | _ \<Rightarrow> Inl (TypeError ''vector''))"

definition text_of_entry :: "json \<Rightarrow> string \<Rightarrow> pystr result" where
  "text_of_entry v k = (case get_or v k (JStr []) of JStr t \<Rightarrow> Inr t | _ \<Rightarrow> Inl (OtherError ''not a text''))"

definition displayed_of :: "json \<Rightarrow> json list result" where
  "displayed_of v = (case get_or v ''displayed_products'' (JList []) of
       JList xs \<Rightarrow> Inr (take 5 (filter is_obj xs)) | JObj d \<Rightarrow> Inr [] | JStr t \<Rightarrow> Inr [] | _ \<Rightarrow> Inl (TypeError ''iterable''))"

definition entry_similarity :: "'s sem_cache \<Rightarrow> rat list \<Rightarrow> json \<Rightarrow> rat result" where
  "entry_similarity sc vec e =
     (if \<not> is_obj e then Inl (OtherError ''AttributeError'')
      else andThen (vector_of e) (\<lambda>w. Inr (cosine (sc_sqrt sc) vec w)))"

definition hit_of :: "json \<Rightarrow> rat \<Rightarrow> semantic_hit result" where
  "hit_of e sim =
     andThen (text_of_entry e ''reply'') (\<lambda>r.
     andThen (text_of_entry e ''query'') (\<lambda>q.
     andThen (displayed_of e) (\<lambda>ds.
       Inr \<lparr>sh_reply = r, sh_similarity = py_round 4 sim, sh_matched_query = q, sh_displayed = ds\<rparr>)))"

text \<open>The loop of \<open>lookup\<close>: the similarity of an entry is compared with the rounded one of the best so far.\<close>

definition better :: "rat \<Rightarrow> rat \<Rightarrow> semantic_hit option \<Rightarrow> bool" where
  "better threshold sim best \<longleftrightarrow> threshold \<le> sim \<and> (case best of None \<Rightarrow> True | Some h \<Rightarrow> sh_similarity h < sim)"

fun best_from :: "'s sem_cache \<Rightarrow> rat list \<Rightarrow> semantic_hit option \<Rightarrow> json list \<Rightarrow> semantic_hit option result" where
  "best_from sc vec best [] = Inr best"
| "best_from sc vec best (e # es) =
     andThen (entry_similarity sc vec e) (\<lambda>sim.
       if better (sc_threshold sc) sim best
       then andThen (hit_of e sim) (\<lambda>h. best_from sc vec (Some h) es)
       else best_from sc vec best es)"

definition sem_lookup :: "'s sem_cache \<Rightarrow> pystr \<Rightarrow> pystr \<Rightarrow> bool \<Rightarrow> pystr \<Rightarrow> 's \<Rightarrow> semantic_hit option result \<times> 's" where
  "sem_lookup sc buyer query has_history scope s =
     (if \<not> sc_enabled sc \<or> has_history \<or> \<not> is_cacheable_query query then (Inr None, s)
      else let (es, s') = load_entries sc buyer scope s
           in if es = [] then (Inr None, s')
              else case sc_embed sc (normalize_query query) of
                     Inl err \<Rightarrow> (Inr None, s')
                   | Inr vec \<Rightarrow>
                       (andThen (best_from sc vec None es) (\<lambda>best. Inr (case best of
                            None \<Rightarrow> None | Some h \<Rightarrow> if sh_reply h = [] then None else Some h)), s'))"

definition entry_json :: "pystr \<Rightarrow> pystr \<Rightarrow> rat list \<Rightarrow> json list \<Rightarrow> json" where
  "entry_json query reply vec ds = JObj [(u ''query'', JStr (normalize_query query)), (u ''reply'', JStr reply),
     (u ''vector'', JList (map JFloat vec)), (u ''displayed_products'', JList (take 5 ds))]"

definition rememberable :: "'s sem_cache \<Rightarrow> pystr \<Rightarrow> pystr \<Rightarrow> bool \<Rightarrow> bool" where
  "rememberable sc query reply has_history \<longleftrightarrow>
     sc_enabled sc \<and> \<not> has_history \<and> is_cacheable_query query \<and> reply \<noteq> [] \<and> \<not> startswith reply (u ''[error]'')"

definition sem_remember :: "'s sem_cache \<Rightarrow> pystr \<Rightarrow> pystr \<Rightarrow> pystr \<Rightarrow> bool \<Rightarrow> pystr \<Rightarrow> json list \<Rightarrow> 's \<Rightarrow> 's" where
  "sem_remember sc buyer query reply has_history scope ds s =
     (if \<not> rememberable sc query reply has_history then s
      else case sc_embed sc (normalize_query query) of
             Inl err \<Rightarrow> s
           | Inr vec \<Rightarrow>
               (let (es, s') = load_entries sc buyer scope s
                in snd (cset (sc_port sc) (bucket_key sc buyer scope)
                     (JList (last_slice BUCKET_LIMIT (es @ [entry_json query reply vec ds]))) SEM_TTL_SECONDS s')))"

section \<open>What the loop of \<open>lookup\<close> chooses\<close>

lemma rne_le_half: "z < of_int m + 1/2 \<Longrightarrow> rne z \<le> m"
  using rne_cases [of z] by linarith

lemma rne_ge_half: "of_int m - 1/2 < z \<Longrightarrow> m \<le> rne z"
  using rne_cases [of z] by linarith

lemma round4_near:
  assumes "\<bar>y\<bar> \<le> 2" shows "\<bar>py_round 4 y * 10 ^ 4 - of_int (rne (y * 10 ^ 4))\<bar> < 1/2"
proof -
  define m where "m = rne (y * 10 ^ 4)"
  have m: "\<bar>m\<bar> \<le> 20000" using rne_mono [of "y * 10 ^ 4" "of_int 20000"] rne_mono [of "of_int (- 20000)" "y * 10 ^ 4"] assms
    unfolding m_def by (simp only: rne_of_int) (simp add: abs_le_iff)
  have r: "py_round 4 y = fl (of_int m / 10 ^ 4)" by (simp add: py_round_def m_def)
  show ?thesis
  proof (cases "m = 0")
    case False
    let ?q = "of_int m / 10 ^ 4 :: rat"
    have "pow2 (- 1022) \<le> 1 / 10 ^ 4" by (simp add: pow2_def)
    also have "\<dots> \<le> \<bar>?q\<bar>" using False by (simp add: abs_div_pos field_simps flip: of_int_abs)
    finally have "\<bar>fl ?q - ?q\<bar> \<le> u_round * \<bar>?q\<bar>" by (rule fl_error)
    also have "\<dots> \<le> u_round * 2"
      using m by (intro mult_left_mono) (simp_all add: u_round_def abs_div_pos field_simps flip: of_int_abs)
    finally have "\<bar>fl ?q - ?q\<bar> * 10 ^ 4 < 1/2" by (simp add: u_round_def)
    moreover have "py_round 4 y * 10 ^ 4 - of_int (rne (y * 10 ^ 4)) = (fl ?q - ?q) * 10 ^ 4"
      unfolding r m_def [symmetric] by (simp add: algebra_simps)
    moreover have "\<bar>(fl ?q - ?q) * 10 ^ 4\<bar> = \<bar>fl ?q - ?q\<bar> * 10 ^ 4" by (simp only: abs_mult) simp
    ultimately show ?thesis by presburger
  next
    case True
    then have "rne (y * 10 ^ 4) = 0" by (simp only: m_def)
    then show ?thesis by (simp only: py_round_def) simp
  qed
qed

lemma ten4: "(0::rat) \<le> 10 ^ 4"
  by simp

lemma py_round_4: "rne (x * 10 ^ 4) \<le> rne (y * 10 ^ 4) \<Longrightarrow> py_round 4 x \<le> py_round 4 y"
  unfolding py_round_def by (intro fl_mono divide_right_mono) simp_all

text \<open>A number not above (below) a rounded one does not round to more (less).\<close>

lemma round4_le:
  assumes "x \<le> py_round 4 y" "\<bar>y\<bar> \<le> 2" shows "py_round 4 x \<le> py_round 4 y"
proof (intro py_round_4 rne_le_half)
  show "x * 10 ^ 4 < of_int (rne (y * 10 ^ 4)) + 1/2"
    using round4_near [OF assms(2)] mult_right_mono [OF assms(1) ten4] by linarith
qed

lemma round4_ge:
  assumes "py_round 4 y \<le> x" "\<bar>y\<bar> \<le> 2" shows "py_round 4 y \<le> py_round 4 x"
proof (intro py_round_4 rne_ge_half)
  show "of_int (rne (y * 10 ^ 4)) - 1/2 < x * 10 ^ 4"
    using round4_near [OF assms(2)] mult_right_mono [OF assms(1) ten4] by linarith
qed

definition chosen :: "rat \<Rightarrow> rat list \<Rightarrow> semantic_hit option \<Rightarrow> bool" where
  "chosen threshold sims best \<longleftrightarrow>
     (case best of
        None \<Rightarrow> \<forall>s\<in>set sims. s < threshold
      | Some h \<Rightarrow> (\<exists>s\<in>set sims. threshold \<le> s \<and> sh_similarity h = py_round 4 s) \<and>
          (\<forall>s\<in>set sims. threshold \<le> s \<longrightarrow> py_round 4 s \<le> sh_similarity h))"

lemma chosen_step:
  assumes "chosen threshold seen best" "\<bar>s\<bar> \<le> 2" "\<forall>x\<in>set seen. \<bar>x\<bar> \<le> 2" "better threshold s best" "sh_similarity h = py_round 4 s"
  shows "chosen threshold (seen @ [s]) (Some h)"
proof (cases best)
  case None
  with assms show ?thesis by (auto simp: chosen_def better_def)
next
  case (Some g)
  with assms obtain x where x: "x \<in> set seen" "sh_similarity g = py_round 4 x" "sh_similarity g < s" by (auto simp: chosen_def better_def)
  have "sh_similarity g \<le> py_round 4 s" using x assms(3) by (auto intro: round4_ge)
  with Some assms show ?thesis by (force simp: chosen_def better_def)
qed

lemma chosen_skip:
  assumes "chosen threshold seen best" "\<bar>s\<bar> \<le> 2" "\<forall>x\<in>set seen. \<bar>x\<bar> \<le> 2" "\<not> better threshold s best"
  shows "chosen threshold (seen @ [s]) best"
proof (cases best)
  case (Some g)
  with assms(1) obtain x where x: "x \<in> set seen" "sh_similarity g = py_round 4 x" by (auto simp: chosen_def)
  have "threshold \<le> s \<Longrightarrow> py_round 4 s \<le> sh_similarity g"
    using assms(3,4) x Some by (auto simp: better_def intro: round4_le)
  with Some assms(1) show ?thesis by (auto simp: chosen_def)
qed (use assms in \<open>auto simp: chosen_def better_def\<close>)

lemma best_from_chosen:
  assumes "best_from sc vec best es = Inr out" "mapR (entry_similarity sc vec) es = Inr sims"
    "chosen (sc_threshold sc) seen best" "\<forall>s\<in>set seen \<union> set sims. \<bar>s\<bar> \<le> 2"
  shows "chosen (sc_threshold sc) (seen @ sims) out"
  using assms
proof (induction es arbitrary: best seen sims)
  case (Cons e es)
  from Cons.prems(2) obtain s ss where s: "entry_similarity sc vec e = Inr s" "mapR (entry_similarity sc vec) es = Inr ss" "sims = s # ss"
    by (auto simp: result_simps)
  have b: "\<forall>x\<in>set seen. \<bar>x\<bar> \<le> 2" "\<bar>s\<bar> \<le> 2" "\<forall>x\<in>set (seen @ [s]) \<union> set ss. \<bar>x\<bar> \<le> 2" using Cons.prems(4) s(3) by auto
  show ?case
  proof (cases "better (sc_threshold sc) s best")
    case True
    with Cons.prems(1) s obtain h where h: "hit_of e s = Inr h" "best_from sc vec (Some h) es = Inr out" by (auto simp: result_simps)
    then have "sh_similarity h = py_round 4 s" by (auto simp: hit_of_def result_simps)
    from Cons.IH [OF h(2) s(2) chosen_step [OF Cons.prems(3) b(2,1) True this] b(3)] s(3) show ?thesis by simp
  next
    case False
    with Cons.prems(1) s have h: "best_from sc vec best es = Inr out" by simp
    from Cons.IH [OF h s(2) chosen_skip [OF Cons.prems(3) b(2,1) False] b(3)] s(3) show ?thesis by simp
  qed
qed simp

section \<open>Whose replies a bucket holds\<close>

definition bucket_of :: "(pystr \<Rightarrow> pystr \<Rightarrow> json \<Rightarrow> bool) \<Rightarrow> ('s \<Rightarrow> pystr \<Rightarrow> json \<Rightarrow> bool) \<Rightarrow> 's sem_cache \<Rightarrow> 's \<Rightarrow> bool" where
  "bucket_of from holds sc s \<longleftrightarrow>
     (\<forall>b sp v. 10 \<notin> set sp \<and> holds s (bucket_key sc b sp) v \<longrightarrow> (\<exists>es. v = JList es \<and> (\<forall>e\<in>set es. from b sp e)))"

lemma bucket_key_inj:
  assumes "inj (sc_digest sc)" "bucket_key sc b sp = bucket_key sc b' sp'" "10 \<notin> set sp" "10 \<notin> set sp'"
  shows "b' = b \<and> sp' = sp"
proof -
  have "b @ 10 # sp = b' @ 10 # sp'" using assms(1,2) by (simp add: bucket_key_def inj_eq)
  then show ?thesis using assms(3,4) by (auto simp: append_eq_append_conv2 append_eq_Cons_conv Cons_eq_append_conv)
qed

context memo_store
begin

lemma load_entries_sound:
  assumes "sc_port sc = port" "bucket_of P holds sc s" "load_entries sc b sp s = (es, s')"
  shows "bucket_of P holds sc s' \<and> (10 \<notin> set sp \<longrightarrow> (\<forall>e\<in>set es. P b sp e))"
proof -
  obtain r s1 where g: "cget port (bucket_key sc b sp) s = (r, s1)" by fastforce
  with assms(1,3) have s1: "s1 = s'" by (auto simp: load_entries_def split: sum.splits option.splits json.splits)
  have "bucket_of P holds sc s'" using assms(2) get_keeps [OF g] unfolding bucket_of_def s1 by blast
  moreover have "e \<in> set es \<Longrightarrow> 10 \<notin> set sp \<Longrightarrow> P b sp e" for e
  proof -
    assume e: "e \<in> set es" "10 \<notin> set sp"
    with g assms(1,3) have "r = Inr (Some (JList es))" by (auto simp: load_entries_def split: sum.splits option.splits json.splits)
    with get_holds g assms(2) e show ?thesis unfolding bucket_of_def by blast
  qed
  ultimately show ?thesis by blast
qed

lemma remember_sound:
  assumes "sc_port sc = port" "inj (sc_digest sc)" "bucket_of P holds sc s" "10 \<notin> set sp"
    "\<forall>vec. rememberable sc q r h \<longrightarrow> P b sp (entry_json q r vec ds)"
  shows "bucket_of P holds sc (sem_remember sc b q r h sp ds s)"
proof (cases "rememberable sc q r h")
  case True
  show ?thesis
  proof (cases "sc_embed sc (normalize_query q)")
    case (Inr vec)
    obtain es s1 where l: "load_entries sc b sp s = (es, s1)" by fastforce
    let ?v = "JList (last_slice BUCKET_LIMIT (es @ [entry_json q r vec ds]))"
    obtain x s' where st: "cset port (bucket_key sc b sp) ?v SEM_TTL_SECONDS s1 = (x, s')" by fastforce
    note ls = load_entries_sound [OF assms(1,3) l]
    have run: "sem_remember sc b q r h sp ds s = s'" using True Inr l st assms(1) by (simp add: sem_remember_def)
    show ?thesis unfolding run bucket_of_def
    proof (intro allI impI, elim conjE)
      fix b' sp' v assume a: "10 \<notin> set sp'" "holds s' (bucket_key sc b' sp') v"
      from set_holds [OF st a(2)] show "\<exists>es. v = JList es \<and> (\<forall>e\<in>set es. P b' sp' e)"
      proof
        assume e: "bucket_key sc b' sp' = bucket_key sc b sp \<and> v = ?v"
        with bucket_key_inj [OF assms(2) _ assms(4) a(1)] have "b' = b \<and> sp' = sp" by metis
        moreover have "\<forall>e\<in>set (last_slice BUCKET_LIMIT (es @ [entry_json q r vec ds])). P b sp e"
          using ls assms(4,5) True set_last_slice [of BUCKET_LIMIT "es @ [entry_json q r vec ds]"] by auto
        ultimately show ?thesis using e by blast
      next
        assume "holds s1 (bucket_key sc b' sp') v"
        with ls a(1) show ?thesis unfolding bucket_of_def by blast
      qed
    qed
  qed (use True assms(3) in \<open>simp add: sem_remember_def\<close>)
qed (use assms(3) in \<open>simp add: sem_remember_def\<close>)

lemma lookup_keeps:
  assumes "sc_port sc = port" "bucket_of P holds sc s"
  shows "bucket_of P holds sc (snd (sem_lookup sc b q h sp s))"
proof -
  obtain es s' where l: "load_entries sc b sp s = (es, s')" by fastforce
  from load_entries_sound [OF assms l] assms(2) show ?thesis by (auto simp: sem_lookup_def l split: sum.splits)
qed

end

section \<open>Properties of the semantic cache\<close>

datatype sem_op =
    SemLookup pystr pystr bool pystr
  | SemRemember pystr pystr pystr bool pystr "json list"
  | Outage rat "bool list"

text \<open>Time passes and the coming commands of the server fail or not.\<close>

fun sem_step :: "json redis sem_cache \<Rightarrow> sem_op \<Rightarrow> json redis \<Rightarrow> json redis" where
  "sem_step sc (SemLookup b q h sp) r = snd (sem_lookup sc b q h sp r)"
| "sem_step sc (SemRemember b q t h sp ds) r = sem_remember sc b q t h sp ds r"
| "sem_step sc (Outage d fs) r = r\<lparr>clock := clock r + \<bar>d\<bar>, command_fails := fs\<rparr>"

fun scope_ok :: "sem_op \<Rightarrow> bool" where
  "scope_ok (SemRemember b q t h sp ds) = (10 \<notin> set sp)"
| "scope_ok op = True"

definition remembered :: "'s sem_cache \<Rightarrow> sem_op list \<Rightarrow> pystr \<Rightarrow> pystr \<Rightarrow> json \<Rightarrow> bool" where
  "remembered sc ops b sp e \<longleftrightarrow>
     (\<exists>q t h ds vec. SemRemember b q t h sp ds \<in> set ops \<and> rememberable sc q t h \<and> e = entry_json q t vec ds)"

lemma rememberedI: "SemRemember b q t h sp ds \<in> set ops \<Longrightarrow> rememberable sc q t h \<Longrightarrow> remembered sc ops b sp (entry_json q t vec ds)"
  unfolding remembered_def by blast

lemma redis_holds_outage: "redis_holds (r\<lparr>clock := clock r + \<bar>d\<bar>, command_fails := fs\<rparr>) j w \<Longrightarrow> redis_holds r j w"
  by (auto simp: redis_holds_def live_def split: option.splits prod.splits if_splits)

lemma buckets_sound:
  assumes "inj (sc_digest sc)" "sc_port sc = redis_port" "\<forall>op\<in>set ops. scope_ok op" "bucket_of (remembered sc all) redis_holds sc r"
    "set ops \<subseteq> set all"
  shows "bucket_of (remembered sc all) redis_holds sc (fold (sem_step sc) ops r)"
  using assms
proof (induction ops arbitrary: r)
  case (Cons op ops)
  have "bucket_of (remembered sc all) redis_holds sc (sem_step sc op r)"
  proof (cases op)
    case (SemLookup b q h sp)
    then show ?thesis using redis_memo.lookup_keeps [OF Cons.prems(2,4)] by simp
  next
    case (SemRemember b q t h sp ds)
    with Cons.prems have "10 \<notin> set sp" "\<forall>vec. rememberable sc q t h \<longrightarrow> remembered sc all b sp (entry_json q t vec ds)"
      by (auto intro: rememberedI)
    from redis_memo.remember_sound [OF Cons.prems(2,1,4) this] show ?thesis by (simp add: SemRemember)
  next
    case (Outage d fs)
    then show ?thesis using Cons.prems(4) redis_holds_outage unfolding bucket_of_def by fastforce
  qed
  with Cons show ?case by simp
qed simp

lemma entry_fields:
  "is_obj (entry_json q t vec ds)" "vector_of (entry_json q t vec ds) = Inr vec"
  "hit_of (entry_json q t vec ds) sim = Inr \<lparr>sh_reply = t, sh_similarity = py_round 4 sim,
     sh_matched_query = normalize_query q, sh_displayed = filter is_obj (take 5 ds)\<rparr>"
proof -
  have "mapR number_of (map JFloat vec) = Inr vec" by (induction vec) simp_all
  then show "vector_of (entry_json q t vec ds) = Inr vec" by (simp add: vector_of_def entry_json_def get_or_def jhas_def jget_def)
  show "is_obj (entry_json q t vec ds)" by (simp add: entry_json_def)
  show "hit_of (entry_json q t vec ds) sim = Inr \<lparr>sh_reply = t, sh_similarity = py_round 4 sim,
     sh_matched_query = normalize_query q, sh_displayed = filter is_obj (take 5 ds)\<rparr>"
    using length_filter_le [of is_obj "take 5 ds"]
    by (simp add: hit_of_def text_of_entry_def displayed_of_def entry_json_def get_or_def jhas_def jget_def)
qed

lemma best_from_remembered:
  assumes "\<forall>e\<in>set es. remembered sc ops b sp e"
    "\<forall>h. best = Some h \<longrightarrow> (\<exists>q hh ds. SemRemember b q (sh_reply h) hh sp ds \<in> set ops \<and> rememberable sc q (sh_reply h) hh \<and>
       sh_matched_query h = normalize_query q \<and> sh_displayed h = filter is_obj (take 5 ds))"
  shows "\<exists>out. best_from sc vec best es = Inr out \<and>
    (\<forall>h. out = Some h \<longrightarrow> (\<exists>q hh ds. SemRemember b q (sh_reply h) hh sp ds \<in> set ops \<and> rememberable sc q (sh_reply h) hh \<and>
       sh_matched_query h = normalize_query q \<and> sh_displayed h = filter is_obj (take 5 ds)))"
  using assms
proof (induction es arbitrary: best)
  case (Cons e es)
  from Cons.prems(1) obtain q t h ds w where e: "e = entry_json q t w ds" "SemRemember b q t h sp ds \<in> set ops" "rememberable sc q t h"
    by (auto simp: remembered_def)
  let ?sim = "cosine (sc_sqrt sc) vec w"
  let ?h = "\<lparr>sh_reply = t, sh_similarity = py_round 4 ?sim, sh_matched_query = normalize_query q, sh_displayed = filter is_obj (take 5 ds)\<rparr>"
  have sim: "entry_similarity sc vec e = Inr ?sim" "hit_of e ?sim = Inr ?h" by (simp_all add: e entry_similarity_def entry_fields)
  have rest: "\<forall>e\<in>set es. remembered sc ops b sp e" using Cons.prems(1) by simp
  show ?case
  proof (cases "better (sc_threshold sc) ?sim best")
    case True
    have "\<exists>q hh ds. SemRemember b q (sh_reply ?h) hh sp ds \<in> set ops \<and> rememberable sc q (sh_reply ?h) hh \<and>
       sh_matched_query ?h = normalize_query q \<and> sh_displayed ?h = filter is_obj (take 5 ds)" using e by auto
    with Cons.IH [OF rest, of "Some ?h"] True sim show ?thesis by simp
  next
    case False
    with Cons.IH [OF rest Cons.prems(2)] sim show ?thesis by simp
  qed
qed simp

text \<open>C24: a cached reply is only reused for its own buyer under the same preferences: over any history of lookups,
  stored replies, expiries and failing Redis commands, a lookup never raises, and what it returns was
  remembered earlier for that buyer and that fingerprint of preferences, is no error reply, and neither the
  question asked nor the one remembered is an order or refers to an earlier one.\<close>

theorem semantic_cache_private:
  assumes "inj (sc_digest sc)" "sc_port sc = redis_port" "cells r0 = []" "\<forall>op\<in>set ops. scope_ok op" "10 \<notin> set scope"
  shows "\<exists>best. fst (sem_lookup sc buyer query has_history scope (fold (sem_step sc) ops r0)) = Inr best \<and>
    (\<forall>h. best = Some h \<longrightarrow> \<not> has_history \<and> is_cacheable_query query \<and> sh_reply h \<noteq> [] \<and> \<not> startswith (sh_reply h) (u ''[error]'') \<and>
       (\<exists>q hh ds. SemRemember buyer q (sh_reply h) hh scope ds \<in> set ops \<and> is_cacheable_query q \<and> \<not> hh \<and>
          sh_matched_query h = normalize_query q \<and> sh_displayed h = filter is_obj (take 5 ds)))"
proof -
  let ?r = "fold (sem_step sc) ops r0"
  have "bucket_of (remembered sc ops) redis_holds sc r0" using assms(3) by (simp add: bucket_of_def redis_holds_def live_def)
  from buckets_sound [OF assms(1,2,4) this] have b: "bucket_of (remembered sc ops) redis_holds sc ?r" by simp
  obtain es s' where l: "load_entries sc buyer scope ?r = (es, s')" by fastforce
  from redis_memo.load_entries_sound [OF assms(2) b l] assms(5) have es: "\<forall>e\<in>set es. remembered sc ops buyer scope e" by blast
  show ?thesis
  proof (cases "sc_embed sc (normalize_query query)")
    case (Inr vec)
    obtain out where out: "best_from sc vec None es = Inr out"
      "\<forall>h. out = Some h \<longrightarrow> (\<exists>q hh ds. SemRemember buyer q (sh_reply h) hh scope ds \<in> set ops \<and> rememberable sc q (sh_reply h) hh \<and>
         sh_matched_query h = normalize_query q \<and> sh_displayed h = filter is_obj (take 5 ds))"
      using best_from_remembered [OF es, of None vec] by auto
    then show ?thesis by (cases out) (auto simp: sem_lookup_def l Inr rememberable_def)
  qed (auto simp: sem_lookup_def l)
qed

text \<open>Also: the reply a lookup picks is the closest one up to four digits: when any remembered question reaches the
  threshold one is picked, it reaches the threshold itself, and no other is closer once both similarities are
  rounded to four digits (the loop compares with the rounded one, so it may pass over a closer one by less).\<close>

theorem semantic_hit_nearest:
  assumes "best_from sc vec None es = Inr best" "mapR (entry_similarity sc vec) es = Inr sims" "\<forall>s\<in>set sims. \<bar>s\<bar> \<le> 2"
  shows "case best of
      None \<Rightarrow> \<forall>s\<in>set sims. s < sc_threshold sc
    | Some h \<Rightarrow> (\<exists>s\<in>set sims. sc_threshold sc \<le> s \<and> sh_similarity h = py_round 4 s) \<and>
        (\<forall>s\<in>set sims. sc_threshold sc \<le> s \<longrightarrow> py_round 4 s \<le> sh_similarity h)"
  using best_from_chosen [OF assms(1,2), of "[]"] assms(3) by (simp add: chosen_def split: option.splits)

section \<open>Concrete instances\<close>

definition ex_server :: "json redis" where
  "ex_server = \<lparr>cells = [], clock = 0, command_fails = [False, True], connected = True, parse_text = (\<lambda>t. None)\<rparr>"

text \<open>The square root on the squares that occur.\<close>

definition ex_root :: "rat \<Rightarrow> rat" where
  "ex_root x = (if x = 2602 * 2602 then 2602 else if x = 2501 * 2501 then 2501 else x)"

definition ex_sc :: "json redis sem_cache" where
  "ex_sc = \<lparr>sc_port = redis_port, sc_enabled = True, sc_namespace = u ''m1'', sc_threshold = 95 / 100, sc_digest = (\<lambda>t. t),
     sc_sqrt = ex_root, sc_embed = (\<lambda>t. Inr [1, 0])\<rparr>"

definition ex_entries :: "json list" where
  "ex_entries = [entry_json (u ''lamp'') (u ''closer'') [2600, 102] [], entry_json (u ''light'') (u ''farther'') [2499, 100] []]"

definition ex_sims :: "rat list" where
  "ex_sims = [fdiv 2600 2602, fdiv 2499 2501]"

lemma ex_best: "best_from ex_sc [1, 0] None ex_entries = Inr (Some \<lparr>sh_reply = u ''farther'', sh_similarity = py_round 4 (fdiv 2499 2501),
    sh_matched_query = u ''light'', sh_displayed = []\<rparr>)"
  by code_simp

lemma ex_sims: "mapR (entry_similarity ex_sc [1, 0]) ex_entries = Inr ex_sims \<and> (\<forall>s\<in>set ex_sims. \<bar>s\<bar> \<le> 2)"
  by code_simp

text \<open>Also: The lookup does not always pick the closest remembered question: with two entries whose similarities round to
  the same four digits it returns the later and less similar one.\<close>

theorem semantic_hit_passes_closer:
  "best_from ex_sc [1, 0] None ex_entries = Inr (Some \<lparr>sh_reply = u ''farther'', sh_similarity = py_round 4 (fdiv 2499 2501),
     sh_matched_query = u ''light'', sh_displayed = []\<rparr>) \<and>
   entry_similarity ex_sc [1, 0] (ex_entries ! 0) = Inr (fdiv 2600 2602) \<and>
   entry_similarity ex_sc [1, 0] (ex_entries ! 1) = Inr (fdiv 2499 2501) \<and> fdiv 2499 2501 < fdiv 2600 2602"
  by code_simp

theorem semantic_hit_nearest_witness:
  "\<forall>s\<in>set ex_sims. sc_threshold ex_sc \<le> s \<longrightarrow> py_round 4 s \<le> py_round 4 (fdiv 2499 2501)"
  using semantic_hit_nearest [OF ex_best conjunct1 [OF ex_sims] conjunct2 [OF ex_sims]] by simp

definition ex_sem_ops :: "sem_op list" where
  "ex_sem_ops = [Outage 1 [False], SemRemember (u ''bob'') (u ''lamp'') (u ''for bob'') False (u ''p'') [],
     SemRemember (u ''ann'') (u ''lamp?'') (u ''for ann'') False (u ''p'') [], Outage 60 []]"

theorem semantic_cache_private_witness:
  "\<exists>h. fst (sem_lookup ex_sc (u ''ann'') (u ''lamp'') False (u ''p'') (fold (sem_step ex_sc) ex_sem_ops ex_server)) = Inr (Some h) \<and>
     sh_reply h = u ''for ann''"
proof -
  have "fst (sem_lookup ex_sc (u ''ann'') (u ''lamp'') False (u ''p'') (fold (sem_step ex_sc) ex_sem_ops ex_server)) \<noteq> Inr None"
    by code_simp
  moreover have "inj (sc_digest ex_sc)" "sc_port ex_sc = redis_port" "cells ex_server = []" by (simp_all add: ex_sc_def ex_server_def)
  moreover have "\<forall>op\<in>set ex_sem_ops. scope_ok op" "10 \<notin> set (u ''p'')" by code_simp+
  moreover have "SemRemember (u ''ann'') q r hh (u ''p'') ds \<in> set ex_sem_ops \<Longrightarrow> r = u ''for ann''" for q r hh ds
    by (auto simp: ex_sem_ops_def u_def)
  ultimately show ?thesis
    using semantic_cache_private [of ex_sc ex_server ex_sem_ops "u ''p''" "u ''ann''" "u ''lamp''" False]
    by (metis option.exhaust)
qed

definition ex_vector :: "pystr \<Rightarrow> json" where
  "ex_vector t = JList [JFloat (of_nat (length t)), JFloat 1]"

theorem embedding_cache_transparent_witness:
  "fst (cached_embed_batch redis_port (emb_key (\<lambda>t. t) (u ''m'')) (\<lambda>ps. Inr (map ex_vector ps)) [u ''aa'', u ''b'', u ''aa'']
      \<lparr>es_hits = 0, es_misses = 0, es_cache = ex_server\<rparr>) = Inr (map ex_vector [u ''aa'', u ''b'', u ''aa''])"
proof -
  let ?run = "cached_embed_batch redis_port (emb_key (\<lambda>t. t) (u ''m'')) (\<lambda>ps. Inr (map ex_vector ps)) [u ''aa'', u ''b'', u ''aa'']
      \<lparr>es_hits = 0, es_misses = 0, es_cache = ex_server\<rparr>"
  have "memo_sound redis_holds (emb_key (\<lambda>t. t) (u ''m'')) ex_vector ex_server"
    by (simp add: memo_sound_def redis_holds_def live_def ex_server_def)
  with embedding_cache_transparent [of "\<lambda>t. t" "u ''m''" "\<lambda>ps. Inr (map ex_vector ps)" "[u ''aa'', u ''b'', u ''aa'']"
      "\<lparr>es_hits = 0, es_misses = 0, es_cache = ex_server\<rparr>" "fst ?run" "snd ?run" ex_vector]
  show ?thesis by (simp add: inj_def)
qed

end
