(* ===== verification/Drift.thy ===== *)
theory Drift
  imports Py_Float Prelude
begin

text \<open>
  \<open>app/application/harness/drift_detector.py\<close>: traces by session, four computed signals and an optional judge. A set
  of keywords is a list without duplicates. The traces are a \<open>defaultdict\<close>: reading a session creates its trace.
\<close>

section \<open>Keywords\<close>

definition ascii_word :: "int \<Rightarrow> bool" where
  "ascii_word c \<longleftrightarrow> 48 \<le> c \<and> c \<le> 57 \<or> 65 \<le> c \<and> c \<le> 90 \<or> 97 \<le> c \<and> c \<le> 122"

definition han :: "int \<Rightarrow> bool" where
  "han c \<longleftrightarrow> 0x4e00 \<le> c \<and> c \<le> 0x9fff"

text \<open>\<open>findall\<close> of \<open>[a-zA-Z0-9]+|[\u4e00-\u9fff]\<open>{2,}\<close>\<close>: runs, a single Han character is skipped.\<close>

function word_tokens :: "pystr \<Rightarrow> pystr list" where
  "word_tokens [] = []"
| "word_tokens (c # s) =
     (if ascii_word c then (c # takeWhile ascii_word s) # word_tokens (dropWhile ascii_word s)
      else if han c then (if takeWhile han s = [] then [] else [c # takeWhile han s]) @ word_tokens (dropWhile han s)
      else word_tokens s)"
  by pat_completeness auto
termination
  by (relation "measure length") (auto simp: length_dropWhile_le le_imp_less_Suc)

definition ascii_lower :: "int \<Rightarrow> int" where
  "ascii_lower c = (if 65 \<le> c \<and> c \<le> 90 then c + 32 else c)"

definition token_keywords :: "pystr \<Rightarrow> pystr list" where
  "token_keywords t =
     (if list_all (\<lambda>c. c < 128) t then [map ascii_lower t]
      else map (\<lambda>i. take 2 (drop i t)) [0..<length t - 1])"

definition extract_keywords :: "pystr \<Rightarrow> pystr list" where
  "extract_keywords text = dedup (concat (map token_keywords (word_tokens text)))"

section \<open>Traces\<close>

definition CHECK_INTERVAL :: int where "CHECK_INTERVAL = 3"
definition EMPTY_RESULT_LIMIT :: int where "EMPTY_RESULT_LIMIT = 3"
definition KEYWORD_HIT_FLOOR :: rat where "KEYWORD_HIT_FLOOR = fl (1 / 5)"
definition COST_SPIKE_MULTIPLIER :: rat where "COST_SPIKE_MULTIPLIER = 2"
definition NORMAL :: pystr where "NORMAL = [27491, 24120]"

record session_trace =
  tr_query :: pystr
  tr_keywords :: "pystr list"
  tr_rounds :: int
  tr_recent :: "pystr list"
  tr_empty :: int
  tr_tokens :: "int list"

definition new_trace :: session_trace where
  "new_trace = \<lparr>tr_query = [], tr_keywords = [], tr_rounds = 0, tr_recent = [], tr_empty = 0, tr_tokens = []\<rparr>"

record drift_detector =
  dd_interval :: int
  dd_judge :: "(pystr \<Rightarrow> pystr \<Rightarrow> pystr option result) option"
  dd_traces :: "(pystr, session_trace) dict"

definition trace_at :: "drift_detector \<Rightarrow> pystr \<Rightarrow> session_trace" where
  "trace_at d sid = (case map_of (dd_traces d) sid of None \<Rightarrow> new_trace | Some t \<Rightarrow> t)"

definition put_trace :: "pystr \<Rightarrow> session_trace \<Rightarrow> drift_detector \<Rightarrow> drift_detector" where
  "put_trace sid t d = d\<lparr>dd_traces := AList.update sid t (dd_traces d)\<rparr>"

text \<open>Reading through the \<open>defaultdict\<close>.\<close>

definition touch :: "pystr \<Rightarrow> drift_detector \<Rightarrow> drift_detector" where
  "touch sid d = put_trace sid (trace_at d sid) d"

definition start_turn :: "pystr \<Rightarrow> pystr \<Rightarrow> drift_detector \<Rightarrow> drift_detector" where
  "start_turn sid query d =
     (let t = trace_at d sid
      in put_trace sid (if tr_query t = [] then t\<lparr>tr_query := query, tr_keywords := extract_keywords query\<rparr> else t) d)"

record action =
  ac_summary :: pystr
  ac_empty :: bool
  ac_tokens :: int

definition observe_action :: "pystr \<Rightarrow> action \<Rightarrow> drift_detector \<Rightarrow> drift_detector" where
  "observe_action sid a d =
     (let t = trace_at d sid
      in put_trace sid (t\<lparr>tr_rounds := tr_rounds t + 1, tr_recent := last_slice 3 (tr_recent t @ [ac_summary a]),
           tr_empty := (if ac_empty a then tr_empty t + 1 else 0),
           tr_tokens := (if 0 < ac_tokens a then tr_tokens t @ [ac_tokens a] else tr_tokens t)\<rparr>) d)"

definition due :: "pystr \<Rightarrow> drift_detector \<Rightarrow> bool result \<times> drift_detector" where
  "due sid d =
     (let t = trace_at d sid; d' = touch sid d
      in if tr_rounds t \<le> 0 then (Inr False, d')
         else if dd_interval d = 0 then (Inl (OtherError ''ZeroDivisionError''), d')
         else (Inr (tr_rounds t mod dd_interval d = 0), d'))"

section \<open>Signals\<close>

datatype drift_reason = KEYWORDS rat | EMPTY_RESULTS int | BLACKLIST "pystr list" | COST rat rat

definition keyword_signal :: "session_trace \<Rightarrow> drift_reason list" where
  "keyword_signal t =
     (if tr_keywords t = [] \<or> tr_recent t = [] then []
      else let recent = extract_keywords (join (u '' '') (tr_recent t));
               ratio = int_div (int (length [k \<leftarrow> tr_keywords t. k \<in> set recent])) (int (length (tr_keywords t)))
           in if ratio < KEYWORD_HIT_FLOOR then [KEYWORDS ratio] else [])"

definition empty_signal :: "session_trace \<Rightarrow> drift_reason list" where
  "empty_signal t = (if EMPTY_RESULT_LIMIT \<le> tr_empty t then [EMPTY_RESULTS (tr_empty t)] else [])"

definition cost_signal :: "session_trace \<Rightarrow> drift_reason list" where
  "cost_signal t =
     (let h = tr_tokens t; n = length h
      in if n < 6 then []
         else let recent = int_div (sum_list (drop (n - 3) h)) 3;
                  baseline = int_div (sum_list (take (n - 3) h)) (int (n - 3))
              in if 0 < baseline \<and> fmul baseline COST_SPIKE_MULTIPLIER < recent then [COST recent baseline] else [])"

definition trace_signals :: "session_trace \<Rightarrow> pystr list \<Rightarrow> drift_reason list" where
  "trace_signals t blacklist =
     keyword_signal t @ empty_signal t @ (if blacklist = [] then [] else [BLACKLIST blacklist]) @ cost_signal t"

definition computational_signals :: "pystr \<Rightarrow> pystr list \<Rightarrow> drift_detector \<Rightarrow> drift_reason list \<times> drift_detector" where
  "computational_signals sid blacklist d = (trace_signals (trace_at d sid) blacklist, touch sid d)"

record drift_report =
  dr_reasons :: "drift_reason list"
  dr_verdict :: pystr

definition drifted :: "drift_report \<Rightarrow> bool" where
  "drifted r \<longleftrightarrow> dr_reasons r \<noteq> [] \<or> dr_verdict r \<noteq> NORMAL"

definition judged :: "(pystr \<Rightarrow> pystr \<Rightarrow> pystr option result) \<Rightarrow> session_trace \<Rightarrow> drift_report \<Rightarrow> drift_report" where
  "judged judge t report =
     (if tr_query t = [] \<or> tr_recent t = [] then report
      else case judge (tr_query t) (join [10] (tr_recent t)) of
             Inl err \<Rightarrow> report
           | Inr v \<Rightarrow> report\<lparr>dr_verdict := py_strip (if v = None \<or> v = Some [] then NORMAL else the v)\<rparr>)"

definition drift_check :: "pystr \<Rightarrow> pystr list \<Rightarrow> drift_detector \<Rightarrow> drift_report result \<times> drift_detector" where
  "drift_check sid blacklist d =
     (case due sid d of
        (Inl e, d1) \<Rightarrow> (Inl e, d1)
      | (Inr False, d1) \<Rightarrow> (Inr \<lparr>dr_reasons = [], dr_verdict = NORMAL\<rparr>, d1)
      | (Inr True, d1) \<Rightarrow>
          (let (reasons, d2) = computational_signals sid blacklist d1; report = \<lparr>dr_reasons = reasons, dr_verdict = NORMAL\<rparr>
           in case dd_judge d2 of
                None \<Rightarrow> (Inr report, d2)
              | Some judge \<Rightarrow> if reasons \<noteq> [] then (Inr report, d2)
                              else (Inr (judged judge (trace_at d2 sid) report), touch sid d2)))"

definition original_query :: "pystr \<Rightarrow> drift_detector \<Rightarrow> pystr \<times> drift_detector" where
  "original_query sid d = (tr_query (trace_at d sid), touch sid d)"

definition drift_reset :: "pystr \<Rightarrow> drift_detector \<Rightarrow> drift_detector" where
  "drift_reset sid d = d\<lparr>dd_traces := AList.delete sid (dd_traces d)\<rparr>"

section \<open>A turn\<close>

datatype drift_op = StartTurn pystr pystr | Observe pystr action | Check pystr | ResetTrace pystr

fun drift_step :: "drift_op \<Rightarrow> drift_detector \<Rightarrow> drift_detector" where
  "drift_step (StartTurn s q) d = start_turn s q d"
| "drift_step (Observe s a) d = observe_action s a d"
| "drift_step (Check s) d = snd (drift_check s [] d)"
| "drift_step (ResetTrace s) d = drift_reset s d"

fun op_session :: "drift_op \<Rightarrow> pystr" where
  "op_session (StartTurn s q) = s"
| "op_session (Observe s a) = s"
| "op_session (Check s) = s"
| "op_session (ResetTrace s) = s"

lemma trace_at_put [simp]: "trace_at (put_trace s t d) s' = (if s' = s then t else trace_at d s')"
  by (simp add: trace_at_def put_trace_def map_of_update)

lemma trace_at_touch [simp]: "trace_at (touch s d) = trace_at d"
  by (auto simp: touch_def fun_eq_iff)

lemma trace_at_reset [simp]: "trace_at (drift_reset s d) s' = (if s' = s then new_trace else trace_at d s')"
  by (simp add: trace_at_def drift_reset_def map_of_delete)

lemma fields_kept [simp]:
  "dd_interval (put_trace s t d) = dd_interval d" "dd_judge (put_trace s t d) = dd_judge d"
  "dd_interval (touch s d) = dd_interval d" "dd_judge (touch s d) = dd_judge d"
  "dd_interval (drift_reset s d) = dd_interval d" "dd_judge (drift_reset s d) = dd_judge d"
  by (simp_all add: put_trace_def touch_def drift_reset_def)

lemma drift_check_traces [simp]:
  "trace_at (snd (drift_check s bl d)) = trace_at d" "dd_interval (snd (drift_check s bl d)) = dd_interval d"
  "dd_judge (snd (drift_check s bl d)) = dd_judge d"
  by (auto simp: drift_check_def due_def computational_signals_def Let_def split: sum.splits bool.splits option.splits prod.splits if_splits)

text \<open>The trace a turn leaves, as a function of its actions.\<close>

definition turn_trace :: "pystr \<Rightarrow> action list \<Rightarrow> session_trace" where
  "turn_trace query acts =
     \<lparr>tr_query = query, tr_keywords = extract_keywords query, tr_rounds = int (length acts),
      tr_recent = last_slice 3 (map ac_summary acts), tr_empty = int (length (takeWhile ac_empty (rev acts))),
      tr_tokens = filter (\<lambda>n. 0 < n) (map ac_tokens acts)\<rparr>"

lemma last_slice_snoc: "last_slice 3 (last_slice 3 xs @ [x]) = last_slice 3 (xs @ [x])"
proof (cases "length xs < 3")
  case False
  then obtain n where "length xs = n + 3" by (metis le_add_diff_inverse2 not_less)
  then show ?thesis by (simp add: last_slice_def)
qed (simp add: last_slice_def)

lemma observe_turn_trace:
  "trace_at d sid = turn_trace q acts \<Longrightarrow> trace_at (observe_action sid a d) sid = turn_trace q (acts @ [a])"
  by (simp add: observe_action_def turn_trace_def last_slice_snoc)

lemma step_other: "op_session op \<noteq> sid \<Longrightarrow> trace_at (drift_step op d) sid = trace_at d sid"
  by (cases op) (auto simp: start_turn_def observe_action_def Let_def)

lemma step_fields [simp]: "dd_interval (drift_step op d) = dd_interval d" "dd_judge (drift_step op d) = dd_judge d"
  by (cases op; simp add: start_turn_def observe_action_def Let_def)+

lemma turn_run:
  assumes "trace_at d sid = turn_trace q acts" "filter (\<lambda>op. op_session op = sid) ops = map (Observe sid) later"
  shows "trace_at (fold drift_step ops d) sid = turn_trace q (acts @ later)"
  using assms
proof (induction ops arbitrary: d acts later)
  case (Cons op ops)
  show ?case
  proof (cases "op_session op = sid")
    case True
    with Cons.prems(2) obtain a as where "later = a # as" "op = Observe sid a" "filter (\<lambda>op. op_session op = sid) ops = map (Observe sid) as"
      by (auto simp: Cons_eq_map_conv)
    with Cons.IH [of "drift_step op d" "acts @ [a]" as] observe_turn_trace [OF Cons.prems(1), of a] show ?thesis by simp
  next
    case False
    with Cons.IH [of "drift_step op d" acts later] Cons.prems step_other [of op sid d] show ?thesis by simp
  qed
qed simp

lemma run_fields: "dd_interval (fold drift_step ops d) = dd_interval d \<and> dd_judge (fold drift_step ops d) = dd_judge d"
  by (induction ops arbitrary: d) simp_all

text \<open>C27: the report at the end of a turn is a function of that turn alone: whatever other sessions do in between, after a
  reset, the start of the turn and the observed actions it is empty unless the number of actions is a positive
  multiple of the interval, and else lists exactly the signals of those actions: the share of the keywords of
  the request in the last three, the run of empty results at the end and the jump in tokens.\<close>

theorem drift_report_of_turn:
  assumes "query \<noteq> []" "dd_judge d = None" "dd_interval d \<noteq> 0"
    "filter (\<lambda>op. op_session op = sid) ops = map (Observe sid) acts"
  shows "fst (drift_check sid bl (fold drift_step ops (start_turn sid query (drift_reset sid d)))) =
    Inr \<lparr>dr_reasons = (if acts = [] \<or> int (length acts) mod dd_interval d \<noteq> 0 then [] else trace_signals (turn_trace query acts) bl),
         dr_verdict = NORMAL\<rparr>"
proof -
  let ?d = "fold drift_step ops (start_turn sid query (drift_reset sid d))"
  have "trace_at (start_turn sid query (drift_reset sid d)) sid = turn_trace query []"
    by (simp add: start_turn_def Let_def turn_trace_def new_trace_def last_slice_def)
  from turn_run [OF this assms(4)] have t: "trace_at ?d sid = turn_trace query acts" by simp
  have f: "dd_judge ?d = None" "dd_interval ?d = dd_interval d"
    using run_fields [of ops "start_turn sid query (drift_reset sid d)"] assms(2) by (simp_all add: start_turn_def Let_def)
  have n: "tr_rounds (turn_trace query as) = int (length as)" for as by (simp add: turn_trace_def)
  show ?thesis using assms(3)
    by (cases "acts = []"; cases "int (length acts) mod dd_interval d = 0")
      (simp_all add: drift_check_def due_def computational_signals_def Let_def t f n n [of "[]", simplified])
qed

definition ex_action :: "string \<Rightarrow> bool \<Rightarrow> action" where
  "ex_action s e = \<lparr>ac_summary = u s, ac_empty = e, ac_tokens = 0\<rparr>"

definition ex_detector :: drift_detector where
  "ex_detector = \<lparr>dd_interval = CHECK_INTERVAL, dd_judge = None, dd_traces = []\<rparr>"

lemma ex_signals: "trace_signals (turn_trace (u ''Travel kit'') [ex_action ''tents'' True, ex_action ''stoves'' True, ex_action ''lamps'' True]) [] =
    [KEYWORDS 0, EMPTY_RESULTS 3]"
  by code_simp

theorem drift_report_of_turn_witness:
  "fst (drift_check (u ''s'') [] (fold drift_step [Observe (u ''s'') (ex_action ''tents'' True), StartTurn (u ''t'') (u ''x''),
      Observe (u ''s'') (ex_action ''stoves'' True), Observe (u ''t'') (ex_action ''kit'' False), Observe (u ''s'') (ex_action ''lamps'' True)]
      (start_turn (u ''s'') (u ''Travel kit'') (drift_reset (u ''s'') ex_detector)))) =
    Inr \<lparr>dr_reasons = [KEYWORDS 0, EMPTY_RESULTS 3], dr_verdict = NORMAL\<rparr>"
  by (subst drift_report_of_turn [where acts = "[ex_action ''tents'' True, ex_action ''stoves'' True, ex_action ''lamps'' True]"])
    (simp_all add: ex_detector_def CHECK_INTERVAL_def ex_signals)

end
