(* ===== verification/Agents.thy ===== *)
theory Agents
  imports Sessions
begin

text \<open>
  \<open>SessionRegistry\<close> of \<open>app/application/agents/main_agent.py\<close> and \<open>permissions.py\<close>. The agent is a parameter: \<open>build\<close>
  makes one from a restored state or none, \<open>dump\<close> and \<open>validate\<close> are the serialisation of its state
  (\<open>model_dump_json\<close> and \<open>model_validate_json\<close>, the latter fails with \<open>None\<close>). Whether the store can be read
  is an argument of the call.
\<close>

section \<open>The registry of sessions\<close>

record ('a, 's) registry =
  rg_agents :: "(pystr, 'a) dict"
  rg_store :: 's

record ('a, 'st, 's) registry_env =
  re_port :: "'s session_port"
  re_build :: "'st option \<Rightarrow> 'a"
  re_dump :: "'a \<Rightarrow> pystr"
  re_validate :: "pystr \<Rightarrow> 'st option"

definition try_restore :: "('a, 'st, 's) registry_env \<Rightarrow> bool \<Rightarrow> pystr \<Rightarrow> 's \<Rightarrow> 'st option" where
  "try_restore env readable sid s =
     (if \<not> readable then None
      else case port_load (re_port env) sid s of None \<Rightarrow> None | Some raw \<Rightarrow> re_validate env raw)"

definition get_or_create :: "('a, 'st, 's) registry_env \<Rightarrow> bool \<Rightarrow> pystr \<Rightarrow> ('a, 's) registry \<Rightarrow> 'a \<times> ('a, 's) registry" where
  "get_or_create env readable sid rg =
     (case map_of (rg_agents rg) sid of
        Some a \<Rightarrow> (a, rg)
      | None \<Rightarrow>
          (let a = re_build env (try_restore env readable sid (rg_store rg))
           in (a, rg\<lparr>rg_agents := AList.update sid a (rg_agents rg)\<rparr>)))"

text \<open>The agent is an object the registry shares with its callers: a changed state is written back under its session.\<close>

definition put_agent :: "pystr \<Rightarrow> 'a \<Rightarrow> ('a, 's) registry \<Rightarrow> ('a, 's) registry" where
  "put_agent sid a rg = rg\<lparr>rg_agents := AList.update sid a (rg_agents rg)\<rparr>"

definition persist :: "('a, 'st, 's) registry_env \<Rightarrow> pystr \<Rightarrow> ('a, 's) registry \<Rightarrow> ('a, 's) registry" where
  "persist env sid rg =
     (case map_of (rg_agents rg) sid of
        None \<Rightarrow> rg
      | Some a \<Rightarrow> rg\<lparr>rg_store := snd (port_save (re_port env) sid (re_dump env a) (rg_store rg))\<rparr>)"

text \<open>A new process over the same store.\<close>

definition restart :: "('a, 's) registry \<Rightarrow> ('a, 's) registry" where
  "restart rg = rg\<lparr>rg_agents := []\<rparr>"

lemma persist_store:
  "map_of (rg_agents rg) sid = Some a \<Longrightarrow> rg_store (persist env sid rg) = snd (port_save (re_port env) sid (re_dump env a) (rg_store rg))"
  by (simp add: persist_def)

context session_store
begin

lemma resume:
  assumes "re_port env = port" "inv (rg_store rg)" "sid \<in> ids" "re_dump env a \<in> texts" "re_validate env (re_dump env a) = Some st"
  shows "fst (get_or_create env True sid (restart (persist env sid (put_agent sid a rg)))) = re_build env (Some st) \<and>
    inv (rg_store (persist env sid (put_agent sid a rg))) \<and>
    (\<forall>other\<in>ids. other \<noteq> sid \<longrightarrow>
       fst (get_or_create env True other (restart (persist env sid (put_agent sid a rg)))) =
       fst (get_or_create env True other (restart rg)))"
proof -
  let ?rg = "persist env sid (put_agent sid a rg)"
  obtain r s' where save: "port_save port sid (re_dump env a) (rg_store rg) = (r, s')" by fastforce
  note law = save_law [OF assms(2-4) save]
  have "rg_store ?rg = s'" using assms(1) save by (simp add: persist_def put_agent_def map_of_update)
  with law assms(1,3,5) show ?thesis
    by (auto simp: get_or_create_def restart_def try_restore_def Let_def)
qed

end

text \<open>C28: a conversation survives a restart: after a turn that ended with the agent's state being persisted, a new
  process over the same tables restores exactly that state, and every other session as before.\<close>

theorem session_resumes:
  assumes "re_port env = sqlsession_port" "re_validate env (re_dump env a) = Some st"
  shows "fst (get_or_create env True sid (restart (persist env sid (put_agent sid a rg)))) = re_build env (Some st) \<and>
    (other \<noteq> sid \<longrightarrow> fst (get_or_create env True other (restart (persist env sid (put_agent sid a rg)))) =
       fst (get_or_create env True other (restart rg)))"
  using sqlsession.resume [OF assms(1) _ _ _ assms(2)] by simp

text \<open>Also: an unreadable store costs the session its history: when the one read at the start of a turn fails, the agent is
  built from nothing and the persist at the end of the turn replaces the stored state, so that it is gone
  although the store kept it and could be read again.\<close>

theorem failed_read_loses_session:
  assumes "re_port env = sqlsession_port" "map_of (rg_agents rg) sid = None" "get_or_create env False sid rg = (a, rg1)"
    "re_validate env (re_dump env (turn a)) = Some st"
  shows "a = re_build env None \<and>
    fst (get_or_create env True sid (restart (persist env sid (put_agent sid (turn a) rg1)))) = re_build env (Some st)"
  using assms(2,3) sqlsession.resume [OF assms(1) _ _ _ assms(4), where rg = rg1 and sid = sid]
  by (auto simp: get_or_create_def try_restore_def Let_def)

section \<open>Permissions\<close>

record perm_rule =
  pr_tool :: pystr
  pr_content :: "pystr option"
  pr_behavior :: pystr
  pr_source :: pystr

definition AUTO_ALLOWED_TOOLS :: "pystr list" where
  "AUTO_ALLOWED_TOOLS = map u [''create_order_tool'', ''cancel_order_tool'', ''task_dispatch'', ''remember_preference_tool'',
     ''forget_preference_tool'', ''TaskCreate'', ''TaskUpdate'', ''TaskList'', ''TaskGet'']"

definition PROJECT_SETTINGS :: pystr where "PROJECT_SETTINGS = u ''projectSettings''"

definition allow_rule :: "pystr \<Rightarrow> perm_rule" where
  "allow_rule t = \<lparr>pr_tool = t, pr_content = None, pr_behavior = u ''allow'', pr_source = PROJECT_SETTINGS\<rparr>"

definition allow_tool :: "pystr \<Rightarrow> (pystr, perm_rule list) dict \<Rightarrow> (pystr, perm_rule list) dict" where
  "allow_tool t d =
     (let rules = (case map_of d t of None \<Rightarrow> [] | Some rs \<Rightarrow> rs)
      in AList.update t (if list_ex (\<lambda>r. pr_source r = PROJECT_SETTINGS) rules then rules else rules @ [allow_rule t]) d)"

definition allow_business_tools :: "(pystr, perm_rule list) dict \<Rightarrow> (pystr, perm_rule list) dict" where
  "allow_business_tools d = fold allow_tool AUTO_ALLOWED_TOOLS d"

definition rules_at :: "(pystr, perm_rule list) dict \<Rightarrow> pystr \<Rightarrow> perm_rule list" where
  "rules_at d t = (case map_of d t of None \<Rightarrow> [] | Some rs \<Rightarrow> rs)"

definition ensured :: "pystr \<Rightarrow> perm_rule list \<Rightarrow> perm_rule list" where
  "ensured t rs = (if list_ex (\<lambda>r. pr_source r = PROJECT_SETTINGS) rs then rs else rs @ [allow_rule t])"

lemma rules_at_allow: "rules_at (allow_tool t d) x = (if x = t then ensured t (rules_at d t) else rules_at d x)"
  by (simp add: rules_at_def allow_tool_def ensured_def Let_def map_of_update)

lemma ensured_ensured [simp]: "ensured t (ensured t rs) = ensured t rs"
  by (simp add: ensured_def allow_rule_def)

lemma rules_at_fold: "rules_at (fold allow_tool ts d) x = (if x \<in> set ts then ensured x (rules_at d x) else rules_at d x)"
  by (induction ts arbitrary: d) (auto simp: rules_at_allow)

text \<open>Also: restoring a session any number of times adds each business tool's rule once: a tool on the list that has no rule
  of the project gets exactly one, appended to the rules the state brought along, every other tool keeps its
  rules (none for an unknown tool), and doing it again changes nothing.\<close>

theorem permissions_idempotent:
  "rules_at (allow_business_tools d) t =
     (if t \<in> set AUTO_ALLOWED_TOOLS \<and> (\<forall>r\<in>set (rules_at d t). pr_source r \<noteq> PROJECT_SETTINGS)
      then rules_at d t @ [allow_rule t] else rules_at d t) \<and>
   rules_at (allow_business_tools (allow_business_tools d)) t = rules_at (allow_business_tools d) t"
  by (auto simp: allow_business_tools_def rules_at_fold) (auto simp: ensured_def list_ex_iff)

section \<open>Concrete instances\<close>

text \<open>An agent whose state is one text.\<close>

definition ex_registry_env :: "(pystr, pystr, session_rows) registry_env" where
  "ex_registry_env = \<lparr>re_port = sqlsession_port, re_build = (\<lambda>st. case st of None \<Rightarrow> [] | Some t \<Rightarrow> t), re_dump = (\<lambda>a. a),
     re_validate = (\<lambda>t. Some t)\<rparr>"

definition ex_registry :: "(pystr, session_rows) registry" where
  "ex_registry = \<lparr>rg_agents = [], rg_store = (\<lambda>s. if s = u ''s1'' then Some (u ''history'') else None)\<rparr>"

theorem session_resumes_witness:
  "fst (get_or_create ex_registry_env True (u ''s1'') (restart (persist ex_registry_env (u ''s1'') (put_agent (u ''s1'') (u ''next'') ex_registry)))) =
     u ''next''"
  using session_resumes [of ex_registry_env "u ''next''" "u ''next''" "u ''s1''" ex_registry]
  by (simp add: ex_registry_env_def)

theorem failed_read_loses_session_witness:
  "fst (get_or_create ex_registry_env True (u ''s1'') ex_registry) = u ''history'' \<and>
   (let (a, rg) = get_or_create ex_registry_env False (u ''s1'') ex_registry
    in fst (get_or_create ex_registry_env True (u ''s1'') (restart (persist ex_registry_env (u ''s1'') (put_agent (u ''s1'') (a @ u ''!'') rg)))) = u ''!'')"
proof -
  obtain a rg where g: "get_or_create ex_registry_env False (u ''s1'') ex_registry = (a, rg)" by fastforce
  have env: "re_port ex_registry_env = sqlsession_port" "map_of (rg_agents ex_registry) (u ''s1'') = None"
    "re_validate ex_registry_env (re_dump ex_registry_env (a @ u ''!'')) = Some (a @ u ''!'')" "re_build ex_registry_env None = []"
    "re_build ex_registry_env (Some (u ''!'')) = u ''!''"
    by (simp_all add: ex_registry_env_def ex_registry_def)
  from failed_read_loses_session [where turn = "\<lambda>a. a @ u ''!''", OF env(1,2) g env(3)] env(4,5)
  have "a = [] \<and> fst (get_or_create ex_registry_env True (u ''s1'') (restart (persist ex_registry_env (u ''s1'') (put_agent (u ''s1'') (a @ u ''!'') rg)))) = u ''!''"
    by auto
  moreover have "fst (get_or_create ex_registry_env True (u ''s1'') ex_registry) = u ''history''" by code_simp
  ultimately show ?thesis unfolding g prod.case Let_def by (intro conjI) (elim conjE; assumption)+
qed

end
