(* ===== verification/Orchestrator.thy ===== *)
theory Orchestrator
  imports Agents Caches Drift Event_Bus Harness Transient
begin

text \<open>
  \<open>app/application/agents/orchestrator.py\<close>: one turn of a session, from the intent to the answer, with the events it
  publishes, the retries, the displayed products, the caches and detectors, and what happens on every path at
  its end. The reply stream of the agent is a parameter: for each attempt the items it yields, in order with
  what its tools and other sessions do on the bus meanwhile, the exception it ends with, if any, and the
  state it leaves. The clock, the output audit, \<open>str\<close> of an exception and the fingerprint hash are parameters.
\<close>

section \<open>Texts\<close>

definition MSG_TRANSIENT :: pystr where
  "MSG_TRANSIENT = [19978, 28216, 26381, 21153, 26242, 26102, 19981, 21487, 29992, 65292, 35831, 31245, 21518, 37325, 35797,
    12290]"

definition MSG_PERMANENT :: pystr where
  "MSG_PERMANENT = [31995, 32479, 26242, 26102, 26080, 27861, 23436, 25104, 26412, 27425, 35831, 27714, 65292, 35831, 32852,
    31995, 31649, 29702, 21592, 12290]"

definition MSG_RETRY :: pystr where
  "MSG_RETRY = [19978, 28216, 26381, 21153, 26242, 26102, 19981, 21487, 29992, 65292, 27491, 22312, 37325, 35797, 12290]"

definition MSG_INTERRUPTED :: pystr where
  "MSG_INTERRUPTED = [26412, 36718, 24050, 20013, 26029, 65292, 20219, 21153, 26410, 23436, 25104, 12290]"

definition MSG_GUARD :: pystr where
  "MSG_GUARD = [36755, 20986, 23457, 26680, 21629, 20013, 20869, 37096, 20449, 24687, 65292, 24050, 33073, 25935, 21518,
    19979, 21457]"

definition MSG_DRIFT :: pystr where
  "MSG_DRIFT = [26816, 27979, 21040, 21487, 33021, 30340, 30446, 26631, 28418, 31227]"

definition MSG_NOTE :: pystr where
  "MSG_NOTE = [26412, 36718, 24050, 20013, 26029, 65292, 20219, 21153, 26410, 23436, 25104, 65307, 19981, 24471, 25226,
    37096, 20998, 32467, 26524, 35270, 20026, 25104, 21151, 12290]"

definition HINT_HEAD :: pystr where
  "HINT_HEAD = [60, 98, 117, 121, 101, 114, 45, 112, 114, 101, 102, 101, 114, 101, 110, 99, 101, 115, 62, 10, 20197, 19979,
    26159, 35813, 20080, 23478, 30340, 38271, 26399, 20559, 22909, 65288, 26469, 33258, 21382, 21490, 20250,
    35805, 65292, 20379, 20010, 24615, 21270, 25512, 33616, 21442, 32771, 65292, 108, 105, 107, 101, 61, 21916,
    22909, 65292, 100, 105, 115, 108, 105, 107, 101, 61, 24524, 21475, 47, 40657, 21517, 21333, 65289, 65306, 10]"

definition HINT_TAIL :: pystr where
  "HINT_TAIL = [10] @ u ''</buyer-preferences>''"

definition render_preference_hint :: "preference list \<Rightarrow> pystr" where
  "render_preference_hint ps = HINT_HEAD @ render_preference_lines ps @ HINT_TAIL"

section \<open>Data\<close>

record intent =
  in_session :: pystr
  in_buyer :: pystr
  in_locale :: pystr
  in_currency :: pystr
  in_query :: pystr

record turn_output =
  out_session :: pystr
  out_text :: pystr
  out_displayed :: "json list"
  out_interrupted :: bool

record agent_state =
  ag_name :: pystr
  ag_context :: "json list"
  ag_summary :: pystr
  ag_middle :: json

record final_msg =
  fm_interrupted :: bool
  fm_structured :: "json option"
  fm_text :: "pystr option"

text \<open>\<open>ToolEnd\<close> carries the texts of the output blocks and the snapshot of the plan at that moment.\<close>

datatype stream_item =
    Final final_msg
  | Delta pystr
  | ToolStart pystr pystr
  | ToolEnd pystr "pystr list" json
  | Meanwhile "json bus_op"

record stream =
  st_items :: "stream_item list"
  st_end :: "exn option"
  st_agent :: agent_state

record 'v conv_port =
  cv_touch :: "pystr \<Rightarrow> pystr \<Rightarrow> pystr \<Rightarrow> pystr \<Rightarrow> 'v \<Rightarrow> unit result \<times> 'v"
  cv_append_turn :: "turn \<Rightarrow> 'v \<Rightarrow> unit result \<times> 'v"
  cv_append_events :: "conv_event list \<Rightarrow> 'v \<Rightarrow> unit result \<times> 'v"

record ('c, 'v, 's) orch_env =
  oe_now :: pystr
  oe_lower :: "pystr \<Rightarrow> pystr"
  oe_text :: "exn \<Rightarrow> pystr"
  oe_guard_enabled :: bool
  oe_audit :: "pystr \<Rightarrow> bool \<times> pystr"
  oe_semcache :: "'c sem_cache option"
  oe_prefs :: "pystr \<Rightarrow> preference list result"
  oe_selector :: selector
  oe_top_k :: int
  oe_fingerprint :: "pystr \<Rightarrow> pystr"
  oe_conv :: "'v conv_port option"
  oe_registry :: "(agent_state, agent_state, 's) registry_env"
  oe_readable :: bool
  oe_stream :: "nat \<Rightarrow> (pystr \<times> pystr) list \<Rightarrow> agent_state \<Rightarrow> stream"
  oe_latency :: int

record ('c, 'v, 's) orch =
  or_bus :: "json event_bus"
  or_registry :: "(agent_state, 's) registry"
  or_cache :: 'c
  or_conv :: 'v
  or_loops :: "loop_detector option"
  or_drift :: "drift_detector option"

definition pub :: "('c, 'v, 's) orch_env \<Rightarrow> pystr \<Rightarrow> string \<Rightarrow> (pystr \<times> json) list \<Rightarrow> json bus_op" where
  "pub env sid t kvs = Publish True (oe_now env) sid (u t) (JObj kvs)"

definition is_transient :: "('c, 'v, 's) orch_env \<Rightarrow> exn \<Rightarrow> bool" where
  "is_transient env e = is_transient_error (oe_lower env) (oe_text env e)"

section \<open>The structured answer\<close>

definition SHOP_PLATFORMS :: "pystr list" where
  "SHOP_PLATFORMS = map u [''crossshop_reference'', ''reference_seed'', ''amazon'']"

definition keys_within :: "json \<Rightarrow> string list \<Rightarrow> bool" where
  "keys_within v ks \<longleftrightarrow> list_all (\<lambda>(k, w). k \<in> set (map u ks)) (obj_items v)"

definition parse_ref :: "json \<Rightarrow> (pystr \<times> pystr) result" where
  "parse_ref v =
     (if \<not> is_obj v \<or> \<not> keys_within v [''platform'', ''product_id''] then Inl (ValueError ''ValidationError'')
      else case (jget v ''platform'', jget v ''product_id'') of
             (JStr p, JStr i) \<Rightarrow> if p \<in> set SHOP_PLATFORMS \<and> i \<noteq> [] then Inr (p, i) else Inl (ValueError ''ValidationError'')
           | _ \<Rightarrow> Inl (ValueError ''ValidationError''))"

definition parse_structured :: "json \<Rightarrow> (pystr \<times> (pystr \<times> pystr) list) result" where
  "parse_structured v =
     (if \<not> is_obj v \<or> \<not> keys_within v [''final_text'', ''selected_products''] then Inl (ValueError ''ValidationError'')
      else case (jget v ''final_text'', get_or v ''selected_products'' (JList [])) of
             (JStr t, JList rs) \<Rightarrow>
               if t = [] \<or> 5 < length rs then Inl (ValueError ''ValidationError'')
               else andThen (mapR parse_ref rs) (\<lambda>refs. Inr (t, refs))
           | _ \<Rightarrow> Inl (ValueError ''ValidationError''))"

section \<open>Displayed products\<close>

type_synonym cards = "(pystr \<times> pystr, json \<times> json) dict"

definition prior_card :: "json \<Rightarrow> cards \<Rightarrow> cards" where
  "prior_card d cs =
     (let crd = jget d ''card''
      in if \<not> is_obj crd then cs
         else case (jget d ''platform'', jget crd ''product_id'') of
                (JStr p, JStr i) \<Rightarrow> AList.update (p, i) (jget d ''site_locale'', crd) cs
              | _ \<Rightarrow> cs)"

definition hit_card :: "pystr \<Rightarrow> json \<Rightarrow> json \<Rightarrow> cards \<Rightarrow> cards" where
  "hit_card p site hit cs =
     (if \<not> is_obj hit then cs
      else case jget hit ''product_id'' of
             JStr i \<Rightarrow> if i = [] then cs else AList.update (p, i) (site, hit) cs
           | _ \<Rightarrow> cs)"

definition event_cards :: "json trade_event \<Rightarrow> cards \<Rightarrow> cards" where
  "event_cards ev cs =
     (let p = ev_payload ev
      in if ev_type ev \<noteq> u ''tool.result'' \<or> \<not> is_obj p then cs
         else if jget p ''tool'' \<noteq> JStr (u ''product_search_tool'') \<or> Json.truthy (jget p ''error'') then cs
         else case (jget p ''platform'', jget p ''hits'') of
                (JStr pl, JList hs) \<Rightarrow> if pl \<in> set SHOP_PLATFORMS then fold (hit_card pl (jget p ''site_locale'')) hs cs else cs
              | _ \<Rightarrow> cs)"

definition displayed_json :: "nat \<Rightarrow> pystr \<Rightarrow> json \<Rightarrow> json \<Rightarrow> json" where
  "displayed_json rank p site crd = JObj [(u ''rank'', JInt (int rank)), (u ''platform'', JStr p), (u ''site_locale'', site), (u ''card'', crd)]"

text \<open>The loop over the references; \<open>acc\<close> holds the keys seen with the products, at most five.\<close>

fun pick_refs :: "cards \<Rightarrow> (pystr \<times> pystr) list \<Rightarrow> ((pystr \<times> pystr) \<times> json) list \<Rightarrow> ((pystr \<times> pystr) \<times> json) list" where
  "pick_refs cs [] acc = acc"
| "pick_refs cs (key # refs) acc =
     (if key \<in> set (map fst acc) then pick_refs cs refs acc
      else case map_of cs key of
             None \<Rightarrow> pick_refs cs refs acc
           | Some (site, crd) \<Rightarrow>
               (let acc' = acc @ [(key, displayed_json (length acc + 1) (fst key) site crd)]
                in if length acc' = 5 then acc' else pick_refs cs refs acc'))"

definition resolve_displayed :: "(pystr \<times> pystr) list \<Rightarrow> json trade_event list \<Rightarrow> json list \<Rightarrow> json list" where
  "resolve_displayed refs evs prior = map snd (pick_refs (fold event_cards evs (fold prior_card prior [])) refs [])"

definition context_of :: "agent_state \<Rightarrow> json" where
  "context_of ag = jget (ag_middle ag) ''crossshop_context_v1''"

definition prior_displayed :: "agent_state \<Rightarrow> json list" where
  "prior_displayed ag =
     (let r = jget (jget (context_of ag) ''session_context'') ''last_recommendation'';
          d = (if is_jlist (jget r ''displayed_history'') then jget r ''displayed_history'' else jget r ''displayed_products'')
      in if is_obj (context_of ag) \<and> is_obj (jget (context_of ag) ''session_context'') \<and> is_obj r \<and> is_jlist d
         then take 20 (filter is_obj (list_items d)) else [])"

definition l3_summary_hash :: "agent_state \<Rightarrow> pystr option" where
  "l3_summary_hash ag =
     (if is_obj (context_of ag) \<and> is_obj (jget (context_of ag) ''stage_summary'')
      then case jget (jget (context_of ag) ''stage_summary'') ''summary_hash'' of JStr h \<Rightarrow> if h = [] then None else Some h | _ \<Rightarrow> None
      else None)"

section \<open>Consuming the reply stream\<close>

definition TASK_TOOL_NAMES :: "pystr list" where
  "TASK_TOOL_NAMES = map u [''TaskCreate'', ''TaskUpdate'', ''TaskList'', ''TaskGet'']"

definition MAX_TURN_RETRIES :: nat where "MAX_TURN_RETRIES = 2"
definition RETRY_BASE_SECONDS :: rat where "RETRY_BASE_SECONDS = 6"

text \<open>The local variables of one attempt; \<open>ta_ops\<close> is what happened on the bus, \<open>ta_notes\<close> the messages appended to the context.\<close>

record turn_acc =
  ta_text :: pystr
  ta_selected :: "(pystr \<times> pystr) list"
  ta_interrupted :: bool
  ta_names :: "(pystr, pystr) dict"
  ta_ops :: "json bus_op list"
  ta_notes :: "json list"
  ta_drift :: "drift_detector option"

definition interrupted_note :: "agent_state \<Rightarrow> json" where
  "interrupted_note ag = JObj [(u ''name'', JStr (ag_name ag)), (u ''content'', JStr MSG_NOTE), (u ''finished_reason'', JStr (u ''interrupted''))]"

definition result_empty :: "pystr \<Rightarrow> bool" where
  "result_empty text \<longleftrightarrow> text \<noteq> [] \<and> (substring (u ''\"hits\": []'') text \<or> substring (u ''\"hits\":[]'') text)"

definition observe_for_drift :: "pystr \<Rightarrow> pystr option \<Rightarrow> pystr list \<Rightarrow> drift_detector option \<Rightarrow> drift_detector option" where
  "observe_for_drift sid tool blocks dd =
     (case (dd, tool) of
        (Some d, Some t) \<Rightarrow>
          if t = [] then dd
          else let text = join [10] blocks
               in Some (observe_action sid \<lparr>ac_summary = t @ [32] @ take 200 text, ac_empty = result_empty text, ac_tokens = 0\<rparr> d)
      | _ \<Rightarrow> dd)"

definition consume_final :: "agent_state \<Rightarrow> final_msg \<Rightarrow> turn_acc \<Rightarrow> exn option \<times> turn_acc" where
  "consume_final ag m acc =
     (let acc1 = (if fm_interrupted m then acc\<lparr>ta_interrupted := True, ta_notes := ta_notes acc @ [interrupted_note ag]\<rparr> else acc)
      in case fm_structured m of
           Some v \<Rightarrow>
             (case parse_structured v of
                Inl e \<Rightarrow> (Some e, acc1)
              | Inr (t, refs) \<Rightarrow> (None, acc1\<lparr>ta_text := t, ta_selected := refs\<rparr>))
         | None \<Rightarrow> (None, acc1\<lparr>ta_text := (case fm_text m of None \<Rightarrow> [] | Some t \<Rightarrow> t)\<rparr>))"

fun consume_item :: "('c, 'v, 's) orch_env \<Rightarrow> pystr \<Rightarrow> agent_state \<Rightarrow> stream_item \<Rightarrow> turn_acc \<Rightarrow> exn option \<times> turn_acc" where
  "consume_item env sid ag (Final m) acc = consume_final ag m acc"
| "consume_item env sid ag (Delta d) acc =
     (None, if d = [] then acc
            else acc\<lparr>ta_ops := ta_ops acc @ [pub env sid ''token.delta'' [(u ''name'', JStr (ag_name ag)), (u ''token'', JStr d)]]\<rparr>)"
| "consume_item env sid ag (ToolStart i t) acc = (None, acc\<lparr>ta_names := AList.update i t (ta_names acc)\<rparr>)"
| "consume_item env sid ag (ToolEnd i blocks tasks) acc =
     (let tool = map_of (ta_names acc) i
      in (None, acc\<lparr>ta_ops := ta_ops acc @ (if tool \<noteq> None \<and> the tool \<in> set TASK_TOOL_NAMES
                                       then [pub env sid ''plan.update'' [(u ''tasks'', tasks)]] else []),
                    ta_drift := observe_for_drift sid tool blocks (ta_drift acc)\<rparr>))"
| "consume_item env sid ag (Meanwhile op) acc = (None, acc\<lparr>ta_ops := ta_ops acc @ [op]\<rparr>)"

fun consume :: "('c, 'v, 's) orch_env \<Rightarrow> pystr \<Rightarrow> agent_state \<Rightarrow> stream_item list \<Rightarrow> turn_acc \<Rightarrow> exn option \<times> turn_acc" where
  "consume env sid ag [] acc = (None, acc)"
| "consume env sid ag (x # xs) acc =
     (case consume_item env sid ag x acc of
        (Some e, acc') \<Rightarrow> (Some e, acc')
      | (None, acc') \<Rightarrow> consume env sid ag xs acc')"

definition fresh_acc :: "json bus_op list \<Rightarrow> drift_detector option \<Rightarrow> turn_acc" where
  "fresh_acc ops dd = \<lparr>ta_text = [], ta_selected = [], ta_interrupted = False, ta_names = [], ta_ops = ops, ta_notes = [], ta_drift = dd\<rparr>"

definition consume_reply :: "('c, 'v, 's) orch_env \<Rightarrow> pystr \<Rightarrow> nat \<Rightarrow> (pystr \<times> pystr) list \<Rightarrow> agent_state \<Rightarrow> json bus_op list \<Rightarrow>
    drift_detector option \<Rightarrow> exn option \<times> turn_acc \<times> agent_state" where
  "consume_reply env sid attempt inputs ag ops dd =
     (let st = oe_stream env attempt inputs ag;
          (e, acc) = consume env sid ag (st_items st) (fresh_acc ops dd)
      in (case e of None \<Rightarrow> st_end st | Some err \<Rightarrow> Some err, acc,
          (st_agent st)\<lparr>ag_context := ag_context (st_agent st) @ ta_notes acc\<rparr>))"

text \<open>The attempts; the number of those that remain after this one decreases, and the last one is not caught. The list collects
  the delays slept.\<close>

definition retry_event :: "('c, 'v, 's) orch_env \<Rightarrow> pystr \<Rightarrow> json bus_op" where
  "retry_event env sid = pub env sid ''error'' [(u ''message'', JStr MSG_RETRY), (u ''classification'', JStr (u ''transient'')),
     (u ''retrying'', JBool True)]"

fun reply_with_retry :: "('c, 'v, 's) orch_env \<Rightarrow> pystr \<Rightarrow> nat \<Rightarrow> nat \<Rightarrow> (pystr \<times> pystr) list \<Rightarrow> agent_state \<Rightarrow> json bus_op list \<Rightarrow>
    drift_detector option \<Rightarrow> (exn option \<times> turn_acc \<times> agent_state) \<times> rat list" where
  "reply_with_retry env sid attempt 0 inputs ag ops dd = (consume_reply env sid attempt inputs ag ops dd, [])"
| "reply_with_retry env sid attempt (Suc n) inputs ag ops dd =
     (case consume_reply env sid attempt inputs ag ops dd of
        (None, acc, ag') \<Rightarrow> ((None, acc, ag'), [])
      | (Some e, acc, ag') \<Rightarrow>
          if \<not> is_transient env e then ((Some e, acc, ag'), [])
          else (let (out, delays) = reply_with_retry env sid (attempt + 1) n [] ag' (ta_ops acc @ [retry_event env sid]) (ta_drift acc)
                in (out, RETRY_BASE_SECONDS * 3 ^ attempt # delays)))"

section \<open>The steps of a turn\<close>

definition guard_final_text :: "('c, 'v, 's) orch_env \<Rightarrow> pystr \<Rightarrow> pystr \<Rightarrow> pystr \<times> json bus_op list" where
  "guard_final_text env sid text =
     (if \<not> oe_guard_enabled env \<or> text = [] then (text, [])
      else let (safe, cleaned) = oe_audit env text
           in (cleaned, if safe then [] else [pub env sid ''error'' [(u ''message'', JStr MSG_GUARD)]]))"

definition preference_scope :: "('c, 'v, 's) orch_env \<Rightarrow> pystr \<Rightarrow> pystr" where
  "preference_scope env buyer =
     (case oe_prefs env buyer of Inl e \<Rightarrow> [] | Inr ps \<Rightarrow> if ps = [] then [] else oe_fingerprint env (render_preference_lines ps))"

definition lookup_cache :: "('c, 'v, 's) orch_env \<Rightarrow> intent \<Rightarrow> bool \<Rightarrow> 'c \<Rightarrow> semantic_hit option result \<times> json bus_op list \<times> 'c" where
  "lookup_cache env i has_history c =
     (case oe_semcache env of
        None \<Rightarrow> (Inr None, [], c)
      | Some sc \<Rightarrow>
          (case sem_lookup sc (in_buyer i) (in_query i) has_history (preference_scope env (in_buyer i)) c of
             (Inl e, c') \<Rightarrow> (Inl e, [], c')
           | (Inr None, c') \<Rightarrow> (Inr None, [], c')
           | (Inr (Some h), c') \<Rightarrow>
               if sh_displayed h \<noteq> [] then (Inr None, [], c')
               else (Inr (Some h), [pub env (in_session i) ''cache.hit'' [(u ''similarity'', JFloat (sh_similarity h)),
                       (u ''matched_query'', JStr (sh_matched_query h))]], c')))"

definition remember_cache :: "('c, 'v, 's) orch_env \<Rightarrow> intent \<Rightarrow> pystr \<Rightarrow> bool \<Rightarrow> json list \<Rightarrow> 'c \<Rightarrow> 'c" where
  "remember_cache env i text has_history displayed c =
     (case oe_semcache env of
        None \<Rightarrow> c
      | Some sc \<Rightarrow>
          if displayed \<noteq> [] then c
          else sem_remember sc (in_buyer i) (in_query i) text has_history (preference_scope env (in_buyer i)) displayed c)"

definition build_inputs :: "('c, 'v, 's) orch_env \<Rightarrow> intent \<Rightarrow> (pystr \<times> pystr) list" where
  "build_inputs env i =
     (let user = (in_buyer i, in_query i);
          prefs = (case oe_prefs env (in_buyer i) of Inl e \<Rightarrow> [] | Inr ps \<Rightarrow> ps);
          selected = select_preferences (oe_selector env) prefs (in_query i) (oe_top_k env)
      in if prefs = [] \<or> selected = [] then [user] else [(u ''memory_hint'', render_preference_hint selected), user])"

fun reason_json :: "drift_reason \<Rightarrow> json" where
  "reason_json (KEYWORDS r) = JStr (u ''keywords'')"
| "reason_json (EMPTY_RESULTS n) = JStr (u ''empty results'')"
| "reason_json (BLACKLIST xs) = JStr (u ''blacklist'')"
| "reason_json (COST a b) = JStr (u ''cost'')"

definition check_drift :: "('c, 'v, 's) orch_env \<Rightarrow> pystr \<Rightarrow> drift_detector option \<Rightarrow> json bus_op list \<times> drift_detector option" where
  "check_drift env sid dd =
     (case dd of
        None \<Rightarrow> ([], None)
      | Some d \<Rightarrow>
          (case drift_check sid [] d of
             (Inl e, d') \<Rightarrow> ([], Some d')
           | (Inr r, d') \<Rightarrow>
               (if drifted r
                then [pub env sid ''error'' [(u ''message'', JStr MSG_DRIFT), (u ''reasons'', JList (map reason_json (dr_reasons r))),
                        (u ''verdict'', JStr (dr_verdict r))]]
                else [], Some d')))"

definition present :: "(string \<times> json) list \<Rightarrow> (pystr \<times> json) list" where
  "present kvs = map (\<lambda>(k, v). (u k, v)) (filter (\<lambda>(k, v). v \<noteq> JNull) kvs)"

definition l3_payload :: "json \<Rightarrow> json \<Rightarrow> (pystr \<times> json) list" where
  "l3_payload stage cmpr = map (\<lambda>(k, v). (u k, v)) [(''action'', JStr (u ''l3_stage_summary'')), (''before_tokens'', jget cmpr ''before_tokens''),
       (''after_tokens'', jget cmpr ''after_tokens''), (''source_segment_count'', JInt (int (length (list_items (jget stage ''source_segment_ids''))))),
       (''summary_hash'', jget stage ''summary_hash'')]
     @ present [(''source_manifest_hash'', jget stage ''combined_source_hash''), (''summary_generation'', jget stage ''generation''),
       (''summary_estimated_tokens'', jget stage ''estimated_tokens''), (''summary_target_tokens'', jget cmpr ''summary_target_tokens''),
       (''summary_hard_limit_tokens'', jget cmpr ''summary_hard_limit_tokens''), (''compression_ratio'', jget cmpr ''compression_ratio''),
       (''recent_raw_segment_count'', jget cmpr ''recent_raw_segment_count'')]"

definition publish_compression :: "('c, 'v, 's) orch_env \<Rightarrow> pystr \<Rightarrow> agent_state \<Rightarrow> pystr \<Rightarrow> pystr option \<Rightarrow> json bus_op list" where
  "publish_compression env sid ag summary_before l3_before =
     (let stage = jget (context_of ag) ''stage_summary''; cmpr = jget (context_of ag) ''context_compression''
      in if is_obj (context_of ag) \<and> is_obj stage \<and> is_obj cmpr \<and> jget cmpr ''action'' = JStr (u ''l3_stage_summary'') \<and>
            l3_summary_hash ag \<noteq> None \<and> l3_summary_hash ag \<noteq> l3_before
         then [pub env sid ''context.compressed'' (l3_payload stage cmpr)]
         else if ag_summary ag = [] \<or> ag_summary ag = summary_before then []
         else [pub env sid ''context.compressed'' [(u ''action'', JStr (u ''agentscope_builtin_summary'')),
                 (u ''summary_length'', JInt (int (length (ag_summary ag)))), (u ''context_messages'', JInt (int (length (ag_context ag))))]])"

definition final_event :: "('c, 'v, 's) orch_env \<Rightarrow> pystr \<Rightarrow> pystr \<Rightarrow> json list \<Rightarrow> bool \<Rightarrow> json bus_op" where
  "final_event env sid text displayed interrupted = pub env sid ''final.result'' ([(u ''text'', JStr text), (u ''displayed_products'', JList displayed)]
     @ (if interrupted then [(u ''interrupted'', JBool True)] else []))"

section \<open>A turn\<close>

text \<open>What the body of the \<open>try\<close> leaves: the operations on the bus so far, the agent, the cache and the drift traces.\<close>

record 'c body =
  bd_ops :: "json bus_op list"
  bd_agent :: agent_state
  bd_cache :: 'c
  bd_drift :: "drift_detector option"

definition answer_of :: "intent \<Rightarrow> pystr \<Rightarrow> json list \<Rightarrow> bool \<Rightarrow> turn_output" where
  "answer_of i text displayed interrupted =
     \<lparr>out_session = in_session i, out_text = text, out_displayed = displayed, out_interrupted = interrupted\<rparr>"

text \<open>The end of a turn whose reply arrived; \<open>b\<close> and \<open>q\<close> are the bus at its start and the queue of the turn.\<close>

definition finish_turn :: "('c, 'v, 's) orch_env \<Rightarrow> intent \<Rightarrow> json event_bus \<Rightarrow> nat \<Rightarrow> agent_state \<Rightarrow> turn_acc \<Rightarrow> agent_state \<Rightarrow> 'c \<Rightarrow>
    turn_output \<times> 'c body" where
  "finish_turn env i b q before acc ag c =
     (let sid = in_session i;
          (text, guard_ops) = guard_final_text env sid (ta_text acc);
          ops1 = ta_ops acc @ guard_ops
      in if ta_interrupted acc
         then (answer_of i text [] True,
           \<lparr>bd_ops = ops1 @ [pub env sid ''error'' [(u ''classification'', JStr (u ''interrupted'')), (u ''message'', JStr MSG_INTERRUPTED)],
                             final_event env sid text [] True],
            bd_agent = ag, bd_cache = c, bd_drift = ta_drift acc\<rparr>)
         else
           (let displayed = resolve_displayed (ta_selected acc) (get_list (queues (bus_run ops1 b)) q) (prior_displayed before);
                (drift_ops, dd) = check_drift env sid (ta_drift acc);
                ops2 = ops1 @ drift_ops @ publish_compression env sid ag (ag_summary before) (l3_summary_hash before)
                  @ [final_event env sid text displayed False]
            in (answer_of i text displayed False,
                \<lparr>bd_ops = ops2, bd_agent = ag, bd_cache = remember_cache env i text (ag_context before \<noteq> []) displayed c, bd_drift = dd\<rparr>)))"

definition turn_try :: "('c, 'v, 's) orch_env \<Rightarrow> intent \<Rightarrow> json event_bus \<Rightarrow> nat \<Rightarrow> agent_state \<Rightarrow> 'c \<Rightarrow> drift_detector option \<Rightarrow>
    turn_output result \<times> 'c body" where
  "turn_try env i b q ag c dd =
     (let sid = in_session i
      in case lookup_cache env i (ag_context ag \<noteq> []) c of
           (Inl e, ops, c') \<Rightarrow> (Inl e, \<lparr>bd_ops = ops, bd_agent = ag, bd_cache = c', bd_drift = dd\<rparr>)
         | (Inr (Some h), ops, c') \<Rightarrow>
             (let (text, guard_ops) = guard_final_text env sid (sh_reply h)
              in (Inr (answer_of i text (sh_displayed h) False),
                  \<lparr>bd_ops = ops @ guard_ops @ [final_event env sid text (sh_displayed h) False], bd_agent = ag, bd_cache = c', bd_drift = dd\<rparr>))
         | (Inr None, ops, c') \<Rightarrow>
             (case fst (reply_with_retry env sid 0 MAX_TURN_RETRIES (build_inputs env i) ag ops dd) of
                (Some e, acc, ag') \<Rightarrow> (Inl e, \<lparr>bd_ops = ta_ops acc, bd_agent = ag', bd_cache = c', bd_drift = ta_drift acc\<rparr>)
              | (None, acc, ag') \<Rightarrow> (case finish_turn env i b q ag acc ag' c' of (out, bd) \<Rightarrow> (Inr out, bd))))"

definition terminal_note :: "agent_state \<Rightarrow> pystr \<Rightarrow> json" where
  "terminal_note ag text = JObj [(u ''name'', JStr (ag_name ag)), (u ''content'', JStr text),
     (u ''metadata'', JObj [(u ''crossshop_terminal_status'', JStr (u ''error''))])]"

definition public_message :: "('c, 'v, 's) orch_env \<Rightarrow> exn \<Rightarrow> pystr" where
  "public_message env e = (if is_transient env e then MSG_TRANSIENT else MSG_PERMANENT)"

text \<open>The \<open>except\<close> clause.\<close>

definition turn_except :: "('c, 'v, 's) orch_env \<Rightarrow> intent \<Rightarrow> exn \<Rightarrow> 'c body \<Rightarrow> turn_output \<times> 'c body" where
  "turn_except env i e bd =
     (let text = u ''[error] '' @ public_message env e; ag = bd_agent bd
      in (answer_of i text [] False,
          bd\<lparr>bd_ops := bd_ops bd @ [pub env (in_session i) ''error'' [(u ''message'', JStr (public_message env e)),
               (u ''classification'', JStr (if is_transient env e then u ''transient'' else u ''non_transient''))]],
             bd_agent := ag\<lparr>ag_context := ag_context ag @ [terminal_note ag text]\<rparr>\<rparr>))"

definition conv_events :: "pystr \<Rightarrow> json trade_event list \<Rightarrow> conv_event list" where
  "conv_events sid evs = map (\<lambda>ev. \<lparr>ce_session = sid, ce_type = JStr (ev_type ev),
     ce_payload = (if is_obj (ev_payload ev) then ev_payload ev else JObj [(u ''value'', ev_payload ev)]), ce_occurred = JStr (ev_occurred_at ev)\<rparr>)
     (filter (\<lambda>ev. ev_type ev \<noteq> u ''token.delta'') evs)"

definition turn_of :: "intent \<Rightarrow> string \<Rightarrow> pystr \<Rightarrow> json \<Rightarrow> turn" where
  "turn_of i role text latency = \<lparr>ct_session = in_session i, ct_buyer = JStr (in_buyer i), ct_role = JStr (u role), ct_content = JStr text,
     ct_model = JNull, ct_latency = latency, ct_created = JNull\<rparr>"

text \<open>One call of the store after another; the first failure ends the record, and is only logged.\<close>

fun run_calls :: "('v \<Rightarrow> unit result \<times> 'v) list \<Rightarrow> 'v \<Rightarrow> 'v" where
  "run_calls [] v = v"
| "run_calls (f # fs) v = (case f v of (Inl e, v') \<Rightarrow> v' | (Inr _, v') \<Rightarrow> run_calls fs v')"

definition checked_turn :: "'v conv_port \<Rightarrow> turn \<Rightarrow> 'v \<Rightarrow> unit result \<times> 'v" where
  "checked_turn port t v = (case mk_turn t of Inl e \<Rightarrow> (Inl e, v) | Inr t' \<Rightarrow> cv_append_turn port t' v)"

definition record_conversation :: "('c, 'v, 's) orch_env \<Rightarrow> intent \<Rightarrow> pystr \<Rightarrow> json trade_event list \<Rightarrow> 'v \<Rightarrow> 'v" where
  "record_conversation env i text evs v =
     (case oe_conv env of
        None \<Rightarrow> v
      | Some port \<Rightarrow> run_calls
          [cv_touch port (in_session i) (in_buyer i) (in_locale i) (in_currency i),
           checked_turn port (turn_of i ''buyer'' (in_query i) JNull),
           checked_turn port (turn_of i ''agent'' text (JInt (oe_latency env))),
           cv_append_events port (conv_events (in_session i) evs)] v)"

text \<open>The subscriptions of a turn: the trace for the record when there is a conversation store, and the queue for the selection.\<close>

definition open_queues :: "('c, 'v, 's) orch_env \<Rightarrow> pystr \<Rightarrow> json event_bus \<Rightarrow> nat option \<times> nat \<times> json event_bus" where
  "open_queues env sid b =
     (case oe_conv env of
        None \<Rightarrow> (let (q, b1) = subscribe sid b in (None, q, b1))
      | Some port \<Rightarrow> (let (t, b1) = subscribe sid b; (q, b2) = subscribe sid b1 in (Some t, q, b2)))"

definition close_ops :: "pystr \<Rightarrow> nat option \<Rightarrow> nat \<Rightarrow> json bus_op list" where
  "close_ops sid t q = (case t of None \<Rightarrow> [] | Some n \<Rightarrow> [Unsubscribe sid n]) @ [Unsubscribe sid q]"

text \<open>The \<open>finally\<close> clause.\<close>

definition turn_finally :: "('c, 'v, 's) orch_env \<Rightarrow> intent \<Rightarrow> nat option \<Rightarrow> nat \<Rightarrow> json event_bus \<Rightarrow> pystr \<Rightarrow> 'c body \<Rightarrow>
    ('c, 'v, 's) orch \<Rightarrow> ('c, 'v, 's) orch" where
  "turn_finally env i t q b text bd w =
     (let sid = in_session i; b1 = bus_run (bd_ops bd) b;
          evs = (case t of None \<Rightarrow> [] | Some n \<Rightarrow> get_list (queues b1) n)
      in w\<lparr>or_registry := persist (oe_registry env) sid (put_agent sid (bd_agent bd) (or_registry w)),
           or_conv := record_conversation env i text evs (or_conv w),
           or_bus := bus_run (close_ops sid t q) b1,
           or_cache := bd_cache bd,
           or_loops := map_option (loop_reset sid) (or_loops w),
           or_drift := map_option (drift_reset sid) (bd_drift bd)\<rparr>)"

definition handle_intent :: "('c, 'v, 's) orch_env \<Rightarrow> intent \<Rightarrow> ('c, 'v, 's) orch \<Rightarrow> turn_output \<times> ('c, 'v, 's) orch" where
  "handle_intent env i w =
     (let sid = in_session i;
          dd = map_option (start_turn sid (in_query i)) (or_drift w);
          (t, q, b) = open_queues env sid (or_bus w);
          (ag, rg) = get_or_create (oe_registry env) (oe_readable env) sid (or_registry w);
          (out, bd) = (case turn_try env i b q ag (or_cache w) dd of
             (Inl e, bd) \<Rightarrow> turn_except env i e bd | (Inr out, bd) \<Rightarrow> (out, bd))
      in (out, turn_finally env i t q b (out_text out) bd (w\<lparr>or_registry := rg\<rparr>)))"

section \<open>Where displayed cards come from\<close>

text \<open>A search event shows a card under a key; a display of the past did.\<close>

definition shown_by :: "json trade_event \<Rightarrow> pystr \<times> pystr \<Rightarrow> json \<Rightarrow> json \<Rightarrow> bool" where
  "shown_by ev key site crd \<longleftrightarrow> ev_type ev = u ''tool.result'' \<and> jget (ev_payload ev) ''tool'' = JStr (u ''product_search_tool'') \<and>
     \<not> Json.truthy (jget (ev_payload ev) ''error'') \<and> jget (ev_payload ev) ''platform'' = JStr (fst key) \<and>
     jget (ev_payload ev) ''site_locale'' = site \<and> crd \<in> set (list_items (jget (ev_payload ev) ''hits'')) \<and>
     jget crd ''product_id'' = JStr (snd key)"

definition shown_before :: "json \<Rightarrow> pystr \<times> pystr \<Rightarrow> json \<Rightarrow> json \<Rightarrow> bool" where
  "shown_before d key site crd \<longleftrightarrow> jget d ''card'' = crd \<and> jget d ''platform'' = JStr (fst key) \<and> jget d ''site_locale'' = site \<and>
     jget crd ''product_id'' = JStr (snd key)"

lemma prior_cards: "map_of (fold prior_card ds cs) key = Some (site, crd) \<Longrightarrow>
    map_of cs key = Some (site, crd) \<or> (\<exists>d\<in>set ds. shown_before d key site crd)"
proof (induction ds arbitrary: cs)
  case (Cons d ds)
  from Cons.IH [of "prior_card d cs"] Cons.prems have
    "map_of (prior_card d cs) key = Some (site, crd) \<or> (\<exists>d\<in>set ds. shown_before d key site crd)" by simp
  moreover have "map_of (prior_card d cs) key = Some (site, crd) \<Longrightarrow> map_of cs key = Some (site, crd) \<or> shown_before d key site crd"
    by (auto simp: prior_card_def shown_before_def Let_def map_of_update split: if_splits json.splits)
  ultimately show ?case by auto
qed simp

lemma hit_cards: "map_of (fold (hit_card p s) hs cs) key = Some (site, crd) \<Longrightarrow>
    map_of cs key = Some (site, crd) \<or> fst key = p \<and> site = s \<and> crd \<in> set hs \<and> jget crd ''product_id'' = JStr (snd key)"
proof (induction hs arbitrary: cs)
  case (Cons h hs)
  from Cons.IH [of "hit_card p s h cs"] Cons.prems have
    "map_of (hit_card p s h cs) key = Some (site, crd) \<or> fst key = p \<and> site = s \<and> crd \<in> set hs \<and> jget crd ''product_id'' = JStr (snd key)" by simp
  moreover have "map_of (hit_card p s h cs) key = Some (site, crd) \<Longrightarrow>
      map_of cs key = Some (site, crd) \<or> fst key = p \<and> site = s \<and> crd = h \<and> jget crd ''product_id'' = JStr (snd key)"
    by (auto simp: hit_card_def map_of_update split: if_splits json.splits)
  ultimately show ?case by auto
qed simp

lemma one_event_cards: "map_of (event_cards ev cs) key = Some (site, crd) \<Longrightarrow> map_of cs key = Some (site, crd) \<or> shown_by ev key site crd"
  by (auto simp: event_cards_def shown_by_def Let_def split: if_splits json.splits dest!: hit_cards)

lemma events_cards: "map_of (fold event_cards evs cs) key = Some (site, crd) \<Longrightarrow>
    map_of cs key = Some (site, crd) \<or> (\<exists>ev\<in>set evs. shown_by ev key site crd)"
proof (induction evs arbitrary: cs)
  case (Cons ev evs)
  from Cons.IH [of "event_cards ev cs"] Cons.prems have
    "map_of (event_cards ev cs) key = Some (site, crd) \<or> (\<exists>ev\<in>set evs. shown_by ev key site crd)" by simp
  with one_event_cards [of ev cs key site crd] show ?case by auto
qed simp

text \<open>The picked products: distinct keys that resolve, ranked from 1, at most five.\<close>

definition picked_ok :: "cards \<Rightarrow> (pystr \<times> pystr) list \<Rightarrow> ((pystr \<times> pystr) \<times> json) list \<Rightarrow> bool" where
  "picked_ok cs refs ps \<longleftrightarrow> length ps \<le> 5 \<and> distinct (map fst ps) \<and> set (map fst ps) \<subseteq> set refs \<and>
     (\<forall>j<length ps. \<exists>site crd. map_of cs (fst (ps ! j)) = Some (site, crd) \<and>
        snd (ps ! j) = displayed_json (j + 1) (fst (fst (ps ! j))) site crd)"

lemma pick_refs_ok: "length acc < 5 \<Longrightarrow> picked_ok cs all acc \<Longrightarrow> set refs \<subseteq> set all \<Longrightarrow> picked_ok cs all (pick_refs cs refs acc)"
proof (induction refs arbitrary: acc)
  case (Cons key refs)
  show ?case
  proof (cases "key \<in> set (map fst acc) \<or> map_of cs key = None")
    case True
    with Cons show ?thesis by auto
  next
    case False
    then obtain site crd where c: "map_of cs key = Some (site, crd)" by auto
    let ?acc = "acc @ [(key, displayed_json (length acc + 1) (fst key) site crd)]"
    have ok: "picked_ok cs all ?acc" using Cons.prems False c
      by (auto simp: picked_ok_def nth_append less_Suc_eq)
    with Cons.IH [of ?acc] Cons.prems False c show ?thesis by (auto simp: Let_def)
  qed
qed simp

lemma picked: "picked_ok cs refs (pick_refs cs refs [])"
  by (rule pick_refs_ok) (simp_all add: picked_ok_def)

lemma resolve_displayed_ok:
  assumes "d \<in> set (resolve_displayed refs evs prior)"
  shows "\<exists>rank key site crd. key \<in> set refs \<and> d = displayed_json rank (fst key) site crd \<and>
    ((\<exists>ev\<in>set evs. shown_by ev key site crd) \<or> (\<exists>p\<in>set prior. shown_before p key site crd))"
proof -
  define cs where "cs = fold event_cards evs (fold prior_card prior [])"
  define ps where "ps = pick_refs cs refs []"
  have ok: "picked_ok cs refs ps" unfolding ps_def by (rule picked)
  obtain j where j: "j < length ps" "d = snd (ps ! j)"
    using assms by (auto simp: resolve_displayed_def in_set_conv_nth cs_def ps_def)
  then have refs: "fst (ps ! j) \<in> set refs" using ok nth_mem [of j ps] by (auto simp: picked_ok_def)
  from ok j obtain site crd where r: "map_of cs (fst (ps ! j)) = Some (site, crd)"
    "d = displayed_json (j + 1) (fst (fst (ps ! j))) site crd" by (auto simp: picked_ok_def)
  from events_cards [OF r(1) [unfolded cs_def]] have
    "(\<exists>ev\<in>set evs. shown_by ev (fst (ps ! j)) site crd) \<or> (\<exists>p\<in>set prior. shown_before p (fst (ps ! j)) site crd)"
    using prior_cards [of prior "[]" "fst (ps ! j)" site crd] by auto
  with refs r(2) show ?thesis by blast
qed

lemma rank_of_displayed: "jget (displayed_json n p s c) ''rank'' = JInt (int n)"
  by (simp add: displayed_json_def jget_def)

lemma resolve_displayed_ranked:
  "length (resolve_displayed refs evs prior) \<le> 5 \<and>
   (\<forall>j<length (resolve_displayed refs evs prior). jget (resolve_displayed refs evs prior ! j) ''rank'' = JInt (int (j + 1)))"
proof -
  define ps where "ps = pick_refs (fold event_cards evs (fold prior_card prior [])) refs []"
  have ok: "picked_ok (fold event_cards evs (fold prior_card prior [])) refs ps" unfolding ps_def by (rule picked)
  have "jget (snd (ps ! j)) ''rank'' = JInt (int (j + 1))" if j: "j < length ps" for j
  proof -
    from ok j obtain site crd where "snd (ps ! j) = displayed_json (j + 1) (fst (fst (ps ! j))) site crd" by (auto simp: picked_ok_def)
    then show ?thesis by (simp only: rank_of_displayed)
  qed
  moreover have "length ps \<le> 5" using ok by (simp add: picked_ok_def)
  ultimately show ?thesis by (simp add: resolve_displayed_def ps_def [symmetric])
qed

section \<open>What a turn does on the bus\<close>

text \<open>An operation of a turn: an event it publishes itself, never a tool's result, or one of its stream.\<close>

definition turn_op :: "('c, 'v, 's) orch_env \<Rightarrow> pystr \<Rightarrow> json bus_op \<Rightarrow> bool" where
  "turn_op env sid op \<longleftrightarrow> (\<exists>t kvs. op = pub env sid t kvs \<and> t \<noteq> ''tool.result'') \<or>
     (\<exists>attempt inputs ag. Meanwhile op \<in> set (st_items (oe_stream env attempt inputs ag)))"

lemma pub_turn_op: "t \<noteq> ''tool.result'' \<Longrightarrow> turn_op env sid (pub env sid t kvs)"
  unfolding turn_op_def by blast

lemma consume_ops:
  assumes "consume env sid ag its acc = (e, acc')" "list_all (turn_op env sid) (ta_ops acc)"
    "\<And>op. Meanwhile op \<in> set its \<Longrightarrow> turn_op env sid op"
  shows "list_all (turn_op env sid) (ta_ops acc')"
  using assms
proof (induction its arbitrary: acc)
  case (Cons x xs)
  obtain e1 acc1 where x: "consume_item env sid ag x acc = (e1, acc1)" by fastforce
  have "list_all (turn_op env sid) (ta_ops acc1)"
  proof (cases x)
    case (Final m)
    with x Cons.prems(2) show ?thesis by (auto simp: consume_final_def Let_def split: option.splits sum.splits if_splits)
  next
    case (Meanwhile op)
    with x Cons.prems(2,3) show ?thesis by auto
  qed (use x Cons.prems(2) in \<open>auto simp: Let_def pub_turn_op split: if_splits\<close>)
  with Cons x show ?case by (auto split: option.splits)
qed simp

lemma consume_reply_ops:
  assumes "consume_reply env sid attempt inputs ag ops dd = (e, acc, ag')" "list_all (turn_op env sid) ops"
  shows "list_all (turn_op env sid) (ta_ops acc)"
proof -
  let ?st = "oe_stream env attempt inputs ag"
  obtain e1 where "consume env sid ag (st_items ?st) (fresh_acc ops dd) = (e1, acc)"
    using assms(1) by (auto simp: consume_reply_def Let_def split: prod.splits)
  moreover have "Meanwhile op \<in> set (st_items ?st) \<Longrightarrow> turn_op env sid op" for op unfolding turn_op_def by blast
  ultimately show ?thesis using consume_ops assms(2) by (fastforce simp: fresh_acc_def)
qed

lemma retry_ops:
  "reply_with_retry env sid attempt n inputs ag ops dd = ((e, acc, ag'), delays) \<Longrightarrow> list_all (turn_op env sid) ops \<Longrightarrow>
   list_all (turn_op env sid) (ta_ops acc)"
proof (induction n arbitrary: attempt inputs ag ops dd delays)
  case 0
  then show ?case by (auto dest: consume_reply_ops)
next
  case (Suc n)
  obtain e1 acc1 ag1 where c: "consume_reply env sid attempt inputs ag ops dd = (e1, acc1, ag1)" using prod_cases3 by blast
  have ops1: "list_all (turn_op env sid) (ta_ops acc1 @ [retry_event env sid])"
    using consume_reply_ops [OF c Suc.prems(2)] by (simp add: retry_event_def pub_turn_op)
  show ?case
  proof (cases "\<exists>err. e1 = Some err \<and> is_transient env err")
    case True
    with Suc.prems(1) c obtain ds where
      "reply_with_retry env sid (attempt + 1) n [] ag1 (ta_ops acc1 @ [retry_event env sid]) (ta_drift acc1) = ((e, acc, ag'), ds)"
      by (auto simp: Let_def split: prod.splits)
    from Suc.IH [OF this ops1] show ?thesis .
  next
    case False
    with Suc.prems c consume_reply_ops [OF c] show ?thesis by (auto split: option.splits)
  qed
qed

lemma guard_ops: "guard_final_text env sid t = (t', ops) \<Longrightarrow> list_all (turn_op env sid) ops"
  by (auto simp: guard_final_text_def pub_turn_op split: if_splits prod.splits)

lemma drift_ops: "check_drift env sid dd = (ops, dd') \<Longrightarrow> list_all (turn_op env sid) ops"
  by (auto simp: check_drift_def pub_turn_op split: option.splits sum.splits prod.splits if_splits)

lemma compression_ops: "list_all (turn_op env sid) (publish_compression env sid ag s l)"
  by (auto simp: publish_compression_def Let_def pub_turn_op)

lemma final_op: "turn_op env sid (final_event env sid t ds x)"
  by (simp add: final_event_def pub_turn_op)

lemma finish_turn_spec:
  assumes "finish_turn env i b q before acc ag c = (out, bd)" "list_all (turn_op env (in_session i)) (ta_ops acc)"
  shows "list_all (turn_op env (in_session i)) (bd_ops bd) \<and> bd_ops bd \<noteq> [] \<and> out_session out = in_session i \<and>
    last (bd_ops bd) = final_event env (in_session i) (out_text out) (out_displayed out) (out_interrupted out) \<and>
    (out_displayed out = [] \<or> (\<exists>ops refs. list_all (turn_op env (in_session i)) ops \<and>
       out_displayed out = resolve_displayed refs (get_list (queues (bus_run ops b)) q) (prior_displayed before)))"
proof -
  obtain t g where g: "guard_final_text env (in_session i) (ta_text acc) = (t, g)" by fastforce
  obtain d dd where d: "check_drift env (in_session i) (ta_drift acc) = (d, dd)" by fastforce
  note all = assms(2) guard_ops [OF g] drift_ops [OF d]
  show ?thesis
  proof (cases "ta_interrupted acc")
    case True
    with assms(1) g all show ?thesis by (auto simp: finish_turn_def Let_def answer_of_def pub_turn_op final_op)
  next
    case False
    let ?shown = "resolve_displayed (ta_selected acc) (get_list (queues (bus_run (ta_ops acc @ g) b)) q) (prior_displayed before)"
    have outs: "out = answer_of i t ?shown False" and bops: "bd_ops bd = (ta_ops acc @ g) @ d @
        publish_compression env (in_session i) ag (ag_summary before) (l3_summary_hash before) @ [final_event env (in_session i) t ?shown False]"
      using assms(1) g d False by (auto simp: finish_turn_def Let_def)
    have "list_all (turn_op env (in_session i)) (ta_ops acc @ g)" using all by simp
    then have ex: "\<exists>ops refs. list_all (turn_op env (in_session i)) ops \<and>
       ?shown = resolve_displayed refs (get_list (queues (bus_run ops b)) q) (prior_displayed before)" by blast
    have "list_all (turn_op env (in_session i)) (bd_ops bd)" using all by (simp add: bops compression_ops final_op)
    moreover have "bd_ops bd \<noteq> [] \<and> last (bd_ops bd) = final_event env (in_session i) t ?shown False" by (simp add: bops)
    moreover have "out_session out = in_session i" "out_text out = t" "out_displayed out = ?shown" "out_interrupted out = False"
      by (simp_all add: outs answer_of_def)
    ultimately show ?thesis using ex by metis
  qed
qed

text \<open>How the body ends: with the event of the answer it returns, or with an exception.\<close>

lemma turn_try_spec:
  assumes "turn_try env i b q ag c dd = (r, bd)"
  shows "list_all (turn_op env (in_session i)) (bd_ops bd) \<and>
    (\<forall>out. r = Inr out \<longrightarrow> bd_ops bd \<noteq> [] \<and> out_session out = in_session i \<and>
       last (bd_ops bd) = final_event env (in_session i) (out_text out) (out_displayed out) (out_interrupted out) \<and>
       (out_displayed out = [] \<or> (\<exists>ops refs. list_all (turn_op env (in_session i)) ops \<and>
          out_displayed out = resolve_displayed refs (get_list (queues (bus_run ops b)) q) (prior_displayed ag))))"
proof -
  obtain l ops c' where l: "lookup_cache env i (ag_context ag \<noteq> []) c = (l, ops, c')" using prod_cases3 by blast
  have ops: "list_all (turn_op env (in_session i)) ops" and shown: "\<And>h. l = Inr (Some h) \<Longrightarrow> sh_displayed h = []"
    using l by (auto simp: lookup_cache_def pub_turn_op split: option.splits sum.splits prod.splits if_splits)
  consider (raised) e where "l = Inl e" | (hit) h where "l = Inr (Some h)" | (miss) "l = Inr None"
    by (cases l) (auto intro: option.exhaust)
  then show ?thesis
  proof cases
    case raised
    with assms l ops show ?thesis by (auto simp: turn_try_def Let_def)
  next
    case hit
    obtain t g where g: "guard_final_text env (in_session i) (sh_reply h) = (t, g)" by fastforce
    with assms l hit ops shown [OF hit] guard_ops [OF g] show ?thesis by (auto simp: turn_try_def Let_def answer_of_def final_op)
  next
    case miss
    obtain e acc ag' ds where rr: "reply_with_retry env (in_session i) 0 MAX_TURN_RETRIES (build_inputs env i) ag ops dd = ((e, acc, ag'), ds)"
      by (metis prod.exhaust)
    have acc: "list_all (turn_op env (in_session i)) (ta_ops acc)" by (rule retry_ops [OF rr ops])
    show ?thesis
    proof (cases e)
      case None
      obtain out bd' where f: "finish_turn env i b q ag acc ag' c' = (out, bd')" by fastforce
      with assms l miss rr None have "r = Inr out" "bd = bd'" by (auto simp: turn_try_def)
      with finish_turn_spec [OF f acc] show ?thesis by auto
    next
      case (Some err)
      with assms l miss rr acc show ?thesis by (auto simp: turn_try_def)
    qed
  qed
qed

text \<open>The queues of a turn: new, subscribed to its session and empty.\<close>

definition own_queues :: "('c, 'v, 's) orch_env \<Rightarrow> pystr \<Rightarrow> json event_bus \<Rightarrow> bool" where
  "own_queues env sid b \<longleftrightarrow> (\<forall>attempt inputs ag s q. Meanwhile (Unsubscribe s q) \<in> set (st_items (oe_stream env attempt inputs ag)) \<longrightarrow> q < next_queue b)"

lemma open_queue_new:
  assumes "bus_ok b" "subscribe sid b = (q, b1)"
  shows "bus_ok b1 \<and> q = next_queue b \<and> next_queue b1 = next_queue b + 1 \<and> q \<in> set (get_list (subscribers b1) sid) \<and> get_list (queues b1) q = []"
  using assms bus_ok_step [OF assms(1), of "Subscribe sid"] by (auto simp: subscribe_def Let_def)

lemma open_queues_spec:
  assumes "bus_ok b0" "open_queues env sid b0 = (t, q, b)"
  shows "bus_ok b \<and> q \<in> set (get_list (subscribers b) sid) \<and> get_list (queues b) q = [] \<and> next_queue b0 \<le> q \<and>
    (case t of None \<Rightarrow> oe_conv env = None \<and> q = next_queue b0
     | Some n \<Rightarrow> oe_conv env \<noteq> None \<and> n = next_queue b0 \<and> q = n + 1 \<and> n \<in> set (get_list (subscribers b) sid))"
proof -
  obtain q1 b1 where s1: "subscribe sid b0 = (q1, b1)" by fastforce
  note f1 = open_queue_new [OF assms(1) s1]
  obtain q2 b2 where s2: "subscribe sid b1 = (q2, b2)" by fastforce
  note f2 = open_queue_new [OF conjunct1 [OF f1] s2]
  have "q1 \<in> set (get_list (subscribers b2) sid)" using f1 s2 by (auto simp: subscribe_def Let_def)
  with f1 f2 assms(2) s1 s2 show ?thesis by (auto simp: open_queues_def Let_def split: option.splits)
qed

lemma turn_op_kept:
  assumes "own_queues env sid b0" "list_all (turn_op env sid) ops" "next_queue b0 \<le> q" shows "Unsubscribe s q \<notin> set ops"
proof
  assume "Unsubscribe s q \<in> set ops"
  with assms(2) have "turn_op env sid (Unsubscribe s q)" by (auto simp: list_all_iff)
  with assms(1,3) show False by (force simp: turn_op_def pub_def own_queues_def)
qed

text \<open>Only the stream brings results of tools.\<close>

lemma turn_events:
  assumes "list_all (turn_op env sid) ops" "ev \<in> set (concat (map (events_of sid) ops))" "shown_by ev key site crd"
  shows "\<exists>attempt inputs ag op. Meanwhile op \<in> set (st_items (oe_stream env attempt inputs ag)) \<and>
    (\<exists>ev\<in>set (events_of sid op). shown_by ev key site crd)"
proof -
  obtain op where op: "op \<in> set ops" "ev \<in> set (events_of sid op)" using assms(2) by auto
  with assms(1) have "turn_op env sid op" by (auto simp: list_all_iff)
  moreover have "\<not> (\<exists>t kvs. op = pub env sid t kvs \<and> t \<noteq> ''tool.result'')"
    using op(2) assms(3) by (auto simp: pub_def shown_by_def split: if_splits)
  ultimately show ?thesis using op(2) assms(3) unfolding turn_op_def by blast
qed

text \<open>C22: a turn displays only products it can prove: at most five, ranked from 1, each one exactly the card of a hit that a
  successful search of this session published on the bus during the turn under that platform and product
  number, or a card the context says was displayed before; a cached answer displays none.\<close>

theorem displayed_products_verified:
  assumes "bus_ok (or_bus w)" "own_queues env (in_session i) (or_bus w)" "handle_intent env i w = (out, w')"
  shows "length (out_displayed out) \<le> 5 \<and>
    (\<forall>j<length (out_displayed out). jget (out_displayed out ! j) ''rank'' = JInt (int (j + 1))) \<and>
    (\<forall>d\<in>set (out_displayed out). \<exists>rank key site crd. d = displayed_json rank (fst key) site crd \<and>
       ((\<exists>attempt inputs ag op. Meanwhile op \<in> set (st_items (oe_stream env attempt inputs ag)) \<and>
           (\<exists>ev\<in>set (events_of (in_session i) op). shown_by ev key site crd)) \<or>
        (\<exists>p\<in>set (prior_displayed (fst (get_or_create (oe_registry env) (oe_readable env) (in_session i) (or_registry w)))).
           shown_before p key site crd)))"
proof -
  let ?sid = "in_session i"
  obtain t q b where o: "open_queues env ?sid (or_bus w) = (t, q, b)" using prod_cases3 by blast
  note oq = open_queues_spec [OF assms(1) o]
  obtain ag rg where g: "get_or_create (oe_registry env) (oe_readable env) ?sid (or_registry w) = (ag, rg)" by fastforce
  obtain r bd where body: "turn_try env i b q ag (or_cache w) (map_option (start_turn ?sid (in_query i)) (or_drift w)) = (r, bd)" by fastforce
  show ?thesis
  proof (cases "\<exists>o'. r = Inr o' \<and> out = o' \<and> out_displayed o' \<noteq> []")
    case True
    with turn_try_spec [OF body] obtain ops refs where ops: "list_all (turn_op env ?sid) ops"
      "out_displayed out = resolve_displayed refs (get_list (queues (bus_run ops b)) q) (prior_displayed ag)" by auto
    have "get_list (queues (bus_run ops b)) q = concat (map (events_of ?sid) ops)"
      using bus_run_queue [of b q ?sid ops] oq turn_op_kept [OF assms(2) ops(1)] by simp
    with ops(2) have d: "out_displayed out = resolve_displayed refs (concat (map (events_of ?sid) ops)) (prior_displayed ag)" by simp
    have "\<exists>rank key site crd. x = displayed_json rank (fst key) site crd \<and>
        ((\<exists>attempt inputs ag op. Meanwhile op \<in> set (st_items (oe_stream env attempt inputs ag)) \<and>
            (\<exists>ev\<in>set (events_of ?sid op). shown_by ev key site crd)) \<or> (\<exists>p\<in>set (prior_displayed ag). shown_before p key site crd))"
      if "x \<in> set (out_displayed out)" for x
    proof -
      from resolve_displayed_ok [OF that [unfolded d]] obtain rank key site crd where x: "x = displayed_json rank (fst key) site crd"
        and src: "(\<exists>ev\<in>set (concat (map (events_of ?sid) ops)). shown_by ev key site crd) \<or> (\<exists>p\<in>set (prior_displayed ag). shown_before p key site crd)"
        by blast
      from src have "(\<exists>attempt inputs ag op. Meanwhile op \<in> set (st_items (oe_stream env attempt inputs ag)) \<and>
            (\<exists>ev\<in>set (events_of ?sid op). shown_by ev key site crd)) \<or> (\<exists>p\<in>set (prior_displayed ag). shown_before p key site crd)"
      proof
        assume "\<exists>ev\<in>set (concat (map (events_of ?sid) ops)). shown_by ev key site crd"
        then obtain ev where "ev \<in> set (concat (map (events_of ?sid) ops))" "shown_by ev key site crd" by (elim bexE)
        from turn_events [OF ops(1) this] show ?thesis by (rule disjI1)
      qed (rule disjI2)
      with x show ?thesis by (intro exI conjI)
    qed
    with resolve_displayed_ranked d g show ?thesis by simp
  next
    case False
    then have "out_displayed out = []" using assms(3) o g body
      by (auto simp: handle_intent_def Let_def turn_except_def answer_of_def split: sum.splits)
    then show ?thesis by simp
  qed
qed

section \<open>How a turn ends\<close>


text \<open>C25: a turn leaves nothing behind but its answer: whatever happened in it, the queues it opened are subscribed to no
  session, its loop and drift traces are gone, and the bus is well formed.\<close>

theorem turn_cleans_up:
  assumes "bus_ok (or_bus w)" "own_queues env (in_session i) (or_bus w)" "handle_intent env i w = (out, w')"
  shows "bus_ok (or_bus w') \<and>
    (\<forall>s n. next_queue (or_bus w) \<le> n \<and> n < next_queue (or_bus w) + (if oe_conv env = None then 1 else 2) \<longrightarrow>
       n \<notin> set (get_list (subscribers (or_bus w')) s)) \<and>
    (\<forall>d. or_drift w' = Some d \<longrightarrow> trace_at d (in_session i) = new_trace) \<and>
    (\<forall>l. or_loops w' = Some l \<longrightarrow> recent l (in_session i) = [])"
proof -
  let ?sid = "in_session i"
  obtain t q b where o: "open_queues env ?sid (or_bus w) = (t, q, b)" using prod_cases3 by blast
  note oq = open_queues_spec [OF assms(1) o]
  obtain ag rg where g: "get_or_create (oe_registry env) (oe_readable env) ?sid (or_registry w) = (ag, rg)" by fastforce
  obtain r bd where body: "turn_try env i b q ag (or_cache w) (map_option (start_turn ?sid (in_query i)) (or_drift w)) = (r, bd)" by fastforce
  define res where "res = (case r of Inl e \<Rightarrow> turn_except env i e bd | Inr out \<Rightarrow> (out, bd))"
  obtain o2 bd2 where res: "res = (o2, bd2)" by fastforce
  have w': "w' = turn_finally env i t q b (out_text o2) bd2 (w\<lparr>or_registry := rg\<rparr>)"
    using assms(3) o g body res by (auto simp: handle_intent_def Let_def res_def)
  have ops: "list_all (turn_op env ?sid) (bd_ops bd2)"
    using turn_try_spec [OF body] res by (auto simp: res_def turn_except_def Let_def pub_turn_op split: sum.splits)
  let ?b1 = "bus_run (bd_ops bd2) b"
  have b1: "bus_ok ?b1" using oq by (simp add: bus_run_ok)
  have still: "n \<in> set (get_list (subscribers ?b1) ?sid)" if "n \<in> set (get_list (subscribers b) ?sid)" "next_queue (or_bus w) \<le> n" for n
    using bus_run_subscribed [OF that(1) turn_op_kept [OF assms(2) ops that(2)]] .
  have bus: "or_bus w' = bus_run (close_ops ?sid t q) ?b1" by (simp add: w' turn_finally_def Let_def)
  have gone: "n \<notin> set (get_list (subscribers (or_bus w')) s)"
    if n: "next_queue (or_bus w) \<le> n" "n < next_queue (or_bus w) + (if oe_conv env = None then 1 else 2)" for n s
  proof (cases t)
    case None
    then have "n = q" "or_bus w' = unsubscribe ?sid q ?b1" using oq n by (auto simp: bus bus_run_def [of "[_]"] close_ops_def)
    with unsubscribe_members [OF b1 still [of q]] oq show ?thesis by simp
  next
    case (Some m)
    let ?b2 = "unsubscribe ?sid m ?b1"
    have m: "m \<in> set (get_list (subscribers ?b1) ?sid)" "q \<in> set (get_list (subscribers ?b1) ?sid)" "q = m + 1"
      using oq still [of m] still [of q] Some by auto
    have "bus_ok ?b2" using bus_ok_step [OF b1, of "Unsubscribe ?sid m"] by simp
    moreover have "q \<in> set (get_list (subscribers ?b2) ?sid)" using unsubscribe_members [OF b1 m(1)] m(2,3) by simp
    moreover have "n = m \<or> n = q" using oq n Some by (auto split: if_splits)
    moreover have "or_bus w' = unsubscribe ?sid q ?b2" by (simp add: bus bus_run_def [of "[_, _]"] close_ops_def Some)
    ultimately show ?thesis using unsubscribe_members [OF b1 m(1)] unsubscribe_members [of ?b2 q ?sid] by auto
  qed
  moreover have "bus_ok (or_bus w')" by (simp add: bus bus_run_ok b1)
  moreover have "or_drift w' = map_option (drift_reset ?sid) (bd_drift bd2)" "or_loops w' = map_option (loop_reset ?sid) (or_loops w)"
    by (simp_all add: w' turn_finally_def Let_def)
  ultimately show ?thesis
    by (auto simp: recent_def bucket_def loop_reset_def map_of_delete deque_of_def Let_def)
qed

section \<open>Retries\<close>

lemma reply_with_retry_spec:
  "reply_with_retry env sid attempt n inputs ag ops dd = ((e, acc, ag'), delays) \<Longrightarrow>
   length delays \<le> n \<and> delays = map (\<lambda>k. RETRY_BASE_SECONDS * 3 ^ k) [attempt..<attempt + length delays] \<and>
   (\<exists>ag0 ops0 dd0. consume_reply env sid (attempt + length delays) (if delays = [] then inputs else []) ag0 ops0 dd0 = (e, acc, ag')) \<and>
   (\<forall>err. e = Some err \<longrightarrow> \<not> is_transient env err \<or> length delays = n)"
proof (induction n arbitrary: attempt inputs ag ops dd delays)
  case 0
  then show ?case by auto
next
  case (Suc n)
  obtain e1 acc1 ag1 where c: "consume_reply env sid attempt inputs ag ops dd = (e1, acc1, ag1)" using prod_cases3 by blast
  show ?case
  proof (cases "\<exists>err. e1 = Some err \<and> is_transient env err")
    case True
    with Suc.prems c obtain ds where r: "delays = RETRY_BASE_SECONDS * 3 ^ attempt # ds"
      "reply_with_retry env sid (attempt + 1) n [] ag1 (ta_ops acc1 @ [retry_event env sid]) (ta_drift acc1) = ((e, acc, ag'), ds)"
      by (auto simp: Let_def split: prod.splits)
    have "[attempt..<attempt + length delays] = attempt # [attempt + 1..<attempt + 1 + length ds]"
      using r(1) by (simp add: upt_conv_Cons del: upt_Suc)
    with Suc.IH [OF r(2)] r(1) show ?thesis by auto
  next
    case False
    with Suc.prems c have "delays = []" "(e, acc, ag') = (e1, acc1, ag1)" by (auto split: option.splits if_splits)
    with c False show ?thesis by auto
  qed
qed

text \<open>Also: an upstream failure is retried at most twice, after 6 and 18 seconds, the buyer's message is given to the agent
  in the first attempt only, and the turn fails only with the exception of its last attempt, which is one that
  is not transient or comes from the third.\<close>

theorem retries_bounded:
  assumes "reply_with_retry env sid 0 MAX_TURN_RETRIES inputs ag ops dd = ((e, acc, ag'), delays)"
  shows "delays \<in> {[], [6], [6, 18]} \<and>
    (\<exists>ag0 ops0 dd0. consume_reply env sid (length delays) (if delays = [] then inputs else []) ag0 ops0 dd0 = (e, acc, ag')) \<and>
    (\<forall>err. e = Some err \<longrightarrow> \<not> is_transient env err \<or> length delays = 2)"
proof -
  note spec = reply_with_retry_spec [OF assms]
  then have "length delays \<le> 2" by (simp add: MAX_TURN_RETRIES_def)
  then have "length delays = 0 \<or> length delays = 1 \<or> length delays = 2" by linarith
  moreover have "delays = map (\<lambda>k. RETRY_BASE_SECONDS * 3 ^ k) [0..<length delays]" using spec by simp
  ultimately have "delays \<in> {[], [6], [6, 18]}" by (auto simp: RETRY_BASE_SECONDS_def numeral_2_eq_2)
  with spec show ?thesis unfolding MAX_TURN_RETRIES_def by simp
qed

section \<open>Concrete instances\<close>

definition ex_agent :: agent_state where
  "ex_agent = \<lparr>ag_name = u ''Main'', ag_context = [], ag_summary = [], ag_middle = JObj []\<rparr>"

definition ex_hit :: json where
  "ex_hit = JObj [(u ''product_id'', JStr (u ''P1'')), (u ''title'', JStr (u ''lamp''))]"

definition ex_search_event :: "json bus_op" where
  "ex_search_event = Publish True (u ''t1'') (u ''s1'') (u ''tool.result'') (JObj [(u ''tool'', JStr (u ''product_search_tool'')),
     (u ''platform'', JStr (u ''amazon'')), (u ''site_locale'', JNull), (u ''hits'', JList [ex_hit])])"

definition ex_ref :: "string \<Rightarrow> json" where
  "ex_ref i = JObj [(u ''platform'', JStr (u ''amazon'')), (u ''product_id'', JStr (u i))]"

text \<open>The first attempt times out after a search; the second selects the product found and one never seen.\<close>

definition ex_stream :: "nat \<Rightarrow> (pystr \<times> pystr) list \<Rightarrow> agent_state \<Rightarrow> stream" where
  "ex_stream attempt inputs ag =
     (if attempt = 0
      then \<lparr>st_items = [Meanwhile ex_search_event], st_end = Some (OtherError ''timeout''), st_agent = ag\<rparr>
      else \<lparr>st_items = [Delta (u ''Here''), Final \<lparr>fm_interrupted = False, fm_structured = Some (JObj [(u ''final_text'', JStr (u ''Here'')),
              (u ''selected_products'', JList [ex_ref ''P1'', ex_ref ''P2''])]), fm_text = None\<rparr>], st_end = None, st_agent = ag\<rparr>)"

definition ex_conv :: "turn list conv_port" where
  "ex_conv = \<lparr>cv_touch = (\<lambda>s b l c v. (Inr (), v)), cv_append_turn = (\<lambda>t v. (Inr (), v @ [t])), cv_append_events = (\<lambda>es v. (Inr (), v))\<rparr>"

definition ex_oenv :: "(json redis, turn list, session_rows) orch_env" where
  "ex_oenv = \<lparr>oe_now = u ''now'', oe_lower = (\<lambda>t. t), oe_text = (\<lambda>e. case e of OtherError m \<Rightarrow> u m | _ \<Rightarrow> []), oe_guard_enabled = False,
     oe_audit = (\<lambda>t. (True, t)), oe_semcache = None, oe_prefs = (\<lambda>b. Inr []),
     oe_selector = \<lparr>sel_embedder = None, sel_relevance = False, sel_sqrt = (\<lambda>x. x)\<rparr>, oe_top_k = 5, oe_fingerprint = (\<lambda>t. t),
     oe_conv = Some ex_conv,
     oe_registry = \<lparr>re_port = sqlsession_port, re_build = (\<lambda>st. case st of None \<Rightarrow> ex_agent | Some a \<Rightarrow> a), re_dump = (\<lambda>a. u ''saved''),
       re_validate = (\<lambda>t. None)\<rparr>,
     oe_readable = True, oe_stream = ex_stream, oe_latency = 7\<rparr>"

definition ex_orch :: "(json redis, turn list, session_rows) orch" where
  "ex_orch = \<lparr>or_bus = empty_bus, or_registry = \<lparr>rg_agents = [], rg_store = (\<lambda>s. None)\<rparr>, or_cache = ex_server, or_conv = [],
     or_loops = None, or_drift = Some ex_detector\<rparr>"

definition ex_intent :: intent where
  "ex_intent = \<lparr>in_session = u ''s1'', in_buyer = u ''ann'', in_locale = u ''zh-CN'', in_currency = u ''CNY'', in_query = u ''lamp''\<rparr>"

definition ex_turn_out :: turn_output where
  "ex_turn_out = fst (handle_intent ex_oenv ex_intent ex_orch)"

definition ex_turn_end :: "(json redis, turn list, session_rows) orch" where
  "ex_turn_end = snd (handle_intent ex_oenv ex_intent ex_orch)"

lemma ex_turn: "handle_intent ex_oenv ex_intent ex_orch = (ex_turn_out, ex_turn_end)"
  by (simp add: ex_turn_out_def ex_turn_end_def)

lemma ex_own_queues: "own_queues ex_oenv s (or_bus ex_orch)"
  by (auto simp: own_queues_def ex_oenv_def ex_stream_def ex_search_event_def split: if_splits)

lemma ex_orch_bus: "bus_ok (or_bus ex_orch)"
  by (simp add: ex_orch_def bus_ok_empty)

lemma handle_intent_out:
  "open_queues env (in_session i) (or_bus w) = (t, q, b) \<Longrightarrow>
   fst (get_or_create (oe_registry env) (oe_readable env) (in_session i) (or_registry w)) = ag \<Longrightarrow>
   fst (turn_try env i b q ag (or_cache w) (map_option (start_turn (in_session i) (in_query i)) (or_drift w))) = Inr out \<Longrightarrow>
   fst (handle_intent env i w) = out"
  by (auto simp: handle_intent_def Let_def split: prod.splits)

definition ex_bus :: "json event_bus" where
  "ex_bus = snd (snd (open_queues ex_oenv (u ''s1'') empty_bus))"

lemma ex_try: "case fst (turn_try ex_oenv ex_intent ex_bus 1 ex_agent ex_server (Some (start_turn (u ''s1'') (u ''lamp'') ex_detector))) of
    Inl e \<Rightarrow> False | Inr out \<Rightarrow> out_displayed out = [displayed_json 1 (u ''amazon'') JNull ex_hit] \<and> out_text out = u ''Here''"
  by code_simp

lemma ex_queues: "fst (snd (open_queues ex_oenv (u ''s1'') empty_bus)) = 1"
  by code_simp

lemma ex_turn_shows: "out_displayed ex_turn_out = [displayed_json 1 (u ''amazon'') JNull ex_hit] \<and> out_text ex_turn_out = u ''Here''"
proof -
  obtain out where out: "fst (turn_try ex_oenv ex_intent ex_bus 1 ex_agent ex_server (Some (start_turn (u ''s1'') (u ''lamp'') ex_detector))) = Inr out"
    "out_displayed out = [displayed_json 1 (u ''amazon'') JNull ex_hit] \<and> out_text out = u ''Here''"
    using ex_try by (auto split: sum.splits)
  have q: "open_queues ex_oenv (in_session ex_intent) (or_bus ex_orch) =
      (fst (open_queues ex_oenv (u ''s1'') empty_bus), 1, ex_bus)"
    using ex_queues by (simp add: ex_intent_def ex_orch_def ex_bus_def) (metis prod.collapse)
  have ag: "fst (get_or_create (oe_registry ex_oenv) (oe_readable ex_oenv) (in_session ex_intent) (or_registry ex_orch)) = ex_agent"
    by (simp add: get_or_create_def ex_oenv_def ex_orch_def try_restore_def sqlsession_port_def sqlsession_load_def Let_def)
  have "ex_turn_out = out" unfolding ex_turn_out_def
    by (rule handle_intent_out [OF q ag]) (use out(1) in \<open>simp add: ex_orch_def ex_intent_def\<close>)
  with out(2) show ?thesis by simp
qed

lemma ex_no_history: "prior_displayed (fst (get_or_create (oe_registry ex_oenv) (oe_readable ex_oenv) (in_session ex_intent) (or_registry ex_orch))) = []"
  by code_simp

theorem displayed_products_verified_witness:
  "out_displayed ex_turn_out = [displayed_json 1 (u ''amazon'') JNull ex_hit] \<and>
   (\<exists>rank key site crd. displayed_json 1 (u ''amazon'') JNull ex_hit = displayed_json rank (fst key) site crd \<and>
     (\<exists>attempt inputs ag op. Meanwhile op \<in> set (st_items (ex_stream attempt inputs ag)) \<and> (\<exists>ev\<in>set (events_of (u ''s1'') op). shown_by ev key site crd)))"
proof -
  have "oe_stream ex_oenv = ex_stream" "in_session ex_intent = u ''s1''" by (simp_all add: ex_oenv_def ex_intent_def)
  with displayed_products_verified [OF ex_orch_bus ex_own_queues ex_turn] ex_turn_shows show ?thesis unfolding ex_no_history by simp
qed


theorem turn_cleans_up_witness:
  "0 \<notin> set (get_list (subscribers (or_bus ex_turn_end)) (u ''s1'')) \<and> 1 \<notin> set (get_list (subscribers (or_bus ex_turn_end)) (u ''s1''))"
proof -
  have "next_queue (or_bus ex_orch) = 0" "oe_conv ex_oenv = Some ex_conv" by (simp_all add: ex_orch_def empty_bus_def ex_oenv_def)
  with turn_cleans_up [OF ex_orch_bus ex_own_queues ex_turn] show ?thesis by simp
qed

theorem retries_bounded_witness:
  "snd (reply_with_retry ex_oenv (u ''s1'') 0 MAX_TURN_RETRIES [(u ''ann'', u ''lamp'')] ex_agent [] None) = [6]"
proof -
  let ?r = "reply_with_retry ex_oenv (u ''s1'') 0 MAX_TURN_RETRIES [(u ''ann'', u ''lamp'')] ex_agent [] None"
  obtain e acc ag' delays where r: "?r = ((e, acc, ag'), delays)" by (metis prod.exhaust)
  have "length (snd ?r) = 1" by code_simp
  with retries_bounded [OF r] r show ?thesis by auto
qed

end
