(* ===== verification/Middleware.thy ===== *)
theory Middleware
  imports Assembler Tool_Output
begin

text \<open>
  \<open>app/infrastructure/context_middleware.py\<close>: the bridge between an agent and its stored context. Around a
  reply it checks who owns the session and reduces the events of the turn into the session context; around a tool
  call it records the call, its exact output as an artifact and gives the model a bounded text; before a
  model call it advances the stored context and checks the size of what is sent. The state is the
  dictionary \<open>AgentState.middle_context\<close> with the artifact store; the clock is an argument.
\<close>

section \<open>The namespace\<close>

definition NS :: string where "NS = ''crossshop_context_v1''"
definition MAX_ARTIFACT_REFERENCES :: nat where "MAX_ARTIFACT_REFERENCES = 100"

text \<open>\<open>_namespace\<close>: a value that is not a dictionary is replaced by an empty one.\<close>

definition namespace :: "jdict \<Rightarrow> jdict" where
  "namespace md = obj_items (dict_get md NS)"

definition set_namespace :: "jdict \<Rightarrow> jdict \<Rightarrow> jdict" where
  "set_namespace ns md = AList.update (u NS) (JObj ns) md"

text \<open>\<open>namespace.setdefault(k, []).append(v)\<close>\<close>

definition append_to :: "string \<Rightarrow> json \<Rightarrow> jdict \<Rightarrow> jdict result" where
  "append_to k v ns =
     (if map_of ns (u k) = None then Inr (put k (JList [v]) ns)
      else case dict_get ns k of
             JList l \<Rightarrow> Inr (put k (JList (l @ [v])) ns)
           | _ \<Rightarrow> Inl (OtherError ''AttributeError''))"

section \<open>Configuration\<close>

text \<open>\<open>mw_dump\<close> is \<open>model_dump(mode="json")\<close> of a block of a tool response.\<close>

datatype tool_block = TextB pystr | OtherB json

record 'b mw_env =
  mw_policy :: policy
  mw_limit :: int
  mw_reduction :: bool
  mw_artifact :: "'b artifact_env"
  mw_reduce :: reduce_env
  mw_assembly :: assembly_env
  mw_dump :: "tool_block \<Rightarrow> json"

definition py_trunc :: "rat \<Rightarrow> int" where
  "py_trunc r = (if r < 0 then \<lceil>r\<rceil> else \<lfloor>r\<rfloor>)"

text \<open>The policy the constructor makes of its arguments; the others keep their defaults.\<close>

definition middleware_policy :: "int \<Rightarrow> int \<Rightarrow> int \<Rightarrow> rat \<Rightarrow> pystr \<Rightarrow> int \<Rightarrow> int \<Rightarrow> int \<Rightarrow> int \<Rightarrow> int \<Rightarrow> policy result" where
  "middleware_policy n reply margin ratio mode target hard recent_turns recent_limit hot =
     (if \<not> (0 < ratio \<and> ratio \<le> 1) then Inl (ValueError ''soft_limit_ratio'')
      else mk_policy ((default_policy n)\<lparr>reply_reserved_tokens := reply, safety_margin_tokens := margin,
        soft_limit_tokens := py_trunc (fmul (float_of n) ratio), mode_name := mode, l2_hot_turns := hot,
        l3_keep_recent_frozen_segments := recent_turns, l3_recent_frozen_token_limit := recent_limit,
        summary_target_tokens := target, summary_hard_limit_tokens := hard\<rparr>))"

section \<open>The intent of a reply\<close>

record snapshot =
  sn_session :: pystr
  sn_buyer :: pystr
  sn_locale :: pystr
  sn_currency :: pystr

definition mk_intent :: "pystr \<Rightarrow> pystr \<Rightarrow> pystr \<Rightarrow> pystr \<Rightarrow> pystr \<Rightarrow> json" where
  "mk_intent s b l c q = JObj [(u ''shopping_session_id'', JStr s), (u ''buyer_id'', JStr b), (u ''locale'', JStr l),
     (u ''currency'', JStr c), (u ''raw_query'', JStr q)]"

text \<open>The inputs as the list of their messages, a single message as one and no input as none.\<close>

definition intent_from_inputs :: "snapshot option \<Rightarrow> msg list \<Rightarrow> json option" where
  "intent_from_inputs snap inputs =
     (let users = filter (\<lambda>m. m_role m = u ''user'') inputs
      in if users = [] then None
         else case snap of
                Some s \<Rightarrow> Some (mk_intent (sn_session s) (sn_buyer s) (sn_locale s) (sn_currency s) (m_text (last users)))
              | None \<Rightarrow> Some (mk_intent [] (m_name (last users)) [] [] (m_text (last users))))"

text \<open>What \<open>reduce_l4\<close> reads of the stored intent and events.\<close>

definition intent_of :: "json \<Rightarrow> Reducer.intent" where
  "intent_of i = \<lparr>in_session = jget i ''shopping_session_id'', in_buyer = jget i ''buyer_id'', in_locale = jget i ''locale'',
     in_currency = jget i ''currency'', in_query = jget i ''raw_query''\<rparr>"

definition event_of :: "reduce_env \<Rightarrow> json \<Rightarrow> event" where
  "event_of env e = \<lparr>ev_type = to_str env (get_or e ''type'' (JStr [])), ev_payload = jget e ''payload'',
     ev_occurred = to_str env (get_or e ''occurred_at'' (JStr []))\<rparr>"

definition mk_event :: "string \<Rightarrow> json \<Rightarrow> pystr \<Rightarrow> json" where
  "mk_event t payload now = JObj [(u ''type'', JStr (u t)), (u ''payload'', payload), (u ''occurred_at'', JStr now)]"

section \<open>Around a reply\<close>

text \<open>The part of \<open>on_reply\<close> before the agent runs.\<close>

definition reply_start :: "'b mw_env \<Rightarrow> snapshot option \<Rightarrow> msg list \<Rightarrow> pystr \<Rightarrow> jdict \<Rightarrow> exn option \<times> jdict" where
  "reply_start env snap inputs now md =
     (let ns = namespace md; renv = mw_reduce env; stop = (\<lambda>e ns'. (Some e, set_namespace ns' md))
      in case intent_from_inputs snap inputs of
           None \<Rightarrow> (None, set_namespace ns md)
         | Some i \<Rightarrow>
             (case context_from_dict renv (dict_get ns ''session_context'') of
                Inl e \<Rightarrow> stop e ns
              | Inr previous \<Rightarrow>
                  if truthy (dict_get (session previous) ''buyer_id'') \<and> truthy (jget i ''buyer_id'') \<and>
                     \<not> jeq (dict_get (session previous) ''buyer_id'') (jget i ''buyer_id'')
                  then stop (RuntimeError ''ContextOwnershipError'') ns
                  else let ns1 = put ''current_turn_events'' (JList []) (put ''current_intent'' i ns)
                       in (case reduce_l4 renv (intent_of i) [] now previous of
                             Inl e \<Rightarrow> stop e ns1
                           | Inr c \<Rightarrow> (None, set_namespace (put ''session_context'' (context_to_dict c) ns1) md))))"

text \<open>The \<open>finally\<close> clause; \<open>fin\<close> is the text and the structured output of the last message, if one arrived. A list
  of events that is not a list, which nothing here stores, is refused.\<close>

definition final_events :: "(pystr \<times> json) option \<Rightarrow> pystr \<Rightarrow> json list" where
  "final_events fin now = (case fin of None \<Rightarrow> []
     | Some (t, s) \<Rightarrow> [mk_event ''final.result'' (JObj [(u ''text'', JStr t), (u ''structured_output'', s)]) now])"

definition turn_events :: "jdict \<Rightarrow> json list result" where
  "turn_events ns = (case map_of ns (u ''current_turn_events'') of
     None \<Rightarrow> Inr [] | Some (JList l) \<Rightarrow> Inr l | Some v \<Rightarrow> Inl (TypeError ''list''))"

definition reply_end :: "'b mw_env \<Rightarrow> (pystr \<times> json) option \<Rightarrow> pystr \<Rightarrow> jdict \<Rightarrow> exn option \<times> jdict" where
  "reply_end env fin now md =
     (let ns = namespace md; renv = mw_reduce env; i = dict_get ns ''current_intent'';
          ns1 = AList.delete (u ''current_turn_events'') ns
      in case andThen (turn_events ns) (\<lambda>evs.
              andThen (context_from_dict renv (dict_get ns ''session_context'')) (\<lambda>previous.
              reduce_l4 renv (intent_of (if truthy i then i else JObj [])) (map (event_of renv) (evs @ final_events fin now)) now previous)) of
           Inl e \<Rightarrow> (Some e, set_namespace ns1 md)
         | Inr c \<Rightarrow> (None, set_namespace (put ''session_context'' (context_to_dict c) ns1) md))"

section \<open>Around a tool call\<close>

record response =
  rs_blocks :: "tool_block list"
  rs_state :: pystr
  rs_metadata :: jdict

datatype act_chunk = Response response | Progress json

definition raw_tool_response :: "'b mw_env \<Rightarrow> tool_block list \<Rightarrow> pystr" where
  "raw_tool_response env blocks = (case blocks of
     [TextB t] \<Rightarrow> t | _ \<Rightarrow> dumps (float_text (mw_artifact env)) (JList (map (mw_dump env) blocks)))"

definition invoke_event :: "'b mw_env \<Rightarrow> call_block \<Rightarrow> pystr \<Rightarrow> json" where
  "invoke_event env call now =
     mk_event ''tool.invoke'' (JObj [(u ''tool'', JStr (cb_name call)), (u ''tool_call_id'', JStr (cb_id call)),
       (u ''args'', case Tool_Output.loads (mw_artifact env) (cb_input call) of Inl e \<Rightarrow> JStr (cb_input call) | Inr v \<Rightarrow> v)]) now"

definition result_event :: "call_block \<Rightarrow> pystr \<Rightarrow> json \<Rightarrow> bool \<Rightarrow> pystr \<Rightarrow> json" where
  "result_event call raw ref is_error now =
     mk_event ''tool.result'' (JObj [(u ''tool'', JStr (cb_name call)), (u ''tool_call_id'', JStr (cb_id call)),
       (u ''raw_output'', JStr raw), (u ''artifact_ref'', ref), (u ''error'', JBool is_error)]) now"

definition artifact_record :: "call_block \<Rightarrow> pystr \<Rightarrow> json \<Rightarrow> pystr \<Rightarrow> json" where
  "artifact_record call state ref now = JObj [(u ''tool'', JStr (cb_name call)), (u ''tool_call_id'', JStr (cb_id call)),
     (u ''state'', JStr state), (u ''artifact_ref'', ref), (u ''occurred_at'', JStr now)]"

definition trim_artifacts :: "jdict \<Rightarrow> jdict" where
  "trim_artifacts ns = (let l = list_items (dict_get ns ''tool_artifacts'')
     in if MAX_ARTIFACT_REFERENCES < length l then put ''tool_artifacts'' (JList (drop (length l - MAX_ARTIFACT_REFERENCES) l)) ns else ns)"

text \<open>The text the model sees of an output that has a contract.\<close>

definition model_text :: "'b mw_env \<Rightarrow> pystr \<Rightarrow> pystr \<Rightarrow> 'b artifacts \<Rightarrow> pystr result \<times> 'b artifacts" where
  "model_text env tool raw files =
     (if mw_reduction env then format_tool_output (mw_artifact env) tool (JStr raw) (mw_limit env) files
      else (Inr (snd (sanitize (mw_artifact env) raw)), files))"

definition shown_response :: "'b mw_env \<Rightarrow> response \<Rightarrow> json \<Rightarrow> pystr \<Rightarrow> pystr \<Rightarrow> response" where
  "shown_response env rs ref raw text = rs\<lparr>rs_blocks := [TextB text], rs_metadata :=
     put ''crossshop_tool_output_reduced'' (JBool (mw_reduction env)) (put ''crossshop_model_output_chars'' (JInt (int (length text)))
       (put ''crossshop_raw_output_chars'' (JInt (int (length raw))) (put ''crossshop_artifact_ref'' ref (rs_metadata rs))))\<rparr>"

definition act_invoke :: "'b mw_env \<Rightarrow> call_block \<Rightarrow> pystr \<Rightarrow> jdict \<Rightarrow> exn option \<times> jdict" where
  "act_invoke env call now md =
     (case append_to ''current_turn_events'' (invoke_event env call now) (namespace md) of
        Inl e \<Rightarrow> (Some e, set_namespace (namespace md) md)
      | Inr ns \<Rightarrow> (None, set_namespace ns md))"

definition act_response :: "'b mw_env \<Rightarrow> call_block \<Rightarrow> response \<Rightarrow> pystr \<Rightarrow> jdict \<Rightarrow> 'b artifacts \<Rightarrow>
    response result \<times> jdict \<times> 'b artifacts" where
  "act_response env call rs now md files =
     (let raw = raw_tool_response env (rs_blocks rs);
          (ref, files1) = artifact_put (mw_artifact env) raw files;
          ns = namespace md
      in case append_to ''tool_artifacts'' (artifact_record call (rs_state rs) ref now) ns of
           Inl e \<Rightarrow> (Inl e, set_namespace ns md, files1)
         | Inr ns1 \<Rightarrow>
             (case append_to ''current_turn_events'' (result_event call raw ref (rs_state rs \<noteq> u ''success'') now) (trim_artifacts ns1) of
                Inl e \<Rightarrow> (Inl e, set_namespace (trim_artifacts ns1) md, files1)
              | Inr ns2 \<Rightarrow>
                  if map_of TOOL_OUTPUT_CONTRACTS (cb_name call) = None then (Inr rs, set_namespace ns2 md, files1)
                  else (case model_text env (cb_name call) raw files1 of
                          (Inl e, files2) \<Rightarrow> (Inl e, set_namespace ns2 md, files2)
                        | (Inr text, files2) \<Rightarrow> (Inr (shown_response env rs ref raw text), set_namespace ns2 md, files2))))"

definition act_chunk :: "'b mw_env \<Rightarrow> call_block \<Rightarrow> act_chunk \<Rightarrow> pystr \<Rightarrow> jdict \<Rightarrow> 'b artifacts \<Rightarrow>
    act_chunk result \<times> jdict \<times> 'b artifacts" where
  "act_chunk env call ch now md files =
     (case ch of
        Progress v \<Rightarrow> (Inr ch, md, files)
      | Response rs \<Rightarrow> (case act_response env call rs now md files of
          (Inl e, md', files') \<Rightarrow> (Inl e, md', files') | (Inr rs', md', files') \<Rightarrow> (Inr (Response rs'), md', files')))"

section \<open>Around a model call\<close>

text \<open>\<open>mi_model\<close>: the counter of the current model with whether it is the framework's estimate.\<close>

record model_input =
  mi_messages :: "msg list"
  mi_context :: "msg list"
  mi_tools :: json
  mi_unfinished :: bool
  mi_awaiting :: bool
  mi_model :: "((msg list \<Rightarrow> json \<Rightarrow> int result) \<times> bool) option"

definition or_list :: "json \<Rightarrow> json" where "or_list v = (if truthy v then v else JList [])"

text \<open>\<open>_prompt_breakdown_attributes\<close>\<close>

definition count_at :: "reduce_env \<Rightarrow> json \<Rightarrow> string \<Rightarrow> int result" where
  "count_at env v k = (let w = jget v k in andThen (if truthy w then py_int (int_text env) w else Inr 0) (\<lambda>n. Inr (max 0 n)))"

definition tokens_at :: "reduce_env \<Rightarrow> json \<Rightarrow> int" where
  "tokens_at env layer = (if is_obj layer then (case count_at env layer ''tokens'' of Inl e \<Rightarrow> 0 | Inr n \<Rightarrow> n) else 0)"

definition text_at :: "reduce_env \<Rightarrow> json \<Rightarrow> string \<Rightarrow> string \<Rightarrow> json" where
  "text_at env v k dflt = JStr (if truthy (jget v k) then to_str env (jget v k) else u dflt)"

definition prompt_breakdown :: "reduce_env \<Rightarrow> json \<Rightarrow> pystr \<Rightarrow> jdict result" where
  "prompt_breakdown env rep agent =
     (let tokens = (\<lambda>k. tokens_at env (jget (jget rep ''layers'') k))
      in andThen (count_at env rep ''total_input_tokens'') (\<lambda>total.
         andThen (count_at env rep ''stable_prefix_estimated_tokens'') (\<lambda>prefix.
         andThen (count_at env rep ''stage_summary_model_visible_estimated_tokens'') (\<lambda>stage.
         andThen (count_at env rep ''stage_summary_source_manifest_count'') (\<lambda>sources.
           Inr [(u ''crossshop.prompt.agent'', JStr agent),
             (u ''crossshop.prompt.system_tokens'', JInt (tokens ''fixed_prompt'')),
             (u ''crossshop.prompt.tool_schema_tokens'', JInt (tokens ''tool_schemas'')),
             (u ''crossshop.prompt.recent_history_tokens'', JInt (tokens ''l4_candidate'' + tokens ''active'' + tokens ''current'')),
             (u ''crossshop.prompt.frozen_context_tokens'', JInt (tokens ''history'')),
             (u ''crossshop.prompt.tool_result_tokens'', JInt (sum_list (map (tokens_at env \<circ> snd) (obj_items (jget rep ''tool_results''))))),
             (u ''crossshop.prompt.total_estimated_tokens'', JInt total),
             (u ''crossshop.prompt.stable_prefix_estimated_tokens'', JInt prefix),
             (u ''crossshop.prompt.stable_prefix_sha256'', text_at env rep ''stable_prefix_sha256'' ''''),
             (u ''crossshop.prompt.stage_summary_estimated_tokens'', JInt stage),
             (u ''crossshop.prompt.stage_summary_source_count'', JInt sources),
             (u ''crossshop.prompt.stage_summary_source_manifest_sha256'', text_at env rep ''stage_summary_source_manifest_hash'' ''''),
             (u ''crossshop.prompt.estimated'', JBool (truthy (get_or rep ''estimated'' (JBool True)))),
             (u ''crossshop.prompt.counter_method'', text_at env rep ''counter_method'' ''unknown''),
             (u ''crossshop.prompt.budget_decision'', text_at env rep ''decision'' ''unknown'')])))))"

definition provider_report :: "int \<Rightarrow> bool \<Rightarrow> json \<Rightarrow> json" where
  "provider_report n estimate rep = JObj (put ''provider_counter_estimated'' (JBool estimate)
     (put ''provider_counter_method'' (JStr (u ''agentscope.model.count_tokens'')) (put ''provider_input_tokens'' (JInt n) (obj_items rep))))"

definition available_tokens :: "policy \<Rightarrow> int" where
  "available_tokens p = model_context_tokens p - reply_reserved_tokens p - safety_margin_tokens p"

text \<open>What is given to the next handler, with the attributes of the span around it.\<close>

definition on_model_call :: "'b mw_env \<Rightarrow> pystr \<Rightarrow> pystr \<Rightarrow> model_input \<Rightarrow> jdict \<Rightarrow> (msg list \<times> jdict) result \<times> jdict" where
  "on_model_call env agent now mi md =
     (let ns = namespace md; aenv = mw_assembly env; tools = or_list (mi_tools mi);
          fixed = take (length (mi_messages mi) - length (mi_context mi)) (mi_messages mi);
          send = (\<lambda>view updated. (andThen (prompt_breakdown (mw_reduce env) (if truthy (dict_get updated ''budget_report'')
              then dict_get updated ''budget_report'' else JObj []) agent) (\<lambda>attrs. Inr (view, attrs)), set_namespace updated md))
      in case advance_context_state aenv (summarize_frozen_segments (as_senv aenv)) now (mi_context mi) ns fixed tools (mw_policy env)
                (mi_unfinished mi) (mi_awaiting mi) of
           Inl e \<Rightarrow> (Inl e, set_namespace ns md)
         | Inr (updated, view) \<Rightarrow>
             (case mi_model mi of
                None \<Rightarrow> send view updated
              | Some (count, estimate) \<Rightarrow>
                  (case count view tools of
                     Inl e \<Rightarrow> (Inl e, set_namespace updated md)
                   | Inr n \<Rightarrow>
                       (let updated1 = put ''budget_report'' (provider_report n estimate (dict_get updated ''budget_report'')) updated
                        in if mode_name (mw_policy env) = u ''enforce'' \<and> \<not> estimate \<and> available_tokens (mw_policy env) < n
                           then (Inl (RuntimeError ''ContextBudgetExceeded''), set_namespace updated1 md)
                           else send view updated1))))"

definition on_compress_context :: "'b mw_env \<Rightarrow> jdict \<Rightarrow> exn option \<times> jdict" where
  "on_compress_context env md =
     (let ns = namespace md
      in case py_int (int_text (mw_reduce env)) (get_or (JObj ns) ''builtin_compression_skipped'' (JInt 0)) of
           Inl e \<Rightarrow> (Some e, set_namespace ns md)
         | Inr n \<Rightarrow> (None, set_namespace (put ''builtin_compression_skipped'' (JInt (n + 1)) ns) md))"

section \<open>A turn\<close>

text \<open>What happens between the start and the end of a reply, in order; the first exception ends it.\<close>

datatype mw_op =
    Invoke call_block pystr
  | Chunk call_block act_chunk pystr
  | ModelCall pystr pystr model_input
  | Compress

definition without_value :: "'x result \<times> 's \<Rightarrow> exn option \<times> 's" where
  "without_value r = (case r of (Inl e, s) \<Rightarrow> (Some e, s) | (Inr x, s) \<Rightarrow> (None, s))"

fun mw_step :: "'b mw_env \<Rightarrow> mw_op \<Rightarrow> jdict \<times> 'b artifacts \<Rightarrow> exn option \<times> jdict \<times> 'b artifacts" where
  "mw_step env (Invoke call now) (md, files) = (case act_invoke env call now md of (e, md') \<Rightarrow> (e, md', files))"
| "mw_step env (Chunk call ch now) (md, files) = without_value (act_chunk env call ch now md files)"
| "mw_step env (ModelCall agent now mi) (md, files) = (case without_value (on_model_call env agent now mi md) of (e, md') \<Rightarrow> (e, md', files))"
| "mw_step env Compress (md, files) = (case on_compress_context env md of (e, md') \<Rightarrow> (e, md', files))"

fun mw_run :: "'b mw_env \<Rightarrow> mw_op list \<Rightarrow> jdict \<times> 'b artifacts \<Rightarrow> exn option \<times> jdict \<times> 'b artifacts" where
  "mw_run env [] st = (None, st)"
| "mw_run env (op # ops) st = (case mw_step env op st of (Some e, st') \<Rightarrow> (Some e, st') | (None, st') \<Rightarrow> mw_run env ops st')"

record turn =
  tn_snapshot :: "snapshot option"
  tn_inputs :: "msg list"
  tn_start :: pystr
  tn_ops :: "mw_op list"
  tn_final :: "(pystr \<times> json) option"
  tn_end :: pystr

text \<open>\<open>on_reply\<close> with everything in it; an exception of the \<open>finally\<close> clause replaces that of the body.\<close>

definition mw_turn :: "'b mw_env \<Rightarrow> turn \<Rightarrow> jdict \<times> 'b artifacts \<Rightarrow> exn option \<times> jdict \<times> 'b artifacts" where
  "mw_turn env t st =
     (case reply_start env (tn_snapshot t) (tn_inputs t) (tn_start t) (fst st) of
        (Some e, md) \<Rightarrow> (Some e, md, snd st)
      | (None, md) \<Rightarrow>
          (case mw_run env (tn_ops t) (md, snd st) of (e, md2, files2) \<Rightarrow>
             (case reply_end env (tn_final t) (tn_end t) md2 of (e3, md3) \<Rightarrow>
                (if e3 = None then e else e3, md3, files2))))"

section \<open>What a step keeps\<close>

lemma namespace_set [simp]: "namespace (set_namespace ns md) = ns"
  by (simp add: namespace_def set_namespace_def get_update)

text \<open>The events an operation adds to the turn when it succeeds.\<close>

definition op_events :: "'b mw_env \<Rightarrow> mw_op \<Rightarrow> json list" where
  "op_events env op = (case op of
     Invoke call now \<Rightarrow> [invoke_event env call now]
   | Chunk call (Response rs) now \<Rightarrow>
       (let raw = raw_tool_response env (rs_blocks rs)
        in [result_event call raw (fst (artifact_put (mw_artifact env) raw Map.empty)) (rs_state rs \<noteq> u ''success'') now])
   | _ \<Rightarrow> [])"

lemma artifact_reference: "fst (artifact_put aenv raw st) = fst (artifact_put aenv raw st')"
  by (simp add: artifact_put_def Let_def)

lemma append_to_events:
  "turn_events ns = Inr l \<Longrightarrow> append_to ''current_turn_events'' v ns = Inr (put ''current_turn_events'' (JList (l @ [v])) ns)"
  by (auto simp: turn_events_def append_to_def dict_get_def jget_def split: option.splits json.splits)

lemma append_to_put: "append_to k v ns = Inr ns' \<Longrightarrow> \<exists>l. ns' = put k l ns"
  by (auto simp: append_to_def split: if_splits json.splits)

lemma turn_events_put [simp]: "turn_events (put ''current_turn_events'' (JList l) ns) = Inr l"
  by (simp add: turn_events_def dict_simps)

lemma stored_other:
  assumes "k \<notin> {''budget_decision'', ''budget_report'', ''stage_summary'', ''freeze_cursor'', ''frozen_segments'', ''context_compression''}"
  shows "map_of (store_result env ns frozen cur res) (u k) = map_of ns (u k)"
  using assms by (auto simp: store_result_def Let_def dict_simps split: prod.splits option.splits)

lemma advance_other:
  assumes "advance_context_state aenv build now ms ns fixed schemas p pend intr = Inr (ns', view)"
    "k \<notin> {''budget_decision'', ''budget_report'', ''stage_summary'', ''freeze_cursor'', ''frozen_segments'', ''context_compression''}"
  shows "map_of ns' (u k) = map_of ns (u k)"
  by (rule advance_cases [OF assms(1)]) (simp add: stored_other [OF assms(2)])

text \<open>The keys of the namespace that only the ends of a reply write, and the events of the turn.\<close>

definition same_turn :: "jdict \<Rightarrow> jdict \<Rightarrow> bool" where
  "same_turn ns ns' \<longleftrightarrow> (\<forall>k\<in>{''session_context'', ''current_intent''}. map_of ns' (u k) = map_of ns (u k))"

lemma same_turn_put: "k \<notin> {''session_context'', ''current_intent''} \<Longrightarrow> same_turn ns (put k v ns)"
  by (auto simp: same_turn_def dict_simps)

lemma same_turn_refl [simp]: "same_turn ns ns"
  by (simp add: same_turn_def)

lemma same_turn_trans: "same_turn a b \<Longrightarrow> same_turn b c \<Longrightarrow> same_turn a c"
  by (simp add: same_turn_def)

lemma turn_events_other: "k \<noteq> ''current_turn_events'' \<Longrightarrow> turn_events (put k v ns) = turn_events ns"
  by (simp add: turn_events_def dict_simps)

lemma trim_artifacts_same: "same_turn ns (trim_artifacts ns) \<and> turn_events (trim_artifacts ns) = turn_events ns"
  by (simp add: trim_artifacts_def Let_def same_turn_put turn_events_other)

lemma act_response_keeps:
  assumes "turn_events (namespace md) = Inr l" "act_response env call rs now md files = (r, md', files')"
  shows "same_turn (namespace md) (namespace md') \<and>
    turn_events (namespace md') = Inr (l @ (if is_ok r then op_events env (Chunk call (Response rs) now) else []))"
proof -
  let ?raw = "raw_tool_response env (rs_blocks rs)"
  obtain ref files1 where p: "artifact_put (mw_artifact env) ?raw files = (ref, files1)" by fastforce
  then have ref: "ref = fst (artifact_put (mw_artifact env) ?raw Map.empty)" by (metis artifact_reference fst_conv)
  show ?thesis
  proof (cases "append_to ''tool_artifacts'' (artifact_record call (rs_state rs) ref now) (namespace md)")
    case (Inl e)
    with assms p show ?thesis by (auto simp: act_response_def Let_def)
  next
    case (Inr ns1)
    from append_to_put [OF this] have k: "same_turn (namespace md) ns1" "turn_events ns1 = Inr l"
      using assms(1) by (auto simp: same_turn_put turn_events_other)
    let ?ev = "result_event call ?raw ref (rs_state rs \<noteq> u ''success'') now"
    let ?ns2 = "put ''current_turn_events'' (JList (l @ [?ev])) (trim_artifacts ns1)"
    have a: "append_to ''current_turn_events'' ?ev (trim_artifacts ns1) = Inr ?ns2"
      using append_to_events k(2) trim_artifacts_same [of ns1] by simp
    have s: "same_turn (namespace md) ?ns2"
      using same_turn_trans [OF same_turn_trans [OF k(1) conjunct1 [OF trim_artifacts_same]] same_turn_put] by simp
    have "md' = set_namespace ?ns2 md \<and> is_ok r"
      using assms(2) p Inr a
      by (auto simp: act_response_def Let_def model_text_def format_tool_output_def split: if_splits option.splits sum.splits prod.splits)
    then show ?thesis using s by (simp add: op_events_def Let_def ref)
  qed
qed

lemma model_call_keeps:
  assumes "on_model_call env agent now mi md = (r, md')"
  shows "same_turn (namespace md) (namespace md') \<and> turn_events (namespace md') = turn_events (namespace md)"
proof -
  let ?adv = "advance_context_state (mw_assembly env) (summarize_frozen_segments (as_senv (mw_assembly env))) now (mi_context mi) (namespace md)
     (take (length (mi_messages mi) - length (mi_context mi)) (mi_messages mi)) (or_list (mi_tools mi)) (mw_policy env) (mi_unfinished mi) (mi_awaiting mi)"
  show ?thesis
  proof (cases ?adv)
    case (Inl e)
    with assms show ?thesis by (auto simp: on_model_call_def Let_def)
  next
    case (Inr p)
    obtain updated view where p: "p = (updated, view)" by fastforce
    note o = advance_other [OF Inr [unfolded p]]
    have s: "same_turn (namespace md) updated" "turn_events updated = turn_events (namespace md)"
      using o by (simp_all add: same_turn_def turn_events_def)
    have "namespace md' = updated \<or> (\<exists>v. namespace md' = put ''budget_report'' v updated)"
      using assms Inr by (auto simp: on_model_call_def Let_def p split: option.splits sum.splits if_splits) blast+
    then show ?thesis
    proof
      assume "\<exists>v. namespace md' = put ''budget_report'' v updated"
      then obtain v where v: "namespace md' = put ''budget_report'' v updated" ..
      have "same_turn updated (put ''budget_report'' v updated)" by (rule same_turn_put) simp
      with s v show ?thesis by (auto simp: turn_events_other intro: same_turn_trans)
    qed (use s in simp)
  qed
qed

lemma step_keeps:
  assumes "turn_events (namespace md) = Inr l" "mw_step env op (md, files) = (e, md', files')"
  shows "same_turn (namespace md) (namespace md') \<and>
    turn_events (namespace md') = Inr (l @ (if e = None then op_events env op else []))"
proof (cases op)
  case (Invoke call now)
  with assms show ?thesis by (auto simp: act_invoke_def append_to_events op_events_def same_turn_put)
next
  case (Chunk call ch now)
  show ?thesis
  proof (cases ch)
    case (Response rs)
    obtain r md2 files2 where a: "act_response env call rs now md files = (r, md2, files2)" using prod_cases3 by blast
    with assms(2) have "md' = md2" "e = None \<longleftrightarrow> is_ok r"
      by (auto simp: Chunk Response act_chunk_def without_value_def split: sum.splits)
    with act_response_keeps [OF assms(1) a] show ?thesis by (simp add: Chunk Response)
  next
    case Progress
    with assms show ?thesis by (auto simp: Chunk act_chunk_def without_value_def op_events_def)
  qed
next
  case (ModelCall agent now mi)
  obtain r md2 where m: "on_model_call env agent now mi md = (r, md2)" by fastforce
  with assms(2) have "md' = md2" by (auto simp: ModelCall without_value_def split: sum.splits)
  with model_call_keeps [OF m] assms(1) show ?thesis by (simp add: ModelCall op_events_def)
next
  case Compress
  with assms show ?thesis
    by (auto simp: on_compress_context_def Let_def op_events_def same_turn_put turn_events_other split: sum.splits)
qed

lemma run_keeps:
  "turn_events (namespace md) = Inr l \<Longrightarrow> mw_run env ops (md, files) = (e, md', files') \<Longrightarrow>
   \<exists>done rest. ops = done @ rest \<and> (e = None \<longrightarrow> rest = []) \<and> same_turn (namespace md) (namespace md') \<and>
     turn_events (namespace md') = Inr (l @ concat (map (op_events env) done))"
proof (induction ops arbitrary: md l files)
  case Nil
  then show ?case by auto
next
  case (Cons op ops)
  obtain e1 md1 files1 where s: "mw_step env op (md, files) = (e1, md1, files1)" using prod_cases3 by blast
  note k = step_keeps [OF Cons.prems(1) s]
  show ?case
  proof (cases e1)
    case (Some x)
    with Cons.prems(2) s k show ?thesis by (intro exI [where x = "[]"] exI [where x = "op # ops"] conjI) auto
  next
    case None
    with k have l1: "turn_events (namespace md1) = Inr (l @ op_events env op)" by simp
    from None Cons.prems(2) s have "mw_run env ops (md1, files1) = (e, md', files')" by simp
    from Cons.IH [OF l1 this] obtain xs ys where "ops = xs @ ys" "e = None \<longrightarrow> ys = []" "same_turn (namespace md1) (namespace md')"
      "turn_events (namespace md') = Inr (l @ op_events env op @ concat (map (op_events env) xs))" by auto
    with k show ?thesis by (intro exI [of _ "op # xs"] exI [of _ ys]) (auto intro: same_turn_trans)
  qed
qed

section \<open>The events of a turn\<close>

lemma reply_start_ok:
  assumes "reply_start env snap inputs now md = (None, md1)" "intent_from_inputs snap inputs = Some i"
  shows "\<exists>c0 c1. context_from_dict (mw_reduce env) (dict_get (namespace md) ''session_context'') = Inr c0 \<and>
    reduce_l4 (mw_reduce env) (intent_of i) [] now c0 = Inr c1 \<and> turn_events (namespace md1) = Inr [] \<and>
    dict_get (namespace md1) ''session_context'' = context_to_dict c1 \<and> dict_get (namespace md1) ''current_intent'' = i"
  using assms by (auto simp: reply_start_def Let_def get_update turn_events_def dict_simps split: sum.splits if_splits)

lemma intent_truthy: "intent_from_inputs snap inputs = Some i \<Longrightarrow> truthy i \<and> (\<exists>b. jget i ''buyer_id'' = JStr b)"
  by (auto simp: intent_from_inputs_def Let_def mk_intent_def jget_def split: if_splits option.splits)

lemma delete_events: "turn_events (AList.delete (u ''current_turn_events'') ns) = Inr []"
  by (simp add: turn_events_def dict_simps)

lemma get_delete: "dict_get (AList.delete (u k) d) j = (if k = j then JNull else dict_get d j)"
  by (simp add: dict_get_def jget_def dict_simps)

lemma reply_end_ok:
  assumes "turn_events (namespace md) = Inr evs" "dict_get (namespace md) ''session_context'' = context_to_dict c0"
  shows "\<exists>c md'. reply_end env fin now md = (None, md') \<and>
    reduce_l4 (mw_reduce env) (intent_of (if truthy (dict_get (namespace md) ''current_intent'') then dict_get (namespace md) ''current_intent'' else JObj []))
      (map (event_of (mw_reduce env)) (evs @ final_events fin now)) now c0 = Inr c \<and>
    dict_get (namespace md') ''session_context'' = context_to_dict c \<and> turn_events (namespace md') = Inr [] \<and>
    dict_get (namespace md') ''current_intent'' = dict_get (namespace md) ''current_intent''"
proof -
  let ?i = "intent_of (if truthy (dict_get (namespace md) ''current_intent'') then dict_get (namespace md) ''current_intent'' else JObj [])"
  obtain c where c: "reduce_l4 (mw_reduce env) ?i (map (event_of (mw_reduce env)) (evs @ final_events fin now)) now c0 = Inr c"
    using reduce_Inr by blast
  show ?thesis unfolding reply_end_def Let_def assms andThen.simps context_from_to c
    by (simp add: get_update get_delete turn_events_other delete_events)
qed

lemma same_turn_get: "same_turn ns ns' \<Longrightarrow> k \<in> {''session_context'', ''current_intent''} \<Longrightarrow> dict_get ns' k = dict_get ns k"
  by (auto simp: same_turn_def dict_get_def jget_def)


section \<open>Who owns a session\<close>

lemma jeq_text: "jeq (JObj d) (JObj e) \<Longrightarrow> map_of d k = Some (JStr s) \<Longrightarrow> map_of e k = Some (JStr s)"
proof -
  assume a: "jeq (JObj d) (JObj e)" "map_of d k = Some (JStr s)"
  then have "(k, JStr s) \<in> set d" by (simp add: map_of_SomeD)
  with a(1) obtain w where "map_of e k = Some w" "jeq (JStr s) w" by (auto simp: list_all_iff split: option.splits)
  then show ?thesis by (cases w) auto
qed

lemma facts_buyer: "dict_get (session_facts i d) ''buyer_id'' = (if present (in_buyer i) then Reducer.bounded 0 (in_buyer i) else dict_get d ''buyer_id'')"
  by (simp add: session_facts_def put_present_def get_update)

lemma reduce_buyer:
  assumes "reduce_l4 env i evs now prior = Inr c" "in_buyer i = JStr b \<or> in_buyer i = JNull"
  shows "dict_get (session c) ''buyer_id'' = (if present (in_buyer i) then Reducer.bounded 0 (in_buyer i) else dict_get (session prior) ''buyer_id'')"
proof -
  let ?s = "session_facts i (session prior)"
  from assms(1) have "session c = ?s \<or> c = prior \<and> jeq (JObj ?s) (JObj (session prior))"
    by (auto simp: reduce_l4_def recommendation_eq Let_def semantic_dict_def split: if_splits)
  then show ?thesis
  proof
    assume p: "c = prior \<and> jeq (JObj ?s) (JObj (session prior))"
    show ?thesis
    proof (cases "present (in_buyer i)")
      case True
      with assms(2) obtain x where x: "Reducer.bounded 0 (in_buyer i) = JStr x" by (auto simp: present_def)
      with True facts_buyer [of i "session prior"] have "map_of ?s (u ''buyer_id'') = Some (JStr x)"
        by (auto simp: dict_get_def jget_def split: option.splits)
      from jeq_text [OF conjunct2 [OF p] this] p True x show ?thesis by (simp add: dict_get_def jget_def)
    qed (use p in simp)
  qed (simp add: facts_buyer)
qed

text \<open>The session belongs to a buyer under the first 512 characters of his number, and the stored intent is his own.\<close>

definition owned :: "pystr \<Rightarrow> jdict \<Rightarrow> bool" where
  "owned b ns \<longleftrightarrow> b \<noteq> [] \<and> (\<exists>l. turn_events ns = Inr l) \<and>
     (\<exists>c. dict_get ns ''session_context'' = context_to_dict c \<and> dict_get (session c) ''buyer_id'' = JStr (take MAX_STRING b)) \<and>
     (let i = dict_get ns ''current_intent'' in jget i ''buyer_id'' = JNull \<or>
        (\<exists>x. jget i ''buyer_id'' = JStr x \<and> (x = [] \<or> take MAX_STRING x = take MAX_STRING b)))"

lemma owned_same: "owned b ns \<Longrightarrow> same_turn ns ns' \<Longrightarrow> turn_events ns' = Inr l \<Longrightarrow> owned b ns'"
  by (simp add: owned_def same_turn_get)

lemma owned_reduced:
  assumes "reduce_l4 env (intent_of i) evs now c = Inr c'" "dict_get (session c) ''buyer_id'' = JStr (take MAX_STRING b)"
    "jget i ''buyer_id'' = JNull \<or> (\<exists>x. jget i ''buyer_id'' = JStr x \<and> (x = [] \<or> take MAX_STRING x = take MAX_STRING b))"
  shows "dict_get (session c') ''buyer_id'' = JStr (take MAX_STRING b)"
proof -
  have "in_buyer (intent_of i) = jget i ''buyer_id''" by (simp add: intent_of_def)
  with assms(3) obtain x where "in_buyer (intent_of i) = JStr x \<or> in_buyer (intent_of i) = JNull" by auto
  from reduce_buyer [OF assms(1) this] assms(2,3) show ?thesis by (auto simp: intent_of_def present_def)
qed

lemma owned_end:
  assumes "owned b (namespace md)" "reply_end env fin now md = (e, md')"
  shows "owned b (namespace md')"
proof -
  from assms(1) obtain l c where o: "turn_events (namespace md) = Inr l" "dict_get (namespace md) ''session_context'' = context_to_dict c"
    "dict_get (session c) ''buyer_id'' = JStr (take MAX_STRING b)" by (auto simp: owned_def)
  let ?i = "if truthy (dict_get (namespace md) ''current_intent'') then dict_get (namespace md) ''current_intent'' else JObj []"
  from reply_end_ok [OF o(1,2), of env fin now] assms(2) obtain c' where
    c': "reduce_l4 (mw_reduce env) (intent_of ?i) (map (event_of (mw_reduce env)) (l @ final_events fin now)) now c = Inr c'"
      "dict_get (namespace md') ''session_context'' = context_to_dict c'" "turn_events (namespace md') = Inr []"
      "dict_get (namespace md') ''current_intent'' = dict_get (namespace md) ''current_intent''" by auto
  have "jget ?i ''buyer_id'' = JNull \<or> (\<exists>x. jget ?i ''buyer_id'' = JStr x \<and> (x = [] \<or> take MAX_STRING x = take MAX_STRING b))"
    using assms(1) by (auto simp: owned_def Let_def jget_def)
  note owned_reduced [OF c'(1) o(3) this]
  with assms(1) c'(2-4) show ?thesis unfolding owned_def by auto
qed

lemma owned_run:
  assumes "owned b (namespace md)" "mw_run env ops (md, files) = (e, md', files')"
  shows "owned b (namespace md')"
proof -
  from assms(1) obtain l where "turn_events (namespace md) = Inr l" by (auto simp: owned_def)
  from run_keeps [OF this assms(2)] show ?thesis using owned_same [OF assms(1)] by blast
qed

text \<open>A turn by a buyer with another number is refused before anything else happens.\<close>

lemma foreign_start:
  assumes "owned b (namespace md)" "intent_from_inputs snap inputs = Some i" "jget i ''buyer_id'' = JStr x" "x \<noteq> []" "x \<noteq> take MAX_STRING b"
  shows "reply_start env snap inputs now md = (Some (RuntimeError ''ContextOwnershipError''), set_namespace (namespace md) md)"
proof -
  from assms(1) obtain c where c: "dict_get (namespace md) ''session_context'' = context_to_dict c"
    "dict_get (session c) ''buyer_id'' = JStr (take MAX_STRING b)" "b \<noteq> []" by (auto simp: owned_def)
  then show ?thesis using assms(2-5) by (simp add: reply_start_def Let_def context_from_to MAX_STRING_def)
qed

lemma owned_start:
  assumes "owned b (namespace md)" "reply_start env snap inputs now md = (e, md')"
  shows "owned b (namespace md')"
proof (cases "intent_from_inputs snap inputs")
  case None
  with assms show ?thesis by (auto simp: reply_start_def)
next
  case (Some i)
  then obtain x where x: "jget i ''buyer_id'' = JStr x" using intent_truthy by blast
  show ?thesis
  proof (cases "x = [] \<or> x = take MAX_STRING b")
    case True
    from assms(1) obtain c where c: "dict_get (namespace md) ''session_context'' = context_to_dict c"
      "dict_get (session c) ''buyer_id'' = JStr (take MAX_STRING b)" by (auto simp: owned_def)
    obtain c1 where c1: "reduce_l4 (mw_reduce env) (intent_of i) [] now c = Inr c1" using reduce_Inr by blast
    have "jget i ''buyer_id'' = JNull \<or> (\<exists>x. jget i ''buyer_id'' = JStr x \<and> (x = [] \<or> take MAX_STRING x = take MAX_STRING b))"
      using x True by auto
    note b1 = owned_reduced [OF c1 c(2) this]
    have "namespace md' = put ''session_context'' (context_to_dict c1) (put ''current_turn_events'' (JList []) (put ''current_intent'' i (namespace md)))"
      using assms(2) x True by (auto simp: reply_start_def Let_def Some c context_from_to c1)
    with b1 x True assms(1) show ?thesis by (auto simp: owned_def get_update turn_events_other)
  next
    case False
    with foreign_start [OF assms(1) Some x, of env now] assms show ?thesis by auto
  qed
qed

lemma owned_turn: "owned b (namespace md) \<Longrightarrow> mw_turn env t (md, files) = (e, md', files') \<Longrightarrow> owned b (namespace md')"
  unfolding mw_turn_def by (fastforce split: prod.splits option.splits if_splits dest: owned_start owned_run owned_end)

text \<open>The first turn of a session makes it its buyer's.\<close>

lemma owned_first:
  assumes "intent_from_inputs (tn_snapshot t) (tn_inputs t) = Some i" "jget i ''buyer_id'' = JStr b" "b \<noteq> []"
    "dict_get (namespace md) ''session_context'' = JNull" "mw_turn env t (md, files) = (e, md', files')"
  shows "owned b (namespace md')"
proof -
  obtain c1 where c1: "reduce_l4 (mw_reduce env) (intent_of i) [] (tn_start t) empty_context = Inr c1" using reduce_Inr by blast
  let ?ns = "put ''session_context'' (context_to_dict c1) (put ''current_turn_events'' (JList []) (put ''current_intent'' i (namespace md)))"
  have start: "reply_start env (tn_snapshot t) (tn_inputs t) (tn_start t) md = (None, set_namespace ?ns md)"
    by (simp add: reply_start_def Let_def assms(1,4) context_from_dict_def c1)
      (simp add: empty_context_def dict_get_def jget_def)
  have "dict_get (session c1) ''buyer_id'' = JStr (take MAX_STRING b)"
    using reduce_buyer [OF c1, of b] assms(2,3) by (simp add: intent_of_def present_def)
  then have "owned b (namespace (set_namespace ?ns md))"
    using assms(2,3) by (auto simp: owned_def get_update turn_events_other)
  note owned_run [OF this] owned_end
  with assms(5) start show ?thesis unfolding mw_turn_def by (fastforce split: prod.splits if_splits)
qed

fun mw_turns :: "'b mw_env \<Rightarrow> turn list \<Rightarrow> jdict \<times> 'b artifacts \<Rightarrow> jdict \<times> 'b artifacts" where
  "mw_turns env [] st = st"
| "mw_turns env (t # ts) st = mw_turns env ts (snd (mw_turn env t st))"

lemma owned_turns: "owned b (namespace (fst st)) \<Longrightarrow> owned b (namespace (fst (mw_turns env ts st)))"
proof (induction ts arbitrary: st)
  case (Cons t ts)
  obtain e md' files' where "mw_turn env t (fst st, snd st) = (e, md', files')" using prod_cases3 by blast
  with owned_turn [OF Cons.prems this] Cons.IH show ?case by simp
qed simp

text \<open>C19: a session belongs to the buyer of its first turn for ever: whatever turns follow, by whomever and however they
  end, a turn by anyone whose number differs from what is stored is refused before the model or a tool runs,
  and changes neither the context nor the artifacts. The stored number is cut at 512 characters, so the
  owner himself is refused from his second turn on when his number is longer.\<close>

theorem session_owner_fixed:
  assumes "intent_from_inputs (tn_snapshot t0) (tn_inputs t0) = Some i0" "jget i0 ''buyer_id'' = JStr b" "b \<noteq> []"
    "dict_get (namespace md) ''session_context'' = JNull" "mw_turns env (t0 # ts) (md, files) = (md', files')"
    "intent_from_inputs (tn_snapshot t) (tn_inputs t) = Some i" "jget i ''buyer_id'' = JStr x" "x \<noteq> []" "x \<noteq> take 512 b"
  shows "mw_turn env t (md', files') = (Some (RuntimeError ''ContextOwnershipError''), set_namespace (namespace md') md', files') \<and>
    jget (jget (dict_get (namespace md') ''session_context'') ''session'') ''buyer_id'' = JStr (take 512 b)"
proof -
  obtain e md1 files1 where "mw_turn env t0 (md, files) = (e, md1, files1)" using prod_cases3 by blast
  with owned_first [OF assms(1-4) this] owned_turns [of b "(md1, files1)" env ts] assms(5) have o: "owned b (namespace md')" by simp
  then obtain c where "dict_get (namespace md') ''session_context'' = context_to_dict c"
    "dict_get (session c) ''buyer_id'' = JStr (take MAX_STRING b)" by (auto simp: owned_def)
  then have "jget (jget (dict_get (namespace md') ''session_context'') ''session'') ''buyer_id'' = JStr (take 512 b)"
    by (simp add: context_to_dict_def jget_def dict_get_def MAX_STRING_def)
  with foreign_start [OF o assms(6-8), of env "tn_start t"] assms(9) show ?thesis by (simp add: mw_turn_def MAX_STRING_def)
qed

section \<open>What is sent to the model\<close>

text \<open>C21: when the budget is enforced and the provider counts exactly, no request above what the context window leaves
  after the reserve for the reply and the margin is ever sent: what goes out is the view of the advanced
  context, its count is within the limit, and the report that is kept says so.\<close>

theorem enforced_budget:
  assumes "on_model_call env agent now mi md = (Inr (view, attrs), md')" "mi_model mi = Some (count, False)"
    "mode_name (mw_policy env) = u ''enforce''"
  shows "\<exists>n ns. count view (or_list (mi_tools mi)) = Inr n \<and>
    n \<le> model_context_tokens (mw_policy env) - reply_reserved_tokens (mw_policy env) - safety_margin_tokens (mw_policy env) \<and>
    advance_context_state (mw_assembly env) (summarize_frozen_segments (as_senv (mw_assembly env))) now (mi_context mi) (namespace md)
      (take (length (mi_messages mi) - length (mi_context mi)) (mi_messages mi)) (or_list (mi_tools mi)) (mw_policy env)
      (mi_unfinished mi) (mi_awaiting mi) = Inr (ns, view) \<and>
    jget (dict_get (namespace md') ''budget_report'') ''provider_input_tokens'' = JInt n"
  using assms
  by (auto simp: on_model_call_def Let_def result_simps available_tokens_def provider_report_def jget_def dict_get_def dict_simps
      split: sum.splits if_splits)

text \<open>The attributes of the span can always be computed from the report of a step.\<close>

lemma count_at_total: "jget v k = JNull \<or> (\<exists>n. jget v k = JInt n) \<Longrightarrow> is_ok (count_at env v k)"
  by (auto simp: count_at_def Let_def py_int_def)

lemma advance_report:
  assumes "advance_context_state aenv build now ms ns fixed schemas p pend intr = Inr (ns', view)"
  shows "\<exists>rep stage. dict_get ns' ''budget_report'' = JObj (budget_report_with_cache_prefix (as_senv aenv) rep view @ stage_budget stage)"
  using assms by (rule advance_cases) (auto simp: stored_simps)

definition breakdown_counts :: "string set" where
  "breakdown_counts = {''total_input_tokens'', ''stable_prefix_estimated_tokens'', ''stage_summary_model_visible_estimated_tokens'',
     ''stage_summary_source_manifest_count''}"

lemma breakdown_ok:
  assumes "\<And>k. k \<in> breakdown_counts \<Longrightarrow> is_ok (count_at env v k)"
  shows "is_ok (prompt_breakdown env v agent)"
proof -
  have "\<exists>n. count_at env v k = Inr n" if "k \<in> breakdown_counts" for k using assms [OF that] by (simp add: is_ok_iff)
  then obtain f where f: "\<And>k. k \<in> breakdown_counts \<Longrightarrow> count_at env v k = Inr (f k)" by metis
  show ?thesis unfolding prompt_breakdown_def Let_def by (simp add: f breakdown_counts_def)
qed

lemma breakdown_total:
  assumes "dict_get ns ''budget_report'' = JObj (budget_report_with_cache_prefix senv rep view @ stage_budget stage)"
  shows "is_ok (prompt_breakdown env (dict_get ns ''budget_report'') agent) \<and>
    is_ok (prompt_breakdown env (provider_report n est (dict_get ns ''budget_report'')) agent)"
proof -
  let ?v = "JObj (budget_report_with_cache_prefix senv rep view @ stage_budget stage)"
  have r: "jget ?v k = JNull \<or> (\<exists>n. jget ?v k = JInt n)" if "k \<in> breakdown_counts" for k
    using that unfolding breakdown_counts_def
    by (elim insertE emptyE; cases stage; simp add: jget_def budget_report_with_cache_prefix_def report_dict_def stage_budget_def)
  have "jget (provider_report n est ?v) k = jget ?v k" if "k \<in> breakdown_counts" for k
    using that by (auto simp: provider_report_def jget_def dict_simps breakdown_counts_def simp del: map_of.simps)
  with r show ?thesis unfolding assms by (simp add: breakdown_ok count_at_total)
qed

section \<open>Tool results\<close>

lemma trim_artifacts_length: "length (list_items (dict_get (trim_artifacts ns) ''tool_artifacts'')) \<le> MAX_ARTIFACT_REFERENCES"
  by (simp add: trim_artifacts_def Let_def get_update)

text \<open>Also: whatever the model is shown of a tool's output, the exact output is kept: it is in the events of the turn and is
  read back from the artifact store under the reference recorded with it, and at most the last hundred
  references are kept.\<close>

theorem tool_output_kept:
  assumes "act_response env call rs now md files = (Inr rs', md', files')"
    "\<And>t. decode (mw_artifact env) (encode (mw_artifact env) t) = Inr t"
    "digest_ok (mw_artifact env) (encode (mw_artifact env) (raw_tool_response env (rs_blocks rs)))"
    "files (sha (mw_artifact env) (encode (mw_artifact env) (raw_tool_response env (rs_blocks rs)))) \<in>
       {None, Some (encode (mw_artifact env) (raw_tool_response env (rs_blocks rs)))}"
  shows "\<exists>ref l. artifact_read (mw_artifact env) ref files' = Inr (raw_tool_response env (rs_blocks rs)) \<and>
    dict_get (namespace md') ''current_turn_events'' =
      JList (l @ [result_event call (raw_tool_response env (rs_blocks rs)) ref (rs_state rs \<noteq> u ''success'') now]) \<and>
    length (list_items (dict_get (namespace md') ''tool_artifacts'')) \<le> 100"
proof -
  let ?raw = "raw_tool_response env (rs_blocks rs)" and ?a = "mw_artifact env"
  obtain ref files1 where p: "artifact_put ?a ?raw files = (ref, files1)" by fastforce
  with artifact_round_trip [where env = ?a and s = ?raw and st = files, OF assms(2-4)] have r1: "artifact_read ?a ref files1 = Inr ?raw" by simp
  have d: "files1 (sha ?a (encode ?a ?raw)) = Some (encode ?a ?raw)" using artifact_put_stored [where env = ?a and s = ?raw and st = files, OF assms(4)] p by simp
  have again: "artifact_read ?a ref (snd (artifact_put ?a ?raw files1)) = Inr ?raw"
    using artifact_round_trip [where env = ?a and s = ?raw and st = files1, OF assms(2,3)] d r1 by blast
  obtain ns1 ns2 where a: "append_to ''tool_artifacts'' (artifact_record call (rs_state rs) ref now) (namespace md) = Inr ns1"
    "append_to ''current_turn_events'' (result_event call ?raw ref (rs_state rs \<noteq> u ''success'') now) (trim_artifacts ns1) = Inr ns2"
    "namespace md' = ns2"
    using assms(1) p by (auto simp: act_response_def Let_def split: sum.splits if_splits prod.splits)
  have f: "files' = files1 \<or> files' = snd (artifact_put ?a ?raw files1)"
    using assms(1) p a by (auto simp: act_response_def Let_def model_text_def format_tool_output_def raw_text_def split: if_splits option.splits prod.splits)
  from append_to_put [OF a(2)] obtain l' where "ns2 = put ''current_turn_events'' l' (trim_artifacts ns1)" by blast
  then have n: "length (list_items (dict_get ns2 ''tool_artifacts'')) \<le> 100"
    using trim_artifacts_length [of ns1] by (simp add: get_update MAX_ARTIFACT_REFERENCES_def)
  have "\<exists>l. dict_get ns2 ''current_turn_events'' = JList (l @ [result_event call ?raw ref (rs_state rs \<noteq> u ''success'') now])"
    using a(2) by (auto simp: append_to_def get_update split: if_splits json.splits)
  with a(3) n r1 again f show ?thesis by auto
qed

section \<open>Concrete instances\<close>

definition ex_menv :: "pystr mw_env" where
  "ex_menv = \<lparr>mw_policy = (default_policy 1000)\<lparr>mode_name := u ''enforce''\<rparr>, mw_limit = 300, mw_reduction = True,
     mw_artifact = Tool_Output.ex_env, mw_reduce = Reducer.ex_env, mw_assembly = ex_aenv, mw_dump = (\<lambda>b. JNull)\<rparr>"

definition ex_user :: "pystr \<Rightarrow> msg" where
  "ex_user b = \<lparr>m_role = u ''user'', m_name = b, m_calls = [], m_results = [], m_text = u ''a cup'', m_interrupted = False,
     m_status_error = False\<rparr>"

definition ex_tool_call :: call_block where
  "ex_tool_call = \<lparr>cb_id = u ''c1'', cb_name = u ''TaskGet'', cb_input = u ''{}''\<rparr>"

definition ex_response :: response where
  "ex_response = \<lparr>rs_blocks = [TextB (u ''done'')], rs_state = u ''success'', rs_metadata = []\<rparr>"

definition ex_turn_of :: "pystr \<Rightarrow> turn" where
  "ex_turn_of b = \<lparr>tn_snapshot = None, tn_inputs = [ex_user b], tn_start = u ''t0'',
     tn_ops = [Invoke ex_tool_call (u ''t1''), Chunk ex_tool_call (Response ex_response) (u ''t2''), Compress],
     tn_final = Some (u ''Here'', JNull), tn_end = u ''t3''\<rparr>"

lemma ex_turn_intent: "intent_from_inputs (tn_snapshot (ex_turn_of b)) (tn_inputs (ex_turn_of b)) = Some (mk_intent [] b [] [] (u ''a cup''))"
  by (simp add: intent_from_inputs_def Let_def ex_turn_of_def ex_user_def)

lemma mk_intent_buyer: "jget (mk_intent s b l c q) ''buyer_id'' = JStr b"
  by (simp add: mk_intent_def jget_def)

lemma ex_start: "\<exists>md1. reply_start ex_menv None [ex_user b] now [] = (None, md1)"
proof -
  obtain c where "reduce_l4 (mw_reduce ex_menv) (intent_of (mk_intent [] b [] [] (u ''a cup''))) [] now empty_context = Inr c"
    using reduce_Inr by blast
  then show ?thesis using ex_turn_intent [of b]
    by (simp add: reply_start_def Let_def ex_turn_of_def namespace_def dict_get_def jget_def context_from_dict_def)
      (simp add: empty_context_def)
qed


theorem session_owner_fixed_witness:
  "\<exists>md' files' md''. mw_turns ex_menv [ex_turn_of (u ''ann''), ex_turn_of (u ''bob''), ex_turn_of (u ''ann'')] ([], Map.empty) = (md', files') \<and>
     mw_turn ex_menv (ex_turn_of (u ''bob'')) (md', files') = (Some (RuntimeError ''ContextOwnershipError''), md'', files')"
proof -
  obtain md' files' where "mw_turns ex_menv [ex_turn_of (u ''ann''), ex_turn_of (u ''bob''), ex_turn_of (u ''ann'')] ([], Map.empty) = (md', files')"
    by fastforce
  moreover have "dict_get (namespace []) ''session_context'' = JNull" by (simp add: namespace_def dict_get_def jget_def)
  moreover have "u ''bob'' \<noteq> take 512 (u ''ann'')" by (simp add: u_def)
  ultimately show ?thesis
    using session_owner_fixed [OF ex_turn_intent mk_intent_buyer _ _ _ ex_turn_intent mk_intent_buyer, of "u ''ann''" "[]" ex_menv]
    by (metis u_empty_iff list.distinct(1))
qed

theorem tool_output_kept_witness:
  "\<exists>rs' md' files' ref. act_response ex_menv ex_tool_call ex_response (u ''t2'') [] Map.empty = (Inr rs', md', files') \<and>
     artifact_read Tool_Output.ex_env ref files' = Inr (u ''done'')"
proof -
  have env: "mw_artifact ex_menv = Tool_Output.ex_env" by (simp add: ex_menv_def)
  have raw: "raw_tool_response ex_menv (rs_blocks ex_response) = u ''done''" by (simp add: raw_tool_response_def ex_response_def)
  have "is_ok (fst (act_response ex_menv ex_tool_call ex_response (u ''t2'') [] Map.empty))" by code_simp
  then obtain rs' md' files' where r: "act_response ex_menv ex_tool_call ex_response (u ''t2'') [] Map.empty = (Inr rs', md', files')"
    by (auto simp: is_ok_iff prod_eq_iff)
  have "digest_ok Tool_Output.ex_env (encode Tool_Output.ex_env (u ''done''))"
    by (simp add: digest_ok_def Tool_Output.ex_env_def hex_chars_def u_def list_all_iff)
  moreover have "decode Tool_Output.ex_env (encode Tool_Output.ex_env t) = Inr t" for t by (simp add: Tool_Output.ex_env_def)
  ultimately show ?thesis using tool_output_kept [OF r] r unfolding env raw by auto
qed

definition ex_input :: model_input where
  "ex_input = \<lparr>mi_messages = ex_messages, mi_context = ex_messages, mi_tools = JNull, mi_unfinished = False, mi_awaiting = False,
     mi_model = Some (\<lambda>view tools. Inr (int (length view)), False)\<rparr>"

theorem enforced_budget_witness:
  "\<exists>view attrs md'. on_model_call ex_menv (u ''Main'') (u ''2026'') (ex_input\<lparr>mi_model := Some (\<lambda>v t. Inr 7, False)\<rparr>) [] = (Inr (view, attrs), md') \<and>
     jget (dict_get (namespace md') ''budget_report'') ''provider_input_tokens'' = JInt 7"
proof -
  let ?mi = "ex_input\<lparr>mi_model := Some (\<lambda>v t. Inr 7, False)\<rparr>"
  have n: "namespace [] = []" by (simp add: namespace_def dict_get_def jget_def)
  have env: "mw_assembly ex_menv = ex_aenv" "mode_name (mw_policy ex_menv) = u ''enforce''" "l2_hot_turns (mw_policy ex_menv) = 1"
    by (simp_all add: ex_menv_def default_policy_def)
  obtain ns view where a: "advance_context_state ex_aenv (summarize_frozen_segments (as_senv ex_aenv)) (u ''2026'') ex_messages []
     (take (length (mi_messages ?mi) - length (mi_context ?mi)) (mi_messages ?mi)) (or_list (mi_tools ?mi)) (mw_policy ex_menv) False False = Inr (ns, view)"
    using ex_advance_with [OF env(3)] by metis
  obtain rep stage where r: "dict_get ns ''budget_report'' = JObj (budget_report_with_cache_prefix (as_senv ex_aenv) rep view @ stage_budget stage)"
    using advance_report [OF a] by blast
  have avail: "\<not> available_tokens (mw_policy ex_menv) < 7" by (simp add: available_tokens_def ex_menv_def default_policy_def)
  have t: "truthy (provider_report m est v)" for m est v
    by (simp add: provider_report_def)
  from breakdown_total [OF r, of "mw_reduce ex_menv" "u ''Main''" 7 False] obtain attrs where
    "prompt_breakdown (mw_reduce ex_menv) (provider_report 7 False (dict_get ns ''budget_report'')) (u ''Main'') = Inr attrs" by (auto simp: is_ok_iff)
  then have "\<exists>md'. on_model_call ex_menv (u ''Main'') (u ''2026'') ?mi [] = (Inr (view, attrs), md')"
    using a avail by (simp add: on_model_call_def Let_def n env ex_input_def get_update t)
  then obtain md' where m: "on_model_call ex_menv (u ''Main'') (u ''2026'') ?mi [] = (Inr (view, attrs), md')" ..
  from enforced_budget [OF m _ env(2)] m show ?thesis by (auto simp: ex_input_def)
qed

end
