(* ===== verification/Json_Print.thy ===== *)
theory Json_Print
  imports Json_Parse
begin

text \<open>
  \<open>json.dumps\<close> with sorted keys, compact (\<open>dumps\<close>) and with an indentation of two, and that \<open>json.loads\<close> reads
  both back as the value with its keys sorted; and the UTF-8 codec of the standard library.
\<close>

section \<open>Sorted keys\<close>

fun sort_json :: "json \<Rightarrow> json" where
  "sort_json (JList l) = JList (map sort_json l)"
| "sort_json (JObj d) = JObj (sort_key fst (map (\<lambda>(k, v). (k, sort_json v)) d))"
| "sort_json v = v"

lemma insort_map: "insort_key fst (k, f v) (map (\<lambda>(k, v). (k, f v)) d) = map (\<lambda>(k, v). (k, f v)) (insort_key fst (k, v) d)"
  by (induction d) auto

lemma sort_map: "sort_key fst (map (\<lambda>(k, v). (k, f v)) d) = map (\<lambda>(k, v). (k, f v)) (sort_key fst d)"
  by (induction d) (auto simp: insort_map)

lemma distinct_sort_fst: "distinct (map fst d) \<Longrightarrow> distinct (map fst (sort_key fst d))"
  by (simp add: distinct_map)

lemma map_of_sort:
  assumes "distinct (map fst d)"
  shows "map_of (sort_key fst d) = map_of d"
proof
  fix k
  show "map_of (sort_key fst d) k = map_of d k"
  proof (cases "map_of d k")
    case None
    then have "k \<notin> fst ` set (sort_key fst d)" by (simp add: map_of_eq_None_iff)
    with None show ?thesis by (simp add: map_of_eq_None_iff [THEN iffD2])
  next
    case (Some v)
    then have "(k, v) \<in> set (sort_key fst d)" by (simp add: map_of_SomeD)
    with distinct_sort_fst [OF assms] Some show ?thesis by (simp add: map_of_is_SomeI)
  qed
qed

lemma map_of_map_snd: "map_of (map (\<lambda>(k, v). (k, f v)) d) k = map_option f (map_of d k)"
  by (induction d) auto

lemma jget_sort: "json_ok v \<Longrightarrow> jget (sort_json v) k = sort_json (jget v k)"
proof (cases v)
  case (JObj d)
  assume "json_ok v"
  then have "distinct (map fst (map (\<lambda>(k, v). (k, sort_json v)) d))" using JObj by (simp add: comp_def case_prod_unfold)
  then show ?thesis by (simp add: JObj jget_def map_of_sort map_of_map_snd split: option.split)
qed (simp_all add: jget_def)

section \<open>Reading back what is printed with sorted keys\<close>

lemma reads_sorted_fields:
  assumes "\<And>k v. (k, v) \<in> set d \<Longrightarrow> reads sk pf (f v) (sort_json v)"
  shows "list_all2 (reads_field sk pf) (sort_key fst (map (\<lambda>(k, v). (k, f v)) d)) (sort_key fst (map (\<lambda>(k, v). (k, sort_json v)) d))"
proof -
  have "list_all2 (reads_field sk pf) (map (\<lambda>(k, v). (k, f v)) xs) (map (\<lambda>(k, v). (k, sort_json v)) xs)" if "set xs \<subseteq> set d" for xs
    using that assms by (induction xs) auto
  then show ?thesis unfolding sort_map by simp
qed

lemma distinct_sorted_fields: "distinct (map fst d) \<Longrightarrow> distinct (map fst (sort_key fst (map (\<lambda>(k, v). (k, f v)) d)))"
  using distinct_sort_fst [of d] unfolding sort_map by (simp add: comp_def case_prod_unfold)

lemma sort_key_Nil [simp]: "sort_key f xs = [] \<longleftrightarrow> xs = []"
  by (metis length_sort length_0_conv)

lemma reads_dumps_sorted: "float_law pf ft \<Longrightarrow> json_ok v \<Longrightarrow> reads sk pf (dumps ft v) (sort_json v)"
proof (induction ft v rule: dumps.induct)
  case (6 ft l)
  then have "list_all2 (reads sk pf) (map (dumps ft) l) (map sort_json l)" by (auto simp: list_all2_conv_all_nth list_all_length)
  from reads_list [OF this, of "[]" "[]" "[]"] reads_empty(1) show ?case by (cases "l = []") simp_all
next
  case (7 ft d)
  have "reads sk pf (dumps ft v) (sort_json v)" if "(k, v) \<in> set d" for k v
    using 7(1) [OF that _ 7(2), of k v] that 7(3) by (auto simp: list_all_iff)
  from reads_obj [where ?w0.0 = "[]" and w = "[]" and ?w2.0 = "[]" and ?w3.0 = "[]", OF reads_sorted_fields [OF this] _ distinct_sorted_fields] 7(3) reads_empty(2)
  show ?case by (cases "d = []") (simp_all add: field_texts)
qed (simp_all only: dumps.simps sort_json.simps reads_words reads_int reads_float reads_text)

definition nl :: "nat \<Rightarrow> pystr" where "nl n = 10 # replicate (2 * n) 32"

fun dumps_indent :: "(rat \<Rightarrow> pystr) \<Rightarrow> nat \<Rightarrow> json \<Rightarrow> pystr" where
  "dumps_indent ft n JNull = u ''null''"
| "dumps_indent ft n (JBool b) = (if b then u ''true'' else u ''false'')"
| "dumps_indent ft n (JInt i) = dec_int i"
| "dumps_indent ft n (JFloat r) = ft r"
| "dumps_indent ft n (JStr s) = quoted s"
| "dumps_indent ft n (JList l) = (if l = [] then [91, 93]
     else 91 # nl (n + 1) @ join (44 # nl (n + 1)) (map (dumps_indent ft (n + 1)) l) @ nl n @ [93])"
| "dumps_indent ft n (JObj d) = (if d = [] then [123, 125]
     else 123 # nl (n + 1) @ join (44 # nl (n + 1)) (map (field_text [32])
        (sort_key fst (map (\<lambda>(k, v). (k, dumps_indent ft (n + 1) v)) d))) @ nl n @ [125])"

lemma spaces_nl [simp]: "spaces (nl n)"
  by (simp add: nl_def json_space_def spaces_def list_all_iff)

lemma reads_dumps_indent: "float_law pf ft \<Longrightarrow> json_ok v \<Longrightarrow> reads sk pf (dumps_indent ft n v) (sort_json v)"
proof (induction ft n v rule: dumps_indent.induct)
  case (6 ft n l)
  have "reads sk pf (dumps_indent ft (n + 1) v) (sort_json v)" if "v \<in> set l" for v
  proof -
    have "l \<noteq> []" using that by auto
    from 6(1) [OF this that 6(2)] that 6(3) show ?thesis by (simp add: list_all_iff)
  qed
  then have "list_all2 (reads sk pf) (map (dumps_indent ft (n + 1)) l) (map sort_json l)" by (simp add: list_all2_conv_all_nth)
  from reads_list [OF this, of "nl (n + 1)" "nl (n + 1)" "nl n"] reads_empty(1) show ?case by (cases "l = []") simp_all
next
  case (7 ft n d)
  have "reads sk pf (dumps_indent ft (n + 1) v) (sort_json v)" if "(k, v) \<in> set d" for k v
  proof -
    have "d \<noteq> []" using that by auto
    from 7(1) [OF this that _ 7(2), of k v] that 7(3) show ?thesis by (auto simp: list_all_iff)
  qed
  from reads_obj [where ?w0.0 = "nl (n + 1)" and w = "nl (n + 1)" and ?w2.0 = "nl n" and ?w3.0 = "[32]", OF reads_sorted_fields [OF this] _ distinct_sorted_fields] 7(3) reads_empty(2)
  show ?case by (cases "d = []") (simp_all add: json_space_def)
qed (simp_all only: dumps_indent.simps sort_json.simps reads_words reads_int reads_float reads_text)

section \<open>UTF-8\<close>

text \<open>What can be encoded: the code points without the surrogates.\<close>

definition scalar :: "int \<Rightarrow> bool" where
  "scalar c \<longleftrightarrow> 0 \<le> c \<and> c < 0x110000 \<and> \<not> (0xD800 \<le> c \<and> c < 0xE000)"

definition utf8_char :: "int \<Rightarrow> int list" where
  "utf8_char c =
     (if c < 0x80 then [c]
      else if c < 0x800 then [0xC0 + c div 64, 0x80 + c mod 64]
      else if c < 0x10000 then [0xE0 + c div 4096, 0x80 + c div 64 mod 64, 0x80 + c mod 64]
      else [0xF0 + c div 262144, 0x80 + c div 4096 mod 64, 0x80 + c div 64 mod 64, 0x80 + c mod 64])"

definition utf8_encode :: "pystr \<Rightarrow> int list result" where
  "utf8_encode s = (if list_all scalar s then Inr (concat (map utf8_char s)) else Inl (ValueError ''UnicodeEncodeError''))"

text \<open>One character and what follows it: the bytes announced by the first one must be the encoding of the character
  they stand for, so overlong forms and surrogates are refused.\<close>

definition utf8_width :: "int \<Rightarrow> nat" where
  "utf8_width b = (if b < 0x80 then 0 else if b < 0xE0 then 1 else if b < 0xF0 then 2 else 3)"

definition utf8_value :: "int \<Rightarrow> int list \<Rightarrow> int" where
  "utf8_value b r = foldl (\<lambda>a x. 64 * a + (x - 0x80))
     (if b < 0x80 then b else if b < 0xE0 then b - 0xC0 else if b < 0xF0 then b - 0xE0 else b - 0xF0) r"

definition take_utf8 :: "int list \<Rightarrow> (int \<times> int list) option" where
  "take_utf8 bs =
     (case bs of
        [] \<Rightarrow> None
      | b # r \<Rightarrow>
          (let n = utf8_width b; c = utf8_value b (take n r)
           in if scalar c \<and> utf8_char c = b # take n r then Some (c, drop n r) else None))"

lemma take_utf8_shorter: "take_utf8 bs = Some (c, r) \<Longrightarrow> length r < length bs"
  by (cases bs) (auto simp: take_utf8_def Let_def split: if_splits)

function utf8_decode :: "int list \<Rightarrow> pystr result" where
  "utf8_decode bs =
     (if bs = [] then Inr []
      else case take_utf8 bs of
             None \<Rightarrow> Inl (ValueError ''UnicodeDecodeError'')
           | Some (c, r) \<Rightarrow> andThen (utf8_decode r) (\<lambda>s. Inr (c # s)))"
  by pat_completeness auto

termination by (relation "measure length") (auto dest: take_utf8_shorter)

declare utf8_decode.simps [simp del]

lemma utf8_lead:
  assumes "scalar c"
  obtains b t where "utf8_char c = b # t" "utf8_width b = length t" "utf8_value b t = c"
proof -
  have c: "0 \<le> c" "c < 1114112" using assms by (simp_all add: scalar_def)
  have q: "64 * (c div 4096) + c div 64 mod 64 = c div 64" using zdiv_zmult2_eq [of 64 c 64] by simp
  consider "c < 128" | "128 \<le> c" "c < 2048" | "2048 \<le> c" "c < 65536" | "65536 \<le> c" by linarith
  then show thesis
  proof cases
    case 1
    with c that [of c "[]"] show ?thesis by (simp add: utf8_char_def utf8_width_def utf8_value_def)
  next
    case 2
    then have "2 \<le> c div 64" "c div 64 < 32" by linarith+
    with 2 that [of "192 + c div 64" "[128 + c mod 64]"] show ?thesis by (simp add: utf8_char_def utf8_width_def utf8_value_def)
  next
    case 3
    then have "0 \<le> c div 4096" "c div 4096 < 16" by linarith+
    with 3 q that [of "224 + c div 4096" "[128 + c div 64 mod 64, 128 + c mod 64]"] show ?thesis
      by (simp add: utf8_char_def utf8_width_def utf8_value_def)
  next
    case 4
    then have "0 \<le> c div 262144" "c div 262144 < 8" using c by linarith+
    moreover have "64 * (c div 262144) + c div 4096 mod 64 = c div 4096" using zdiv_zmult2_eq [of 64 c 4096] by simp
    ultimately show ?thesis using 4 q that [of "240 + c div 262144" "[128 + c div 4096 mod 64, 128 + c div 64 mod 64, 128 + c mod 64]"]
      by (simp add: utf8_char_def utf8_width_def utf8_value_def)
  qed
qed

lemma take_utf8_back: "scalar c \<Longrightarrow> take_utf8 (utf8_char c @ r) = Some (c, r)"
proof -
  assume c: "scalar c"
  then obtain b t where "utf8_char c = b # t" "utf8_width b = length t" "utf8_value b t = c" by (rule utf8_lead)
  with c show ?thesis by (simp add: take_utf8_def)
qed

lemma utf8_char_nonempty: "utf8_char c \<noteq> []"
  by (simp add: utf8_char_def)

lemma utf8_decode_back: "list_all scalar s \<Longrightarrow> utf8_decode (concat (map utf8_char s)) = Inr s"
proof (induction s)
  case (Cons c s)
  then show ?case using take_utf8_back [of c "concat (map utf8_char s)"] utf8_char_nonempty [of c]
    by (subst utf8_decode.simps) auto
qed (simp add: utf8_decode.simps)

lemma utf8_round_trip: "utf8_encode s = Inr bs \<Longrightarrow> utf8_decode bs = Inr s"
  by (auto simp: utf8_encode_def utf8_decode_back split: if_splits)

text \<open>A byte of ASCII stands only for itself.\<close>

lemma ascii_byte: "scalar c \<Longrightarrow> b < 128 \<Longrightarrow> b \<in> set (utf8_char c) \<longleftrightarrow> b = c"
  by (auto simp: utf8_char_def scalar_def)

end
