(* ===== verification/Catalog_Files.thy ===== *)
theory Catalog_Files
  imports Json_Print Catalog
begin

text \<open>
  The catalog on disk: the strict contract of \<open>app/catalog/product_sku_contract_v2.py\<close>, what the builder
  \<open>scripts/data/build_catalogs_v2.py\<close> writes for one partition, and the reader \<open>app/infrastructure/persistence/jsonl_product_repository.py\<close>. A tree of files is a map
  from relative paths to bytes. SHA-256, \<open>repr\<close> and \<open>float\<close>, \<open>str\<close> of values that are not text, the Unicode
  operations and decimal arithmetic are parameters.
\<close>

record files_env =
  fe_sha :: "int list \<Rightarrow> pystr"
  fe_repr :: "rat \<Rightarrow> pystr"
  fe_float :: "pystr \<Rightarrow> rat"
  fe_str :: "json \<Rightarrow> pystr"
  fe_casefold :: "pystr \<Rightarrow> pystr"
  fe_nfkc :: "pystr \<Rightarrow> pystr"
  fe_decimal :: "pystr \<Rightarrow> (rat \<times> rat) option result"

type_synonym tree = "pystr \<Rightarrow> int list option"

section \<open>The strict contract\<close>

definition v2_highlight :: "product_highlight \<Rightarrow> product_highlight result" where
  "v2_highlight h = (if blank (label h) then Inl (ValueError ''ProductHighlight.label'') else Inr h)"

definition v2_sku :: "sku \<Rightarrow> sku result" where
  "v2_sku s = (if blank (sku_id s) then Inl (ValueError ''Sku.sku_id'') else if stock s < 0 then Inl (ValueError ''Sku.stock'') else Inr s)"

definition v2_product :: "product \<Rightarrow> product result" where
  "v2_product p =
     (if list_ex blank [product_id p, title p, brand p, category p, origin_country p] then Inl (ValueError ''Product text'')
      else if list_ex blank (ships_to p) then Inl (ValueError ''Product.ships_to'')
      else if skus p = [] then Inl (ValueError ''Product.skus'') else Inr p)"

definition highlight_row :: "product_highlight \<Rightarrow> json" where
  "highlight_row h = JObj [(u ''detail'', JStr (detail h)), (u ''label'', JStr (label h))]"

definition sku_row :: "sku \<Rightarrow> json" where
  "sku_row s = JObj [(u ''price'', JObj [(u ''amount_in_minor_units'', JInt (amount_in_minor_units (price s))), (u ''currency'', JStr (currency (price s)))]),
     (u ''sku_id'', JStr (sku_id s)), (u ''spec'', JStr (sku_spec s)), (u ''stock'', JInt (stock s))]"

definition product_row :: "product \<Rightarrow> json" where
  "product_row p = JObj [(u ''brand'', JStr (brand p)), (u ''category'', JStr (category p)), (u ''description'', JStr (description p)),
     (u ''highlights'', JList (map highlight_row (highlights p))), (u ''origin_country'', JStr (origin_country p)),
     (u ''product_id'', JStr (product_id p)), (u ''ships_to'', JList (map JStr (ships_to p))), (u ''skus'', JList (map sku_row (skus p))),
     (u ''title'', JStr (title p))]"

section \<open>Writing files\<close>

definition jsonl_text :: "files_env \<Rightarrow> json list \<Rightarrow> pystr" where
  "jsonl_text env rows = concat (map (\<lambda>r. dumps (fe_repr env) r @ [10]) rows)"

definition json_file :: "files_env \<Rightarrow> json \<Rightarrow> int list result" where
  "json_file env v = utf8_encode (dumps_indent (fe_repr env) 0 v @ [10])"

definition file_metadata :: "files_env \<Rightarrow> int list \<Rightarrow> int option \<Rightarrow> pystr option \<Rightarrow> json" where
  "file_metadata env bs records rel = JObj ([(u ''bytes'', JInt (int (length bs))), (u ''sha256'', JStr (fe_sha env bs))]
     @ (case records of None \<Rightarrow> [] | Some n \<Rightarrow> [(u ''records'', JInt n)]) @ (case rel of None \<Rightarrow> [] | Some p \<Rightarrow> [(u ''path'', JStr p)]))"

definition PRODUCT_FIELDS :: "pystr list" where
  "PRODUCT_FIELDS = map u [''brand'', ''category'', ''description'', ''highlights'', ''origin_country'', ''product_id'', ''ships_to'', ''skus'', ''title'']"

definition HIGHLIGHT_FIELDS :: "pystr list" where "HIGHLIGHT_FIELDS = map u [''detail'', ''label'']"
definition SKU_ROW_FIELDS :: "pystr list" where "SKU_ROW_FIELDS = map u [''price'', ''sku_id'', ''spec'', ''stock'']"
definition MONEY_FIELDS :: "pystr list" where "MONEY_FIELDS = map u [''amount_in_minor_units'', ''currency'']"

definition same_fields :: "json \<Rightarrow> pystr list \<Rightarrow> bool" where
  "same_fields v fs \<longleftrightarrow> set (map fst (obj_items v)) = set fs"

definition validate_product_row :: "json \<Rightarrow> unit result" where
  "validate_product_row r =
     (if \<not> same_fields r PRODUCT_FIELDS \<or> \<not> Json.truthy (jget r ''skus'') then Inl (ValueError ''Product field mismatch'')
      else if list_ex (\<lambda>s. \<not> same_fields s SKU_ROW_FIELDS \<or> (case jget s ''stock'' of JInt n \<Rightarrow> n < 0 | _ \<Rightarrow> False)) (list_items (jget r ''skus''))
        then Inl (ValueError ''Sku field or stock mismatch'')
      else Inr ())"

text \<open>The global identifiers, of products and of SKUs.\<close>

fun claim_skus :: "pystr list \<Rightarrow> pystr list \<Rightarrow> pystr list result" where
  "claim_skus [] seen = Inr seen"
| "claim_skus (s # ss) seen = (if s \<in> set seen then Inl (ValueError ''duplicate global sku_id'') else claim_skus ss (s # seen))"

fun claim_products :: "(product \<Rightarrow> unit result) \<Rightarrow> product list \<Rightarrow> pystr list \<times> pystr list \<Rightarrow> (pystr list \<times> pystr list) result" where
  "claim_products chk [] ids = Inr ids"
| "claim_products chk (p # ps) ids =
     andThen (chk p) (\<lambda>_.
       if product_id p \<in> set (fst ids) then Inl (ValueError ''duplicate global product_id'')
       else andThen (claim_skus (map sku_id (skus p)) (snd ids)) (\<lambda>seen. claim_products chk ps (product_id p # fst ids, seen)))"

definition coverage_entry :: "json list \<Rightarrow> pystr \<Rightarrow> pystr \<times> json" where
  "coverage_entry rows f = (let n = length (filter (\<lambda>r. map_of (obj_items r) f \<notin> {None, Some JNull}) rows)
     in (f, JObj [(u ''non_null'', JInt (int n)), (u ''null'', JInt (int (length rows - n)))]))"

definition field_coverage :: "json list \<Rightarrow> json" where
  "field_coverage rows = JObj (map (coverage_entry rows) (sort (dedup (concat (map (\<lambda>r. map fst (obj_items r)) rows)))))"

text \<open>What a build has done so far: the files, the identifiers, the entries of the manifest, the counts and the rejections.\<close>

record build =
  bl_files :: tree
  bl_ids :: "pystr list \<times> pystr list"
  bl_partitions :: "(pystr, json) dict"
  bl_counts :: "(pystr, int) dict"
  bl_rejections :: "(pystr \<times> pystr \<times> pystr) list"

definition write_partition :: "files_env \<Rightarrow> pystr \<Rightarrow> product list \<Rightarrow> build \<Rightarrow> build result" where
  "write_partition env name sources b =
     (let ps = sort_key product_id sources; rows = map product_row ps; rel = name @ u ''/products.jsonl''; cov = name @ u ''/coverage.json''
      in andThen (claim_products (\<lambda>p. validate_product_row (product_row p)) ps (bl_ids b)) (\<lambda>ids.
         andThen (utf8_encode (jsonl_text env rows)) (\<lambda>bs.
         andThen (json_file env (JObj [(u ''products'', field_coverage rows)])) (\<lambda>cs.
           Inr (b\<lparr>bl_files := (bl_files b)(rel \<mapsto> bs, cov \<mapsto> cs), bl_ids := ids,
                bl_partitions := AList.update name (JObj [(u ''products'', file_metadata env bs (Some (int (length rows))) (Some rel)),
                  (u ''coverage'', file_metadata env cs None (Some cov))]) (bl_partitions b)\<rparr>)))))"

section \<open>Reading files\<close>

definition need_fields :: "json \<Rightarrow> pystr list \<Rightarrow> unit result" where
  "need_fields v fs = (if same_fields v fs then Inr () else Inl (ValueError ''fields''))"

definition need_text :: "json \<Rightarrow> pystr result" where
  "need_text v = (case v of JStr s \<Rightarrow> Inr s | _ \<Rightarrow> Inl (TypeError ''string''))"

definition required_text :: "json \<Rightarrow> pystr result" where
  "required_text v = andThen (need_text v) (\<lambda>s. if blank s then Inl (ValueError ''non-empty string'') else Inr s)"

definition strict_nat :: "json \<Rightarrow> int result" where
  "strict_nat v = (case v of JInt n \<Rightarrow> if n < 0 then Inl (ValueError ''non-negative integer'') else Inr n | _ \<Rightarrow> Inl (ValueError ''non-negative integer''))"

definition need_list :: "json \<Rightarrow> json list result" where
  "need_list v = (case v of JList l \<Rightarrow> Inr l | _ \<Rightarrow> Inl (TypeError ''list''))"

definition need_obj :: "json \<Rightarrow> unit result" where
  "need_obj v = (if is_obj v then Inr () else Inl (TypeError ''object''))"

definition restore_highlight :: "json \<Rightarrow> product_highlight result" where
  "restore_highlight v =
     andThen (need_obj v) (\<lambda>_. andThen (need_fields v HIGHLIGHT_FIELDS) (\<lambda>_.
     andThen (required_text (jget v ''label'')) (\<lambda>l. andThen (need_text (jget v ''detail'')) (\<lambda>d.
       Inr \<lparr>label = l, detail = d\<rparr>))))"

definition restore_sku :: "json \<Rightarrow> sku result" where
  "restore_sku v =
     (let p = jget v ''price''
      in andThen (need_obj v) (\<lambda>_. andThen (need_fields v SKU_ROW_FIELDS) (\<lambda>_.
         andThen (need_obj p) (\<lambda>_. andThen (need_fields p MONEY_FIELDS) (\<lambda>_.
         andThen (strict_nat (jget p ''amount_in_minor_units'')) (\<lambda>amount.
         andThen (required_text (jget p ''currency'')) (\<lambda>cur.
         andThen (strict_nat (jget v ''stock'')) (\<lambda>st.
         andThen (required_text (jget v ''sku_id'')) (\<lambda>i.
         andThen (need_text (jget v ''spec'')) (\<lambda>sp.
         andThen (money_of amount cur) (\<lambda>m. mk_sku i sp m st)))))))))))"

definition restore_product :: "json \<Rightarrow> product result" where
  "restore_product r =
     andThen (need_fields r PRODUCT_FIELDS) (\<lambda>_.
     andThen (required_text (jget r ''product_id'')) (\<lambda>pid.
     andThen (required_text (jget r ''title'')) (\<lambda>t.
     andThen (required_text (jget r ''brand'')) (\<lambda>br.
     andThen (required_text (jget r ''category'')) (\<lambda>cat.
     andThen (required_text (jget r ''origin_country'')) (\<lambda>orig.
     andThen (need_text (jget r ''description'')) (\<lambda>desc.
     andThen (andThen (need_list (jget r ''highlights'')) (mapR restore_highlight)) (\<lambda>hs.
     andThen (andThen (need_list (jget r ''ships_to'')) (mapR required_text)) (\<lambda>dest.
     andThen (case jget r ''skus'' of JList l \<Rightarrow> if l = [] then Inl (ValueError ''skus'') else mapR restore_sku l
              | _ \<Rightarrow> Inl (ValueError ''skus'')) (\<lambda>ss.
       mk_product \<lparr>product_id = pid, title = t, brand = br, category = cat, origin_country = orig, description = desc,
         highlights = hs, ships_to = dest, skus = ss\<rparr>))))))))))"

text \<open>Lines end at the byte of a line feed, which they keep; \<open>bytes.strip()\<close> removes ASCII white space.\<close>

fun split_lf :: "int list \<Rightarrow> int list \<Rightarrow> int list list" where
  "split_lf cur [] = (if cur = [] then [] else [cur])"
| "split_lf cur (b # bs) = (if b = 10 then (cur @ [10]) # split_lf [] bs else split_lf (cur @ [b]) bs)"

definition blank_bytes :: "int list \<Rightarrow> bool" where
  "blank_bytes bs \<longleftrightarrow> list_all (\<lambda>b. 9 \<le> b \<and> b \<le> 13 \<or> b = 32) bs"

definition strict_json :: "files_env \<Rightarrow> pystr \<Rightarrow> json result" where
  "strict_json env t = (case strict_loads (fe_float env) t of None \<Rightarrow> Inl (ValueError ''invalid JSON'') | Some v \<Rightarrow> Inr v)"

definition restore_line :: "files_env \<Rightarrow> int list \<Rightarrow> product result" where
  "restore_line env bs =
     (if blank_bytes bs then Inl (ValueError ''blank JSONL record'')
      else andThen (utf8_decode bs) (\<lambda>t. andThen (strict_json env t) (\<lambda>r.
           andThen (need_obj r) (\<lambda>_. restore_product r))))"

definition hex_text :: "json \<Rightarrow> pystr result" where
  "hex_text v = (case v of JStr h \<Rightarrow> if length h = 64 \<and> list_all (\<lambda>c. c \<in> set (u ''0123456789abcdef'')) h then Inr h
       else Inl (ValueError ''sha256'') | _ \<Rightarrow> Inl (ValueError ''sha256''))"

definition load_partition :: "files_env \<Rightarrow> int list \<Rightarrow> json \<Rightarrow> product list result" where
  "load_partition env bs meta =
     andThen (strict_nat (jget meta ''bytes'')) (\<lambda>nbytes.
     andThen (strict_nat (jget meta ''records'')) (\<lambda>nrecords.
     andThen (hex_text (jget meta ''sha256'')) (\<lambda>h.
     andThen (mapR (restore_line env) (split_lf [] bs)) (\<lambda>ps.
       if int (length bs) \<noteq> nbytes then Inl (ValueError ''byte count mismatch'')
       else if fe_sha env bs \<noteq> h then Inl (ValueError ''sha256 mismatch'')
       else if int (length ps) \<noteq> nrecords then Inl (ValueError ''record count mismatch'')
       else Inr ps))))"

definition CONTRACT_VERSION :: pystr where "CONTRACT_VERSION = u ''product-sku-contract-v2''"
definition CONVERTER_VERSION :: pystr where "CONVERTER_VERSION = u ''catalog-product-sku-builder-v3-product-only''"

definition PARTITION_PRODUCT_PATHS :: "(pystr, pystr) dict" where
  "PARTITION_PRODUCT_PATHS = map (\<lambda>n. (u n, u n @ u ''/products.jsonl''))
     [''amazon/es'', ''amazon/jp'', ''amazon/us'', ''crossshop_reference'', ''reference_seed'']"

definition product_metadata :: "json \<Rightarrow> json result" where
  "product_metadata v =
     andThen (need_obj v) (\<lambda>_. andThen (need_obj (jget v ''products'')) (\<lambda>_.
     andThen (need_fields (jget v ''products'') (map u [''bytes'', ''path'', ''records'', ''sha256''])) (\<lambda>_. Inr (jget v ''products''))))"

text \<open>The loop over the partitions, and the constructor. The newline translation of the manifest's text only touches white
  space between its tokens.\<close>

fun load_partitions :: "files_env \<Rightarrow> tree \<Rightarrow> json \<Rightarrow> (pystr \<times> pystr) list \<Rightarrow> product list \<times> pystr list \<times> pystr list \<Rightarrow>
    (product list \<times> pystr list) result" where
  "load_partitions env tr parts [] (ps, ids) = Inr (ps, snd ids)"
| "load_partitions env tr parts ((name, rel) # rest) (ps, ids) =
     andThen (product_metadata (case map_of (obj_items parts) name of None \<Rightarrow> JNull | Some v \<Rightarrow> v)) (\<lambda>meta.
       if jget meta ''path'' \<noteq> JStr rel then Inl (ValueError ''unsafe or unexpected product path'')
       else (case tr rel of
               None \<Rightarrow> Inl (OtherError ''FileNotFoundError'')
             | Some bs \<Rightarrow> andThen (load_partition env bs meta) (\<lambda>loaded.
                 andThen (claim_products (\<lambda>_. Inr ()) loaded ids) (\<lambda>ids'. load_partitions env tr parts rest (ps @ loaded, ids')))))"

definition load_repository :: "files_env \<Rightarrow> tree \<Rightarrow> (product list \<times> pystr list) result" where
  "load_repository env tr =
     (case tr (u ''manifest.json'') of
        None \<Rightarrow> Inl (OtherError ''FileNotFoundError'')
      | Some bs \<Rightarrow>
          andThen (utf8_decode bs) (\<lambda>t. andThen (strict_json env t) (\<lambda>m. andThen (need_obj m) (\<lambda>_.
            if jget m ''contract_version'' \<noteq> JStr CONTRACT_VERSION \<or> jget m ''converter_version'' \<noteq> JStr CONVERTER_VERSION
              then Inl (ValueError ''version'')
            else if \<not> is_obj (jget m ''partitions'') \<or> \<not> same_fields (jget m ''partitions'') (map fst PARTITION_PRODUCT_PATHS)
              then Inl (ValueError ''manifest partitions'')
            else load_partitions env tr (jget m ''partitions'') PARTITION_PRODUCT_PATHS ([], [], [])))))"

text \<open>The queries on what was loaded.\<close>

definition repo_find :: "product list \<Rightarrow> pystr \<Rightarrow> product option" where
  "repo_find ps i = List.find (\<lambda>p. product_id p = i) ps"

definition repo_find_all :: "product list \<Rightarrow> pystr list \<Rightarrow> product list" where
  "repo_find_all ps ids = List.map_filter (repo_find ps) ids"

section \<open>What the strict contract admits\<close>

definition strict_sku :: "sku \<Rightarrow> bool" where
  "strict_sku s \<longleftrightarrow> \<not> blank (sku_id s) \<and> 0 \<le> stock s \<and> money_ok (price s)"

definition strict_product :: "product \<Rightarrow> bool" where
  "strict_product p \<longleftrightarrow> list_all (\<lambda>t. \<not> blank t) [product_id p, title p, brand p, category p, origin_country p] \<and>
     list_all (\<lambda>t. \<not> blank t) (ships_to p) \<and> list_all (\<lambda>h. \<not> blank (label h)) (highlights p) \<and>
     skus p \<noteq> [] \<and> list_all strict_sku (skus p)"

lemma strict_product_ok: "strict_product p \<Longrightarrow> product_ok p"
  by (auto simp: strict_product_def product_ok_def strict_sku_def sku_ok_def list_all_iff)

lemma jget_Obj: "jget (JObj ((k, v) # d)) f = (if u f = k then v else jget (JObj d) f)"
  by (simp add: jget_def)

lemma money_back: "money_ok m \<Longrightarrow> required_text (JStr (currency m)) = Inr (currency m)"
  by (auto simp: money_ok_def SUPPORTED_CURRENCIES_def required_text_def need_text_def u_def blank_def is_space_def)

lemma money_of_back: "money_ok m \<Longrightarrow> money_of (amount_in_minor_units m) (currency m) = Inr m"
  by (simp add: money_ok_def money_of_def)

lemma restore_highlight_row: "\<not> blank (label h) \<Longrightarrow> restore_highlight (highlight_row h) = Inr h"
  by (auto simp: restore_highlight_def highlight_row_def need_obj_def need_fields_def same_fields_def HIGHLIGHT_FIELDS_def
    jget_Obj required_text_def need_text_def)

lemma restore_sku_row: "strict_sku s \<Longrightarrow> restore_sku (sku_row s) = Inr s"
  using money_back [of "price s"] money_of_back [of "price s"]
  by (auto simp: restore_sku_def sku_row_def strict_sku_def need_obj_def need_fields_def same_fields_def SKU_ROW_FIELDS_def
    MONEY_FIELDS_def jget_Obj required_text_def need_text_def strict_nat_def mk_sku_def money_ok_def Let_def)

lemma restore_product_row:
  assumes "strict_product p"
  shows "restore_product (product_row p) = Inr p"
proof -
  have "mapR restore_highlight (map highlight_row (highlights p)) = Inr (highlights p)"
    "mapR required_text (map JStr (ships_to p)) = Inr (ships_to p)" "mapR restore_sku (map sku_row (skus p)) = Inr (skus p)"
    using assms restore_highlight_row restore_sku_row
    by (auto simp: mapR_Inr_iff list_all2_conv_all_nth strict_product_def list_all_length required_text_def need_text_def)
  with assms show ?thesis
    by (auto simp: restore_product_def product_row_def need_fields_def same_fields_def PRODUCT_FIELDS_def jget_Obj need_list_def
      required_text_def need_text_def strict_product_def mk_product_def)
qed

lemma restore_sku_strict: "restore_sku v = Inr s \<Longrightarrow> strict_sku s"
  using money_of_ok
  by (auto simp: restore_sku_def Let_def result_simps strict_sku_def required_text_def strict_nat_def split: if_splits json.splits)

lemma restore_product_strict:
  assumes "restore_product v = Inr p"
  shows "strict_product p"
proof -
  have h: "\<not> blank (label h)" if "restore_highlight w = Inr h" for w h
    using that by (auto simp: restore_highlight_def result_simps required_text_def split: if_splits)
  have r: "\<not> blank t" if "required_text w = Inr t" for w t
    using that by (auto simp: required_text_def result_simps split: if_splits)
  have m: "list_all Q ys" if "mapR f xs = Inr ys" "\<And>x y. f x = Inr y \<Longrightarrow> Q y" for f :: "json \<Rightarrow> 'x result" and xs ys Q
    using that by (auto simp: mapR_Inr_iff list_all_iff dest!: list_all2_in_right)
  obtain hs dest ss where p: "mapR restore_highlight hs = Inr (highlights p)" "mapR required_text dest = Inr (ships_to p)"
      "mapR restore_sku ss = Inr (skus p)" "skus p \<noteq> []"
      "required_text (jget v ''product_id'') = Inr (product_id p)" "required_text (jget v ''title'') = Inr (title p)"
      "required_text (jget v ''brand'') = Inr (brand p)" "required_text (jget v ''category'') = Inr (category p)"
      "required_text (jget v ''origin_country'') = Inr (origin_country p)"
  proof -
    have sk: "\<exists>ss. mapR restore_sku ss = Inr l"
      if "(case w of JList l \<Rightarrow> if l = [] then Inl e else mapR restore_sku l | _ \<Rightarrow> Inl e) = Inr l" for w l e
      using that by (auto split: json.splits if_splits)
    have mk: "p = q \<and> skus q \<noteq> []" if "mk_product q = Inr p" for q using that by (simp add: mk_product_def split: if_splits)
    show thesis
      by (rule andThen_InrE [OF assms [unfolded restore_product_def]], elim andThen_InrE, drule sk, drule mk, elim exE conjE, rule that) simp_all
  qed
  show ?thesis
    using m [OF p(1) h] m [OF p(2) r] m [OF p(3) restore_sku_strict] p(4) r [OF p(5)] r [OF p(6)] r [OF p(7)] r [OF p(8)] r [OF p(9)]
    by (simp add: strict_product_def)
qed

lemma sort_highlight_row [simp]: "sort_json (highlight_row h) = highlight_row h"
  by (simp add: highlight_row_def u_def)

lemma sort_sku_row [simp]: "sort_json (sku_row s) = sku_row s"
  by (simp add: sku_row_def u_def)

lemma sort_product_row [simp]: "sort_json (product_row p) = product_row p"
  by (simp add: product_row_def u_def comp_def)

lemma rows_ok [simp]: "json_ok (highlight_row h)" "json_ok (sku_row s)" "json_ok (product_row p)"
  by (simp_all add: highlight_row_def sku_row_def product_row_def list_all_iff)

section \<open>Lines and bytes\<close>

lemma split_lf_line: "10 \<notin> set l \<Longrightarrow> split_lf cur (l @ 10 # r) = (cur @ l @ [10]) # split_lf [] r"
  by (induction l arbitrary: cur) auto

lemma split_lf_lines: "(\<And>l. l \<in> set ls \<Longrightarrow> 10 \<notin> set l) \<Longrightarrow> split_lf [] (concat (map (\<lambda>l. l @ [10]) ls)) = map (\<lambda>l. l @ [10]) ls"
  by (induction ls) (simp_all add: split_lf_line)

fun no_floats :: "json \<Rightarrow> bool" where
  "no_floats (JFloat r) = False"
| "no_floats (JList l) = list_all no_floats l"
| "no_floats (JObj d) = list_all (\<lambda>(k, v). no_floats v) d"
| "no_floats v = True"

lemma no_newline_join: "10 \<notin> set sep \<Longrightarrow> (\<And>t. t \<in> set ts \<Longrightarrow> 10 \<notin> set t) \<Longrightarrow> 10 \<notin> set (join sep ts)"
  using set_join [of sep ts] by auto

lemma no_newline_quoted: "10 \<notin> set (quoted s)"
  using set_quoted [of "\<lambda>_. True" s] by (auto simp: list_all_iff)

lemma no_newline_dumps: "no_floats v \<Longrightarrow> 10 \<notin> set (dumps ft v)"
proof (induction ft v rule: dumps.induct)
  case (3 ft i)
  show ?case using set_dec [of "nat i"] set_dec [of "nat (- i)"] by (auto simp: dec_int_def)
next
  case (6 ft l)
  then have "10 \<notin> set (join [44] (map (dumps ft) l))" by (intro no_newline_join) (auto simp: list_all_iff)
  then show ?case by simp
next
  case (7 ft d)
  have "10 \<notin> set (dumps ft v)" if "(k, v) \<in> set d" for k v using 7(1) [OF that _, of k v] 7(2) that by (auto simp: list_all_iff)
  then have "10 \<notin> set (join [44] (map dumps_field (sort_key fst (map (\<lambda>(k, v). (k, dumps ft v)) d))))"
    using no_newline_quoted by (intro no_newline_join) (auto simp: dumps_field_def)
  then show ?case by simp
qed (auto simp: u_def no_newline_quoted)

lemma rows_no_floats: "no_floats (product_row p)"
  by (simp add: product_row_def highlight_row_def sku_row_def list_all_iff)

text \<open>A value whose texts have only scalar code points can be written.\<close>

lemma scalar_quoted: "list_all scalar s \<Longrightarrow> list_all scalar (quoted s)"
  using set_quoted [of scalar s] by (fastforce simp: list_all_iff scalar_def)

lemma scalar_join: "list_all scalar sep \<Longrightarrow> (\<And>t. t \<in> set ts \<Longrightarrow> list_all scalar t) \<Longrightarrow> list_all scalar (join sep ts)"
  using set_join [of sep ts] by (fastforce simp: list_all_iff)

lemma scalar_ascii: "0 \<le> c \<Longrightarrow> c < 128 \<Longrightarrow> scalar c"
  by (simp add: scalar_def)

lemma scalar_nl: "list_all scalar (nl n)"
  by (simp add: nl_def scalar_ascii list_all_iff)

lemma scalar_u: "list_all scalar (u s)"
proof -
  have "scalar (of_char c)" for c
  proof -
    have "(of_char c :: int) < 256" "0 \<le> (of_char c :: int)" by (cases c; simp add: of_bool_def)+
    then show ?thesis by (simp add: scalar_def)
  qed
  then show ?thesis by (simp add: u_def list_all_iff)
qed

lemma scalar_dec_int: "list_all scalar (dec_int i)"
  using set_dec [of "nat i"] set_dec [of "nat (- i)"] by (fastforce simp: dec_int_def list_all_iff scalar_def)

lemma scalar_dumps_indent: "no_floats v \<Longrightarrow> texts_ok scalar v \<Longrightarrow> list_all scalar (dumps_indent ft n v)"
proof (induction ft n v rule: dumps_indent.induct)
  case (3 ft n i)
  show ?case by (simp add: scalar_dec_int)
next
  case (6 ft n l)
  have "list_all scalar t" if "t \<in> set (map (dumps_indent ft (n + 1)) l)" for t
  proof -
    from that obtain v where v: "v \<in> set l" "t = dumps_indent ft (n + 1) v" by auto
    then have "l \<noteq> []" by auto
    from 6(1) [OF this v(1)] 6(2,3) v show ?thesis by (simp add: list_all_iff)
  qed
  then have "list_all scalar (join (44 # nl (n + 1)) (map (dumps_indent ft (n + 1)) l))"
    using scalar_nl by (intro scalar_join) (auto simp: scalar_ascii)
  then show ?case using scalar_nl by (simp add: scalar_ascii)
next
  case (7 ft n d)
  have "list_all scalar (dumps_indent ft (n + 1) v) \<and> list_all scalar k" if kv: "(k, v) \<in> set d" for k v
  proof -
    have "d \<noteq> []" using kv by auto
    from 7(1) [OF this kv _, of k v] 7(2,3) kv show ?thesis by (auto simp: list_all_iff)
  qed
  then have "list_all scalar (join (44 # nl (n + 1)) (map (field_text [32]) (sort_key fst (map (\<lambda>(k, v). (k, dumps_indent ft (n + 1) v)) d))))"
    using scalar_nl by (intro scalar_join) (auto simp: scalar_ascii field_text_def intro!: scalar_quoted)
  then show ?case using scalar_nl by (simp add: scalar_ascii)
qed (simp_all add: u_def scalar_ascii scalar_quoted)

lemma scalar_dumps: "no_floats v \<Longrightarrow> texts_ok scalar v \<Longrightarrow> list_all scalar (dumps ft v)"
proof (induction ft v rule: dumps.induct)
  case (3 ft i)
  show ?case by (simp add: scalar_dec_int)
next
  case (6 ft l)
  then have "list_all scalar (join [44] (map (dumps ft) l))" by (intro scalar_join) (auto simp: list_all_iff scalar_ascii)
  then show ?case by (simp add: scalar_ascii)
next
  case (7 ft d)
  have "list_all scalar (dumps ft v) \<and> list_all scalar k" if "(k, v) \<in> set d" for k v
    using 7(1) [OF that _, of k v] 7(2,3) that by (auto simp: list_all_iff)
  then have "list_all scalar (join [44] (map dumps_field (sort_key fst (map (\<lambda>(k, v). (k, dumps ft v)) d))))"
    by (intro scalar_join) (auto simp: scalar_ascii dumps_field_def intro!: scalar_quoted)
  then show ?case by (simp add: scalar_ascii)
qed (simp_all add: u_def scalar_ascii scalar_quoted)

lemma json_file_ok: "no_floats v \<Longrightarrow> texts_ok scalar v \<Longrightarrow> \<exists>bs. json_file env v = Inr bs"
  using scalar_dumps_indent [of v "fe_repr env" 0] by (simp add: json_file_def utf8_encode_def scalar_def)

text \<open>A printed row, as bytes, is read as the product.\<close>

abbreviation utf8 :: "pystr \<Rightarrow> int list" where "utf8 s \<equiv> concat (map utf8_char s)"

lemma utf8_no_newline: "list_all scalar s \<Longrightarrow> 10 \<notin> set s \<Longrightarrow> 10 \<notin> set (utf8 s)"
  by (auto simp: list_all_iff ascii_byte)

lemma utf8_newline: "utf8_char 10 = [10]"
  by (simp add: utf8_char_def)

lemma restore_line_row:
  assumes "float_law (fe_float env) (fe_repr env)" "list_all scalar (dumps (fe_repr env) (product_row p))" "strict_product p"
  shows "restore_line env (utf8 (dumps (fe_repr env) (product_row p)) @ [10]) = Inr p"
proof -
  let ?t = "dumps (fe_repr env) (product_row p)"
  have "utf8_decode (utf8 (?t @ [10])) = Inr (?t @ [10])"
    using assms(2) by (intro utf8_decode_back) (simp add: scalar_def)
  then have d: "utf8_decode (utf8 ?t @ [10]) = Inr (?t @ [10])" by (simp add: utf8_newline)
  have "reads True (fe_float env) ?t (product_row p)" using reads_dumps_sorted [OF assms(1), of "product_row p"] by simp
  from reads_loads [OF this, of "[10]"] have l: "strict_loads (fe_float env) (?t @ [10]) = Some (product_row p)"
    by (simp add: strict_loads_def spaces_def json_space_def)
  have "\<exists>x. ?t = 123 # x" by (simp add: product_row_def)
  then have "\<not> blank_bytes (utf8 ?t @ [10])" by (auto simp: blank_bytes_def utf8_char_def)
  then show ?thesis
    using restore_product_row [OF assms(3)] by (simp add: restore_line_def d strict_json_def l need_obj_def) (simp add: product_row_def)
qed

definition sha_law :: "files_env \<Rightarrow> bool" where
  "sha_law env \<longleftrightarrow> (\<forall>bs. hex_text (JStr (fe_sha env bs)) = Inr (fe_sha env bs))"

lemma load_written:
  assumes "float_law (fe_float env) (fe_repr env)" "sha_law env" "list_all strict_product ps"
    "utf8_encode (jsonl_text env (map product_row ps)) = Inr bs"
    "jget m ''bytes'' = JInt (int (length bs))" "jget m ''records'' = JInt (int (length ps))" "jget m ''sha256'' = JStr (fe_sha env bs)"
  shows "load_partition env bs m = Inr ps"
proof -
  let ?ts = "map (\<lambda>p. dumps (fe_repr env) (product_row p)) ps"
  from assms(4) have sc: "list_all scalar t" if "t \<in> set ?ts" for t
    using that by (auto simp: utf8_encode_def jsonl_text_def list_all_iff split: if_splits)
  have "bs = utf8 (concat (map (\<lambda>t. t @ [10]) ?ts))"
    using assms(4) by (simp add: utf8_encode_def jsonl_text_def comp_def split: if_splits)
  also have "\<dots> = concat (map (\<lambda>l. l @ [10]) (map utf8 ?ts))" by (induction ps) (simp_all add: utf8_newline)
  finally have bs: "bs = concat (map (\<lambda>l. l @ [10]) (map utf8 ?ts))" .
  have "10 \<notin> set (utf8 t)" if "t \<in> set ?ts" for t
    using that no_newline_dumps [OF rows_no_floats] by (intro utf8_no_newline sc) auto
  then have "10 \<notin> set l" if "l \<in> set (map utf8 ?ts)" for l
    using that by (auto simp del: set_concat)
  then have "split_lf [] bs = map (\<lambda>l. l @ [10]) (map utf8 ?ts)" unfolding bs by (rule split_lf_lines)
  moreover have "mapR (restore_line env) (map (\<lambda>l. l @ [10]) (map utf8 ?ts)) = Inr ps"
    using restore_line_row [OF assms(1)] sc assms(3)
    by (auto simp: mapR_Inr_iff list_all2_conv_all_nth list_all_length)
  ultimately show ?thesis
    using assms(2,5-7) by (simp add: load_partition_def strict_nat_def sha_law_def)
qed

section \<open>Global identifiers\<close>

lemma claim_skus_iff: "claim_skus ss seen = Inr r \<longleftrightarrow> distinct ss \<and> set ss \<inter> set seen = {} \<and> r = rev ss @ seen"
  by (induction ss arbitrary: seen) auto

abbreviation all_skus :: "product list \<Rightarrow> pystr list" where
  "all_skus ps \<equiv> concat (map (\<lambda>p. map sku_id (skus p)) ps)"

lemma claim_products_iff:
  "claim_products chk ps ids = Inr r \<longleftrightarrow> (\<forall>p\<in>set ps. chk p = Inr ()) \<and> distinct (map product_id ps) \<and> distinct (all_skus ps) \<and>
     product_id ` set ps \<inter> set (fst ids) = {} \<and> set (all_skus ps) \<inter> set (snd ids) = {} \<and>
     r = (rev (map product_id ps) @ fst ids, rev (all_skus ps) @ snd ids)"
proof (induction ps arbitrary: ids)
  case (Cons p ps)
  obtain a b where ab: "map sku_id (skus p) = a" "all_skus ps = b" by blast
  have e: "all_skus (p # ps) = a @ b" by (simp add: ab [symmetric])
  show ?case unfolding claim_products.simps e
    by (auto simp: result_simps Cons.IH claim_skus_iff ab simp del: set_concat set_map) (use image_iff in fastforce)+
qed auto

lemma claim_products_append: "claim_products chk (ps @ qs) ids = andThen (claim_products chk ps ids) (claim_products chk qs)"
proof (induction ps arbitrary: ids)
  case (Cons p ps)
  show ?case by (cases "chk p"; cases "claim_skus (map sku_id (skus p)) (snd ids)") (simp_all add: Cons.IH)
qed simp

text \<open>The loop of the reader, where every partition is there and can be read.\<close>

definition readable :: "files_env \<Rightarrow> tree \<Rightarrow> json \<Rightarrow> pystr \<Rightarrow> product list \<Rightarrow> bool" where
  "readable env tr parts name ps \<longleftrightarrow> (\<exists>v m bs. map_of (obj_items parts) name = Some v \<and> product_metadata v = Inr m \<and>
     jget m ''path'' = JStr (name @ u ''/products.jsonl'') \<and> tr (name @ u ''/products.jsonl'') = Some bs \<and> load_partition env bs m = Inr ps)"

lemma load_partitions_readable:
  "(\<And>n. n \<in> set ns \<Longrightarrow> readable env tr parts n (f n)) \<Longrightarrow>
   load_partitions env tr parts (map (\<lambda>n. (n, n @ u ''/products.jsonl'')) ns) (ps, ids) =
     andThen (claim_products (\<lambda>_. Inr ()) (concat (map f ns)) ids) (\<lambda>ids'. Inr (ps @ concat (map f ns), snd ids'))"
proof (induction ns arbitrary: ps ids)
  case (Cons n ns)
  from Cons.prems have "readable env tr parts n (f n)" by simp
  then obtain v m bs where r: "map_of (obj_items parts) n = Some v" "product_metadata v = Inr m" "jget m ''path'' = JStr (n @ u ''/products.jsonl'')"
      "tr (n @ u ''/products.jsonl'') = Some bs" "load_partition env bs m = Inr (f n)"
    by (auto simp: readable_def)
  show ?case
    by (cases "claim_products (\<lambda>_. Inr ()) (f n) ids") (simp_all add: r Cons claim_products_append)
qed simp

text \<open>What was loaded from any tree: distinct identifiers, strict products.\<close>

lemma load_partition_strict: "load_partition env bs m = Inr ps \<Longrightarrow> list_all strict_product ps"
  by (auto simp: load_partition_def result_simps restore_line_def mapR_Inr_iff list_all_iff
    dest!: list_all2_in_right restore_product_strict split: if_splits)

lemma load_partitions_sound:
  assumes "load_partitions env tr parts ns (ps, ids) = Inr (qs, sids)" "list_all strict_product ps"
    "claim_products (\<lambda>_. Inr ()) ps ([], []) = Inr ids"
  shows "list_all strict_product qs \<and> (\<exists>ids'. claim_products (\<lambda>_. Inr ()) qs ([], []) = Inr ids' \<and> sids = snd ids')"
  using assms
proof (induction ns arbitrary: ps ids)
  case (Cons n ns)
  obtain name rel where n: "n = (name, rel)" by force
  from Cons.prems(1) obtain loaded ids' bs m where l: "load_partition env bs m = Inr loaded"
      "claim_products (\<lambda>_. Inr ()) loaded ids = Inr ids'" "load_partitions env tr parts ns (ps @ loaded, ids') = Inr (qs, sids)"
    by (auto simp: n result_simps split: if_splits option.splits)
  show ?case
    using Cons.IH [OF l(3)] Cons.prems(2,3) l(1,2) load_partition_strict by (simp add: claim_products_append)
qed auto

lemma find_unique: "distinct (map f ps) \<Longrightarrow> p \<in> set ps \<Longrightarrow> List.find (\<lambda>q. f q = f p) ps = Some p"
  by (induction ps) (auto simp: image_iff)

end
