(* ===== verification/Catalog_Build.thy ===== *)
theory Catalog_Build
  imports Catalog_Files "HOL-Library.Product_Lexorder" "HOL-Library.Multiset"
begin

text \<open>
  The offline build of the catalog, \<open>scripts/data/build_catalogs_v2.py\<close>: staged items become strict products or
  rejections, every partition is written with its metadata, and the finished directory replaces the published one.
\<close>

section \<open>Values of a staged item\<close>

text \<open>\<open>str(v)\<close>, \<open>str(v or "")\<close> and \<open>_optional_text\<close>.\<close>

definition text_of :: "files_env \<Rightarrow> json \<Rightarrow> pystr" where
  "text_of env v = (case v of JStr s \<Rightarrow> s | JInt i \<Rightarrow> dec_int i | _ \<Rightarrow> fe_str env v)"

definition text_or :: "files_env \<Rightarrow> json \<Rightarrow> pystr \<Rightarrow> pystr" where
  "text_or env v dflt = (if Json.truthy v then text_of env v else dflt)"

definition optional_text :: "files_env \<Rightarrow> json \<Rightarrow> pystr option" where
  "optional_text env v =
     (let t = (if v = JNull \<or> v = JStr [] then [] else py_strip (text_of env v)) in if t = [] then None else Some t)"

definition or_text :: "pystr option \<Rightarrow> pystr \<Rightarrow> pystr" where
  "or_text t dflt = (case t of None \<Rightarrow> dflt | Some s \<Rightarrow> s)"

text \<open>The elements of \<open>v or []\<close>.\<close>

definition elements_of :: "json \<Rightarrow> json list result" where
  "elements_of v =
     (if \<not> Json.truthy v then Inr []
      else case v of JList l \<Rightarrow> Inr l | JObj d \<Rightarrow> Inr (map (\<lambda>kv. JStr (fst kv)) d) | JStr s \<Rightarrow> Inr (map (\<lambda>c. JStr [c]) s)
           | _ \<Rightarrow> Inl (TypeError ''not iterable''))"

definition UNKNOWN :: pystr where "UNKNOWN = [26410, 30693]"
definition DEFAULT_SPEC :: pystr where "DEFAULT_SPEC = [40664, 35748, 35268, 26684]"

definition hash_int :: "files_env \<Rightarrow> pystr \<Rightarrow> int \<Rightarrow> int result" where
  "hash_int env value m =
     andThen (utf8_encode value) (\<lambda>bs. Inr (foldl (\<lambda>a c. 16 * a + hex_value c) 0 (fe_sha env bs) mod m))"

fun shop_name :: "files_env \<Rightarrow> json list \<Rightarrow> pystr option" where
  "shop_name env [] = None"
| "shop_name env (a # as) =
     (if is_obj a \<and> fe_casefold env (text_or env (if Json.truthy (jget a ''code'') then jget a ''code'' else jget a ''name'') []) = u ''shop_name''
      then optional_text env (jget a ''value'') else shop_name env as)"

definition item_category :: "files_env \<Rightarrow> json \<Rightarrow> pystr option" where
  "item_category env v =
     (case v of
        JList l \<Rightarrow> (let vs = filter (\<lambda>t. t \<noteq> []) (map (\<lambda>x. py_strip (text_of env x)) l) in if vs = [] then None else Some (last vs))
      | _ \<Rightarrow> None)"

definition normalized_option_text :: "files_env \<Rightarrow> pystr \<Rightarrow> pystr" where
  "normalized_option_text env v = fe_casefold env (join [32] (split_ws (fe_nfkc env v)))"

definition option_display :: "files_env \<Rightarrow> json \<Rightarrow> (pystr \<times> pystr \<times> pystr) option" where
  "option_display env opt =
     (if \<not> is_obj opt then None
      else let n = optional_text env (jget opt ''name''); v = optional_text env (jget opt ''value'')
           in if n = None \<and> v = None then None
              else Some (normalized_option_text env (or_text n []), normalized_option_text env (or_text v []),
                         join [65306] (List.map_filter id [n, v])))"

definition item_spec :: "files_env \<Rightarrow> json \<Rightarrow> pystr" where
  "item_spec env options =
     join (u '' / '') (map (\<lambda>t. snd (snd t)) (sort (List.map_filter (option_display env) (list_items options))))"

text \<open>\<open>_price\<close>: the parameter is \<open>Decimal(text)\<close> with its hundredfold, \<open>None\<close> where it is not finite.\<close>

fun caught :: "exn \<Rightarrow> bool" where
  "caught (ValueError m) = True"
| "caught (TypeError m) = True"
| "caught e = (e = OtherError ''InvalidOperation'')"

definition item_price :: "files_env \<Rightarrow> json \<Rightarrow> money option result" where
  "item_price env v =
     (case fe_decimal env (text_of env v) of
        Inl e \<Rightarrow> if caught e then Inr None else Inl e
      | Inr None \<Rightarrow> Inr None
      | Inr (Some (amount, minor)) \<Rightarrow>
          if v = JNull \<or> amount \<le> 0 \<or> minor \<noteq> of_int \<lfloor>minor\<rfloor> then Inr None
          else (case money_of \<lfloor>minor\<rfloor> (u ''CNY'') of
                  Inl e \<Rightarrow> if caught e then Inr None else Inl e
                | Inr m \<Rightarrow> Inr (Some m)))"

section \<open>Conversion\<close>

definition seed_ships_to :: "files_env \<Rightarrow> pystr \<Rightarrow> pystr list result" where
  "seed_ships_to env pid =
     andThen (hash_int env pid 5) (\<lambda>h. Inr (if h = 0 then map u [''CN'', ''US'', ''JP'', ''SG''] else [u ''CN'']))"

definition convert_variant :: "files_env \<Rightarrow> json \<Rightarrow> sku option result" where
  "convert_variant env v =
     (let sid = text_or env (jget v ''variant_id'') []
      in andThen (item_price env (jget v ''price_cny'')) (\<lambda>pr.
         case pr of
           None \<Rightarrow> Inr None
         | Some m \<Rightarrow>
             if sid = [] \<or> text_or env (jget v ''price_source'') [] \<noteq> u ''observed'' then Inr None
             else andThen (if text_or env (jget v ''availability'') (u ''unknown'') = u ''unavailable'' then Inr 0
                           else andThen (hash_int env (sid @ u '':stock'') 100) (\<lambda>h. Inr (1 + h))) (\<lambda>st.
                  andThen (v2_sku \<lparr>sku_id = sid, sku_spec = item_spec env (jget v ''options''), price = m, stock = st\<rparr>) (\<lambda>s. Inr (Some s)))))"

definition convert_reference_seed :: "files_env \<Rightarrow> json \<Rightarrow> product option result" where
  "convert_reference_seed env row =
     (let pid = text_of env (jget row ''item_id'')
      in andThen (elements_of (jget row ''attributes'')) (\<lambda>as.
         andThen (elements_of (jget row ''variants'')) (\<lambda>vs.
           if list_ex (\<lambda>v. \<not> is_obj v) vs then Inl (OtherError ''AttributeError'')
           else andThen (mapR (convert_variant env) (sort_key (\<lambda>v. text_or env (jget v ''variant_id'') []) vs)) (\<lambda>ss.
             if List.map_filter id ss = [] then Inr None
             else andThen (seed_ships_to env pid) (\<lambda>dest.
               andThen (v2_product \<lparr>product_id = pid, title = text_or env (jget row ''title'') UNKNOWN,
                   brand = or_text (shop_name env as) UNKNOWN, category = or_text (item_category env (jget row ''category_path'')) UNKNOWN,
                   origin_country = u ''CN'', description = text_or env (jget row ''description'') [], highlights = [],
                   ships_to = dest, skus = List.map_filter id ss\<rparr>) (\<lambda>p. Inr (Some p)))))))"

definition LOCALE_FACTS :: "(pystr, pystr) dict" where
  "LOCALE_FACTS = [(u ''us'', u ''US''), (u ''es'', u ''ES''), (u ''jp'', u ''JP'')]"

definition convert_amazon :: "files_env \<Rightarrow> json \<Rightarrow> product result" where
  "convert_amazon env row =
     (let pid = text_of env (jget row ''item_id''); sid = pid @ u '':default''
      in case map_of LOCALE_FACTS (text_of env (jget row ''locale'')) of
           None \<Rightarrow> Inl (KeyError ''locale'')
         | Some origin \<Rightarrow>
             andThen (hash_int env (pid @ u '':price'') 195001) (\<lambda>h.
             andThen (money_of (5000 + h) (u ''CNY'')) (\<lambda>m.
             andThen (hash_int env (sid @ u '':stock'') 101) (\<lambda>st.
             andThen (v2_sku \<lparr>sku_id = sid, sku_spec = DEFAULT_SPEC, price = m, stock = st\<rparr>) (\<lambda>s.
               v2_product \<lparr>product_id = pid, title = text_or env (jget row ''title'') UNKNOWN,
                 brand = or_text (optional_text env (jget row ''brand'')) UNKNOWN, category = UNKNOWN, origin_country = origin,
                 description = text_or env (jget row ''description'') [], highlights = [], ships_to = [origin, u ''CN''], skus = [s]\<rparr>)))))"

text \<open>The products of \<open>build_seed_products()\<close>, rebuilt as objects of the contract.\<close>

definition reference_sku :: "sku \<Rightarrow> sku result" where
  "reference_sku s = andThen (money_of (amount_in_minor_units (price s)) (currency (price s))) (\<lambda>m.
     v2_sku \<lparr>sku_id = sku_id s, sku_spec = sku_spec s, price = m, stock = stock s\<rparr>)"

definition reference_product :: "product \<Rightarrow> product result" where
  "reference_product p = andThen (mapR v2_highlight (highlights p)) (\<lambda>hs. andThen (mapR reference_sku (skus p)) (\<lambda>ss.
     v2_product (p\<lparr>highlights := hs, skus := ss\<rparr>)))"

section \<open>Staged partitions\<close>

definition SOURCE_ITEM_FIELDS :: "pystr list" where
  "SOURCE_ITEM_FIELDS = map u [''attributes'', ''availability'', ''brand'', ''category_path'', ''currency_raw'', ''description'',
     ''ingested_at'', ''item_id'', ''language'', ''locale'', ''materials'', ''original_price_cny'', ''platform'', ''price_cny'',
     ''price_source'', ''provenance'', ''rating'', ''review_count'', ''same_group_id'', ''ships_to'', ''source_updated_at'',
     ''title'', ''url'', ''variants'']"

text \<open>A file opened as text: \<open>\r\n\<close> and \<open>\r\<close> are read as \<open>\n\<close>.\<close>

fun universal_newlines :: "bool \<Rightarrow> pystr \<Rightarrow> pystr" where
  "universal_newlines cr [] = []"
| "universal_newlines cr (c # s) =
     (if c = 13 then 10 # universal_newlines True s else if c = 10 \<and> cr then universal_newlines False s
      else c # universal_newlines False s)"

definition validate_source_row :: "files_env \<Rightarrow> pystr \<Rightarrow> pystr \<Rightarrow> json \<Rightarrow> json result" where
  "validate_source_row env platform locale row =
     (if \<not> is_obj row then Inl (ValueError ''JSON object required'')
      else if \<not> same_fields row SOURCE_ITEM_FIELDS then Inl (ValueError ''source item field mismatch'')
      else if jget row ''platform'' \<noteq> JStr platform \<or> jget row ''locale'' \<noteq> JStr locale then Inl (ValueError ''partition identity mismatch'')
      else if \<not> startswith (text_or env (jget row ''item_id'') []) (platform @ [58] @ locale @ [58])
        then Inl (ValueError ''partition item_id prefix mismatch'')
      else Inr row)"

definition source_rows :: "files_env \<Rightarrow> pystr \<Rightarrow> pystr \<Rightarrow> int list \<Rightarrow> json list result" where
  "source_rows env platform locale bs =
     andThen (utf8_decode bs) (\<lambda>t.
       mapR (\<lambda>line. case loads (fe_float env) line of
               None \<Rightarrow> Inl (ValueError ''JSONDecodeError'') | Some v \<Rightarrow> validate_source_row env platform locale v)
         (filter (\<lambda>line. \<not> blank line) (split_lf [] (universal_newlines False t))))"

definition partition_key :: "pystr \<Rightarrow> pystr \<Rightarrow> pystr" where
  "partition_key platform locale = (if platform = u ''reference_seed'' then platform else platform @ [47] @ locale)"

definition source_path :: "pystr \<Rightarrow> pystr \<Rightarrow> pystr" where
  "source_path platform locale = platform @ [47] @ locale @ u ''/items.jsonl''"

definition convert_row :: "files_env \<Rightarrow> pystr \<Rightarrow> json \<Rightarrow> product option result" where
  "convert_row env platform row =
     (if platform = u ''reference_seed'' then convert_reference_seed env row
      else andThen (convert_amazon env row) (\<lambda>p. Inr (Some p)))"

text \<open>The rows of a partition, each with its product or none, and from them the rejections.\<close>

definition converted_rows :: "files_env \<Rightarrow> tree \<Rightarrow> pystr \<times> pystr \<Rightarrow> (json \<times> product option) list result" where
  "converted_rows env src part =
     (case src (source_path (fst part) (snd part)) of
        None \<Rightarrow> Inl (OtherError ''FileNotFoundError'')
      | Some bs \<Rightarrow> andThen (source_rows env (fst part) (snd part) bs) (\<lambda>rows.
          andThen (mapR (convert_row env (fst part)) rows) (\<lambda>ps. Inr (zip rows ps))))"

definition rejections_of :: "files_env \<Rightarrow> pystr \<times> pystr \<Rightarrow> (json \<times> product option) list \<Rightarrow> (pystr \<times> pystr \<times> pystr) list" where
  "rejections_of env part rows =
     map (\<lambda>rp. (fst part, snd part, text_or env (jget (fst rp) ''item_id'') [])) (filter (\<lambda>rp. snd rp = None) rows)"

definition rejection_row :: "pystr \<times> pystr \<times> pystr \<Rightarrow> json" where
  "rejection_row r = JObj [(u ''platform'', JStr (fst r)), (u ''locale'', JStr (fst (snd r))), (u ''product_id'', JStr (snd (snd r))),
     (u ''reason'', JStr (u ''no_priced_sku''))]"

section \<open>The build\<close>

definition add_counts :: "pystr \<Rightarrow> product list \<Rightarrow> (pystr, int) dict \<Rightarrow> (pystr, int) dict" where
  "add_counts key ps d = AList.update (key @ u ''_skus'') (int (sum_list (map (\<lambda>p. length (skus p)) ps)))
     (AList.update (key @ u ''_products'') (int (length ps)) d)"

definition build_source :: "files_env \<Rightarrow> tree \<Rightarrow> pystr \<times> pystr \<Rightarrow> build \<Rightarrow> build result" where
  "build_source env src part b =
     andThen (converted_rows env src part) (\<lambda>rows.
       let ps = List.map_filter snd rows; key = partition_key (fst part) (snd part)
       in andThen (write_partition env key ps (b\<lparr>bl_rejections := bl_rejections b @ rejections_of env part rows\<rparr>)) (\<lambda>b1.
          let counts = add_counts key ps (bl_counts b1)
          in Inr (b1\<lparr>bl_counts := if length ps \<noteq> length rows then AList.update (key @ u ''_rejected'') (int (length rows - length ps)) counts
                     else counts\<rparr>)))"

fun build_sources :: "files_env \<Rightarrow> tree \<Rightarrow> (pystr \<times> pystr) list \<Rightarrow> build \<Rightarrow> build result" where
  "build_sources env src [] b = Inr b"
| "build_sources env src (part # parts) b = andThen (build_source env src part b) (build_sources env src parts)"

definition SOURCE_PARTS :: "(pystr \<times> pystr) list" where
  "SOURCE_PARTS = [(u ''reference_seed'', u ''cn''), (u ''amazon'', u ''us''), (u ''amazon'', u ''es''), (u ''amazon'', u ''jp'')]"

definition jtexts :: "(string \<times> string) list \<Rightarrow> json" where
  "jtexts d = JObj (map (\<lambda>(k, v). (u k, JStr (u v))) d)"

definition locale_rule :: "string \<Rightarrow> json" where
  "locale_rule origin = JObj [(u ''origin_country'', JStr (u origin)), (u ''ships_to'', JList [JStr (u origin), JStr (u ''CN'')])]"

definition RULES :: json where
  "RULES = JObj
     [(u ''reference_seed'', jtexts [(''brand'', ''attributes.shop_name''), (''category'', ''category_path[-1]''), (''origin_country'', ''CN''),
         (''ships_to'', ''all CN; sha256(product_id) bucket 0/5 adds US,JP,SG''),
         (''stock'', ''unavailable -> 0; otherwise sha256(sku_id + '' @ [CHR 0x27] @ '':stock'' @ [CHR 0x27] @ '') % 100 + 1'')]),
      (u ''amazon'', JObj
         [(u ''sku'', JStr (u ''one per item: product_id + '' @ [39] @ u '':default'' @ [39] @ u '', spec='' @ [39] @ DEFAULT_SPEC @ [39])),
          (u ''brand_missing'', JStr UNKNOWN), (u ''category'', JStr UNKNOWN),
          (u ''price_cny'', JStr (u ''persisted stable 50.00..2000.00 CNY'')), (u ''stock'', JStr (u ''persisted stable 0..100'')),
          (u ''locale_facts'', JObj [(u ''us'', locale_rule ''US''), (u ''es'', locale_rule ''ES''), (u ''jp'', locale_rule ''JP'')])]),
      (u ''reference'', JStr (u ''V2 seed Product/Sku values preserved''))]"

definition source_entry :: "files_env \<Rightarrow> tree \<Rightarrow> pystr \<times> pystr \<Rightarrow> pystr \<times> json" where
  "source_entry env src part = (fst part @ [58] @ snd part,
     case src (source_path (fst part) (snd part)) of
       None \<Rightarrow> JNull | Some bs \<Rightarrow> file_metadata env bs None (Some (source_path (fst part) (snd part))))"

definition manifest_of :: "files_env \<Rightarrow> tree \<Rightarrow> int list \<Rightarrow> build \<Rightarrow> int list \<Rightarrow> json" where
  "manifest_of env src seed_file b rej = JObj
     [(u ''contract_version'', JStr CONTRACT_VERSION), (u ''converter_version'', JStr CONVERTER_VERSION),
      (u ''counts'', JObj (sort_key fst (map (\<lambda>(k, n). (k, JInt n)) (bl_counts b)))),
      (u ''partitions'', JObj (bl_partitions b)),
      (u ''rejections'', file_metadata env rej (Some (int (length (bl_rejections b)))) None),
      (u ''rules'', RULES),
      (u ''source_partitions'', JObj (map (source_entry env src) (sort SOURCE_PARTS))),
      (u ''reference_source'', file_metadata env seed_file None (Some (u ''app/infrastructure/persistence/seed_products.py'')))]"

definition empty_build :: build where
  "empty_build = \<lparr>bl_files = Map.empty, bl_ids = ([], []), bl_partitions = [], bl_counts = [], bl_rejections = []\<rparr>"

text \<open>\<open>_build_into\<close>: the files of the temporary directory and the manifest, which is written last.\<close>

definition build_files :: "files_env \<Rightarrow> tree \<Rightarrow> product list \<Rightarrow> int list \<Rightarrow> (tree \<times> json) result" where
  "build_files env src seed seed_file =
     andThen (mapR reference_product seed) (\<lambda>refs.
     andThen (write_partition env (u ''crossshop_reference'') refs empty_build) (\<lambda>b0.
     andThen (build_sources env src SOURCE_PARTS (b0\<lparr>bl_counts := add_counts (u ''crossshop_reference'') refs (bl_counts b0)\<rparr>)) (\<lambda>b.
     andThen (utf8_encode (jsonl_text env (map rejection_row (sort (bl_rejections b))))) (\<lambda>rej.
       let counts = AList.update (u ''rejected_records'') (int (length (bl_rejections b)))
             (AList.update (u ''partitions'') (int (length (bl_partitions b))) (bl_counts b))
       in Inr ((bl_files b)(u ''rejections.jsonl'' \<mapsto> rej), manifest_of env src seed_file (b\<lparr>bl_counts := counts\<rparr>) rej)))))"

definition build_into :: "files_env \<Rightarrow> tree \<Rightarrow> product list \<Rightarrow> int list \<Rightarrow> (tree \<times> json) result" where
  "build_into env src seed seed_file =
     andThen (build_files env src seed seed_file) (\<lambda>(files, m).
     andThen (json_file env m) (\<lambda>ms. Inr (files(u ''manifest.json'' \<mapsto> ms), m)))"

section \<open>Publication\<close>

text \<open>
  The directories involved: the published one, the backup beside it and the temporary one. An operation of the file
  system either completes or fails; a removal that fails leaves some part of the directory.
\<close>

datatype outcome = Done | Failed tree

record dirs =
  d_output :: "tree option"
  d_backup :: "tree option"
  d_temporary :: "tree option"

fun next_outcome :: "outcome list \<Rightarrow> outcome \<times> outcome list" where
  "next_outcome [] = (Done, [])"
| "next_outcome (x # xs) = (x, xs)"

text \<open>\<open>shutil.rmtree(backup)\<close> where the backup exists.\<close>

definition remove_backup :: "dirs \<Rightarrow> outcome list \<Rightarrow> dirs \<times> unit result \<times> outcome list" where
  "remove_backup d os =
     (if d_backup d = None then (d, Inr (), os)
      else case next_outcome os of
             (Done, os') \<Rightarrow> (d\<lparr>d_backup := None\<rparr>, Inr (), os')
           | (Failed part, os') \<Rightarrow> (d\<lparr>d_backup := Some part\<rparr>, Inl (OtherError ''OSError''), os'))"

text \<open>The handler of a failed rename: the backup goes back where nothing is published.\<close>

definition restore_backup :: "bool \<Rightarrow> dirs \<Rightarrow> outcome list \<Rightarrow> dirs" where
  "restore_backup moved d os =
     (if moved \<and> d_backup d \<noteq> None \<and> d_output d = None
      then (case next_outcome os of (Done, _) \<Rightarrow> d\<lparr>d_output := d_backup d, d_backup := None\<rparr> | (Failed _, _) \<Rightarrow> d)
      else d)"

definition rename_in :: "bool \<Rightarrow> dirs \<Rightarrow> outcome list \<Rightarrow> dirs \<times> unit result \<times> outcome list" where
  "rename_in moved d os =
     (case next_outcome os of
        (Done, os') \<Rightarrow> (d\<lparr>d_output := d_temporary d, d_temporary := None\<rparr>, Inr (), os')
      | (Failed _, os') \<Rightarrow> (restore_backup moved d os', Inl (OtherError ''OSError''), os'))"

definition swap_in :: "dirs \<Rightarrow> outcome list \<Rightarrow> dirs \<times> unit result \<times> outcome list" where
  "swap_in d os =
     (if d_output d = None then rename_in False d os
      else case next_outcome os of
             (Failed _, os') \<Rightarrow> (restore_backup False d os', Inl (OtherError ''OSError''), os')
           | (Done, os') \<Rightarrow> rename_in True (d\<lparr>d_backup := d_output d, d_output := None\<rparr>) os')"

definition publish :: "dirs \<Rightarrow> outcome list \<Rightarrow> dirs \<times> unit result" where
  "publish d os =
     (case remove_backup d os of
        (d1, Inl e, _) \<Rightarrow> (d1, Inl e)
      | (d1, Inr _, os1) \<Rightarrow>
          (case swap_in d1 os1 of
             (d2, Inl e, _) \<Rightarrow> (d2, Inl e)
           | (d2, Inr _, os2) \<Rightarrow> (case remove_backup d2 os2 of (d3, r, _) \<Rightarrow> (d3, r))))"

text \<open>\<open>run\<close>: where the build or the publication raises, the temporary directory is removed.\<close>

definition run :: "files_env \<Rightarrow> tree \<Rightarrow> product list \<Rightarrow> int list \<Rightarrow> dirs \<Rightarrow> outcome list \<Rightarrow> dirs \<times> json result" where
  "run env src seed seed_file d os =
     (if list_ex (\<lambda>part. src (source_path (fst part) (snd part)) = None) SOURCE_PARTS then (d, Inl (OtherError ''FileNotFoundError''))
      else case build_into env src seed seed_file of
             Inl e \<Rightarrow> (d\<lparr>d_temporary := None\<rparr>, Inl e)
           | Inr (tr, m) \<Rightarrow>
               (case publish (d\<lparr>d_temporary := Some tr\<rparr>) os of
                  (d1, Inl e) \<Rightarrow> (d1\<lparr>d_temporary := None\<rparr>, Inl e)
                | (d1, Inr _) \<Rightarrow> (d1, Inr m)))"

section \<open>What a repository holds\<close>

text \<open>C5: Whatever tree it is given, a repository that loads holds only products of the strict contract, with distinct product
  identifiers and distinct SKU identifiers, counts each SKU once, and answers a lookup by identifier with exactly the loaded
  product, an unknown identifier with none, and a list of identifiers with the known ones in the order asked.\<close>

theorem loaded_catalog_sound:
  assumes "load_repository env tr = Inr (ps, sids)"
  shows "list_all strict_product ps \<and> distinct (map product_id ps) \<and> distinct (all_skus ps) \<and> sids = rev (all_skus ps) \<and>
     (\<forall>p\<in>set ps. repo_find ps (product_id p) = Some p) \<and> (\<forall>i. i \<notin> product_id ` set ps \<longrightarrow> repo_find ps i = None) \<and>
     (\<forall>ids. map product_id (repo_find_all ps ids) = filter (\<lambda>i. i \<in> product_id ` set ps) ids)"
proof -
  from assms obtain parts where "load_partitions env tr parts PARTITION_PRODUCT_PATHS ([], [], []) = Inr (ps, sids)"
    by (auto simp: load_repository_def result_simps split: option.splits if_splits)
  from load_partitions_sound [OF this] obtain ids where
      l: "list_all strict_product ps" "claim_products (\<lambda>_. Inr ()) ps ([], []) = Inr ids" "sids = snd ids" by auto
  then have d: "distinct (map product_id ps)" "distinct (all_skus ps)" "sids = rev (all_skus ps)"
    unfolding claim_products_iff by simp_all
  have f: "repo_find ps (product_id p) = Some p" if "p \<in> set ps" for p using find_unique [OF d(1) that] by (simp add: repo_find_def)
  have n: "repo_find ps i = None" if "i \<notin> product_id ` set ps" for i using that by (force simp: repo_find_def find_None_iff)
  have "map product_id (repo_find_all ps ids) = filter (\<lambda>i. i \<in> product_id ` set ps) ids" for ids
    unfolding repo_find_all_def using f n by (induction ids) (auto simp: List.map_filter_simps split: option.split)
  with l(1) d f n show ?thesis by blast
qed

section \<open>What a conversion produces\<close>

lemma v2_sku_strict: "v2_sku s = Inr s' \<Longrightarrow> money_ok (price s) \<Longrightarrow> strict_sku s'"
  by (auto simp: v2_sku_def strict_sku_def split: if_splits)

lemma v2_product_strict:
  "v2_product p = Inr q \<Longrightarrow> list_all (\<lambda>h. \<not> blank (label h)) (highlights p) \<Longrightarrow> list_all strict_sku (skus p) \<Longrightarrow> strict_product p \<and> q = p"
  by (auto simp: v2_product_def strict_product_def list_ex_iff list_all_iff split: if_splits)

lemma item_price_ok: "item_price env v = Inr (Some m) \<Longrightarrow> money_ok m"
  by (auto simp: item_price_def dest: money_of_ok split: sum.splits option.splits if_splits)

lemma convert_variant_strict: "convert_variant env v = Inr (Some s) \<Longrightarrow> strict_sku s"
  by (cases "item_price env (jget v ''price_cny'')"; cases "projr (item_price env (jget v ''price_cny''))")
    (auto simp: convert_variant_def Let_def result_simps dest!: item_price_ok v2_sku_strict split: if_splits)

lemma map_filter_in: "y \<in> set (List.map_filter f xs) \<longleftrightarrow> (\<exists>x\<in>set xs. f x = Some y)"
  by (auto simp: List.map_filter_def) force

lemma convert_reference_seed_strict:
  assumes "convert_reference_seed env row = Inr (Some p)"
  shows "strict_product p"
proof -
  from assms obtain vs ss q where "mapR (convert_variant env) vs = Inr ss" "v2_product q = Inr p" "skus q = List.map_filter id ss" "highlights q = []"
    by (auto simp: convert_reference_seed_def Let_def result_simps split: if_splits)
  moreover have "list_all strict_sku (List.map_filter id ss)"
    using calculation(1) by (auto simp: list_all_iff map_filter_in mapR_Inr_iff dest!: list_all2_in_right intro: convert_variant_strict)
  ultimately show ?thesis using v2_product_strict [of q p] by simp
qed

lemma hash_int_bounds: "hash_int env v m = Inr h \<Longrightarrow> 0 < m \<Longrightarrow> 0 \<le> h \<and> h < m"
  by (auto simp: hash_int_def result_simps)

text \<open>An Amazon item has one SKU, whose price and stock lie in the documented ranges.\<close>

lemma convert_amazon_shape:
  assumes "convert_amazon env row = Inr p"
  obtains s where "strict_product p" "skus p = [s]" "5000 \<le> amount_in_minor_units (price s)" "amount_in_minor_units (price s) \<le> 200000"
    "currency (price s) = u ''CNY''" "0 \<le> stock s" "stock s \<le> 100" "sku_id s = product_id p @ u '':default''"
    "product_id p = text_of env (jget row ''item_id'')"
proof -
  from assms obtain h m st s q where c: "hash_int env (text_of env (jget row ''item_id'') @ u '':price'') 195001 = Inr h"
      "money_of (5000 + h) (u ''CNY'') = Inr m" "hash_int env ((text_of env (jget row ''item_id'') @ u '':default'') @ u '':stock'') 101 = Inr st"
      "v2_sku \<lparr>sku_id = text_of env (jget row ''item_id'') @ u '':default'', sku_spec = DEFAULT_SPEC, price = m, stock = st\<rparr> = Inr s"
      "v2_product q = Inr p" "skus q = [s]" "highlights q = []" "product_id q = text_of env (jget row ''item_id'')"
    by (auto simp: convert_amazon_def Let_def result_simps split: option.splits)
  have m: "money_ok m" "m = \<lparr>amount_in_minor_units = 5000 + h, currency = u ''CNY''\<rparr>"
    using c(2) money_of_ok by (auto simp: money_of_def split: if_splits)
  have s: "s = \<lparr>sku_id = text_of env (jget row ''item_id'') @ u '':default'', sku_spec = DEFAULT_SPEC, price = m, stock = st\<rparr>"
    using c(4) by (simp add: v2_sku_def split: if_splits)
  have "strict_sku s" using v2_sku_strict [OF c(4)] m(1) by simp
  then have "strict_product p" "p = q" using v2_product_strict [OF c(5)] c(6,7) by simp_all
  then show thesis
    using that [of s] hash_int_bounds [OF c(1)] hash_int_bounds [OF c(3)] c(6,8) by (simp add: s m(2))
qed

lemma convert_row_strict: "convert_row env pf row = Inr (Some p) \<Longrightarrow> strict_product p"
  by (auto simp: convert_row_def result_simps intro: convert_reference_seed_strict elim: convert_amazon_shape split: if_splits)

lemma reference_product_strict:
  assumes "reference_product p = Inr q"
  shows "strict_product q"
proof -
  from assms obtain hs ss where r: "mapR v2_highlight (highlights p) = Inr hs" "mapR reference_sku (skus p) = Inr ss"
      "v2_product (p\<lparr>highlights := hs, skus := ss\<rparr>) = Inr q"
    by (auto simp: reference_product_def result_simps)
  have "strict_sku s'" if "reference_sku s = Inr s'" for s s'
    using that money_of_ok v2_sku_strict by (fastforce simp: reference_sku_def result_simps)
  moreover have "\<not> blank (label h')" if "v2_highlight h = Inr h'" for h h'
    using that by (auto simp: v2_highlight_def split: if_splits)
  ultimately have "list_all (\<lambda>h. \<not> blank (label h)) hs" "list_all strict_sku ss"
    using r(1,2) by (auto simp: mapR_Inr_iff list_all_iff dest!: list_all2_in_right)
  with v2_product_strict [OF r(3)] show ?thesis by simp
qed

section \<open>A build can be loaded\<close>

definition ready :: "files_env \<Rightarrow> build \<Rightarrow> pystr \<Rightarrow> product list \<Rightarrow> bool" where
  "ready env b k ps \<longleftrightarrow> list_all strict_product ps \<and> (\<exists>bs cs.
     utf8_encode (jsonl_text env (map product_row (sort_key product_id ps))) = Inr bs \<and> bl_files b (k @ u ''/products.jsonl'') = Some bs \<and>
     map_of (bl_partitions b) k = Some (JObj [(u ''products'', file_metadata env bs (Some (int (length ps))) (Some (k @ u ''/products.jsonl''))),
       (u ''coverage'', file_metadata env cs None (Some (k @ u ''/coverage.json'')))]))"

lemma other_file: "k @ u ''/products.jsonl'' \<noteq> k' @ u ''/coverage.json''"
proof
  assume "k @ u ''/products.jsonl'' = k' @ u ''/coverage.json''"
  from arg_cong [where f = last, OF this] show False by (simp add: u_def)
qed

lemma write_partition_step:
  assumes "write_partition env k ps b = Inr b'" "list_all strict_product ps"
  shows "ready env b' k ps" "k' \<noteq> k \<Longrightarrow> ready env b k' qs \<Longrightarrow> ready env b' k' qs"
    "claim_products (\<lambda>_. Inr ()) (sort_key product_id ps) (bl_ids b) = Inr (bl_ids b')"
    "fst ` set (bl_partitions b') = insert k (fst ` set (bl_partitions b))"
    "dict_ok (bl_partitions b) \<Longrightarrow> dict_ok (bl_partitions b')"
proof -
  from assms(1) obtain bs cs where w: "utf8_encode (jsonl_text env (map product_row (sort_key product_id ps))) = Inr bs"
      "claim_products (\<lambda>p. validate_product_row (product_row p)) (sort_key product_id ps) (bl_ids b) = Inr (bl_ids b')"
      "bl_files b' = (bl_files b)(k @ u ''/products.jsonl'' \<mapsto> bs, k @ u ''/coverage.json'' \<mapsto> cs)"
      "bl_partitions b' = AList.update k (JObj [(u ''products'', file_metadata env bs (Some (int (length ps))) (Some (k @ u ''/products.jsonl''))),
         (u ''coverage'', file_metadata env cs None (Some (k @ u ''/coverage.json'')))]) (bl_partitions b)"
    by (auto simp: write_partition_def Let_def result_simps)
  show "ready env b' k ps" unfolding ready_def using w(1,3,4) assms(2) other_file by (simp add: dict_simps) blast
  show "ready env b' k' qs" if "k' \<noteq> k" "ready env b k' qs"
    using that w(3,4) other_file by (simp add: ready_def dict_simps)
  show "claim_products (\<lambda>_. Inr ()) (sort_key product_id ps) (bl_ids b) = Inr (bl_ids b')"
    using w(2) by (simp add: claim_products_iff)
  show "fst ` set (bl_partitions b') = insert k (fst ` set (bl_partitions b))" by (simp add: w(4) dom_update)
  show "dict_ok (bl_partitions b')" if "dict_ok (bl_partitions b)" using that by (simp add: w(4))
qed

text \<open>The products of one staged partition.\<close>

definition source_products :: "files_env \<Rightarrow> tree \<Rightarrow> pystr \<times> pystr \<Rightarrow> product list result" where
  "source_products env src part = andThen (converted_rows env src part) (\<lambda>rows. Inr (List.map_filter snd rows))"

abbreviation part_key :: "pystr \<times> pystr \<Rightarrow> pystr" where
  "part_key part \<equiv> partition_key (fst part) (snd part)"

lemma converted_rows_strict:
  assumes "converted_rows env src part = Inr rows"
  shows "list_all strict_product (List.map_filter snd rows)"
proof -
  from assms obtain rs ps where "mapR (convert_row env (fst part)) rs = Inr ps" "rows = zip rs ps"
    by (auto simp: converted_rows_def result_simps split: option.splits)
  then show ?thesis
    using convert_row_strict by (fastforce simp: list_all_iff map_filter_in mapR_Inr_iff list_all2_iff)
qed

lemma build_source_step:
  assumes "build_source env src part b = Inr b'"
  obtains ps b0 b1 where "source_products env src part = Inr ps" "list_all strict_product ps" "write_partition env (part_key part) ps b0 = Inr b1"
    "bl_ids b0 = bl_ids b" "bl_partitions b0 = bl_partitions b" "bl_files b0 = bl_files b"
    "bl_ids b' = bl_ids b1" "bl_partitions b' = bl_partitions b1" "bl_files b' = bl_files b1"
proof -
  from assms obtain rows b1 where r: "converted_rows env src part = Inr rows"
      "write_partition env (part_key part) (List.map_filter snd rows) (b\<lparr>bl_rejections := bl_rejections b @ rejections_of env part rows\<rparr>) = Inr b1"
      "\<exists>c. b' = b1\<lparr>bl_counts := c\<rparr>"
    by (auto simp: build_source_def Let_def result_simps)
  show thesis
    by (rule that [OF _ converted_rows_strict [OF r(1)] r(2)]) (use r(1,3) in \<open>auto simp: source_products_def\<close>)
qed

lemma build_sources_ready:
  assumes "build_sources env src parts b = Inr b'" "distinct (map part_key parts)" "dict_ok (bl_partitions b)"
  shows "\<exists>f. (\<forall>part\<in>set parts. source_products env src part = Inr (f part) \<and> ready env b' (part_key part) (f part)) \<and>
     (\<forall>k qs. k \<notin> part_key ` set parts \<longrightarrow> ready env b k qs \<longrightarrow> ready env b' k qs) \<and>
     claim_products (\<lambda>_. Inr ()) (concat (map (\<lambda>part. sort_key product_id (f part)) parts)) (bl_ids b) = Inr (bl_ids b') \<and>
     fst ` set (bl_partitions b') = part_key ` set parts \<union> fst ` set (bl_partitions b) \<and> dict_ok (bl_partitions b')"
  using assms
proof (induction parts arbitrary: b)
  case (Cons part parts)
  from Cons.prems(1) obtain b1 where b1: "build_source env src part b = Inr b1" "build_sources env src parts b1 = Inr b'"
    by (auto simp: result_simps)
  from build_source_step [OF b1(1)] obtain ps c c1 where s: "source_products env src part = Inr ps" "list_all strict_product ps"
      "write_partition env (part_key part) ps c = Inr c1" "bl_ids c = bl_ids b" "bl_partitions c = bl_partitions b" "bl_files c = bl_files b"
      "bl_ids b1 = bl_ids c1" "bl_partitions b1 = bl_partitions c1" "bl_files b1 = bl_files c1" by metis
  note w = write_partition_step [OF s(3,2)]
  have r: "ready env b1 k qs = ready env c1 k qs" "ready env c k qs = ready env b k qs" for k qs using s(5-9) by (simp_all add: ready_def)
  have ok: "dict_ok (bl_partitions b1)" using w(5) s(5,8) Cons.prems(3) by simp
  have "distinct (map part_key parts)" using Cons.prems(2) by simp
  from Cons.IH [OF b1(2) this ok] obtain f where f:
      "\<And>p. p \<in> set parts \<Longrightarrow> source_products env src p = Inr (f p) \<and> ready env b' (part_key p) (f p)"
      "\<And>k qs. k \<notin> part_key ` set parts \<Longrightarrow> ready env b1 k qs \<Longrightarrow> ready env b' k qs"
      "claim_products (\<lambda>_. Inr ()) (concat (map (\<lambda>part. sort_key product_id (f part)) parts)) (bl_ids b1) = Inr (bl_ids b')"
      "fst ` set (bl_partitions b') = part_key ` set parts \<union> fst ` set (bl_partitions b1)" "dict_ok (bl_partitions b')"
    by (elim exE conjE) (rule that, blast+)
  let ?g = "f(part := ps)"
  have np: "part \<notin> set parts" "part_key part \<notin> part_key ` set parts" using Cons.prems(2) by auto
  then have m: "map (\<lambda>part. sort_key product_id (?g part)) parts = map (\<lambda>part. sort_key product_id (f part)) parts" by auto
  show ?case
  proof (intro exI [of _ ?g] conjI ballI allI impI)
    fix p assume "p \<in> set (part # parts)"
    then show "source_products env src p = Inr (?g p)" "ready env b' (part_key p) (?g p)"
      by (cases "p = part"; simp add: f(1) s(1) f(2) [OF np(2)] r(1) w(1))+
  next
    fix k qs assume "k \<notin> part_key ` set (part # parts)" "ready env b k qs"
    then show "ready env b' k qs" using f(2) w(2) r by simp
  next
    show "claim_products (\<lambda>_. Inr ()) (concat (map (\<lambda>part. sort_key product_id (?g part)) (part # parts))) (bl_ids b) = Inr (bl_ids b')"
      unfolding list.map(2) concat.simps m using f(3) w(3) s(4,7) by (simp add: claim_products_append)
  next
    show "fst ` set (bl_partitions b') = part_key ` set (part # parts) \<union> fst ` set (bl_partitions b)"
      using f(4) w(4) s(5,8) by auto
  qed (rule f(5))
qed auto

text \<open>What the reader finds of a partition in the published manifest.\<close>

lemma sort_metadata:
  "sort_json (file_metadata env bs (Some n) (Some rel)) =
     JObj [(u ''bytes'', JInt (int (length bs))), (u ''path'', JStr rel), (u ''records'', JInt n), (u ''sha256'', JStr (fe_sha env bs))]"
  by (simp add: file_metadata_def u_def)

lemma metadata_ok [simp]: "json_ok (file_metadata env bs n rel)"
  by (auto simp: file_metadata_def split: option.split)

lemma ready_readable:
  assumes "float_law (fe_float env) (fe_repr env)" "sha_law env" "ready env b k ps" "dict_ok (bl_partitions b)"
    "json_ok (JObj (bl_partitions b))" "tr (k @ u ''/products.jsonl'') = bl_files b (k @ u ''/products.jsonl'')"
  shows "readable env tr (sort_json (JObj (bl_partitions b))) k (sort_key product_id ps)"
proof -
  from assms(3) obtain bs cs where w: "list_all strict_product ps" "utf8_encode (jsonl_text env (map product_row (sort_key product_id ps))) = Inr bs"
      "bl_files b (k @ u ''/products.jsonl'') = Some bs"
      "map_of (bl_partitions b) k = Some (JObj [(u ''products'', file_metadata env bs (Some (int (length ps))) (Some (k @ u ''/products.jsonl''))),
         (u ''coverage'', file_metadata env cs None (Some (k @ u ''/coverage.json'')))])" (is "_ = Some ?v")
    by (auto simp: ready_def)
  let ?m = "sort_json (file_metadata env bs (Some (int (length ps))) (Some (k @ u ''/products.jsonl'')))"
  have "distinct (map fst (map (\<lambda>(k, v). (k, sort_json v)) (bl_partitions b)))"
    using assms(4) by (simp add: dict_ok_def dkeys_def comp_def case_prod_unfold)
  then have "map_of (obj_items (sort_json (JObj (bl_partitions b)))) k = Some (sort_json ?v)"
    by (simp add: map_of_sort map_of_map_snd w(4))
  moreover have "jget (sort_json ?v) ''products'' = ?m" by (subst jget_sort) (simp_all add: jget_def)
  moreover have "need_fields ?m (map u [''bytes'', ''path'', ''records'', ''sha256'']) = Inr ()"
    by (simp add: sort_metadata need_fields_def same_fields_def)
  ultimately have "map_of (obj_items (sort_json (JObj (bl_partitions b)))) k = Some (sort_json ?v)" "product_metadata (sort_json ?v) = Inr ?m"
    by (simp_all add: product_metadata_def) (simp add: need_obj_def sort_metadata)
  moreover have "jget ?m ''path'' = JStr (k @ u ''/products.jsonl'')" by (simp add: sort_metadata jget_def)
  moreover have "load_partition env bs ?m = Inr (sort_key product_id ps)"
    by (rule load_written [OF assms(1,2) _ w(2)]) (use w(1) in \<open>simp_all add: sort_metadata jget_def list_all_iff\<close>)
  ultimately show ?thesis unfolding readable_def using assms(6) w(3) by (intro exI conjI) auto
qed

lemma mset_all_skus: "mset (all_skus ps) = sum_mset (image_mset (\<lambda>p. mset (map sku_id (skus p))) (mset ps))"
  by (induction ps) simp_all

lemma claim_mset:
  assumes "claim_products chk ps ([], []) = Inr r" "mset ps = mset qs"
  shows "\<exists>ids. claim_products (\<lambda>_. Inr ()) qs ([], []) = Inr ids \<and> mset (snd ids) = mset (all_skus qs)"
proof -
  have "mset (map product_id ps) = mset (map product_id qs)" using assms(2) by simp
  moreover have "mset (all_skus ps) = mset (all_skus qs)" unfolding mset_all_skus assms(2) ..
  moreover have "distinct (map product_id ps)" "distinct (all_skus ps)" using assms(1) by (simp_all add: claim_products_iff)
  ultimately have "distinct (map product_id qs)" "distinct (all_skus qs)" using mset_eq_imp_distinct_iff by blast+
  then show ?thesis by (simp add: claim_products_iff)
qed

lemma write_partition_counts: "write_partition env k ps b = Inr b' \<Longrightarrow> bl_counts b' = bl_counts b"
  by (auto simp: write_partition_def Let_def result_simps)

lemma add_counts_ok [simp]: "dict_ok d \<Longrightarrow> dict_ok (add_counts k ps d)"
  by (simp add: add_counts_def)

lemma build_sources_counts: "build_sources env src parts b = Inr b' \<Longrightarrow> dict_ok (bl_counts b) \<Longrightarrow> dict_ok (bl_counts b')"
proof (induction parts arbitrary: b)
  case (Cons part parts)
  from Cons.prems(1) obtain b1 where b1: "build_source env src part b = Inr b1" "build_sources env src parts b1 = Inr b'"
    by (auto simp: result_simps)
  from b1(1) Cons.prems(2) have "dict_ok (bl_counts b1)"
    by (auto simp: build_source_def Let_def result_simps dest!: write_partition_counts)
  with Cons.IH b1(2) show ?case by blast
qed simp

lemma rules_ok: "json_ok RULES"
  by (simp add: RULES_def jtexts_def locale_rule_def)

lemma manifest_ok:
  assumes "dict_ok (bl_counts b)" "json_ok (JObj (bl_partitions b))"
  shows "json_ok (manifest_of env src seed_file b rej)"
proof -
  have "distinct (map fst (sort_key fst (map (\<lambda>(k, n). (k, JInt n)) (bl_counts b))))"
    using distinct_sorted_fields [of "bl_counts b" JInt] assms(1) by (simp add: dict_ok_def dkeys_def)
  moreover have "distinct (map fst (map (source_entry env src) (sort SOURCE_PARTS)))"
    by (simp add: source_entry_def SOURCE_PARTS_def u_def less_prod_def' less_eq_prod_def)
  moreover have "json_ok (snd (source_entry env src part))" for part by (simp add: source_entry_def split: option.split)
  ultimately show ?thesis using assms(2) rules_ok by (auto simp: manifest_of_def list_all_iff)
qed

lemma load_manifest:
  assumes "float_law (fe_float env) (fe_repr env)" "json_ok m" "json_file env m = Inr ms" "tr (u ''manifest.json'') = Some ms"
    "jget m ''contract_version'' = JStr CONTRACT_VERSION" "jget m ''converter_version'' = JStr CONVERTER_VERSION"
    "jget m ''partitions'' = JObj d" "fst ` set d = set (map fst PARTITION_PRODUCT_PATHS)" "is_obj m"
  shows "load_repository env tr = load_partitions env tr (sort_json (JObj d)) PARTITION_PRODUCT_PATHS ([], [], [])"
proof -
  let ?t = "dumps_indent (fe_repr env) 0 m @ [10]"
  have t: "utf8_decode ms = Inr ?t" using assms(3) utf8_round_trip by (simp add: json_file_def)
  from reads_loads [OF reads_dumps_indent [OF assms(1,2), of True 0], of "[10]"]
  have l: "strict_loads (fe_float env) ?t = Some (sort_json m)" by (simp add: strict_loads_def spaces_def json_space_def)
  have o: "is_obj (sort_json m)" using assms(9) by (cases m) auto
  have "jget (sort_json m) ''partitions'' = sort_json (JObj d)" by (simp add: jget_sort [OF assms(2)] assms(7))
  moreover have "same_fields (sort_json (JObj d)) (map fst PARTITION_PRODUCT_PATHS)"
    using assms(8) by (simp add: same_fields_def image_image case_prod_unfold)
  ultimately show ?thesis
    by (simp add: load_repository_def assms(4) t strict_json_def l need_obj_def o jget_sort [OF assms(2)] assms(5,6))
qed

lemma part_keys: "map part_key SOURCE_PARTS = map u [''reference_seed'', ''amazon/us'', ''amazon/es'', ''amazon/jp'']"
  by (simp add: SOURCE_PARTS_def partition_key_def u_def)

lemma part_key_set: "part_key ` set SOURCE_PARTS = u ` {''reference_seed'', ''amazon/us'', ''amazon/es'', ''amazon/jp''}"
  using arg_cong [where f = set, OF part_keys] by simp

lemma product_paths: "PARTITION_PRODUCT_PATHS = map (\<lambda>n. (n, n @ u ''/products.jsonl''))
    (map u [''amazon/es'', ''amazon/jp'', ''amazon/us'', ''crossshop_reference'', ''reference_seed''])"
  by (simp add: PARTITION_PRODUCT_PATHS_def comp_def)

lemma build_into_parts:
  assumes "build_into env src seed seed_file = Inr (tr, m)"
  obtains refs b f ms b' rej where "mapR reference_product seed = Inr refs" "ready env b (u ''crossshop_reference'') refs"
    "\<And>part. part \<in> set SOURCE_PARTS \<Longrightarrow> source_products env src part = Inr (f part) \<and> ready env b (part_key part) (f part)"
    "claim_products (\<lambda>_. Inr ()) (sort_key product_id refs @ concat (map (\<lambda>part. sort_key product_id (f part)) SOURCE_PARTS)) ([], []) = Inr (bl_ids b)"
    "fst ` set (bl_partitions b) = insert (u ''crossshop_reference'') (part_key ` set SOURCE_PARTS)" "dict_ok (bl_partitions b)"
    "tr = (bl_files b)(u ''rejections.jsonl'' \<mapsto> rej, u ''manifest.json'' \<mapsto> ms)" "json_file env m = Inr ms"
    "m = manifest_of env src seed_file b' rej" "bl_partitions b' = bl_partitions b" "dict_ok (bl_counts b')"
proof -
  from assms obtain refs b0 b rej ms c where r: "mapR reference_product seed = Inr refs"
      "write_partition env (u ''crossshop_reference'') refs empty_build = Inr b0"
      "build_sources env src SOURCE_PARTS (b0\<lparr>bl_counts := add_counts (u ''crossshop_reference'') refs (bl_counts b0)\<rparr>) = Inr b"
      "c = AList.update (u ''rejected_records'') (int (length (bl_rejections b)))
             (AList.update (u ''partitions'') (int (length (bl_partitions b))) (bl_counts b))"
      "m = manifest_of env src seed_file (b\<lparr>bl_counts := c\<rparr>) rej" "json_file env m = Inr ms"
      "tr = (bl_files b)(u ''rejections.jsonl'' \<mapsto> rej, u ''manifest.json'' \<mapsto> ms)"
    by (auto simp: build_into_def build_files_def Let_def result_simps)
  have "list_all strict_product refs"
    using r(1) reference_product_strict by (auto simp: list_all_iff mapR_Inr_iff dest!: list_all2_in_right)
  note w = write_partition_step [OF r(2) this]
  let ?b1 = "b0\<lparr>bl_counts := add_counts (u ''crossshop_reference'') refs (bl_counts b0)\<rparr>"
  have d: "distinct (map part_key SOURCE_PARTS)" unfolding part_keys by simp
  have ok: "dict_ok (bl_partitions ?b1)" "dict_ok (bl_counts ?b1)"
    using w(5) write_partition_counts [OF r(2)] by (simp_all add: empty_build_def)
  from build_sources_ready [OF r(3) d ok(1)] obtain f where f:
      "\<And>part. part \<in> set SOURCE_PARTS \<Longrightarrow> source_products env src part = Inr (f part) \<and> ready env b (part_key part) (f part)"
      "\<And>k qs. k \<notin> part_key ` set SOURCE_PARTS \<Longrightarrow> ready env ?b1 k qs \<Longrightarrow> ready env b k qs"
      "claim_products (\<lambda>_. Inr ()) (concat (map (\<lambda>part. sort_key product_id (f part)) SOURCE_PARTS)) (bl_ids ?b1) = Inr (bl_ids b)"
      "fst ` set (bl_partitions b) = part_key ` set SOURCE_PARTS \<union> fst ` set (bl_partitions ?b1)" "dict_ok (bl_partitions b)"
    by (elim exE conjE) (rule that, blast+)
  have "u ''crossshop_reference'' \<notin> part_key ` set SOURCE_PARTS" unfolding part_key_set by simp
  then have "ready env b (u ''crossshop_reference'') refs" using f(2) w(1) by (simp add: ready_def)
  moreover have "claim_products (\<lambda>_. Inr ()) (sort_key product_id refs @ concat (map (\<lambda>part. sort_key product_id (f part)) SOURCE_PARTS)) ([], []) = Inr (bl_ids b)"
    using f(3) w(3) by (simp add: claim_products_append empty_build_def)
  moreover have "fst ` set (bl_partitions b) = insert (u ''crossshop_reference'') (part_key ` set SOURCE_PARTS)"
    using f(4) w(4) by (simp add: empty_build_def)
  moreover have "dict_ok c" using build_sources_counts [OF r(3) ok(2)] by (simp add: r(4))
  ultimately show thesis
    using that [of refs b f rej ms "b\<lparr>bl_counts := c\<rparr>"] r(1,5-7) f(1,5) by simp
qed

lemma build_loads:
  assumes "float_law (fe_float env) (fe_repr env)" "sha_law env" "build_into env src seed seed_file = Inr (tr, m)"
  shows "\<exists>refs seeds us es jp sids. mapR reference_product seed = Inr refs \<and>
     mapR (source_products env src) SOURCE_PARTS = Inr [seeds, us, es, jp] \<and>
     load_repository env tr = Inr (concat (map (sort_key product_id) [es, jp, us, refs, seeds]), sids) \<and>
     distinct sids \<and> mset sids = mset (all_skus (concat [es, jp, us, refs, seeds]))"
proof -
  obtain refs b f ms b' rej where p: "mapR reference_product seed = Inr refs" "ready env b (u ''crossshop_reference'') refs"
    "\<And>part. part \<in> set SOURCE_PARTS \<Longrightarrow> source_products env src part = Inr (f part) \<and> ready env b (part_key part) (f part)"
    "claim_products (\<lambda>_. Inr ()) (sort_key product_id refs @ concat (map (\<lambda>part. sort_key product_id (f part)) SOURCE_PARTS)) ([], []) = Inr (bl_ids b)"
    "fst ` set (bl_partitions b) = insert (u ''crossshop_reference'') (part_key ` set SOURCE_PARTS)" "dict_ok (bl_partitions b)"
    "tr = (bl_files b)(u ''rejections.jsonl'' \<mapsto> rej, u ''manifest.json'' \<mapsto> ms)" "json_file env m = Inr ms"
    "m = manifest_of env src seed_file b' rej" "bl_partitions b' = bl_partitions b" "dict_ok (bl_counts b')"
    by (rule build_into_parts [OF assms(3)]) blast
  let ?parts = "JObj (bl_partitions b)"
  let ?f = "\<lambda>pf l. f (u pf, u l)"
  let ?F = "(\<lambda>k. if k = u ''amazon/es'' then ?f ''amazon'' ''es'' else if k = u ''amazon/jp'' then ?f ''amazon'' ''jp''
     else if k = u ''amazon/us'' then ?f ''amazon'' ''us'' else if k = u ''crossshop_reference'' then refs else ?f ''reference_seed'' ''cn'')"
  let ?keys = "map u [''amazon/es'', ''amazon/jp'', ''amazon/us'', ''crossshop_reference'', ''reference_seed'']"
  have r: "ready env b k (?F k)" if "k \<in> set ?keys" for k
    using that p(2) p(3) [of "(u ''amazon'', u ''es'')"] p(3) [of "(u ''amazon'', u ''jp'')"] p(3) [of "(u ''amazon'', u ''us'')"]
      p(3) [of "(u ''reference_seed'', u ''cn'')"]
    by (auto simp: SOURCE_PARTS_def partition_key_def u_append [symmetric]) (simp_all add: u_def)
  have keys: "fst ` set (bl_partitions b) = set ?keys" unfolding p(5) part_key_set by auto
  have "json_ok v" if "(k, v) \<in> set (bl_partitions b)" for k v
  proof -
    from that have "k \<in> set ?keys" unfolding keys [symmetric] by force
    from r [OF this] that p(6) show ?thesis by (auto simp: ready_def dict_ok_def dkeys_def)
  qed
  then have jp: "json_ok ?parts" using p(6) by (auto simp: dict_ok_def dkeys_def list_all_iff)
  have jm: "json_ok m" unfolding p(9) by (rule manifest_ok) (use p(10,11) jp in simp_all)
  have fields: "jget m ''contract_version'' = JStr CONTRACT_VERSION" "jget m ''converter_version'' = JStr CONVERTER_VERSION"
    "jget m ''partitions'' = ?parts" "is_obj m" by (simp_all add: p(9,10) manifest_of_def jget_Obj)
  have other: "k @ u ''/products.jsonl'' \<noteq> u ''manifest.json'' \<and> k @ u ''/products.jsonl'' \<noteq> u ''rejections.jsonl''" if "k \<in> set ?keys" for k
    using that by (auto simp: u_append [symmetric])
  have rd: "readable env tr (sort_json ?parts) k (sort_key product_id (?F k))" if "k \<in> set ?keys" for k
    by (rule ready_readable [OF assms(1,2) r [OF that] p(6) jp]) (use other [OF that] in \<open>simp add: p(7)\<close>)
  have "set (map fst PARTITION_PRODUCT_PATHS) = set ?keys" by (simp add: product_paths)
  then have "load_repository env tr = load_partitions env tr (sort_json ?parts) PARTITION_PRODUCT_PATHS ([], [], [])"
    using load_manifest [OF assms(1) jm p(8) _ fields(1-3) _ fields(4), of tr] keys by (simp add: p(7))
  also have "\<dots> = andThen (claim_products (\<lambda>_. Inr ()) (concat (map (\<lambda>k. sort_key product_id (?F k)) ?keys)) ([], []))
      (\<lambda>ids'. Inr (concat (map (\<lambda>k. sort_key product_id (?F k)) ?keys), snd ids'))"
    unfolding product_paths by (subst load_partitions_readable [OF rd]) simp_all
  finally have load: "load_repository env tr = \<dots>" .
  let ?L = "concat (map (sort_key product_id) [?f ''amazon'' ''es'', ?f ''amazon'' ''jp'', ?f ''amazon'' ''us'', refs, ?f ''reference_seed'' ''cn''])"
  have L: "concat (map (\<lambda>k. sort_key product_id (?F k)) ?keys) = ?L" by simp
  have "mset (sort_key product_id refs @ concat (map (\<lambda>part. sort_key product_id (f part)) SOURCE_PARTS)) = mset ?L"
    by (simp add: SOURCE_PARTS_def)
  from claim_mset [OF p(4) this] obtain ids where ids: "claim_products (\<lambda>_. Inr ()) ?L ([], []) = Inr ids" "mset (snd ids) = mset (all_skus ?L)"
    by blast
  have "distinct (all_skus ?L)" using ids(1) by (simp only: claim_products_iff)
  then have d: "distinct (snd ids)" using mset_eq_imp_distinct_iff [OF ids(2)] by simp
  have m: "mset (all_skus ?L) = mset (all_skus (concat [?f ''amazon'' ''es'', ?f ''amazon'' ''jp'', ?f ''amazon'' ''us'', refs, ?f ''reference_seed'' ''cn'']))"
    unfolding mset_all_skus by simp
  show ?thesis
  proof (intro exI conjI)
    show "mapR (source_products env src) SOURCE_PARTS
        = Inr [?f ''reference_seed'' ''cn'', ?f ''amazon'' ''us'', ?f ''amazon'' ''es'', ?f ''amazon'' ''jp'']"
      using p(3) by (simp add: SOURCE_PARTS_def)
    show "load_repository env tr = Inr (?L, snd ids)" unfolding load L ids(1) by simp
  qed (use p(1) d ids(2) m in simp_all)
qed

text \<open>C3: The repository reads back exactly the catalog that the builder wrote: from the files of a successful build it loads, partition
  by partition in its own order, every product of the seed and every product converted from the staged rows, sorted by
  identifier within the partition and with every field, SKU and price as it was, and no other product; the SKU identifiers
  it claims are the ones of these products, each once. Nothing of the checks of the reader (hash, byte and record counts,
  field sets, global uniqueness in its own order of partitions, strict JSON) rejects what the builder accepts. \<close>

theorem catalog_round_trip:
  assumes "float_law (fe_float env) (fe_repr env)" "sha_law env" "build_into env src seed seed_file = Inr (tr, m)"
  shows "\<exists>refs seeds us es jp sids. mapR reference_product seed = Inr refs \<and>
     mapR (source_products env src) SOURCE_PARTS = Inr [seeds, us, es, jp] \<and>
     load_repository env tr = Inr (concat (map (sort_key product_id) [es, jp, us, refs, seeds]), sids) \<and>
     distinct sids \<and> mset sids = mset (all_skus (concat [es, jp, us, refs, seeds]))"
  by (rule build_loads [OF assms])

section \<open>What makes a build succeed\<close>

lemma set_alist_update: "x \<in> set (AList.update k v d) \<Longrightarrow> x = (k, v) \<or> x \<in> set d"
  by (induction d) (auto split: if_splits)

definition printable :: "build \<Rightarrow> bool" where
  "printable b \<longleftrightarrow> (\<forall>(k, v)\<in>set (bl_partitions b). list_all scalar k \<and> texts_ok scalar v \<and> no_floats v) \<and>
     (\<forall>(k, n)\<in>set (bl_counts b). list_all scalar k) \<and>
     (\<forall>r\<in>set (bl_rejections b). texts_ok scalar (rejection_row r))"

lemma sha_scalar: "sha_law env \<Longrightarrow> list_all scalar (fe_sha env bs)"
proof -
  assume "sha_law env"
  then have "list_all (\<lambda>c. c \<in> set (u ''0123456789abcdef'')) (fe_sha env bs)"
    by (simp add: sha_law_def hex_text_def split: if_splits)
  moreover have "c \<in> set (u ''0123456789abcdef'') \<Longrightarrow> scalar c" for c
    using scalar_u [of "''0123456789abcdef''"] by (simp add: list_all_iff)
  ultimately show ?thesis by (simp add: list_all_iff)
qed

lemma metadata_printable:
  assumes "sha_law env"
  shows "no_floats (file_metadata env bs n rel)" "texts_ok scalar (file_metadata env bs n None)"
    "texts_ok scalar (file_metadata env bs n (Some r)) = list_all scalar r"
  by (auto simp: file_metadata_def sha_scalar [OF assms] scalar_u split: option.split)

lemma coverage_printable:
  "(\<And>r. r \<in> set rows \<Longrightarrow> texts_ok scalar r) \<Longrightarrow> texts_ok scalar (field_coverage rows) \<and> no_floats (field_coverage rows)"
proof -
  assume rows: "\<And>r. r \<in> set rows \<Longrightarrow> texts_ok scalar r"
  have "list_all scalar k" if "r \<in> set rows" "(k, v) \<in> set (obj_items r)" for r k v
    using rows [OF that(1)] that(2) by (cases r) (auto simp: list_all_iff)
  then show ?thesis by (force simp: field_coverage_def coverage_entry_def Let_def list_all_iff scalar_u [unfolded list_all_iff])
qed

lemma row_valid: "strict_product p \<Longrightarrow> validate_product_row (product_row p) = Inr ()"
  by (auto simp: validate_product_row_def product_row_def sku_row_def same_fields_def PRODUCT_FIELDS_def SKU_ROW_FIELDS_def jget_Obj
    strict_product_def strict_sku_def list_ex_iff list_all_iff)

lemma write_partition_ok:
  assumes "sha_law env" "list_all strict_product ps" "\<And>p. p \<in> set ps \<Longrightarrow> texts_ok scalar (product_row p)" "list_all scalar k"
    "claim_products (\<lambda>_. Inr ()) (sort_key product_id ps) (bl_ids b) = Inr ids" "printable b"
  shows "\<exists>b'. write_partition env k ps b = Inr b' \<and> bl_ids b' = ids \<and> bl_counts b' = bl_counts b \<and> bl_rejections b' = bl_rejections b \<and> printable b'"
proof -
  let ?ps = "sort_key product_id ps"
  have c: "claim_products (\<lambda>p. validate_product_row (product_row p)) ?ps (bl_ids b) = Inr ids"
    using assms(2,5) row_valid by (simp add: claim_products_iff list_all_iff)
  have "list_all scalar (dumps (fe_repr env) (product_row p))" if "p \<in> set ps" for p
    using that by (intro scalar_dumps rows_no_floats assms(3))
  then have "list_all scalar (jsonl_text env (map product_row ?ps))" by (auto simp: jsonl_text_def list_all_iff scalar_ascii)
  then obtain bs where bs: "utf8_encode (jsonl_text env (map product_row ?ps)) = Inr bs" by (simp add: utf8_encode_def)
  have "texts_ok scalar (field_coverage (map product_row ?ps)) \<and> no_floats (field_coverage (map product_row ?ps))"
    using assms(3) by (intro coverage_printable) auto
  then obtain cs where cs: "json_file env (JObj [(u ''products'', field_coverage (map product_row ?ps))]) = Inr cs"
    using json_file_ok [of "JObj [(u ''products'', field_coverage (map product_row ?ps))]" env] by (auto simp: scalar_u)
  show ?thesis
    using assms(4,6)
    by (auto simp: write_partition_def Let_def c bs cs printable_def scalar_u metadata_printable [OF assms(1)] dest!: set_alist_update)
qed

lemma build_sources_ok:
  assumes "sha_law env" "mapR (converted_rows env src) parts = Inr rows" "\<And>part. part \<in> set parts \<Longrightarrow> list_all scalar (fst part) \<and> list_all scalar (snd part)"
    "claim_products (\<lambda>_. Inr ()) (concat (map (\<lambda>r. sort_key product_id (List.map_filter snd r)) rows)) (bl_ids b) = Inr ids"
    "\<And>p. p \<in> set (concat (map (List.map_filter snd) rows)) \<Longrightarrow> texts_ok scalar (product_row p)"
    "\<And>r. r \<in> set (concat rows) \<Longrightarrow> list_all scalar (text_or env (jget (fst r) ''item_id'') [])" "printable b"
  shows "\<exists>b'. build_sources env src parts b = Inr b' \<and> printable b'"
  using assms(2-)
proof (induction parts arbitrary: b rows)
  case (Cons part parts)
  from Cons.prems(1) obtain r rs where r: "rows = r # rs" "converted_rows env src part = Inr r" "mapR (converted_rows env src) parts = Inr rs"
    by (auto simp: result_simps)
  let ?ps = "List.map_filter snd r"
  let ?b = "b\<lparr>bl_rejections := bl_rejections b @ rejections_of env part r\<rparr>"
  from Cons.prems(3) obtain ids1 where c: "claim_products (\<lambda>_. Inr ()) (sort_key product_id ?ps) (bl_ids ?b) = Inr ids1"
      "claim_products (\<lambda>_. Inr ()) (concat (map (\<lambda>r. sort_key product_id (List.map_filter snd r)) rs)) ids1 = Inr ids"
    by (auto simp: r(1) claim_products_append result_simps)
  have "\<forall>x\<in>set r. list_all scalar (text_or env (jget (fst x) ''item_id'') [])" using Cons.prems(5) by (simp add: r(1))
  then have pr: "printable ?b"
    using Cons.prems(2) [of part] Cons.prems(6) by (auto simp: printable_def rejections_of_def rejection_row_def r(1) scalar_u)
  have k: "list_all scalar (part_key part)" using Cons.prems(2) [of part] by (simp add: partition_key_def scalar_ascii scalar_u)
  have t: "texts_ok scalar (product_row p)" if "p \<in> set ?ps" for p using that Cons.prems(4) by (simp add: r(1))
  from write_partition_ok [OF assms(1) converted_rows_strict [OF r(2)] t k c(1) pr]
  obtain b1 where b1: "write_partition env (part_key part) ?ps ?b = Inr b1" "bl_ids b1 = ids1" "printable b1" by blast
  let ?c = "add_counts (part_key part) ?ps (bl_counts b1)"
  let ?b2 = "b1\<lparr>bl_counts := if length ?ps \<noteq> length r then AList.update (part_key part @ u ''_rejected'') (int (length r - length ?ps)) ?c else ?c\<rparr>"
  have b2: "build_source env src part b = Inr ?b2" by (simp add: build_source_def r(2) b1(1) Let_def)
  have p2: "printable ?b2"
    using b1(3) k by (auto simp: printable_def add_counts_def scalar_u dest!: set_alist_update)
  have "\<exists>b'. build_sources env src parts ?b2 = Inr b' \<and> printable b'"
    by (rule Cons.IH [OF r(3)]) (use Cons.prems(2,4,5) c(2) b1(2) p2 in \<open>auto simp: r(1)\<close>)
  then show ?case by (simp add: b2)
qed simp

lemma rules_printable: "texts_ok scalar RULES \<and> no_floats RULES"
  by (simp add: RULES_def jtexts_def locale_rule_def scalar_u UNKNOWN_def DEFAULT_SPEC_def) (simp add: scalar_def)

lemma manifest_printable:
  assumes "sha_law env" "printable b"
  shows "no_floats (manifest_of env src seed_file b rej)" "texts_ok scalar (manifest_of env src seed_file b rej)"
proof -
  have "list_all scalar (fst (source_entry env src part)) \<and> texts_ok scalar (snd (source_entry env src part)) \<and> no_floats (snd (source_entry env src part))"
    if "part \<in> set SOURCE_PARTS" for part
    using that
    by (auto simp: source_entry_def SOURCE_PARTS_def source_path_def scalar_u scalar_ascii metadata_printable [OF assms(1)] split: option.split)
  then show "no_floats (manifest_of env src seed_file b rej)" "texts_ok scalar (manifest_of env src seed_file b rej)"
    using assms(2) rules_printable
    by (auto simp: metadata_printable [OF assms(1)] manifest_of_def printable_def scalar_u [unfolded list_all_iff] CONTRACT_VERSION_def CONVERTER_VERSION_def list_all_iff
        case_prod_unfold)
qed

lemma build_into_ok:
  assumes "sha_law env" "mapR reference_product seed = Inr refs" "mapR (converted_rows env src) SOURCE_PARTS = Inr rows"
    "distinct (map product_id (refs @ concat (map (List.map_filter snd) rows)))"
    "distinct (all_skus (refs @ concat (map (List.map_filter snd) rows)))"
    "list_all (\<lambda>p. texts_ok scalar (product_row p)) (refs @ concat (map (List.map_filter snd) rows))"
    "list_all (\<lambda>r. list_all scalar (text_or env (jget (fst r) ''item_id'') [])) (concat rows)"
  shows "\<exists>tr m. build_into env src seed seed_file = Inr (tr, m)"
proof -
  let ?sorted = "sort_key product_id refs @ concat (map (\<lambda>r. sort_key product_id (List.map_filter snd r)) rows)"
  have "mset (concat (map (\<lambda>r. sort_key product_id (List.map_filter snd r)) rows)) = mset (concat (map (List.map_filter snd) rows))" for rows :: "(json \<times> product option) list list"
    by (induction rows) simp_all
  then have "mset (refs @ concat (map (List.map_filter snd) rows)) = mset ?sorted" by simp
  moreover have "\<exists>r. claim_products (\<lambda>_. Inr ()) (refs @ concat (map (List.map_filter snd) rows)) ([], []) = Inr r"
    using assms(4,5) unfolding claim_products_iff by auto
  ultimately obtain ids0 where "claim_products (\<lambda>_. Inr ()) ?sorted ([], []) = Inr ids0" using claim_mset by blast
  then obtain ids ids1 where
      ids: "claim_products (\<lambda>_. Inr ()) (sort_key product_id refs) ([], []) = Inr ids1"
        "claim_products (\<lambda>_. Inr ()) (concat (map (\<lambda>r. sort_key product_id (List.map_filter snd r)) rows)) ids1 = Inr ids"
    unfolding claim_products_append andThen_Inr_iff by blast
  have "list_all strict_product refs"
    using assms(2) reference_product_strict by (auto simp: list_all_iff mapR_Inr_iff dest!: list_all2_in_right)
  moreover have "texts_ok scalar (product_row p)" if "p \<in> set refs" for p using that assms(6) by (simp add: list_all_iff)
  moreover have "claim_products (\<lambda>_. Inr ()) (sort_key product_id refs) (bl_ids empty_build) = Inr ids1" "printable empty_build"
    using ids(1) by (simp_all add: empty_build_def printable_def)
  ultimately obtain b0 where b0: "write_partition env (u ''crossshop_reference'') refs empty_build = Inr b0" "bl_ids b0 = ids1" "printable b0"
    using write_partition_ok [OF assms(1) _ _ scalar_u] by blast
  let ?b = "b0\<lparr>bl_counts := add_counts (u ''crossshop_reference'') refs (bl_counts b0)\<rparr>"
  have pb: "printable ?b" using b0(3) by (auto simp: printable_def add_counts_def scalar_u dest!: set_alist_update)
  have "\<exists>b. build_sources env src SOURCE_PARTS ?b = Inr b \<and> printable b"
    by (rule build_sources_ok [OF assms(1,3) _ _ _ _ pb])
      (use assms(6,7) ids(2) b0(2) in \<open>auto simp: SOURCE_PARTS_def scalar_u [unfolded list_all_iff] list_all_iff\<close>)
  then obtain b where b: "build_sources env src SOURCE_PARTS ?b = Inr b" "printable b" by blast
  have "list_all scalar (dumps (fe_repr env) (rejection_row r))" if "r \<in> set (bl_rejections b)" for r
    using that b(2) by (intro scalar_dumps) (auto simp: printable_def rejection_row_def)
  then have "list_all scalar (jsonl_text env (map rejection_row (sort (bl_rejections b))))"
    by (auto simp: jsonl_text_def list_all_iff scalar_ascii)
  then obtain rej where rej: "utf8_encode (jsonl_text env (map rejection_row (sort (bl_rejections b)))) = Inr rej"
    by (simp add: utf8_encode_def)
  define counts where "counts = AList.update (u ''rejected_records'') (int (length (bl_rejections b)))
             (AList.update (u ''partitions'') (int (length (bl_partitions b))) (bl_counts b))"
  have "printable (b\<lparr>bl_counts := counts\<rparr>)" using b(2) by (auto simp: printable_def counts_def scalar_u dest!: set_alist_update)
  from json_file_ok [OF manifest_printable [OF assms(1) this], of env src seed_file rej] obtain ms where
    "json_file env (manifest_of env src seed_file (b\<lparr>bl_counts := counts\<rparr>) rej) = Inr ms" by blast
  then show ?thesis by (simp add: build_into_def build_files_def assms(2) b0(1) b(1) rej counts_def Let_def)
qed


section \<open>Concrete instances\<close>

definition ex_files_env :: files_env where
  "ex_files_env = \<lparr>fe_sha = \<lambda>bs. replicate 64 48, fe_repr = ex_repr, fe_float = ex_float, fe_str = \<lambda>v. u ''x'', fe_casefold = \<lambda>s. s, fe_nfkc = \<lambda>s. s,
     fe_decimal = \<lambda>s. Inl (ValueError ''Decimal'')\<rparr>"

definition ex_sources :: tree where
  "ex_sources = Map.empty(u ''reference_seed/cn/items.jsonl'' \<mapsto> [], u ''amazon/us/items.jsonl'' \<mapsto> [], u ''amazon/es/items.jsonl'' \<mapsto> [],
     u ''amazon/jp/items.jsonl'' \<mapsto> [])"

definition ex_seed :: "product list" where
  "ex_seed = [ex_product ''p2'' [ex_sku ''s2'' 0], ex_product ''p1'' [ex_sku ''s1'' 3]]"

lemma ex_env_laws: "float_law (fe_float ex_files_env) (fe_repr ex_files_env)" "sha_law ex_files_env"
  by (simp_all add: ex_files_env_def ex_repr_law sha_law_def hex_text_def u_def list_all_iff)

lemma ex_inputs:
  "mapR reference_product ex_seed = Inr ex_seed" "mapR (converted_rows ex_files_env ex_sources) SOURCE_PARTS = Inr [[], [], [], []]"
  "mapR (source_products ex_files_env ex_sources) SOURCE_PARTS = Inr [[], [], [], []]"
  "distinct (map product_id ex_seed)" "distinct (all_skus ex_seed)" "list_all (\<lambda>p. texts_ok scalar (product_row p)) ex_seed"
  by code_simp+

lemma ex_build: "\<exists>tr m. build_into ex_files_env ex_sources ex_seed [] = Inr (tr, m)"
  by (rule build_into_ok [OF ex_env_laws(2) ex_inputs(1,2)]) (simp_all add: ex_inputs(4-6) List.map_filter_def)


lemma catalog_round_trip_witness:
  "\<exists>tr m sids. build_into ex_files_env ex_sources ex_seed [] = Inr (tr, m) \<and> load_repository ex_files_env tr = Inr (rev ex_seed, sids) \<and>
     mset sids = {#u ''s1'', u ''s2''#}"
proof -
  from ex_build obtain tr m where b: "build_into ex_files_env ex_sources ex_seed [] = Inr (tr, m)" by blast
  have "sort_key product_id ex_seed = rev ex_seed" by code_simp
  with catalog_round_trip [OF ex_env_laws b] ex_inputs(1,3) b show ?thesis by (auto simp: ex_seed_def ex_product_def ex_sku_def)
qed

lemma loaded_catalog_sound_witness:
  "\<exists>tr sids. load_repository ex_files_env tr = Inr (rev ex_seed, sids) \<and> sids = rev (all_skus (rev ex_seed)) \<and>
     repo_find (rev ex_seed) (u ''p9'') = None"
proof -
  from ex_build obtain tr m where b: "build_into ex_files_env ex_sources ex_seed [] = Inr (tr, m)" by blast
  have "sort_key product_id ex_seed = rev ex_seed" by code_simp
  with build_loads [OF ex_env_laws b] ex_inputs(1,3) obtain sids where l: "load_repository ex_files_env tr = Inr (rev ex_seed, sids)" by auto
  have "u ''p9'' \<notin> product_id ` set (rev ex_seed)" by (simp add: ex_seed_def ex_product_def)
  with loaded_catalog_sound [OF l] l show ?thesis by blast
qed

section \<open>Ranges and publication\<close>

text \<open>Also: Every Amazon item is sold as one SKU, named after the product, whose price lies between 50.00 and 2000.00 CNY and whose
  stock lies between 0 and 100, whatever the hash of its identifiers; the product satisfies the strict contract.\<close>

theorem amazon_item_bounds:
  assumes "convert_amazon env row = Inr p"
  shows "\<exists>s. skus p = [s] \<and> sku_id s = product_id p @ u '':default'' \<and> currency (price s) = u ''CNY'' \<and>
     amount_in_minor_units (price s) \<in> {5000..200000} \<and> stock s \<in> {0..100} \<and> strict_product p"
  using assms by (rule convert_amazon_shape) auto

definition ex_row :: json where
  "ex_row = JObj [(u ''item_id'', JStr (u ''amazon:jp:B1'')), (u ''locale'', JStr (u ''jp'')), (u ''title'', JStr (u ''Kettle'')), (u ''brand'', JNull)]"

lemma ex_convert: "is_ok (convert_amazon ex_files_env ex_row)"
  by code_simp

lemma amazon_item_bounds_witness:
  "\<exists>p s. convert_amazon ex_files_env ex_row = Inr p \<and> skus p = [s] \<and> amount_in_minor_units (price s) \<in> {5000..200000} \<and> stock s \<in> {0..100}"
proof -
  obtain p where "convert_amazon ex_files_env ex_row = Inr p" using ex_convert by (auto simp: is_ok_iff)
  with amazon_item_bounds [OF this] show ?thesis by blast
qed

lemma remove_backup_result:
  "remove_backup d os = (d1, r, os1) \<Longrightarrow> d_output d1 = d_output d \<and> d_temporary d1 = d_temporary d \<and>
     (r = Inr () \<and> d_backup d1 = None \<or> (\<exists>e. r = Inl e))"
  by (auto simp: remove_backup_def split: if_splits prod.splits outcome.splits)

lemma restore_backup_result:
  "d_output d = None \<Longrightarrow> d_backup d = Some old \<Longrightarrow> d_output (restore_backup True d os) = Some old \<or>
     d_output (restore_backup True d os) = None \<and> d_backup (restore_backup True d os) = Some old"
  by (auto simp: restore_backup_def split: prod.split outcome.split)

lemma swap_in_result:
  assumes "swap_in d os = (d2, r, os2)" "d_backup d = None" "d_output d = Some old" "d_temporary d = Some new"
  shows "(r = Inr () \<and> d_output d2 = Some new \<and> d_temporary d2 = None) \<or>
     (\<exists>e. r = Inl e \<and> (d_output d2 = Some old \<or> d_output d2 = None \<and> d_backup d2 = Some old))"
proof -
  obtain x os1 where 1: "next_outcome os = (x, os1)" by force
  obtain y os3 where 2: "next_outcome os1 = (y, os3)" by force
  let ?d = "d\<lparr>d_backup := d_output d, d_output := None\<rparr>"
  have "d_output (restore_backup True ?d os3) = Some old \<or> d_output (restore_backup True ?d os3) = None \<and> d_backup (restore_backup True ?d os3) = Some old"
    by (rule restore_backup_result) (use assms(3) in simp_all)
  with assms show ?thesis
    by (cases x; cases y) (auto simp: swap_in_def rename_in_def 1 2 restore_backup_def [of False])
qed

lemma publish_cases:
  assumes "publish d os = (d', r)" "d_output d = Some old" "d_temporary d = Some new"
  shows "(r = Inr () \<and> d_output d' = Some new \<and> d_backup d' = None \<and> d_temporary d' = None) \<or>
     (r \<noteq> Inr () \<and> (d_output d' = Some new \<and> d_temporary d' = None \<or> d_output d' = Some old \<or> d_output d' = None \<and> d_backup d' = Some old))"
proof -
  obtain d1 r1 os1 where 1: "remove_backup d os = (d1, r1, os1)" by (cases "remove_backup d os")
  note r1 = remove_backup_result [OF 1]
  obtain d2 r2 os2 where 2: "swap_in d1 os1 = (d2, r2, os2)" by (cases "swap_in d1 os1")
  obtain d3 r3 os3 where 3: "remove_backup d2 os2 = (d3, r3, os3)" by (cases "remove_backup d2 os2")
  note r3 = remove_backup_result [OF 3]
  show ?thesis
  proof (cases r1)
    case (Inl e)
    with assms(1,2) r1 show ?thesis by (simp add: publish_def 1) auto
  next
    case (Inr x)
    with r1 assms have d1: "d_backup d1 = None" "d_output d1 = Some old" "d_temporary d1 = Some new" by auto
    from swap_in_result [OF 2 this] r3 assms(1) Inr show ?thesis
      by (cases r2; cases r3) (auto simp: publish_def 1 2 3)
  qed
qed

text \<open>C4: Whatever step of the publication fails, a published catalog is never lost or replaced by a partial one: after \<open>run\<close> the
  output holds the old catalog, or the complete new one, or nothing while the backup holds the old one, and the temporary
  directory is gone. Without an exception the output is the tree of the build and no backup is left; where the build itself
  raises, the output is untouched.\<close>

theorem run_safe:
  assumes "run env src seed seed_file d os = (d', r)" "d_output d = Some old" "d_temporary d = None"
  shows "d_temporary d' = None \<and>
     (case r of
        Inr m \<Rightarrow> \<exists>tr. build_into env src seed seed_file = Inr (tr, m) \<and> d_output d' = Some tr \<and> d_backup d' = None
      | Inl e \<Rightarrow> d_output d' = Some old \<or> (d_output d' = None \<and> d_backup d' = Some old) \<or>
          (\<exists>tr m. build_into env src seed seed_file = Inr (tr, m) \<and> d_output d' = Some tr)) \<and>
     (\<forall>e. build_into env src seed seed_file = Inl e \<longrightarrow> d_output d' = Some old \<and> d_backup d' = d_backup d)"
proof (cases "list_ex (\<lambda>part. src (source_path (fst part) (snd part)) = None) SOURCE_PARTS")
  case True
  with assms show ?thesis by (auto simp: run_def)
next
  case False
  show ?thesis
  proof (cases "build_into env src seed seed_file")
    case (Inl e)
    with assms False show ?thesis by (auto simp: run_def)
  next
    case (Inr x)
    obtain tr m where b: "build_into env src seed seed_file = Inr (tr, m)" using Inr by (cases x) auto
    obtain d1 r1 where p: "publish (d\<lparr>d_temporary := Some tr\<rparr>) os = (d1, r1)" by force
    from publish_cases [OF p, of old tr] assms(1,2) False b p show ?thesis by (auto simp: run_def split: sum.splits)
  qed
qed

lemma run_safe_witness:
  "\<exists>d' m tr. run ex_files_env ex_sources ex_seed [] \<lparr>d_output = Some Map.empty, d_backup = None, d_temporary = None\<rparr> [] = (d', Inr m) \<and>
     build_into ex_files_env ex_sources ex_seed [] = Inr (tr, m) \<and> d_output d' = Some tr \<and> d_backup d' = None \<and> d_temporary d' = None"
proof -
  let ?d = "\<lparr>d_output = Some Map.empty, d_backup = None, d_temporary = None\<rparr> :: dirs"
  from ex_build obtain tr m where b: "build_into ex_files_env ex_sources ex_seed [] = Inr (tr, m)" by blast
  have "list_ex (\<lambda>part. ex_sources (source_path (fst part) (snd part)) = None) SOURCE_PARTS = False" by code_simp
  then have r: "run ex_files_env ex_sources ex_seed [] ?d [] = (\<lparr>d_output = Some tr, d_backup = None, d_temporary = None\<rparr>, Inr m)"
    by (simp add: run_def b publish_def remove_backup_def swap_in_def rename_in_def)
  from run_safe [OF r] r b show ?thesis by auto
qed

text \<open>Where nothing is published and the only copy is the backup an earlier failure left, the next run removes that copy first: if
  the rename then fails, no catalog is left.\<close>

lemma interrupted_publication_loses_catalog:
  assumes "d_output d = None" "d_backup d = Some old" "d_temporary d = Some new"
  shows "publish d [Done, Failed part] = (d\<lparr>d_backup := None\<rparr>, Inl (OtherError ''OSError''))"
  using assms by (simp add: publish_def remove_backup_def swap_in_def rename_in_def restore_backup_def)

end
