(* ===== verification/Product_Index.thy ===== *)
theory Product_Index
  imports Catalog_Build Catalog_Search Transient
begin

text \<open>
  The product index: the contract of its documents and queries (\<open>app/catalog/opensearch_product_h1.py\<close>), the online
  adapter (\<open>app/infrastructure/vector/opensearch_product_index.py\<close>). The service is a function from request bodies
  to responses. A vector is a list of doubles, \<open>None\<close> for one that is not
  finite; its norm and \<open>float\<close> of a JSON value are parameters. Which exception a value of the wrong JSON kind
  raises is not distinguished.
\<close>

record index_env =
  ie_files :: files_env
  ie_norm :: "rat list \<Rightarrow> rat"
  ie_float :: "json \<Rightarrow> rat option result"

type_synonym vector = "rat option list"

section \<open>The contract\<close>

definition VECTOR_DIMENSION :: nat where "VECTOR_DIMENSION = 1024"
definition EMBEDDING_VERSION :: pystr where "EMBEDDING_VERSION = u ''bge-m3-cls-v1''"
definition RRF_PIPELINE_NAME :: pystr where "RRF_PIPELINE_NAME = u ''crossshop-products-rrf-v1''"

definition REFERENCE_INDEX :: pystr where "REFERENCE_INDEX = u ''crossshop-products-reference-v1''"
definition SEED_INDEX :: pystr where "SEED_INDEX = u ''crossshop-products-reference_seed-v1''"
definition AMAZON_INDEX :: pystr where "AMAZON_INDEX = u ''crossshop-products-amazon-v1''"

definition INDEX_NAMES :: "(pystr, pystr) dict" where
  "INDEX_NAMES = [(u ''crossshop_reference'', REFERENCE_INDEX), (u ''reference_seed'', SEED_INDEX), (u ''amazon'', AMAZON_INDEX)]"

definition TEXT_FIELDS :: "pystr list" where
  "TEXT_FIELDS = map u [''title^4'', ''brand^3'', ''category^3'', ''origin_country'', ''description'', ''highlights.label^2'', ''highlights.detail^2'']"

definition jstr :: "string \<Rightarrow> json" where "jstr s = JStr (u s)"
definition jobj :: "(string \<times> json) list \<Rightarrow> json" where "jobj d = JObj (map (\<lambda>(k, v). (u k, v)) d)"

definition keyword_type :: json where "keyword_type = jobj [(''type'', jstr ''keyword'')]"
definition text_type :: json where "text_type = jobj [(''type'', jstr ''text'')]"
definition text_raw_type :: json where
  "text_raw_type = jobj [(''type'', jstr ''text''), (''fields'', jobj [(''raw'', keyword_type)])]"

definition product_index_body :: json where
  "product_index_body = jobj
     [(''settings'', jobj [(''index'', jobj [(''knn'', JBool True), (''knn.algo_param.ef_search'', JInt 100), (''number_of_shards'', JInt 1),
         (''number_of_replicas'', JInt 0), (''refresh_interval'', jstr ''-1'')])]),
      (''mappings'', jobj [(''dynamic'', jstr ''strict''), (''properties'', jobj
         [(''product_id'', keyword_type), (''title'', text_type), (''brand'', text_raw_type), (''category'', text_raw_type),
          (''origin_country'', keyword_type), (''description'', text_type),
          (''highlights'', jobj [(''properties'', jobj [(''label'', text_raw_type), (''detail'', text_type)])]),
          (''ships_to'', keyword_type),
          (''skus'', jobj [(''type'', jstr ''nested''), (''properties'', jobj [(''sku_id'', keyword_type), (''spec'', text_raw_type),
             (''price'', jobj [(''properties'', jobj [(''amount_in_minor_units'', jobj [(''type'', jstr ''long'')]), (''currency'', keyword_type)])]),
             (''stock'', jobj [(''type'', jstr ''integer'')])])]),
          (''locale'', keyword_type), (''embedding_version'', keyword_type),
          (''content_vector'', jobj [(''type'', jstr ''knn_vector''), (''dimension'', JInt (int VECTOR_DIMENSION)),
             (''method'', jobj [(''name'', jstr ''hnsw''), (''engine'', jstr ''faiss''), (''space_type'', jstr ''innerproduct''),
                (''parameters'', jobj [(''ef_construction'', JInt 100), (''m'', JInt 16)])])])])])]"

definition rrf_pipeline_body :: json where
  "rrf_pipeline_body = jobj [(''description'', jstr ''CrossShop Product ANN and BM25 reciprocal rank fusion''),
     (''phase_results_processors'', JList [jobj [(''score-ranker-processor'',
        jobj [(''combination'', jobj [(''technique'', jstr ''rrf''), (''rank_constant'', JInt 60)])])]])]"

definition exact_fields :: "json \<Rightarrow> pystr list \<Rightarrow> unit result" where
  "exact_fields v fs = (if \<not> is_obj v then Inl (TypeError ''object'') else if same_fields v fs then Inr () else Inl (ValueError ''field mismatch''))"

definition iterate :: "json \<Rightarrow> json list result" where
  "iterate v = (case v of JList l \<Rightarrow> Inr l | JObj d \<Rightarrow> Inr (map (\<lambda>kv. JStr (fst kv)) d) | JStr s \<Rightarrow> Inr (map (\<lambda>c. JStr [c]) s)
     | _ \<Rightarrow> Inl (TypeError ''not iterable''))"

definition below_zero :: "json \<Rightarrow> bool result" where
  "below_zero v = (case v of JInt n \<Rightarrow> Inr (n < 0) | JFloat r \<Rightarrow> Inr (r < 0) | JBool b \<Rightarrow> Inr False | _ \<Rightarrow> Inl (TypeError ''<''))"

fun check_skus :: "json list \<Rightarrow> json list \<Rightarrow> unit result" where
  "check_skus [] seen = Inr ()"
| "check_skus (s # ss) seen =
     andThen (exact_fields s SKU_ROW_FIELDS) (\<lambda>_.
     andThen (exact_fields (jget s ''price'') MONEY_FIELDS) (\<lambda>_.
       if \<not> Json.truthy (jget s ''sku_id'') \<or> jget s ''sku_id'' \<in> set seen then Inl (ValueError ''invalid or duplicate sku_id'')
       else andThen (below_zero (jget s ''stock'')) (\<lambda>a.
            andThen (if a then Inr True else below_zero (jget (jget s ''price'') ''amount_in_minor_units'')) (\<lambda>b.
              if b then Inl (ValueError ''negative price/stock'') else check_skus ss (jget s ''sku_id'' # seen)))))"

definition validate_product :: "json \<Rightarrow> unit result" where
  "validate_product p =
     andThen (exact_fields p PRODUCT_FIELDS) (\<lambda>_.
       if \<not> Json.truthy (jget p ''product_id'') then Inl (ValueError ''Product.product_id required'')
       else if \<not> Json.truthy (jget p ''skus'') then Inl (ValueError ''Product.skus must not be empty'')
       else andThen (iterate (jget p ''highlights'')) (\<lambda>hs. andThen (mapR (\<lambda>h. exact_fields h HIGHLIGHT_FIELDS) hs) (\<lambda>_.
            andThen (iterate (jget p ''skus'')) (\<lambda>ss. check_skus ss []))))"

definition product_searchable_text :: "files_env \<Rightarrow> json \<Rightarrow> pystr result" where
  "product_searchable_text env p =
     andThen (validate_product p) (\<lambda>_. andThen (iterate (jget p ''highlights'')) (\<lambda>hs.
       let highlight_text = join [32] (map (\<lambda>h. text_of env (jget h ''label'') @ [32] @ text_of env (jget h ''detail'')) hs)
       in andThen (mapR need_text (map (jget p) [''title'', ''brand'', ''category'', ''origin_country'', ''description'']))
            (\<lambda>ts. Inr (join [32] (ts @ [highlight_text])))))"

definition finite_vector :: "vector \<Rightarrow> rat list option" where
  "finite_vector v = (if None \<in> set v then None else Some (map the v))"

definition vector_json :: "rat list \<Rightarrow> json" where "vector_json v = JList (map JFloat v)"

definition opt_text :: "pystr option \<Rightarrow> json" where
  "opt_text t = (case t of None \<Rightarrow> JNull | Some s \<Rightarrow> JStr s)"

definition index_document :: "index_env \<Rightarrow> json \<Rightarrow> pystr option \<Rightarrow> vector \<Rightarrow> json result" where
  "index_document env p locale v =
     andThen (validate_product p) (\<lambda>_.
       if locale = Some [] then Inl (ValueError ''locale'')
       else if length v \<noteq> VECTOR_DIMENSION then Inl (ValueError ''content_vector dimensions'')
       else (case finite_vector v of
               None \<Rightarrow> Inl (ValueError ''content_vector contains a non-finite value'')
             | Some xs \<Rightarrow>
                 if \<not> (fl (99 / 100) \<le> ie_norm env xs \<and> ie_norm env xs \<le> fl (101 / 100))
                 then Inl (ValueError ''content_vector must be unit-normalized'')
                 else Inr (JObj (obj_items p @ [(u ''locale'', opt_text locale), (u ''content_vector'', vector_json xs),
                        (u ''embedding_version'', JStr EMBEDDING_VERSION)]))))"

section \<open>Queries\<close>

definition stock_filter :: json where
  "stock_filter = jobj [(''nested'', jobj [(''path'', jstr ''skus''),
     (''query'', jobj [(''range'', jobj [(''skus.stock'', jobj [(''gt'', JInt 0)])])]), (''score_mode'', jstr ''none'')])]"

definition source_excludes :: json where
  "source_excludes = jobj [(''excludes'', JList [jstr ''content_vector''])]"

definition knn_clause :: "rat list \<Rightarrow> int \<Rightarrow> json \<Rightarrow> json" where
  "knn_clause v sz flt = jobj [(''knn'', jobj [(''content_vector'', jobj [(''vector'', vector_json v), (''k'', JInt sz), (''filter'', flt)])])]"

definition match_clause :: "pystr \<Rightarrow> json list \<Rightarrow> json" where
  "match_clause query flts = jobj [(''bool'', jobj [(''must'', JList [jobj [(''multi_match'', jobj [(''query'', JStr query),
     (''fields'', JList (map JStr TEXT_FIELDS))])]]), (''filter'', JList flts)])]"

definition ann_query :: "rat list \<Rightarrow> int \<Rightarrow> json" where
  "ann_query v sz = jobj [(''size'', JInt sz), (''_source'', source_excludes), (''query'', knn_clause v sz stock_filter)]"

definition bm25_query :: "pystr \<Rightarrow> int \<Rightarrow> json" where
  "bm25_query query sz = jobj [(''size'', JInt sz), (''_source'', source_excludes), (''query'', match_clause query [stock_filter])]"

definition SITE_LOCALES :: "pystr list" where "SITE_LOCALES = map u [''us'', ''es'', ''jp'']"

definition site_ok :: "pystr option \<Rightarrow> bool" where
  "site_ok site = (case site of None \<Rightarrow> True | Some s \<Rightarrow> s \<in> set SITE_LOCALES)"

definition locale_filter :: "pystr \<Rightarrow> json" where
  "locale_filter s = jobj [(''term'', jobj [(''locale'', JStr s)])]"

definition hybrid_query :: "pystr \<Rightarrow> rat list \<Rightarrow> int \<Rightarrow> pystr option \<Rightarrow> json result" where
  "hybrid_query query v sz site =
     (if \<not> site_ok site then Inl (ValueError ''unsupported Amazon site locale'')
      else let ann = (case site of None \<Rightarrow> stock_filter | Some s \<Rightarrow> jobj [(''bool'', jobj [(''filter'', JList [stock_filter, locale_filter s])])]);
               flts = (case site of None \<Rightarrow> [stock_filter] | Some s \<Rightarrow> [stock_filter, locale_filter s])
           in Inr (jobj [(''size'', JInt sz), (''_source'', source_excludes),
                (''query'', jobj [(''hybrid'', jobj [(''queries'', JList [knn_clause v sz ann, match_clause query flts])])])]))"

section \<open>The online adapter\<close>

record product_index =
  px_name :: pystr
  px_site :: "pystr option"

definition mk_product_index :: "pystr \<Rightarrow> pystr \<Rightarrow> rat \<Rightarrow> pystr option \<Rightarrow> product_index result" where
  "mk_product_index endpoint name timeout site =
     (if name \<notin> set (map snd INDEX_NAMES) then Inl (ValueError ''unsupported frozen product index'')
      else if blank endpoint then Inl (ValueError ''OpenSearch endpoint required'')
      else if timeout \<le> 0 then Inl (ValueError ''timeout_seconds must be positive'')
      else if \<not> site_ok site then Inl (ValueError ''unsupported Amazon site locale'')
      else if site \<noteq> None \<and> name \<noteq> AMAZON_INDEX then Inl (ValueError ''site_locale is only valid for the Amazon Product index'')
      else Inr \<lparr>px_name = name, px_site = site\<rparr>)"

text \<open>\<open>v[k]\<close> on a JSON value.\<close>

definition getitem :: "json \<Rightarrow> pystr \<Rightarrow> json result" where
  "getitem v k = (if \<not> is_obj v then Inl (TypeError ''not an object'')
     else case map_of (obj_items v) k of None \<Rightarrow> Inl (KeyError ''field'') | Some w \<Rightarrow> Inr w)"

fun getpath :: "json \<Rightarrow> pystr list \<Rightarrow> json result" where
  "getpath v [] = Inr v"
| "getpath v (k # ks) = andThen (getitem v k) (\<lambda>w. getpath w ks)"

definition ensure_ready :: "product_index \<Rightarrow> (exn \<Rightarrow> bool) \<Rightarrow> ('s \<Rightarrow> json result \<times> 's) \<Rightarrow> int \<Rightarrow> 's \<Rightarrow> unit result \<times> 's" where
  "ensure_ready ix retryable get_mapping vdim s =
     (if vdim \<noteq> int VECTOR_DIMENSION then (Inl (ValueError ''vector dimension''), s)
      else case retry_dependency_once retryable get_mapping s of
             (r, _, s') \<Rightarrow>
               (andThen r (\<lambda>m. andThen (getpath m [px_name ix, u ''mappings'', u ''properties'', u ''content_vector'', u ''dimension'']) (\<lambda>d.
                  if (case d of JInt n \<Rightarrow> n = int VECTOR_DIMENSION | JFloat r \<Rightarrow> r = of_nat VECTOR_DIMENSION | _ \<Rightarrow> False) then Inr () else Inl (RuntimeError ''content_vector dimension''))), s'))"

definition upsert_products :: "product list \<Rightarrow> vector list \<Rightarrow> unit result" where
  "upsert_products products embeddings = Inl (RuntimeError ''indexes are offline-built and read-only online'')"

definition source_id :: "json \<Rightarrow> json result" where
  "source_id hit =
     (if \<not> is_obj hit then Inl (OtherError ''AttributeError'')
      else if \<not> jhas hit ''_source'' then Inr JNull
      else if \<not> is_obj (jget hit ''_source'') then Inl (OtherError ''AttributeError'')
      else Inr (jget (jget hit ''_source'') ''product_id''))"

fun read_hits :: "index_env \<Rightarrow> json list \<Rightarrow> pystr list \<Rightarrow> vector_hit list result" where
  "read_hits env [] seen = Inr []"
| "read_hits env (hit # rest) seen =
     andThen (source_id hit) (\<lambda>v.
       case v of
         JStr pid \<Rightarrow>
           if pid = [] then Inl (RuntimeError ''OpenSearch Product hit is missing product_id'')
           else if jget hit ''_id'' \<noteq> JStr pid then Inl (RuntimeError ''OpenSearch identity mismatch'')
           else if pid \<in> set seen then Inl (RuntimeError ''duplicate Product hit'')
           else andThen (getitem hit (u ''_score'')) (\<lambda>sc. andThen (ie_float env sc) (\<lambda>f.
                case f of
                  None \<Rightarrow> Inl (RuntimeError ''non-finite score'')
                | Some r \<Rightarrow> andThen (read_hits env rest (pid # seen)) (\<lambda>hs. Inr (\<lparr>hit_product_id = pid, hit_score = r\<rparr> # hs))))
       | _ \<Rightarrow> Inl (RuntimeError ''OpenSearch Product hit is missing product_id''))"

definition index_search :: "index_env \<Rightarrow> product_index \<Rightarrow> (exn \<Rightarrow> bool) \<Rightarrow> (json \<Rightarrow> 's \<Rightarrow> json result \<times> 's) \<Rightarrow>
    pystr \<Rightarrow> vector \<Rightarrow> int \<Rightarrow> 's \<Rightarrow> vector_hit list result \<times> 's" where
  "index_search env ix retryable post query embedding top_n s =
     (if blank query then (Inl (ValueError ''query required''), s)
      else if top_n \<le> 0 then (Inl (ValueError ''top_n must be positive''), s)
      else if length embedding \<noteq> VECTOR_DIMENSION then (Inl (ValueError ''query embedding dimensions''), s)
      else case finite_vector embedding of
             None \<Rightarrow> (Inl (ValueError ''query embedding contains a non-finite value''), s)
           | Some xs \<Rightarrow>
               (case hybrid_query query xs top_n (px_site ix) of
                  Inl e \<Rightarrow> (Inl e, s)
                | Inr body \<Rightarrow>
                    (case retry_dependency_once retryable (post body) s of
                       (r, _, s') \<Rightarrow> (andThen r (\<lambda>resp. andThen (getpath resp [u ''hits'', u ''hits'']) (\<lambda>hs.
                          andThen (iterate hs) (\<lambda>l. read_hits env l []))), s'))))"

section \<open>Documents of strict products\<close>

lemma sku_row_fields:
  "exact_fields (sku_row s) SKU_ROW_FIELDS = Inr ()" "exact_fields (jget (sku_row s) ''price'') MONEY_FIELDS = Inr ()"
  "jget (sku_row s) ''sku_id'' = JStr (sku_id s)" "jget (sku_row s) ''stock'' = JInt (stock s)"
  "jget (jget (sku_row s) ''price'') ''amount_in_minor_units'' = JInt (amount_in_minor_units (price s))"
  by (simp_all add: sku_row_def exact_fields_def same_fields_def SKU_ROW_FIELDS_def MONEY_FIELDS_def jget_Obj)

lemma check_skus_ok:
  "list_all strict_sku ss \<Longrightarrow> distinct (map sku_id ss) \<Longrightarrow> JStr ` sku_id ` set ss \<inter> set seen = {} \<Longrightarrow> check_skus (map sku_row ss) seen = Inr ()"
proof (induction ss arbitrary: seen)
  case (Cons s ss)
  have "check_skus (map sku_row ss) (JStr (sku_id s) # seen) = Inr ()" using Cons.prems by (intro Cons.IH) auto
  moreover have "sku_id s \<noteq> []" "0 \<le> stock s" "0 \<le> amount_in_minor_units (price s)" "JStr (sku_id s) \<notin> set seen"
    using Cons.prems by (auto simp: strict_sku_def money_ok_def)
  ultimately show ?case
    by (simp add: sku_row_fields below_zero_def)
qed simp

lemma row_validates:
  assumes "strict_product p" "distinct (map sku_id (skus p))"
  shows "validate_product (product_row p) = Inr ()"
proof -
  have "mapR (\<lambda>h. exact_fields h HIGHLIGHT_FIELDS) (map highlight_row (highlights p)) = Inr (map (\<lambda>h. ()) (map highlight_row (highlights p)))"
    by (rule mapR_all_Inr) (auto simp: exact_fields_def highlight_row_def same_fields_def HIGHLIGHT_FIELDS_def)
  moreover have "check_skus (map sku_row (skus p)) [] = Inr ()" using assms by (intro check_skus_ok) (auto simp: strict_product_def)
  ultimately show ?thesis
    using assms(1)
    by (auto simp: validate_product_def product_row_def exact_fields_def same_fields_def PRODUCT_FIELDS_def jget_Obj iterate_def strict_product_def)
qed

text \<open>Also: The text that is encoded and indexed for a product is the text the online program would search: on the row of any strict
  product \<open>product_searchable_text\<close> of the index contract returns exactly \<open>Product.searchable_text\<close>, and the indexed document
  is the row with the locale, the vector and the version of the encoder added.\<close>

theorem index_text_mirrors:
  assumes "strict_product p" "distinct (map sku_id (skus p))"
  shows "product_searchable_text env (product_row p) = Inr (searchable_text p) \<and>
    (\<forall>ienv loc v doc. index_document ienv (product_row p) loc v = Inr doc \<longrightarrow> restore_product (JObj (take 9 (obj_items doc))) = Inr p)"
proof -
  have "mapR need_text (map (jget (product_row p)) [''title'', ''brand'', ''category'', ''origin_country'', ''description''])
      = Inr [title p, brand p, category p, origin_country p, description p]"
    by (simp add: product_row_def jget_Obj need_text_def)
  moreover have "iterate (jget (product_row p) ''highlights'') = Inr (map highlight_row (highlights p))"
    by (simp add: product_row_def jget_Obj iterate_def)
  moreover have "map (\<lambda>h. text_of env (jget h ''label'') @ [32] @ text_of env (jget h ''detail'')) (map highlight_row (highlights p))
      = map (\<lambda>h. label h @ u '' '' @ detail h) (highlights p)"
    by (simp add: highlight_row_def jget_Obj text_of_def u_def)
  ultimately have "product_searchable_text env (product_row p) = Inr (searchable_text p)"
    unfolding product_searchable_text_def row_validates [OF assms] searchable_text_def Let_def
    by (simp only: andThen.simps) (simp add: u_def)
  moreover have "restore_product (JObj (take 9 (obj_items doc))) = Inr p" if "index_document ienv (product_row p) loc v = Inr doc" for ienv loc v doc
  proof -
    from that have "\<exists>d. doc = JObj (obj_items (product_row p) @ d)"
      by (auto simp: index_document_def result_simps split: if_splits option.splits)
    then have "JObj (take 9 (obj_items doc)) = product_row p" by (auto simp: product_row_def)
    with restore_product_row [OF assms(1)] show ?thesis by simp
  qed
  ultimately show ?thesis by blast
qed

section \<open>Hits\<close>

definition hit_of :: "index_env \<Rightarrow> json \<Rightarrow> vector_hit \<Rightarrow> bool" where
  "hit_of env hit h \<longleftrightarrow> jget hit ''_id'' = JStr (hit_product_id h) \<and> jget (jget hit ''_source'') ''product_id'' = JStr (hit_product_id h) \<and>
     ie_float env (jget hit ''_score'') = Inr (Some (hit_score h))"

lemma read_hits_sound:
  "read_hits env l seen = Inr hs \<Longrightarrow> list_all2 (hit_of env) l hs \<and> distinct (map hit_product_id hs) \<and> hit_product_id ` set hs \<inter> set seen = {} \<and>
     [] \<notin> hit_product_id ` set hs"
proof (induction env l seen arbitrary: hs rule: read_hits.induct)
  case (2 env hit rest seen)
  from 2(2) obtain v where v: "source_id hit = Inr v" by (auto simp: result_simps)
  with 2(2) obtain pid where pid: "v = JStr pid" by (cases v) simp_all
  with v 2(2) obtain sc r hs1 where h: "source_id hit = Inr (JStr pid)" "pid \<noteq> []" "jget hit ''_id'' = JStr pid" "pid \<notin> set seen"
      "getitem hit (u ''_score'') = Inr sc" "ie_float env sc = Inr (Some r)" "read_hits env rest (pid # seen) = Inr hs1"
      "hs = \<lparr>hit_product_id = pid, hit_score = r\<rparr> # hs1"
    by (auto simp: result_simps split: if_splits option.splits)
  have "sc = jget hit ''_score''" using h(5) by (auto simp: getitem_def jget_def split: if_splits option.splits)
  moreover have "jget (jget hit ''_source'') ''product_id'' = JStr pid" using h(1) by (auto simp: source_id_def split: if_splits)
  ultimately have "hit_of env hit (hd hs)" using h(3,6,8) by (simp add: hit_of_def)
  moreover have "list_all2 (hit_of env) rest hs1 \<and> distinct (map hit_product_id hs1) \<and> hit_product_id ` set hs1 \<inter> set (pid # seen) = {} \<and>
      [] \<notin> hit_product_id ` set hs1" using 2(1) h by blast
  ultimately show ?case using h(2,4,8) by auto
qed simp

text \<open>C2: The hits of a hybrid search are identified and distinct: an answer of the adapter has one hit for each hit of the response
  of the service, in its order, with the identifier that the document and its source agree on and its finite score; no
  identifier is empty or occurs twice, so the recall of the catalog search never rejects them as duplicates. The request
  is sent at most twice.\<close>

theorem index_hits_identified:
  assumes "index_search env ix retryable post query v n s = (Inr hs, s')"
  shows "\<exists>body resp l s0. hybrid_query query (map the v) n (px_site ix) = Inr body \<and>
     (post body s = (Inr resp, s') \<or> (\<exists>e. post body s = (Inl e, s0) \<and> retryable e \<and> post body s0 = (Inr resp, s'))) \<and>
     getpath resp [u ''hits'', u ''hits''] = Inr l \<and> (\<exists>hits. iterate l = Inr hits \<and> list_all2 (hit_of env) hits hs) \<and>
     distinct (map hit_product_id hs) \<and> [] \<notin> hit_product_id ` set hs"
proof -
  from assms obtain body where b: "hybrid_query query (map the v) n (px_site ix) = Inr body"
      "(case retry_dependency_once retryable (post body) s of (r, _, s'') \<Rightarrow> (andThen r (\<lambda>resp. andThen (getpath resp [u ''hits'', u ''hits'']) (\<lambda>hs.
          andThen (iterate hs) (\<lambda>l. read_hits env l []))), s'')) = (Inr hs, s')"
    by (auto simp: index_search_def finite_vector_def split: if_splits sum.splits)
  obtain r k s1 where r: "retry_dependency_once retryable (post body) s = (r, k, s1)" by (cases "retry_dependency_once retryable (post body) s")
  with b(2) obtain resp l hits where h: "r = Inr resp" "s1 = s'" "getpath resp [u ''hits'', u ''hits''] = Inr l" "iterate l = Inr hits" "read_hits env hits [] = Inr hs"
    by (auto simp: result_simps simp del: getpath.simps)
  have "\<exists>s0. post body s = (Inr resp, s') \<or> (\<exists>e. post body s = (Inl e, s0) \<and> retryable e \<and> post body s0 = (Inr resp, s'))"
    using r h(1,2) by (auto simp: retry_dependency_once_def split: prod.splits sum.splits if_splits)
  with b(1) h(3,4) read_hits_sound [OF h(5)] show ?thesis by blast
qed

text \<open>Both legs of a hybrid query only recall products with a SKU in stock, and of the site where one is given.\<close>

lemma hybrid_filters:
  assumes "hybrid_query query v n site = Inr body"
  shows "\<exists>knn bm. getpath body (map u [''query'', ''hybrid'', ''queries'']) = Inr (JList [knn, bm]) \<and>
     getpath knn (map u [''knn'', ''content_vector'', ''filter'']) =
       Inr (case site of None \<Rightarrow> stock_filter | Some s \<Rightarrow> jobj [(''bool'', jobj [(''filter'', JList [stock_filter, locale_filter s])])]) \<and>
     getpath bm (map u [''bool'', ''filter'']) = Inr (JList (stock_filter # (case site of None \<Rightarrow> [] | Some s \<Rightarrow> [locale_filter s])))"
proof -
  let ?ann = "case site of None \<Rightarrow> stock_filter | Some s \<Rightarrow> jobj [(''bool'', jobj [(''filter'', JList [stock_filter, locale_filter s])])]"
  let ?bm = "stock_filter # (case site of None \<Rightarrow> [] | Some s \<Rightarrow> [locale_filter s])"
  have "body = jobj [(''size'', JInt n), (''_source'', source_excludes),
      (''query'', jobj [(''hybrid'', jobj [(''queries'', JList [knn_clause v n ?ann, match_clause query ?bm])])])]"
    using assms by (cases site) (simp_all add: hybrid_query_def Let_def split: if_splits)
  then have "getpath body (map u [''query'', ''hybrid'', ''queries'']) = Inr (JList [knn_clause v n ?ann, match_clause query ?bm])"
    by (simp add: jobj_def getitem_def)
  moreover have "getpath (knn_clause v n a) (map u [''knn'', ''content_vector'', ''filter'']) = Inr a" for a
    by (simp add: knn_clause_def jobj_def getitem_def)
  moreover have "getpath (match_clause query fs) (map u [''bool'', ''filter'']) = Inr (JList fs)" for fs
    by (simp add: match_clause_def jobj_def getitem_def)
  ultimately show ?thesis by blast
qed

section \<open>Concrete instances\<close>

definition ex_index_env :: index_env where
  "ex_index_env = \<lparr>ie_files = ex_files_env, ie_norm = \<lambda>v. 1, ie_float = \<lambda>v. case v of JFloat r \<Rightarrow> Inr (Some r) | _ \<Rightarrow> Inl (TypeError ''float'')\<rparr>"

definition ex_hit :: "string \<Rightarrow> json" where
  "ex_hit i = jobj [(''_id'', jstr i), (''_score'', JFloat 1), (''_source'', jobj [(''product_id'', jstr i)])]"

definition ex_post :: "json \<Rightarrow> nat \<Rightarrow> json result \<times> nat" where
  "ex_post body n = (if n = 0 then Inl TimeoutError else Inr (jobj [(''hits'', jobj [(''hits'', JList [ex_hit ''p1'', ex_hit ''p2''])])]), n + 1)"

lemma index_text_mirrors_witness:
  "product_searchable_text ex_files_env (product_row (ex_product ''p1'' [ex_sku ''s1'' 3])) = Inr (searchable_text (ex_product ''p1'' [ex_sku ''s1'' 3]))"
proof -
  have "strict_product (ex_product ''p1'' [ex_sku ''s1'' 3])" "distinct (map sku_id (skus (ex_product ''p1'' [ex_sku ''s1'' 3])))" by code_simp+
  from index_text_mirrors [OF this] show ?thesis by blast
qed

lemma ex_found:
  "index_search ex_index_env \<lparr>px_name = AMAZON_INDEX, px_site = Some (u ''us'')\<rparr> (\<lambda>e. e = TimeoutError) ex_post (u ''kettle'') (replicate 1024 (Some 0)) 8 0
     = (Inr [\<lparr>hit_product_id = u ''p1'', hit_score = 1\<rparr>, \<lparr>hit_product_id = u ''p2'', hit_score = 1\<rparr>], 2)"
  by (simp add: index_search_def VECTOR_DIMENSION_def finite_vector_def hybrid_query_def site_ok_def SITE_LOCALES_def retry_dependency_once_def ex_post_def
    getitem_def jobj_def iterate_def ex_hit_def source_id_def jhas_def jget_def jstr_def ex_index_env_def Let_def) (simp add: u_def blank_def is_space_def)

lemma index_hits_identified_witness:
  "\<exists>hs s'. index_search ex_index_env \<lparr>px_name = AMAZON_INDEX, px_site = Some (u ''us'')\<rparr> (\<lambda>e. e = TimeoutError) ex_post (u ''kettle'')
     (replicate 1024 (Some 0)) 8 0 = (Inr hs, s') \<and> map hit_product_id hs = [u ''p1'', u ''p2''] \<and> distinct (map hit_product_id hs)"
  using index_hits_identified [OF ex_found] ex_found by auto

end
