(* ===== verification/Index_Resume.thy ===== *)
theory Index_Resume
  imports Index_Build
begin

text \<open>
  Why a broken build can be repeated: the invariant of \<open>build_partition\<close> relates the checkpoint, what waits in memory and
  the documents of the index to a split of the partition's documents into those that are done, pending and to come.
\<close>

section \<open>Documents of a partition\<close>

definition doc_of_row :: "index_env \<Rightarrow> partition \<Rightarrow> (pystr \<Rightarrow> vector) \<Rightarrow> int \<times> pystr \<Rightarrow> (pystr \<times> json \<times> int) result" where
  "doc_of_row env pt enc r =
     (case loads (fe_float (ie_files env)) (snd r) of
        None \<Rightarrow> Inl (ValueError ''JSONDecodeError'')
      | Some row \<Rightarrow> andThen (product_searchable_text (ie_files env) row) (\<lambda>t. row_document env pt (fst r, row) (enc t)))"

definition partition_docs :: "index_env \<Rightarrow> partition \<Rightarrow> (pystr \<Rightarrow> vector) \<Rightarrow> int list \<Rightarrow> (pystr \<times> json \<times> int) list result" where
  "partition_docs env pt enc source = andThen (utf8_decode source) (\<lambda>text. mapR (doc_of_row env pt enc) (numbered_rows text))"

definition row_rel :: "index_env \<Rightarrow> partition \<Rightarrow> (pystr \<Rightarrow> vector) \<Rightarrow> int \<times> json \<Rightarrow> pystr \<times> json \<times> int \<Rightarrow> bool" where
  "row_rel env pt enc row d \<longleftrightarrow> (\<exists>t. product_searchable_text (ie_files env) (snd row) = Inr t \<and> row_document env pt row (enc t) = Inr d)"

lemma doc_of_row_line: "doc_of_row env pt enc r = Inr d \<Longrightarrow> snd (snd d) = fst r"
  by (auto simp: doc_of_row_def row_document_def result_simps split: option.splits)

lemma numbered_rows_sorted: "sorted_wrt (<) (map fst (numbered_rows text))" "\<forall>r\<in>set (numbered_rows text). 0 < fst r"
proof -
  have "sorted_wrt (<) (map fst (map (\<lambda>(i, line). (int i, line)) (enumerate 1 ls)))" for ls :: "pystr list"
    by (simp add: sorted_wrt_map case_prod_unfold) (simp add: sorted_wrt_iff_nth_less nth_enumerate_eq)
  then show "sorted_wrt (<) (map fst (numbered_rows text))"
    unfolding numbered_rows_def by (simp only: sorted_wrt_map sorted_wrt_filter)
  show "\<forall>r\<in>set (numbered_rows text). 0 < fst r" by (auto simp: numbered_rows_def in_set_enumerate_eq)
qed

lemma filter_after:
  "sorted_wrt (<) (map fst (A @ B)) \<Longrightarrow> A \<noteq> [] \<Longrightarrow> filter (\<lambda>(i, x). fst (last A) < i) (A @ B) = B" for A B :: "(int \<times> 'x) list"
proof -
  assume s: "sorted_wrt (<) (map fst (A @ B))" and "A \<noteq> []"
  then obtain A' a where A: "A = A' @ [a]" by (cases A rule: rev_cases) auto
  have "filter (\<lambda>(i, x). fst (last A) < i) A = []" using s by (auto simp: A sorted_wrt_append filter_empty_conv)
  moreover have "filter (\<lambda>(i, x). fst (last A) < i) B = B" using s by (auto simp: A sorted_wrt_append filter_id_conv)
  ultimately show ?thesis by simp
qed

section \<open>The checkpoint cf\<close>

definition flat :: "json \<Rightarrow> bool" where
  "flat v = (case v of JStr s \<Rightarrow> list_all scalar s | JNull \<Rightarrow> True | JBool b \<Rightarrow> True | JInt n \<Rightarrow> True | _ \<Rightarrow> False)"

lemma flat_simps: "flat v \<Longrightarrow> sort_json v = v \<and> json_ok v \<and> no_floats v \<and> texts_ok scalar v"
  by (cases v) (simp_all add: flat_def)

definition state_ok :: "checkpoint \<Rightarrow> (pystr \<times> json \<times> int) list \<Rightarrow> (pystr \<times> json \<times> int) list \<Rightarrow> checkpoint \<Rightarrow> bool" where
  "state_ok contract D done st \<longleftrightarrow> dict_ok st \<and> (\<forall>(k, w)\<in>set contract. map_of st k = Some w) \<and>
     map_of st (u ''next_line'') = Some (JInt (if done = [] then 0 else snd (snd (last done)))) \<and>
     map_of st (u ''docs_written'') = Some (JInt (int (length done))) \<and>
     (\<exists>c. map_of st (u ''completed'') = Some (JBool c) \<and> (c \<longrightarrow> done = D)) \<and>
     (\<forall>(k, v)\<in>set st. list_all scalar k \<and> flat v)"

definition file_ok :: "index_env \<Rightarrow> checkpoint \<Rightarrow> (pystr \<times> json \<times> int) list \<Rightarrow> (pystr \<times> json \<times> int) list \<Rightarrow> int list option \<Rightarrow> bool" where
  "file_ok env contract D done cf \<longleftrightarrow> (cf = None \<and> done = []) \<or>
     (\<exists>st bs. cf = Some bs \<and> json_file (ie_files env) (JObj st) = Inr bs \<and> state_ok contract D done st)"

definition contract_ok :: "checkpoint \<Rightarrow> bool" where
  "contract_ok contract \<longleftrightarrow> dict_ok (fresh_checkpoint contract) \<and> (\<forall>(k, v)\<in>set contract. list_all scalar k \<and> flat v)"

lemma fresh_ok:
  assumes "contract_ok contract"
  shows "state_ok contract D [] (fresh_checkpoint contract)"
proof -
  from assms have d: "dict_ok (fresh_checkpoint contract)" and f: "\<forall>(k, v)\<in>set contract. list_all scalar k \<and> flat v"
    by (simp_all add: contract_ok_def)
  have m: "map_of (fresh_checkpoint contract) k = Some v" if "(k, v) \<in> set (fresh_checkpoint contract)" for k v
    using d that by (simp add: dict_ok_def dkeys_def)
  let ?st = "fresh_checkpoint contract"
  have "map_of ?st (u ''next_line'') = Some (JInt 0)" "map_of ?st (u ''docs_written'') = Some (JInt 0)"
    "map_of ?st (u ''completed'') = Some (JBool False)" by (rule m, simp add: fresh_checkpoint_def)+
  moreover have "\<forall>(k, w)\<in>set contract. map_of ?st k = Some w" using m by (auto simp: fresh_checkpoint_def)
  moreover have "\<forall>(k, v)\<in>set ?st. list_all scalar k \<and> flat v" using f by (auto simp: fresh_checkpoint_def flat_def scalar_u)
  ultimately show ?thesis using d unfolding state_ok_def by auto
qed

lemma sort_flat: "(\<forall>(k, v)\<in>set st. flat v) \<Longrightarrow> sort_json (JObj st) = JObj (sort_key fst st)"
proof -
  assume "\<forall>(k, v)\<in>set st. flat v"
  then have "map (\<lambda>(k, v). (k, sort_json v)) st = st" using flat_simps by (induction st) auto
  then show ?thesis by simp
qed

lemma state_ok_sort:
  assumes "state_ok contract D done st"
  shows "state_ok contract D done (sort_key fst st)"
proof -
  have d: "distinct (map fst st)" using assms by (simp add: state_ok_def dict_ok_def dkeys_def)
  from map_of_sort [OF this] distinct_sort_fst [OF this] assms show ?thesis unfolding state_ok_def dict_ok_def dkeys_def by auto
qed

lemma load_file:
  assumes "float_law (fe_float (ie_files env)) (fe_repr (ie_files env))" "contract_ok contract" "file_ok env contract D done cf"
  shows "\<exists>st. load_checkpoint env cf contract = Inr st \<and> state_ok contract D done st"
proof (cases cf)
  case None
  with assms(2,3) fresh_ok show ?thesis by (auto simp: load_checkpoint_def file_ok_def)
next
  case (Some bs)
  with assms(3) obtain st where st: "json_file (ie_files env) (JObj st) = Inr bs" "state_ok contract D done st" by (auto simp: file_ok_def)
  let ?t = "dumps_indent (fe_repr (ie_files env)) 0 (JObj st) @ [10]"
  have t: "utf8_decode bs = Inr ?t" using st(1) utf8_round_trip by (simp add: json_file_def)
  have fl: "\<forall>(k, v)\<in>set st. flat v" using st(2) by (auto simp: state_ok_def)
  then have "json_ok (JObj st)" using st(2) flat_simps by (auto simp: state_ok_def dict_ok_def dkeys_def list_all_iff)
  from reads_loads [OF reads_dumps_indent [OF assms(1) this, of False 0], of "[10]"] sort_flat [OF fl]
  have l: "loads (fe_float (ie_files env)) ?t = Some (JObj (sort_key fst st))"
    by (simp add: loads_def spaces_def json_space_def)
  note so = state_ok_sort [OF st(2)]
  then have "list_all (\<lambda>(k, w). (case map_of (sort_key fst st) k of None \<Rightarrow> JNull | Some x \<Rightarrow> x) = w) contract"
    by (auto simp: state_ok_def list_all_iff)
  with so show ?thesis by (simp add: load_checkpoint_def Some t l del: dumps_indent.simps)
qed

lemma write_ok:
  assumes "state_ok contract D done (bg_state b)"
  obtains (works) bs io where "write_checkpoint env b = (Inr (), b\<lparr>bg_io := io, bg_file := Some bs\<rparr>)" "file_ok env contract D done (Some bs)" "bg_io b = [] \<Longrightarrow> io = []"
  | (breaks) e io where "write_checkpoint env b = (Inl e, b\<lparr>bg_io := io\<rparr>)" "bg_io b \<noteq> []"
proof -
  have "no_floats (JObj (bg_state b))" "texts_ok scalar (JObj (bg_state b))"
    using assms flat_simps by (auto simp: state_ok_def list_all_iff)
  then obtain bs where bs: "json_file (ie_files env) (JObj (bg_state b)) = Inr bs" using json_file_ok by blast
  obtain x io where x: "next_io (bg_io b) = (x, io)" by force
  show thesis
  proof (cases x)
    case Works
    show thesis
    proof (rule works)
      show "write_checkpoint env b = (Inr (), b\<lparr>bg_io := io, bg_file := Some bs\<rparr>)" by (simp add: write_checkpoint_def bs take_io_def x Works)
      show "file_ok env contract D done (Some bs)" using bs assms by (auto simp: file_ok_def)
      show "io = []" if "bg_io b = []" using that x by simp
    qed
  next
    case (Breaks ks)
    show thesis
      by (rule breaks [of "OtherError ''OSError''" io]) (use x Breaks in \<open>auto simp: write_checkpoint_def bs take_io_def\<close>)
  qed
qed

section \<open>The documents of the index\<close>

type_synonym doc_action = "pystr \<times> json \<times> int"

definition docs_ok :: "doc_action list \<Rightarrow> (pystr \<Rightarrow> json option) \<Rightarrow> doc_action list \<Rightarrow> (pystr \<Rightarrow> json option) \<Rightarrow> bool" where
  "docs_ok D before done docs \<longleftrightarrow> (\<forall>d\<in>set done. docs (fst d) = Some (fst (snd d))) \<and>
     (\<forall>x. docs x = before x \<or> (\<exists>d\<in>set D. fst d = x \<and> docs x = Some (fst (snd d))))"

lemma put_docs_append: "put_docs (as @ bs) docs = put_docs bs (put_docs as docs)"
  by (simp add: put_docs_def)

lemma put_docs_other: "x \<notin> fst ` set acts \<Longrightarrow> put_docs acts docs x = docs x"
  by (induction acts arbitrary: docs) (auto simp: put_docs_def split: prod.split)

lemma put_docs_at:
  assumes "set acts \<subseteq> set D" "distinct (map fst D)" "d \<in> set acts"
  shows "put_docs acts docs (fst d) = Some (fst (snd d))"
  using assms(1,3)
proof (induction acts rule: rev_induct)
  case (snoc a acts)
  have e: "put_docs (acts @ [a]) docs = (put_docs acts docs)(fst a \<mapsto> fst (snd a))" by (simp add: put_docs_def split: prod.split)
  have "a = d" if "fst a = fst d" using that snoc.prems assms(2) by (auto dest: eq_key_imp_eq_value simp: distinct_map inj_on_def)
  with snoc show ?case by (auto simp: e)
qed simp

lemma put_docs_ok:
  assumes "docs_ok D before done docs" "set acts \<subseteq> set D" "distinct (map fst D)" "set done' \<subseteq> set done \<union> set acts" "set done \<subseteq> set D"
  shows "docs_ok D before done' (put_docs acts docs)"
  unfolding docs_ok_def
proof (intro conjI ballI allI)
  have inD: "\<And>d. d \<in> set acts \<Longrightarrow> d \<in> set D" using assms(2) by auto
  have uniq: "d = d'" if "d \<in> set D" "d' \<in> set D" "fst d = fst d'" for d d' using that assms(3) by (auto simp: distinct_map inj_on_def)
  show "put_docs acts docs (fst d) = Some (fst (snd d))" if d: "d \<in> set done'" for d
  proof (cases "fst d \<in> fst ` set acts")
    case True
    then obtain a where a: "a \<in> set acts" "fst a = fst d" by force
    have "a = d" using uniq [of a d] a d assms(4,5) inD by blast
    with put_docs_at [OF assms(2,3) a(1)] show ?thesis by simp
  next
    case False
    then have "d \<in> set done" using d assms(4) by force
    with False put_docs_other assms(1) show ?thesis by (simp add: docs_ok_def)
  qed
  show "put_docs acts docs x = before x \<or> (\<exists>d\<in>set D. fst d = x \<and> put_docs acts docs x = Some (fst (snd d)))" for x
  proof (cases "x \<in> fst ` set acts")
    case True
    then obtain a where "a \<in> set acts" "fst a = x" by force
    with put_docs_at [OF assms(2,3)] inD show ?thesis by blast
  next
    case False
    with put_docs_other assms(1) show ?thesis by (simp add: docs_ok_def)
  qed
qed

section \<open>The invariant of a run\<close>

record setting =
  se_env :: index_env
  se_partition :: partition
  se_encode :: "pystr list \<Rightarrow> vector list result"
  se_enc :: "pystr \<Rightarrow> vector"
  se_contract :: checkpoint
  se_docs :: "doc_action list"
  se_before :: "pystr \<Rightarrow> json option"

definition setting_ok :: "setting \<Rightarrow> bool" where
  "setting_ok S \<longleftrightarrow> float_law (fe_float (ie_files (se_env S))) (fe_repr (ie_files (se_env S))) \<and> contract_ok (se_contract S) \<and>
     distinct (map fst (se_docs S)) \<and> list_all (\<lambda>d. list_all scalar (fst d)) (se_docs S) \<and> (\<forall>ts. se_encode S ts = Inr (map (se_enc S) ts))"

definition persisted :: "setting \<Rightarrow> building \<Rightarrow> bool" where
  "persisted S b \<longleftrightarrow> (\<exists>don rest. se_docs S = don @ rest \<and> file_ok (se_env S) (se_contract S) (se_docs S) don (bg_file b) \<and>
     docs_ok (se_docs S) (se_before S) don (bg_docs b))"

definition binv :: "setting \<Rightarrow> doc_action list \<Rightarrow> doc_action list \<Rightarrow> doc_action list \<Rightarrow> doc_action list \<Rightarrow> building \<Rightarrow> bool" where
  "binv S don pend bat rest b \<longleftrightarrow> se_docs S = don @ pend @ bat @ rest \<and> bg_pending b = pend \<and>
     list_all2 (row_rel (se_env S) (se_partition S) (se_enc S)) (bg_batch b) bat \<and>
     state_ok (se_contract S) (se_docs S) don (bg_state b) \<and> map_of (bg_state b) (u ''completed'') = Some (JBool False) \<and>
     file_ok (se_env S) (se_contract S) (se_docs S) don (bg_file b) \<and> docs_ok (se_docs S) (se_before S) don (bg_docs b)"

lemma binvD:
  assumes "binv S don pend bat rest b"
  shows "se_docs S = don @ pend @ bat @ rest" "bg_pending b = pend" "state_ok (se_contract S) (se_docs S) don (bg_state b)"
    "map_of (bg_state b) (u ''completed'') = Some (JBool False)" "file_ok (se_env S) (se_contract S) (se_docs S) don (bg_file b)"
    "docs_ok (se_docs S) (se_before S) don (bg_docs b)" "list_all2 (row_rel (se_env S) (se_partition S) (se_enc S)) (bg_batch b) bat"
  using assms unfolding binv_def by blast+

lemma binv_persisted: "binv S don pend bat rest b \<Longrightarrow> persisted S b"
  by (auto simp: binv_def persisted_def)

text \<open>What an operation may do: succeed and establish \<open>Q\<close>, or raise and leave what is persistent in order; it succeeds where
  nothing fails.\<close>

definition safe_step :: "setting \<Rightarrow> (building \<Rightarrow> bool) \<Rightarrow> building \<Rightarrow> 'a result \<times> building \<Rightarrow> bool" where
  "safe_step S Q b rb \<longleftrightarrow> (case fst rb of Inr x \<Rightarrow> Q (snd rb) | Inl e \<Rightarrow> persisted S (snd rb)) \<and>
     (bg_io b = [] \<longrightarrow> (\<exists>x. fst rb = Inr x) \<and> bg_io (snd rb) = [])"

lemma safe_step_then:
  assumes "safe_step S Q b (m b)" "\<And>x b1. m b = (Inr x, b1) \<Longrightarrow> Q b1 \<Longrightarrow> safe_step S R b1 (k x b1)"
  shows "safe_step S R b (thenS m k b)"
proof -
  obtain r b1 where m: "m b = (r, b1)" by force
  show ?thesis
  proof (cases r)
    case (Inl e)
    with assms(1) m show ?thesis by (simp add: safe_step_def thenS_def)
  next
    case (Inr x)
    from assms(2) [of x b1] assms(1) m Inr have "safe_step S R b1 (k x b1)" by (simp add: safe_step_def)
    with assms(1) show ?thesis by (auto simp: safe_step_def thenS_def m Inr)
  qed
qed

lemma state_update:
  assumes "state_ok contract D don st" "map_of st (u ''completed'') = Some (JBool False)" "pend \<noteq> []" "contract_ok contract"
    "list_all scalar (fst (last pend))"
  defines "st' \<equiv> AList.update (u ''last_product_id'') (JStr (fst (last pend)))
      (AList.update (u ''docs_written'') (JInt (int (length don) + int (length pend))) (AList.update (u ''next_line'') (JInt (snd (snd (last pend)))) st))"
  shows "state_ok contract D (don @ pend) st' \<and> map_of st' (u ''completed'') = Some (JBool False)"
proof -
  have "fst ` set contract \<inter> {u ''next_line'', u ''docs_written'', u ''last_product_id'', u ''completed''} = {}"
    using assms(4) by (simp add: contract_ok_def fresh_checkpoint_def dict_ok_def dkeys_def)
  moreover have "k \<in> fst ` set contract" if "(k, w) \<in> set contract" for k w using that by force
  ultimately have keys: "k \<notin> {u ''next_line'', u ''docs_written'', u ''last_product_id'', u ''completed''}" if "(k, w) \<in> set contract" for k w
    using that by blast
  have "map_of st' k = Some w" if "(k, w) \<in> set contract" for k w
  proof -
    have "map_of st k = Some w" using assms(1) that by (auto simp: state_ok_def)
    with keys [OF that] show ?thesis by (simp add: st'_def dict_simps)
  qed
  then have "\<forall>(k, w)\<in>set contract. map_of st' k = Some w" by blast
  moreover have "\<forall>(k, v)\<in>set st'. list_all scalar k \<and> flat v"
    using assms(1,5) by (auto simp: st'_def state_ok_def flat_def scalar_u dest!: set_alist_update)
  moreover have "dict_ok st'" using assms(1) by (simp add: st'_def state_ok_def)
  ultimately show ?thesis using assms(2,3) by (auto simp: state_ok_def st'_def dict_simps)
qed

lemma flush_bulk_safe:
  assumes "setting_ok S" "binv S don pend bat rest b"
  shows "safe_step S (binv S (don @ pend) [] bat rest) b (flush_bulk (se_env S) b)"
proof (cases "pend = []")
  case True
  have "binv S (don @ pend) [] bat rest b" using assms(2) unfolding True append_Nil2 .
  moreover have "flush_bulk (se_env S) b = (Inr (), b)" using assms(2) True by (simp add: flush_bulk_def binv_def)
  ultimately show ?thesis by (simp add: safe_step_def)
next
  case False
  let ?D = "se_docs S" and ?c = "se_contract S"
  have b: "?D = don @ pend @ bat @ rest" "bg_pending b = pend" "state_ok ?c ?D don (bg_state b)"
      "map_of (bg_state b) (u ''completed'') = Some (JBool False)" "file_ok (se_env S) ?c ?D don (bg_file b)" "docs_ok ?D (se_before S) don (bg_docs b)"
    by (fact binvD [OF assms(2)])+
  from assms(1) have s: "contract_ok ?c" "distinct (map fst ?D)" "list_all (\<lambda>d. list_all scalar (fst d)) ?D" by (simp_all add: setting_ok_def)
  obtain x io where x: "next_io (bg_io b) = (x, io)" by force
  have docs: "docs_ok ?D (se_before S) don' (put_docs acts (bg_docs b))" if "set acts \<subseteq> set pend" "set don' \<subseteq> set don \<union> set acts" for don' acts
    by (rule put_docs_ok [OF b(6) _ s(2) that(2)]) (use that(1) b(1) in auto)
  show ?thesis
  proof (cases x)
    case (Breaks ks)
    have "set [pend ! k. k \<leftarrow> ks, k < length pend] \<subseteq> set pend" by auto
    from docs [OF this, of don] have "docs_ok ?D (se_before S) don (put_docs [pend ! k. k \<leftarrow> ks, k < length pend] (bg_docs b))" by auto
    with b(1,5) have "persisted S (b\<lparr>bg_io := io, bg_docs := put_docs [pend ! k. k \<leftarrow> ks, k < length pend] (bg_docs b)\<rparr>)"
      unfolding persisted_def by auto
    then show ?thesis unfolding flush_bulk_def b(2) using False x by (auto simp: take_io_def Breaks safe_step_def)
  next
    case Works
    have "last pend \<in> set ?D" using False b(1) by simp
    then have "list_all scalar (fst (last pend))" using s(3) by (simp add: list_all_iff)
    note st = state_update [OF b(3,4) False s(1) this]
    let ?st = "AList.update (u ''last_product_id'') (JStr (fst (last pend)))
      (AList.update (u ''docs_written'') (JInt (int (length don) + int (length pend))) (AList.update (u ''next_line'') (JInt (snd (snd (last pend)))) (bg_state b)))"
    let ?b = "b\<lparr>bg_io := io, bg_docs := put_docs pend (bg_docs b), bg_state := ?st\<rparr>"
    have d: "docs_ok ?D (se_before S) don (put_docs pend (bg_docs b))" "docs_ok ?D (se_before S) (don @ pend) (put_docs pend (bg_docs b))"
      by (rule docs; auto)+
    have lk: "andThen (lookup (bg_state b) ''docs_written'') (py_int (\<lambda>_. Inl (TypeError ''+''))) = Inr (int (length don))"
      using b(3) by (simp add: state_ok_def lookup_def py_int_def)
    have e: "flush_bulk (se_env S) b = thenS (write_checkpoint (se_env S)) (\<lambda>_ b3. (Inr (), b3\<lparr>bg_pending := []\<rparr>)) ?b"
      using False x by (simp add: flush_bulk_def b(2) take_io_def Works Let_def lk case_prod_unfold)
    have io: "bg_io b = [] \<Longrightarrow> bg_io ?b = []" using x by simp
    from st have "state_ok ?c ?D (don @ pend) (bg_state ?b)" by simp
    then show ?thesis
    proof (cases rule: write_ok [where env = "se_env S", consumes 1])
      case (works bs io')
      have "binv S (don @ pend) [] bat rest (?b\<lparr>bg_io := io', bg_file := Some bs, bg_pending := []\<rparr>)"
        using assms(2) st works(2) d(2) by (simp add: binv_def)
      then show ?thesis unfolding e thenS_def works(1) using io works(3) by (simp add: safe_step_def)
    next
      case (breaks er io')
      have "persisted S (?b\<lparr>bg_io := io'\<rparr>)" unfolding persisted_def using b(1,5) d(1) by auto
      then show ?thesis unfolding e thenS_def breaks(1) using io breaks(2) by (auto simp: safe_step_def)
    qed
  qed
qed

lemma flush_encoded_safe:
  assumes "setting_ok S" "binv S don pend bat rest b"
  shows "safe_step S (\<lambda>b'. \<exists>don' pend'. binv S don' pend' [] rest b') b (flush_encoded (se_env S) (se_partition S) (se_encode S) n b)"
proof (cases "bg_batch b = []")
  case True
  with binvD(7) [OF assms(2)] have "bat = []" by simp
  with assms(2) True show ?thesis by (auto simp: flush_encoded_def safe_step_def)
next
  case False
  note b = binvD [OF assms(2)]
  let ?R = "\<lambda>row d. product_searchable_text (ie_files (se_env S)) (snd row) = Inr (projr (product_searchable_text (ie_files (se_env S)) (snd row))) \<and>
    row_document (se_env S) (se_partition S) row (se_enc S (projr (product_searchable_text (ie_files (se_env S)) (snd row)))) = Inr d"
  have R: "list_all2 ?R (bg_batch b) bat" using b(7) by (rule list_all2_mono) (auto simp: row_rel_def)
  define texts where "texts = map (\<lambda>row. projr (product_searchable_text (ie_files (se_env S)) (snd row))) (bg_batch b)"
  have t: "mapR (\<lambda>row. product_searchable_text (ie_files (se_env S)) (snd row)) (bg_batch b) = Inr texts"
    unfolding texts_def by (rule mapR_all_Inr) (use R in \<open>auto simp: list_all2_conv_all_nth in_set_conv_nth\<close>)
  have "mapR (\<lambda>(row, v). row_document (se_env S) (se_partition S) row v) (zip (bg_batch b) (map (se_enc S) texts)) = Inr bat"
    using R by (simp add: mapR_Inr_iff list_all2_conv_all_nth texts_def)
  moreover have "se_encode S texts = Inr (map (se_enc S) texts)" using assms(1) by (simp add: setting_ok_def)
  ultimately have v: "andThen (se_encode S texts) (\<lambda>vs. mapR (\<lambda>(row, v). row_document (se_env S) (se_partition S) row v) (zip (bg_batch b) vs)) = Inr bat"
    by simp
  obtain x io where x: "next_io (bg_io b) = (x, io)" by force
  show ?thesis
  proof (cases x)
    case (Breaks ks)
    have "persisted S (b\<lparr>bg_io := io\<rparr>)" using binv_persisted [OF assms(2)] by (simp add: persisted_def)
    moreover have "bg_io b \<noteq> []" using x Breaks by auto
    ultimately show ?thesis unfolding flush_encoded_def t using False x by (simp add: take_io_def Breaks safe_step_def)
  next
    case Works
    let ?b = "b\<lparr>bg_io := io, bg_pending := bg_pending b @ bat, bg_batch := []\<rparr>"
    have i: "binv S don (pend @ bat) [] rest ?b" using assms(2) unfolding binv_def by auto
    have io: "bg_io b = [] \<Longrightarrow> bg_io ?b = []" using x by auto
    have e: "flush_encoded (se_env S) (se_partition S) (se_encode S) n b
        = (if n \<le> length (bg_pending ?b) then flush_bulk (se_env S) ?b else (Inr (), ?b))"
      unfolding flush_encoded_def t take_io_def x Works using False by (simp add: v Let_def)
    show ?thesis
    proof (cases "n \<le> length (bg_pending ?b)")
      case True
      with flush_bulk_safe [OF assms(1) i] io show ?thesis unfolding e by (auto simp: safe_step_def split: sum.splits)
    next
      case F: False
      with i io show ?thesis unfolding e by (auto simp: safe_step_def)
    qed
  qed
qed

lemma safe_step_weaken:
  "safe_step S Q b1 rb \<Longrightarrow> (bg_io b = [] \<Longrightarrow> bg_io b1 = []) \<Longrightarrow> (\<And>b'. Q b' \<Longrightarrow> R b') \<Longrightarrow> safe_step S R b rb"
  by (auto simp: safe_step_def split: sum.splits)

lemma build_rows_safe:
  assumes "setting_ok S" "binv S don pend bat rest b" "list_all2 (\<lambda>r d. doc_of_row (se_env S) (se_partition S) (se_enc S) r = Inr d) rows rest"
  shows "safe_step S (binv S (se_docs S) [] [] []) b (build_rows (se_env S) (se_partition S) (se_encode S) k n rows b)"
  using assms(2,3)
proof (induction rows arbitrary: don pend bat rest b)
  case Nil
  then have i: "binv S don pend bat [] b" by simp
  show ?case unfolding build_rows.simps
  proof (rule safe_step_then [where m = "flush_encoded (se_env S) (se_partition S) (se_encode S) n", OF flush_encoded_safe [OF assms(1) i]])
    fix x b1 assume "\<exists>don' pend'. binv S don' pend' [] [] b1"
    then obtain don' pend' where j: "binv S don' pend' [] [] b1" by blast
    then have "don' @ pend' = se_docs S" using binvD(1) [OF j] by simp
    with flush_bulk_safe [OF assms(1) j] show "safe_step S (binv S (se_docs S) [] [] []) b1 (flush_bulk (se_env S) b1)" by simp
  qed
next
  case (Cons r rows)
  from Cons.prems(2) obtain d rest1 where r: "rest = d # rest1" "doc_of_row (se_env S) (se_partition S) (se_enc S) r = Inr d"
      "list_all2 (\<lambda>r d. doc_of_row (se_env S) (se_partition S) (se_enc S) r = Inr d) rows rest1" by (auto simp: list_all2_Cons1)
  obtain i line where rl: "r = (i, line)" by force
  from r(2) obtain row where row: "loads (fe_float (ie_files (se_env S))) line = Some row" "row_rel (se_env S) (se_partition S) (se_enc S) (i, row) d"
    by (auto simp: rl doc_of_row_def row_rel_def result_simps split: option.splits)
  let ?b = "b\<lparr>bg_batch := bg_batch b @ [(i, row)]\<rparr>"
  have j: "binv S don pend (bat @ [d]) rest1 ?b"
    using Cons.prems(1) row(2) unfolding binv_def r(1) by (auto intro: list_all2_appendI)
  show ?case
  proof (cases "k \<le> length (bg_batch ?b)")
    case True
    have "build_rows (se_env S) (se_partition S) (se_encode S) k n (r # rows) b
        = thenS (flush_encoded (se_env S) (se_partition S) (se_encode S) n) (\<lambda>_. build_rows (se_env S) (se_partition S) (se_encode S) k n rows) ?b"
      using True by (simp add: rl row(1))
    moreover have "safe_step S (binv S (se_docs S) [] [] []) ?b
        (thenS (flush_encoded (se_env S) (se_partition S) (se_encode S) n) (\<lambda>_. build_rows (se_env S) (se_partition S) (se_encode S) k n rows) ?b)"
      by (rule safe_step_then [where m = "flush_encoded (se_env S) (se_partition S) (se_encode S) n", OF flush_encoded_safe [OF assms(1) j]]) (use Cons.IH r(3) in blast)
    ultimately show ?thesis by (simp add: safe_step_weaken [where ?b1.0 = ?b])
  next
    case False
    then have "build_rows (se_env S) (se_partition S) (se_encode S) k n (r # rows) b = build_rows (se_env S) (se_partition S) (se_encode S) k n rows ?b"
      by (simp add: rl row(1))
    with Cons.IH [OF j r(3)] show ?thesis by (simp add: safe_step_weaken [where ?b1.0 = ?b])
  qed
qed

section \<open>Repeated runs\<close>

lemma rows_after:
  assumes "mapR (doc_of_row env pt enc) (numbered_rows tx) = Inr (don @ rest)"
  shows "list_all2 (\<lambda>r d. doc_of_row env pt enc r = Inr d) (iter_rows tx (if don = [] then 0 else snd (snd (last don)))) rest"
proof -
  from assms obtain A B where L: "numbered_rows tx = A @ B" "list_all2 (\<lambda>r d. doc_of_row env pt enc r = Inr d) A don"
      "list_all2 (\<lambda>r d. doc_of_row env pt enc r = Inr d) B rest"
    by (auto simp: mapR_Inr_iff list_all2_append2)
  have "iter_rows tx (if don = [] then 0 else snd (snd (last don))) = B"
  proof (cases "don = []")
    case True
    with L(2) numbered_rows_sorted(2) [of tx] show ?thesis by (auto simp: iter_rows_def L(1) filter_id_conv)
  next
    case False
    with L(2) have ne: "A \<noteq> []" by auto
    have "doc_of_row env pt enc (last A) = Inr (last don)"
      using L(2) False ne by (simp add: last_conv_nth list_all2_conv_all_nth)
    then have "snd (snd (last don)) = fst (last A)" by (rule doc_of_row_line)
    with False filter_after [OF _ ne, of B] numbered_rows_sorted(1) [of tx] show ?thesis by (simp add: iter_rows_def L(1))
  qed
  with L(3) show ?thesis by simp
qed

definition finished :: "setting \<Rightarrow> checkpoint \<Rightarrow> building \<Rightarrow> bool" where
  "finished S st b \<longleftrightarrow> docs_ok (se_docs S) (se_before S) (se_docs S) (bg_docs b) \<and> state_ok (se_contract S) (se_docs S) (se_docs S) st \<and>
     map_of st (u ''completed'') = Some (JBool True)"

lemma state_completed:
  assumes "state_ok contract D D st" "contract_ok contract"
  shows "state_ok contract D D (AList.update (u ''completed'') (JBool True) st)"
proof -
  have "fst ` set contract \<inter> {u ''completed''} = {}"
    using assms(2) by (simp add: contract_ok_def fresh_checkpoint_def dict_ok_def dkeys_def)
  then have "k \<noteq> u ''completed''" if "(k, w) \<in> set contract" for k w using that by force
  then have "\<forall>(k, w)\<in>set contract. map_of (AList.update (u ''completed'') (JBool True) st) k = Some w"
    using assms(1) by (auto simp: state_ok_def dict_simps)
  then show ?thesis using assms(1) by (auto simp: state_ok_def dict_simps flat_def scalar_u dest!: set_alist_update)
qed

lemma build_partition_safe:
  assumes "setting_ok S" "persisted S b" "se_contract S = checkpoint_contract (se_env S) (se_partition S) source model len"
    "partition_docs (se_env S) (se_partition S) (se_enc S) source = Inr (se_docs S)"
    "build_partition (se_env S) (se_partition S) (se_encode S) k n source model len b = (r, b')"
  shows "persisted S b' \<and> (\<forall>st. r = Inr st \<longrightarrow> finished S st b') \<and> (bg_io b = [] \<longrightarrow> (\<exists>st. r = Inr st))"
proof -
  let ?D = "se_docs S" and ?c = "se_contract S"
  from assms(2) obtain don rest where d: "?D = don @ rest" "file_ok (se_env S) ?c ?D don (bg_file b)" "docs_ok ?D (se_before S) don (bg_docs b)"
    unfolding persisted_def by blast
  have c: "contract_ok ?c" and fl: "float_law (fe_float (ie_files (se_env S))) (fe_repr (ie_files (se_env S)))" using assms(1) by (simp_all add: setting_ok_def)
  from load_file [OF fl c d(2)] obtain st where st: "load_checkpoint (se_env S) (bg_file b) ?c = Inr st" "state_ok ?c ?D don st" by blast
  from st(2) obtain cc where cc: "map_of st (u ''completed'') = Some (JBool cc)" "cc \<longrightarrow> don = ?D" by (auto simp: state_ok_def)
  show ?thesis
  proof (cases cc)
    case True
    then have "r = Inr st" "b' = b" using assms(5) st(1) cc(1) by (simp_all add: build_partition_def assms(3) lookup_def)
    moreover have "finished S st b" using True st(2) cc d(3) by (simp add: finished_def)
    ultimately show ?thesis using assms(2) by simp
  next
    case False
    let ?m = "if don = [] then 0 else snd (snd (last don))"
    from assms(4) obtain tx where tx: "utf8_decode source = Inr tx"
        "mapR (doc_of_row (se_env S) (se_partition S) (se_enc S)) (numbered_rows tx) = Inr ?D"
      by (auto simp: partition_docs_def result_simps)
    let ?b = "b\<lparr>bg_state := st, bg_pending := [], bg_batch := []\<rparr>"
    let ?step = "\<lambda>_ b1. thenS (write_checkpoint (se_env S)) (\<lambda>_ b3. (Inr (bg_state b3), b3))
      (b1\<lparr>bg_state := AList.update (u ''completed'') (JBool True) (bg_state b1)\<rparr>)"
    have nl: "map_of st (u ''next_line'') = Some (JInt ?m)" using st(2) by (simp add: state_ok_def)
    have e: "(r, b') = thenS (build_rows (se_env S) (se_partition S) (se_encode S) k n (iter_rows tx ?m)) ?step ?b"
      using assms(5) st(1) cc(1) False nl tx(1) by (simp add: build_partition_def assms(3) lookup_def py_int_def Let_def)
    have i: "binv S don [] [] rest ?b" using d st(2) cc(1) False unfolding binv_def by (simp add: file_ok_def)
    have rows: "list_all2 (\<lambda>r d. doc_of_row (se_env S) (se_partition S) (se_enc S) r = Inr d) (iter_rows tx ?m) rest"
      using rows_after tx(2) unfolding d(1) by blast
    let ?Q = "\<lambda>b'. persisted S b' \<and> finished S (bg_state b') b'"
    have step: "safe_step S ?Q b1 (?step x b1)" if j: "binv S ?D [] [] [] b1" for x b1
    proof -
      note b1 = binvD [OF j]
      let ?b2 = "b1\<lparr>bg_state := AList.update (u ''completed'') (JBool True) (bg_state b1)\<rparr>"
      have s2: "state_ok ?c ?D ?D (bg_state ?b2)" using state_completed [OF b1(3) c] by simp
      then show ?thesis
      proof (cases rule: write_ok [where env = "se_env S", consumes 1])
        case (works bs io)
        let ?b3 = "?b2\<lparr>bg_io := io, bg_file := Some bs\<rparr>"
        have "finished S (bg_state ?b3) ?b3" using s2 b1(6) by (simp add: finished_def dict_simps)
        moreover have "persisted S ?b3" unfolding persisted_def using works(2) b1(6) by (intro exI [of _ ?D] exI [of _ "[]"]) simp
        ultimately show ?thesis using works(3) unfolding thenS_def works(1) by (simp add: safe_step_def)
      next
        case (breaks er io)
        have "persisted S (?b2\<lparr>bg_io := io\<rparr>)" using binv_persisted [OF j] by (simp add: persisted_def)
        with breaks(2) show ?thesis unfolding thenS_def breaks(1) by (simp add: safe_step_def)
      qed
    qed
    have "safe_step S ?Q ?b (r, b')" unfolding e
      by (rule safe_step_then [where m = "build_rows (se_env S) (se_partition S) (se_encode S) k n (iter_rows tx ?m)", OF build_rows_safe [OF assms(1) i rows] step])
    moreover have "st' = bg_state b'" if "r = Inr st'" for st'
      using e that by (auto simp: thenS_def Let_def split: prod.splits sum.splits)
    ultimately show ?thesis by (cases r) (auto simp: safe_step_def)
  qed
qed

fun build_runs :: "index_env \<Rightarrow> partition \<Rightarrow> (pystr list \<Rightarrow> vector list result) \<Rightarrow> nat \<Rightarrow> nat \<Rightarrow> int list \<Rightarrow> pystr \<Rightarrow> int \<Rightarrow>
    io list list \<Rightarrow> building \<Rightarrow> building" where
  "build_runs env pt encode k n source model len [] b = b"
| "build_runs env pt encode k n source model len (ios # runs) b =
     build_runs env pt encode k n source model len runs (snd (build_partition env pt encode k n source model len (b\<lparr>bg_io := ios\<rparr>)))"

lemma build_runs_persisted:
  assumes "setting_ok S" "se_contract S = checkpoint_contract (se_env S) (se_partition S) source model len"
    "partition_docs (se_env S) (se_partition S) (se_enc S) source = Inr (se_docs S)"
  shows "persisted S b \<Longrightarrow> persisted S (build_runs (se_env S) (se_partition S) (se_encode S) k n source model len runs b)"
proof (induction runs arbitrary: b)
  case (Cons ios runs)
  obtain r b' where b': "build_partition (se_env S) (se_partition S) (se_encode S) k n source model len (b\<lparr>bg_io := ios\<rparr>) = (r, b')" by force
  have "persisted S (b\<lparr>bg_io := ios\<rparr>)" using Cons.prems by (simp add: persisted_def)
  from build_partition_safe [OF assms(1) this assms(2,3) b'] Cons.IH show ?case by (simp add: b')
qed simp

lemma contract_is_ok:
  assumes "sha_law (ie_files env)" "pt \<in> set PARTITIONS" "list_all scalar model"
  shows "contract_ok (checkpoint_contract env pt source model len)"
proof -
  have "list_all scalar (pt_id pt) \<and> list_all scalar (pt_path pt) \<and> list_all scalar (pt_index pt) \<and> flat (opt_text (pt_locale pt))"
    using assms(2) by (auto simp: PARTITIONS_def REFERENCE_INDEX_def SEED_INDEX_def AMAZON_INDEX_def scalar_u flat_def opt_text_def)
  with assms(1,3) sha_scalar show ?thesis
    by (auto simp: contract_ok_def fresh_checkpoint_def checkpoint_contract_def dict_ok_def dkeys_def flat_def scalar_u EMBEDDING_VERSION_def)
qed

text \<open>C1: A build of a partition can be broken off anywhere and repeated. Let earlier runs from an empty checkpoint each have ended
  wherever a call of the encoder, the service or the file system failed, a refused bulk request having written any part
  of its documents. After the next run, too, the index differs from what it was only at identifiers of the partition, where
  it holds their documents. If this run returns, then every document of the partition is there and nothing else has
  changed, and the checkpoint is complete and counts each document once. A run in which nothing fails returns.\<close>

theorem resumed_build_complete:
  assumes "float_law (fe_float (ie_files env)) (fe_repr (ie_files env))" "sha_law (ie_files env)" "pt \<in> set PARTITIONS" "list_all scalar model"
    "partition_docs env pt enc source = Inr D" "distinct (map fst D)" "list_all (\<lambda>d. list_all scalar (fst d)) D" "bg_file b = None"
    "build_partition env pt (\<lambda>ts. Inr (map enc ts)) k n source model len
       ((build_runs env pt (\<lambda>ts. Inr (map enc ts)) k n source model len runs b)\<lparr>bg_io := ios\<rparr>) = (r, b')"
  shows "(\<forall>x. bg_docs b' x = bg_docs b x \<or> (\<exists>d\<in>set D. fst d = x \<and> bg_docs b' x = Some (fst (snd d)))) \<and>
     (case r of
        Inr st \<Rightarrow> (\<forall>d\<in>set D. bg_docs b' (fst d) = Some (fst (snd d))) \<and> (\<forall>x. x \<notin> fst ` set D \<longrightarrow> bg_docs b' x = bg_docs b x) \<and>
          map_of st (u ''docs_written'') = Some (JInt (int (length D))) \<and> map_of st (u ''completed'') = Some (JBool True)
      | Inl e \<Rightarrow> ios \<noteq> [])"
proof -
  let ?S = "\<lparr>se_env = env, se_partition = pt, se_encode = \<lambda>ts. Inr (map enc ts), se_enc = enc,
     se_contract = checkpoint_contract env pt source model len, se_docs = D, se_before = bg_docs b\<rparr>"
  have ok: "setting_ok ?S" using assms(1,6,7) contract_is_ok [OF assms(2-4)] by (simp add: setting_ok_def)
  have "persisted ?S b" using assms(8) by (simp add: persisted_def file_ok_def docs_ok_def)
  from build_runs_persisted [OF ok _ _ this, of source model len k n runs] assms(5)
  have "persisted ?S ((build_runs env pt (\<lambda>ts. Inr (map enc ts)) k n source model len runs b)\<lparr>bg_io := ios\<rparr>)" by (simp add: persisted_def)
  from build_partition_safe [OF ok this, of source model len k n r b'] assms(5,9)
  have p: "persisted ?S b'" "\<And>st. r = Inr st \<Longrightarrow> finished ?S st b'" "ios = [] \<Longrightarrow> \<exists>st. r = Inr st" by simp_all
  have "\<forall>x. bg_docs b' x = bg_docs b x \<or> (\<exists>d\<in>set D. fst d = x \<and> bg_docs b' x = Some (fst (snd d)))"
    using p(1) by (auto simp: persisted_def docs_ok_def)
  moreover have "case r of Inr st \<Rightarrow> (\<forall>d\<in>set D. bg_docs b' (fst d) = Some (fst (snd d))) \<and> (\<forall>x. x \<notin> fst ` set D \<longrightarrow> bg_docs b' x = bg_docs b x) \<and>
          map_of st (u ''docs_written'') = Some (JInt (int (length D))) \<and> map_of st (u ''completed'') = Some (JBool True)
      | Inl e \<Rightarrow> ios \<noteq> []"
  proof (cases r)
    case (Inl e)
    with p(3) show ?thesis by auto
  next
    case (Inr st)
    from p(2) [OF this] have f: "docs_ok D (bg_docs b) D (bg_docs b')" "state_ok (checkpoint_contract env pt source model len) D D st"
      "map_of st (u ''completed'') = Some (JBool True)" by (simp_all add: finished_def)
    then show ?thesis using Inr by (force simp: docs_ok_def state_ok_def)
  qed
  ultimately show ?thesis by blast
qed

section \<open>A concrete partition\<close>

definition ex_indexed :: product where "ex_indexed = ex_product ''p1'' [ex_sku ''s1'' 3]"

definition ex_line :: pystr where "ex_line = dumps (fe_repr ex_files_env) (product_row ex_indexed) @ [10]"

definition ex_source :: "int list" where "ex_source = utf8 ex_line"

definition ex_encode :: "pystr \<Rightarrow> vector" where "ex_encode t = replicate 1024 (Some 0)"

definition ex_build_start :: building where
  "ex_build_start = \<lparr>bg_docs = Map.empty, bg_file = None, bg_state = [], bg_pending = [], bg_batch = [], bg_io = []\<rparr>"

lemma ex_rows:
  "numbered_rows ex_line = [(1, ex_line)]" "utf8_decode ex_source = Inr ex_line"
  "loads (fe_float ex_files_env) ex_line = Some (product_row ex_indexed)"
  "is_ok (product_searchable_text ex_files_env (product_row ex_indexed))" "strict_product ex_indexed" "distinct (map sku_id (skus ex_indexed))"
  by code_simp+

lemma ex_partition_docs:
  "\<exists>doc. partition_docs ex_index_env (hd PARTITIONS) ex_encode ex_source = Inr [(u ''p1'', doc, 1)]"
proof -
  have b: "fl (99 / 100) \<le> 1 \<and> 1 \<le> fl (101 / 100)" by code_simp
  have "finite_vector (ex_encode t) = Some (replicate 1024 0)" for t by (simp add: finite_vector_def ex_encode_def)
  moreover have "length (ex_encode t) = VECTOR_DIMENSION" for t by (simp add: ex_encode_def VECTOR_DIMENSION_def)
  ultimately have "\<exists>doc. index_document ex_index_env (product_row ex_indexed) None (ex_encode t) = Inr doc" for t
    using b by (simp add: index_document_def row_validates [OF ex_rows(5,6)] ex_index_env_def)
  moreover have "getitem (product_row ex_indexed) (u ''product_id'') = Inr (JStr (u ''p1''))"
    by (simp add: getitem_def product_row_def ex_indexed_def ex_product_def)
  ultimately have "\<exists>doc. row_document ex_index_env (hd PARTITIONS) (1, product_row ex_indexed) (ex_encode t) = Inr (u ''p1'', doc, 1)" for t
    by (auto simp: row_document_def need_text_def PARTITIONS_def result_simps)
  moreover obtain t where "product_searchable_text ex_files_env (product_row ex_indexed) = Inr t" using ex_rows(4) by (auto simp: is_ok_iff)
  moreover have "ie_files ex_index_env = ex_files_env" by (simp add: ex_index_env_def)
  ultimately show ?thesis by (simp add: partition_docs_def ex_rows(1-3) doc_of_row_def result_simps)
qed

lemma resumed_build_complete_witness:
  "\<exists>st b'. build_partition ex_index_env (hd PARTITIONS) (\<lambda>ts. Inr (map ex_encode ts)) 8 64 ex_source (u ''bge'') 512
       ((build_runs ex_index_env (hd PARTITIONS) (\<lambda>ts. Inr (map ex_encode ts)) 8 64 ex_source (u ''bge'') 512
          [[Works, Breaks [0]], [Works, Works, Breaks []]] ex_build_start)\<lparr>bg_io := []\<rparr>) = (Inr st, b') \<and>
     bg_docs b' (u ''p1'') \<noteq> None \<and> bg_docs b' (u ''p2'') = None \<and> map_of st (u ''docs_written'') = Some (JInt 1)"
proof -
  obtain doc where D: "partition_docs ex_index_env (hd PARTITIONS) ex_encode ex_source = Inr [(u ''p1'', doc, 1)]" using ex_partition_docs by blast
  obtain r b' where r: "build_partition ex_index_env (hd PARTITIONS) (\<lambda>ts. Inr (map ex_encode ts)) 8 64 ex_source (u ''bge'') 512
       ((build_runs ex_index_env (hd PARTITIONS) (\<lambda>ts. Inr (map ex_encode ts)) 8 64 ex_source (u ''bge'') 512
          [[Works, Breaks [0]], [Works, Works, Breaks []]] ex_build_start)\<lparr>bg_io := []\<rparr>) = (r, b')" by force
  have p: "hd PARTITIONS \<in> set PARTITIONS" by (simp add: PARTITIONS_def)
  have l: "float_law (fe_float (ie_files ex_index_env)) (fe_repr (ie_files ex_index_env))" "sha_law (ie_files ex_index_env)"
    using ex_env_laws by (simp_all add: ex_index_env_def)
  have f: "bg_file ex_build_start = None" "bg_docs ex_build_start = Map.empty" by (simp_all add: ex_build_start_def)
  from resumed_build_complete [OF l p scalar_u D _ _ f(1) r] have m: "case r of Inr st \<Rightarrow> bg_docs b' (u ''p1'') = Some doc \<and>
      bg_docs b' (u ''p2'') = None \<and> map_of st (u ''docs_written'') = Some (JInt 1) | Inl e \<Rightarrow> False"
    by (auto simp: f(2) scalar_u split: sum.splits)
  then show ?thesis unfolding r by (cases r) auto
qed

end
