(* ===== verification/Spec2Isabelle.thy ===== *)
theory Spec2Isabelle
  imports Money Catalog Tariff Orders Order_Repository Order_Usecases Catalog_Search Redis Transient
    Tool_Chunk Resilience Token_Budget Event_Bus Json Harness Preferences Context_Budget Lifecycle
    Json_Parse Tool_Output Reducer Sessions Task_Queue Intake Summaries Compactor Assembler
    Order_Tools Search_Dispatch Caches Drift Agents Orchestrator Middleware Catalog_Build Product_Index Index_Resume
begin

text \<open>
  CrossShop is a shopping assistant: a web server takes a buyer's message, a queue and a worker (or the
  server itself) hand it to an orchestrator, a language model agent answers it with tools, and the tools
  call use cases over a product catalog and an order store. The catalog and its search index are built offline
  from staged rows. This library models the Python code of \<open>src/app\<close> and of the two builders under
  \<open>src/scripts\<close>, and states what makes each part correct. Every definition names the code it
  translates by keeping its name.

  \<^bold>\<open>Conventions.\<close> Text is a list of code points (\<open>pystr\<close>, \<open>u ''...''\<close> for a literal), an unbounded int is
  \<open>int\<close>, a double is the rational it stands for with the rounding of each operation written out
  (\<open>Py_Float\<close>), a dict is an association list with distinct keys where order matters. A computation that
  may raise has a value of type \<open>result\<close>: \<open>Inl\<close> the exception or \<open>Inr\<close> the value; a handler that changes
  state returns the state beside its result, so what a failed call leaves behind is part of every
  statement. Messages of exceptions are short names. Definitions are executable, and the concrete
  instances at the end of each theory are evaluated by \<open>simp\<close> or \<open>code_simp\<close>.

  \<^bold>\<open>The theories and the code.\<close>
  \<^item> \<open>Prelude\<close>: results, \<open>mapR\<close>, texts, dictionaries and the lemmas shared by all. \<open>Py_Float\<close>: doubles.
    \<open>Json\<close> and \<open>Json_Parse\<close>: JSON values, \<open>json.dumps\<close> and \<open>json.loads\<close>, with the round trip of the two;
    \<open>Json_Print\<close>: the sorted and indented printers and UTF-8.
  \<^item> Domain (\<open>app/domain\<close>): \<open>Money\<close> (\<open>money.py\<close>, \<open>exchange_rate.py\<close>), \<open>Catalog\<close> (\<open>sku.py\<close>, \<open>product.py\<close>,
    \<open>product_search_spec.py\<close>), \<open>Tariff\<close> (\<open>tariff_schedule.py\<close>), \<open>Orders\<close> (\<open>order.py\<close>, \<open>order_line.py\<close>, \<open>address.py\<close>).
  \<^item> Use cases (\<open>app/application/usecases\<close>): \<open>Order_Usecases\<close> places, queries and cancels orders with the
    compensation of every failure, over the locale \<open>order_store\<close>, which \<open>Order_Repository\<close> implements twice (in memory
    and relational); \<open>Catalog_Search\<close> is recall, hard constraints, rerank and cards.
  \<^item> Tools (\<open>app/application/tools\<close>): \<open>Order_Tools\<close>, \<open>Search_Dispatch\<close> (\<open>product_search_tool.py\<close> and
    \<open>task_dispatch_tool.py\<close> on the event bus), \<open>Preferences\<close> (value object, both stores, selector, tools),
    \<open>Tool_Chunk\<close> (the result of a tool).
  \<^item> Protection of the agent: \<open>Resilience\<close> (circuit breakers, local and shared, and the tool middleware),
    \<open>Transient\<close> (retry and throttle), \<open>Token_Budget\<close>, \<open>Harness\<close> (loop detector, sequence rules, guard rails).
  \<^item> Context of the agent (\<open>app/application/context\<close>): \<open>Context_Budget\<close>, \<open>Lifecycle\<close> (settled units), \<open>Tool_Output\<close>
    (contracts and artifacts), \<open>Reducer\<close> (session context L4), \<open>Summaries\<close> (stored records, hashes, the sizing loop),
    \<open>Compactor\<close> (freezing and summarising), \<open>Assembler\<close> (one step of the context state and the model view) and
    \<open>Middleware\<close> (\<open>context_middleware.py\<close>, the hooks that run them around a reply, a tool call and a model call).
  \<^item> Agents (\<open>app/application/agents\<close>): \<open>Agents\<close> (the session registry of \<open>main_agent.py\<close> and \<open>permissions.py\<close>),
    \<open>Orchestrator\<close> (\<open>handle_intent\<close> of \<open>orchestrator.py\<close> on every path), \<open>Drift\<close> (\<open>drift_detector.py\<close>) and \<open>Caches\<close>
    (\<open>cached_embedding_client.py\<close>, \<open>semantic_cache.py\<close>).
  \<^item> Sessions and delivery: \<open>Event_Bus\<close>, \<open>Sessions\<close> (file and relational stores of sessions and conversations),
    \<open>Redis\<close> (the commands the code sends), \<open>Task_Queue\<close> (stream queue, backplane, worker) and \<open>Intake\<close>
    (submission, idempotency and status in \<open>server.py\<close>).
  \<^item> The catalog on disk: \<open>Catalog_Files\<close> (the strict contract of \<open>product_sku_contract_v2.py\<close>) and \<open>Catalog_Build\<close>
    (\<open>scripts/data/build_catalogs_v2.py\<close> from staged rows to the published directory, and the repository of
    \<open>jsonl_product_repository.py\<close> that reads it back).
  \<^item> The product index: \<open>Product_Index\<close> (documents, index and query bodies of \<open>opensearch_product_h1.py\<close> and the
    adapter \<open>opensearch_product_index.py\<close>), \<open>Index_Build\<close> and \<open>Index_Resume\<close> (the checkpointed build of
    \<open>scripts/index/build_product_opensearch.py\<close>).

  \<^bold>\<open>How they interact.\<close> \<open>Intake\<close> puts a task in the stream that \<open>Task_Queue\<close> consumes; the worker's answer is read
  back under the task's key. Tools publish on \<open>Event_Bus\<close>; \<open>Search_Dispatch\<close> reads its own result back from
  there. \<open>Order_Tools\<close> calls \<open>Order_Usecases\<close>, whose stores satisfy \<open>order_store\<close>. \<open>Lifecycle\<close> decides what
  \<open>Compactor\<close> freezes, \<open>Summaries\<close> gives the records, \<open>Assembler\<close> composes them with the L4 context of \<open>Reducer\<close>,
  and \<open>Middleware\<close> runs all of it for one agent. \<open>Orchestrator\<close> takes a session from the registry of \<open>Agents\<close>, asks the
  semantic cache of \<open>Caches\<close>, drains the queues of \<open>Event_Bus\<close>, checks displayed products against the context of \<open>Reducer\<close> and
  hands the trace of the turn to \<open>Drift\<close>. \<open>Catalog_Build\<close> publishes the files that its repository loads into the entities of
  \<open>Catalog\<close>; \<open>Index_Build\<close> indexes the same products, and the adapter of \<open>Product_Index\<close> is a recall service of
  \<open>Catalog_Search\<close>.

  \<^bold>\<open>What the lemmas show.\<close> Each component has its well-formedness predicate (\<open>catalog_ok\<close>, \<open>order_ok\<close>, \<open>sql_inv\<close>,
  \<open>bus_ok\<close>, \<open>json_ok\<close> and others) with the proof that every operation keeps it, a case rule for each operation
  over all its outcomes, and the property on top: atomicity and conservation for orders, soundness for
  search and for recommendations, agreement of the two implementations of each store, exact accounting of
  the compaction, at most one delivery for the queue, isolation of dispatches, a turn that always cleans up
  after itself, a published catalog that reads back as what was built and that a failed or refused build leaves alone, an index
  build that ends with the same index however often it is interrupted and resumed. Some properties state a behaviour
  that is a defect; the manifest lists them as findings.

  \<^bold>\<open>Bounds and fuel.\<close> \<open>json.loads\<close> runs with fuel twice the length of the text, which the round trip shows
  enough for every text \<open>json.dumps\<close> produces. The sizing loop of a summary runs at most four rounds in the
  code; \<open>summary_estimate_exact\<close> shows that it reaches its fixed point within them. Other loops
  are structural.

  \<^bold>\<open>Parameters.\<close> Hashes (SHA-256 among them), \<open>uuid4\<close>, the clock, Unicode tables (\<open>lower\<close>, \<open>isalnum\<close>), \<open>repr\<close> and
  \<open>str\<close> of values, decimal conversion of a JSON number, the norm of a vector, the token counter, embedding and rerank
  services, the HTTP client of the index, the database engine's failures, the language model and the reply stream of an agent are
  arguments; hypotheses about them are named in the statements that need them and shown satisfiable by the witnesses.
  The Redis server is the store its documentation describes.

  \<^bold>\<open>Not modelled.\<close> Cancellation of asyncio tasks and preemption between awaits (interleavings are explicit lists of
  operations where they matter: bus, queue, dispatch), tracing, the agent framework, regular expressions of the content filter
  and the output guard (parameters of their users) and those with which the compactor reads requests and answers, HTTP routes and
  server start, settings and composition, the vector and web adapters other than the product index, seed data, and the offline
  scripts under \<open>src/scripts\<close> other than the catalog builder and the index build.
\<close>

end
